(* ===== verification/Network_Types.thy ===== *)
theory Network_Types
  imports Prelude
begin

text \<open>
  \<^verbatim>\<open>crates/kidobo-core/src/network_types.rs\<close> and the family type of
  \<^verbatim>\<open>crates/kidobo-core/src/lib.rs\<close>: canonical CIDR values of both address families.

  The two structs \<open>Ipv4Cidr\<close> and \<open>Ipv6Cidr\<close> have the same code at 32 and 128 bits, so they
  are one type \<open>cidr\<close> over the word type of the address, with the family's functions as
  instances of the definitions for any word length. A prefix (\<open>u8\<close> in the code) is a natural
  number; the constructors bound it by the word length. \<open>cidr_ok\<close> is the invariant the
  constructors establish, \<open>cidr_addrs\<close> the addresses a network stands for.
\<close>

unbundle bit_operations_syntax

section \<open>Types and constructors\<close>

datatype address_family = Ipv4 | Ipv6

datatype 'w cidr = Cidr (network: 'w) (prefix_len: nat)

type_synonym Ipv4Cidr = "32 word cidr"
type_synonym Ipv6Cidr = "128 word cidr"

datatype canonical_cidr = V4 Ipv4Cidr | V6 Ipv6Cidr

fun family :: "canonical_cidr \<Rightarrow> address_family" where
  "family (V4 _) = Ipv4"
| "family (V6 _) = Ipv6"

record family_cidrs =
  fc_ipv4 :: "Ipv4Cidr list"
  fc_ipv6 :: "Ipv6Cidr list"

text \<open>\<open>u32::MAX.checked_shr(prefix).unwrap_or(0)\<close> at any width.\<close>

definition host_mask :: "nat \<Rightarrow> 'a::len word" where
  "host_mask p = (if p < LENGTH('a) then drop_bit p (- 1) else 0)"

definition ipv4_host_mask :: "nat \<Rightarrow> 32 word" where
  "ipv4_host_mask p = host_mask p"

definition ipv6_host_mask :: "nat \<Rightarrow> 128 word" where
  "ipv6_host_mask p = host_mask p"

definition ipv4_mask :: "nat \<Rightarrow> 32 word" where
  "ipv4_mask p = NOT (ipv4_host_mask p)"

definition ipv6_mask :: "nat \<Rightarrow> 128 word" where
  "ipv6_mask p = NOT (ipv6_host_mask p)"

definition Ipv4Cidr_from_parts :: "32 word \<Rightarrow> nat \<Rightarrow> Ipv4Cidr" where
  "Ipv4Cidr_from_parts a p = Cidr (a AND ipv4_mask p) p"

definition Ipv6Cidr_from_parts :: "128 word \<Rightarrow> nat \<Rightarrow> Ipv6Cidr" where
  "Ipv6Cidr_from_parts a p = Cidr (a AND ipv6_mask p) p"

definition Ipv4Cidr_new :: "32 word \<Rightarrow> nat \<Rightarrow> Ipv4Cidr option" where
  "Ipv4Cidr_new a p = (if p > 32 then None else Some (Ipv4Cidr_from_parts a p))"

definition Ipv6Cidr_new :: "128 word \<Rightarrow> nat \<Rightarrow> Ipv6Cidr option" where
  "Ipv6Cidr_new a p = (if p > 128 then None else Some (Ipv6Cidr_from_parts a p))"

text \<open>The derived orders: fields in declaration order, \<open>V4\<close> before \<open>V6\<close>.\<close>

instantiation cidr :: (linorder) linorder
begin

definition less_eq_cidr :: "'a cidr \<Rightarrow> 'a cidr \<Rightarrow> bool" where
  "a \<le> b \<longleftrightarrow> network a < network b \<or> (network a = network b \<and> prefix_len a \<le> prefix_len b)"

definition less_cidr :: "'a cidr \<Rightarrow> 'a cidr \<Rightarrow> bool" where
  "a < b \<longleftrightarrow> network a < network b \<or> (network a = network b \<and> prefix_len a < prefix_len b)"

instance
  by standard (auto simp: less_eq_cidr_def less_cidr_def cidr.expand)

end

instantiation canonical_cidr :: linorder
begin

fun less_eq_canonical_cidr :: "canonical_cidr \<Rightarrow> canonical_cidr \<Rightarrow> bool" where
  "less_eq_canonical_cidr (V4 a) (V4 b) \<longleftrightarrow> a \<le> b"
| "less_eq_canonical_cidr (V4 a) (V6 b) \<longleftrightarrow> True"
| "less_eq_canonical_cidr (V6 a) (V4 b) \<longleftrightarrow> False"
| "less_eq_canonical_cidr (V6 a) (V6 b) \<longleftrightarrow> a \<le> b"

definition less_canonical_cidr :: "canonical_cidr \<Rightarrow> canonical_cidr \<Rightarrow> bool" where
  "less_canonical_cidr a b \<longleftrightarrow> a \<le> b \<and> \<not> b \<le> a"

instance
proof
  fix x y z :: canonical_cidr
  show "x < y \<longleftrightarrow> x \<le> y \<and> \<not> y \<le> x" by (rule less_canonical_cidr_def)
  show "x \<le> x" by (cases x) auto
  show "x \<le> z" if "x \<le> y" "y \<le> z" using that by (cases x; cases y; cases z) auto
  show "x = y" if "x \<le> y" "y \<le> x" using that by (cases x; cases y) auto
  show "x \<le> y \<or> y \<le> x" by (cases x; cases y) auto
qed

end

section \<open>Masks and canonical networks\<close>

text \<open>The width-independent constructor the two families share.\<close>

definition from_parts :: "'a::len word \<Rightarrow> nat \<Rightarrow> 'a word cidr" where
  "from_parts a p = Cidr (a AND NOT (host_mask p)) p"

lemma Ipv4Cidr_from_parts_eq: "Ipv4Cidr_from_parts a p = from_parts a p"
  by (simp add: Ipv4Cidr_from_parts_def from_parts_def ipv4_mask_def ipv4_host_mask_def)

lemma Ipv6Cidr_from_parts_eq: "Ipv6Cidr_from_parts a p = from_parts a p"
  by (simp add: Ipv6Cidr_from_parts_def from_parts_def ipv6_mask_def ipv6_host_mask_def)

definition cidr_ok :: "'a::len word cidr \<Rightarrow> bool" where
  "cidr_ok c \<longleftrightarrow> prefix_len c \<le> LENGTH('a) \<and> network c AND host_mask (prefix_len c) = 0"

fun canonical_ok :: "canonical_cidr \<Rightarrow> bool" where
  "canonical_ok (V4 c) \<longleftrightarrow> cidr_ok c"
| "canonical_ok (V6 c) \<longleftrightarrow> cidr_ok c"

text \<open>The addresses of a network: those that agree with it on the first bits.\<close>

definition cidr_addrs :: "'a::len word cidr \<Rightarrow> 'a word set" where
  "cidr_addrs c = {x. drop_bit (LENGTH('a) - prefix_len c) x
                      = drop_bit (LENGTH('a) - prefix_len c) (network c)}"

lemma host_mask_eq_mask: "(host_mask p :: 'a::len word) = mask (LENGTH('a) - p)"
proof (cases "p < LENGTH('a)")
  case True
  then show ?thesis
    by (auto simp: host_mask_def bit_eq_iff bit_drop_bit_eq bit_mask_iff bit_simps)
next
  case False
  then show ?thesis by (simp add: host_mask_def)
qed

lemma word_eq_iff_unat: "x = y \<longleftrightarrow> unat (x :: 'a::len word) = unat y"
  by (simp add: word_eq_iff_unsigned)

lemma unat_take_bit_word: "unat (take_bit k (w :: 'a::len word)) = unat w mod 2 ^ k"
  using take_bit_eq_mod [of k "unat w"] by (simp add: unsigned_take_bit_eq)

lemma unat_drop_bit_word: "unat (drop_bit k (w :: 'a::len word)) = unat w div 2 ^ k"
  using drop_bit_eq_div [of k "unat w"] by (simp add: unat_drop_bit_eq)

lemma unat_mask_word:
  assumes "k \<le> LENGTH('a)"
  shows "unat (mask k :: 'a::len word) = 2 ^ k - 1"
proof -
  have "unat (mask k :: 'a word) = unat (take_bit k (- 1 :: 'a word))"
    by (simp add: take_bit_minus_one_eq_mask)
  also have "\<dots> = take_bit k (mask LENGTH('a))"
    by (simp only: unsigned_take_bit_eq unsigned_minus_1_eq_mask)
  also have "\<dots> = mask k"
    using assms by (simp only: take_bit_of_mask min_absorb1)
  also have "\<dots> = (2 ^ k - 1 :: nat)" by (rule mask_eq_exp_minus_1)
  finally show ?thesis .
qed

lemma unat_host_mask: "unat (host_mask p :: 'a::len word) = 2 ^ (LENGTH('a) - p) - 1"
  by (simp add: host_mask_eq_mask unat_mask_word)

lemma and_host_mask: "(w :: 'a::len word) AND host_mask p = take_bit (LENGTH('a) - p) w"
  by (simp add: host_mask_eq_mask take_bit_eq_mask)

lemma and_host_mask_eq_0_iff:
  "(w :: 'a::len word) AND host_mask p = 0 \<longleftrightarrow> 2 ^ (LENGTH('a) - p) dvd unat w"
proof -
  have "w AND host_mask p = 0 \<longleftrightarrow> unat (w AND host_mask p) = 0" by (simp add: unat_eq_0)
  then show ?thesis by (simp add: and_host_mask unat_take_bit_word dvd_eq_mod_eq_0)
qed

lemma and_not_host_mask:
  "(w :: 'a::len word) AND NOT (host_mask p)
     = push_bit (LENGTH('a) - p) (drop_bit (LENGTH('a) - p) w)"
  by (auto simp: host_mask_eq_mask bit_eq_iff bit_simps)

lemma unat_and_not_host_mask:
  "unat ((w :: 'a::len word) AND NOT (host_mask p))
     = unat w div 2 ^ (LENGTH('a) - p) * 2 ^ (LENGTH('a) - p)"
proof -
  let ?k = "LENGTH('a) - p"
  let ?q = "unat w div 2 ^ ?k * 2 ^ ?k"
  have q: "?q < 2 ^ LENGTH('a)"
    by (rule le_less_trans [OF div_times_less_eq_dividend unsigned_less])
  have "unat (w AND NOT (host_mask p)) = take_bit LENGTH('a) (push_bit ?k (unat (drop_bit ?k w)))"
    by (simp only: and_not_host_mask unsigned_push_bit_eq)
  also have "\<dots> = take_bit LENGTH('a) ?q"
    by (simp only: unat_drop_bit_word push_bit_eq_mult)
  finally show ?thesis using q by (simp only: take_bit_nat_eq_self)
qed

lemma cidr_ok_dvd:
  "cidr_ok (c :: 'a::len word cidr) \<longleftrightarrow>
     prefix_len c \<le> LENGTH('a) \<and> 2 ^ (LENGTH('a) - prefix_len c) dvd unat (network c)"
  by (simp add: cidr_ok_def and_host_mask_eq_0_iff)

lemma from_parts_sel [simp]:
  "prefix_len (from_parts a p) = p"
  "network (from_parts a p) = a AND NOT (host_mask p)"
  by (simp_all add: from_parts_def)

lemma from_parts_ok: "p \<le> LENGTH('a) \<Longrightarrow> cidr_ok (from_parts (a :: 'a::len word) p)"
  by (simp add: cidr_ok_dvd unat_and_not_host_mask)

lemma from_parts_aligned:
  assumes "(a :: 'a::len word) AND host_mask p = 0"
  shows "from_parts a p = Cidr a p"
proof -
  have "unat (a AND NOT (host_mask p)) = unat a"
    using assms by (simp add: unat_and_not_host_mask and_host_mask_eq_0_iff)
  then show ?thesis by (simp add: from_parts_def word_eq_iff_unat)
qed

lemma cidr_addrs_iff:
  "x \<in> cidr_addrs (c :: 'a::len word cidr) \<longleftrightarrow>
     unat x div 2 ^ (LENGTH('a) - prefix_len c) = unat (network c) div 2 ^ (LENGTH('a) - prefix_len c)"
  by (simp add: cidr_addrs_def word_eq_iff_unat unat_drop_bit_word)

lemma from_parts_addrs:
  "cidr_addrs (from_parts (a :: 'a::len word) p)
     = {x. drop_bit (LENGTH('a) - p) x = drop_bit (LENGTH('a) - p) a}"
  by (auto simp: cidr_addrs_iff unat_and_not_host_mask unat_drop_bit_word word_eq_iff_unat)

lemma Ipv4Cidr_new_ok: "Ipv4Cidr_new a p = Some c \<Longrightarrow> cidr_ok c \<and> prefix_len c = p"
  by (auto simp: Ipv4Cidr_new_def Ipv4Cidr_from_parts_eq from_parts_ok split: if_splits)

lemma Ipv6Cidr_new_ok: "Ipv6Cidr_new a p = Some c \<Longrightarrow> cidr_ok c \<and> prefix_len c = p"
  by (auto simp: Ipv6Cidr_new_def Ipv6Cidr_from_parts_eq from_parts_ok split: if_splits)

end
