(* ===== verification/Intervals.thy ===== *)
theory Intervals
  imports Network_Types
begin

text \<open>
  The interval arithmetic of \<^verbatim>\<open>crates/kidobo-core/src/network.rs\<close>: conversion of networks to
  closed intervals, merging of overlapping or adjacent intervals, and subtraction of one
  merged list from another. \<open>IntervalU32\<close> and \<open>IntervalU128\<close> are one type over the word
  type; the two copies of each loop in the code are one definition at any width.

  \<open>iv_set\<close> and \<open>ivs_set\<close> give the addresses of an interval and of a list. \<open>separated\<close> is
  the normal form the merge establishes: valid intervals in ascending order with at least
  one address between neighbours. A set of addresses has exactly one separated list
  (\<open>separated_unique\<close>), so every merge that keeps the addresses and separates them gives
  the same list, whatever the order of ties in its sort.
\<close>

section \<open>Definitions\<close>

datatype 'w interval = Interval (start: 'w) (iend: 'w)

type_synonym IntervalU32 = "32 word interval"
type_synonym IntervalU128 = "128 word interval"

instantiation interval :: (linorder) linorder
begin

definition less_eq_interval :: "'a interval \<Rightarrow> 'a interval \<Rightarrow> bool" where
  "a \<le> b \<longleftrightarrow> start a < start b \<or> (start a = start b \<and> iend a \<le> iend b)"

definition less_interval :: "'a interval \<Rightarrow> 'a interval \<Rightarrow> bool" where
  "a < b \<longleftrightarrow> start a < start b \<or> (start a = start b \<and> iend a < iend b)"

instance
  by standard (auto simp: less_eq_interval_def less_interval_def interval.expand)

end

definition saturating_add :: "'a::len word \<Rightarrow> 'a word \<Rightarrow> 'a word" where
  "saturating_add a b = (if unat a + unat b < 2 ^ LENGTH('a) then a + b else - 1)"

definition to_interval :: "'a::len word cidr \<Rightarrow> 'a word interval" where
  "to_interval c = Interval (network c) (saturating_add (network c) (host_mask (prefix_len c)))"

definition intervals_overlap :: "'a::len word interval \<Rightarrow> 'a word interval \<Rightarrow> bool" where
  "intervals_overlap a b \<longleftrightarrow> \<not> (iend a < start b \<or> iend b < start a)"

text \<open>The merge loop after sorting; \<open>current\<close> is the interval still open.\<close>

fun merge_pass :: "'a::len word interval \<Rightarrow> 'a word interval list \<Rightarrow> 'a word interval list" where
  "merge_pass current [] = [current]"
| "merge_pass current (i # is) =
     (if start i \<le> saturating_add (iend current) 1
      then merge_pass (Interval (start current) (max (iend current) (iend i))) is
      else current # merge_pass i is)"

fun merge_sorted :: "'a::len word interval list \<Rightarrow> 'a word interval list" where
  "merge_sorted [] = []"
| "merge_sorted (i # is) = merge_pass i is"

text \<open>
  The inner loop of the subtraction over the carve intervals from index \<open>idx\<close> on, which
  are given as that suffix: the pieces pushed, the final \<open>next_start\<close>, \<open>fully_carved\<close> and
  the suffix at the final index.
\<close>

fun carve_loop :: "'a::len word interval \<Rightarrow> 'a word \<Rightarrow> 'a word interval list
    \<Rightarrow> 'a word interval list \<times> 'a word \<times> bool \<times> 'a word interval list" where
  "carve_loop base next_start [] = ([], next_start, False, [])"
| "carve_loop base next_start (c # cs) =
     (if start c > iend base then ([], next_start, False, c # cs)
      else if iend c < next_start then carve_loop base next_start cs
      else let piece = (if start c > next_start then [Interval next_start (start c - 1)] else [])
           in if iend c \<ge> iend base then (piece, next_start, True, c # cs)
              else case carve_loop base (iend c + 1) cs of
                (pieces, ns, full, rest) \<Rightarrow> (piece @ pieces, ns, full, rest))"

fun subtract_loop :: "'a::len word interval list \<Rightarrow> 'a word interval list
    \<Rightarrow> 'a word interval list" where
  "subtract_loop [] carve = []"
| "subtract_loop (b # bs) carve =
     (case carve_loop b (start b) (dropWhile (\<lambda>c. iend c < start b) carve) of
        (pieces, next_start, fully_carved, rest) \<Rightarrow>
          pieces
          @ (if \<not> fully_carved \<and> next_start \<le> iend b then [Interval next_start (iend b)] else [])
          @ subtract_loop bs rest)"

definition subtract_merged :: "'a::len word interval list \<Rightarrow> 'a word interval list
    \<Rightarrow> 'a word interval list" where
  "subtract_merged base carve =
     (if base = [] then [] else if carve = [] then base else subtract_loop base carve)"

section \<open>Addresses and the separated normal form\<close>

definition iv_set :: "'w::linorder interval \<Rightarrow> 'w set" where
  "iv_set i = {start i .. iend i}"

definition ivs_set :: "'w::linorder interval list \<Rightarrow> 'w set" where
  "ivs_set is = (\<Union>i \<in> set is. iv_set i)"

definition iv_valid :: "'w::linorder interval \<Rightarrow> bool" where
  "iv_valid i \<longleftrightarrow> start i \<le> iend i"

definition gap :: "'a::len word interval \<Rightarrow> 'a word interval \<Rightarrow> bool" where
  "gap a b \<longleftrightarrow> unat (iend a) + 1 < unat (start b)"

definition separated :: "'a::len word interval list \<Rightarrow> bool" where
  "separated is \<longleftrightarrow> sorted_wrt gap is \<and> (\<forall>i \<in> set is. iv_valid i)"

lemma iv_set_simps [simp]: "x \<in> iv_set (Interval a b) \<longleftrightarrow> a \<le> x \<and> x \<le> b"
  by (simp add: iv_set_def)

lemma in_iv_set: "x \<in> iv_set i \<longleftrightarrow> start i \<le> x \<and> x \<le> iend i"
  by (simp add: iv_set_def)

lemma ivs_set_simps [simp]:
  "ivs_set [] = {}"
  "ivs_set (i # is) = iv_set i \<union> ivs_set is"
  "ivs_set (is @ js) = ivs_set is \<union> ivs_set js"
  by (auto simp: ivs_set_def)

lemma in_ivs_set: "x \<in> ivs_set is \<longleftrightarrow> (\<exists>i \<in> set is. start i \<le> x \<and> x \<le> iend i)"
  by (auto simp: ivs_set_def iv_set_def)

lemma ivs_set_mset_cong: "set is = set js \<Longrightarrow> ivs_set is = ivs_set js"
  by (simp add: ivs_set_def)

lemma separated_simps [simp]:
  "separated []"
  "separated (i # is) \<longleftrightarrow> iv_valid i \<and> (\<forall>j \<in> set is. gap i j) \<and> separated is"
  by (auto simp: separated_def)

lemma separated_append:
  "separated (is @ js) \<longleftrightarrow>
     separated is \<and> separated js \<and> (\<forall>i \<in> set is. \<forall>j \<in> set js. gap i j)"
  by (auto simp: separated_def sorted_wrt_append)

lemma start_le_saturating_add_1:
  "s \<le> saturating_add e 1 \<longleftrightarrow> unat s \<le> unat (e :: 'a::len word) + 1"
proof (cases "unat e + 1 < 2 ^ LENGTH('a)")
  case True
  then have "unat (e + 1) = unat e + 1"
    by (simp add: unat_plus_if')
  with True show ?thesis by (simp add: saturating_add_def word_le_nat_alt)
next
  case False
  moreover have "unat s < 2 ^ LENGTH('a)" by (rule unsigned_less)
  ultimately have "unat s \<le> unat e + 1" by linarith
  with False show ?thesis by (simp add: saturating_add_def)
qed

lemma unat_succ_word:
  assumes "(e :: 'a::len word) < f"
  shows "unat (e + 1) = unat e + 1"
proof -
  have "unat f < 2 ^ LENGTH('a)" by (rule unsigned_less)
  moreover have "unat e < unat f" using assms by (simp add: word_less_nat_alt)
  ultimately have "unat e + 1 < 2 ^ LENGTH('a)" by linarith
  then show ?thesis by (simp add: unat_plus_if')
qed

lemma unat_pred_word:
  "(e :: 'a::len word) < f \<Longrightarrow> unat (f - 1) = unat f - 1"
  by (metis unat_minus_one word_gt_0_no word_greater_zero_iff word_not_simps(1))

lemma unat_gt_0_word: "(e :: 'a::len word) < f \<Longrightarrow> 0 < unat f"
  by (simp add: word_less_nat_alt)

lemma separated_hd_least:
  "separated (i # is) \<Longrightarrow> x \<in> ivs_set (i # is) \<Longrightarrow> start i \<le> x"
  by (auto simp: in_ivs_set in_iv_set gap_def iv_valid_def word_le_nat_alt)

lemma separated_end_succ_notin:
  assumes "separated (i # is)" "unat x = unat (iend i) + 1"
  shows "x \<notin> ivs_set (i # is)"
  using assms by (auto simp: in_ivs_set in_iv_set gap_def word_le_nat_alt)

lemma separated_nonempty: "separated (i # is) \<Longrightarrow> start i \<in> ivs_set (i # is)"
  by (simp add: in_iv_set iv_valid_def)

text \<open>A connected set of addresses inside a separated list lies in one interval.\<close>

lemma separated_connected:
  assumes "separated is" "{a .. b} \<subseteq> ivs_set is" "a \<le> (b :: 'a::len word)"
  shows "\<exists>i \<in> set is. {a .. b} \<subseteq> iv_set i"
  using assms
proof (induction "is")
  case Nil
  then show ?case by auto
next
  case (Cons i "is")
  have a: "start i \<le> a"
    using Cons.prems separated_hd_least [of i "is" a] by auto
  show ?case
  proof (cases "a \<le> iend i")
    case True
    have "b \<le> iend i"
    proof (rule ccontr)
      assume "\<not> b \<le> iend i"
      then have lt: "iend i < b" by simp
      then have "unat (iend i + 1) = unat (iend i) + 1" by (rule unat_succ_word)
      moreover have "iend i + 1 \<in> {a .. b}"
        using True lt by (simp add: word_le_nat_alt word_less_nat_alt calculation)
      ultimately show False
        using separated_end_succ_notin [OF Cons.prems(1)] Cons.prems(2) by blast
    qed
    with a have "{a .. b} \<subseteq> iv_set i" by (auto simp: in_iv_set)
    then show ?thesis by auto
  next
    case False
    then have "{a .. b} \<subseteq> ivs_set is"
      using Cons.prems(2) by (fastforce simp: in_iv_set)
    with Cons show ?thesis by auto
  qed
qed

lemma separated_unique:
  assumes "separated is" "separated js" "ivs_set is = ivs_set js"
  shows "is = (js :: 'a::len word interval list)"
  using assms
proof (induction "is" arbitrary: js)
  case Nil
  then show ?case by (cases js) (auto simp: in_iv_set iv_valid_def set_eq_iff)
next
  case (Cons i "is")
  obtain j js' where js: "js = j # js'"
    using Cons.prems separated_nonempty [of i "is"] by (cases js) auto
  have s: "start i = start j"
    using Cons.prems separated_hd_least separated_nonempty js by (metis order_antisym)
  have e: "\<not> iend a < iend b"
    if "separated (a # as)" "separated (b # bs)" "ivs_set (a # as) = ivs_set (b # bs)"
      "start a = start b" for a b :: "'a word interval" and as bs
  proof
    assume lt: "iend a < iend b"
    then have u: "unat (iend a + 1) = unat (iend a) + 1" by (rule unat_succ_word)
    have "iend a + 1 \<in> iv_set b"
      using that lt u by (auto simp: in_iv_set iv_valid_def word_le_nat_alt word_less_nat_alt)
    then show False
      using separated_end_succ_notin [OF that(1) u] that(3) by auto
  qed
  have ee: "iend i = iend j"
    using e [of i "is" j js'] e [of j js' i "is"] Cons.prems s js by force
  with s have ij: "i = j" by (simp add: interval.expand)
  have "x \<notin> iv_set i" if "x \<in> ivs_set ks" "separated (i # ks)" for x ks
    using that by (auto simp: in_ivs_set in_iv_set gap_def word_le_nat_alt)
  then have "ivs_set is = ivs_set js'"
    using Cons.prems js ij by (auto simp: set_eq_iff)
  with Cons js ij show ?case by auto
qed

section \<open>Merging\<close>

lemma merge_pass_start:
  assumes "\<forall>i \<in> set is. start c \<le> start i" "sorted_wrt (\<lambda>a b. start a \<le> start b) is"
    "j \<in> set (merge_pass c is)"
  shows "start c \<le> start j"
  using assms by (induction c "is" rule: merge_pass.induct) (auto split: if_splits)

lemma merge_pass_set:
  assumes "\<forall>i \<in> set is. start c \<le> start i" "sorted_wrt (\<lambda>a b. start a \<le> start b) is"
    "iv_valid c" "\<forall>i \<in> set is. iv_valid i"
  shows "ivs_set (merge_pass c is) = iv_set c \<union> ivs_set is"
  using assms
proof (induction c "is" rule: merge_pass.induct)
  case (1 c)
  then show ?case by simp
next
  case (2 c i "is")
  show ?case
  proof (cases "start i \<le> saturating_add (iend c) 1")
    case True
    let ?m = "Interval (start c) (max (iend c) (iend i))"
    from True have "unat (start i) \<le> unat (iend c) + 1"
      by (simp only: start_le_saturating_add_1)
    then have "iv_set ?m = iv_set c \<union> iv_set i"
      using 2(3-6) by (auto simp: in_iv_set iv_valid_def word_le_nat_alt max_def)
    moreover have "ivs_set (merge_pass ?m is) = iv_set ?m \<union> ivs_set is"
      using 2(3-6) True by (intro "2.IH"(1)) (auto simp: iv_valid_def le_max_iff_disj)
    ultimately show ?thesis using True by auto
  next
    case False
    then show ?thesis using "2.IH"(2) "2.prems" by auto
  qed
qed

lemma merge_pass_separated:
  assumes "\<forall>i \<in> set is. start c \<le> start i" "sorted_wrt (\<lambda>a b. start a \<le> start b) is"
    "iv_valid c" "\<forall>i \<in> set is. iv_valid i"
  shows "separated (merge_pass c is)"
  using assms
proof (induction c "is" rule: merge_pass.induct)
  case (1 c)
  then show ?case by simp
next
  case (2 c i "is")
  show ?case
  proof (cases "start i \<le> saturating_add (iend c) 1")
    case True
    with 2 show ?thesis by (auto simp: iv_valid_def le_max_iff_disj)
  next
    case False
    then have "unat (iend c) + 1 < unat (start i)"
      by (simp only: start_le_saturating_add_1 not_le)
    moreover have "start i \<le> start j" if "j \<in> set (merge_pass i is)" for j
      using merge_pass_start [OF _ _ that] 2(4) by simp
    ultimately have "gap c j" if "j \<in> set (merge_pass i is)" for j
      using that by (force simp: gap_def word_le_nat_alt)
    with False 2 show ?thesis by auto
  qed
qed

text \<open>
  What a sort has to promise to the merge: a rearrangement in ascending order of the
  starts. The order of intervals with the same start is left open, as the radix sort of
  the code leaves it.
\<close>

locale start_sorter =
  fixes srt :: "'a::len word interval list \<Rightarrow> 'a word interval list"
  assumes srt_mset: "mset (srt is) = mset is"
    and srt_sorted: "sorted_wrt (\<lambda>a b. start a \<le> start b) (srt is)"
begin

lemma srt_set: "set (srt is) = set is"
  using srt_mset [of "is"] by (rule mset_eq_setD)

lemma merged_set:
  assumes "\<forall>i \<in> set is. iv_valid i"
  shows "ivs_set (merge_sorted (srt is)) = ivs_set is"
proof (cases "srt is")
  case Nil
  then show ?thesis using srt_set [of "is"] by simp
next
  case (Cons j js)
  have "ivs_set (merge_pass j js) = iv_set j \<union> ivs_set js"
    using srt_sorted [of "is"] srt_set [of "is"] assms Cons by (intro merge_pass_set) auto
  also have "\<dots> = ivs_set (srt is)" using Cons by simp
  also have "\<dots> = ivs_set is" by (rule ivs_set_mset_cong) (rule srt_set)
  finally show ?thesis using Cons by simp
qed

lemma merged_separated:
  assumes "\<forall>i \<in> set is. iv_valid i"
  shows "separated (merge_sorted (srt is))"
proof (cases "srt is")
  case (Cons j js)
  then show ?thesis
    using srt_sorted [of "is"] srt_set [of "is"] assms
    by (simp, intro merge_pass_separated) auto
qed simp

text \<open>The merged list is the one separated list with these addresses.\<close>

lemma merged_unique:
  assumes "\<forall>i \<in> set is. iv_valid i" "separated js" "ivs_set js = ivs_set is"
  shows "merge_sorted (srt is) = js"
  using assms by (intro separated_unique) (simp_all add: merged_set merged_separated)

end

section \<open>Subtraction\<close>

text \<open>What one base interval contributes to the result.\<close>

definition carved :: "'a::len word interval \<Rightarrow> 'a word \<Rightarrow> 'a word interval list
    \<Rightarrow> 'a word interval list" where
  "carved b n cs =
     (case carve_loop b n cs of
        (pieces, next_start, full, rest) \<Rightarrow>
          pieces @ (if \<not> full \<and> next_start \<le> iend b then [Interval next_start (iend b)] else []))"

lemma carved_Nil: "carved b n [] = (if n \<le> iend b then [Interval n (iend b)] else [])"
  by (simp add: carved_def)

lemma carved_Cons:
  "carved b n (c # cs) =
     (if start c > iend b then (if n \<le> iend b then [Interval n (iend b)] else [])
      else if iend c < n then carved b n cs
      else (if start c > n then [Interval n (start c - 1)] else [])
           @ (if iend c \<ge> iend b then [] else carved b (iend c + 1) cs))"
  by (simp add: carved_def Let_def split: prod.split)

lemma carved_bounds:
  assumes "n \<le> iend b" "j \<in> set (carved b n cs)" "\<forall>c \<in> set cs. iv_valid c"
  shows "n \<le> start j \<and> start j \<le> iend j \<and> iend j \<le> iend b"
  using assms
proof (induction cs arbitrary: n)
  case Nil
  then show ?case by (simp add: carved_Nil)
next
  case (Cons c cs)
  have rec: "iend c < iend b \<Longrightarrow> j \<in> set (carved b (iend c + 1) cs) \<Longrightarrow>
      iend c + 1 \<le> start j \<and> start j \<le> iend j \<and> iend j \<le> iend b"
    using Cons.IH [of "iend c + 1"] Cons.prems(3) inc_le by auto
  have "n < start c \<Longrightarrow> unat (start c - 1) = unat (start c) - 1" by (rule unat_pred_word)
  with Cons rec show ?case
    using unat_succ_word [of "iend c" "iend b"]
    by (auto simp: carved_Cons word_le_nat_alt word_less_nat_alt split: if_splits)
qed

lemma carved_set:
  assumes "n \<le> iend b" "separated cs"
  shows "ivs_set (carved b n cs) = {n .. iend b} - ivs_set cs"
  using assms
proof (induction cs arbitrary: n)
  case Nil
  then show ?case by (auto simp: carved_Nil)
next
  case (Cons c cs)
  have later: "unat (iend c) + 1 < unat x" if "x \<in> ivs_set cs" for x
    using that Cons.prems(2) by (force simp: in_ivs_set gap_def word_le_nat_alt)
  have valid: "start c \<le> iend c" using Cons.prems(2) by (simp add: iv_valid_def)
  consider (stop) "start c > iend b" | (skip) "\<not> start c > iend b" "iend c < n"
    | (full) "\<not> start c > iend b" "\<not> iend c < n" "iend c \<ge> iend b"
    | (part) "\<not> start c > iend b" "\<not> iend c < n" "iend c < iend b"
    by force
  then show ?case
  proof cases
    case stop
    then show ?thesis
      using Cons.prems(1) later valid
      by (force simp: carved_Cons in_iv_set word_le_nat_alt word_less_nat_alt)
  next
    case skip
    then show ?thesis
      using Cons by (auto simp: carved_Cons in_iv_set)
  next
    case full
    moreover have "n < start c \<Longrightarrow> unat (start c - 1) = unat (start c) - 1"
      by (rule unat_pred_word)
    ultimately show ?thesis
      using Cons.prems(1) later valid
      by (force simp: carved_Cons in_iv_set word_le_nat_alt word_less_nat_alt)
  next
    case part
    then have "ivs_set (carved b (iend c + 1) cs) = {iend c + 1 .. iend b} - ivs_set cs"
      using Cons.prems by (intro Cons.IH) (simp_all add: inc_le)
    moreover have "n < start c \<Longrightarrow> unat (start c - 1) = unat (start c) - 1"
      by (rule unat_pred_word)
    moreover have "unat (iend c + 1) = unat (iend c) + 1"
      using part(3) by (rule unat_succ_word)
    ultimately show ?thesis
      using part later valid Cons.prems(1)
      by (auto simp: carved_Cons in_iv_set word_le_nat_alt word_less_nat_alt) force+
  qed
qed

lemma carved_separated:
  assumes "n \<le> iend b" "separated cs"
  shows "separated (carved b n cs)"
  using assms
proof (induction cs arbitrary: n)
  case Nil
  then show ?case by (simp add: carved_Nil iv_valid_def)
next
  case (Cons c cs)
  have pred: "n < start c \<Longrightarrow> unat (start c - 1) = unat (start c) - 1"
    by (rule unat_pred_word)
  show ?case
  proof (cases "iend c < iend b")
    case True
    have "separated (carved b (iend c + 1) cs)"
      using True Cons.prems by (intro Cons.IH) (simp_all add: inc_le)
    moreover have "gap (Interval n (start c - 1)) j"
      if "n < start c" "j \<in> set (carved b (iend c + 1) cs)" for j
    proof -
      have "iend c + 1 \<le> start j"
        using carved_bounds [of "iend c + 1" b j cs] that(2) True Cons.prems(2)
        by (auto simp: inc_le separated_def)
      with unat_succ_word [OF True] pred that(1) Cons.prems(2) show ?thesis
        by (auto simp: gap_def iv_valid_def word_le_nat_alt word_less_nat_alt)
    qed
    ultimately show ?thesis
      using Cons pred
      by (auto simp: carved_Cons iv_valid_def word_le_nat_alt word_less_nat_alt)
  next
    case False
    with Cons pred show ?thesis
      by (auto simp: carved_Cons iv_valid_def word_le_nat_alt word_less_nat_alt)
  qed
qed

lemma carve_loop_rest:
  assumes "n \<le> iend b" "carve_loop b n cs = (ps, n', full, rest)"
  shows "\<exists>done. cs = done @ rest \<and> (\<forall>c \<in> set done. iend c < iend b)"
  using assms
proof (induction cs arbitrary: n ps)
  case Nil
  then show ?case by simp
next
  case (Cons c cs)
  show ?case
  proof (cases "start c > iend b \<or> (\<not> iend c < n \<and> iend b \<le> iend c)")
    case True
    with Cons.prems have "rest = c # cs" by (auto simp: Let_def split: if_splits)
    then show ?thesis by simp
  next
    case False
    with Cons.prems have lt: "iend c < iend b" by (auto simp: not_le)
    obtain m qs where "carve_loop b m cs = (qs, n', full, rest)" "m \<le> iend b"
      using Cons.prems False lt
      by (auto simp: Let_def inc_le split: if_splits prod.splits)
    from Cons.IH [OF this(2,1)] obtain d where "cs = d @ rest" "\<forall>c \<in> set d. iend c < iend b"
      by blast
    with lt show ?thesis by (intro exI [of _ "c # d"]) auto
  qed
qed

lemma subtract_loop_Cons:
  assumes "start b \<le> iend b"
  shows "\<exists>done rest. carve = done @ rest \<and> (\<forall>c \<in> set done. iend c < iend b)
    \<and> subtract_loop (b # bs) carve
        = carved b (start b) (dropWhile (\<lambda>c. iend c < start b) carve) @ subtract_loop bs rest"
proof -
  let ?skip = "takeWhile (\<lambda>c. iend c < start b) carve"
  let ?cs = "dropWhile (\<lambda>c. iend c < start b) carve"
  obtain ps n full rest where r: "carve_loop b (start b) ?cs = (ps, n, full, rest)"
    by (metis prod_cases4)
  from carve_loop_rest [OF assms r] obtain d where
    d: "?cs = d @ rest" "\<forall>c \<in> set d. iend c < iend b" by blast
  then have "carve = (?skip @ d) @ rest"
    by (metis append.assoc takeWhile_dropWhile_id)
  moreover have "\<forall>c \<in> set (?skip @ d). iend c < iend b"
    using d(2) assms by (auto dest: set_takeWhileD)
  ultimately show ?thesis
    by (intro exI [of _ "?skip @ d"] exI [of _ rest]) (simp add: r carved_def)
qed

lemma ivs_set_before_disjoint:
  assumes "separated (b # bs)" "\<forall>c \<in> set cs. iend c < iend b"
  shows "ivs_set bs \<inter> ivs_set cs = {}"
  using assms by (auto simp: in_ivs_set gap_def word_le_nat_alt word_less_nat_alt) (meson leD
      le_less_trans less_trans not_less_eq order_trans Suc_lessD)

lemma subtract_loop_correct:
  assumes "separated bs" "separated carve"
  shows "ivs_set (subtract_loop bs carve) = ivs_set bs - ivs_set carve
    \<and> separated (subtract_loop bs carve)
    \<and> (\<forall>j \<in> set (subtract_loop bs carve). \<exists>b \<in> set bs. start b \<le> start j \<and> iend j \<le> iend b)"
  using assms
proof (induction bs arbitrary: carve)
  case Nil
  then show ?case by simp
next
  case (Cons b bs)
  let ?cs = "dropWhile (\<lambda>c. iend c < start b) carve"
  have b: "start b \<le> iend b" using Cons.prems(1) by (simp add: iv_valid_def)
  obtain d rest where d: "carve = d @ rest" "\<forall>c \<in> set d. iend c < iend b"
    and eq: "subtract_loop (b # bs) carve = carved b (start b) ?cs @ subtract_loop bs rest"
    using subtract_loop_Cons [OF b] by metis
  have sep_cs: "separated ?cs"
    using Cons.prems(2) takeWhile_dropWhile_id separated_append by metis
  have sep_rest: "separated rest" using Cons.prems(2) d(1) by (simp add: separated_append)
  note IH = Cons.IH [OF _ sep_rest]
  have skip: "iv_set b \<inter> ivs_set (takeWhile (\<lambda>c. iend c < start b) carve) = {}"
    by (auto simp: in_ivs_set in_iv_set dest!: set_takeWhileD)
  have carve_split: "ivs_set carve = ivs_set (takeWhile (\<lambda>c. iend c < start b) carve) \<union> ivs_set ?cs"
    by (metis ivs_set_simps(3) takeWhile_dropWhile_id)
  have first: "ivs_set (carved b (start b) ?cs) = iv_set b - ivs_set carve"
    using carved_set [OF b sep_cs] skip carve_split by (auto simp: iv_set_def)
  have others: "ivs_set bs - ivs_set rest = ivs_set bs - ivs_set carve"
    using ivs_set_before_disjoint [OF Cons.prems(1) d(2)] d(1) by auto
  have bounds: "start b \<le> start j \<and> start j \<le> iend j \<and> iend j \<le> iend b"
    if "j \<in> set (carved b (start b) ?cs)" for j
    using carved_bounds [OF b that] sep_cs by (simp add: separated_def)
  have gaps: "gap i j" if i: "i \<in> set (carved b (start b) ?cs)" and j: "j \<in> set (subtract_loop bs rest)"
    for i j
  proof -
    obtain b' where "b' \<in> set bs" "start b' \<le> start j" using IH Cons.prems(1) j by auto
    moreover have "iend i \<le> iend b" using bounds [OF i] by blast
    ultimately show ?thesis
      using Cons.prems(1) by (fastforce simp: gap_def word_le_nat_alt)
  qed
  show ?case
    using eq first others IH Cons.prems(1) carved_separated [OF b sep_cs] gaps bounds
    by (auto simp: separated_append)
qed

lemma subtract_merged_set:
  "separated bs \<Longrightarrow> separated carve \<Longrightarrow>
     ivs_set (subtract_merged bs carve) = ivs_set bs - ivs_set carve"
  by (simp add: subtract_merged_def subtract_loop_correct)

lemma subtract_merged_separated:
  "separated bs \<Longrightarrow> separated carve \<Longrightarrow> separated (subtract_merged bs carve)"
  by (simp add: subtract_merged_def subtract_loop_correct)

end
