(* ===== verification/Radix_Sort.thy ===== *)
theory Radix_Sort
  imports Intervals
begin

text \<open>
  The two-pass least-significant-digit radix sort of \<^verbatim>\<open>crates/kidobo-core/src/network.rs\<close>
  (\<open>radix_sort_intervals_u32_by_start\<close>) and its caller \<open>sort_intervals_u32_for_merge\<close>.

  A pass is modelled as the code has it: the bucket counts, their running sums, and the
  placement into the destination slice, each slice access checked (\<open>None\<close> is the early
  \<open>return false\<close>). The lemmas show that a pass never takes an early return and is a stable
  distribution by bucket (\<open>counting_pass_eq\<close>), that the two passes order the intervals by
  their start (\<open>radix_sort_by_start\<close>), and that the result is a rearrangement of the input.
\<close>

section \<open>Definitions\<close>

definition RADIX_SORT_MIN_LEN :: nat where
  "RADIX_SORT_MIN_LEN = 16384"

definition RADIX_BUCKETS_U16 :: nat where
  "RADIX_BUCKETS_U16 = 2 ^ 16"

definition radix_bucket :: "nat \<Rightarrow> IntervalU32 \<Rightarrow> nat" where
  "radix_bucket sh i = unat (drop_bit sh (start i) AND 0xFFFF)"

fun count_buckets :: "('a \<Rightarrow> nat) \<Rightarrow> nat list \<Rightarrow> 'a list \<Rightarrow> nat list option" where
  "count_buckets bucket counts [] = Some counts"
| "count_buckets bucket counts (i # is) =
     (if bucket i < length counts
      then count_buckets bucket (counts[bucket i := counts ! bucket i + 1]) is
      else None)"

fun running_offsets :: "nat \<Rightarrow> nat list \<Rightarrow> nat list" where
  "running_offsets running [] = []"
| "running_offsets running (c # cs) = running # running_offsets (running + c) cs"

fun place_all :: "('a \<Rightarrow> nat) \<Rightarrow> nat list \<Rightarrow> 'a list \<Rightarrow> 'a list \<Rightarrow> 'a list option" where
  "place_all bucket counts dst [] = Some dst"
| "place_all bucket counts dst (i # is) =
     (if bucket i < length counts \<and> counts ! bucket i < length dst
      then place_all bucket (counts[bucket i := counts ! bucket i + 1])
             (dst[counts ! bucket i := i]) is
      else None)"

definition counting_pass :: "nat \<Rightarrow> ('a \<Rightarrow> nat) \<Rightarrow> 'a list \<Rightarrow> 'a list \<Rightarrow> 'a list option" where
  "counting_pass buckets bucket src dst =
     Option.bind (count_buckets bucket (replicate buckets 0) src)
       (\<lambda>counts. place_all bucket (running_offsets 0 counts) dst src)"

text \<open>
  \<open>Some\<close> is the sorted slice with the returned \<open>true\<close>; \<open>None\<close> is the returned \<open>false\<close>,
  which leaves the slice as it was. The second pass writes into the first pass's source.
\<close>

definition radix_sort_intervals_u32_by_start :: "IntervalU32 list \<Rightarrow> IntervalU32 list option" where
  "radix_sort_intervals_u32_by_start intervals =
     (if length intervals < 2 then Some intervals
      else Option.bind
        (counting_pass RADIX_BUCKETS_U16 (radix_bucket 0) intervals
           (replicate (length intervals) (Interval 0 0)))
        (\<lambda>src. counting_pass RADIX_BUCKETS_U16 (radix_bucket 16) src intervals))"

definition sort_intervals_u32_for_merge :: "IntervalU32 list \<Rightarrow> IntervalU32 list" where
  "sort_intervals_u32_for_merge intervals =
     (if sorted intervals then intervals
      else if length intervals < RADIX_SORT_MIN_LEN then sort intervals
      else case radix_sort_intervals_u32_by_start intervals of
             Some sorted_intervals \<Rightarrow> sorted_intervals
           | None \<Rightarrow> sort intervals)"

section \<open>A counting pass is a stable distribution\<close>

definition distribute :: "nat \<Rightarrow> ('a \<Rightarrow> nat) \<Rightarrow> 'a list \<Rightarrow> 'a list" where
  "distribute n bucket xs = concat (map (\<lambda>b. filter (\<lambda>x. bucket x = b) xs) [0..<n])"

definition bucket_count :: "('a \<Rightarrow> nat) \<Rightarrow> 'a list \<Rightarrow> nat \<Rightarrow> nat" where
  "bucket_count bucket xs b = length (filter (\<lambda>x. bucket x = b) xs)"

definition bucket_offset :: "('a \<Rightarrow> nat) \<Rightarrow> 'a list \<Rightarrow> nat \<Rightarrow> nat" where
  "bucket_offset bucket xs b = (\<Sum>b' < b. bucket_count bucket xs b')"

lemma count_buckets_eq:
  "\<forall>x \<in> set xs. bucket x < length cs \<Longrightarrow>
     count_buckets bucket cs xs
       = Some (map (\<lambda>b. cs ! b + bucket_count bucket xs b) [0..<length cs])"
proof (induction xs arbitrary: cs)
  case Nil
  then show ?case by (simp add: bucket_count_def map_nth)
next
  case (Cons x xs)
  then show ?case
    by (auto simp: bucket_count_def nth_list_update intro!: nth_equalityI)
qed

lemma running_offsets_eq:
  "running_offsets r cs = map (\<lambda>b. r + sum_list (take b cs)) [0..<length cs]"
proof (induction cs arbitrary: r)
  case Nil
  then show ?case by simp
next
  case (Cons c cs)
  have "map (\<lambda>b. r + sum_list (take b (c # cs))) [0..<length (c # cs)]
      = r # map (\<lambda>b. r + sum_list (take (Suc b) (c # cs))) [0..<length cs]"
    by (simp add: upt_conv_Cons map_Suc_upt [symmetric] del: upt_Suc)
  with Cons show ?case by (simp add: add.assoc)
qed

lemma offsets_of_counts:
  assumes "\<forall>x \<in> set xs. bucket x < n" "count_buckets bucket (replicate n 0) xs = Some counts"
  shows "running_offsets 0 counts = map (bucket_offset bucket xs) [0..<n]"
proof -
  have "counts = map (\<lambda>b. replicate n 0 ! b + bucket_count bucket xs b) [0..<n]"
    using assms count_buckets_eq [of xs bucket "replicate n 0"] by simp
  then have c: "counts = map (bucket_count bucket xs) [0..<n]" by simp
  have "sum_list (take b counts) = bucket_offset bucket xs b" if "b < n" for b
    using that by (simp add: c take_map bucket_offset_def sum_list_sum_nth atLeast0LessThan
        min_def flip: sum_list_distinct_conv_sum_set)
  then show ?thesis by (simp add: running_offsets_eq c)
qed

lemma length_concat_filter:
  "length (concat (map (\<lambda>b. filter (\<lambda>x. bucket x = b) xs) [0..<n])) = bucket_offset bucket xs n"
  by (induction n) (simp_all add: bucket_offset_def bucket_count_def)

lemma distribute_nth:
  assumes "b < n" "k < bucket_count bucket xs b"
  shows "distribute n bucket xs ! (bucket_offset bucket xs b + k)
       = filter (\<lambda>x. bucket x = b) xs ! k"
proof -
  let ?f = "\<lambda>b. filter (\<lambda>x. bucket x = b) xs"
  obtain m where "n = b + Suc m" using assms(1) by (metis less_iff_Suc_add add_Suc_right)
  then have "[0..<n] = [0..<b] @ b # [Suc b..<n]"
    using upt_add_eq_append [of 0 b "Suc m"] upt_conv_Cons [of b "b + Suc m"] by simp
  then have "distribute n bucket xs
      = concat (map ?f [0..<b]) @ ?f b @ concat (map ?f [Suc b..<n])"
    by (simp add: distribute_def)
  then show ?thesis
    using assms(2) by (simp add: nth_append length_concat_filter bucket_count_def)
qed

lemma length_distribute: "length (distribute n bucket xs) = bucket_offset bucket xs n"
  by (simp add: distribute_def length_concat_filter)

lemma mset_distribute:
  "mset (distribute n bucket xs) = mset (filter (\<lambda>x. bucket x < n) xs)"
proof (induction n)
  case 0
  then show ?case by (simp add: distribute_def)
next
  case (Suc n)
  have "mset (filter (\<lambda>x. bucket x < Suc n) xs)
      = mset (filter (\<lambda>x. bucket x < n) xs) + mset (filter (\<lambda>x. bucket x = n) xs)"
    by (induction xs) auto
  with Suc show ?case by (simp add: distribute_def)
qed

lemma mset_distribute_all:
  "\<forall>x \<in> set xs. bucket x < n \<Longrightarrow> mset (distribute n bucket xs) = mset xs"
  by (simp add: mset_distribute filter_id_conv [THEN iffD2])

lemma length_distribute_all:
  "\<forall>x \<in> set xs. bucket x < n \<Longrightarrow> bucket_offset bucket xs n = length xs"
  by (metis length_distribute mset_distribute_all size_mset)

lemma bucket_position:
  assumes "p < bucket_offset bucket xs n"
  shows "\<exists>b k. b < n \<and> k < bucket_count bucket xs b \<and> p = bucket_offset bucket xs b + k"
  using assms
proof (induction n)
  case 0
  then show ?case by (simp add: bucket_offset_def)
next
  case (Suc n)
  have off: "bucket_offset bucket xs (Suc n) = bucket_offset bucket xs n + bucket_count bucket xs n"
    by (simp add: bucket_offset_def)
  show ?case
  proof (cases "p < bucket_offset bucket xs n")
    case True
    with Suc.IH show ?thesis using less_SucI by blast
  next
    case False
    with Suc.prems off show ?thesis
      by (intro exI [of _ n] exI [of _ "p - bucket_offset bucket xs n"]) auto
  qed
qed

lemma bucket_offset_mono: "b \<le> c \<Longrightarrow> bucket_offset bucket xs b \<le> bucket_offset bucket xs c"
  by (auto simp: bucket_offset_def intro: sum_mono2)

lemma bucket_offset_disjoint:
  assumes "b < c" "k < bucket_count bucket xs b"
  shows "bucket_offset bucket xs b + k < bucket_offset bucket xs c"
proof -
  have "bucket_offset bucket xs b + k < bucket_offset bucket xs (Suc b)"
    using assms(2) by (simp add: bucket_offset_def)
  also have "\<dots> \<le> bucket_offset bucket xs c" using assms(1) by (intro bucket_offset_mono) simp
  finally show ?thesis .
qed

text \<open>
  The placement loop after the items \<open>xs\<close> of \<open>xs @ ys\<close>: each bucket's counter points
  behind the items of that bucket already placed, and these are in place.
\<close>

definition placed :: "nat \<Rightarrow> ('a \<Rightarrow> nat) \<Rightarrow> 'a list \<Rightarrow> 'a list \<Rightarrow> nat list \<Rightarrow> 'a list \<Rightarrow> bool" where
  "placed n bucket zs xs counts dst \<longleftrightarrow>
     length counts = n \<and> length dst = length zs
     \<and> (\<forall>b < n. counts ! b = bucket_offset bucket zs b + bucket_count bucket xs b)
     \<and> (\<forall>b < n. \<forall>k < bucket_count bucket xs b.
          dst ! (bucket_offset bucket zs b + k) = filter (\<lambda>x. bucket x = b) xs ! k)"

lemma bucket_count_append [simp]:
  "bucket_count bucket (xs @ ys) b = bucket_count bucket xs b + bucket_count bucket ys b"
  by (simp add: bucket_count_def)

lemma place_step:
  assumes inv: "placed n bucket (xs @ y # ys) xs counts dst"
    and bnd: "\<forall>z \<in> set (xs @ y # ys). bucket z < n"
  shows "bucket y < length counts" "counts ! bucket y < length dst"
    "placed n bucket (xs @ y # ys) (xs @ [y]) (counts[bucket y := counts ! bucket y + 1])
       (dst[counts ! bucket y := y])"
proof -
  let ?zs = "xs @ y # ys"
  let ?b = "bucket y"
  let ?pos = "bucket_offset bucket ?zs ?b + bucket_count bucket xs ?b"
  have b: "?b < n" using bnd by simp
  show "?b < length counts" using inv b by (simp add: placed_def)
  have pos: "counts ! ?b = ?pos" using inv b by (simp add: placed_def)
  have in_b: "bucket_count bucket xs ?b < bucket_count bucket ?zs ?b"
    by (simp add: bucket_count_def)
  have "?pos < bucket_offset bucket ?zs n" by (rule bucket_offset_disjoint [OF b in_b])
  then show *: "counts ! ?b < length dst"
    using inv length_distribute_all [OF bnd] pos by (simp add: placed_def)
  show "placed n bucket ?zs (xs @ [y]) (counts[?b := counts ! ?b + 1]) (dst[counts ! ?b := y])"
    unfolding placed_def
  proof (intro conjI allI impI)
    show "length (counts[?b := counts ! ?b + 1]) = n"
      and "length (dst[counts ! ?b := y]) = length ?zs"
      using inv by (simp_all add: placed_def)
  next
    fix c assume "c < n"
    then show "counts[?b := counts ! ?b + 1] ! c
        = bucket_offset bucket ?zs c + bucket_count bucket (xs @ [y]) c"
      using inv by (auto simp: placed_def nth_list_update bucket_count_def)
  next
    fix c k assume c: "c < n" and k: "k < bucket_count bucket (xs @ [y]) c"
    let ?p = "bucket_offset bucket ?zs c + k"
    show "dst[counts ! ?b := y] ! ?p = filter (\<lambda>x. bucket x = c) (xs @ [y]) ! k"
    proof (cases "c = ?b \<and> k = bucket_count bucket xs c")
      case True
      with pos * show ?thesis by (simp add: nth_append bucket_count_def)
    next
      case False
      with k have k': "k < bucket_count bucket xs c"
        by (auto simp: bucket_count_def split: if_splits)
      have "?p \<noteq> ?pos"
      proof (cases "c = ?b")
        case True
        with False show ?thesis by simp
      next
        case ne: False
        have "k < bucket_count bucket ?zs c" using k' by simp
        then show ?thesis
          using bucket_offset_disjoint [of c ?b k bucket ?zs]
            bucket_offset_disjoint [OF _ in_b, of c] ne by (cases "c < ?b") auto
      qed
      with pos inv c k' show ?thesis
        by (simp add: placed_def nth_append bucket_count_def)
    qed
  qed
qed

lemma place_all_placed:
  assumes "placed n bucket (xs @ ys) xs counts dst" "\<forall>z \<in> set (xs @ ys). bucket z < n"
  shows "\<exists>counts' dst'. place_all bucket counts dst ys = Some dst'
    \<and> placed n bucket (xs @ ys) (xs @ ys) counts' dst'"
  using assms
proof (induction ys arbitrary: xs counts dst)
  case Nil
  then show ?case by auto
next
  case (Cons y ys)
  note step = place_step [OF Cons.prems]
  have "\<exists>counts' dst'. place_all bucket (counts[bucket y := counts ! bucket y + 1])
        (dst[counts ! bucket y := y]) ys = Some dst'
      \<and> placed n bucket ((xs @ [y]) @ ys) ((xs @ [y]) @ ys) counts' dst'"
    using step(3) Cons.prems(2) by (intro Cons.IH) simp_all
  with step(1,2) show ?case by simp
qed

theorem counting_pass_eq:
  assumes "\<forall>x \<in> set src. bucket x < n" "length dst = length src"
  shows "counting_pass n bucket src dst = Some (distribute n bucket src)"
proof -
  obtain counts where cnt: "count_buckets bucket (replicate n 0) src = Some counts"
    using assms(1) count_buckets_eq [of src bucket "replicate n 0"] by simp
  have off: "running_offsets 0 counts = map (bucket_offset bucket src) [0..<n]"
    by (rule offsets_of_counts [OF assms(1) cnt])
  have "placed n bucket ([] @ src) [] (running_offsets 0 counts) dst"
    by (simp add: placed_def off assms(2) bucket_count_def)
  from place_all_placed [OF this] assms(1) obtain counts' dst' where
    dst': "place_all bucket (running_offsets 0 counts) dst src = Some dst'"
    and inv: "placed n bucket src src counts' dst'"
    by auto
  have "dst' = distribute n bucket src"
  proof (rule nth_equalityI)
    show "length dst' = length (distribute n bucket src)"
      using inv assms(1) by (simp add: placed_def length_distribute length_distribute_all)
    fix p assume "p < length dst'"
    then have "p < bucket_offset bucket src n"
      using inv assms(1) by (simp add: placed_def length_distribute_all)
    then show "dst' ! p = distribute n bucket src ! p"
      using bucket_position [of p bucket src n] inv by (auto simp: placed_def distribute_nth)
  qed
  with cnt dst' show ?thesis by (simp add: counting_pass_def)
qed

section \<open>The two passes sort by start\<close>

lemma sorted_wrt_distribute:
  assumes "sorted_wrt P xs"
  shows "sorted_wrt (\<lambda>x y. bucket x < bucket y \<or> (bucket x = bucket y \<and> P x y))
    (distribute n bucket xs)"
proof (induction n)
  case 0
  then show ?case by (simp add: distribute_def)
next
  case (Suc n)
  have "sorted_wrt P (filter (\<lambda>x. bucket x = n) xs)" by (rule sorted_wrt_filter [OF assms])
  then have "sorted_wrt (\<lambda>x y. bucket x < bucket y \<or> (bucket x = bucket y \<and> P x y))
      (filter (\<lambda>x. bucket x = n) xs)"
    by (rule sorted_wrt_mono_rel [rotated]) auto
  with Suc show ?case by (auto simp: distribute_def sorted_wrt_append)
qed

lemma radix_bucket_eq:
  "radix_bucket sh i = unat (start i) div 2 ^ sh mod 65536"
proof -
  have "(0xFFFF :: 32 word) = mask 16" by (simp add: mask_eq_exp_minus_1)
  then show ?thesis
    by (simp only: radix_bucket_def take_bit_eq_mask [symmetric] unat_take_bit_word
        unat_drop_bit_word) simp
qed

lemma radix_bucket_bound: "radix_bucket sh i < RADIX_BUCKETS_U16"
  by (simp add: radix_bucket_eq RADIX_BUCKETS_U16_def)

lemma div_mod_lex:
  "(a :: nat) \<le> b \<longleftrightarrow> a div d < b div d \<or> (a div d = b div d \<and> a mod d \<le> b mod d)"
proof (cases "a div d" "b div d" rule: linorder_cases)
  case less
  then show ?thesis using div_le_mono [of b a d] by linarith
next
  case equal
  then show ?thesis using div_mult_mod_eq [of a d] div_mult_mod_eq [of b d]
    by (metis nat_add_left_cancel_le order_less_irrefl)
next
  case greater
  then show ?thesis using div_le_mono [of a b d] by linarith
qed

lemma numeral_pow_16: "(2 :: nat) ^ 16 = 65536"
  by simp

lemma start_le_iff_radix:
  "start a \<le> start b \<longleftrightarrow> radix_bucket 16 a < radix_bucket 16 b
     \<or> (radix_bucket 16 a = radix_bucket 16 b \<and> radix_bucket 0 a \<le> radix_bucket 0 b)"
proof -
  have hi: "radix_bucket 16 i = unat (start i) div 65536" for i
  proof -
    have "unat (start i) < 65536 * 65536"
      using unsigned_less [of "start i", where ?'a = nat] by (simp del: unsigned_less)
    then have "unat (start i) div 65536 < 65536" by (simp only: less_mult_imp_div_less)
    then have "unat (start i) div 65536 mod 65536 = unat (start i) div 65536"
      by (rule mod_less)
    then show ?thesis by (simp only: radix_bucket_eq) (simp only: numeral_pow_16)
  qed
  have lo: "radix_bucket 0 i = unat (start i) mod 65536" for i
    by (simp only: radix_bucket_eq power_0 div_by_1)
  show ?thesis
    unfolding hi lo word_le_nat_alt by (rule div_mod_lex)
qed

lemma radix_sort_some:
  "\<exists>ys. radix_sort_intervals_u32_by_start xs = Some ys \<and> mset ys = mset xs
     \<and> sorted_wrt (\<lambda>a b. start a \<le> start b) ys"
proof (cases "length xs < 2")
  case True
  then have "sorted_wrt (\<lambda>a b. start a \<le> start b) xs" by (cases xs) auto
  with True show ?thesis by (simp add: radix_sort_intervals_u32_by_start_def)
next
  case False
  let ?n = RADIX_BUCKETS_U16
  let ?ys = "distribute ?n (radix_bucket 0) xs"
  let ?zs = "distribute ?n (radix_bucket 16) ?ys"
  have bnd: "\<forall>x \<in> set ws. radix_bucket sh x < ?n" for sh ws by (simp add: radix_bucket_bound)
  have m: "mset ?ys = mset xs" "mset ?zs = mset xs"
    by (simp_all only: mset_distribute_all [OF bnd])
  then have len: "length xs = length ?ys" by (metis size_mset)
  have "radix_sort_intervals_u32_by_start xs = Some ?zs"
    using False len by (simp add: radix_sort_intervals_u32_by_start_def counting_pass_eq bnd
        radix_bucket_bound)
  moreover have "sorted_wrt (\<lambda>a b. start a \<le> start b) ?zs"
  proof -
    have "sorted_wrt (\<lambda>x y. radix_bucket 0 x \<le> radix_bucket 0 y) ?ys"
      using sorted_wrt_distribute [of "\<lambda>_ _. True" xs "radix_bucket 0" ?n]
      by (rule sorted_wrt_mono_rel [rotated]) (auto simp: sorted_wrt_true)
    from sorted_wrt_distribute [OF this, of "radix_bucket 16" ?n] show ?thesis
      by (rule sorted_wrt_mono_rel [rotated]) (auto simp: start_le_iff_radix)
  qed
  ultimately show ?thesis using m by blast
qed

lemma sorted_intervals_start:
  "sorted (xs :: 'w::linorder interval list) \<Longrightarrow> sorted_wrt (\<lambda>a b. start a \<le> start b) xs"
  by (erule sorted_wrt_mono_rel [rotated]) (auto simp: less_eq_interval_def)

lemma sort_for_merge:
  "mset (sort_intervals_u32_for_merge xs) = mset xs"
  "sorted_wrt (\<lambda>a b. start a \<le> start b) (sort_intervals_u32_for_merge xs)"
  using radix_sort_some [of xs]
  by (auto simp: sort_intervals_u32_for_merge_def sorted_intervals_start split: option.splits)

text \<open>Both sorts of the code keep the contract the merge relies on.\<close>

interpretation u32_sort: start_sorter sort_intervals_u32_for_merge
  by unfold_locales (rule sort_for_merge)+

interpretation std_sort: start_sorter sort
  by unfold_locales (simp_all add: sorted_intervals_start)

end
