(* ===== verification/Cidr_Blocks.thy ===== *)
theory Cidr_Blocks
  imports Radix_Sort
begin

text \<open>
  Emission of CIDR blocks from intervals (\<^verbatim>\<open>crates/kidobo-core/src/network.rs\<close>:
  \<open>largest_prefix_*\<close>, \<open>is_aligned_*\<close>, \<open>block_end_*\<close>, \<open>intervals_to_*_cidrs_from_merged\<close>),
  at any width. The lemmas show that the greedy emission of one interval covers exactly its
  addresses by disjoint canonical networks, and that every network inside the interval lies
  inside one emitted network (\<open>emit_blocks_maximal\<close>), from which minimality follows.
\<close>

section \<open>Definitions\<close>

definition is_aligned :: "'a::len word \<Rightarrow> nat \<Rightarrow> bool" where
  "is_aligned s p \<longleftrightarrow> s AND host_mask p = 0"

definition block_end :: "'a::len word \<Rightarrow> nat \<Rightarrow> 'a word" where
  "block_end s p = saturating_add s (host_mask p)"

text \<open>The loop over \<open>next_prefix\<close>, downwards; the argument is the current \<open>prefix\<close>.\<close>

fun largest_prefix_from :: "'a::len word \<Rightarrow> 'a word \<Rightarrow> nat \<Rightarrow> nat" where
  "largest_prefix_from s e 0 = 0"
| "largest_prefix_from s e (Suc next_prefix) =
     (if \<not> is_aligned s next_prefix then Suc next_prefix
      else if block_end s next_prefix > e then Suc next_prefix
      else largest_prefix_from s e next_prefix)"

definition largest_prefix :: "'a::len word \<Rightarrow> 'a word \<Rightarrow> nat" where
  "largest_prefix s e = largest_prefix_from s e LENGTH('a)"

definition checked_shl_one :: "nat \<Rightarrow> 'a::len word option" where
  "checked_shl_one k = (if k < LENGTH('a) then Some (push_bit k 1) else None)"

lemma unat_shl_one:
  assumes "k < LENGTH('a)"
  shows "unat (push_bit k 1 :: 'a::len word) = 2 ^ k"
proof -
  have "unat (push_bit k 1 :: 'a word) = take_bit LENGTH('a) (push_bit k 1)"
    by (simp only: unsigned_push_bit_eq unsigned_1)
  also have "\<dots> = take_bit LENGTH('a) (2 ^ k)" by (simp only: push_bit_of_1)
  also have "\<dots> = 2 ^ k" using assms by (intro take_bit_nat_eq_self) simp
  finally show ?thesis .
qed

lemma unat_max_word: "unat (- 1 :: 'a::len word) = 2 ^ LENGTH('a) - 1"
  by (simp only: unsigned_minus_1_eq_mask mask_eq_exp_minus_1)

lemma unat_max_minus: "unat (- 1 - inc :: 'a::len word) = 2 ^ LENGTH('a) - 1 - unat inc"
proof -
  have "inc \<le> - 1" by (rule word_order.extremum)
  then have "unat (- 1 - inc) = unat (- 1 :: 'a word) - unat inc" by (rule unat_sub)
  then show ?thesis by (simp only: unat_max_word)
qed

text \<open>Evaluation of \<open>saturating_add\<close> on words, without their natural numbers.\<close>

lemma saturating_add_code [code]:
  "saturating_add a b = (if a \<le> - 1 - b then a + b else (- 1 :: 'a::len word))"
proof -
  have "unat b < 2 ^ LENGTH('a)" "unat a < 2 ^ LENGTH('a)" by (rule unsigned_less)+
  then have "unat a + unat b < 2 ^ LENGTH('a) \<longleftrightarrow> unat a \<le> 2 ^ LENGTH('a) - 1 - unat b"
    by linarith
  then show ?thesis by (simp only: saturating_add_def word_le_nat_alt unat_max_minus)
qed

lemma no_wrap_add:
  assumes "\<not> s > - 1 - (inc :: 'a::len word)"
  shows "unat (s + inc) = unat s + unat inc"
proof -
  have "unat s \<le> unat (- 1 - inc)" using assms by (simp only: not_less word_le_nat_alt)
  moreover have "unat inc < 2 ^ LENGTH('a)" by (rule unsigned_less)
  ultimately have "unat s + unat inc < 2 ^ LENGTH('a)" by (simp only: unat_max_minus)
  then show ?thesis by (simp only: unat_plus_if' if_True)
qed

lemma checked_shl_one_pos:
  assumes "checked_shl_one k = Some (inc :: 'a::len word)"
  shows "unat inc = 2 ^ k"
proof -
  have k: "k < LENGTH('a)" and inc: "inc = push_bit k 1"
    using assms by (auto simp only: checked_shl_one_def option.simps split: if_splits)
  show ?thesis using k unfolding inc by (rule unat_shl_one)
qed

text \<open>The \<open>while\<close> loop that emits the blocks of one interval from \<open>s\<close> to \<open>e\<close>.\<close>

function emit_blocks :: "'a::len word \<Rightarrow> 'a word \<Rightarrow> 'a word cidr list" where
  "emit_blocks s e =
     (if s \<le> e then
        let p = largest_prefix s e
        in from_parts s p #
           (if p = 0 then []
            else case checked_shl_one (LENGTH('a) - p) of
                   None \<Rightarrow> []
                 | Some increment \<Rightarrow>
                     if s > - 1 - increment then [] else emit_blocks (s + increment) e)
      else [])"
  by pat_completeness auto
termination
proof (relation "measure (\<lambda>(s :: 'a::len word, e). 2 ^ LENGTH('a) - unat s)", goal_cases)
  case 1
  then show ?case by simp
next
  case (2 s e p inc)
  then have "unat (s + inc) = unat s + unat inc" by (intro no_wrap_add) simp
  moreover have "unat inc = 2 ^ (LENGTH('a) - p)" using 2(4) by (rule checked_shl_one_pos)
  moreover have "(0 :: nat) < 2 ^ (LENGTH('a) - p)" by simp
  moreover have "unat s < 2 ^ LENGTH('a)" by (rule unsigned_less)
  ultimately show ?case by (simp only: in_measure split_conv)
qed

declare emit_blocks.simps [simp del]

definition blocks_from_merged :: "'a::len word interval list \<Rightarrow> 'a word cidr list" where
  "blocks_from_merged intervals = concat (map (\<lambda>i. emit_blocks (start i) (iend i)) intervals)"

section \<open>Aligned blocks\<close>

definition cidrs_addrs :: "'a::len word cidr list \<Rightarrow> 'a word set" where
  "cidrs_addrs cs = (\<Union>c \<in> set cs. cidr_addrs c)"

lemma network_in_cidrs: "c \<in> set cs \<Longrightarrow> network c \<in> cidrs_addrs cs"
  by (auto simp: cidrs_addrs_def cidr_addrs_def)

lemma cidrs_addrs_simps [simp]:
  "cidrs_addrs [] = {}"
  "cidrs_addrs (c # cs) = cidr_addrs c \<union> cidrs_addrs cs"
  "cidrs_addrs (cs @ ds) = cidrs_addrs cs \<union> cidrs_addrs ds"
  by (auto simp: cidrs_addrs_def)

lemma is_aligned_dvd:
  "is_aligned (s :: 'a::len word) p \<longleftrightarrow> 2 ^ (LENGTH('a) - p) dvd unat s"
  by (simp add: is_aligned_def and_host_mask_eq_0_iff)

lemma aligned_fits:
  assumes "2 ^ k dvd unat (s :: 'a::len word)" "k \<le> LENGTH('a)"
  shows "unat s + 2 ^ k \<le> 2 ^ LENGTH('a)"
proof -
  obtain q where q: "unat s = 2 ^ k * q" using assms(1) by (auto elim: dvdE)
  have pow: "(2 :: nat) ^ LENGTH('a) = 2 ^ k * 2 ^ (LENGTH('a) - k)"
    using assms(2) by (simp flip: power_add)
  have "unat s < 2 ^ LENGTH('a)" by (rule unsigned_less)
  then have "q < 2 ^ (LENGTH('a) - k)" using q pow by simp
  then have "2 ^ k * Suc q \<le> 2 ^ LENGTH('a)" unfolding pow by (intro mult_le_mono2) simp
  then show ?thesis using q by simp
qed

lemma unat_block_end:
  assumes "is_aligned (s :: 'a::len word) p"
  shows "unat (block_end s p) = unat s + (2 ^ (LENGTH('a) - p) - 1)"
proof -
  have "unat s + 2 ^ (LENGTH('a) - p) \<le> 2 ^ LENGTH('a)"
    using assms by (intro aligned_fits) (simp_all add: is_aligned_dvd)
  moreover have "(0 :: nat) < 2 ^ (LENGTH('a) - p)" by simp
  ultimately have "unat s + (2 ^ (LENGTH('a) - p) - 1) < 2 ^ LENGTH('a)" by linarith
  then show ?thesis
    by (simp add: block_end_def saturating_add_def unat_host_mask unat_plus_if')
qed

lemma div_block:
  "2 ^ k dvd n \<Longrightarrow> x div 2 ^ k = n div 2 ^ k \<longleftrightarrow> n \<le> x \<and> x \<le> n + (2 ^ k - 1)" for n x k :: nat
proof -
  assume "2 ^ k dvd n"
  then obtain q where q: "n = q * 2 ^ k" by (auto simp: mult.commute elim: dvdE)
  have "x div 2 ^ k = q \<longleftrightarrow> q * 2 ^ k \<le> x \<and> x < Suc q * 2 ^ k"
    by (metis div_nat_eqI dividend_less_times_div div_times_less_eq_dividend mult.commute
        mult_Suc_right zero_less_numeral zero_less_power)
  moreover have "x < Suc q * 2 ^ k \<longleftrightarrow> x \<le> n + (2 ^ k - 1)"
    using q by (auto simp: le_diff_conv2 Suc_le_eq less_Suc_eq_le [symmetric])
  ultimately show ?thesis using q by simp
qed

lemma cidr_ok_aligned:
  "cidr_ok (c :: 'a::len word cidr) \<longleftrightarrow> prefix_len c \<le> LENGTH('a) \<and> is_aligned (network c) (prefix_len c)"
  by (simp add: cidr_ok_def is_aligned_def)

lemma to_interval_sel [simp]:
  "start (to_interval c) = network c"
  "iend (to_interval c) = block_end (network c) (prefix_len c)"
  by (simp_all add: to_interval_def block_end_def)

text \<open>For a canonical network the interval is exactly the set of its addresses.\<close>

lemma cidr_addrs_range:
  assumes "cidr_ok (c :: 'a::len word cidr)"
  shows "x \<in> cidr_addrs c \<longleftrightarrow> network c \<le> x \<and> x \<le> block_end (network c) (prefix_len c)"
proof -
  have al: "is_aligned (network c) (prefix_len c)" using assms by (simp only: cidr_ok_aligned)
  show ?thesis
    by (simp only: cidr_addrs_iff div_block [OF al [unfolded is_aligned_dvd]] word_le_nat_alt
        unat_block_end [OF al])
qed

lemma to_interval_addrs: "cidr_ok c \<Longrightarrow> iv_set (to_interval c) = cidr_addrs c"
  by (simp only: set_eq_iff in_iv_set cidr_addrs_range to_interval_sel simp_thms)

lemma network_in_addrs [simp]: "network c \<in> cidr_addrs c"
  by (simp add: cidr_addrs_def)

lemma to_interval_valid: "cidr_ok c \<Longrightarrow> iv_valid (to_interval c)"
  using cidr_addrs_range [of c "network c"] by (simp only: iv_valid_def to_interval_sel network_in_addrs simp_thms)

lemma network_le_end: "cidr_ok c \<Longrightarrow> network c \<le> block_end (network c) (prefix_len c)"
  using cidr_addrs_range [of c "network c"] by (simp only: network_in_addrs simp_thms)

lemma cidr_addrs_nested:
  fixes c d :: "'a::len word cidr"
  assumes "x \<in> cidr_addrs c" "x \<in> cidr_addrs d" "prefix_len d \<le> prefix_len c"
  shows "cidr_addrs c \<subseteq> cidr_addrs d"
proof
  fix y assume y: "y \<in> cidr_addrs c"
  let ?k = "LENGTH('a) - prefix_len c" and ?m = "LENGTH('a) - prefix_len d"
  have "(2 :: nat) ^ ?m = 2 ^ ?k * 2 ^ (?m - ?k)"
    using assms(3) by (simp flip: power_add)
  then have "z div 2 ^ ?m = z div 2 ^ ?k div 2 ^ (?m - ?k)" for z :: nat
    by (simp add: div_mult2_eq)
  with assms(1,2) y show "y \<in> cidr_addrs d" by (simp only: cidr_addrs_iff)
qed

section \<open>The largest prefix\<close>

text \<open>\<open>block_fits s e p\<close>: the block of prefix \<open>p\<close> at \<open>s\<close> is aligned and ends by \<open>e\<close>.\<close>

definition block_fits :: "'a::len word \<Rightarrow> 'a word \<Rightarrow> nat \<Rightarrow> bool" where
  "block_fits s e p \<longleftrightarrow>
     p \<le> LENGTH('a) \<and> 2 ^ (LENGTH('a) - p) dvd unat s \<and> unat s + (2 ^ (LENGTH('a) - p) - 1) \<le> unat e"

lemma block_fits_iff:
  "p \<le> LENGTH('a) \<Longrightarrow> block_fits (s :: 'a::len word) e p \<longleftrightarrow> is_aligned s p \<and> block_end s p \<le> e"
  by (auto simp: block_fits_def is_aligned_dvd [symmetric] unat_block_end word_le_nat_alt)

lemma block_fits_mono:
  assumes "block_fits (s :: 'a::len word) e p" "p \<le> q" "q \<le> LENGTH('a)"
  shows "block_fits s e q"
proof -
  have "(2 :: nat) ^ (LENGTH('a) - q) dvd 2 ^ (LENGTH('a) - p)"
    using assms(2) by (intro le_imp_power_dvd) simp
  moreover have "(2 :: nat) ^ (LENGTH('a) - q) \<le> 2 ^ (LENGTH('a) - p)"
    using assms(2) by (intro power_increasing) simp_all
  ultimately show ?thesis
    using assms(1,3) unfolding block_fits_def
    by (meson add_left_mono diff_le_mono dvd_trans le_trans)
qed

lemma largest_prefix_from_fits:
  "block_fits (s :: 'a::len word) e q \<Longrightarrow> block_fits s e (largest_prefix_from s e q)"
proof (induction q)
  case (Suc q)
  then have "q \<le> LENGTH('a)" by (simp add: block_fits_def)
  with Suc show ?case by (auto simp: block_fits_iff not_less)
qed simp

lemma largest_prefix_from_least:
  assumes "block_fits (s :: 'a::len word) e r" "r \<le> q" "q \<le> LENGTH('a)"
  shows "largest_prefix_from s e q \<le> r"
  using assms
proof (induction q)
  case (Suc q)
  show ?case
  proof (cases "r = Suc q")
    case True
    have "largest_prefix_from s e p \<le> p" for p by (induction p) auto
    with True show ?thesis by metis
  next
    case False
    with Suc have "block_fits s e q" by (intro block_fits_mono [OF Suc.prems(1)]) simp_all
    with Suc False show ?thesis by (auto simp: block_fits_iff not_less)
  qed
qed simp

lemma largest_prefix_fits:
  "s \<le> e \<Longrightarrow> block_fits (s :: 'a::len word) e (largest_prefix s e)"
  unfolding largest_prefix_def
  by (rule largest_prefix_from_fits) (simp add: block_fits_def word_le_nat_alt)

lemma largest_prefix_least:
  "block_fits (s :: 'a::len word) e r \<Longrightarrow> largest_prefix s e \<le> r"
  unfolding largest_prefix_def by (rule largest_prefix_from_least) (auto simp: block_fits_def)

section \<open>Emission of one interval\<close>

text \<open>One step of the loop: the first block, and where the rest begins, if anywhere.\<close>

lemma emit_blocks_step:
  assumes "s \<le> (e :: 'a::len word)"
  shows "\<exists>c. cidr_ok c \<and> network c = s \<and> prefix_len c = largest_prefix s e
    \<and> block_end s (prefix_len c) \<le> e
    \<and> (if block_end s (prefix_len c) = e then emit_blocks s e = [c]
       else unat (block_end s (prefix_len c) + 1) = unat (block_end s (prefix_len c)) + 1
            \<and> emit_blocks s e = c # emit_blocks (block_end s (prefix_len c) + 1) e)"
proof -
  let ?p = "largest_prefix s e" and ?k = "LENGTH('a) - largest_prefix s e"
  let ?c = "from_parts s ?p"
  have fits: "block_fits s e ?p" using assms by (rule largest_prefix_fits)
  then have p: "?p \<le> LENGTH('a)" by (simp only: block_fits_def)
  have al: "is_aligned s ?p" and le: "block_end s ?p \<le> e"
    using fits by (simp_all only: block_fits_iff [OF p])
  have c: "?c = Cidr s ?p" using al by (simp add: from_parts_aligned is_aligned_def)
  have ok: "cidr_ok ?c" using p by (rule from_parts_ok)
  have ue: "unat (block_end s ?p) = unat s + (2 ^ ?k - 1)" using al by (rule unat_block_end)
  have emax: "unat e \<le> 2 ^ LENGTH('a) - 1"
    using unsigned_less [of e, where ?'a = nat] by (simp del: unsigned_less)
  have rest: "if block_end s ?p = e then emit_blocks s e = [?c]
       else unat (block_end s ?p + 1) = unat (block_end s ?p) + 1
            \<and> emit_blocks s e = ?c # emit_blocks (block_end s ?p + 1) e"
  proof (cases "?p = 0")
    case True
    then have "unat (block_end s ?p) \<ge> 2 ^ LENGTH('a) - 1" using ue by simp
    with le emax have "block_end s ?p = e" by (simp add: word_eq_iff_unat word_le_nat_alt)
    with True assms show ?thesis by (simp add: emit_blocks.simps [of s e] Let_def)
  next
    case False
    then have k: "?k < LENGTH('a)" using p by simp
    let ?inc = "push_bit ?k 1 :: 'a word"
    have inc: "unat ?inc = 2 ^ ?k" using k by (rule unat_shl_one)
    have max_inc: "unat (- 1 - ?inc) = 2 ^ LENGTH('a) - 1 - 2 ^ ?k"
      using inc by (simp only: unat_max_minus)
    show ?thesis
    proof (cases "s > - 1 - ?inc")
      case True
      then have "unat s > 2 ^ LENGTH('a) - 1 - 2 ^ ?k"
        using max_inc by (simp only: word_less_nat_alt)
      then have "unat (block_end s ?p) \<ge> 2 ^ LENGTH('a) - 1" using ue by linarith
      with le emax have "block_end s ?p = e" by (simp add: word_eq_iff_unat word_le_nat_alt)
      with True False assms k show ?thesis
        by (simp add: emit_blocks.simps [of s e] Let_def checked_shl_one_def)
    next
      case nowrap: False
      have "unat (s + ?inc) = unat s + 2 ^ ?k" using no_wrap_add [OF nowrap] inc by simp
      moreover have "(0 :: nat) < 2 ^ ?k" by simp
      ultimately have nxt: "unat (s + ?inc) = unat (block_end s ?p) + 1" using ue by linarith
      have "unat (block_end s ?p) + 1 < 2 ^ LENGTH('a)"
        using unsigned_less [of "s + ?inc", where ?'a = nat] nxt by (simp del: unsigned_less)
      then have succ: "unat (block_end s ?p + 1) = unat (block_end s ?p) + 1"
        by (simp add: unat_plus_if')
      then have eq: "s + ?inc = block_end s ?p + 1" using nxt by (simp add: word_eq_iff_unat)
      have unfold: "emit_blocks s e = ?c # emit_blocks (block_end s ?p + 1) e"
        using nowrap False assms k eq
        by (simp add: emit_blocks.simps [of s e] Let_def checked_shl_one_def)
      show ?thesis
      proof (cases "block_end s ?p = e")
        case True
        then have "\<not> block_end s ?p + 1 \<le> e" using succ by (simp add: word_le_nat_alt)
        with unfold True show ?thesis by (simp add: emit_blocks.simps [of "e + 1" e])
      next
        case False
        with unfold succ show ?thesis by simp
      qed
    qed
  qed
  show ?thesis by (rule exI [of _ ?c]) (use ok c le rest in simp)
qed

text \<open>Induction over the blocks of an interval that ends at \<open>e\<close>.\<close>

lemma emit_blocks_induct [consumes 1, case_names last step]:
  fixes s e :: "'a::len word"
  assumes "s \<le> e"
    and last: "\<And>s c. \<lbrakk>s \<le> e; cidr_ok c; network c = s; prefix_len c = largest_prefix s e;
        block_end s (prefix_len c) = e\<rbrakk> \<Longrightarrow> P s [c]"
    and step: "\<And>s c n cs. \<lbrakk>s \<le> e; cidr_ok c; network c = s; prefix_len c = largest_prefix s e;
        block_end s (prefix_len c) < e; unat n = unat (block_end s (prefix_len c)) + 1; n \<le> e;
        P n cs\<rbrakk> \<Longrightarrow> P s (c # cs)"
  shows "P s (emit_blocks s e)"
  using assms(1)
proof (induction "unat e - unat s" arbitrary: s rule: less_induct)
  case less
  obtain c where c: "cidr_ok c" "network c = s" "prefix_len c = largest_prefix s e"
      "block_end s (prefix_len c) \<le> e"
    and rest: "if block_end s (prefix_len c) = e then emit_blocks s e = [c]
       else unat (block_end s (prefix_len c) + 1) = unat (block_end s (prefix_len c)) + 1
            \<and> emit_blocks s e = c # emit_blocks (block_end s (prefix_len c) + 1) e"
    using emit_blocks_step [OF less.prems] by blast
  let ?b = "block_end s (prefix_len c)"
  show ?case
  proof (cases "?b = e")
    case True
    with last [OF less.prems c(1-3)] rest show ?thesis by simp
  next
    case False
    with c(4) have lt: "?b < e" by simp
    from False rest have n: "unat (?b + 1) = unat ?b + 1"
      and eq: "emit_blocks s e = c # emit_blocks (?b + 1) e" by simp_all
    have sb: "s \<le> ?b"
      using network_le_end [OF c(1)] unfolding c(2) .
    have ne: "?b + 1 \<le> e" using lt n by (simp only: word_le_nat_alt word_less_nat_alt)
    have "P (?b + 1) (emit_blocks (?b + 1) e)"
    proof (rule less.hyps [OF _ ne])
      show "unat e - unat (?b + 1) < unat e - unat s"
        using lt sb n by (simp only: word_le_nat_alt word_less_nat_alt)
    qed
    with step [OF less.prems c(1-3) lt n ne] eq show ?thesis by simp
  qed
qed

lemma between_succ:
  assumes "unat n = unat b + 1"
  shows "n \<le> x \<longleftrightarrow> b < (x :: 'a::len word)"
  using assms by (simp only: word_le_nat_alt word_less_nat_alt Suc_eq_plus1 [symmetric] Suc_le_eq)

lemma emit_blocks_ok: "s \<le> e \<Longrightarrow> \<forall>c \<in> set (emit_blocks s e). cidr_ok c"
  by (induction rule: emit_blocks_induct) simp_all

lemma split_range:
  "(s :: 'b::linorder) \<le> b \<Longrightarrow> b < e \<Longrightarrow>
     (s \<le> x \<and> x \<le> b) \<or> (b < x \<and> x \<le> e) \<longleftrightarrow> s \<le> x \<and> x \<le> e"
  by auto

lemma emit_blocks_addrs: "s \<le> e \<Longrightarrow> cidrs_addrs (emit_blocks s e) = {s .. e}"
proof (induction rule: emit_blocks_induct)
  case (last s c)
  then have "x \<in> cidr_addrs c \<longleftrightarrow> x \<in> {s .. e}" for x
    by (simp only: cidr_addrs_range atLeastAtMost_iff)
  then show ?case by (simp only: cidrs_addrs_simps Un_empty_right set_eq_iff simp_thms)
next
  case (step s c n cs)
  let ?b = "block_end s (prefix_len c)"
  have sb: "s \<le> ?b" using network_le_end [OF step(2)] step(3) by simp
  have "x \<in> cidr_addrs c \<longleftrightarrow> s \<le> x \<and> x \<le> ?b" for x
    using step(3) cidr_addrs_range [OF step(2)] by simp
  moreover have "x \<in> cidrs_addrs cs \<longleftrightarrow> ?b < x \<and> x \<le> e" for x
    unfolding step.IH by (simp only: atLeastAtMost_iff between_succ [OF step(6)])
  moreover have "(s \<le> x \<and> x \<le> ?b) \<or> (?b < x \<and> x \<le> e) \<longleftrightarrow> s \<le> x \<and> x \<le> e" for x
    using sb step(5) by (rule split_range)
  ultimately show ?case
    by (simp only: cidrs_addrs_simps set_eq_iff Un_iff atLeastAtMost_iff simp_thms)
qed

text \<open>The blocks come in ascending order, each one ending before the next begins.\<close>

definition before :: "'a::len word cidr \<Rightarrow> 'a word cidr \<Rightarrow> bool" where
  "before a b \<longleftrightarrow> block_end (network a) (prefix_len a) < network b"

lemma emit_blocks_before:
  "s \<le> e \<Longrightarrow> sorted_wrt before (emit_blocks s e) \<and> (\<forall>c \<in> set (emit_blocks s e). s \<le> network c)"
proof (induction rule: emit_blocks_induct)
  case (last s c)
  then show ?case by simp
next
  case (step s c n cs)
  have "s \<le> block_end s (prefix_len c)" using network_le_end [OF step(2)] step(3) by simp
  with step(3,8) between_succ [OF step(6)] show ?case by (fastforce simp: before_def)
qed

text \<open>Every network inside the interval is inside one of its blocks.\<close>

lemma first_block_maximal:
  assumes "cidr_ok c" "network c = s" "prefix_len c = largest_prefix s (e :: 'a::len word)"
    and "cidr_ok d" "cidr_addrs d \<subseteq> {s .. e}" "network d \<in> cidr_addrs c"
  shows "cidr_addrs d \<subseteq> cidr_addrs c"
proof (cases "prefix_len c \<le> prefix_len d")
  case True
  then show ?thesis by (rule cidr_addrs_nested [OF network_in_addrs assms(6)])
next
  case False
  then have "cidr_addrs c \<subseteq> cidr_addrs d"
    by (intro cidr_addrs_nested [OF assms(6) network_in_addrs]) simp
  then have "s \<in> cidr_addrs d" using assms(2) network_in_addrs [of c] by blast
  then have "network d \<le> s" by (simp only: cidr_addrs_range [OF assms(4)])
  moreover have "network d \<in> {s .. e}" using assms(5) network_in_addrs [of d] by blast
  ultimately have n: "network d = s" by (simp only: atLeastAtMost_iff order_antisym)
  have "block_end (network d) (prefix_len d) \<in> cidr_addrs d"
    by (simp only: cidr_addrs_range [OF assms(4)] network_le_end [OF assms(4)] order_refl simp_thms)
  then have "block_end (network d) (prefix_len d) \<in> {s .. e}" using assms(5) by blast
  then have e: "block_end s (prefix_len d) \<le> e" unfolding n by (simp only: atLeastAtMost_iff)
  have p: "prefix_len d \<le> LENGTH('a)" and al: "is_aligned s (prefix_len d)"
    using assms(4) n by (simp_all only: cidr_ok_aligned)
  have "largest_prefix s e \<le> prefix_len d"
    by (rule largest_prefix_least) (simp only: block_fits_iff [OF p] al e simp_thms)
  with False assms(3) show ?thesis by simp
qed

lemma emit_blocks_maximal:
  assumes "s \<le> (e :: 'a::len word)" "cidr_ok d" "cidr_addrs d \<subseteq> {s .. e}"
  shows "\<exists>c \<in> set (emit_blocks s e). cidr_addrs d \<subseteq> cidr_addrs c"
proof -
  have "cidr_addrs d \<subseteq> {s .. e} \<longrightarrow> (\<exists>c \<in> set (emit_blocks s e). cidr_addrs d \<subseteq> cidr_addrs c)"
    using assms(1)
  proof (induction rule: emit_blocks_induct)
    case (last s c)
    show ?case
    proof
      assume d: "cidr_addrs d \<subseteq> {s .. e}"
      then have "network d \<in> {s .. e}" using network_in_addrs [of d] by blast
      then have "network d \<in> cidr_addrs c"
        using last(3,5) by (simp only: cidr_addrs_range [OF last(2)] atLeastAtMost_iff)
      with first_block_maximal [OF last(2-4) assms(2) d]
      show "\<exists>c \<in> set [c]. cidr_addrs d \<subseteq> cidr_addrs c" by simp
    qed
  next
    case (step s c n cs)
    show ?case
    proof
      assume d: "cidr_addrs d \<subseteq> {s .. e}"
      then have nd: "network d \<in> {s .. e}" using network_in_addrs [of d] by blast
      show "\<exists>c \<in> set (c # cs). cidr_addrs d \<subseteq> cidr_addrs c"
      proof (cases "network d \<in> cidr_addrs c")
        case True
        with first_block_maximal [OF step(2-4) assms(2) d] show ?thesis by simp
      next
        case False
        then have n: "n \<le> network d"
          using nd step(3) by (simp only: cidr_addrs_range [OF step(2)] between_succ [OF step(6)]
              atLeastAtMost_iff not_le simp_thms)
        have "x \<in> {n .. e}" if "x \<in> cidr_addrs d" for x
        proof -
          have "network d \<le> x" using that by (simp only: cidr_addrs_range [OF assms(2)])
          moreover have "x \<in> {s .. e}" using that d by blast
          ultimately show ?thesis using n by (meson atLeastAtMost_iff order_trans)
        qed
        with step(8) show ?thesis by (simp add: subset_iff)
      qed
    qed
  qed
  with assms(3) show ?thesis by blast
qed

section \<open>Emission of a separated list\<close>

lemma blocks_simps [simp]:
  "blocks_from_merged [] = []"
  "blocks_from_merged (i # is) = emit_blocks (start i) (iend i) @ blocks_from_merged is"
  by (simp_all add: blocks_from_merged_def)

lemma blocks_ok: "\<forall>i \<in> set is. iv_valid i \<Longrightarrow> \<forall>c \<in> set (blocks_from_merged is). cidr_ok c"
  using emit_blocks_ok by (induction "is") (auto simp: iv_valid_def)

lemma blocks_addrs:
  "\<forall>i \<in> set is. iv_valid i \<Longrightarrow> cidrs_addrs (blocks_from_merged is) = ivs_set is"
  by (induction "is") (simp_all add: emit_blocks_addrs iv_valid_def iv_set_def)

lemma blocks_before:
  "separated is \<Longrightarrow> sorted_wrt before (blocks_from_merged is)"
proof (induction "is")
  case Nil
  then show ?case by simp
next
  case (Cons i "is")
  then have v: "start i \<le> iend i" by (simp add: iv_valid_def)
  have "before c d" if "c \<in> set (emit_blocks (start i) (iend i))" "d \<in> set (blocks_from_merged is)"
    for c d
  proof -
    have "block_end (network c) (prefix_len c) \<in> cidr_addrs c"
      using emit_blocks_ok [OF v] that(1) by (simp add: cidr_addrs_range network_le_end)
    then have "block_end (network c) (prefix_len c) \<in> {start i .. iend i}"
      using emit_blocks_addrs [OF v] that(1) by (auto simp: cidrs_addrs_def)
    moreover have "network d \<in> ivs_set is"
      using blocks_addrs [of "is"] Cons.prems network_in_cidrs [OF that(2)]
      by (simp add: separated_def)
    then obtain j where "j \<in> set is" "start j \<le> network d" by (auto simp: in_ivs_set)
    moreover from this(1) Cons.prems have "gap i j" by simp
    then have "iend i < start j" by (simp add: gap_def word_less_nat_alt)
    ultimately show ?thesis unfolding before_def by (meson atLeastAtMost_iff le_less_trans less_le_trans)
  qed
  with Cons emit_blocks_before [OF v] show ?case by (simp add: sorted_wrt_append)
qed

lemma blocks_maximal:
  assumes "separated is" "cidr_ok d" "cidr_addrs d \<subseteq> ivs_set is"
  shows "\<exists>c \<in> set (blocks_from_merged is). cidr_addrs d \<subseteq> cidr_addrs c"
proof -
  have d: "{network d .. block_end (network d) (prefix_len d)} = cidr_addrs d"
    by (simp only: set_eq_iff cidr_addrs_range [OF assms(2)] atLeastAtMost_iff simp_thms)
  obtain i where i: "i \<in> set is" "cidr_addrs d \<subseteq> {start i .. iend i}"
    using separated_connected [of "is" "network d" "block_end (network d) (prefix_len d)"]
      assms network_le_end [OF assms(2)] unfolding d iv_set_def by blast
  moreover from i(1) assms(1) have "start i \<le> iend i" by (simp add: separated_def iv_valid_def)
  ultimately obtain c where "c \<in> set (emit_blocks (start i) (iend i))" "cidr_addrs d \<subseteq> cidr_addrs c"
    using emit_blocks_maximal [OF _ assms(2)] by blast
  with i(1) show ?thesis by (auto simp: blocks_from_merged_def)
qed

section \<open>Disjoint, maximal lists are minimal\<close>

lemma before_disjoint:
  assumes "before a b" "cidr_ok a" "cidr_ok b"
  shows "cidr_addrs a \<inter> cidr_addrs b = {}"
  using assms(1) unfolding before_def
  by (auto simp: cidr_addrs_range [OF assms(2)] cidr_addrs_range [OF assms(3)])

text \<open>
  The normal form of a collapsed list: canonical networks in ascending order, each one
  ending before the next, with every canonical network they cover inside one of them.
\<close>

definition collapsed :: "'a::len word cidr list \<Rightarrow> bool" where
  "collapsed cs \<longleftrightarrow> (\<forall>c \<in> set cs. cidr_ok c) \<and> sorted_wrt before cs
     \<and> (\<forall>d. cidr_ok d \<longrightarrow> cidr_addrs d \<subseteq> cidrs_addrs cs
          \<longrightarrow> (\<exists>c \<in> set cs. cidr_addrs d \<subseteq> cidr_addrs c))"

lemma blocks_collapsed: "separated is \<Longrightarrow> collapsed (blocks_from_merged is)"
  using blocks_ok [of "is"] blocks_before [of "is"] blocks_maximal [of "is"] blocks_addrs [of "is"]
  by (auto simp: collapsed_def separated_def)

lemma before_irrefl: "cidr_ok c \<Longrightarrow> \<not> before c c"
  using network_le_end [of c] by (simp add: before_def not_less)

lemma sorted_before_pairs:
  "sorted_wrt before cs \<Longrightarrow> c \<in> set cs \<Longrightarrow> d \<in> set cs \<Longrightarrow> c = d \<or> before c d \<or> before d c"
  by (induction cs) auto

lemma collapsed_distinct: "collapsed cs \<Longrightarrow> distinct cs"
proof -
  have "distinct cs" if "sorted_wrt before cs" "\<forall>c \<in> set cs. cidr_ok c"
    using that before_irrefl by (induction cs) auto
  then show "collapsed cs \<Longrightarrow> distinct cs" by (simp add: collapsed_def)
qed

lemma collapsed_overlap_eq:
  assumes "collapsed cs" "c \<in> set cs" "d \<in> set cs" "x \<in> cidr_addrs c" "x \<in> cidr_addrs d"
  shows "c = d"
  using assms sorted_before_pairs [of cs c d] before_disjoint [of c d] before_disjoint [of d c]
  by (auto simp: collapsed_def)

theorem collapsed_minimal:
  assumes "collapsed cs" "\<forall>d \<in> set ds. cidr_ok d" "cidrs_addrs ds = cidrs_addrs cs"
  shows "length cs \<le> length ds"
proof -
  have "\<exists>c \<in> set cs. cidr_addrs d \<subseteq> cidr_addrs c" if "d \<in> set ds" for d
  proof -
    have "cidr_addrs d \<subseteq> cidrs_addrs cs" using that assms(3) by (auto simp: cidrs_addrs_def)
    with that assms(1,2) show ?thesis by (simp add: collapsed_def)
  qed
  then obtain f where f: "\<And>d. d \<in> set ds \<Longrightarrow> f d \<in> set cs \<and> cidr_addrs d \<subseteq> cidr_addrs (f d)"
    by metis
  have "c \<in> f ` set ds" if c: "c \<in> set cs" for c
  proof -
    have "network c \<in> cidrs_addrs ds"
      using network_in_cidrs [OF c] unfolding assms(3) .
    then obtain d where d: "d \<in> set ds" "network c \<in> cidr_addrs d" by (auto simp: cidrs_addrs_def)
    then have "network c \<in> cidr_addrs (f d)" using f by blast
    then have "f d = c"
      using collapsed_overlap_eq [OF assms(1)] f [OF d(1)] c network_in_addrs [of c] by blast
    with d(1) show ?thesis by blast
  qed
  then have "card (set cs) \<le> card (f ` set ds)" by (intro card_mono) auto
  also have "\<dots> \<le> card (set ds)" by (rule card_image_le) simp
  also have "\<dots> \<le> length ds" by (rule card_length)
  finally show ?thesis using distinct_card [OF collapsed_distinct [OF assms(1)]] by simp
qed

end
