(* ===== verification/Network.thy ===== *)
theory Network
  imports Cidr_Blocks
begin

text \<open>
  The interval half of \<^verbatim>\<open>crates/kidobo-core/src/network.rs\<close> at the two widths of the code:
  every \<open>_u32\<close>/\<open>ipv4\<close> and \<open>_u128\<close>/\<open>ipv6\<close> function, as the definition of \<open>Intervals\<close>,
  \<open>Radix_Sort\<close> or \<open>Cidr_Blocks\<close> it has at that width, and the public operations \<open>collapse_*\<close>,
  \<open>subtract_safelist_*\<close>, \<open>cidr_overlaps\<close> and \<open>split_by_family\<close> composed from them.

  The two sorts differ (the IPv4 path may use the radix sort), so the public operations are
  proved once in the locale \<open>start_sorter\<close> and carried over by its two interpretations.
\<close>

section \<open>The functions at 32 and 128 bits\<close>

definition ipv4_to_interval :: "Ipv4Cidr \<Rightarrow> IntervalU32" where
  "ipv4_to_interval c =
     Interval (network c) (saturating_add (network c) (ipv4_host_mask (prefix_len c)))"

definition ipv6_to_interval :: "Ipv6Cidr \<Rightarrow> IntervalU128" where
  "ipv6_to_interval c =
     Interval (network c) (saturating_add (network c) (ipv6_host_mask (prefix_len c)))"

definition merge_intervals_u32_owned :: "IntervalU32 list \<Rightarrow> IntervalU32 list" where
  "merge_intervals_u32_owned is =
     (if is = [] then [] else merge_sorted (sort_intervals_u32_for_merge is))"

definition merge_intervals_u128_owned :: "IntervalU128 list \<Rightarrow> IntervalU128 list" where
  "merge_intervals_u128_owned is = (if is = [] then [] else merge_sorted (sort is))"

definition subtract_intervals_u32_merged ::
    "IntervalU32 list \<Rightarrow> IntervalU32 list \<Rightarrow> IntervalU32 list" where
  "subtract_intervals_u32_merged base carve = subtract_merged base carve"

definition subtract_intervals_u128_merged ::
    "IntervalU128 list \<Rightarrow> IntervalU128 list \<Rightarrow> IntervalU128 list" where
  "subtract_intervals_u128_merged base carve = subtract_merged base carve"

definition is_aligned_u32 :: "32 word \<Rightarrow> nat \<Rightarrow> bool" where
  "is_aligned_u32 s p = is_aligned s p"

definition is_aligned_u128 :: "128 word \<Rightarrow> nat \<Rightarrow> bool" where
  "is_aligned_u128 s p = is_aligned s p"

definition block_end_u32 :: "32 word \<Rightarrow> nat \<Rightarrow> 32 word" where
  "block_end_u32 s p = block_end s p"

definition block_end_u128 :: "128 word \<Rightarrow> nat \<Rightarrow> 128 word" where
  "block_end_u128 s p = block_end s p"

definition largest_prefix_u32 :: "32 word \<Rightarrow> 32 word \<Rightarrow> nat" where
  "largest_prefix_u32 s e = largest_prefix s e"

definition largest_prefix_u128 :: "128 word \<Rightarrow> 128 word \<Rightarrow> nat" where
  "largest_prefix_u128 s e = largest_prefix s e"

definition intervals_to_ipv4_cidrs_from_merged :: "IntervalU32 list \<Rightarrow> Ipv4Cidr list" where
  "intervals_to_ipv4_cidrs_from_merged is = blocks_from_merged is"

definition intervals_to_ipv6_cidrs_from_merged :: "IntervalU128 list \<Rightarrow> Ipv6Cidr list" where
  "intervals_to_ipv6_cidrs_from_merged is = blocks_from_merged is"

definition intervals_overlap_u32 :: "IntervalU32 \<Rightarrow> IntervalU32 \<Rightarrow> bool" where
  "intervals_overlap_u32 a b = intervals_overlap a b"

definition intervals_overlap_u128 :: "IntervalU128 \<Rightarrow> IntervalU128 \<Rightarrow> bool" where
  "intervals_overlap_u128 a b = intervals_overlap a b"

section \<open>Public operations\<close>

definition collapse_ipv4 :: "Ipv4Cidr list \<Rightarrow> Ipv4Cidr list" where
  "collapse_ipv4 cidrs =
     (let intervals = map ipv4_to_interval cidrs;
          merged = merge_intervals_u32_owned intervals
      in intervals_to_ipv4_cidrs_from_merged merged)"

definition collapse_ipv6 :: "Ipv6Cidr list \<Rightarrow> Ipv6Cidr list" where
  "collapse_ipv6 cidrs =
     (let intervals = map ipv6_to_interval cidrs;
          merged = merge_intervals_u128_owned intervals
      in intervals_to_ipv6_cidrs_from_merged merged)"

definition subtract_safelist_ipv4 :: "Ipv4Cidr list \<Rightarrow> Ipv4Cidr list \<Rightarrow> Ipv4Cidr list" where
  "subtract_safelist_ipv4 candidates safelist =
     (let candidate_intervals = merge_intervals_u32_owned (map ipv4_to_interval candidates);
          safe_intervals = merge_intervals_u32_owned (map ipv4_to_interval safelist);
          carved = subtract_intervals_u32_merged candidate_intervals safe_intervals
      in intervals_to_ipv4_cidrs_from_merged carved)"

definition subtract_safelist_ipv6 :: "Ipv6Cidr list \<Rightarrow> Ipv6Cidr list \<Rightarrow> Ipv6Cidr list" where
  "subtract_safelist_ipv6 candidates safelist =
     (let candidate_intervals = merge_intervals_u128_owned (map ipv6_to_interval candidates);
          safe_intervals = merge_intervals_u128_owned (map ipv6_to_interval safelist);
          carved = subtract_intervals_u128_merged candidate_intervals safe_intervals
      in intervals_to_ipv6_cidrs_from_merged carved)"

fun cidr_overlaps :: "canonical_cidr \<Rightarrow> canonical_cidr \<Rightarrow> bool" where
  "cidr_overlaps (V4 l) (V4 r) = intervals_overlap_u32 (ipv4_to_interval l) (ipv4_to_interval r)"
| "cidr_overlaps (V6 l) (V6 r) = intervals_overlap_u128 (ipv6_to_interval l) (ipv6_to_interval r)"
| "cidr_overlaps _ _ = False"

text \<open>The loop pushes to the end of the family's vector.\<close>

fun split_by_family_from :: "family_cidrs \<Rightarrow> canonical_cidr list \<Rightarrow> family_cidrs" where
  "split_by_family_from acc [] = acc"
| "split_by_family_from acc (V4 c # cs) = split_by_family_from (acc\<lparr>fc_ipv4 := fc_ipv4 acc @ [c]\<rparr>) cs"
| "split_by_family_from acc (V6 c # cs) = split_by_family_from (acc\<lparr>fc_ipv6 := fc_ipv6 acc @ [c]\<rparr>) cs"

definition split_by_family :: "canonical_cidr list \<Rightarrow> family_cidrs" where
  "split_by_family cidrs = split_by_family_from \<lparr>fc_ipv4 = [], fc_ipv6 = []\<rparr> cidrs"

section \<open>The specification side\<close>

definition cidrs_ok :: "'a::len word cidr list \<Rightarrow> bool" where
  "cidrs_ok cs \<longleftrightarrow> (\<forall>c \<in> set cs. cidr_ok c)"

text \<open>\<open>minimal_cover cs A\<close>: no list of canonical networks covers \<open>A\<close> with fewer of them.\<close>

definition minimal_cover :: "'a::len word cidr list \<Rightarrow> 'a word set \<Rightarrow> bool" where
  "minimal_cover cs A \<longleftrightarrow>
     cidrs_addrs cs = A \<and> (\<forall>ds. cidrs_ok ds \<longrightarrow> cidrs_addrs ds = A \<longrightarrow> length cs \<le> length ds)"

text \<open>Addresses of both families, as one type.\<close>

datatype address = Addr4 "32 word" | Addr6 "128 word"

fun canonical_addrs :: "canonical_cidr \<Rightarrow> address set" where
  "canonical_addrs (V4 c) = Addr4 ` cidr_addrs c"
| "canonical_addrs (V6 c) = Addr6 ` cidr_addrs c"

lemma cidrs_ok_simps [simp]:
  "cidrs_ok []" "cidrs_ok (c # cs) \<longleftrightarrow> cidr_ok c \<and> cidrs_ok cs"
  by (auto simp: cidrs_ok_def)

lemma collapsed_ok: "collapsed cs \<Longrightarrow> cidrs_ok cs"
  by (simp add: collapsed_def cidrs_ok_def)

lemma collapsed_minimal_cover: "collapsed cs \<Longrightarrow> minimal_cover cs (cidrs_addrs cs)"
  by (simp add: minimal_cover_def cidrs_ok_def collapsed_minimal)

text \<open>The collapsed form is determined by the addresses.\<close>

lemma cidr_addrs_inject:
  assumes "cidr_ok (c :: 'a::len word cidr)" "cidr_ok d" "cidr_addrs c = cidr_addrs d"
  shows "c = d"
proof -
  have le: "network b \<le> network a" "block_end (network a) (prefix_len a) \<le> block_end (network b) (prefix_len b)"
    if "cidr_ok a" "cidr_ok b" "cidr_addrs a = cidr_addrs b" for a b :: "'a word cidr"
    using that cidr_addrs_range [OF that(1), of "network a"] cidr_addrs_range [OF that(2), of "network a"]
      cidr_addrs_range [OF that(1), of "block_end (network a) (prefix_len a)"] network_le_end [OF that(1)]
      cidr_addrs_range [OF that(2), of "block_end (network a) (prefix_len a)"]
    by simp_all
  have n: "network c = network d"
    using le(1) [OF assms] le(1) [OF assms(2,1) assms(3) [symmetric]] by (rule order_antisym [rotated])
  have b: "block_end (network c) (prefix_len c) = block_end (network d) (prefix_len d)"
    using le(2) [OF assms] le(2) [OF assms(2,1) assms(3) [symmetric]] by (rule order_antisym)
  have al: "is_aligned (network c) (prefix_len c)" "is_aligned (network d) (prefix_len d)"
    and p: "prefix_len c \<le> LENGTH('a)" "prefix_len d \<le> LENGTH('a)"
    using assms by (simp_all only: cidr_ok_aligned)
  have "(2 :: nat) ^ (LENGTH('a) - prefix_len c) - 1 = 2 ^ (LENGTH('a) - prefix_len d) - 1"
    using unat_block_end [OF al(1)] unat_block_end [OF al(2)] b n by (metis add_left_cancel)
  moreover have "(0 :: nat) < 2 ^ (LENGTH('a) - prefix_len c)" "(0 :: nat) < 2 ^ (LENGTH('a) - prefix_len d)"
    by simp_all
  ultimately have "(2 :: nat) ^ (LENGTH('a) - prefix_len c) = 2 ^ (LENGTH('a) - prefix_len d)"
    by linarith
  then have "prefix_len c = prefix_len d" using p by simp
  with n show ?thesis by (simp add: cidr.expand)
qed

lemma collapsed_subset:
  assumes "collapsed cs" "collapsed ds" "cidrs_addrs cs = cidrs_addrs ds"
  shows "set cs \<subseteq> set ds"
proof
  fix c assume c: "c \<in> set cs"
  have sub: "\<exists>b \<in> set bs. cidr_addrs a \<subseteq> cidr_addrs b"
    if "collapsed as" "collapsed bs" "cidrs_addrs as = cidrs_addrs bs" "a \<in> set as"
    for a :: "'a word cidr" and as bs
  proof -
    have "cidr_addrs a \<subseteq> cidrs_addrs bs" using that(3,4) by (auto simp: cidrs_addrs_def)
    with that show ?thesis by (simp add: collapsed_def)
  qed
  obtain d where d: "d \<in> set ds" "cidr_addrs c \<subseteq> cidr_addrs d" using sub [OF assms c] by blast
  obtain c' where c': "c' \<in> set cs" "cidr_addrs d \<subseteq> cidr_addrs c'"
    using sub [OF assms(2,1) assms(3) [symmetric] d(1)] by blast
  have "network c \<in> cidr_addrs c'" using d c' network_in_addrs [of c] by blast
  then have "c' = c"
    using collapsed_overlap_eq [OF assms(1) c'(1) c] network_in_addrs [of c] by blast
  with d c' have "cidr_addrs c = cidr_addrs d" by blast
  moreover have "cidr_ok c" "cidr_ok d" using assms(1,2) c d(1) by (simp_all add: collapsed_def)
  ultimately show "c \<in> set ds" using cidr_addrs_inject d(1) by blast
qed

lemma collapsed_strict_sorted: "collapsed cs \<Longrightarrow> sorted_wrt (<) cs"
proof -
  have "before a b \<Longrightarrow> cidr_ok a \<Longrightarrow> a < b" for a b :: "'a word cidr"
    using le_less_trans [OF network_le_end] by (auto simp: before_def less_cidr_def)
  moreover assume "collapsed cs"
  ultimately show ?thesis
    unfolding collapsed_def by (metis (no_types, lifting) sorted_wrt_mono_rel)
qed

lemma collapsed_unique:
  assumes "collapsed cs" "collapsed ds" "cidrs_addrs cs = cidrs_addrs ds"
  shows "cs = ds"
  using collapsed_subset [OF assms] collapsed_subset [OF assms(2,1) assms(3) [symmetric]]
    collapsed_strict_sorted [OF assms(1)] collapsed_strict_sorted [OF assms(2)]
  by (intro strict_sorted_equal) auto

section \<open>The operations of one family, for either sort\<close>

lemma ivs_set_to_interval:
  "cidrs_ok cs \<Longrightarrow> ivs_set (map to_interval cs) = cidrs_addrs cs"
  by (induction cs) (simp_all add: to_interval_addrs)

lemma valid_to_interval: "cidrs_ok cs \<Longrightarrow> \<forall>i \<in> set (map to_interval cs). iv_valid i"
  by (auto simp: cidrs_ok_def to_interval_valid)

lemma blocks_of_separated:
  assumes "separated is"
  shows "collapsed (blocks_from_merged is)" "cidrs_addrs (blocks_from_merged is) = ivs_set is"
  using blocks_collapsed [OF assms] blocks_addrs [of "is"] assms by (simp_all add: separated_def)

context start_sorter
begin

lemma collapse_correct:
  assumes "cidrs_ok cs"
  shows "collapsed (blocks_from_merged (merge_sorted (srt (map to_interval cs))))"
    and "cidrs_addrs (blocks_from_merged (merge_sorted (srt (map to_interval cs)))) = cidrs_addrs cs"
  using blocks_of_separated [OF merged_separated [OF valid_to_interval [OF assms]]]
    merged_set [OF valid_to_interval [OF assms]] ivs_set_to_interval [OF assms]
  by simp_all

lemma subtract_correct:
  assumes "cidrs_ok cs" "cidrs_ok ss"
  defines "r \<equiv> blocks_from_merged (subtract_merged (merge_sorted (srt (map to_interval cs)))
      (merge_sorted (srt (map to_interval ss))))"
  shows "collapsed r" "cidrs_addrs r = cidrs_addrs cs - cidrs_addrs ss"
proof -
  let ?c = "merge_sorted (srt (map to_interval cs))" and ?s = "merge_sorted (srt (map to_interval ss))"
  have sep: "separated ?c" "separated ?s"
    using merged_separated valid_to_interval assms(1,2) by blast+
  have "separated (subtract_merged ?c ?s)" by (rule subtract_merged_separated [OF sep])
  note * = blocks_of_separated [OF this]
  show "collapsed r" unfolding r_def by (rule *)
  have "ivs_set ?c = cidrs_addrs cs" "ivs_set ?s = cidrs_addrs ss"
    using merged_set [OF valid_to_interval] ivs_set_to_interval assms(1,2) by auto
  then show "cidrs_addrs r = cidrs_addrs cs - cidrs_addrs ss"
    unfolding r_def *(2) subtract_merged_set [OF sep] by simp
qed

end

lemma ipv4_to_interval_eq: "ipv4_to_interval = to_interval"
  by (simp add: fun_eq_iff ipv4_to_interval_def to_interval_def ipv4_host_mask_def)

lemma ipv6_to_interval_eq: "ipv6_to_interval = to_interval"
  by (simp add: fun_eq_iff ipv6_to_interval_def to_interval_def ipv6_host_mask_def)

lemma merge_intervals_u32_owned_eq:
  "merge_intervals_u32_owned is = merge_sorted (sort_intervals_u32_for_merge is)"
  using u32_sort.srt_set [of "[]"] by (simp add: merge_intervals_u32_owned_def)

lemma merge_intervals_u128_owned_eq: "merge_intervals_u128_owned is = merge_sorted (sort is)"
  by (simp add: merge_intervals_u128_owned_def)

lemmas family_eqs = ipv4_to_interval_eq ipv6_to_interval_eq merge_intervals_u32_owned_eq
  merge_intervals_u128_owned_eq subtract_intervals_u32_merged_def subtract_intervals_u128_merged_def
  intervals_to_ipv4_cidrs_from_merged_def intervals_to_ipv6_cidrs_from_merged_def Let_def

lemma collapse_ipv4_collapsed:
  "cidrs_ok cs \<Longrightarrow> collapsed (collapse_ipv4 cs) \<and> cidrs_addrs (collapse_ipv4 cs) = cidrs_addrs cs"
  using u32_sort.collapse_correct [of cs] by (simp add: collapse_ipv4_def family_eqs)

lemma collapse_ipv6_collapsed:
  "cidrs_ok cs \<Longrightarrow> collapsed (collapse_ipv6 cs) \<and> cidrs_addrs (collapse_ipv6 cs) = cidrs_addrs cs"
  using std_sort.collapse_correct [of cs] by (simp add: collapse_ipv6_def family_eqs)

lemma subtract_ipv4_collapsed:
  "cidrs_ok cs \<Longrightarrow> cidrs_ok ss \<Longrightarrow> collapsed (subtract_safelist_ipv4 cs ss)
     \<and> cidrs_addrs (subtract_safelist_ipv4 cs ss) = cidrs_addrs cs - cidrs_addrs ss"
  using u32_sort.subtract_correct [of cs ss] by (simp add: subtract_safelist_ipv4_def family_eqs)

lemma subtract_ipv6_collapsed:
  "cidrs_ok cs \<Longrightarrow> cidrs_ok ss \<Longrightarrow> collapsed (subtract_safelist_ipv6 cs ss)
     \<and> cidrs_addrs (subtract_safelist_ipv6 cs ss) = cidrs_addrs cs - cidrs_addrs ss"
  using std_sort.subtract_correct [of cs ss] by (simp add: subtract_safelist_ipv6_def family_eqs)

lemma intervals_overlap_iff:
  assumes "iv_valid a" "iv_valid b"
  shows "intervals_overlap a b \<longleftrightarrow> iv_set a \<inter> iv_set b \<noteq> {}"
proof
  assume "intervals_overlap a b"
  with assms have "max (start a) (start b) \<in> iv_set a \<inter> iv_set b"
    by (auto simp: intervals_overlap_def in_iv_set iv_valid_def max_def not_less)
  then show "iv_set a \<inter> iv_set b \<noteq> {}" by blast
next
  assume "iv_set a \<inter> iv_set b \<noteq> {}"
  then obtain x where "start a \<le> x" "x \<le> iend a" "start b \<le> x" "x \<le> iend b"
    by (auto simp: in_iv_set)
  then show "intervals_overlap a b"
    unfolding intervals_overlap_def by (meson not_le order_trans)
qed

lemma cidr_intervals_overlap:
  "cidr_ok a \<Longrightarrow> cidr_ok b \<Longrightarrow>
     intervals_overlap (to_interval a) (to_interval b) \<longleftrightarrow> cidr_addrs a \<inter> cidr_addrs b \<noteq> {}"
  by (simp only: intervals_overlap_iff to_interval_valid to_interval_addrs)

lemma cidr_overlaps_iff:
  "canonical_ok a \<Longrightarrow> canonical_ok b \<Longrightarrow>
     cidr_overlaps a b \<longleftrightarrow> canonical_addrs a \<inter> canonical_addrs b \<noteq> {}"
  by (cases "(a, b)" rule: cidr_overlaps.cases)
    (auto simp: intervals_overlap_u32_def intervals_overlap_u128_def ipv4_to_interval_eq
      ipv6_to_interval_eq cidr_intervals_overlap simp del: to_interval_sel)

definition v4s :: "canonical_cidr list \<Rightarrow> Ipv4Cidr list" where
  "v4s cs = concat (map (\<lambda>c. case c of V4 a \<Rightarrow> [a] | V6 _ \<Rightarrow> []) cs)"

definition v6s :: "canonical_cidr list \<Rightarrow> Ipv6Cidr list" where
  "v6s cs = concat (map (\<lambda>c. case c of V4 _ \<Rightarrow> [] | V6 a \<Rightarrow> [a]) cs)"

lemma split_by_family_from_eq:
  "split_by_family_from acc cs = \<lparr>fc_ipv4 = fc_ipv4 acc @ v4s cs, fc_ipv6 = fc_ipv6 acc @ v6s cs\<rparr>"
  by (induction acc cs rule: split_by_family_from.induct) (simp_all add: v4s_def v6s_def)

lemma split_by_family_eq: "split_by_family cs = \<lparr>fc_ipv4 = v4s cs, fc_ipv6 = v6s cs\<rparr>"
  by (simp add: split_by_family_def split_by_family_from_eq)

lemma set_v4s: "set (v4s cs) = {c. V4 c \<in> set cs}"
  by (force simp: v4s_def split: canonical_cidr.splits)

lemma set_v6s: "set (v6s cs) = {c. V6 c \<in> set cs}"
  by (force simp: v6s_def split: canonical_cidr.splits)

section \<open>Properties\<close>

text \<open>
  C20: \<open>subtract_safelist_ipv4\<close> returns the addresses of the candidates that are not
  safelisted, exactly, as canonical networks in ascending order without overlap, and no list
  of IPv4 networks denotes those addresses with fewer entries.
\<close>

theorem subtract_safelist_ipv4_exact:
  assumes "cidrs_ok candidates" "cidrs_ok safelist"
  shows "cidrs_ok (subtract_safelist_ipv4 candidates safelist)
    \<and> sorted_wrt before (subtract_safelist_ipv4 candidates safelist)
    \<and> minimal_cover (subtract_safelist_ipv4 candidates safelist)
        (cidrs_addrs candidates - cidrs_addrs safelist)"
  using subtract_ipv4_collapsed [OF assms] collapsed_minimal_cover collapsed_ok
  by (metis collapsed_def)

theorem subtract_safelist_ipv4_exact_witness:
  "minimal_cover (subtract_safelist_ipv4 [Cidr 0x0A000000 30] [Cidr 0x0A000001 32])
     (cidrs_addrs [Cidr 0x0A000000 30] - cidrs_addrs [Cidr 0x0A000001 32])
   \<and> subtract_safelist_ipv4 [Cidr 0x0A000000 30] [Cidr 0x0A000001 32]
       = [Cidr 0x0A000000 32, Cidr 0x0A000002 31]"
proof
  have "cidrs_ok [Cidr (0x0A000000 :: 32 word) 30]" "cidrs_ok [Cidr (0x0A000001 :: 32 word) 32]"
    by code_simp+
  from subtract_safelist_ipv4_exact [OF this]
  show "minimal_cover (subtract_safelist_ipv4 [Cidr 0x0A000000 30] [Cidr 0x0A000001 32])
     (cidrs_addrs [Cidr 0x0A000000 30] - cidrs_addrs [Cidr 0x0A000001 32])" by blast
  show "subtract_safelist_ipv4 [Cidr 0x0A000000 30] [Cidr 0x0A000001 32]
       = [Cidr 0x0A000000 32, Cidr 0x0A000002 31]" by code_simp
qed

text \<open>
  \<open>subtract_safelist_ipv6\<close> has the same contract at 128 bits.
\<close>

theorem subtract_safelist_ipv6_exact:
  assumes "cidrs_ok candidates" "cidrs_ok safelist"
  shows "cidrs_ok (subtract_safelist_ipv6 candidates safelist)
    \<and> sorted_wrt before (subtract_safelist_ipv6 candidates safelist)
    \<and> minimal_cover (subtract_safelist_ipv6 candidates safelist)
        (cidrs_addrs candidates - cidrs_addrs safelist)"
  using subtract_ipv6_collapsed [OF assms] collapsed_minimal_cover collapsed_ok
  by (metis collapsed_def)

theorem subtract_safelist_ipv6_exact_witness:
  "minimal_cover (subtract_safelist_ipv6 [Cidr 0x20010DB8000000000000000000000000 126]
       [Cidr 0x20010DB8000000000000000000000003 128])
     (cidrs_addrs [Cidr 0x20010DB8000000000000000000000000 126]
        - cidrs_addrs [Cidr 0x20010DB8000000000000000000000003 128])
   \<and> subtract_safelist_ipv6 [Cidr 0x20010DB8000000000000000000000000 126]
       [Cidr 0x20010DB8000000000000000000000003 128]
     = [Cidr 0x20010DB8000000000000000000000000 127, Cidr 0x20010DB8000000000000000000000002 128]"
proof
  let ?c = "[Cidr (0x20010DB8000000000000000000000000 :: 128 word) 126]"
  let ?s = "[Cidr (0x20010DB8000000000000000000000003 :: 128 word) 128]"
  have "cidrs_ok ?c" "cidrs_ok ?s" by code_simp+
  from subtract_safelist_ipv6_exact [OF this]
  show "minimal_cover (subtract_safelist_ipv6 ?c ?s) (cidrs_addrs ?c - cidrs_addrs ?s)" by blast
  show "subtract_safelist_ipv6 ?c ?s = [Cidr 0x20010DB8000000000000000000000000 127,
      Cidr 0x20010DB8000000000000000000000002 128]" by code_simp
qed

text \<open>
  C21: \<open>collapse_ipv4\<close> returns the minimal list of canonical networks with the addresses of
  its input, and that list depends on the addresses only: two inputs collapse to the same
  list exactly when they denote the same addresses, whatever their order, overlaps or
  duplicates, and whichever sort the merge took.
\<close>

theorem collapse_ipv4_canonical:
  assumes "cidrs_ok a" "cidrs_ok b"
  shows "minimal_cover (collapse_ipv4 a) (cidrs_addrs a)
    \<and> (collapse_ipv4 a = collapse_ipv4 b \<longleftrightarrow> cidrs_addrs a = cidrs_addrs b)"
  using collapse_ipv4_collapsed [OF assms(1)] collapse_ipv4_collapsed [OF assms(2)]
    collapsed_minimal_cover collapsed_unique by metis

theorem collapse_ipv4_canonical_witness:
  "cidrs_addrs [Cidr (0x0A000080 :: 32 word) 25, Cidr 0x0A000000 25] = cidrs_addrs [Cidr 0x0A000000 24]"
proof -
  have "cidrs_ok [Cidr (0x0A000080 :: 32 word) 25, Cidr 0x0A000000 25]"
    "cidrs_ok [Cidr (0x0A000000 :: 32 word) 24]" by code_simp+
  note * = collapse_ipv4_canonical [OF this]
  have "collapse_ipv4 [Cidr 0x0A000080 25, Cidr 0x0A000000 25] = collapse_ipv4 [Cidr 0x0A000000 24]"
    by code_simp
  with * show ?thesis by blast
qed

text \<open>
  \<open>collapse_ipv6\<close> has the same contract at 128 bits.
\<close>

theorem collapse_ipv6_canonical:
  assumes "cidrs_ok a" "cidrs_ok b"
  shows "minimal_cover (collapse_ipv6 a) (cidrs_addrs a)
    \<and> (collapse_ipv6 a = collapse_ipv6 b \<longleftrightarrow> cidrs_addrs a = cidrs_addrs b)"
  using collapse_ipv6_collapsed [OF assms(1)] collapse_ipv6_collapsed [OF assms(2)]
    collapsed_minimal_cover collapsed_unique by metis

theorem collapse_ipv6_canonical_witness:
  "cidrs_addrs [Cidr (0x20010DB8000000000000000080000000 :: 128 word) 97,
       Cidr 0x20010DB8000000000000000000000000 97]
     = cidrs_addrs [Cidr 0x20010DB8000000000000000000000000 96]"
proof -
  let ?a = "[Cidr (0x20010DB8000000000000000080000000 :: 128 word) 97,
       Cidr 0x20010DB8000000000000000000000000 97]"
  let ?b = "[Cidr (0x20010DB8000000000000000000000000 :: 128 word) 96]"
  have "cidrs_ok ?a" "cidrs_ok ?b" by code_simp+
  note * = collapse_ipv6_canonical [OF this]
  have "collapse_ipv6 ?a = collapse_ipv6 ?b" by code_simp
  with * show ?thesis by blast
qed

text \<open>
  C22: The IPv4 merge, with its early return on sorted input, its radix sort from 16384
  intervals on and its comparison sort below, returns the same list as merging after a full
  comparison sort: the radix sort orders by start alone, and ties do not matter.
\<close>

theorem merge_intervals_u32_sort_independent:
  assumes "\<forall>i \<in> set is. iv_valid i"
  shows "merge_intervals_u32_owned is = merge_sorted (sort is)"
  unfolding merge_intervals_u32_owned_eq
  using assms by (intro u32_sort.merged_unique)
    (simp_all only: std_sort.merged_separated std_sort.merged_set)

theorem merge_intervals_u32_sort_independent_witness:
  "merge_intervals_u32_owned [Interval 5 9, Interval 1 4, Interval 5 6, Interval 20 30]
     = merge_sorted (sort [Interval 5 9, Interval 1 4, Interval 5 6, Interval 20 30])
   \<and> merge_sorted (sort [Interval 5 9, Interval 1 4, Interval 5 6, Interval (20 :: 32 word) 30])
     = [Interval 1 9, Interval 20 30]"
proof
  show "merge_intervals_u32_owned [Interval 5 9, Interval 1 4, Interval 5 6, Interval 20 30]
     = merge_sorted (sort [Interval 5 9, Interval 1 4, Interval 5 6, Interval 20 30])"
    by (rule merge_intervals_u32_sort_independent) (simp add: iv_valid_def)
  show "merge_sorted (sort [Interval 5 9, Interval 1 4, Interval 5 6, Interval (20 :: 32 word) 30])
     = [Interval 1 9, Interval 20 30]"
    by code_simp
qed

text \<open>
  \<open>cidr_overlaps\<close> holds exactly when two canonical networks share an address; networks
  of different families share none.
\<close>

theorem cidr_overlaps_share_address:
  assumes "canonical_ok a" "canonical_ok b"
  shows "cidr_overlaps a b \<longleftrightarrow> (\<exists>x. x \<in> canonical_addrs a \<and> x \<in> canonical_addrs b)"
  using cidr_overlaps_iff [OF assms] by blast

theorem cidr_overlaps_share_address_witness:
  "\<exists>x. x \<in> canonical_addrs (V4 (Cidr 0x0A000000 8)) \<and> x \<in> canonical_addrs (V4 (Cidr 0x0A010000 16))"
proof -
  have "canonical_ok (V4 (Cidr 0x0A000000 8))" "canonical_ok (V4 (Cidr 0x0A010000 16))"
    by code_simp+
  moreover have "cidr_overlaps (V4 (Cidr 0x0A000000 8)) (V4 (Cidr 0x0A010000 16))" by code_simp
  ultimately show ?thesis using cidr_overlaps_share_address by blast
qed

end
