(* ===== verification/Ip_Text.thy ===== *)
theory Ip_Text
  imports Network "HOL-Library.Code_Target_Nat"
begin

text \<open>
  IP addresses and networks as text. The parser and the printer of \<open>std::net\<close> are modelled
  as the standard library documents and implements them: \<open>read_number\<close>, \<open>read_ipv4_addr\<close>,
  \<open>read_groups\<close> and \<open>read_ipv6_addr\<close> as functions that return the value and the text not
  read, the printers as functions to text. On top of them stand \<open>parse_ip_cidr_token\<close>,
  \<open>parse_ip_cidr_strict\<close>, \<open>parse_ip_cidr_non_strict\<close>
  (\<^verbatim>\<open>crates/kidobo-core/src/network.rs\<close>) and the \<open>Display\<close> instances of
  \<^verbatim>\<open>crates/kidobo-core/src/network_types.rs\<close>.

  The lemmas show that parsing a printed network gives the network back, in both families.
\<close>

section \<open>Big-endian digits\<close>

fun be_digits :: "nat \<Rightarrow> nat \<Rightarrow> nat \<Rightarrow> nat list" where
  "be_digits b 0 n = []"
| "be_digits b (Suc k) n = be_digits b k (n div b) @ [n mod b]"

definition be_value :: "nat \<Rightarrow> nat list \<Rightarrow> nat" where
  "be_value b ds = foldl (\<lambda>a d. a * b + d) 0 ds"

lemma length_be_digits [simp]: "length (be_digits b k n) = k"
  by (induction b k n rule: be_digits.induct) simp_all

lemma be_digits_bound: "0 < b \<Longrightarrow> \<forall>d \<in> set (be_digits b k n). d < b"
  by (induction b k n rule: be_digits.induct) auto

lemma be_value_digits: "n < b ^ k \<Longrightarrow> be_value b (be_digits b k n) = n"
proof (induction b k n rule: be_digits.induct)
  case (2 b k n)
  then have "n div b < b ^ k" by (simp add: less_mult_imp_div_less mult.commute)
  with 2 show ?case by (simp add: be_value_def)
qed (simp add: be_value_def)

section \<open>Addresses as text\<close>

definition ipv4_octets :: "32 word \<Rightarrow> nat list" where
  "ipv4_octets a = be_digits 256 4 (unat a)"

definition ipv4_from_octets :: "nat list \<Rightarrow> 32 word" where
  "ipv4_from_octets os = word_of_nat (be_value 256 os)"

definition ipv6_segments :: "128 word \<Rightarrow> nat list" where
  "ipv6_segments a = be_digits 65536 8 (unat a)"

definition ipv6_from_segments :: "nat list \<Rightarrow> 128 word" where
  "ipv6_from_segments gs = word_of_nat (be_value 65536 gs)"

text \<open>Code points: 46 is the dot, 47 the slash, 58 the colon.\<close>

definition show_octets :: "nat list \<Rightarrow> rstr" where
  "show_octets os = str_join [46] (map show_nat os)"

definition show_groups :: "nat list \<Rightarrow> rstr" where
  "show_groups gs = str_join [58] (map (show_radix 16) gs)"

text \<open>The longest run of zero segments, the first one of that length: start and length.\<close>

fun zero_span_from :: "nat \<Rightarrow> nat \<times> nat \<Rightarrow> nat \<times> nat \<Rightarrow> nat list \<Rightarrow> nat \<times> nat" where
  "zero_span_from i longest current [] = longest"
| "zero_span_from i longest current (g # gs) =
     (if g = 0
      then let current = (if snd current = 0 then (i, 1) else (fst current, snd current + 1));
               longest = (if snd current > snd longest then current else longest)
           in zero_span_from (i + 1) longest current gs
      else zero_span_from (i + 1) longest (0, 0) gs)"

definition zero_span :: "nat list \<Rightarrow> nat \<times> nat" where
  "zero_span gs = zero_span_from 0 (0, 0) (0, 0) gs"

definition show_ipv4 :: "32 word \<Rightarrow> rstr" where
  "show_ipv4 a = show_octets (ipv4_octets a)"

definition show_segments :: "nat list \<Rightarrow> rstr" where
  "show_segments gs =
     (if take 6 gs = [0, 0, 0, 0, 0, 65535]
      then [58, 58] @ show_groups [65535] @ [58]
           @ show_octets [gs ! 6 div 256, gs ! 6 mod 256, gs ! 7 div 256, gs ! 7 mod 256]
      else case zero_span gs of (st, len) \<Rightarrow>
        if len > 1
        then show_groups (take st gs) @ [58, 58] @ show_groups (drop (st + len) gs)
        else show_groups gs)"

definition show_ipv6 :: "128 word \<Rightarrow> rstr" where
  "show_ipv6 a = show_segments (ipv6_segments a)"

section \<open>Reading addresses\<close>

type_synonym 'a reader = "rstr \<Rightarrow> ('a \<times> rstr) option"

definition read_given_char :: "nat \<Rightarrow> rstr \<Rightarrow> rstr option" where
  "read_given_char c s = (case s of [] \<Rightarrow> None | x # xs \<Rightarrow> if x = c then Some xs else None)"

definition is_digit_of :: "nat \<Rightarrow> nat \<Rightarrow> bool" where
  "is_digit_of radix c \<longleftrightarrow> to_digit radix c \<noteq> None"

definition read_number :: "nat \<Rightarrow> nat \<Rightarrow> bool \<Rightarrow> nat \<Rightarrow> nat reader" where
  "read_number radix max_digits allow_zero_prefix mx s =
     (let ds = takeWhile (is_digit_of radix) s
      in if length ds > max_digits then None
         else if length ds = 0 then None
         else if \<not> allow_zero_prefix \<and> hd ds = 48 \<and> length ds > 1 then None
         else if digits_value radix ds \<le> mx
              then Some (digits_value radix ds, dropWhile (is_digit_of radix) s)
              else None)"

definition read_separator :: "nat \<Rightarrow> nat \<Rightarrow> 'a reader \<Rightarrow> 'a reader" where
  "read_separator sep index inner s =
     (if index > 0 then Option.bind (read_given_char sep s) inner else inner s)"

fun read_octets :: "nat \<Rightarrow> nat \<Rightarrow> nat list reader" where
  "read_octets 0 i s = Some ([], s)"
| "read_octets (Suc k) i s =
     Option.bind (read_separator 46 i (read_number 10 3 False 255) s) (\<lambda>(g, s).
       Option.bind (read_octets k (i + 1) s) (\<lambda>(gs, s). Some (g # gs, s)))"

definition read_ipv4_addr :: "nat list reader" where
  "read_ipv4_addr s = read_octets 4 0 s"

text \<open>
  The groups read, whether the last two came from an embedded IPv4 address, and the rest;
  the first argument is the number of slots left.
\<close>

fun read_groups :: "nat \<Rightarrow> nat \<Rightarrow> rstr \<Rightarrow> nat list \<times> bool \<times> rstr" where
  "read_groups 0 i s = ([], False, s)"
| "read_groups (Suc left) i s =
     (case (if left > 0 then read_separator 58 i read_ipv4_addr s else None) of
        Some (os, s) \<Rightarrow> ([os ! 0 * 256 + os ! 1, os ! 2 * 256 + os ! 3], True, s)
      | None \<Rightarrow>
          (case read_separator 58 i (read_number 16 4 True 65535) s of
             Some (g, s) \<Rightarrow>
               (case read_groups left (i + 1) s of (gs, v4, s) \<Rightarrow> (g # gs, v4, s))
           | None \<Rightarrow> ([], False, s)))"

definition read_ipv6_addr :: "nat list reader" where
  "read_ipv6_addr s =
     (case read_groups 8 0 s of (head, head_ipv4, s) \<Rightarrow>
        if length head = 8 then Some (head, s)
        else if head_ipv4 then None
        else Option.bind (read_given_char 58 s) (\<lambda>s.
          Option.bind (read_given_char 58 s) (\<lambda>s.
            case read_groups (8 - (length head + 1)) 0 s of (tail, _, s) \<Rightarrow>
              Some (head @ replicate (8 - length head - length tail) 0 @ tail, s))))"

datatype ip_addr = IpV4 "32 word" | IpV6 "128 word"

definition read_ip_addr :: "ip_addr reader" where
  "read_ip_addr s =
     (case read_ipv4_addr s of
        Some (os, s) \<Rightarrow> Some (IpV4 (ipv4_from_octets os), s)
      | None \<Rightarrow> map_option (\<lambda>(gs, s). (IpV6 (ipv6_from_segments gs), s)) (read_ipv6_addr s))"

definition parse_ip :: "rstr \<Rightarrow> ip_addr option" where
  "parse_ip s =
     (case read_ip_addr s of Some (ip, rest) \<Rightarrow> if rest = [] then Some ip else None | None \<Rightarrow> None)"

section \<open>Networks as text\<close>

definition parse_ip_cidr_token :: "rstr \<Rightarrow> canonical_cidr option" where
  "parse_ip_cidr_token token =
     (case parse_ip token of
        Some (IpV4 v4) \<Rightarrow> map_option V4 (Ipv4Cidr_new v4 32)
      | Some (IpV6 v6) \<Rightarrow> map_option V6 (Ipv6Cidr_new v6 128)
      | None \<Rightarrow>
          Option.bind (split_once 47 token) (\<lambda>(addr_part, prefix_part).
            Option.bind (parse_uint 255 prefix_part) (\<lambda>prefix.
              Option.bind (parse_ip addr_part) (\<lambda>ip.
                case ip of
                  IpV4 v4 \<Rightarrow> map_option V4 (Ipv4Cidr_new v4 prefix)
                | IpV6 v6 \<Rightarrow> map_option V6 (Ipv6Cidr_new v6 prefix)))))"

definition parse_ip_cidr_non_strict :: "rstr \<Rightarrow> canonical_cidr option" where
  "parse_ip_cidr_non_strict input =
     (case split_whitespace input of
        [] \<Rightarrow> None
      | token # _ \<Rightarrow>
          let token = trim token in if token = [] then None else parse_ip_cidr_token token)"

definition parse_ip_cidr_strict :: "rstr \<Rightarrow> canonical_cidr option" where
  "parse_ip_cidr_strict input =
     (let normalized = trim input
      in if normalized = [] then None
         else if length (split_whitespace normalized) \<noteq> 1 then None
         else parse_ip_cidr_token normalized)"

definition show_ipv4_cidr :: "Ipv4Cidr \<Rightarrow> rstr" where
  "show_ipv4_cidr c = show_ipv4 (network c) @ [47] @ show_nat (prefix_len c)"

definition show_ipv6_cidr :: "Ipv6Cidr \<Rightarrow> rstr" where
  "show_ipv6_cidr c = show_ipv6 (network c) @ [47] @ show_nat (prefix_len c)"

fun show_cidr :: "canonical_cidr \<Rightarrow> rstr" where
  "show_cidr (V4 c) = show_ipv4_cidr c"
| "show_cidr (V6 c) = show_ipv6_cidr c"

section \<open>Printed numbers\<close>

lemma show_radix_rec:
  "2 \<le> b \<Longrightarrow> show_radix b n =
     (if n < b then [digit_char n] else show_radix b (n div b) @ [digit_char (n mod b)])"
  by (subst show_radix.simps) auto

lemma to_digit_char: "d < b \<Longrightarrow> b \<le> 36 \<Longrightarrow> to_digit b (digit_char d) = Some d"
  by (auto simp: to_digit_def digit_char_def Let_def)

lemma show_radix_induct [case_names digit step]:
  assumes "2 \<le> b" "\<And>n. n < b \<Longrightarrow> P n [digit_char n]"
    "\<And>n s. b \<le> n \<Longrightarrow> P (n div b) s \<Longrightarrow> P n (s @ [digit_char (n mod b)])"
  shows "P n (show_radix b n)"
proof (induction n rule: less_induct)
  case (less n)
  show ?case
  proof (cases "n < b")
    case True
    with assms show ?thesis by (simp add: show_radix_rec)
  next
    case False
    with assms(1) have "n div b < n" by simp
    with less False assms show ?thesis by (simp add: show_radix_rec)
  qed
qed

lemma show_radix_digits:
  assumes "2 \<le> b" "b \<le> 36"
  shows "\<forall>c \<in> set (show_radix b n). is_digit_of b c"
  by (rule show_radix_induct [OF assms(1), where P = "\<lambda>_ s. \<forall>c \<in> set s. is_digit_of b c"])
    (use assms in \<open>auto simp: is_digit_of_def to_digit_char\<close>)

lemma digits_value_snoc: "digits_value b (s @ [c]) = digits_value b s * b + the (to_digit b c)"
  by (simp add: digits_value_def)

lemma digits_value_show:
  assumes "2 \<le> b" "b \<le> 36"
  shows "digits_value b (show_radix b n) = n"
proof (rule show_radix_induct [OF assms(1), where P = "\<lambda>n s. digits_value b s = n"])
  fix m assume "m < b"
  then show "digits_value b [digit_char m] = m"
    using assms by (simp add: digits_value_def to_digit_char)
next
  fix m s assume "digits_value b s = m div b"
  moreover have "m mod b < b" using assms(1) by simp
  ultimately show "digits_value b (s @ [digit_char (m mod b)]) = m"
    using assms by (simp only: digits_value_snoc to_digit_char option.sel div_mult_mod_eq)
qed

lemma show_radix_not_Nil: "show_radix b n \<noteq> []"
  by (subst show_radix.simps) auto

lemma show_radix_length:
  assumes "2 \<le> b"
  shows "n < b ^ Suc k \<Longrightarrow> length (show_radix b n) \<le> Suc k"
proof (induction k arbitrary: n)
  case 0
  with assms show ?case by (subst show_radix_rec) simp_all
next
  case (Suc k)
  then have "n div b < b ^ Suc k" by (simp add: less_mult_imp_div_less mult.commute)
  then have "length (show_radix b (n div b)) \<le> Suc k" by (rule Suc.IH)
  with assms show ?case by (subst show_radix_rec) simp_all
qed

lemma show_radix_no_leading_zero:
  assumes "2 \<le> b" "b \<le> 36"
  shows "n \<noteq> 0 \<longrightarrow> hd (show_radix b n) \<noteq> 48"
proof (rule show_radix_induct [OF assms(1), where P = "\<lambda>n s. s \<noteq> [] \<and> (n \<noteq> 0 \<longrightarrow> hd s \<noteq> 48)",
      THEN conjunct2])
  show "[digit_char m] \<noteq> [] \<and> (m \<noteq> 0 \<longrightarrow> hd [digit_char m] \<noteq> 48)" for m
    by (simp add: digit_char_def)
  show "s @ [digit_char (m mod b)] \<noteq> [] \<and> (m \<noteq> 0 \<longrightarrow> hd (s @ [digit_char (m mod b)]) \<noteq> 48)"
    if "b \<le> m" "s \<noteq> [] \<and> (m div b \<noteq> 0 \<longrightarrow> hd s \<noteq> 48)" for m s
  proof -
    have "m div b \<noteq> 0" using that(1) assms(1) by (simp add: div_eq_0_iff)
    with that(2) show ?thesis by simp
  qed
qed

lemma show_radix_zero: "2 \<le> b \<Longrightarrow> show_radix b 0 = [48]"
  by (subst show_radix_rec) (simp_all add: digit_char_def)

lemma takeWhile_show:
  assumes "2 \<le> b" "b \<le> 36" "rest = [] \<or> \<not> is_digit_of b (hd rest)"
  shows "takeWhile (is_digit_of b) (show_radix b n @ rest) = show_radix b n"
    "dropWhile (is_digit_of b) (show_radix b n @ rest) = rest"
  using show_radix_digits [OF assms(1,2), of n] assms(3)
  by (cases rest; simp add: takeWhile_append dropWhile_append)+

text \<open>A printed number is read back, up to the text after it.\<close>

lemma read_number_show:
  assumes "2 \<le> b" "b \<le> 36" "rest = [] \<or> \<not> is_digit_of b (hd rest)"
    "n < b ^ Suc k" "n \<le> mx"
  shows "read_number b (Suc k) z mx (show_radix b n @ rest) = Some (n, rest)"
proof -
  let ?s = "show_radix b n"
  have zero: "\<not> (hd ?s = 48 \<and> length ?s > 1)"
  proof (cases "n = 0")
    case True
    with show_radix_zero [OF assms(1)] show ?thesis by simp
  next
    case False
    with show_radix_no_leading_zero [OF assms(1,2)] show ?thesis by blast
  qed
  have "length ?s \<noteq> 0" by (simp add: show_radix_not_Nil)
  with zero show ?thesis
    using show_radix_length [OF assms(1,4)] assms(5)
    by (simp only: read_number_def Let_def takeWhile_show [OF assms(1-3)]
        digits_value_show [OF assms(1,2)] not_less [symmetric] if_False if_True simp_thms)
qed

section \<open>IPv4 text\<close>

text \<open>A list of items, each with a separator before it.\<close>

definition sepd :: "nat \<Rightarrow> ('a \<Rightarrow> rstr) \<Rightarrow> 'a list \<Rightarrow> rstr" where
  "sepd c f xs = concat (map (\<lambda>x. c # f x) xs)"

lemma sepd_simps [simp]:
  "sepd c f [] = []" "sepd c f (x # xs) = c # f x @ sepd c f xs"
  by (simp_all add: sepd_def)

lemma str_join_sepd: "str_join [c] (map f (x # xs)) = f x @ sepd c f xs"
  by (induction xs arbitrary: x) simp_all

lemma sepd_start: "sepd c f xs @ rest = [] \<or> hd (sepd c f xs @ rest) = c \<or> xs = []"
  by (cases xs) simp_all

lemma read_given_char_Cons [simp]:
  "read_given_char c (x # xs) = (if x = c then Some xs else None)" "read_given_char c [] = None"
  by (simp_all add: read_given_char_def)

lemma digit_chars:
  "\<not> is_digit_of 10 46" "\<not> is_digit_of 16 46" "\<not> is_digit_of 10 47" "\<not> is_digit_of 16 47"
  "\<not> is_digit_of 10 58" "\<not> is_digit_of 16 58"
  by (simp_all add: is_digit_of_def to_digit_def Let_def)

lemma digit_10_16: "is_digit_of 10 c \<Longrightarrow> is_digit_of 16 c"
  by (auto simp: is_digit_of_def to_digit_def Let_def split: if_splits)

lemma read_number_octet:
  assumes "os < 256" "rest = [] \<or> \<not> is_digit_of 10 (hd rest)"
  shows "read_number 10 3 False 255 (show_nat os @ rest) = Some (os, rest)"
  using read_number_show [of 10 rest os 2 255 False] assms by (simp add: show_nat_def numeral_3_eq_3)

lemma read_octets_sepd:
  assumes "\<forall>x \<in> set os. x < 256" "rest = [] \<or> \<not> is_digit_of 10 (hd rest)"
  shows "read_octets (length os) (Suc i) (sepd 46 show_nat os @ rest) = Some (os, rest)"
  using assms(1)
proof (induction os arbitrary: i)
  case (Cons x xs)
  have "sepd 46 show_nat xs @ rest = [] \<or> \<not> is_digit_of 10 (hd (sepd 46 show_nat xs @ rest))"
    using sepd_start [of 46 show_nat xs rest] assms(2) by (auto simp: digit_chars)
  with Cons show ?case by (simp add: read_separator_def read_number_octet)
qed simp

lemma read_ipv4_addr_rec:
  "read_ipv4_addr s = Option.bind (read_number 10 3 False 255 s) (\<lambda>(g, s).
     Option.bind (read_octets 3 (Suc 0) s) (\<lambda>(gs, s). Some (g # gs, s)))"
proof -
  have "(4 :: nat) = Suc 3" by simp
  then show ?thesis by (simp only: read_ipv4_addr_def read_octets.simps read_separator_def) simp
qed

lemma read_octets_stop:
  assumes "read_given_char 46 s = None"
  shows "read_octets 3 (Suc i) s = None"
proof -
  have "(3 :: nat) = Suc 2" by simp
  with assms show ?thesis by (simp only: read_octets.simps read_separator_def) simp
qed

lemma read_ipv4_octets:
  assumes "length os = 4" "\<forall>x \<in> set os. x < 256" "rest = [] \<or> \<not> is_digit_of 10 (hd rest)"
  shows "read_ipv4_addr (show_octets os @ rest) = Some (os, rest)"
proof -
  obtain x xs where os: "os = x # xs" "length xs = 3" using assms(1) by (cases os) auto
  have "sepd 46 show_nat xs @ rest = [] \<or> \<not> is_digit_of 10 (hd (sepd 46 show_nat xs @ rest))"
    using sepd_start [of 46 show_nat xs rest] assms(3) by (auto simp: digit_chars)
  with os assms read_octets_sepd [of xs rest 0] show ?thesis
    by (simp add: read_ipv4_addr_rec show_octets_def str_join_sepd read_number_octet del: list.map)
qed

lemma no_number:
  "rest = [] \<or> \<not> is_digit_of b (hd rest) \<Longrightarrow> read_number b k z mx rest = None"
  by (cases rest) (simp_all add: read_number_def)

lemma read_number_rest:
  "read_number b k z mx s = Some (n, rest) \<Longrightarrow> rest = dropWhile (is_digit_of b) s"
  by (auto simp: read_number_def Let_def split: if_splits)

lemma no_ipv4:
  assumes "dropWhile (is_digit_of 10) s = [] \<or> hd (dropWhile (is_digit_of 10) s) \<noteq> 46"
  shows "read_ipv4_addr s = None"
proof -
  have "read_given_char 46 (dropWhile (is_digit_of 10) s) = None"
    using assms by (cases "dropWhile (is_digit_of 10) s") (auto simp del: dropWhile_eq_Nil_conv)
  then show ?thesis
    by (cases "read_number 10 3 False 255 s")
      (auto simp: read_ipv4_addr_rec read_octets_stop dest!: read_number_rest)
qed

section \<open>IPv6 text\<close>

text \<open>The text after a group does not extend it, and is no separated group itself.\<close>

definition group_end :: "rstr \<Rightarrow> bool" where
  "group_end rest \<longleftrightarrow> rest = [] \<or> (hd rest \<noteq> 46 \<and> \<not> is_digit_of 16 (hd rest))"

definition blocked :: "rstr \<Rightarrow> bool" where
  "blocked rest \<longleftrightarrow> (\<forall>r. rest = 58 # r \<longrightarrow> r = [] \<or> \<not> is_digit_of 16 (hd r))"

lemma group_no_ipv4:
  assumes "\<forall>c \<in> set h. is_digit_of 16 c" "group_end rest"
  shows "read_ipv4_addr (h @ rest) = None"
proof (rule no_ipv4)
  show "dropWhile (is_digit_of 10) (h @ rest) = [] \<or> hd (dropWhile (is_digit_of 10) (h @ rest)) \<noteq> 46"
    using assms(1)
  proof (induction h)
    case Nil
    then show ?case
      using assms(2) by (cases rest) (auto simp: group_end_def dest: digit_10_16)
  next
    case (Cons c h)
    then show ?case by (auto simp: digit_chars)
  qed
qed

lemma show_group_digits: "\<forall>c \<in> set (show_radix 16 g). is_digit_of 16 c"
  by (rule show_radix_digits) simp_all

lemma read_number_group:
  assumes "g < 65536" "group_end rest"
  shows "read_number 16 4 True 65535 (show_radix 16 g @ rest) = Some (g, rest)"
  using read_number_show [of 16 rest g 3 65535 True] assms
  by (auto simp: group_end_def)

lemma no_more_groups: "blocked rest \<Longrightarrow> read_groups left (Suc i) rest = ([], False, rest)"
proof (cases left)
  case (Suc l)
  assume b: "blocked rest"
  have "read_separator 58 (Suc i) (read_number 16 4 True 65535) rest = None"
    using b by (cases rest) (auto simp: read_separator_def blocked_def no_number)
  moreover have "read_ipv4_addr r = None" if "r = [] \<or> \<not> is_digit_of 16 (hd r)" for r
  proof -
    have "read_number 10 3 False 255 r = None" using that digit_10_16 by (intro no_number) blast
    then show ?thesis by (simp add: read_ipv4_addr_rec)
  qed
  then have "read_separator 58 (Suc i) read_ipv4_addr rest = None"
    using b by (cases rest) (auto simp: read_separator_def blocked_def)
  ultimately show ?thesis using Suc by simp
qed simp

lemma group_end_sepd: "group_end rest \<Longrightarrow> group_end (sepd 58 f gs @ rest)"
  using sepd_start [of 58 f gs rest] by (auto simp: group_end_def digit_chars)

lemma read_groups_sepd:
  assumes "\<forall>g \<in> set gs. g < 65536" "length gs \<le> left" "group_end rest" "blocked rest"
  shows "read_groups left (Suc i) (sepd 58 (show_radix 16) gs @ rest) = (gs, False, rest)"
  using assms(1,2)
proof (induction gs arbitrary: left i)
  case Nil
  with assms(4) show ?case by (simp add: no_more_groups)
next
  case (Cons g gs)
  then obtain l where l: "left = Suc l" by (cases left) auto
  note e = group_end_sepd [OF assms(3), of "show_radix 16" gs]
  from Cons l show ?case
    by (auto simp: read_separator_def group_no_ipv4 [OF show_group_digits e] read_number_group [OF _ e])
qed

lemma show_groups_Cons:
  "show_groups (g # gs) = show_radix 16 g @ sepd 58 (show_radix 16) gs"
  by (simp only: show_groups_def str_join_sepd)

lemma read_groups_show:
  assumes "\<forall>g \<in> set gs. g < 65536" "length gs \<le> left" "group_end rest"
    "blocked rest" 
  shows "read_groups left 0 (show_groups gs @ rest) = (gs, False, rest)"
proof (cases gs)
  case Nil
  have n: "read_number 16 4 True 65535 rest = None"
    using assms(3) by (intro no_number) (auto simp: group_end_def)
  have "read_ipv4_addr rest = None" using group_no_ipv4 [of "[]"] assms(3) by simp
  with Nil n show ?thesis by (cases left) (simp_all add: show_groups_def read_separator_def)
next
  case (Cons g gs')
  with assms(2) obtain l where l: "left = Suc l" by (cases left) auto
  note e = group_end_sepd [OF assms(3), of "show_radix 16" gs']
  have "read_groups l (Suc 0) (sepd 58 (show_radix 16) gs' @ rest) = (gs', False, rest)"
    using assms Cons l by (intro read_groups_sepd) simp_all
  with assms(1) Cons l show ?thesis
    by (auto simp: show_groups_Cons read_separator_def
        group_no_ipv4 [OF show_group_digits e] read_number_group [OF _ e])
qed

text \<open>The zero span lies inside the segments and holds zeros only.\<close>

definition zero_run :: "nat list \<Rightarrow> nat \<Rightarrow> nat \<times> nat \<Rightarrow> bool" where
  "zero_run gs i sp \<longleftrightarrow> fst sp + snd sp \<le> i \<and> (\<forall>j < snd sp. gs ! (fst sp + j) = 0)"

lemma zero_span_from_run:
  assumes "zero_run (gs1 @ gs2) (length gs1) longest" "zero_run (gs1 @ gs2) (length gs1) current"
    "snd current = 0 \<or> fst current + snd current = length gs1"
  shows "zero_run (gs1 @ gs2) (length (gs1 @ gs2))
    (zero_span_from (length gs1) longest current gs2)"
  using assms
proof (induction gs2 arbitrary: gs1 longest current)
  case Nil
  then show ?case by simp
next
  case (Cons g gs2)
  let ?cur = "if snd current = 0 then (length gs1, 1) else (fst current, snd current + 1)"
  have grow: "zero_run (gs1 @ g # gs2) (Suc (length gs1)) sp"
    if "zero_run (gs1 @ g # gs2) (length gs1) sp" for sp
    using that by (simp add: zero_run_def)
  show ?case
  proof (cases "g = 0")
    case True
    have c: "zero_run ((gs1 @ [g]) @ gs2) (length (gs1 @ [g])) ?cur"
      using Cons.prems(2,3) True by (auto simp: zero_run_def less_Suc_eq nth_append)
    have "zero_run ((gs1 @ [g]) @ gs2) (length ((gs1 @ [g]) @ gs2)) (zero_span_from
        (length (gs1 @ [g])) (if snd ?cur > snd longest then ?cur else longest) ?cur gs2)"
      using c grow [OF Cons.prems(1)] Cons.prems(3) by (intro Cons.IH) auto
    with True show ?thesis by (simp add: Let_def)
  next
    case False
    have "zero_run ((gs1 @ [g]) @ gs2) (length ((gs1 @ [g]) @ gs2))
        (zero_span_from (length (gs1 @ [g])) longest (0, 0) gs2)"
      using grow [OF Cons.prems(1)] by (intro Cons.IH) (simp_all add: zero_run_def)
    with False show ?thesis by simp
  qed
qed

lemma zero_span_run: "zero_run gs (length gs) (zero_span gs)"
  using zero_span_from_run [of "[]" gs "(0, 0)" "(0, 0)"] by (simp add: zero_span_def zero_run_def)

lemma zero_run_split:
  assumes "zero_run gs (length gs) (st, len)"
  shows "take st gs @ replicate len 0 @ drop (st + len) gs = gs"
proof (rule nth_equalityI)
  show "length (take st gs @ replicate len 0 @ drop (st + len) gs) = length gs"
    using assms by (simp add: zero_run_def)
  fix i assume "i < length (take st gs @ replicate len 0 @ drop (st + len) gs)"
  then show "(take st gs @ replicate len 0 @ drop (st + len) gs) ! i = gs ! i"
    using assms by (auto simp: zero_run_def nth_append)
qed

section \<open>The printed address is read back\<close>

lemma read_compressed:
  assumes "\<forall>g \<in> set hs. g < 65536" "\<forall>g \<in> set ts. g < 65536" "length hs + length ts \<le> 7"
    "group_end rest" "blocked rest"
  shows "read_ipv6_addr (show_groups hs @ [58, 58] @ show_groups ts @ rest)
    = Some (hs @ replicate (8 - length hs - length ts) 0 @ ts, rest)"
proof -
  have e: "group_end ([58, 58] @ show_groups ts @ rest)" by (simp add: group_end_def digit_chars)
  have b: "blocked ([58, 58] @ show_groups ts @ rest)" by (simp add: blocked_def digit_chars)
  have "read_groups 8 0 (show_groups hs @ [58, 58] @ show_groups ts @ rest)
      = (hs, False, [58, 58] @ show_groups ts @ rest)"
    using assms by (intro read_groups_show e b) simp_all
  moreover have "read_groups (8 - (length hs + 1)) 0 (show_groups ts @ rest) = (ts, False, rest)"
    using assms by (intro read_groups_show) simp_all
  moreover have "length hs \<noteq> 8" using assms(3) by simp
  ultimately show ?thesis by (simp add: read_ipv6_addr_def)
qed

lemma octets_of_group:
  "g < 65536 \<Longrightarrow> g div 256 < 256 \<and> g mod 256 < 256 \<and> g div 256 * 256 + g mod 256 = (g :: nat)"
  by auto

lemma read_groups_rec:
  "0 < left \<Longrightarrow> read_groups left i s =
     (case (if left > 1 then read_separator 58 i read_ipv4_addr s else None) of
        Some (os, s) \<Rightarrow> ([os ! 0 * 256 + os ! 1, os ! 2 * 256 + os ! 3], True, s)
      | None \<Rightarrow>
          (case read_separator 58 i (read_number 16 4 True 65535) s of
             Some (g, s) \<Rightarrow>
               (case read_groups (left - 1) (i + 1) s of (gs, v4, s) \<Rightarrow> (g # gs, v4, s))
           | None \<Rightarrow> ([], False, s)))"
  by (cases left) (auto split: option.split prod.split)

lemma read_mapped:
  assumes "a < 65536" "b < 65536" "rest = [] \<or> \<not> is_digit_of 10 (hd rest)"
  shows "read_ipv6_addr ([58, 58] @ show_groups [65535] @ [58]
      @ show_octets [a div 256, a mod 256, b div 256, b mod 256] @ rest)
    = Some ([0, 0, 0, 0, 0, 65535, a, b], rest)"
proof -
  let ?os = "[a div 256, a mod 256, b div 256, b mod 256]"
  have v4: "read_ipv4_addr (show_octets ?os @ rest) = Some (?os, rest)"
    using assms by (intro read_ipv4_octets) auto
  have e: "group_end (58 # show_octets ?os @ rest)" by (simp add: group_end_def digit_chars)
  have tail: "read_groups 7 0 (show_groups [65535] @ 58 # show_octets ?os @ rest)
      = ([65535, a, b], True, rest)"
  proof -
    have "read_groups 6 1 (58 # show_octets ?os @ rest) = ([a, b], True, rest)"
      using octets_of_group [OF assms(1)] octets_of_group [OF assms(2)]
      by (subst read_groups_rec) (simp_all add: read_separator_def v4)
    then show ?thesis
      by (subst read_groups_rec) (simp_all add: show_groups_Cons read_separator_def
          read_number_group [OF _ e] group_no_ipv4 [OF show_group_digits e])
  qed
  have five: "replicate 5 (0 :: nat) = [0, 0, 0, 0, 0]" by (simp add: eval_nat_numeral)
  have "read_groups 8 0 (show_groups [] @ [58, 58] @ show_groups [65535] @ [58] @ show_octets ?os @ rest)
      = ([], False, [58, 58] @ show_groups [65535] @ [58] @ show_octets ?os @ rest)"
    by (rule read_groups_show) (simp_all add: group_end_def blocked_def digit_chars)
  then show ?thesis
    using tail by (simp add: read_ipv6_addr_def show_groups_def five)
qed

lemma length_two: "length xs = 2 \<Longrightarrow> \<exists>a b. xs = [a, b]"
  by (auto simp: length_Suc_conv numeral_2_eq_2)

lemma read_show_segments:
  assumes "length gs = 8" "\<forall>g \<in> set gs. g < 65536" "group_end rest" "blocked rest"
  shows "read_ipv6_addr (show_segments gs @ rest) = Some (gs, rest)"
proof (cases "take 6 gs = [0, 0, 0, 0, 0, 65535]")
  case True
  have "length (drop 6 gs) = 2" using assms(1) by simp
  from length_two [OF this] obtain a b where ab: "drop 6 gs = [a, b]" by blast
  have gs: "gs = [0, 0, 0, 0, 0, 65535, a, b]"
    using append_take_drop_id [of 6 gs] unfolding True ab by simp
  then have "read_ipv6_addr ([58, 58] @ show_groups [65535] @ [58]
      @ show_octets [a div 256, a mod 256, b div 256, b mod 256] @ rest) = Some (gs, rest)"
    using assms(2,3) digit_10_16 unfolding gs by (intro read_mapped) (auto simp: group_end_def)
  moreover have "gs ! 6 = a" "gs ! 7 = b" using gs by simp_all
  ultimately show ?thesis using True by (simp add: show_segments_def)
next
  case False
  obtain st len where sp: "zero_span gs = (st, len)" by fastforce
  have run: "zero_run gs (length gs) (st, len)" using zero_span_run [of gs] sp by simp
  show ?thesis
  proof (cases "len > 1")
    case True
    have l: "st + len \<le> 8" using run assms(1) by (simp add: zero_run_def)
    have "read_ipv6_addr (show_groups (take st gs) @ [58, 58] @ show_groups (drop (st + len) gs) @ rest)
      = Some (take st gs @ replicate (8 - length (take st gs) - length (drop (st + len) gs)) 0
          @ drop (st + len) gs, rest)"
      using assms True l by (intro read_compressed) (auto dest: in_set_takeD in_set_dropD)
    moreover have "8 - length (take st gs) - length (drop (st + len) gs) = len"
      using assms(1) l by simp
    ultimately show ?thesis
      using False True sp zero_run_split [OF run] by (simp add: show_segments_def)
  next
    case short: False
    have "read_groups 8 0 (show_groups gs @ rest) = (gs, False, rest)"
      using assms by (intro read_groups_show) simp_all
    with False short sp assms(1) show ?thesis by (simp add: show_segments_def read_ipv6_addr_def)
  qed
qed

lemma ipv4_octets_round: "ipv4_from_octets (ipv4_octets a) = a"
proof -
  have "unat a < 256 ^ 4" using unsigned_less [of a, where ?'a = nat] by (simp del: unsigned_less)
  then show ?thesis by (simp add: ipv4_from_octets_def ipv4_octets_def be_value_digits)
qed

lemma ipv6_segments_round: "ipv6_from_segments (ipv6_segments a) = a"
proof -
  have "unat a < 65536 ^ 8" using unsigned_less [of a, where ?'a = nat] by (simp del: unsigned_less)
  then show ?thesis by (simp add: ipv6_from_segments_def ipv6_segments_def be_value_digits)
qed

lemma read_ip_show_ipv4:
  assumes "rest = [] \<or> \<not> is_digit_of 10 (hd rest)"
  shows "read_ip_addr (show_ipv4 a @ rest) = Some (IpV4 a, rest)"
proof -
  have "length (ipv4_octets a) = 4" by (simp add: ipv4_octets_def)
  moreover have "\<forall>d \<in> set (ipv4_octets a). d < 256"
    unfolding ipv4_octets_def by (rule be_digits_bound) simp
  ultimately show ?thesis
    using read_ipv4_octets assms by (simp add: read_ip_addr_def show_ipv4_def ipv4_octets_round)
qed

lemma show_segments_no_ipv4:
  assumes "length gs = 8" "group_end rest"
  shows "read_ipv4_addr (show_segments gs @ rest) = None"
proof -
  have *: "read_ipv4_addr (show_groups hs @ r) = None" if "group_end r" for hs r
  proof (cases hs)
    case Nil
    with that group_no_ipv4 [of "[]" r] show ?thesis by (simp add: show_groups_def)
  next
    case (Cons h hs')
    with group_no_ipv4 [OF show_group_digits group_end_sepd [OF that]] show ?thesis
      by (simp add: show_groups_Cons)
  qed
  have "group_end (58 # r)" for r by (simp add: group_end_def digit_chars)
  with * [of _ "[]"] * assms(2) * [of "58 # _"] show ?thesis
    using * [of _ "[]"]
    by (auto simp: show_segments_def group_no_ipv4 [of "[]", simplified] split: prod.split)
qed

lemma read_ip_show_ipv6:
  assumes "group_end rest" "blocked rest"
  shows "read_ip_addr (show_ipv6 a @ rest) = Some (IpV6 a, rest)"
proof -
  have l: "length (ipv6_segments a) = 8" by (simp add: ipv6_segments_def)
  have "\<forall>g \<in> set (ipv6_segments a). g < 65536"
    unfolding ipv6_segments_def by (rule be_digits_bound) simp
  from read_show_segments [OF l this assms] show_segments_no_ipv4 [OF l assms(1)]
  show ?thesis by (simp add: read_ip_addr_def show_ipv6_def ipv6_segments_round)
qed

lemma parse_ip_show:
  "parse_ip (show_ipv4 a) = Some (IpV4 a)" "parse_ip (show_ipv6 b) = Some (IpV6 b)"
  using read_ip_show_ipv4 [of "[]" a] read_ip_show_ipv6 [of "[]" b]
  by (simp_all add: parse_ip_def group_end_def blocked_def)

lemma parse_ip_slash:
  "parse_ip (show_ipv4 a @ 47 # r) = None" "parse_ip (show_ipv6 b @ 47 # r) = None"
  using read_ip_show_ipv4 [of "47 # r" a] read_ip_show_ipv6 [of "47 # r" b]
  by (simp_all add: parse_ip_def group_end_def blocked_def digit_chars)

lemma slash_notin_sepd: "\<forall>x. 47 \<notin> set (f x) \<Longrightarrow> c \<noteq> 47 \<Longrightarrow> 47 \<notin> set (str_join [c] (map f xs))"
proof (cases xs)
  case (Cons x xs')
  then show "\<forall>x. 47 \<notin> set (f x) \<Longrightarrow> c \<noteq> 47 \<Longrightarrow> 47 \<notin> set (str_join [c] (map f xs))"
    unfolding Cons str_join_sepd by (auto simp: sepd_def)
qed simp

lemma slash_notin_radix: "2 \<le> b \<Longrightarrow> b \<le> 16 \<Longrightarrow> 47 \<notin> set (show_radix b n)"
  using show_radix_digits [of b n]
  by (auto simp: is_digit_of_def to_digit_def Let_def)

lemma slash_notin_show: "47 \<notin> set (show_ipv4 a)" "47 \<notin> set (show_ipv6 b)"
proof -
  have o: "47 \<notin> set (show_octets os)" for os
    unfolding show_octets_def show_nat_def by (intro slash_notin_sepd) (simp_all add: slash_notin_radix)
  have g: "47 \<notin> set (show_groups gs)" for gs
    unfolding show_groups_def by (intro slash_notin_sepd) (simp_all add: slash_notin_radix)
  show "47 \<notin> set (show_ipv4 a)" by (simp add: show_ipv4_def o)
  show "47 \<notin> set (show_ipv6 b)" by (auto simp: show_ipv6_def show_segments_def o g split: prod.split)
qed

lemma split_once_append: "c \<notin> set s \<Longrightarrow> split_once c (s @ c # r) = Some (s, r)"
  by (auto simp: split_once_def takeWhile_append dropWhile_append)

lemma is_digit_of_10: "is_digit_of 10 c \<longleftrightarrow> is_ascii_digit c"
  by (auto simp: is_digit_of_def is_ascii_digit_def to_digit_def Let_def)

lemma strip_plus_show: "strip_plus (show_nat n) = show_nat n"
  using show_radix_digits [of 10 n] show_radix_not_Nil [of 10 n]
  by (cases "show_radix 10 n") (auto simp: strip_plus_def show_nat_def is_digit_of_10 is_ascii_digit_def)

lemma parse_uint_show: "n \<le> mx \<Longrightarrow> parse_uint mx (show_nat n) = Some n"
  using show_radix_digits [of 10 n] show_radix_not_Nil [of 10 n] digits_value_show [of 10 n]
  by (simp add: parse_uint_def strip_plus_show)
    (simp add: show_nat_def list_all_iff is_digit_of_10)

lemma from_parts_id: "cidr_ok c \<Longrightarrow> from_parts (network c) (prefix_len c) = c"
  by (simp add: cidr_ok_def from_parts_aligned)

lemma parse_show_cidr: "canonical_ok c \<Longrightarrow> parse_ip_cidr_token (show_cidr c) = Some c"
  by (cases c)
    (simp_all add: parse_ip_cidr_token_def show_ipv4_cidr_def show_ipv6_cidr_def parse_ip_slash
      parse_ip_show split_once_append slash_notin_show parse_uint_show Ipv4Cidr_new_def
      Ipv6Cidr_new_def Ipv4Cidr_from_parts_eq Ipv6Cidr_from_parts_eq from_parts_id cidr_ok_def)

lemma cidr_of_ip_ok:
  "(case ip of IpV4 v4 \<Rightarrow> map_option V4 (Ipv4Cidr_new v4 p)
     | IpV6 v6 \<Rightarrow> map_option V6 (Ipv6Cidr_new v6 q)) = Some c \<Longrightarrow> canonical_ok c"
  by (cases ip) (auto dest!: Ipv4Cidr_new_ok Ipv6Cidr_new_ok)

lemma parse_ip_cidr_token_ok: "parse_ip_cidr_token s = Some c \<Longrightarrow> canonical_ok c"
  by (auto simp: parse_ip_cidr_token_def bind_eq_Some_conv dest: cidr_of_ip_ok
      split: option.split_asm)

lemma parse_ip_cidr_strict_ok: "parse_ip_cidr_strict s = Some c \<Longrightarrow> canonical_ok c"
  by (auto simp: parse_ip_cidr_strict_def Let_def dest: parse_ip_cidr_token_ok split: if_splits)

lemma parse_ip_cidr_non_strict_ok: "parse_ip_cidr_non_strict s = Some c \<Longrightarrow> canonical_ok c"
  by (auto simp: parse_ip_cidr_non_strict_def Let_def dest: parse_ip_cidr_token_ok
      split: if_splits list.splits)

section \<open>Properties\<close>

text \<open>
  C23: Every canonical network of either family survives a round trip through its text:
  parsing what \<open>Display\<close> prints, with or without white space around it, gives the network
  back; IPv6 text is compressed and IPv4-mapped as the printer does.
\<close>

theorem cidr_text_round_trip:
  assumes "canonical_ok c"
  shows "parse_ip_cidr_token (show_cidr c) = Some c"
  by (rule parse_show_cidr [OF assms])

theorem cidr_text_round_trip_witness:
  "parse_ip_cidr_token (lit ''2001:db8::/32'') = Some (V6 (Cidr 0x20010DB8000000000000000000000000 32))
   \<and> parse_ip_cidr_token (lit ''192.0.2.0/24'') = Some (V4 (Cidr 0xC0000200 24))"
proof
  have "canonical_ok (V6 (Cidr 0x20010DB8000000000000000000000000 32))" by code_simp
  moreover have "show_cidr (V6 (Cidr 0x20010DB8000000000000000000000000 32)) = lit ''2001:db8::/32''"
    by code_simp
  ultimately show "parse_ip_cidr_token (lit ''2001:db8::/32'')
      = Some (V6 (Cidr 0x20010DB8000000000000000000000000 32))"
    using cidr_text_round_trip by metis
  have "canonical_ok (V4 (Cidr 0xC0000200 24))" by code_simp
  moreover have "show_cidr (V4 (Cidr 0xC0000200 24)) = lit ''192.0.2.0/24''" by code_simp
  ultimately show "parse_ip_cidr_token (lit ''192.0.2.0/24'') = Some (V4 (Cidr 0xC0000200 24))"
    using cidr_text_round_trip by metis
qed

end
