(* ===== verification/Sync_Core.thy ===== *)
theory Sync_Core
  imports Ip_Text
begin

text \<open>
  \<^verbatim>\<open>crates/kidobo-core/src/sync.rs\<close>: the lists a sync enforces, computed from the candidate
  and the safelisted networks of both families; and \<^verbatim>\<open>crates/kidobo-core/src/asn.rs\<close>: the
  parser of autonomous-system numbers. The lemmas show that the effective lists denote
  exactly the candidate addresses of the enabled families that are not safelisted.
\<close>

section \<open>Effective blocklists\<close>

record effective_blocklists =
  eb_ipv4 :: "Ipv4Cidr list"
  eb_ipv6 :: "Ipv6Cidr list"

definition compute_effective_blocklists ::
    "canonical_cidr list \<Rightarrow> canonical_cidr list \<Rightarrow> bool \<Rightarrow> effective_blocklists" where
  "compute_effective_blocklists candidates safelist enable_ipv6 =
     (let candidate_family = split_by_family candidates;
          safelist_family = split_by_family safelist;
          effective_v4 = subtract_safelist_ipv4 (fc_ipv4 candidate_family) (fc_ipv4 safelist_family);
          effective_v6 = (if enable_ipv6
            then subtract_safelist_ipv6 (fc_ipv6 candidate_family) (fc_ipv6 safelist_family)
            else [])
      in \<lparr>eb_ipv4 = effective_v4, eb_ipv6 = effective_v6\<rparr>)"

text \<open>What the lists denote, and the addresses a family switch leaves in play.\<close>

definition effective_addrs :: "effective_blocklists \<Rightarrow> address set" where
  "effective_addrs e = Addr4 ` cidrs_addrs (eb_ipv4 e) \<union> Addr6 ` cidrs_addrs (eb_ipv6 e)"

definition addrs_of :: "canonical_cidr list \<Rightarrow> address set" where
  "addrs_of cs = (\<Union>c \<in> set cs. canonical_addrs c)"

fun family_enabled :: "bool \<Rightarrow> address \<Rightarrow> bool" where
  "family_enabled enable_ipv6 (Addr4 _) = True"
| "family_enabled enable_ipv6 (Addr6 _) = enable_ipv6"

definition canonicals_ok :: "canonical_cidr list \<Rightarrow> bool" where
  "canonicals_ok cs \<longleftrightarrow> (\<forall>c \<in> set cs. canonical_ok c)"

lemma v4s_ok: "canonicals_ok cs \<Longrightarrow> cidrs_ok (v4s cs)"
  by (auto simp: canonicals_ok_def cidrs_ok_def set_v4s)

lemma v6s_ok: "canonicals_ok cs \<Longrightarrow> cidrs_ok (v6s cs)"
  by (auto simp: canonicals_ok_def cidrs_ok_def set_v6s)

lemma vs_simps [simp]:
  "v4s [] = []" "v4s (V4 a # cs) = a # v4s cs" "v4s (V6 b # cs) = v4s cs"
  "v6s [] = []" "v6s (V4 a # cs) = v6s cs" "v6s (V6 b # cs) = b # v6s cs"
  by (simp_all add: v4s_def v6s_def)

lemma in_addrs_of:
  "Addr4 a \<in> addrs_of cs \<longleftrightarrow> a \<in> cidrs_addrs (v4s cs)"
  "Addr6 b \<in> addrs_of cs \<longleftrightarrow> b \<in> cidrs_addrs (v6s cs)"
proof -
  have "Addr4 a \<in> canonical_addrs c \<longleftrightarrow> (\<exists>d. c = V4 d \<and> a \<in> cidr_addrs d)"
    "Addr6 b \<in> canonical_addrs c \<longleftrightarrow> (\<exists>d. c = V6 d \<and> b \<in> cidr_addrs d)" for c
    by (cases c; auto)+
  then show "Addr4 a \<in> addrs_of cs \<longleftrightarrow> a \<in> cidrs_addrs (v4s cs)"
    "Addr6 b \<in> addrs_of cs \<longleftrightarrow> b \<in> cidrs_addrs (v6s cs)"
    by (auto simp: addrs_of_def cidrs_addrs_def set_v4s set_v6s)
qed

lemma in_effective_addrs:
  "Addr4 a \<in> effective_addrs e \<longleftrightarrow> a \<in> cidrs_addrs (eb_ipv4 e)"
  "Addr6 b \<in> effective_addrs e \<longleftrightarrow> b \<in> cidrs_addrs (eb_ipv6 e)"
  by (auto simp: effective_addrs_def)

lemma collapsed_Nil [simp]: "collapsed []"
  by (simp add: collapsed_def) (metis network_in_addrs empty_iff)

lemma effective_collapsed:
  fixes v6 :: bool
  assumes "canonicals_ok cs" "canonicals_ok ss"
  defines "e \<equiv> compute_effective_blocklists cs ss v6"
  shows "collapsed (eb_ipv4 e)" "collapsed (eb_ipv6 e)"
    "effective_addrs e = {a \<in> addrs_of cs - addrs_of ss. family_enabled v6 a}"
proof -
  note v4 = subtract_ipv4_collapsed [OF v4s_ok [OF assms(1)] v4s_ok [OF assms(2)]]
  note v6 = subtract_ipv6_collapsed [OF v6s_ok [OF assms(1)] v6s_ok [OF assms(2)]]
  show "collapsed (eb_ipv4 e)" "collapsed (eb_ipv6 e)"
    using v4 v6
    by (simp_all add: e_def compute_effective_blocklists_def Let_def split_by_family_eq)
  have "a \<in> effective_addrs e \<longleftrightarrow> a \<in> addrs_of cs - addrs_of ss \<and> family_enabled v6 a" for a
    using v4 v6 by (cases a) (simp_all add: e_def compute_effective_blocklists_def Let_def
        split_by_family_eq in_effective_addrs in_addrs_of)
  then show "effective_addrs e = {a \<in> addrs_of cs - addrs_of ss. family_enabled v6 a}" by auto
qed

text \<open>
  C24: The effective blocklists of a sync denote exactly the candidate addresses of the
  enabled families that no safelisted network covers, and each family's list is minimal.
\<close>

theorem effective_blocklists_exact:
  assumes "canonicals_ok candidates" "canonicals_ok safelist"
  shows "effective_addrs (compute_effective_blocklists candidates safelist enable_ipv6)
      = {a \<in> addrs_of candidates - addrs_of safelist. family_enabled enable_ipv6 a}
    \<and> minimal_cover (eb_ipv4 (compute_effective_blocklists candidates safelist enable_ipv6))
        {a. Addr4 a \<in> addrs_of candidates - addrs_of safelist}
    \<and> minimal_cover (eb_ipv6 (compute_effective_blocklists candidates safelist enable_ipv6))
        {a. enable_ipv6 \<and> Addr6 a \<in> addrs_of candidates - addrs_of safelist}"
proof -
  let ?e = "compute_effective_blocklists candidates safelist enable_ipv6"
  note * = effective_collapsed [OF assms, of enable_ipv6]
  have "cidrs_addrs (eb_ipv4 ?e) = {a. Addr4 a \<in> effective_addrs ?e}"
    "cidrs_addrs (eb_ipv6 ?e) = {a. Addr6 a \<in> effective_addrs ?e}"
    by (auto simp: in_effective_addrs)
  with * collapsed_minimal_cover [OF *(1)] collapsed_minimal_cover [OF *(2)] show ?thesis
    by (simp add: conj_commute)
qed

theorem effective_blocklists_exact_witness:
  "effective_addrs (compute_effective_blocklists [V4 (Cidr 0x0A000000 30)] [V4 (Cidr 0x0A000001 32)] False)
     = {a \<in> addrs_of [V4 (Cidr 0x0A000000 30)] - addrs_of [V4 (Cidr 0x0A000001 32)]. family_enabled False a}
   \<and> eb_ipv4 (compute_effective_blocklists [V4 (Cidr 0x0A000000 30)] [V4 (Cidr 0x0A000001 32)] False)
     = [Cidr 0x0A000000 32, Cidr 0x0A000002 31]"
proof
  have "canonicals_ok [V4 (Cidr 0x0A000000 30)]" "canonicals_ok [V4 (Cidr 0x0A000001 32)]"
    by code_simp+
  from effective_blocklists_exact [OF this, of False]
  show "effective_addrs (compute_effective_blocklists [V4 (Cidr 0x0A000000 30)] [V4 (Cidr 0x0A000001 32)] False)
     = {a \<in> addrs_of [V4 (Cidr 0x0A000000 30)] - addrs_of [V4 (Cidr 0x0A000001 32)]. family_enabled False a}"
    by blast
  show "eb_ipv4 (compute_effective_blocklists [V4 (Cidr 0x0A000000 30)] [V4 (Cidr 0x0A000001 32)] False)
     = [Cidr 0x0A000000 32, Cidr 0x0A000002 31]" by code_simp
qed

lemma parsed_networks_ok:
  "canonicals_ok (List.map_filter parse_ip_cidr_strict ts)" "canonicals_ok (List.map_filter parse_ip_cidr_non_strict ts)"
  by (auto simp: canonicals_ok_def List.map_filter_def dest: parse_ip_cidr_strict_ok parse_ip_cidr_non_strict_ok)

text \<open>
  C19: Networks are well-typed. Whatever text or numbers they are given, the constructors and the
  parsers return networks whose prefix fits the family and whose host bits are zero, or nothing;
  and the lists that collapsing and the effective lists compute from parsed texts consist of such
  networks again.
\<close>

theorem networks_well_formed:
  "pred_option cidr_ok (Ipv4Cidr_new a p) \<and> pred_option cidr_ok (Ipv6Cidr_new b q)
    \<and> pred_option canonical_ok (parse_ip_cidr_token t) \<and> pred_option canonical_ok (parse_ip_cidr_strict t)
    \<and> pred_option canonical_ok (parse_ip_cidr_non_strict t)
    \<and> (let candidates = List.map_filter parse_ip_cidr_non_strict us; safelist = List.map_filter parse_ip_cidr_strict vs;
           effective = compute_effective_blocklists candidates safelist enable_ipv6
       in cidrs_ok (collapse_ipv4 (v4s candidates)) \<and> cidrs_ok (collapse_ipv6 (v6s candidates))
         \<and> cidrs_ok (eb_ipv4 effective) \<and> cidrs_ok (eb_ipv6 effective))"
  using parsed_networks_ok effective_collapsed [OF parsed_networks_ok(2,1)]
  by (auto simp: Let_def option.pred_set dest: Ipv4Cidr_new_ok Ipv6Cidr_new_ok parse_ip_cidr_token_ok parse_ip_cidr_strict_ok
      parse_ip_cidr_non_strict_ok intro!: collapsed_ok collapse_ipv4_collapsed [THEN conjunct1]
      collapse_ipv6_collapsed [THEN conjunct1] v4s_ok v6s_ok)

section \<open>Autonomous-system numbers\<close>

definition U32_MAX :: nat where
  "U32_MAX = 2 ^ 32 - 1"

text \<open>The error keeps the operator's input.\<close>

datatype asn_token_error = AsnTokenError (asn_input: rstr)

text \<open>Code points: 65/97 the letter A, 83/115 the letter S.\<close>

definition parse_asn_token :: "rstr \<Rightarrow> asn_token_error + nat" where
  "parse_asn_token input =
     (let trimmed = trim input;
          normalized = (case trimmed of
              a # s # rest \<Rightarrow> if a \<in> {65, 97} \<and> s \<in> {83, 115} then rest else trimmed
            | _ \<Rightarrow> trimmed)
      in case parse_uint U32_MAX normalized of
           Some v \<Rightarrow> if v > 0 then Inr v else Inl (AsnTokenError input)
         | None \<Rightarrow> Inl (AsnTokenError input))"

definition normalize_asn_tokens :: "rstr list \<Rightarrow> asn_token_error + nat list" where
  "normalize_asn_tokens tokens =
     and_then (collect_results parse_asn_token tokens) (\<lambda>ns. Inr (sort_dedup ns))"

lemma collect_results_Inr:
  "collect_results f xs = Inr ys \<Longrightarrow> length ys = length xs \<and> (\<forall>i < length xs. f (xs ! i) = Inr (ys ! i))"
proof (induction xs arbitrary: ys)
  case (Cons x xs)
  then obtain y zs where "f x = Inr y" "collect_results f xs = Inr zs" "ys = y # zs"
    by (cases "f x"; cases "collect_results f xs") auto
  with Cons.IH [of zs] show ?case by (auto simp: nth_Cons split: nat.splits)
qed simp

lemma collect_results_set:
  "collect_results f xs = Inr ys \<Longrightarrow> Inr ` set ys = f ` set xs"
proof (induction xs arbitrary: ys)
  case (Cons x xs)
  then obtain y zs where "f x = Inr y" "collect_results f xs = Inr zs" "ys = y # zs"
    by (cases "f x"; cases "collect_results f xs") auto
  with Cons.IH [of zs] show ?case by auto
qed simp

lemma collect_results_Inl:
  "collect_results f xs = Inl e \<Longrightarrow>
     \<exists>ys x zs. xs = ys @ x # zs \<and> f x = Inl e \<and> (\<forall>y \<in> set ys. \<exists>v. f y = Inr v)"
proof (induction xs)
  case (Cons x xs)
  show ?case
  proof (cases "f x")
    case (Inl e')
    with Cons.prems have "x # xs = [] @ x # xs \<and> f x = Inl e" by simp
    then show ?thesis by (metis empty_iff empty_set)
  next
    case (Inr v)
    with Cons obtain ys z zs where "xs = ys @ z # zs" "f z = Inl e"
      "\<forall>y \<in> set ys. \<exists>v. f y = Inr v"
      by (cases "collect_results f xs") auto
    with Inr have "x # xs = (x # ys) @ z # zs \<and> f z = Inl e \<and> (\<forall>y \<in> set (x # ys). \<exists>v. f y = Inr v)"
      by simp
    then show ?thesis by blast
  qed
qed simp

lemma parse_asn_token_bounds: "parse_asn_token s = Inr n \<Longrightarrow> 0 < n \<and> n \<le> U32_MAX"
  by (auto simp: parse_asn_token_def Let_def parse_uint_def split: option.splits if_splits)

text \<open>
  What a token denotes, without the parser: its trimmed text is a decimal number of 32 bits,
  not zero, after an optional prefix AS in any mixture of cases.
\<close>

definition asn_text :: "rstr \<Rightarrow> nat \<Rightarrow> bool" where
  "asn_text t n \<longleftrightarrow> 0 < n
     \<and> ((\<exists>a \<in> {65, 97}. \<exists>s \<in> {83, 115}. \<exists>d. trim t = a # s # d \<and> parse_uint U32_MAX d = Some n)
        \<or> parse_uint U32_MAX (trim t) = Some n)"

lemma parse_uint_letter: "c \<in> {65, 97} \<Longrightarrow> parse_uint m (c # ds) = None"
  by (auto simp: parse_uint_def strip_plus_def is_ascii_digit_def Let_def)

lemma parse_asn_token_Inr: "parse_asn_token t = Inr n \<longleftrightarrow> asn_text t n"
proof (cases "trim t")
  case Nil
  then show ?thesis by (auto simp: parse_asn_token_def asn_text_def split: option.splits)
next
  case (Cons a ds)
  then show ?thesis
    by (cases ds) (auto simp: parse_asn_token_def asn_text_def parse_uint_letter split: option.splits)
qed

lemma parse_asn_token_Inl: "parse_asn_token t = Inl e \<longleftrightarrow> e = AsnTokenError t \<and> (\<nexists>n. asn_text t n)"
proof (cases "parse_asn_token t")
  case (Inl e')
  then have "e' = AsnTokenError t"
    by (auto simp: parse_asn_token_def Let_def split: option.splits if_splits)
  moreover have "\<nexists>n. asn_text t n" using Inl by (auto simp: parse_asn_token_Inr [symmetric])
  ultimately show ?thesis using Inl by auto
next
  case (Inr n)
  then show ?thesis using parse_asn_token_Inr [of t n] by auto
qed

lemma asn_text_bounds: "asn_text t n \<Longrightarrow> 0 < n \<and> n \<le> U32_MAX"
  by (rule parse_asn_token_bounds) (simp add: parse_asn_token_Inr)

text \<open>
  C25: Normalising ASN tokens either gives, when every token denotes a number, the strictly
  ascending list of exactly the numbers the tokens denote, each one positive and within 32
  bits, or fails with the original text of the first token that denotes none.
\<close>

theorem normalize_asn_tokens_spec:
  "case normalize_asn_tokens tokens of
     Inr ns \<Rightarrow> sorted_wrt (<) ns \<and> set ns = {n. \<exists>t \<in> set tokens. asn_text t n}
       \<and> list_all (\<lambda>t. \<exists>n. asn_text t n) tokens
       \<and> list_all (\<lambda>n. 0 < n \<and> n \<le> U32_MAX) ns
   | Inl e \<Rightarrow> (\<exists>ys t zs. tokens = ys @ t # zs \<and> e = AsnTokenError t
       \<and> (\<nexists>n. asn_text t n) \<and> list_all (\<lambda>y. \<exists>n. asn_text y n) ys)"
proof (cases "collect_results parse_asn_token tokens")
  case (Inl e)
  then obtain ys t zs where t: "tokens = ys @ t # zs" "parse_asn_token t = Inl e"
    "\<forall>y \<in> set ys. \<exists>v. parse_asn_token y = Inr v"
    using collect_results_Inl by metis
  then show ?thesis
    using Inl by (auto simp: normalize_asn_tokens_def parse_asn_token_Inl parse_asn_token_Inr list_all_iff)
next
  case (Inr ns)
  have s: "Inr ` set ns = parse_asn_token ` set tokens" by (rule collect_results_set [OF Inr])
  have "set ns = {n. \<exists>t \<in> set tokens. asn_text t n}"
  proof (rule set_eqI)
    fix n
    have "n \<in> set ns \<longleftrightarrow> Inr n \<in> parse_asn_token ` set tokens" unfolding s [symmetric] by auto
    also have "\<dots> \<longleftrightarrow> (\<exists>t \<in> set tokens. parse_asn_token t = Inr n)" by force
    finally show "n \<in> set ns \<longleftrightarrow> n \<in> {n. \<exists>t \<in> set tokens. asn_text t n}"
      by (simp add: parse_asn_token_Inr)
  qed
  moreover have "list_all (\<lambda>t. \<exists>n. asn_text t n) tokens"
    using s by (auto simp: list_all_iff parse_asn_token_Inr [symmetric] image_def set_eq_iff)
  ultimately show ?thesis
    using Inr asn_text_bounds
    by (auto simp: normalize_asn_tokens_def strict_sorted_sort_dedup list_all_iff)
qed

end
