(* ===== verification/Blocklist.thy ===== *)
theory Blocklist
  imports Sync_Core
begin

text \<open>
  \<^verbatim>\<open>crates/kidobo-core/src/blocklist.rs\<close>: the local blocklist document, its canonical
  rendering, and the planning of bans and unbans.

  The lemmas show that canonicalising keeps the addresses and is idempotent once the document
  has an entry, that the ban classification adds each new network once, and that the indexed
  unban plan finds exactly the entries a pairwise comparison with every target finds.
\<close>

section \<open>The document\<close>

datatype invalid_blocklist_line = InvalidBlocklistLine (line_number: nat) (line_content: rstr)

record blocklist_line =
  original :: rstr
  canonical :: "canonical_cidr option"

record blocklist_document =
  doc_lines :: "blocklist_line list"
  has_content :: bool
  trailing_newline :: bool

text \<open>Code point 35 is the comment sign.\<close>

definition parse_blocklist_entry :: "rstr \<Rightarrow> nat \<Rightarrow> invalid_blocklist_line + canonical_cidr option" where
  "parse_blocklist_entry line number =
     (let trimmed = trim line
      in if trimmed = [] \<or> prefix [35] trimmed then Inr None
         else case parse_ip_cidr_strict trimmed of
                Some c \<Rightarrow> Inr (Some c)
              | None \<Rightarrow> Inl (InvalidBlocklistLine number line))"

definition BlocklistLine_parse :: "rstr \<Rightarrow> nat \<Rightarrow> invalid_blocklist_line + blocklist_line" where
  "BlocklistLine_parse line number =
     and_then (parse_blocklist_entry line number)
       (\<lambda>c. Inr \<lparr>original = line, canonical = c\<rparr>)"

fun parse_lines_from :: "nat \<Rightarrow> rstr list \<Rightarrow> invalid_blocklist_line + blocklist_line list" where
  "parse_lines_from idx [] = Inr []"
| "parse_lines_from idx (l # ls) =
     and_then (BlocklistLine_parse l (idx + 1)) (\<lambda>x.
       and_then (parse_lines_from (idx + 1) ls) (\<lambda>xs. Inr (x # xs)))"

definition BlocklistDocument_parse :: "rstr \<Rightarrow> invalid_blocklist_line + blocklist_document" where
  "BlocklistDocument_parse contents =
     and_then (parse_lines_from 0 (str_lines contents)) (\<lambda>ls.
       Inr \<lparr>doc_lines = ls, has_content = (contents \<noteq> []), trailing_newline = suffix [10] contents\<rparr>)"

definition canonical_entry_lines :: "canonical_cidr list \<Rightarrow> rstr list" where
  "canonical_entry_lines entries =
     (let family_split = split_by_family entries;
          collapsed_v4 = collapse_ipv4 (fc_ipv4 family_split);
          collapsed_v6 = collapse_ipv6 (fc_ipv6 family_split)
      in map show_ipv4_cidr collapsed_v4 @ map show_ipv6_cidr collapsed_v6)"

text \<open>The loop over the lines: header lines so far, entries so far, \<open>in_header\<close>.\<close>

fun split_header :: "rstr list \<Rightarrow> canonical_cidr list \<Rightarrow> bool \<Rightarrow> blocklist_line list
    \<Rightarrow> rstr list \<times> canonical_cidr list" where
  "split_header header entries in_header [] = (header, entries)"
| "split_header header entries in_header (l # ls) =
     (let trimmed = trim (original l)
      in if in_header \<and> canonical l = None \<and> (trimmed = [] \<or> prefix [35] trimmed)
         then split_header (header @ [trimmed]) entries True ls
         else split_header header
           (case canonical l of Some c \<Rightarrow> entries @ [c] | None \<Rightarrow> entries) False ls)"

definition canonicalized_contents :: "blocklist_document \<Rightarrow> rstr" where
  "canonicalized_contents d =
     (case split_header [] [] True (doc_lines d) of (header_lines, entries) \<Rightarrow>
        let canonical_entries = canonical_entry_lines entries;
            header_lines =
              (if canonical_entries \<noteq> []
               then (if header_lines \<noteq> [] \<and> last header_lines \<noteq> []
                     then header_lines @ [[]] else header_lines) @ canonical_entries
               else if header_lines \<noteq> [] \<and> last header_lines = [] then butlast header_lines
               else header_lines);
            normalized = str_join [10] header_lines
        in if normalized \<noteq> [] then normalized @ [10] else normalized)"

definition canonicalize_blocklist :: "rstr \<Rightarrow> invalid_blocklist_line + rstr" where
  "canonicalize_blocklist contents =
     and_then (BlocklistDocument_parse contents) (\<lambda>d. Inr (canonicalized_contents d))"

section \<open>Bans and unbans\<close>

datatype blocklist_target_parse_error = InvalidTarget

definition parse_blocklist_target :: "rstr \<Rightarrow> blocklist_target_parse_error + canonical_cidr" where
  "parse_blocklist_target inp = ok_or (parse_ip_cidr_strict (trim inp)) InvalidTarget"

datatype ban_classification = Added canonical_cidr | AlreadyPresent canonical_cidr

fun classify_from :: "canonical_cidr set \<Rightarrow> canonical_cidr list \<Rightarrow> ban_classification list" where
  "classify_from present [] = []"
| "classify_from present (t # ts) =
     (if t \<notin> present then Added t # classify_from (insert t present) ts
      else AlreadyPresent t # classify_from present ts)"

definition classify_ban_targets ::
    "canonical_cidr list \<Rightarrow> canonical_cidr list \<Rightarrow> ban_classification list" where
  "classify_ban_targets existing targets = classify_from (set existing) targets"

record unban_index_plan =
  exact_indexes :: "nat list"
  partial_indexes :: "nat list"

record unban_target_index =
  ut_targets :: "canonical_cidr list"
  ut_ipv4 :: "IntervalU32 list"
  ut_ipv6 :: "IntervalU128 list"

definition UnbanTargetIndex_new :: "canonical_cidr list \<Rightarrow> unban_target_index" where
  "UnbanTargetIndex_new targets =
     (let targets = sort_dedup targets;
          families = split_by_family targets
      in \<lparr>ut_targets = targets,
          ut_ipv4 = merge_intervals_u32_owned (map ipv4_to_interval (fc_ipv4 families)),
          ut_ipv6 = merge_intervals_u128_owned (map ipv6_to_interval (fc_ipv6 families))\<rparr>)"

text \<open>
  \<open>partition_point\<close> on the interval ends, then the test of the interval found there;
  and \<open>slice::binary_search\<close> on the sorted targets.
\<close>

definition interval_hit :: "'a::len word interval list \<Rightarrow> 'a word interval \<Rightarrow> bool" where
  "interval_hit is entry =
     (let index = partition_point (\<lambda>t. iend t < start entry) is
      in index < length is \<and> start (is ! index) \<le> iend entry)"

fun index_overlaps :: "unban_target_index \<Rightarrow> canonical_cidr \<Rightarrow> bool" where
  "index_overlaps x (V4 c) = interval_hit (ut_ipv4 x) (ipv4_to_interval c)"
| "index_overlaps x (V6 c) = interval_hit (ut_ipv6 x) (ipv6_to_interval c)"

fun binary_search_ok :: "'a::linorder list \<Rightarrow> nat \<Rightarrow> 'a \<Rightarrow> bool" where
  "binary_search_ok xs 0 x = False"
| "binary_search_ok xs (Suc fuel) x =
     (if xs = [] then False
      else let mid = length xs div 2
           in if xs ! mid = x then True
              else if xs ! mid < x then binary_search_ok (drop (Suc mid) xs) fuel x
              else binary_search_ok (take mid xs) fuel x)"

fun plan_from :: "unban_target_index \<Rightarrow> unban_index_plan \<Rightarrow> nat \<Rightarrow> canonical_cidr option list
    \<Rightarrow> unban_index_plan" where
  "plan_from x plan index [] = plan"
| "plan_from x plan index (None # es) = plan_from x plan (index + 1) es"
| "plan_from x plan index (Some e # es) =
     (if binary_search_ok (ut_targets x) (length (ut_targets x)) e
      then plan_from x (plan\<lparr>exact_indexes := exact_indexes plan @ [index]\<rparr>) (index + 1) es
      else if index_overlaps x e
      then plan_from x (plan\<lparr>partial_indexes := partial_indexes plan @ [index]\<rparr>) (index + 1) es
      else plan_from x plan (index + 1) es)"

definition UnbanTargetIndex_plan :: "unban_target_index \<Rightarrow> canonical_cidr option list \<Rightarrow> unban_index_plan" where
  "UnbanTargetIndex_plan x entries = plan_from x \<lparr>exact_indexes = [], partial_indexes = []\<rparr> 0 entries"

fun exact_match_from :: "canonical_cidr set \<Rightarrow> nat \<Rightarrow> canonical_cidr option list \<Rightarrow> nat list" where
  "exact_match_from ts idx [] = []"
| "exact_match_from ts idx (e # es) =
     (case e of
        Some c \<Rightarrow> if c \<in> ts then idx # exact_match_from ts (idx + 1) es
                  else exact_match_from ts (idx + 1) es
      | None \<Rightarrow> exact_match_from ts (idx + 1) es)"

definition exact_match_indexes :: "canonical_cidr option list \<Rightarrow> canonical_cidr list \<Rightarrow> nat list" where
  "exact_match_indexes entries targets = exact_match_from (set targets) 0 entries"

section \<open>The indexed unban plan\<close>

lemma binary_search_ok_iff:
  "sorted xs \<Longrightarrow> length xs \<le> fuel \<Longrightarrow> binary_search_ok xs fuel x \<longleftrightarrow> x \<in> set xs"
proof (induction xs fuel x rule: binary_search_ok.induct)
  case (1 xs x)
  then show ?case by simp
next
  case (2 xs fuel x)
  show ?case
  proof (cases "xs = []")
    case True
    then show ?thesis by simp
  next
    case False
    let ?m = "length xs div 2"
    have m: "?m < length xs" using False by simp
    then have split: "xs = take ?m xs @ xs ! ?m # drop (Suc ?m) xs" by (rule id_take_nth_drop)
    then have mem: "x \<in> set xs \<longleftrightarrow> x \<in> set (take ?m xs) \<or> x = xs ! ?m \<or> x \<in> set (drop (Suc ?m) xs)"
      by (metis Un_iff set_append set_ConsD list.set_intros(1,2))
    have lo: "\<forall>y \<in> set (take ?m xs). y \<le> xs ! ?m" and hi: "\<forall>y \<in> set (drop (Suc ?m) xs). xs ! ?m \<le> y"
      using "2.prems"(1) split sorted_append [of "take ?m xs" "xs ! ?m # drop (Suc ?m) xs"] by auto
    have s: "sorted (take ?m xs)" "sorted (drop (Suc ?m) xs)"
      using "2.prems"(1) by (simp_all add: sorted_wrt_take sorted_wrt_drop)
    show ?thesis
      using 2 False m mem lo hi s by (auto simp: Let_def)
  qed
qed

text \<open>On a separated list the ends ascend, so \<open>partition_point\<close> is defined.\<close>

lemma separated_nth_gap:
  "separated is \<Longrightarrow> i < j \<Longrightarrow> j < length is \<Longrightarrow> gap (is ! i) (is ! j)"
  by (simp add: separated_def sorted_wrt_nth_less)

lemma separated_ends_partitioned:
  assumes "separated is"
  shows "partitioned (\<lambda>t. iend t < x) is"
  unfolding partitioned_def
proof (intro allI impI)
  fix i j assume ij: "i < j" "j < length is" and e: "iend (is ! j) < x"
  have "gap (is ! i) (is ! j)" using assms ij by (rule separated_nth_gap)
  moreover have "iv_valid (is ! j)" using assms ij(2) by (simp add: separated_def)
  ultimately have "iend (is ! i) < iend (is ! j)"
    by (simp add: gap_def iv_valid_def word_less_nat_alt word_le_nat_alt)
  from this e show "iend (is ! i) < x" by (rule less_trans)
qed

lemma interval_hit_dropWhile:
  "interval_hit is e \<longleftrightarrow>
     (case dropWhile (\<lambda>t. iend t < start e) is of [] \<Rightarrow> False | i # _ \<Rightarrow> start i \<le> iend e)"
proof -
  let ?p = "\<lambda>t. iend t < start e"
  have "is = takeWhile ?p is @ dropWhile ?p is" by simp
  then have "length (takeWhile ?p is) < length is \<and> start (is ! length (takeWhile ?p is)) \<le> iend e
      \<longleftrightarrow> (case dropWhile ?p is of [] \<Rightarrow> False | i # _ \<Rightarrow> start i \<le> iend e)"
    by (metis (no_types, lifting) append_Nil2 length_append length_greater_0_conv
        less_add_same_cancel1 less_irrefl list.case_eq_if list.sel(1) nth_append_length
        hd_conv_nth hd_dropWhile list.collapse neq_Nil_conv)
  then show ?thesis by (simp add: interval_hit_def partition_point_def)
qed

lemma interval_hit_iff:
  assumes "separated is"
  shows "interval_hit is e \<longleftrightarrow> (\<exists>i \<in> set is. intervals_overlap i e)"
  using assms unfolding interval_hit_dropWhile
proof (induction "is")
  case (Cons i "is")
  show ?case
  proof (cases "iend i < start e")
    case True
    with Cons show ?thesis by (simp add: intervals_overlap_def)
  next
    case False
    have "start i < start j" if "j \<in> set is" for j
    proof -
      have "gap i j" "iv_valid i" using Cons.prems that by simp_all
      then show ?thesis by (simp add: gap_def iv_valid_def word_less_nat_alt word_le_nat_alt)
    qed
    with False show ?thesis
      by (auto simp: intervals_overlap_def not_less) (meson less_le_trans less_imp_le)
  qed
qed simp

text \<open>
  What a query of a merged list needs from the merge: its normal form and its addresses.
  Both families' merges keep it, so both queries find exactly the overlaps with the
  intervals that were merged.
\<close>

locale interval_merger =
  fixes merge :: "'a::len word interval list \<Rightarrow> 'a word interval list"
  assumes merge_separated: "\<forall>i \<in> set is. iv_valid i \<Longrightarrow> separated (merge is)"
    and merge_addrs: "\<forall>i \<in> set is. iv_valid i \<Longrightarrow> ivs_set (merge is) = ivs_set is"
begin

lemma hit_iff:
  assumes "\<forall>i \<in> set is. iv_valid i" "iv_valid e"
  shows "interval_hit (merge is) e \<longleftrightarrow> (\<exists>i \<in> set is. intervals_overlap i e)"
proof -
  have any: "(\<exists>i \<in> set js. intervals_overlap i e) \<longleftrightarrow> ivs_set js \<inter> iv_set e \<noteq> {}"
    if "\<forall>j \<in> set js. iv_valid j" for js
    using that assms(2) by (auto simp: ivs_set_def intervals_overlap_iff)
  have sep: "separated (merge is)" by (rule merge_separated [OF assms(1)])
  then have "\<forall>i \<in> set (merge is). iv_valid i" by (simp add: separated_def)
  then have "interval_hit (merge is) e \<longleftrightarrow> ivs_set (merge is) \<inter> iv_set e \<noteq> {}"
    by (simp only: interval_hit_iff [OF sep] any)
  then show ?thesis by (simp only: merge_addrs [OF assms(1)] any [OF assms(1)])
qed

lemma cidr_hit_iff:
  assumes "cidrs_ok cs" "cidr_ok d"
  shows "interval_hit (merge (map to_interval cs)) (to_interval d)
    \<longleftrightarrow> (\<exists>c \<in> set cs. intervals_overlap (to_interval d) (to_interval c))"
  using hit_iff [OF valid_to_interval [OF assms(1)] to_interval_valid [OF assms(2)]]
  by (auto simp: intervals_overlap_def)

end

interpretation v4_merge: interval_merger merge_intervals_u32_owned
  by unfold_locales
    (simp_all only: merge_intervals_u32_owned_eq u32_sort.merged_separated u32_sort.merged_set)

interpretation v6_merge: interval_merger merge_intervals_u128_owned
  by unfold_locales
    (simp_all only: merge_intervals_u128_owned_eq std_sort.merged_separated std_sort.merged_set)

lemma canonicals_ok_sort_dedup: "canonicals_ok (sort_dedup ts) \<longleftrightarrow> canonicals_ok ts"
  by (simp add: canonicals_ok_def)

lemma index_overlaps_iff:
  assumes "canonicals_ok ts" "canonical_ok c"
  shows "index_overlaps (UnbanTargetIndex_new ts) c \<longleftrightarrow> (\<exists>t \<in> set ts. cidr_overlaps c t)"
proof -
  have ok: "canonicals_ok (sort_dedup ts)" using assms(1) by (simp add: canonicals_ok_sort_dedup)
  show ?thesis
  proof (cases c)
    case (V4 d)
    with assms(2) have "index_overlaps (UnbanTargetIndex_new ts) c
        \<longleftrightarrow> (\<exists>t. V4 t \<in> set ts \<and> intervals_overlap (to_interval d) (to_interval t))"
      using v4_merge.cidr_hit_iff [OF v4s_ok [OF ok], of d]
      by (simp add: UnbanTargetIndex_new_def Let_def split_by_family_eq ipv4_to_interval_eq set_v4s)
    moreover have "cidr_overlaps c t
        \<longleftrightarrow> (\<exists>s. t = V4 s \<and> intervals_overlap (to_interval d) (to_interval s))" for t
      using V4 by (cases t) (simp_all add: intervals_overlap_u32_def ipv4_to_interval_eq)
    ultimately show ?thesis by auto
  next
    case (V6 d)
    with assms(2) have "index_overlaps (UnbanTargetIndex_new ts) c
        \<longleftrightarrow> (\<exists>t. V6 t \<in> set ts \<and> intervals_overlap (to_interval d) (to_interval t))"
      using v6_merge.cidr_hit_iff [OF v6s_ok [OF ok], of d]
      by (simp add: UnbanTargetIndex_new_def Let_def split_by_family_eq ipv6_to_interval_eq set_v6s)
    moreover have "cidr_overlaps c t
        \<longleftrightarrow> (\<exists>s. t = V6 s \<and> intervals_overlap (to_interval d) (to_interval s))" for t
      using V6 by (cases t) (simp_all add: intervals_overlap_u128_def ipv6_to_interval_eq)
    ultimately show ?thesis by auto
  qed
qed

text \<open>The indexes, from \<open>i\<close> on, of the items with a property.\<close>

fun positions :: "('a \<Rightarrow> bool) \<Rightarrow> nat \<Rightarrow> 'a list \<Rightarrow> nat list" where
  "positions p i [] = []"
| "positions p i (x # xs) = (if p x then i # positions p (i + 1) xs else positions p (i + 1) xs)"

lemma positions_cong: "(\<And>x. x \<in> set xs \<Longrightarrow> p x = q x) \<Longrightarrow> positions p i xs = positions q i xs"
  by (induction xs arbitrary: i) simp_all

lemma positions_shift:
  "positions p i xs = filter (\<lambda>j. p (xs ! (j - i))) [i..<i + length xs]"
proof (induction xs arbitrary: i)
  case (Cons x xs)
  have "[i..<i + length (x # xs)] = i # [Suc i..<Suc i + length xs]"
    by (subst upt_conv_Cons) simp_all
  moreover have "filter (\<lambda>j. p ((x # xs) ! (j - i))) [Suc i..<Suc i + length xs]
      = filter (\<lambda>j. p (xs ! (j - Suc i))) [Suc i..<Suc i + length xs]"
    by (rule filter_cong) (auto simp: nth_Cons')
  ultimately show ?case using Cons [of "Suc i"] by simp
qed simp

lemma positions_eq: "positions p 0 xs = filter (\<lambda>j. p (xs ! j)) [0..<length xs]"
  by (simp add: positions_shift)

fun is_exact :: "canonical_cidr list \<Rightarrow> canonical_cidr option \<Rightarrow> bool" where
  "is_exact ts None = False"
| "is_exact ts (Some c) = (c \<in> set ts)"

fun is_partial :: "canonical_cidr list \<Rightarrow> canonical_cidr option \<Rightarrow> bool" where
  "is_partial ts None = False"
| "is_partial ts (Some c) = (c \<notin> set ts \<and> (\<exists>t \<in> set ts. cidr_overlaps c t))"

definition entries_ok :: "canonical_cidr option list \<Rightarrow> bool" where
  "entries_ok es \<longleftrightarrow> (\<forall>c. Some c \<in> set es \<longrightarrow> canonical_ok c)"

lemma plan_from_eq:
  assumes "canonicals_ok ts" "entries_ok es"
  shows "plan_from (UnbanTargetIndex_new ts) plan i es
    = \<lparr>exact_indexes = exact_indexes plan @ positions (is_exact ts) i es,
       partial_indexes = partial_indexes plan @ positions (is_partial ts) i es\<rparr>"
  using assms(2)
proof (induction es arbitrary: plan i)
  case (Cons e es)
  have IH: "plan_from (UnbanTargetIndex_new ts) q j es
    = \<lparr>exact_indexes = exact_indexes q @ positions (is_exact ts) j es,
       partial_indexes = partial_indexes q @ positions (is_partial ts) j es\<rparr>" for q j
    using Cons.prems by (intro Cons.IH) (simp add: entries_ok_def)
  show ?case
  proof (cases e)
    case None
    then show ?thesis by (simp add: IH)
  next
    case (Some c)
    have "binary_search_ok (sort_dedup ts) (length (sort_dedup ts)) c \<longleftrightarrow> c \<in> set ts"
      by (simp add: binary_search_ok_iff)
    moreover have "ut_targets (UnbanTargetIndex_new ts) = sort_dedup ts"
      by (simp add: UnbanTargetIndex_new_def Let_def)
    moreover have "index_overlaps (UnbanTargetIndex_new ts) c \<longleftrightarrow> (\<exists>t \<in> set ts. cidr_overlaps c t)"
      using Cons.prems Some by (intro index_overlaps_iff assms(1)) (simp add: entries_ok_def)
    ultimately show ?thesis by (simp add: Some IH)
  qed
qed simp

lemma exact_match_from_eq: "exact_match_from (set ts) i es = positions (is_exact ts) i es"
  by (induction es arbitrary: i) (auto split: option.splits)

section \<open>Classification of bans\<close>

lemma classify_from_added:
  "Added c \<in> set (classify_from P ts) \<longleftrightarrow> c \<in> set ts \<and> c \<notin> P"
  by (induction ts arbitrary: P) auto

definition added :: "ban_classification list \<Rightarrow> canonical_cidr list" where
  "added os = concat (map (\<lambda>x. case x of Added c \<Rightarrow> [c] | AlreadyPresent _ \<Rightarrow> []) os)"

fun classified :: "ban_classification \<Rightarrow> canonical_cidr" where
  "classified (Added c) = c"
| "classified (AlreadyPresent c) = c"

lemma added_simps [simp]:
  "added [] = []" "added (Added c # os) = c # added os" "added (AlreadyPresent c # os) = added os"
  by (simp_all add: added_def)

lemma set_added: "c \<in> set (added os) \<longleftrightarrow> Added c \<in> set os"
  by (induction os) (auto simp: added_def split: ban_classification.splits)

lemma classify_from_spec:
  "map classified (classify_from P ts) = ts \<and> distinct (added (classify_from P ts))
     \<and> set (added (classify_from P ts)) = set ts - P"
proof (induction ts arbitrary: P)
  case (Cons t ts)
  then show ?case by (auto simp: set_added classify_from_added)
qed simp

section \<open>Canonical contents\<close>

lemma trim_ends:
  "trim s = [] \<or> (\<not> is_whitespace (hd (trim s)) \<and> \<not> is_whitespace (last (trim s)))"
proof -
  let ?u = "dropWhile is_whitespace s"
  let ?v = "rev (dropWhile is_whitespace (rev ?u))"
  have "?v \<noteq> [] \<Longrightarrow> \<not> is_whitespace (last ?v)"
    using hd_dropWhile [of is_whitespace "rev ?u"] by (simp add: last_rev)
  moreover have "?v \<noteq> [] \<Longrightarrow> \<not> is_whitespace (hd ?v)"
  proof -
    assume v: "?v \<noteq> []"
    obtain w where "rev ?u = w @ dropWhile is_whitespace (rev ?u)"
      by (metis takeWhile_dropWhile_id)
    then have u: "?u = ?v @ rev w" by (metis rev_append rev_rev_ident)
    have "hd (?v @ rev w) = hd ?v" using v by (rule hd_append2)
    then have "hd ?u = hd ?v" using u by metis
    moreover have "?u \<noteq> []" using u v by (metis append_is_Nil_conv)
    ultimately have "hd ?u = hd ?v" "?u \<noteq> []" by blast+
    then show "\<not> is_whitespace (hd ?v)" using hd_dropWhile [of is_whitespace s] by (metis (no_types))
  qed
  ultimately show ?thesis by (auto simp: trim_def trim_start_def trim_end_def)
qed

lemma trim_fixed:
  assumes "s = [] \<or> (\<not> is_whitespace (hd s) \<and> \<not> is_whitespace (last s))"
  shows "trim s = s"
proof (cases s)
  case (Cons c cs)
  then have "dropWhile is_whitespace s = s" using assms by simp
  moreover have "dropWhile is_whitespace (rev s) = rev s"
    using assms Cons by (cases "rev s") (auto simp: last_conv_nth hd_rev [symmetric])
  ultimately show ?thesis by (simp add: trim_def trim_start_def trim_end_def)
qed (simp add: trim_def trim_start_def trim_end_def)

lemma trim_trim [simp]: "trim (trim s) = trim s"
  by (rule trim_fixed) (rule trim_ends)

lemma set_trim: "set (trim s) \<subseteq> set s"
  by (auto simp: trim_def trim_start_def trim_end_def dest!: set_dropWhileD)

text \<open>Lines joined and split again; a line holds no line feed and does not end in white space.\<close>

definition line_ok :: "rstr \<Rightarrow> bool" where
  "line_ok l \<longleftrightarrow> 10 \<notin> set l \<and> (l = [] \<or> last l \<noteq> 13)"

lemma split_on_line: "10 \<notin> set l \<Longrightarrow> split_on (\<lambda>c. c = 10) (l @ 10 # r) = l # split_on (\<lambda>c. c = 10) r"
  by (induction l) auto

lemma split_on_not_Nil [simp]: "split_on p s \<noteq> []"
  by (cases s) (auto split: list.splits)

lemma line_ok_append: "10 \<notin> set a \<Longrightarrow> b \<noteq> [] \<Longrightarrow> line_ok b \<Longrightarrow> line_ok (a @ b)"
  by (auto simp: line_ok_def)

lemma str_lines_Cons: "line_ok l \<Longrightarrow> str_lines (l @ 10 # r) = l # str_lines r"
  by (auto simp: str_lines_def split_on_line line_ok_def strip_cr_def Let_def)

lemma str_lines_Nil [simp]: "str_lines [] = []"
  by (simp add: str_lines_def Let_def)

lemma str_lines_join:
  assumes "list_all line_ok ls" "ls \<noteq> []"
  shows "str_lines (str_join [10] ls @ [10]) = ls"
  using assms(2,1)
proof (induction ls rule: list_nonempty_induct)
  case (single x)
  then show ?case by (simp add: str_lines_Cons)
next
  case (cons x xs)
  then have "str_join [10] (x # xs) @ [10] = x @ 10 # (str_join [10] xs @ [10])"
    by (cases xs) simp_all
  with cons show ?case by (simp only: str_lines_Cons list.pred_inject)
qed

lemma str_lines_no_lf: "l \<in> set (str_lines s) \<Longrightarrow> 10 \<notin> set l"
proof -
  have pieces: "l \<in> set (split_on (\<lambda>c. c = 10) s) \<Longrightarrow> 10 \<notin> set l" for l s
    by (induction s arbitrary: l) (auto split: if_splits list.splits)
  have "set (strip_cr w) \<subseteq> set w" for w by (auto simp: strip_cr_def dest: in_set_butlastD)
  with pieces show "l \<in> set (str_lines s) \<Longrightarrow> 10 \<notin> set l"
    by (auto simp: str_lines_def Let_def dest!: in_set_butlastD split: if_splits)
      (metis last_in_set split_on_not_Nil)
qed

text \<open>The characters of a printed network.\<close>

definition addr_char :: "nat \<Rightarrow> bool" where
  "addr_char c \<longleftrightarrow> is_digit_of 16 c \<or> c \<in> {46, 47, 58}"

lemma addr_char_plain: "addr_char c \<Longrightarrow> \<not> is_whitespace c \<and> c \<noteq> 35 \<and> c \<noteq> 10 \<and> c \<noteq> 13"
  by (auto simp: addr_char_def is_digit_of_def to_digit_def Let_def is_whitespace_def split: if_splits)

lemma addr_chars_radix: "2 \<le> b \<Longrightarrow> b \<le> 16 \<Longrightarrow> list_all addr_char (show_radix b n)"
  using show_radix_digits [of b n]
  by (auto simp: list_all_iff addr_char_def is_digit_of_def to_digit_def Let_def)
    (auto split: if_splits)

lemma addr_chars_join:
  assumes "\<And>x. list_all addr_char (f x)" "addr_char c"
  shows "list_all addr_char (str_join [c] (map f xs))"
proof (cases xs)
  case (Cons x xs')
  have "list_all addr_char (sepd c f xs')" by (induction xs') (simp_all add: assms)
  then show ?thesis unfolding Cons str_join_sepd by (simp add: assms)
qed simp

lemma addr_chars_octets: "list_all addr_char (show_octets os)"
  unfolding show_octets_def show_nat_def
  by (rule addr_chars_join) (simp_all add: addr_chars_radix, simp add: addr_char_def)

lemma addr_chars_groups: "list_all addr_char (show_groups gs)"
  unfolding show_groups_def
  by (rule addr_chars_join) (simp_all add: addr_chars_radix, simp add: addr_char_def)

lemma addr_chars_cidr: "list_all addr_char (show_cidr c)"
proof -
  have "addr_char 46" "addr_char 47" "addr_char 58" by (simp_all add: addr_char_def)
  then show ?thesis
    by (cases c) (auto simp: show_ipv4_cidr_def show_ipv6_cidr_def show_ipv4_def show_ipv6_def
        show_segments_def addr_chars_octets addr_chars_groups show_nat_def addr_chars_radix
        split: prod.split)
qed

lemma show_cidr_not_Nil: "show_cidr c \<noteq> []"
  by (cases c) (simp_all add: show_ipv4_cidr_def show_ipv6_cidr_def)

lemma plain_strict:
  assumes "list_all addr_char s" "s \<noteq> []"
  shows "trim s = s" "split_whitespace s = [s]" "\<not> prefix [35] s" "line_ok s"
proof -
  have *: "\<not> is_whitespace c \<and> c \<noteq> 35 \<and> c \<noteq> 10 \<and> c \<noteq> 13" if "c \<in> set s" for c
    using assms(1) that addr_char_plain by (simp add: list_all_iff)
  from * assms(2) show "trim s = s" by (intro trim_fixed) simp
  have "split_on is_whitespace w = [w]" if "\<forall>c \<in> set w. \<not> is_whitespace c" for w
    using that by (induction w) auto
  with * assms(2) show "split_whitespace s = [s]" by (simp add: split_whitespace_def)
  show "\<not> prefix [35] s" using * by (cases s) auto
  show "line_ok s" using * assms(2) last_in_set [of s] by (auto simp: line_ok_def)
qed

lemma strict_show_cidr: "canonical_ok c \<Longrightarrow> parse_ip_cidr_strict (show_cidr c) = Some c"
  using plain_strict [OF addr_chars_cidr show_cidr_not_Nil, of c] show_cidr_not_Nil [of c]
  by (simp add: parse_ip_cidr_strict_def parse_show_cidr)

section \<open>Parsing and rendering\<close>

definition is_header :: "rstr \<Rightarrow> bool" where
  "is_header l \<longleftrightarrow> trim l = [] \<or> prefix [35] (trim l)"

definition entry_of :: "rstr \<Rightarrow> canonical_cidr option" where
  "entry_of l = (if is_header l then None else parse_ip_cidr_strict (trim l))"

definition line_valid :: "rstr \<Rightarrow> bool" where
  "line_valid l \<longleftrightarrow> is_header l \<or> entry_of l \<noteq> None"

definition mk_line :: "rstr \<Rightarrow> blocklist_line" where
  "mk_line l = \<lparr>original = l, canonical = entry_of l\<rparr>"

lemma mk_line_sel [simp]: "original (mk_line l) = l" "canonical (mk_line l) = entry_of l"
  by (simp_all add: mk_line_def)

definition entries_of :: "rstr list \<Rightarrow> canonical_cidr list" where
  "entries_of ls = concat (map (\<lambda>l. case entry_of l of Some c \<Rightarrow> [c] | None \<Rightarrow> []) ls)"

lemma BlocklistLine_parse_eq:
  "BlocklistLine_parse l n =
     (if line_valid l then Inr (mk_line l) else Inl (InvalidBlocklistLine n l))"
  by (auto simp: BlocklistLine_parse_def parse_blocklist_entry_def Let_def line_valid_def
      entry_of_def is_header_def mk_line_def split: option.splits)

lemma parse_lines_from_Inr:
  "parse_lines_from i ls = Inr xs \<longleftrightarrow> list_all line_valid ls \<and> xs = map mk_line ls"
proof (induction ls arbitrary: i xs)
  case (Cons l ls)
  then show ?case
    by (auto simp: BlocklistLine_parse_eq and_then_Inr_iff)
qed auto

lemma split_header_out:
  "split_header h es False (map mk_line ls) = (h, es @ entries_of ls)"
  by (induction ls arbitrary: es) (simp_all add: Let_def entries_of_def split: option.splits)

lemma split_header_eq:
  "split_header h es True (map mk_line ls)
     = (h @ map trim (takeWhile is_header ls), es @ entries_of ls)"
proof (induction ls arbitrary: h)
  case Nil
  then show ?case by (simp add: entries_of_def)
next
  case (Cons l ls)
  show ?case
  proof (cases "is_header l")
    case True
    then have "entry_of l = None" by (simp add: entry_of_def)
    with True Cons show ?thesis
      by (simp add: Let_def is_header_def entries_of_def)
  next
    case False
    then show ?thesis
      using split_header_out [of h _ ls]
      by (simp add: Let_def is_header_def entries_of_def split: option.splits)
  qed
qed

definition document_entries :: "blocklist_document \<Rightarrow> canonical_cidr list" where
  "document_entries d = concat (map (\<lambda>l. case canonical l of Some c \<Rightarrow> [c] | None \<Rightarrow> []) (doc_lines d))"

lemma parse_document_Inr:
  "BlocklistDocument_parse s = Inr d \<longleftrightarrow>
     list_all line_valid (str_lines s) \<and>
     d = \<lparr>doc_lines = map mk_line (str_lines s), has_content = (s \<noteq> []), trailing_newline = suffix [10] s\<rparr>"
  by (auto simp: BlocklistDocument_parse_def and_then_Inr_iff parse_lines_from_Inr)

lemma document_entries_eq:
  "BlocklistDocument_parse s = Inr d \<Longrightarrow> document_entries d = entries_of (str_lines s)"
  by (auto simp: parse_document_Inr document_entries_def entries_of_def comp_def)

text \<open>The collapsed networks of both families, in the order they are rendered.\<close>

definition collapsed_entries :: "canonical_cidr list \<Rightarrow> canonical_cidr list" where
  "collapsed_entries es = map V4 (collapse_ipv4 (v4s es)) @ map V6 (collapse_ipv6 (v6s es))"

lemma canonical_entry_lines_eq: "canonical_entry_lines es = map show_cidr (collapsed_entries es)"
  by (simp add: canonical_entry_lines_def collapsed_entries_def Let_def split_by_family_eq)

lemma vs_append [simp]:
  "v4s (xs @ ys) = v4s xs @ v4s ys" "v6s (xs @ ys) = v6s xs @ v6s ys"
  "v4s (map V4 as) = as" "v4s (map V6 bs) = []" "v6s (map V4 as) = []" "v6s (map V6 bs) = bs"
  by (simp_all add: v4s_def v6s_def concat_map_singleton comp_def)

lemma collapsed_entries_ok: "canonicals_ok es \<Longrightarrow> canonicals_ok (collapsed_entries es)"
  using collapse_ipv4_collapsed [OF v4s_ok] collapse_ipv6_collapsed [OF v6s_ok]
  by (auto simp: canonicals_ok_def collapsed_entries_def collapsed_def)

lemma collapsed_entries_addrs:
  "canonicals_ok es \<Longrightarrow> addrs_of (collapsed_entries es) = addrs_of es"
proof (rule set_eqI)
  fix a assume "canonicals_ok es"
  then show "a \<in> addrs_of (collapsed_entries es) \<longleftrightarrow> a \<in> addrs_of es"
    using collapse_ipv4_collapsed [OF v4s_ok] collapse_ipv6_collapsed [OF v6s_ok]
    by (cases a) (simp_all add: in_addrs_of collapsed_entries_def)
qed

lemma collapsed_entries_idem:
  "canonicals_ok es \<Longrightarrow> collapsed_entries (collapsed_entries es) = collapsed_entries es"
proof -
  assume "canonicals_ok es"
  note c4 = collapse_ipv4_collapsed [OF v4s_ok [OF this]] and c6 = collapse_ipv6_collapsed [OF v6s_ok [OF this]]
  have "collapse_ipv4 (collapse_ipv4 (v4s es)) = collapse_ipv4 (v4s es)"
    using c4 collapse_ipv4_collapsed collapsed_ok by (intro collapsed_unique) blast+
  moreover have "collapse_ipv6 (collapse_ipv6 (v6s es)) = collapse_ipv6 (v6s es)"
    using c6 collapse_ipv6_collapsed collapsed_ok by (intro collapsed_unique) blast+
  ultimately show ?thesis by (simp add: collapsed_entries_def)
qed

lemma entry_of_ok: "entry_of l = Some c \<Longrightarrow> canonical_ok c"
  by (auto simp: entry_of_def split: if_splits dest: parse_ip_cidr_strict_ok)

lemma entries_of_simps [simp]:
  "entries_of [] = []"
  "entries_of (l # ls) = (case entry_of l of Some c \<Rightarrow> [c] | None \<Rightarrow> []) @ entries_of ls"
  by (simp_all add: entries_of_def)

lemma entries_of_ok: "canonicals_ok (entries_of ls)"
proof (induction ls)
  case (Cons l ls)
  then show ?case by (cases "entry_of l") (simp_all add: canonicals_ok_def entry_of_ok)
qed (simp add: canonicals_ok_def)

lemma collapsed_entries_nonempty:
  assumes "es \<noteq> []" "canonicals_ok es"
  shows "collapsed_entries es \<noteq> []"
proof
  assume "collapsed_entries es = []"
  then have e: "addrs_of es = {}"
    using collapsed_entries_addrs [OF assms(2)] by (simp add: addrs_of_def)
  obtain c where c: "c \<in> set es" using assms(1) by (cases es) auto
  have "\<exists>a. a \<in> canonical_addrs c"
  proof (cases c)
    case (V4 d)
    then have "Addr4 (network d) \<in> canonical_addrs c" by simp
    then show ?thesis ..
  next
    case (V6 d)
    then have "Addr6 (network d) \<in> canonical_addrs c" by simp
    then show ?thesis ..
  qed
  with e c show False by (auto simp: addrs_of_def)
qed

lemma show_cidr_entry:
  assumes "canonical_ok c"
  shows "entry_of (show_cidr c) = Some c" "\<not> is_header (show_cidr c)" "line_valid (show_cidr c)"
  using plain_strict [OF addr_chars_cidr show_cidr_not_Nil, of c] strict_show_cidr [OF assms]
    show_cidr_not_Nil [of c]
  by (simp_all add: entry_of_def is_header_def line_valid_def)

lemma entries_of_shown: "canonicals_ok cs \<Longrightarrow> entries_of (map show_cidr cs) = cs"
  by (induction cs) (simp_all add: entries_of_def canonicals_ok_def show_cidr_entry)

lemma entries_of_headers: "list_all is_header hs \<Longrightarrow> entries_of (hs @ ls) = entries_of ls"
  by (induction hs) (simp_all add: entries_of_def entry_of_def)

text \<open>The header of the rendered contents.\<close>

definition out_header :: "rstr list \<Rightarrow> rstr list" where
  "out_header ls = (let h = map trim (takeWhile is_header ls)
     in if h \<noteq> [] \<and> last h \<noteq> [] then h @ [[]] else h)"

lemma out_header_lines:
  "list_all is_header (out_header ls)" "list_all line_valid (out_header ls)"
  "map trim (out_header ls) = out_header ls"
  "out_header ls \<noteq> [] \<Longrightarrow> last (out_header ls) = []"
  "\<forall>l \<in> set ls. 10 \<notin> set l \<Longrightarrow> list_all line_ok (out_header ls)"
proof -
  let ?h = "map trim (takeWhile is_header ls)"
  have h: "is_header (trim l)" if "l \<in> set (takeWhile is_header ls)" for l
    using set_takeWhileD [OF that] by (simp add: is_header_def)
  have e: "is_header []" "trim [] = []" "line_ok []"
    by (simp_all add: is_header_def line_ok_def trim_def trim_start_def trim_end_def)
  show hd: "list_all is_header (out_header ls)"
    using h e by (auto simp: out_header_def Let_def list_all_iff)
  then show "list_all line_valid (out_header ls)" by (auto simp: list_all_iff line_valid_def)
  show "map trim (out_header ls) = out_header ls"
    using e by (simp add: out_header_def Let_def)
  show "out_header ls \<noteq> [] \<Longrightarrow> last (out_header ls) = []"
    by (auto simp: out_header_def Let_def split: if_splits)
  assume lf: "\<forall>l \<in> set ls. 10 \<notin> set l"
  have "line_ok (trim l)" if "l \<in> set (takeWhile is_header ls)" for l
  proof -
    have "10 \<notin> set (trim l)" using lf set_takeWhileD [OF that] set_trim [of l] by blast
    moreover have "is_whitespace 13" by (simp add: is_whitespace_def)
    ultimately show ?thesis using trim_ends [of l] by (auto simp: line_ok_def)
  qed
  then show "list_all line_ok (out_header ls)"
    using e by (auto simp: out_header_def Let_def list_all_iff)
qed

lemma out_header_fixed:
  "takeWhile is_header ls = h \<Longrightarrow> map trim h = h \<Longrightarrow> (h \<noteq> [] \<Longrightarrow> last h = []) \<Longrightarrow> out_header ls = h"
  by (auto simp: out_header_def Let_def)

lemma canonicalized_with_entries:
  assumes "BlocklistDocument_parse s = Inr d" "document_entries d \<noteq> []"
  shows "canonicalized_contents d = str_join [10] (out_header (str_lines s)
      @ map show_cidr (collapsed_entries (document_entries d))) @ [10]"
proof -
  let ?ls = "str_lines s"
  have e: "document_entries d = entries_of ?ls" by (rule document_entries_eq [OF assms(1)])
  have ne: "collapsed_entries (entries_of ?ls) \<noteq> []"
    using assms(2) unfolding e by (rule collapsed_entries_nonempty) (rule entries_of_ok)
  have "str_join [10] (out_header ?ls @ map show_cidr (collapsed_entries (entries_of ?ls))) \<noteq> []"
  proof
    assume n: "str_join [10] (out_header ?ls @ map show_cidr (collapsed_entries (entries_of ?ls))) = []"
    have "str_join c ws = [] \<Longrightarrow> c \<noteq> [] \<Longrightarrow> list_all (\<lambda>w. w = []) ws" for c :: rstr and ws
      by (induction c ws rule: str_join.induct) auto
    from this [OF n] ne show False
      by (cases "collapsed_entries (entries_of ?ls)") (simp_all add: show_cidr_not_Nil)
  qed
  with assms(1) ne show ?thesis
    by (auto simp: canonicalized_contents_def parse_document_Inr split_header_eq e [symmetric]
        canonical_entry_lines_eq out_header_def Let_def document_entries_eq [OF assms(1)])
qed

lemma reparse_canonicalized:
  assumes "BlocklistDocument_parse s = Inr d" "document_entries d \<noteq> []"
  defines "out \<equiv> canonicalized_contents d"
  shows "\<exists>d'. BlocklistDocument_parse out = Inr d'
    \<and> document_entries d' = collapsed_entries (document_entries d) \<and> canonicalized_contents d' = out"
proof -
  let ?ls = "str_lines s" and ?cs = "collapsed_entries (document_entries d)"
  let ?h = "out_header ?ls" and ?shown = "map show_cidr ?cs"
  have ok: "canonicals_ok (document_entries d)"
    using document_entries_eq [OF assms(1)] by (simp add: entries_of_ok)
  then have cok: "canonicals_ok ?cs" by (rule collapsed_entries_ok)
  have ne: "?cs \<noteq> []" using assms(2) ok by (rule collapsed_entries_nonempty)
  have lf: "\<forall>l \<in> set ?ls. 10 \<notin> set l" using str_lines_no_lf by blast
  have shown: "list_all line_ok ?shown" "list_all line_valid ?shown" "list_all (\<lambda>l. \<not> is_header l) ?shown"
    using plain_strict(4) [OF addr_chars_cidr show_cidr_not_Nil] show_cidr_entry cok
    by (simp_all add: list_all_iff canonicals_ok_def)
  have out: "out = str_join [10] (?h @ ?shown) @ [10]"
    unfolding out_def by (rule canonicalized_with_entries [OF assms(1,2)])
  have ls: "str_lines out = ?h @ ?shown"
    unfolding out using shown out_header_lines(5) [OF lf] ne by (intro str_lines_join) auto
  have valid: "list_all line_valid (str_lines out)"
    unfolding ls using shown out_header_lines(2) by simp
  obtain d' where d': "BlocklistDocument_parse out = Inr d'" using valid parse_document_Inr by blast
  have e: "document_entries d' = ?cs"
    using document_entries_eq [OF d'] out_header_lines(1)
    by (simp add: ls entries_of_headers entries_of_shown [OF cok])
  have "takeWhile is_header (?h @ ?shown) = ?h"
    using out_header_lines(1) [of ?ls] shown(3)
    by (cases ?shown) (auto simp: takeWhile_append list_all_iff)
  then have "out_header (str_lines out) = ?h"
    unfolding ls using out_header_lines(3,4) [of ?ls] by (rule out_header_fixed)
  moreover have "document_entries d' \<noteq> []" using e ne by simp
  ultimately have "canonicalized_contents d' = out"
    using canonicalized_with_entries [OF d'] collapsed_entries_idem [OF ok] by (simp add: e out)
  with d' e show ?thesis by blast
qed

section \<open>Properties\<close>

text \<open>
  C26: The unban plan built from the merged target index finds exactly what a comparison of
  every entry with every target finds: the indexes of the entries equal to a target, and the
  indexes of the other entries that share an address with a target, each in source order.
\<close>

theorem unban_plan_exact:
  assumes "canonicals_ok targets" "entries_ok entries"
  shows "UnbanTargetIndex_plan (UnbanTargetIndex_new targets) entries
    = \<lparr>exact_indexes = filter (\<lambda>i. is_exact targets (entries ! i)) [0..<length entries],
       partial_indexes = filter (\<lambda>i. is_partial targets (entries ! i)) [0..<length entries]\<rparr>"
  by (simp add: UnbanTargetIndex_plan_def plan_from_eq [OF assms] positions_eq)

theorem unban_plan_exact_witness:
  "UnbanTargetIndex_plan (UnbanTargetIndex_new [V4 (Cidr 0x0A000000 24)])
     [None, Some (V4 (Cidr 0x0A000000 24)), Some (V4 (Cidr 0x0B000000 24)), Some (V4 (Cidr 0x0A000080 25))]
   = \<lparr>exact_indexes = [1], partial_indexes = [3]\<rparr>"
proof -
  let ?t = "[V4 (Cidr 0x0A000000 24)]"
  let ?e = "[None, Some (V4 (Cidr 0x0A000000 24)), Some (V4 (Cidr 0x0B000000 24)),
    Some (V4 (Cidr 0x0A000080 25))]"
  have c: "canonical_ok (V4 (Cidr 0x0A000000 24))" "canonical_ok (V4 (Cidr 0x0B000000 24))"
    "canonical_ok (V4 (Cidr 0x0A000080 25))" by code_simp+
  then have "canonicals_ok ?t" "entries_ok ?e" by (auto simp: canonicals_ok_def entries_ok_def)
  from unban_plan_exact [OF this]
  have "UnbanTargetIndex_plan (UnbanTargetIndex_new ?t) ?e
    = \<lparr>exact_indexes = filter (\<lambda>i. is_exact ?t (?e ! i)) [0..<length ?e],
       partial_indexes = filter (\<lambda>i. is_partial ?t (?e ! i)) [0..<length ?e]\<rparr>" .
  moreover have "filter (\<lambda>i. is_exact ?t (?e ! i)) [0..<length ?e] = [1]" by code_simp
  moreover have "filter (\<lambda>i. is_partial ?t (?e ! i)) [0..<length ?e] = [3]" by code_simp
  ultimately show ?thesis by simp
qed

text \<open>
  C27: Ban classification reports every target in order; the targets reported as added are
  pairwise different and are exactly the requested networks not yet in the list.
\<close>

theorem classify_ban_targets_spec:
  "map classified (classify_ban_targets existing targets) = targets
   \<and> distinct (added (classify_ban_targets existing targets))
   \<and> set (added (classify_ban_targets existing targets)) = set targets - set existing"
  unfolding classify_ban_targets_def by (rule classify_from_spec)

text \<open>
  C28: Canonicalising a blocklist with at least one entry gives text that parses again, whose
  entries denote the same addresses, and which canonicalising leaves as it is.
\<close>

theorem canonicalize_blocklist_stable:
  assumes "BlocklistDocument_parse contents = Inr d" "document_entries d \<noteq> []"
  shows "\<exists>out d'. canonicalize_blocklist contents = Inr out
    \<and> canonicalize_blocklist out = Inr out
    \<and> BlocklistDocument_parse out = Inr d'
    \<and> addrs_of (document_entries d') = addrs_of (document_entries d)"
proof -
  have ok: "canonicals_ok (document_entries d)"
    using document_entries_eq [OF assms(1)] by (simp add: entries_of_ok)
  obtain d' where "BlocklistDocument_parse (canonicalized_contents d) = Inr d'"
    "document_entries d' = collapsed_entries (document_entries d)"
    "canonicalized_contents d' = canonicalized_contents d"
    using reparse_canonicalized [OF assms] by blast
  with assms(1) collapsed_entries_addrs [OF ok] show ?thesis
    by (simp add: canonicalize_blocklist_def)
qed

theorem canonicalize_blocklist_stable_witness:
  "\<exists>out. canonicalize_blocklist (lit ''10.0.0.1'') = Inr out \<and> canonicalize_blocklist out = Inr out"
proof -
  have p: "BlocklistDocument_parse (lit ''10.0.0.1'')
    = Inr \<lparr>doc_lines = [\<lparr>original = lit ''10.0.0.1'', canonical = Some (V4 (Cidr 0x0A000001 32))\<rparr>],
           has_content = True, trailing_newline = False\<rparr>"
    by code_simp
  show ?thesis
    using canonicalize_blocklist_stable [OF p] by (auto simp: document_entries_def)
qed

text \<open>
  Without an entry the rendering is not stable: a document that is a comment and three line
  feeds needs two passes, each of which drops one blank line.
\<close>

lemma canonicalize_header_only_not_idempotent:
  "canonicalize_blocklist [35, 97, 10, 10, 10] = Inr [35, 97, 10, 10]
   \<and> canonicalize_blocklist [35, 97, 10, 10] = Inr [35, 97, 10]"
  by code_simp

end
