(* ===== verification/Lookup.thy ===== *)
theory Lookup
  imports Blocklist
begin

text \<open>
  \<^verbatim>\<open>crates/kidobo-core/src/lookup.rs\<close>: offline lookup of operator targets in the canonical
  source entries, through one interval index per family.

  The lemmas show that an index query returns exactly the overlapping sources (whatever the
  order of the index among equal intervals), that a lookup reports for every valid target
  exactly the sources a linear scan finds, and that the report depends only on the sets of
  targets and sources.
\<close>

section \<open>Sources and targets\<close>

record lookup_source_entry =
  source_label :: rstr
  source_line :: rstr
  le_cidr :: canonical_cidr

record lookup_match =
  lm_target :: rstr
  lm_source_label :: rstr
  matched_source_entry :: rstr
  matched_cidr :: canonical_cidr

record lookup_report =
  lr_matches :: "lookup_match list"
  lr_invalid_targets :: "rstr list"

datatype lookup_target_parse_error = EmptyTarget | InvalidLookupTarget

definition parse_target_strict :: "rstr \<Rightarrow> lookup_target_parse_error + canonical_cidr" where
  "parse_target_strict inp =
     (let normalized = trim inp
      in if normalized = [] then Inl EmptyTarget
         else ok_or (parse_ip_cidr_strict normalized) InvalidLookupTarget)"

section \<open>The interval index\<close>

datatype 'w indexed_source = IndexedSource (ix_interval: "'w interval") (source_idx: nat)

record 'w interval_index =
  ix_entries :: "'w indexed_source list"
  prefix_max_end :: "'w list"

fun running_max :: "'w::linorder \<Rightarrow> 'w indexed_source list \<Rightarrow> 'w list" where
  "running_max m [] = []"
| "running_max m (e # es) =
     (let m = max m (iend (ix_interval e)) in m # running_max m es)"

definition index_of_entries :: "'w::{linorder,zero} indexed_source list \<Rightarrow> 'w interval_index" where
  "index_of_entries es =
     (let es = sort_key ix_interval es
      in \<lparr>ix_entries = es, prefix_max_end = running_max 0 es\<rparr>)"

fun v4_indexed :: "nat \<Rightarrow> lookup_source_entry list \<Rightarrow> 32 word indexed_source list" where
  "v4_indexed i [] = []"
| "v4_indexed i (s # ss) =
     (case le_cidr s of V4 c \<Rightarrow> [IndexedSource (ipv4_to_interval c) i] | V6 _ \<Rightarrow> [])
     @ v4_indexed (i + 1) ss"

fun v6_indexed :: "nat \<Rightarrow> lookup_source_entry list \<Rightarrow> 128 word indexed_source list" where
  "v6_indexed i [] = []"
| "v6_indexed i (s # ss) =
     (case le_cidr s of V4 _ \<Rightarrow> [] | V6 c \<Rightarrow> [IndexedSource (ipv6_to_interval c) i])
     @ v6_indexed (i + 1) ss"

definition IntervalIndexV4_from_sources :: "lookup_source_entry list \<Rightarrow> 32 word interval_index" where
  "IntervalIndexV4_from_sources sources = index_of_entries (v4_indexed 0 sources)"

definition IntervalIndexV6_from_sources :: "lookup_source_entry list \<Rightarrow> 128 word interval_index" where
  "IntervalIndexV6_from_sources sources = index_of_entries (v6_indexed 0 sources)"

text \<open>\<open>get(start..upper)\<close> is a slice of the entries, since \<open>start\<close> is at most \<open>upper\<close>.\<close>

definition overlapping_source_indices :: "'w::linorder interval_index \<Rightarrow> 'w interval \<Rightarrow> nat list" where
  "overlapping_source_indices x t =
     (let upper = partition_point (\<lambda>e. start (ix_interval e) \<le> iend t) (ix_entries x);
          lower = partition_point (\<lambda>m. m < start t) (prefix_max_end x);
          st = min lower upper
      in map source_idx (filter (\<lambda>e. iend (ix_interval e) \<ge> start t)
           (drop st (take upper (ix_entries x)))))"

definition v4_overlapping_source_indices :: "32 word interval_index \<Rightarrow> IntervalU32 \<Rightarrow> nat list" where
  "v4_overlapping_source_indices x t = overlapping_source_indices x t"

definition v6_overlapping_source_indices :: "128 word interval_index \<Rightarrow> IntervalU128 \<Rightarrow> nat list" where
  "v6_overlapping_source_indices x t = overlapping_source_indices x t"

section \<open>Lookup\<close>

definition source_key :: "lookup_source_entry \<Rightarrow> rstr \<times> rstr \<times> canonical_cidr" where
  "source_key s = (source_label s, source_line s, le_cidr s)"

definition same_source_entry :: "lookup_source_entry \<Rightarrow> lookup_source_entry \<Rightarrow> bool" where
  "same_source_entry a b \<longleftrightarrow>
     source_label a = source_label b \<and> source_line a = source_line b \<and> le_cidr a = le_cidr b"

text \<open>\<open>Vec::dedup_by\<close>: an element goes when it is the same as the last one kept.\<close>

fun dedup_by :: "('a \<Rightarrow> 'a \<Rightarrow> bool) \<Rightarrow> 'a list \<Rightarrow> 'a list" where
  "dedup_by eq [] = []"
| "dedup_by eq [x] = [x]"
| "dedup_by eq (x # y # ys) =
     (if eq y x then dedup_by eq (x # ys) else x # dedup_by eq (y # ys))"

datatype prepared_target = PreparedTarget (pt_raw: rstr) (pt_parsed: canonical_cidr)

fun split_targets :: "rstr list \<Rightarrow> prepared_target list \<times> rstr list" where
  "split_targets [] = ([], [])"
| "split_targets (raw # ts) =
     (case split_targets ts of (ps, is) \<Rightarrow>
        (case parse_target_strict raw of
           Inr parsed \<Rightarrow> (PreparedTarget raw parsed # ps, is)
         | Inl _ \<Rightarrow> (ps, raw # is)))"

definition prepare_targets :: "rstr list \<Rightarrow> prepared_target list \<times> rstr list" where
  "prepare_targets targets =
     (case split_targets targets of (prepared, invalid_targets) \<Rightarrow>
        (dedup_by (\<lambda>l r. pt_raw l = pt_raw r) (sort_key pt_raw prepared),
         sort_dedup invalid_targets))"

definition get_sources :: "lookup_source_entry list \<Rightarrow> nat list \<Rightarrow> lookup_source_entry list" where
  "get_sources sources is = map (\<lambda>i. sources ! i) (filter (\<lambda>i. i < length sources) is)"

definition target_matches :: "prepared_target \<Rightarrow> lookup_source_entry list
    \<Rightarrow> 32 word interval_index \<Rightarrow> 128 word interval_index \<Rightarrow> lookup_source_entry list" where
  "target_matches target sources v4_index v6_index =
     (let matched_sources = get_sources sources
            (case pt_parsed target of
               V4 c \<Rightarrow> v4_overlapping_source_indices v4_index (ipv4_to_interval c)
             | V6 c \<Rightarrow> v6_overlapping_source_indices v6_index (ipv6_to_interval c))
      in dedup_by same_source_entry (sort_key source_key matched_sources))"

text \<open>The callback is an action on the caller's state; its error stops the loop.\<close>

fun emit_targets :: "(rstr \<Rightarrow> lookup_source_entry list \<Rightarrow> ('s, 'e, unit) act)
    \<Rightarrow> lookup_source_entry list \<Rightarrow> 32 word interval_index \<Rightarrow> 128 word interval_index
    \<Rightarrow> prepared_target list \<Rightarrow> ('s, 'e, unit) act" where
  "emit_targets emit sources v4 v6 [] = act_ok ()"
| "emit_targets emit sources v4 v6 (t # ts) =
     act_bind (emit (pt_raw t) (target_matches t sources v4 v6))
       (\<lambda>_. emit_targets emit sources v4 v6 ts)"

definition try_run_lookup_by_target :: "rstr list \<Rightarrow> lookup_source_entry list
    \<Rightarrow> (rstr \<Rightarrow> lookup_source_entry list \<Rightarrow> ('s, 'e, unit) act) \<Rightarrow> ('s, 'e, rstr list) act" where
  "try_run_lookup_by_target targets sources emit =
     (let v4_index = IntervalIndexV4_from_sources sources;
          v6_index = IntervalIndexV6_from_sources sources
      in case prepare_targets targets of (prepared_targets, invalid_targets) \<Rightarrow>
           act_bind (emit_targets emit sources v4_index v6_index prepared_targets)
             (\<lambda>_. act_ok invalid_targets))"

text \<open>\<open>Infallible\<close> has no value, so the result of the infallible run is the \<open>Inr\<close> part.\<close>

definition run_lookup_by_target :: "rstr list \<Rightarrow> lookup_source_entry list
    \<Rightarrow> (rstr \<Rightarrow> lookup_source_entry list \<Rightarrow> 's \<Rightarrow> 's) \<Rightarrow> 's \<Rightarrow> rstr list \<times> 's" where
  "run_lookup_by_target targets sources emit s =
     (case try_run_lookup_by_target targets sources (\<lambda>t ms s. (Inr (), emit t ms s)) s of
        (Inr invalid, s) \<Rightarrow> (invalid, s)
      | (Inl (_ :: unit), s) \<Rightarrow> ([], s))"

definition run_lookup_streaming :: "rstr list \<Rightarrow> lookup_source_entry list
    \<Rightarrow> (rstr \<Rightarrow> lookup_source_entry \<Rightarrow> 's \<Rightarrow> 's) \<Rightarrow> 's \<Rightarrow> rstr list \<times> 's" where
  "run_lookup_streaming targets sources emit s =
     run_lookup_by_target targets sources (\<lambda>t ms s. fold (emit t) ms s) s"

definition lookup_match_of :: "rstr \<Rightarrow> lookup_source_entry \<Rightarrow> lookup_match" where
  "lookup_match_of t s = \<lparr>lm_target = t, lm_source_label = source_label s,
     matched_source_entry = source_line s, matched_cidr = le_cidr s\<rparr>"

definition run_lookup :: "rstr list \<Rightarrow> lookup_source_entry list \<Rightarrow> lookup_report" where
  "run_lookup targets sources =
     (case run_lookup_streaming targets sources (\<lambda>t s ms. ms @ [lookup_match_of t s]) [] of
        (invalid_targets, ms) \<Rightarrow> \<lparr>lr_matches = ms, lr_invalid_targets = invalid_targets\<rparr>)"

section \<open>An index query finds the overlapping sources\<close>

lemma length_running_max [simp]: "length (running_max m es) = length es"
  by (induction m es rule: running_max.induct) (simp_all add: Let_def)

lemma running_max_bound: "i < length es \<Longrightarrow> iend (ix_interval (es ! i)) \<le> running_max m es ! i"
  by (induction m es arbitrary: i rule: running_max.induct)
    (auto simp: Let_def nth_Cons le_max_iff_disj split: nat.splits)

lemma running_max_ge: "x \<in> set (running_max m es) \<Longrightarrow> m \<le> x"
  by (induction m es rule: running_max.induct) (auto simp: Let_def)

lemma sorted_running_max: "sorted (running_max m es)"
  by (induction m es rule: running_max.induct) (auto simp: Let_def dest: running_max_ge)

text \<open>Both slices the code partitions are partitioned by their predicate.\<close>

lemma sorted_partitioned: "sorted xs \<Longrightarrow> partitioned (\<lambda>m. m < x) xs"
  unfolding partitioned_def by (meson le_less_trans less_imp_le sorted_nth_mono less_trans)

lemma index_starts_sorted:
  "sorted_wrt (\<lambda>a b. start (ix_interval a) \<le> start (ix_interval b)) (ix_entries (index_of_entries es))"
proof -
  have "sorted (map ix_interval (ix_entries (index_of_entries es)))"
    by (simp add: index_of_entries_def Let_def)
  then show ?thesis
    by (simp only: sorted_map) (erule sorted_wrt_mono_rel [rotated], auto simp: less_eq_interval_def)
qed

lemma index_starts_partitioned:
  "partitioned (\<lambda>e. start (ix_interval e) \<le> x) (ix_entries (index_of_entries es))"
  unfolding partitioned_def
  using index_starts_sorted [of es] by (meson order_trans sorted_wrt_nth_less)

lemma takeWhile_partitioned:
  "sorted_wrt (\<lambda>a b. f a \<le> f b) xs \<Longrightarrow> takeWhile (\<lambda>e. f e \<le> y) xs = filter (\<lambda>e. f e \<le> y) xs"
  for f :: "'a \<Rightarrow> 'b::linorder"
  by (induction xs) (auto simp: eq_commute [of "[]"] filter_empty_conv dest: order_trans)

lemma overlapping_source_indices_eq:
  "overlapping_source_indices (index_of_entries es) t
     = map source_idx (filter (\<lambda>e. intervals_overlap (ix_interval e) t) (sort_key ix_interval es))"
  for t :: "'a::len word interval"
proof -
  let ?L = "sort_key ix_interval es"
  let ?p = "\<lambda>e. start (ix_interval e) \<le> iend t" and ?q = "\<lambda>e. iend (ix_interval e) \<ge> start t"
  let ?M = "running_max 0 ?L"
  let ?upper = "partition_point ?p ?L" and ?lower = "partition_point (\<lambda>m. m < start t) ?M"
  let ?st = "min ?lower ?upper"
  have "takeWhile ?p ?L = filter ?p ?L"
    using index_starts_sorted [of es] by (simp add: takeWhile_partitioned index_of_entries_def Let_def)
  then have take: "take ?upper ?L = filter ?p ?L"
    by (metis partition_point_def takeWhile_eq_take)
  have low: "\<not> ?q e" if "e \<in> set (take ?st ?L)" for e
  proof -
    from that obtain i where i: "i < ?st" "i < length ?L" "e = ?L ! i" by (auto simp: in_set_conv_nth)
    then have "i < length (takeWhile (\<lambda>m. m < start t) ?M)" by (simp add: partition_point_def)
    then have "?M ! i < start t" by (metis nth_mem set_takeWhileD takeWhile_nth)
    with running_max_bound [OF i(2), of 0] i(3) show ?thesis by auto
  qed
  have "take ?st (take ?upper ?L) = take ?st ?L" by simp
  then have "filter ?q (take ?upper ?L) = filter ?q (take ?st ?L) @ filter ?q (drop ?st (take ?upper ?L))"
    by (metis append_take_drop_id filter_append)
  moreover have "filter ?q (take ?st ?L) = []" using low by (simp add: filter_empty_conv)
  ultimately have "filter ?q (drop ?st (take ?upper ?L)) = filter ?q (filter ?p ?L)"
    using take by simp
  also have "\<dots> = filter (\<lambda>e. intervals_overlap (ix_interval e) t) ?L"
    by (auto simp: intervals_overlap_def not_less conj_commute intro: filter_cong)
  finally show ?thesis
    by (simp add: overlapping_source_indices_def index_of_entries_def Let_def)
qed

text \<open>
  What the matching of a target needs from an index: the query returns the source numbers of
  exactly the indexed intervals that overlap the target's.
\<close>

locale source_index =
  fixes build :: "'a::len word indexed_source list \<Rightarrow> 'x"
    and query :: "'x \<Rightarrow> 'a word interval \<Rightarrow> nat list"
  assumes query_set: "set (query (build es) t)
    = source_idx ` {e \<in> set es. intervals_overlap (ix_interval e) t}"
begin

lemma query_sources:
  assumes "set es = {IndexedSource (to_interval c) i |c i. i < length sources \<and> le_cidr (sources ! i) = mk c}"
    and "cidr_ok d" "\<forall>c. mk c \<in> le_cidr ` set sources \<longrightarrow> cidr_ok c"
  shows "set (get_sources sources (query (build es) (to_interval d)))
    = {s \<in> set sources. \<exists>c. le_cidr s = mk c \<and> cidr_addrs d \<inter> cidr_addrs c \<noteq> {}}"
proof -
  have hit: "intervals_overlap (to_interval c) (to_interval d) \<longleftrightarrow> cidr_addrs d \<inter> cidr_addrs c \<noteq> {}"
    if "i < length sources" "le_cidr (sources ! i) = mk c" for i c
  proof -
    have "mk c \<in> le_cidr ` set sources" using that by (metis imageI nth_mem)
    then have "cidr_ok c" using assms(3) by blast
    then show ?thesis using cidr_intervals_overlap [OF _ assms(2)] by blast
  qed
  have "set (get_sources sources (query (build es) (to_interval d)))
      = {sources ! i |i. i < length sources \<and> (\<exists>c. le_cidr (sources ! i) = mk c
          \<and> intervals_overlap (to_interval c) (to_interval d))}"
    unfolding get_sources_def set_map set_filter query_set assms(1) by force
  also have "\<dots> = {s \<in> set sources. \<exists>c. le_cidr s = mk c \<and> cidr_addrs d \<inter> cidr_addrs c \<noteq> {}}"
    using hit by (fastforce simp: in_set_conv_nth)
  finally show ?thesis .
qed

end

interpretation v4_index: source_index index_of_entries v4_overlapping_source_indices
  by unfold_locales (auto simp: v4_overlapping_source_indices_def overlapping_source_indices_eq)

interpretation v6_index: source_index index_of_entries v6_overlapping_source_indices
  by unfold_locales (auto simp: v6_overlapping_source_indices_def overlapping_source_indices_eq)

lemma in_v4_indexed:
  "e \<in> set (v4_indexed k ss) \<longleftrightarrow>
     (\<exists>i < length ss. \<exists>c. le_cidr (ss ! i) = V4 c \<and> e = IndexedSource (to_interval c) (k + i))"
  by (induction ss arbitrary: k)
    (auto simp: Ex_less_Suc2 ipv4_to_interval_eq split: canonical_cidr.splits, metis)

lemma in_v6_indexed:
  "e \<in> set (v6_indexed k ss) \<longleftrightarrow>
     (\<exists>i < length ss. \<exists>c. le_cidr (ss ! i) = V6 c \<and> e = IndexedSource (to_interval c) (k + i))"
  by (induction ss arbitrary: k)
    (auto simp: Ex_less_Suc2 ipv6_to_interval_eq split: canonical_cidr.splits, metis)

definition sources_ok :: "lookup_source_entry list \<Rightarrow> bool" where
  "sources_ok ss \<longleftrightarrow> canonicals_ok (map le_cidr ss)"

lemma get_overlapping_sources:
  assumes "sources_ok ss" "canonical_ok t"
  shows "set (get_sources ss (case t of
      V4 c \<Rightarrow> v4_overlapping_source_indices (IntervalIndexV4_from_sources ss) (ipv4_to_interval c)
    | V6 c \<Rightarrow> v6_overlapping_source_indices (IntervalIndexV6_from_sources ss) (ipv6_to_interval c)))
    = {s \<in> set ss. cidr_overlaps t (le_cidr s)}"
proof -
  have ok: "canonical_ok (le_cidr s)" if "s \<in> set ss" for s
    using assms(1) that by (simp add: sources_ok_def canonicals_ok_def)
  show ?thesis
  proof (cases t)
    case (V4 d)
    have "set (v4_indexed 0 ss) = {IndexedSource (to_interval c) i |c i. i < length ss \<and> le_cidr (ss ! i) = V4 c}"
      by (simp add: set_eq_iff in_v4_indexed) blast
    moreover have "\<forall>c. V4 c \<in> le_cidr ` set ss \<longrightarrow> cidr_ok c"
      using ok by (metis canonical_ok.simps imageE)
    moreover have "cidr_ok d" using assms(2) V4 by simp
    ultimately
    have "set (get_sources ss (v4_overlapping_source_indices (index_of_entries (v4_indexed 0 ss)) (to_interval d)))
      = {s \<in> set ss. \<exists>c. le_cidr s = V4 c \<and> cidr_addrs d \<inter> cidr_addrs c \<noteq> {}}"
      by (intro v4_index.query_sources)
    moreover have "cidr_overlaps t (le_cidr s) \<longleftrightarrow> (\<exists>c. le_cidr s = V4 c \<and> cidr_addrs d \<inter> cidr_addrs c \<noteq> {})"
      if "s \<in> set ss" for s
      using cidr_overlaps_iff [OF assms(2) ok [OF that]] V4 by (cases "le_cidr s") auto
    ultimately show ?thesis
      using V4 by (auto simp: IntervalIndexV4_from_sources_def ipv4_to_interval_eq)
  next
    case (V6 d)
    have "set (v6_indexed 0 ss) = {IndexedSource (to_interval c) i |c i. i < length ss \<and> le_cidr (ss ! i) = V6 c}"
      by (simp add: set_eq_iff in_v6_indexed) blast
    moreover have "\<forall>c. V6 c \<in> le_cidr ` set ss \<longrightarrow> cidr_ok c"
      using ok by (metis canonical_ok.simps imageE)
    moreover have "cidr_ok d" using assms(2) V6 by simp
    ultimately
    have "set (get_sources ss (v6_overlapping_source_indices (index_of_entries (v6_indexed 0 ss)) (to_interval d)))
      = {s \<in> set ss. \<exists>c. le_cidr s = V6 c \<and> cidr_addrs d \<inter> cidr_addrs c \<noteq> {}}"
      by (intro v6_index.query_sources)
    moreover have "cidr_overlaps t (le_cidr s) \<longleftrightarrow> (\<exists>c. le_cidr s = V6 c \<and> cidr_addrs d \<inter> cidr_addrs c \<noteq> {})"
      if "s \<in> set ss" for s
      using cidr_overlaps_iff [OF assms(2) ok [OF that]] V6 by (cases "le_cidr s") auto
    ultimately show ?thesis
      using V6 by (auto simp: IntervalIndexV6_from_sources_def ipv6_to_interval_eq)
  qed
qed

section \<open>Sorting and deduplication by a key\<close>

lemma dedup_by_key:
  assumes eq: "\<And>x y. eq x y \<longleftrightarrow> key x = key y"
    and xs: "sorted (map key xs)" "inj_on key (set xs)"
  shows "set (dedup_by eq xs) = set xs \<and> sorted_wrt (<) (map key (dedup_by eq xs))"
  using xs
proof (induction xs rule: induct_list012)
  case (3 x y ys)
  show ?case
  proof (cases "key y = key x")
    case True
    have "y = x" by (rule inj_onD [OF "3.prems"(2) True]) simp_all
    with True 3 eq show ?thesis by auto
  next
    case False
    then have IH: "set (dedup_by eq (y # ys)) = set (y # ys)"
      "sorted_wrt (<) (map key (dedup_by eq (y # ys)))"
      using 3 by auto
    have "key x < key z" if "z \<in> set (y # ys)" for z
      using False "3.prems"(1) that by auto
    moreover have "\<not> eq y x" using False eq by simp
    ultimately show ?thesis using IH by simp
  qed
qed simp_all

lemma key_sorted_unique:
  fixes key :: "'a \<Rightarrow> 'b::linorder"
  assumes "sorted_wrt (<) (map key xs)" "sorted_wrt (<) (map key ys)" "set xs = set ys"
    "inj_on key (set ys)"
  shows "xs = ys"
proof -
  have "map key xs = map key ys" using assms by (intro strict_sorted_equal) auto
  with assms(3,4) show ?thesis by (intro map_inj_on [of key]) auto
qed

lemma remdups_sorted_key:
  assumes "inj_on key (set xs)"
  shows "sorted_wrt (<) (map key (sort_key key (remdups xs)))"
proof -
  have "inj_on key (set (sort_key key (remdups xs)))" using assms by simp
  then have "distinct (map key (sort_key key (remdups xs)))" by (simp add: distinct_map)
  then show ?thesis by (simp add: strict_sorted_iff)
qed

lemma source_key_inj: "inj_on source_key S"
  by (auto simp: inj_on_def source_key_def)

lemma same_source_key: "same_source_entry a b \<longleftrightarrow> source_key a = source_key b"
  by (auto simp: same_source_entry_def source_key_def)

text \<open>The linear scan: the distinct overlapping sources in ascending order.\<close>

definition scan_matches :: "canonical_cidr \<Rightarrow> lookup_source_entry list \<Rightarrow> lookup_source_entry list" where
  "scan_matches c ss = sort_key source_key (remdups (filter (\<lambda>s. cidr_overlaps c (le_cidr s)) ss))"

lemma target_matches_eq:
  assumes "sources_ok ss" "canonical_ok (pt_parsed t)"
  shows "target_matches t ss (IntervalIndexV4_from_sources ss) (IntervalIndexV6_from_sources ss)
    = scan_matches (pt_parsed t) ss"
proof -
  define ms where "ms = get_sources ss (case pt_parsed t of
      V4 c \<Rightarrow> v4_overlapping_source_indices (IntervalIndexV4_from_sources ss) (ipv4_to_interval c)
    | V6 c \<Rightarrow> v6_overlapping_source_indices (IntervalIndexV6_from_sources ss) (ipv6_to_interval c))"
  have ms: "set ms = {s \<in> set ss. cidr_overlaps (pt_parsed t) (le_cidr s)}"
    unfolding ms_def by (rule get_overlapping_sources [OF assms])
  have "dedup_by same_source_entry (sort_key source_key ms) = scan_matches (pt_parsed t) ss"
  proof (rule key_sorted_unique [of source_key])
    have *: "set (dedup_by same_source_entry (sort_key source_key ms)) = set (sort_key source_key ms)
      \<and> sorted_wrt (<) (map source_key (dedup_by same_source_entry (sort_key source_key ms)))"
      by (rule dedup_by_key) (simp_all add: same_source_key source_key_inj)
    then show "sorted_wrt (<) (map source_key (dedup_by same_source_entry (sort_key source_key ms)))" ..
    show "sorted_wrt (<) (map source_key (scan_matches (pt_parsed t) ss))"
      unfolding scan_matches_def by (rule remdups_sorted_key) (rule source_key_inj)
    show "set (dedup_by same_source_entry (sort_key source_key ms)) = set (scan_matches (pt_parsed t) ss)"
      using * ms by (simp add: scan_matches_def)
  qed (rule source_key_inj)
  then show ?thesis by (simp add: target_matches_def ms_def Let_def)
qed

section \<open>The prepared targets\<close>

definition target_valid :: "rstr \<Rightarrow> bool" where
  "target_valid raw \<longleftrightarrow> \<not> isl (parse_target_strict raw)"

definition target_cidr :: "rstr \<Rightarrow> canonical_cidr" where
  "target_cidr raw = projr (parse_target_strict raw)"

definition prepared :: "rstr \<Rightarrow> prepared_target" where
  "prepared raw = PreparedTarget raw (target_cidr raw)"

lemma split_targets_eq:
  "split_targets ts = (map prepared (filter target_valid ts), filter (\<lambda>r. \<not> target_valid r) ts)"
  by (induction ts) (auto simp: target_valid_def target_cidr_def prepared_def split: sum.splits)

lemma target_cidr_ok: "target_valid raw \<Longrightarrow> canonical_ok (target_cidr raw)"
  by (cases "parse_ip_cidr_strict (trim raw)")
    (auto simp: target_valid_def target_cidr_def parse_target_strict_def Let_def
      dest: parse_ip_cidr_strict_ok split: if_splits)

lemma prepare_targets_eq:
  "prepare_targets ts
     = (map prepared (sort_dedup (filter target_valid ts)), sort_dedup (filter (\<lambda>r. \<not> target_valid r) ts))"
proof -
  let ?ps = "map prepared (filter target_valid ts)"
  have raw: "pt_raw (prepared r) = r" for r by (simp add: prepared_def)
  have inj: "inj_on pt_raw (prepared ` R)" for R by (auto simp: inj_on_def raw)
  have "dedup_by (\<lambda>l r. pt_raw l = pt_raw r) (sort_key pt_raw ?ps)
      = map prepared (sort_dedup (filter target_valid ts))"
  proof (rule key_sorted_unique [of pt_raw])
    have *: "set (dedup_by (\<lambda>l r. pt_raw l = pt_raw r) (sort_key pt_raw ?ps)) = set (sort_key pt_raw ?ps)
      \<and> sorted_wrt (<) (map pt_raw (dedup_by (\<lambda>l r. pt_raw l = pt_raw r) (sort_key pt_raw ?ps)))"
      using inj by (intro dedup_by_key) (simp_all del: set_filter)
    then show "sorted_wrt (<) (map pt_raw (dedup_by (\<lambda>l r. pt_raw l = pt_raw r) (sort_key pt_raw ?ps)))" ..
    show "sorted_wrt (<) (map pt_raw (map prepared (sort_dedup (filter target_valid ts))))"
      by (simp add: raw comp_def strict_sorted_sort_dedup)
    show "set (dedup_by (\<lambda>l r. pt_raw l = pt_raw r) (sort_key pt_raw ?ps))
        = set (map prepared (sort_dedup (filter target_valid ts)))"
      using * by simp
    show "inj_on pt_raw (set (map prepared (sort_dedup (filter target_valid ts))))"
      using inj by (simp del: set_filter)
  qed
  then show ?thesis by (simp add: prepare_targets_def split_targets_eq)
qed

section \<open>The report\<close>

lemma emit_targets_ok:
  "emit_targets (\<lambda>t ms s. (Inr (), emit t ms s)) ss i4 i6 ts s
     = (Inr (), fold (\<lambda>t. emit (pt_raw t) (target_matches t ss i4 i6)) ts s)"
  by (induction ts arbitrary: s) (simp_all add: act_simps)

lemma fold_collect: "fold (\<lambda>x ms. ms @ [f x]) xs ms = ms @ map f xs"
  by (induction xs arbitrary: ms) simp_all

lemma fold_collect_concat: "fold (\<lambda>t ms. ms @ g t) ts ms = ms @ concat (map g ts)"
  by (induction ts arbitrary: ms) simp_all

definition scan_report :: "rstr list \<Rightarrow> lookup_source_entry list \<Rightarrow> lookup_report" where
  "scan_report targets sources =
     \<lparr>lr_matches = concat (map (\<lambda>raw. map (lookup_match_of raw) (scan_matches (target_cidr raw) sources))
        (sort_dedup (filter target_valid targets))),
      lr_invalid_targets = sort_dedup (filter (\<lambda>r. \<not> target_valid r) targets)\<rparr>"

lemma run_lookup_eq:
  assumes "sources_ok ss"
  shows "run_lookup ts ss = scan_report ts ss"
proof -
  let ?ts = "sort_dedup (filter target_valid ts)"
  have m: "target_matches (prepared r) ss (IntervalIndexV4_from_sources ss) (IntervalIndexV6_from_sources ss)
      = scan_matches (target_cidr r) ss" if "r \<in> set ?ts" for r
    using that target_cidr_ok target_matches_eq [OF assms, of "prepared r"] by (simp add: prepared_def)
  let ?f = "\<lambda>r. map (lookup_match_of r) (target_matches (prepared r) ss
      (IntervalIndexV4_from_sources ss) (IntervalIndexV6_from_sources ss))"
  have "fold (\<lambda>t ms. ms @ map (lookup_match_of (pt_raw t))
        (target_matches t ss (IntervalIndexV4_from_sources ss) (IntervalIndexV6_from_sources ss)))
      (map prepared ?ts) [] = concat (map ?f ?ts)"
    by (simp add: fold_collect_concat comp_def prepared_def)
  also have "map ?f ?ts = map (\<lambda>raw. map (lookup_match_of raw) (scan_matches (target_cidr raw) ss)) ?ts"
    by (rule map_cong) (simp_all only: m)
  finally have "fold (\<lambda>t ms. ms @ map (lookup_match_of (pt_raw t))
        (target_matches t ss (IntervalIndexV4_from_sources ss) (IntervalIndexV6_from_sources ss)))
      (map prepared ?ts) []
    = concat (map (\<lambda>raw. map (lookup_match_of raw) (scan_matches (target_cidr raw) ss)) ?ts)" .
  then show ?thesis
    by (simp add: run_lookup_def run_lookup_streaming_def run_lookup_by_target_def
        try_run_lookup_by_target_def prepare_targets_eq Let_def act_simps emit_targets_ok
        fold_collect scan_report_def)
qed

lemma scan_matches_cong: "set ss = set ss' \<Longrightarrow> scan_matches c ss = scan_matches c ss'"
  unfolding scan_matches_def
  by (rule key_sorted_unique [of source_key])
    (simp_all add: remdups_sorted_key source_key_inj)

lemma emit_targets_append:
  "emit_targets emit ss i4 i6 (xs @ ys)
     = act_bind (emit_targets emit ss i4 i6 xs) (\<lambda>_. emit_targets emit ss i4 i6 ys)"
  by (induction xs) (simp_all add: act_bind_assoc)

section \<open>Properties\<close>

text \<open>
  C29: A lookup through the two interval indexes reports, for every valid target in ascending
  order and once each, exactly the distinct sources a linear scan with \<open>cidr_overlaps\<close> finds,
  in ascending order, and the distinct invalid targets in ascending order.
\<close>

theorem run_lookup_is_linear_scan:
  assumes "sources_ok sources"
  shows "run_lookup targets sources = scan_report targets sources"
  by (rule run_lookup_eq [OF assms])

theorem run_lookup_is_linear_scan_witness:
  "run_lookup [lit ''10.0.0.0/25'', lit ''x'', lit ''10.0.0.0/25'']
     [\<lparr>source_label = lit ''b'', source_line = lit ''10.0.0.0/8'', le_cidr = V4 (Cidr 0x0A000000 8)\<rparr>,
      \<lparr>source_label = lit ''a'', source_line = lit ''10.0.0.7'', le_cidr = V4 (Cidr 0x0A000007 32)\<rparr>,
      \<lparr>source_label = lit ''a'', source_line = lit ''11.0.0.7'', le_cidr = V4 (Cidr 0x0B000007 32)\<rparr>]
   = \<lparr>lr_matches =
        [\<lparr>lm_target = lit ''10.0.0.0/25'', lm_source_label = lit ''a'',
          matched_source_entry = lit ''10.0.0.7'', matched_cidr = V4 (Cidr 0x0A000007 32)\<rparr>,
         \<lparr>lm_target = lit ''10.0.0.0/25'', lm_source_label = lit ''b'',
          matched_source_entry = lit ''10.0.0.0/8'', matched_cidr = V4 (Cidr 0x0A000000 8)\<rparr>],
      lr_invalid_targets = [lit ''x'']\<rparr>"
proof -
  let ?ss = "[\<lparr>source_label = lit ''b'', source_line = lit ''10.0.0.0/8'', le_cidr = V4 (Cidr 0x0A000000 8)\<rparr>,
      \<lparr>source_label = lit ''a'', source_line = lit ''10.0.0.7'', le_cidr = V4 (Cidr 0x0A000007 32)\<rparr>,
      \<lparr>source_label = lit ''a'', source_line = lit ''11.0.0.7'', le_cidr = V4 (Cidr 0x0B000007 32)\<rparr>]"
  have "sources_ok ?ss" by code_simp
  from run_lookup_is_linear_scan [OF this] show ?thesis by (rule trans) code_simp
qed

text \<open>
  The report depends only on which targets and which sources there are: their order and
  repetitions do not change it.
\<close>

theorem run_lookup_order_independent:
  assumes "sources_ok sources" "set targets' = set targets" "set sources' = set sources"
  shows "run_lookup targets' sources' = run_lookup targets sources"
proof -
  have "sources_ok sources'" using assms(1,3) by (simp add: sources_ok_def canonicals_ok_def)
  moreover have "scan_report targets' sources' = scan_report targets sources"
    unfolding scan_report_def using assms(2,3)
    by (simp add: scan_matches_cong [OF assms(3)]
        sort_dedup_cong [of "filter p targets'" "filter p targets" for p])
  ultimately show ?thesis using assms(1) by (simp add: run_lookup_eq)
qed

theorem run_lookup_order_independent_witness:
  "run_lookup [lit ''10.0.0.1'', lit ''10.0.0.1''] [] = run_lookup [lit ''10.0.0.1''] []"
  by (rule run_lookup_order_independent) (simp_all add: sources_ok_def canonicals_ok_def)

text \<open>
  A callback error stops the lookup: the result is that error, in the state the failing
  callback left, and the targets after it are not looked at.
\<close>

theorem try_run_lookup_stops_at_error:
  assumes "prepare_targets targets = (ahead @ t # rest, invalid)"
    and "emit_targets emit sources (IntervalIndexV4_from_sources sources)
           (IntervalIndexV6_from_sources sources) ahead s = (Inr (), s')"
    and "emit (pt_raw t) (target_matches t sources (IntervalIndexV4_from_sources sources)
           (IntervalIndexV6_from_sources sources)) s' = (Inl e, s'')"
  shows "try_run_lookup_by_target targets sources emit s = (Inl e, s'')"
  using assms by (simp add: try_run_lookup_by_target_def Let_def emit_targets_append act_bind_def)

theorem try_run_lookup_stops_at_error_witness:
  "try_run_lookup_by_target [lit ''10.0.0.1'', lit ''10.0.0.2''] []
     (\<lambda>t ms n. if n < (1 :: nat) then (Inr (), n + 1) else (Inl (), n)) 0 = (Inl (), 1)"
proof -
  have p: "prepare_targets [lit ''10.0.0.1'', lit ''10.0.0.2'']
    = ([PreparedTarget (lit ''10.0.0.1'') (V4 (Cidr 0x0A000001 32))]
        @ PreparedTarget (lit ''10.0.0.2'') (V4 (Cidr 0x0A000002 32)) # [], [])"
    by code_simp
  show ?thesis
    by (rule try_run_lookup_stops_at_error [OF p, where s' = 1]) (simp_all add: act_simps)
qed

end
