(* ===== verification/Commands.thy ===== *)
theory Commands
  imports Sync_Core
begin

text \<open>
  Bounded external commands: \<^verbatim>\<open>crates/kidobo-adapters/src/command_runner.rs\<close> (results and the
  sudo runner) and \<^verbatim>\<open>command_common.rs\<close>. The executor that starts a process is the operating
  system's, so it is an argument; a command is an action on the state of the host.

  Actions that may run for ever (a loop without a bound) are functions to an option,
  \<open>None\<close> when they do not return; \<open>d_bind\<close> chains them, and \<open>returns\<close> states total
  correctness: from the precondition the action returns, with one postcondition for its
  value and one for its error.
\<close>

section \<open>Command results\<close>

datatype process_status = Exited int | Signaled int | OtherStatus

fun status_code :: "process_status \<Rightarrow> int option" where
  "status_code (Exited c) = Some c"
| "status_code (Signaled _) = None"
| "status_code OtherStatus = None"

definition status_success :: "process_status \<Rightarrow> bool" where
  "status_success st \<longleftrightarrow> st = Exited 0"

record command_result =
  cr_status :: process_status
  cr_stdout :: rstr
  cr_stderr :: rstr

text \<open>The operating-system diagnostics of the errors are text.\<close>

datatype command_runner_error =
    Spawn rstr rstr
  | Poll rstr rstr
  | Output rstr rstr
  | Timeout rstr nat

record command_request =
  req_program :: rstr
  req_args :: "rstr list"
  req_timeout_ms :: nat

type_synonym 's executor = "command_request \<Rightarrow> ('s, command_runner_error, command_result) act"
type_synonym 's runner = "rstr \<Rightarrow> rstr list \<Rightarrow> ('s, command_runner_error, command_result) act"

definition DEFAULT_COMMAND_TIMEOUT_MS :: nat where
  "DEFAULT_COMMAND_TIMEOUT_MS = 30000"

definition sudo_run_with_timeout :: "'s executor \<Rightarrow> nat \<Rightarrow> 's runner" where
  "sudo_run_with_timeout execute timeout command args =
     execute \<lparr>req_program = lit ''sudo'', req_args = lit ''-n'' # command # args,
              req_timeout_ms = timeout\<rparr>"

definition sudo_run :: "'s executor \<Rightarrow> 's runner" where
  "sudo_run execute = sudo_run_with_timeout execute DEFAULT_COMMAND_TIMEOUT_MS"

definition display_command :: "rstr \<Rightarrow> rstr list \<Rightarrow> rstr" where
  "display_command command args =
     (if args = [] then command else command @ [32] @ str_join [32] args)"

definition ensure_command_succeeded :: "command_result \<Rightarrow> rstr \<Rightarrow> rstr list
    \<Rightarrow> (rstr \<Rightarrow> process_status \<Rightarrow> rstr \<Rightarrow> 'e) \<Rightarrow> 'e + command_result" where
  "ensure_command_succeeded result command args build_error =
     (if status_success (cr_status result) then Inr result
      else Inl (build_error (display_command command args) (cr_status result) (cr_stderr result)))"

section \<open>Actions that may not return\<close>

type_synonym ('s, 'e, 'a) dact = "'s \<Rightarrow> (('e + 'a) \<times> 's) option"

definition d_lift :: "('s, 'e, 'a) act \<Rightarrow> ('s, 'e, 'a) dact" where
  "d_lift m = (\<lambda>s. Some (m s))"

definition d_ok :: "'a \<Rightarrow> ('s, 'e, 'a) dact" where
  "d_ok x = (\<lambda>s. Some (Inr x, s))"

definition d_err :: "'e \<Rightarrow> ('s, 'e, 'a) dact" where
  "d_err e = (\<lambda>s. Some (Inl e, s))"

definition d_bind :: "('s, 'e, 'a) dact \<Rightarrow> ('a \<Rightarrow> ('s, 'e, 'b) dact) \<Rightarrow> ('s, 'e, 'b) dact" where
  "d_bind m f = (\<lambda>s. case m s of
     None \<Rightarrow> None | Some (Inl e, s') \<Rightarrow> Some (Inl e, s') | Some (Inr x, s') \<Rightarrow> f x s')"

text \<open>The result as a value: an error does not stop what follows.\<close>

definition d_try :: "('s, 'e, 'a) dact \<Rightarrow> ('s, 'f, 'e + 'a) dact" where
  "d_try m = (\<lambda>s. case m s of None \<Rightarrow> None | Some (r, s') \<Rightarrow> Some (Inr r, s'))"

definition d_res :: "'e + 'a \<Rightarrow> ('s, 'e, 'a) dact" where
  "d_res r = (\<lambda>s. Some (r, s))"

definition d_map_err :: "('e \<Rightarrow> 'f) \<Rightarrow> ('s, 'e, 'a) dact \<Rightarrow> ('s, 'f, 'a) dact" where
  "d_map_err g m = (\<lambda>s. case m s of None \<Rightarrow> None | Some (r, s') \<Rightarrow> Some (map_err g r, s'))"

fun d_repeat :: "nat \<Rightarrow> ('s, 'e, unit) dact \<Rightarrow> ('s, 'e, unit) dact" where
  "d_repeat 0 m = d_ok ()"
| "d_repeat (Suc n) m = d_bind m (\<lambda>_. d_repeat n m)"

definition returns :: "('s \<Rightarrow> bool) \<Rightarrow> ('s, 'e, 'a) dact \<Rightarrow> ('a \<Rightarrow> 's \<Rightarrow> bool) \<Rightarrow> ('e \<Rightarrow> 's \<Rightarrow> bool) \<Rightarrow> bool" where
  "returns P m Q E \<longleftrightarrow> (\<forall>s. P s \<longrightarrow> (\<exists>r s'. m s = Some (r, s')
     \<and> (case r of Inl e \<Rightarrow> E e s' | Inr x \<Rightarrow> Q x s')))"

lemma returnsI:
  "(\<And>s. P s \<Longrightarrow> \<exists>r s'. m s = Some (r, s') \<and> (case r of Inl e \<Rightarrow> E e s' | Inr x \<Rightarrow> Q x s'))
     \<Longrightarrow> returns P m Q E"
  by (simp add: returns_def)

lemma returns_bind:
  assumes "returns P m Q E" "\<And>x. returns (Q x) (f x) R E"
  shows "returns P (d_bind m f) R E"
proof (rule returnsI)
  fix s assume "P s"
  then obtain r s' where m: "m s = Some (r, s')" "case r of Inl e \<Rightarrow> E e s' | Inr x \<Rightarrow> Q x s'"
    using assms(1) by (auto simp: returns_def)
  show "\<exists>r s'. d_bind m f s = Some (r, s') \<and> (case r of Inl e \<Rightarrow> E e s' | Inr x \<Rightarrow> R x s')"
  proof (cases r)
    case (Inl e)
    with m show ?thesis by (simp add: d_bind_def)
  next
    case (Inr x)
    with m assms(2) [of x] show ?thesis by (simp add: d_bind_def returns_def)
  qed
qed

lemma returns_ok: "(\<And>s. P s \<Longrightarrow> Q x s) \<Longrightarrow> returns P (d_ok x) Q E"
  by (simp add: returns_def d_ok_def)

lemma returns_err: "(\<And>s. P s \<Longrightarrow> E e s) \<Longrightarrow> returns P (d_err e) Q E"
  by (simp add: returns_def d_err_def)

lemma returns_weaken:
  assumes "returns P m Q E" "\<And>s. P' s \<Longrightarrow> P s" "\<And>x s. Q x s \<Longrightarrow> Q' x s" "\<And>e s. E e s \<Longrightarrow> E' e s"
  shows "returns P' m Q' E'"
proof (rule returnsI)
  fix s assume "P' s"
  then have "P s" by (rule assms(2))
  with assms(1) obtain r s' where "m s = Some (r, s')" "case r of Inl e \<Rightarrow> E e s' | Inr x \<Rightarrow> Q x s'"
    unfolding returns_def by blast
  then show "\<exists>r s'. m s = Some (r, s') \<and> (case r of Inl e \<Rightarrow> E' e s' | Inr x \<Rightarrow> Q' x s')"
    using assms(3,4) by (cases r) auto
qed

lemma returns_pre: "(\<And>s. P' s \<Longrightarrow> P s) \<Longrightarrow> returns P m Q E \<Longrightarrow> returns P' m Q E"
  by (erule returns_weaken) auto

lemma returns_if:
  "(b \<Longrightarrow> returns P m Q E) \<Longrightarrow> (\<not> b \<Longrightarrow> returns P m' Q E) \<Longrightarrow> returns P (if b then m else m') Q E"
  by simp

lemma returns_ex: "(\<And>x. returns (P x) m Q E) \<Longrightarrow> returns (\<lambda>s. \<exists>x. P x s) m Q E"
  unfolding returns_def by blast

lemma returns_try:
  assumes "returns P m Q E"
  shows "returns P (d_try m) (\<lambda>r s. case r of Inl e \<Rightarrow> E e s | Inr x \<Rightarrow> Q x s) E'"
proof (rule returnsI)
  fix s assume "P s"
  then obtain r s' where "m s = Some (r, s')" "case r of Inl e \<Rightarrow> E e s' | Inr x \<Rightarrow> Q x s'"
    using assms by (auto simp: returns_def)
  then show "\<exists>r s'. d_try m s = Some (r, s')
      \<and> (case r of Inl e \<Rightarrow> E' e s' | Inr r \<Rightarrow> case r of Inl e \<Rightarrow> E e s' | Inr x \<Rightarrow> Q x s')"
    by (simp add: d_try_def)
qed

lemma returns_res:
  "(\<And>s. P s \<Longrightarrow> case r of Inl e \<Rightarrow> E e s | Inr x \<Rightarrow> Q x s) \<Longrightarrow> returns P (d_res r) Q E"
  by (simp add: returns_def d_res_def)

lemma returns_repeat:
  assumes "\<And>i. i < n \<Longrightarrow> returns (P i) m (\<lambda>_. P (Suc i)) E"
  shows "returns (P 0) (d_repeat n m) (\<lambda>_. P n) E"
  using assms
proof (induction n arbitrary: P)
  case 0
  then show ?case by (auto intro: returns_ok)
next
  case (Suc n)
  have "returns (P (Suc 0)) (d_repeat n m) (\<lambda>_. P (Suc n)) E"
    using Suc.prems by (intro Suc.IH [of "\<lambda>i. P (Suc i)"]) simp
  then show ?case using Suc.prems [of 0] by (auto intro: returns_bind)
qed

lemma returns_imp:
  "returns P m Q E \<Longrightarrow> P s \<Longrightarrow> \<exists>r s'. m s = Some (r, s') \<and> (case r of Inl e \<Rightarrow> E e s' | Inr x \<Rightarrow> Q x s')"
  by (simp add: returns_def)

end
