(* ===== verification/Actions.thy ===== *)
theory Actions
  imports Commands
begin

text \<open>
  Actions of the application on the state of the system, and three ways to reason about them
  beside \<open>returns\<close>: \<open>steps R\<close> (the action returns and its states are related, for a preorder
  \<open>R\<close>), \<open>emits\<close> (the action returns and what it adds to a log is a beginning of one of the
  expected traces, a whole one on success), and \<open>yields\<close> (it returns, keeps a part of the
  state and its value satisfies a predicate).
\<close>

section \<open>Actions that cannot fail\<close>

definition d_upd :: "('s \<Rightarrow> 's) \<Rightarrow> ('s, 'e, unit) dact" where
  "d_upd f = (\<lambda>s. Some (Inr (), f s))"

fun iter_upd :: "('a \<Rightarrow> 's \<Rightarrow> 's) \<Rightarrow> 'a list \<Rightarrow> 's \<Rightarrow> 's" where
  "iter_upd f [] s = s"
| "iter_upd f (x # xs) s = iter_upd f xs (f x s)"

definition d_total :: "('s \<Rightarrow> ('a \<times> 's) option) \<Rightarrow> ('s, 'e, 'a) dact" where
  "d_total m = (\<lambda>s. case m s of None \<Rightarrow> None | Some (x, s') \<Rightarrow> Some (Inr x, s'))"

text \<open>What runs at every exit of the action.\<close>

definition d_finally :: "('s \<Rightarrow> 's) \<Rightarrow> ('s, 'e, 'a) dact \<Rightarrow> ('s, 'e, 'a) dact" where
  "d_finally f m = (\<lambda>s. case m s of None \<Rightarrow> None | Some (r, s') \<Rightarrow> Some (r, f s'))"

lemma d_bind_assoc: "d_bind (d_bind m f) g = d_bind m (\<lambda>x. d_bind (f x) g)"
  by (auto simp: d_bind_def fun_eq_iff split: option.split sum.split)

lemma d_bind_ok [simp]: "d_bind (d_ok x) f = f x"
  by (simp add: d_bind_def d_ok_def)

lemma returns_upd: "(\<And>s. P s \<Longrightarrow> Q () (f s)) \<Longrightarrow> returns P (d_upd f) Q E"
  by (simp add: returns_def d_upd_def)

lemma returns_view: "(\<And>K. Q K \<Longrightarrow> returns (\<lambda>s. v s = K) m R E) \<Longrightarrow> returns (\<lambda>s. Q (v s)) m R E"
  by (simp add: returns_def)

lemma returns_map_err: "returns P m Q (\<lambda>e. E (g e)) \<Longrightarrow> returns P (d_map_err g m) Q E"
proof (rule returnsI)
  fix s assume "returns P m Q (\<lambda>e. E (g e))" "P s"
  then obtain r s' where "m s = Some (r, s')" "case r of Inl e \<Rightarrow> E (g e) s' | Inr x \<Rightarrow> Q x s'"
    using returns_imp by fastforce
  then show "\<exists>r s'. d_map_err g m s = Some (r, s') \<and> (case r of Inl e \<Rightarrow> E e s' | Inr x \<Rightarrow> Q x s')"
    by (cases r) (auto simp: d_map_err_def)
qed

lemma returns_map_err_state: "returns P m Q (\<lambda>_. E) \<Longrightarrow> returns P (d_map_err g m) Q (\<lambda>_. E)"
  by (rule returns_map_err)

lemma returns_look:
  assumes "returns P m (\<lambda>x s. P s \<and> A x) (\<lambda>_. P)" "\<And>e s. P s \<Longrightarrow> E e s" "\<And>x. A x \<Longrightarrow> returns P (f x) Q E"
  shows "returns P (d_bind m f) Q E"
proof (rule returns_bind)
  show "returns P m (\<lambda>x s. P s \<and> A x) E" by (rule returns_weaken [OF assms(1)]) (use assms(2) in auto)
  show "returns (\<lambda>s. P s \<and> A x) (f x) Q E" for x
    using assms(3) [of x] by (auto simp: returns_def)
qed

lemma returns_conj:
  assumes "returns P m Q E" "returns P m Q' E'"
  shows "returns P m (\<lambda>x s. Q x s \<and> Q' x s) (\<lambda>e s. E e s \<and> E' e s)"
proof (rule returnsI)
  fix s assume "P s"
  with assms obtain r s' where "m s = Some (r, s')" "case r of Inl e \<Rightarrow> E e s' | Inr x \<Rightarrow> Q x s'"
    "case r of Inl e \<Rightarrow> E' e s' | Inr x \<Rightarrow> Q' x s'"
    unfolding returns_def by fastforce
  then show "\<exists>r s'. m s = Some (r, s') \<and> (case r of Inl e \<Rightarrow> E e s' \<and> E' e s' | Inr x \<Rightarrow> Q x s' \<and> Q' x s')"
    by (auto split: sum.splits)
qed

section \<open>Steps of a preorder\<close>

definition steps :: "('s \<Rightarrow> 's \<Rightarrow> bool) \<Rightarrow> ('s, 'e, 'a) dact \<Rightarrow> bool" where
  "steps R m \<longleftrightarrow> (\<forall>s. \<exists>r s'. m s = Some (r, s') \<and> R s s')"

lemma steps_mono: "steps R m \<Longrightarrow> (\<And>s s'. R s s' \<Longrightarrow> R' s s') \<Longrightarrow> steps R' m"
  unfolding steps_def by blast

lemma steps_conj: "steps R m \<Longrightarrow> steps R' m \<Longrightarrow> steps (\<lambda>s s'. R s s' \<and> R' s s') m"
  unfolding steps_def by (metis option.inject prod.inject)

lemma stepsD: "steps R m \<Longrightarrow> \<exists>r s'. m s = Some (r, s') \<and> R s s'"
  by (simp add: steps_def)

locale step_preorder =
  fixes R :: "'s \<Rightarrow> 's \<Rightarrow> bool"
  assumes refl: "R s s"
    and trans: "R s t \<Longrightarrow> R t u \<Longrightarrow> R s u"
begin

lemma steps_ok: "steps R (d_ok x)"
  by (simp add: steps_def d_ok_def refl)

lemma steps_err: "steps R (d_err e)"
  by (simp add: steps_def d_err_def refl)

lemma steps_res: "steps R (d_res r)"
  by (simp add: steps_def d_res_def refl)

lemma steps_upd: "(\<And>s. R s (f s)) \<Longrightarrow> steps R (d_upd f)"
  by (simp add: steps_def d_upd_def)

lemma steps_iter: "(\<And>x s. R s (f x s)) \<Longrightarrow> steps R (d_upd (iter_upd f xs))"
proof (rule steps_upd)
  fix s assume "\<And>x s. R s (f x s)"
  then show "R s (iter_upd f xs s)" by (induction xs arbitrary: s) (auto intro: refl trans)
qed

lemma steps_bind:
  assumes "steps R m" "\<And>x. steps R (f x)"
  shows "steps R (d_bind m f)"
  unfolding steps_def
proof
  fix s
  obtain r s' where m: "m s = Some (r, s')" "R s s'" using stepsD [OF assms(1)] by blast
  show "\<exists>r s'. d_bind m f s = Some (r, s') \<and> R s s'"
  proof (cases r)
    case (Inr x)
    obtain r' s'' where "f x s' = Some (r', s'')" "R s' s''" using stepsD [OF assms(2)] by blast
    with m Inr show ?thesis by (auto simp: d_bind_def intro: trans)
  qed (use m in \<open>simp add: d_bind_def\<close>)
qed

lemma steps_try: "steps R m \<Longrightarrow> steps R (d_try m)"
  unfolding steps_def d_try_def by (metis (no_types, lifting) option.case(2) prod.case)

lemma steps_map_err: "steps R m \<Longrightarrow> steps R (d_map_err g m)"
  unfolding steps_def d_map_err_def by (metis (no_types, lifting) option.case(2) prod.case)

lemma steps_finally: "steps R m \<Longrightarrow> (\<And>s. R s (f s)) \<Longrightarrow> steps R (d_finally f m)"
  unfolding steps_def d_finally_def by (metis (no_types, lifting) option.case(2) prod.case trans)

lemma steps_if: "steps R m \<Longrightarrow> steps R m' \<Longrightarrow> steps R (if b then m else m')"
  by simp

lemmas steps_intros = steps_ok steps_err steps_res steps_bind steps_try steps_map_err steps_if steps_finally

end

text \<open>What only extends a log is a preorder; so is keeping a part of the state.\<close>

definition keeps :: "('s \<Rightarrow> 'v) \<Rightarrow> 's \<Rightarrow> 's \<Rightarrow> bool" where
  "keeps v s s' \<longleftrightarrow> v s' = v s"

definition extends :: "('s \<Rightarrow> 'e list) \<Rightarrow> 's \<Rightarrow> 's \<Rightarrow> bool" where
  "extends log s s' \<longleftrightarrow> (\<exists>ys. log s' = log s @ ys)"

interpretation keeping: step_preorder "keeps v"
  by unfold_locales (auto simp: keeps_def)

interpretation extending: step_preorder "extends log"
  by unfold_locales (auto simp: extends_def)

section \<open>Traces\<close>

definition emits :: "('s \<Rightarrow> 'e list) \<Rightarrow> ('s, 'x, 'a) dact \<Rightarrow> 'e list set \<Rightarrow> bool" where
  "emits log m T \<longleftrightarrow> (\<forall>s. \<exists>r s' xs ys. m s = Some (r, s') \<and> xs \<in> T \<and> prefix ys xs
     \<and> log s' = log s @ ys \<and> (\<not> isl r \<longrightarrow> ys = xs))"

lemma emitsI:
  "(\<And>s. \<exists>r s' xs ys. m s = Some (r, s') \<and> xs \<in> T \<and> prefix ys xs
     \<and> log s' = log s @ ys \<and> (\<not> isl r \<longrightarrow> ys = xs)) \<Longrightarrow> emits log m T"
  by (simp add: emits_def)

lemma emits_mono: "emits log m T \<Longrightarrow> T \<subseteq> T' \<Longrightarrow> emits log m T'"
  unfolding emits_def by (meson subsetD)

lemma emits_silent: "steps (keeps log) m \<Longrightarrow> emits log m {[]}"
  by (auto simp: emits_def steps_def keeps_def)

lemma emits_one: "(\<And>s. log (f s) = log s @ [e]) \<Longrightarrow> emits log (d_upd f) {[e]}"
  by (auto simp: emits_def d_upd_def)

lemma emits_bind:
  assumes "emits log m {xs}" "\<And>x. emits log (f x) T" "T \<noteq> {}"
  shows "emits log (d_bind m f) ((@) xs ` T)"
proof (rule emitsI)
  fix s
  obtain r s' ys where m: "m s = Some (r, s')" "prefix ys xs" "log s' = log s @ ys" "\<not> isl r \<longrightarrow> ys = xs"
    using assms(1) unfolding emits_def by blast
  show "\<exists>r s' xs' ys. d_bind m f s = Some (r, s') \<and> xs' \<in> (@) xs ` T \<and> prefix ys xs'
      \<and> log s' = log s @ ys \<and> (\<not> isl r \<longrightarrow> ys = xs')"
  proof (cases r)
    case (Inl e)
    obtain t where "t \<in> T" using assms(3) by blast
    then have "d_bind m f s = Some (Inl e, s') \<and> xs @ t \<in> (@) xs ` T \<and> prefix ys (xs @ t)
      \<and> log s' = log s @ ys \<and> (\<not> isl (Inl e) \<longrightarrow> ys = xs @ t)"
      using m Inl by (simp add: d_bind_def prefix_prefix)
    then show ?thesis by blast
  next
    case (Inr x)
    obtain r' s'' t zs where f: "f x s' = Some (r', s'')" "t \<in> T" "prefix zs t" "log s'' = log s' @ zs"
      "\<not> isl r' \<longrightarrow> zs = t"
      using assms(2) [of x] unfolding emits_def by blast
    then have "d_bind m f s = Some (r', s'') \<and> xs @ t \<in> (@) xs ` T \<and> prefix (xs @ zs) (xs @ t)
      \<and> log s'' = log s @ (xs @ zs) \<and> (\<not> isl r' \<longrightarrow> xs @ zs = xs @ t)"
      using m Inr by (simp add: d_bind_def)
    then show ?thesis by blast
  qed
qed

lemma emits_finally:
  assumes "emits log m T" "\<And>s. log (f s) = log s"
  shows "emits log (d_finally f m) T"
  unfolding emits_def
proof
  fix s
  obtain r s' xs ys where "m s = Some (r, s')" "xs \<in> T" "prefix ys xs" "log s' = log s @ ys" "\<not> isl r \<longrightarrow> ys = xs"
    using assms(1) unfolding emits_def by blast
  then have "d_finally f m s = Some (r, f s') \<and> xs \<in> T \<and> prefix ys xs \<and> log (f s') = log s @ ys
      \<and> (\<not> isl r \<longrightarrow> ys = xs)"
    using assms(2) by (simp add: d_finally_def)
  then show "\<exists>r s' xs ys. d_finally f m s = Some (r, s') \<and> xs \<in> T \<and> prefix ys xs
      \<and> log s' = log s @ ys \<and> (\<not> isl r \<longrightarrow> ys = xs)" by blast
qed

lemma emits_if: "(b \<Longrightarrow> emits log m T) \<Longrightarrow> (\<not> b \<Longrightarrow> emits log m' T) \<Longrightarrow> emits log (if b then m else m') T"
  by simp

section \<open>Values\<close>

text \<open>The action returns, keeps the part \<open>v\<close> of the state, and its value satisfies \<open>Q\<close>.\<close>

definition yields :: "('s \<Rightarrow> 'v) \<Rightarrow> ('s, 'e, 'a) dact \<Rightarrow> ('a \<Rightarrow> bool) \<Rightarrow> bool" where
  "yields v m Q \<longleftrightarrow> (\<forall>s. \<exists>r s'. m s = Some (r, s') \<and> v s' = v s \<and> (\<forall>x. r = Inr x \<longrightarrow> Q x))"

lemma yields_bind:
  assumes "yields v m Q" "\<And>x. Q x \<Longrightarrow> yields v (f x) Q'"
  shows "yields v (d_bind m f) Q'"
  unfolding yields_def
proof
  fix s
  obtain r s' where m: "m s = Some (r, s')" "v s' = v s" "\<forall>x. r = Inr x \<longrightarrow> Q x"
    using assms(1) unfolding yields_def by blast
  show "\<exists>r s'. d_bind m f s = Some (r, s') \<and> v s' = v s \<and> (\<forall>x. r = Inr x \<longrightarrow> Q' x)"
  proof (cases r)
    case (Inr x)
    then obtain r' s'' where "f x s' = Some (r', s'')" "v s'' = v s'" "\<forall>y. r' = Inr y \<longrightarrow> Q' y"
      using assms(2) [of x] m(3) unfolding yields_def by blast
    with m Inr show ?thesis by (simp add: d_bind_def)
  qed (use m in \<open>simp add: d_bind_def\<close>)
qed

lemma yields_ok: "Q x \<Longrightarrow> yields v (d_ok x) Q"
  by (simp add: yields_def d_ok_def)

lemma yields_err: "yields v (d_err e) Q"
  by (simp add: yields_def d_err_def)

lemma yields_res: "(\<And>x. r = Inr x \<Longrightarrow> Q x) \<Longrightarrow> yields v (d_res r) Q"
  by (simp add: yields_def d_res_def)

lemma yields_keeps: "steps (keeps v) m \<Longrightarrow> yields v m (\<lambda>_. True)"
  by (auto simp: yields_def steps_def keeps_def)

lemma yields_steps: "yields v m Q \<Longrightarrow> steps (keeps v) m"
  unfolding yields_def steps_def keeps_def by blast

lemma yields_mono: "yields v m Q \<Longrightarrow> (\<And>x. Q x \<Longrightarrow> Q' x) \<Longrightarrow> yields v m Q'"
  unfolding yields_def by blast

lemma yields_try:
  assumes "yields v m Q"
  shows "yields v (d_try m) (\<lambda>r. \<forall>x. r = Inr x \<longrightarrow> Q x)"
  unfolding yields_def
proof
  fix s
  obtain r s' where "m s = Some (r, s')" "v s' = v s" "\<forall>x. r = Inr x \<longrightarrow> Q x"
    using assms unfolding yields_def by blast
  then show "\<exists>r s'. d_try m s = Some (r, s') \<and> v s' = v s \<and> (\<forall>x. r = Inr x \<longrightarrow> (\<forall>y. x = Inr y \<longrightarrow> Q y))"
    by (simp add: d_try_def)
qed

lemma yields_if: "(b \<Longrightarrow> yields v m Q) \<Longrightarrow> (\<not> b \<Longrightarrow> yields v m' Q) \<Longrightarrow> yields v (if b then m else m') Q"
  by simp

lemma yields_returns:
  assumes "yields v m Q"
  shows "returns (\<lambda>s. v s = k) m (\<lambda>x s. v s = k \<and> Q x) (\<lambda>_ s. v s = k)"
proof (rule returnsI)
  fix s assume "v s = k"
  moreover obtain r s' where "m s = Some (r, s')" "v s' = v s" "\<forall>x. r = Inr x \<longrightarrow> Q x"
    using assms unfolding yields_def by blast
  ultimately show "\<exists>r s'. m s = Some (r, s') \<and> (case r of Inl e \<Rightarrow> v s' = k | Inr x \<Rightarrow> v s' = k \<and> Q x)"
    by (cases r) simp_all
qed

lemma yields_finally: "yields v m Q \<Longrightarrow> (\<And>s. v (f s) = v s) \<Longrightarrow> yields v (d_finally f m) Q"
  unfolding yields_def d_finally_def by (metis (no_types, lifting) option.case(2) prod.case)

text \<open>A quiet action whose value is known, followed by one that emits, or that steps.\<close>

lemma emits_after:
  assumes "yields log m Q" "\<And>x. Q x \<Longrightarrow> emits log (f x) T" "T \<noteq> {}"
  shows "emits log (d_bind m f) T"
proof (rule emitsI)
  fix s
  obtain r s' where m: "m s = Some (r, s')" "log s' = log s" "\<forall>x. r = Inr x \<longrightarrow> Q x"
    using assms(1) unfolding yields_def by blast
  show "\<exists>r s' xs ys. d_bind m f s = Some (r, s') \<and> xs \<in> T \<and> prefix ys xs
      \<and> log s' = log s @ ys \<and> (\<not> isl r \<longrightarrow> ys = xs)"
  proof (cases r)
    case (Inl e)
    obtain t where "t \<in> T" using assms(3) by blast
    then have "d_bind m f s = Some (Inl e, s') \<and> t \<in> T \<and> prefix [] t \<and> log s' = log s @ []
      \<and> (\<not> isl (Inl e) \<longrightarrow> [] = t)"
      using m Inl by (simp add: d_bind_def)
    then show ?thesis by blast
  next
    case (Inr x)
    with m assms(2) [of x] have "d_bind m f s = f x s'" "emits log (f x) T" by (simp_all add: d_bind_def)
    then show ?thesis using m(2) unfolding emits_def by metis
  qed
qed

context step_preorder
begin

lemma steps_after:
  assumes "yields v m Q" "\<And>s s'. v s' = v s \<Longrightarrow> R s s'" "\<And>x. Q x \<Longrightarrow> steps R (f x)"
  shows "steps R (d_bind m f)"
  unfolding steps_def
proof
  fix s
  obtain r s' where m: "m s = Some (r, s')" "v s' = v s" "\<forall>x. r = Inr x \<longrightarrow> Q x"
    using assms(1) unfolding yields_def by blast
  have R: "R s s'" using assms(2) m(2) .
  show "\<exists>r s'. d_bind m f s = Some (r, s') \<and> R s s'"
  proof (cases r)
    case (Inl e)
    then show ?thesis using m R by (simp add: d_bind_def)
  next
    case (Inr x)
    then obtain r' s'' where "f x s' = Some (r', s'')" "R s' s''"
      using stepsD [OF assms(3)] m(3) by blast
    then show ?thesis using m Inr R by (auto simp: d_bind_def intro: trans)
  qed
qed

end

section \<open>Runs that succeed, and runs that return\<close>

lemma bind_succeeds:
  assumes "d_bind m f s = Some (Inr y, s')"
  obtains x t where "m s = Some (Inr x, t)" "f x t = Some (Inr y, s')"
  using assms by (auto simp: d_bind_def split: option.splits prod.splits sum.splits)

lemma try_succeeds:
  assumes "d_try m s = Some (Inr r, s')"
  shows "m s = Some (r, s')"
  using assms by (auto simp: d_try_def split: option.splits prod.splits)

lemma res_succeeds: "d_res r s = Some (Inr y, s') \<Longrightarrow> r = Inr y \<and> s' = s"
  by (simp add: d_res_def)

lemma ok_succeeds: "d_ok x s = Some (Inr y, s') \<Longrightarrow> y = x \<and> s' = s"
  by (simp add: d_ok_def)

text \<open>One step that keeps a part of the state, before the rest of a workflow.\<close>

lemma quiet_then:
  assumes "steps (keeps v) m"
    and "\<And>x t. m s = Some (Inr x, t) \<Longrightarrow> v t = v s \<Longrightarrow> \<exists>r s'. f x t = Some (r, s') \<and> Q r s'"
    and "\<And>e t. v t = v s \<Longrightarrow> Q (Inl e) t"
  shows "\<exists>r s'. d_bind m f s = Some (r, s') \<and> Q r s'"
proof -
  obtain r t where m: "m s = Some (r, t)" "v t = v s" using stepsD [OF assms(1)] unfolding keeps_def by blast
  then show ?thesis using assms(2,3) by (cases r) (auto simp: d_bind_def)
qed

lemma finally_then:
  "\<exists>r s'. m s = Some (r, s') \<and> Q r (f s') \<Longrightarrow> \<exists>r s'. d_finally f m s = Some (r, s') \<and> Q r s'"
  by (auto simp: d_finally_def)

lemma map_err_run: "m s = Some (r, s') \<Longrightarrow> d_map_err g m s = Some (map_err g r, s')"
  by (simp add: d_map_err_def)

end
