(* ===== verification/Temporary_Bans.thy ===== *)
theory Temporary_Bans
  imports Blocklist
begin

text \<open>
  \<^verbatim>\<open>crates/kidobo-core/src/temporary_bans.rs\<close>: ban durations, deadlines and the versioned
  state of temporary bans. A \<open>BTreeMap\<close> is the list of its entries in ascending order of the
  keys (\<open>btree_ok\<close>); \<open>u64\<close> values are natural numbers with the bounds of the code's checked
  operations written out. The TOML library is not part of the repository: its decoder and
  its printer are arguments of the definitions that call them.

  The lemmas show the duration round trip, the range of deadlines, what pruning keeps, and
  that a well-formed state survives serialising and parsing.
\<close>

section \<open>Ordered maps\<close>

type_synonym ('k, 'v) btree = "('k \<times> 'v) list"

fun btree_insert :: "'k::linorder \<Rightarrow> 'v \<Rightarrow> ('k, 'v) btree \<Rightarrow> ('k, 'v) btree" where
  "btree_insert k v [] = [(k, v)]"
| "btree_insert k v ((k', v') # m) =
     (if k < k' then (k, v) # (k', v') # m
      else if k = k' then (k, v) # m
      else (k', v') # btree_insert k v m)"

definition btree_ok :: "('k::linorder, 'v) btree \<Rightarrow> bool" where
  "btree_ok m \<longleftrightarrow> sorted_wrt (<) (map fst m)"

lemma btree_ok_simps [simp]:
  "btree_ok []" "btree_ok ((k, v) # m) \<longleftrightarrow> btree_ok m \<and> (\<forall>x \<in> set m. k < fst x)"
  by (auto simp: btree_ok_def)

lemma map_of_btree_insert [simp]: "map_of (btree_insert k v m) = (map_of m)(k \<mapsto> v)"
  by (induction k v m rule: btree_insert.induct) auto

lemma set_btree_insert: "btree_ok m \<Longrightarrow> set (btree_insert k v m) = {e \<in> set m. fst e \<noteq> k} \<union> {(k, v)}"
  by (induction k v m rule: btree_insert.induct) auto

lemma btree_ok_insert [simp]: "btree_ok m \<Longrightarrow> btree_ok (btree_insert k v m)"
  by (induction k v m rule: btree_insert.induct) (auto simp: set_btree_insert)

lemma btree_ok_filter [simp]: "btree_ok m \<Longrightarrow> btree_ok (filter p m)"
  by (induction m) auto

lemma btree_insert_last: "\<forall>x \<in> set m. fst x < k \<Longrightarrow> btree_insert k v m = m @ [(k, v)]"
  by (induction k v m rule: btree_insert.induct) auto

lemma btree_ok_append:
  "btree_ok (xs @ ys) \<longleftrightarrow> btree_ok xs \<and> btree_ok ys \<and> (\<forall>x \<in> set xs. \<forall>y \<in> set ys. fst x < fst y)"
  by (auto simp: btree_ok_def sorted_wrt_append)

section \<open>Durations and deadlines\<close>

definition U64_MAX :: nat where
  "U64_MAX = 2 ^ 64 - 1"

definition I64_MAX :: nat where
  "I64_MAX = 2 ^ 63 - 1"

definition checked_add_u64 :: "nat \<Rightarrow> nat \<Rightarrow> nat option" where
  "checked_add_u64 a b = (if a + b \<le> U64_MAX then Some (a + b) else None)"

definition checked_mul_u64 :: "nat \<Rightarrow> nat \<Rightarrow> nat option" where
  "checked_mul_u64 a b = (if a * b \<le> U64_MAX then Some (a * b) else None)"

text \<open>The diagnostic of \<open>InvalidState\<close> is the data its message is formatted from.\<close>

datatype ban_state_reason =
    TomlError rstr
  | UnsupportedVersion nat
  | InvalidIdentity rstr
  | DuplicateIp canonical_cidr
  | ZeroAsn
  | DuplicateAsn nat

datatype temporary_ban_error = InvalidDuration | InvalidExpiry | InvalidState ban_state_reason

datatype ban_duration = BanDuration (seconds: nat)

text \<open>The result is the signed value, which is not negative.\<close>

definition validate_expiry :: "nat \<Rightarrow> temporary_ban_error + nat" where
  "validate_expiry expiry = (if expiry \<le> I64_MAX \<and> expiry > 0 then Inr expiry else Inl InvalidExpiry)"

definition validate_asn :: "nat \<Rightarrow> temporary_ban_error + unit" where
  "validate_asn asn =
     (if asn = 0 then Inl (InvalidState ZeroAsn) else Inr ())"

definition expires_at :: "ban_duration \<Rightarrow> nat \<Rightarrow> temporary_ban_error + nat" where
  "expires_at d now =
     and_then (ok_or (checked_add_u64 now (seconds d)) InvalidExpiry) (\<lambda>deadline.
       and_then (validate_expiry deadline) (\<lambda>_. Inr deadline))"

text \<open>Code points 104/72 are h and H, 100/68 are d and D.\<close>

definition BanDuration_from_str :: "rstr \<Rightarrow> temporary_ban_error + ban_duration" where
  "BanDuration_from_str inp =
     (let inp = trim inp
      in and_then
           (if inp \<noteq> [] \<and> last inp \<in> {104, 72} then Inr (butlast inp, 3600)
            else if inp \<noteq> [] \<and> last inp \<in> {100, 68} then Inr (butlast inp, 86400)
            else Inl InvalidDuration)
           (\<lambda>(digits, multiplier).
             if digits = [] \<or> \<not> list_all is_ascii_digit digits then Inl InvalidDuration
             else case Option.bind (parse_uint U64_MAX digits)
                         (\<lambda>amount. checked_mul_u64 amount multiplier) of
                    Some s \<Rightarrow> if s > 0 \<and> s \<le> I64_MAX then Inr (BanDuration s) else Inl InvalidDuration
                  | None \<Rightarrow> Inl InvalidDuration))"

definition show_ban_duration :: "ban_duration \<Rightarrow> rstr" where
  "show_ban_duration d =
     (if 86400 dvd seconds d then show_nat (seconds d div 86400) @ [100]
      else show_nat (seconds d div 3600) @ [104])"

section \<open>State\<close>

record temporary_bans =
  tb_ips :: "(canonical_cidr, nat) btree"
  tb_asns :: "(nat, nat) btree"

definition active_ips :: "temporary_bans \<Rightarrow> nat \<Rightarrow> canonical_cidr list" where
  "active_ips s cutoff = map fst (filter (\<lambda>(_, expiry). expiry > cutoff) (tb_ips s))"

definition active_asns :: "temporary_bans \<Rightarrow> nat \<Rightarrow> nat list" where
  "active_asns s cutoff = map fst (filter (\<lambda>(_, expiry). expiry > cutoff) (tb_asns s))"

definition prune_expired :: "temporary_bans \<Rightarrow> nat \<Rightarrow> bool \<times> temporary_bans" where
  "prune_expired s cutoff =
     (let previous = (length (tb_ips s), length (tb_asns s));
          s' = s\<lparr>tb_ips := filter (\<lambda>(_, expiry). expiry > cutoff) (tb_ips s),
                 tb_asns := filter (\<lambda>(_, expiry). expiry > cutoff) (tb_asns s)\<rparr>
      in (previous \<noteq> (length (tb_ips s'), length (tb_asns s')), s'))"

record stored_ip =
  stored_cidr :: rstr
  ip_expires_at :: nat

record stored_asn =
  stored_asn_id :: nat
  asn_expires_at :: nat

record stored_bans =
  version :: nat
  stored_ips :: "stored_ip list"
  stored_asns :: "stored_asn list"

fun load_ips :: "(canonical_cidr, nat) btree \<Rightarrow> stored_ip list
    \<Rightarrow> temporary_ban_error + (canonical_cidr, nat) btree" where
  "load_ips m [] = Inr m"
| "load_ips m (r # rs) =
     and_then (validate_expiry (ip_expires_at r)) (\<lambda>_.
       and_then (ok_or (parse_ip_cidr_strict (stored_cidr r))
                   (InvalidState (InvalidIdentity (stored_cidr r)))) (\<lambda>target.
         if map_of m target \<noteq> None
         then Inl (InvalidState (DuplicateIp target))
         else load_ips (btree_insert target (ip_expires_at r) m) rs))"

fun load_asns :: "(nat, nat) btree \<Rightarrow> stored_asn list \<Rightarrow> temporary_ban_error + (nat, nat) btree" where
  "load_asns m [] = Inr m"
| "load_asns m (r # rs) =
     and_then (validate_expiry (asn_expires_at r)) (\<lambda>_.
       and_then (validate_asn (stored_asn_id r)) (\<lambda>_.
         if map_of m (stored_asn_id r) \<noteq> None
         then Inl (InvalidState (DuplicateAsn (stored_asn_id r)))
         else load_asns (btree_insert (stored_asn_id r) (asn_expires_at r) m) rs))"

definition parse_temporary_bans ::
    "(rstr \<Rightarrow> rstr + stored_bans) \<Rightarrow> rstr \<Rightarrow> temporary_ban_error + temporary_bans" where
  "parse_temporary_bans toml_decode contents =
     and_then (map_err (InvalidState \<circ> TomlError) (toml_decode contents)) (\<lambda>stored.
       if version stored \<noteq> 1
       then Inl (InvalidState (UnsupportedVersion (version stored)))
       else and_then (load_ips [] (stored_ips stored)) (\<lambda>ips.
         and_then (load_asns [] (stored_asns stored)) (\<lambda>asns.
           Inr \<lparr>tb_ips = ips, tb_asns = asns\<rparr>)))"

text \<open>The TOML document built: a table array is present when it has a record.\<close>

record ban_document =
  doc_version :: nat
  doc_ips :: "stored_ip list option"
  doc_asns :: "stored_asn list option"

definition ban_document_of :: "temporary_bans \<Rightarrow> temporary_ban_error + ban_document" where
  "ban_document_of s =
     and_then
       (if tb_ips s = [] then Inr None
        else and_then (collect_results (\<lambda>(cidr, expiry).
               and_then (validate_expiry expiry) (\<lambda>e.
                 Inr \<lparr>stored_cidr = show_cidr cidr, ip_expires_at = e\<rparr>)) (tb_ips s)) (\<lambda>rs. Inr (Some rs)))
       (\<lambda>ips. and_then
         (if tb_asns s = [] then Inr None
          else and_then (collect_results (\<lambda>(asn, expiry).
                 and_then (validate_asn asn) (\<lambda>_.
                   and_then (validate_expiry expiry) (\<lambda>e.
                     Inr \<lparr>stored_asn_id = asn, asn_expires_at = e\<rparr>))) (tb_asns s)) (\<lambda>rs. Inr (Some rs)))
         (\<lambda>asns. Inr \<lparr>doc_version = 1, doc_ips = ips, doc_asns = asns\<rparr>))"

definition serialize_temporary_bans ::
    "(ban_document \<Rightarrow> rstr) \<Rightarrow> temporary_bans \<Rightarrow> temporary_ban_error + rstr" where
  "serialize_temporary_bans toml_render s = and_then (ban_document_of s) (\<lambda>d. Inr (toml_render d))"

section \<open>Durations\<close>

definition duration_ok :: "ban_duration \<Rightarrow> bool" where
  "duration_ok d \<longleftrightarrow> 0 < seconds d \<and> seconds d \<le> I64_MAX \<and> 3600 dvd seconds d"

lemma from_str_ok: "BanDuration_from_str s = Inr d \<Longrightarrow> duration_ok d"
  by (auto simp: BanDuration_from_str_def Let_def and_then_Inr_iff duration_ok_def
      checked_mul_u64_def bind_eq_Some_conv split: if_splits option.splits)

lemma show_nat_digits: "list_all is_ascii_digit (show_nat n)" "show_nat n \<noteq> []"
  using show_radix_digits [of 10 n] show_radix_not_Nil [of 10 n]
  by (simp_all add: show_nat_def list_all_iff is_digit_of_10)

lemma trim_number:
  assumes "c = 100 \<or> c = 104"
  shows "trim (show_nat n @ [c]) = show_nat n @ [c]"
proof (rule trim_fixed)
  have d: "\<not> is_whitespace x" if "is_ascii_digit x" for x
    using that by (auto simp: is_ascii_digit_def is_whitespace_def)
  have "\<not> is_whitespace (hd (show_nat n))"
    using show_nat_digits [of n] by (intro d) (auto simp: list_all_iff)
  moreover have "\<not> is_whitespace c" using assms by (auto simp: is_whitespace_def)
  ultimately show "show_nat n @ [c] = [] \<or>
      (\<not> is_whitespace (hd (show_nat n @ [c])) \<and> \<not> is_whitespace (last (show_nat n @ [c])))"
    using show_nat_digits(2) [of n] by simp
qed

lemma from_str_units:
  assumes "n > 0" "n * m \<le> I64_MAX" "(c, m) = (100, 86400) \<or> (c, m) = (104, 3600)"
  shows "BanDuration_from_str (show_nat n @ [c]) = Inr (BanDuration (n * m))"
proof -
  have u: "I64_MAX \<le> U64_MAX" by (simp add: I64_MAX_def U64_MAX_def)
  have "n \<le> n * m" using assms(3) by auto
  with assms(2) u have "parse_uint U64_MAX (show_nat n) = Some n" by (intro parse_uint_show) linarith
  moreover have "checked_mul_u64 n m = Some (n * m)"
    using assms(2) u by (simp add: checked_mul_u64_def)
  moreover have "trim (show_nat n @ [c]) = show_nat n @ [c]"
    using assms(3) by (intro trim_number) auto
  ultimately show ?thesis
    using assms show_nat_digits [of n] by (auto simp: BanDuration_from_str_def)
qed

lemma show_duration_round: "duration_ok d \<Longrightarrow> BanDuration_from_str (show_ban_duration d) = Inr d"
proof (cases "86400 dvd seconds d")
  case True
  assume "duration_ok d"
  with True show ?thesis
    using from_str_units [of "seconds d div 86400" 86400 100]
    by (auto simp: show_ban_duration_def duration_ok_def dvd_div_mult_self div_greater_zero_iff
        elim!: dvdE intro: ban_duration.expand)
next
  case False
  assume "duration_ok d"
  with False show ?thesis
    using from_str_units [of "seconds d div 3600" 3600 104]
    by (auto simp: show_ban_duration_def duration_ok_def dvd_div_mult_self div_greater_zero_iff
        elim!: dvdE intro: ban_duration.expand)
qed

section \<open>The state round trip\<close>

definition bans_ok :: "temporary_bans \<Rightarrow> bool" where
  "bans_ok s \<longleftrightarrow> btree_ok (tb_ips s) \<and> btree_ok (tb_asns s)
     \<and> (\<forall>(c, e) \<in> set (tb_ips s). canonical_ok c \<and> 0 < e \<and> e \<le> I64_MAX)
     \<and> (\<forall>(a, e) \<in> set (tb_asns s). 0 < a \<and> 0 < e \<and> e \<le> I64_MAX)"

text \<open>What the decoder of the TOML library makes of the document: absent arrays are empty.\<close>

definition stored_of :: "ban_document \<Rightarrow> stored_bans" where
  "stored_of d = \<lparr>version = doc_version d,
     stored_ips = (case doc_ips d of Some rs \<Rightarrow> rs | None \<Rightarrow> []),
     stored_asns = (case doc_asns d of Some rs \<Rightarrow> rs | None \<Rightarrow> [])\<rparr>"

definition ip_record :: "canonical_cidr \<times> nat \<Rightarrow> stored_ip" where
  "ip_record e = \<lparr>stored_cidr = show_cidr (fst e), ip_expires_at = snd e\<rparr>"

definition asn_record :: "nat \<times> nat \<Rightarrow> stored_asn" where
  "asn_record e = \<lparr>stored_asn_id = fst e, asn_expires_at = snd e\<rparr>"

lemma record_sel [simp]:
  "stored_cidr (ip_record e) = show_cidr (fst e)" "ip_expires_at (ip_record e) = snd e"
  "stored_asn_id (asn_record f) = fst f" "asn_expires_at (asn_record f) = snd f"
  by (simp_all add: ip_record_def asn_record_def)

lemma load_ips_records:
  assumes "btree_ok (m @ es)" "\<forall>(c, e) \<in> set es. canonical_ok c \<and> 0 < e \<and> e \<le> I64_MAX"
  shows "load_ips m (map ip_record es) = Inr (m @ es)"
  using assms
proof (induction es arbitrary: m)
  case (Cons x es)
  obtain c e where x: "x = (c, e)" by fastforce
  have lt: "\<forall>y \<in> set m. fst y < c" using Cons.prems(1) x by (auto simp: btree_ok_append)
  then have "map_of m c = None" by (force simp: map_of_eq_None_iff)
  moreover have "btree_insert c e m = m @ [(c, e)]" using lt by (rule btree_insert_last)
  moreover have "load_ips (m @ [(c, e)]) (map ip_record es) = Inr ((m @ [(c, e)]) @ es)"
    using Cons.prems x by (intro Cons.IH) simp_all
  ultimately show ?case
    using Cons.prems(2) x by (simp add: validate_expiry_def strict_show_cidr)
qed simp

lemma load_asns_records:
  assumes "btree_ok (m @ es)" "\<forall>(a, e) \<in> set es. 0 < a \<and> 0 < e \<and> e \<le> I64_MAX"
  shows "load_asns m (map asn_record es) = Inr (m @ es)"
  using assms
proof (induction es arbitrary: m)
  case (Cons x es)
  obtain a e where x: "x = (a, e)" by fastforce
  have lt: "\<forall>y \<in> set m. fst y < a" using Cons.prems(1) x by (auto simp: btree_ok_append)
  then have "map_of m a = None" by (force simp: map_of_eq_None_iff)
  moreover have "btree_insert a e m = m @ [(a, e)]" using lt by (rule btree_insert_last)
  moreover have "load_asns (m @ [(a, e)]) (map asn_record es) = Inr ((m @ [(a, e)]) @ es)"
    using Cons.prems x by (intro Cons.IH) simp_all
  ultimately show ?case
    using Cons.prems(2) x by (simp add: validate_expiry_def validate_asn_def)
qed simp

lemma collect_results_map:
  "(\<And>x. x \<in> set xs \<Longrightarrow> f x = Inr (g x)) \<Longrightarrow> collect_results f xs = Inr (map g xs)"
  by (induction xs) simp_all

lemma ban_document_ok:
  assumes "bans_ok s"
  shows "ban_document_of s = Inr \<lparr>doc_version = 1,
      doc_ips = (if tb_ips s = [] then None else Some (map ip_record (tb_ips s))),
      doc_asns = (if tb_asns s = [] then None else Some (map asn_record (tb_asns s)))\<rparr>"
proof -
  have "collect_results (\<lambda>(cidr, expiry). and_then (validate_expiry expiry) (\<lambda>e.
      Inr \<lparr>stored_cidr = show_cidr cidr, ip_expires_at = e\<rparr>)) (tb_ips s) = Inr (map ip_record (tb_ips s))"
    using assms by (intro collect_results_map) (auto simp: bans_ok_def validate_expiry_def ip_record_def)
  moreover have "collect_results (\<lambda>(asn, expiry). and_then (validate_asn asn) (\<lambda>_.
      and_then (validate_expiry expiry) (\<lambda>e. Inr \<lparr>stored_asn_id = asn, asn_expires_at = e\<rparr>))) (tb_asns s)
      = Inr (map asn_record (tb_asns s))"
    using assms by (intro collect_results_map)
      (auto simp: bans_ok_def validate_expiry_def validate_asn_def asn_record_def)
  ultimately show ?thesis by (simp add: ban_document_of_def)
qed

lemma load_ips_ok:
  assumes "load_ips m rs = Inr m'" "btree_ok m" "\<forall>(c, e) \<in> set m. canonical_ok c \<and> 0 < e \<and> e \<le> I64_MAX"
  shows "btree_ok m' \<and> (\<forall>(c, e) \<in> set m'. canonical_ok c \<and> 0 < e \<and> e \<le> I64_MAX)"
  using assms
proof (induction rs arbitrary: m)
  case (Cons r rs)
  from Cons.prems(1) obtain c where c: "parse_ip_cidr_strict (stored_cidr r) = Some c"
    "0 < ip_expires_at r" "ip_expires_at r \<le> I64_MAX"
    "load_ips (btree_insert c (ip_expires_at r) m) rs = Inr m'"
    by (auto simp: and_then_Inr_iff ok_or_Inr_iff validate_expiry_def split: if_splits)
  show ?case
    by (rule Cons.IH [OF c(4)])
      (use Cons.prems c parse_ip_cidr_strict_ok [OF c(1)] in \<open>auto simp: set_btree_insert\<close>)
qed simp

lemma load_asns_ok:
  assumes "load_asns m rs = Inr m'" "btree_ok m" "\<forall>(a, e) \<in> set m. 0 < a \<and> 0 < e \<and> e \<le> I64_MAX"
  shows "btree_ok m' \<and> (\<forall>(a, e) \<in> set m'. 0 < a \<and> 0 < e \<and> e \<le> I64_MAX)"
  using assms
proof (induction rs arbitrary: m)
  case (Cons r rs)
  from Cons.prems(1) have c: "0 < stored_asn_id r" "0 < asn_expires_at r" "asn_expires_at r \<le> I64_MAX"
    "load_asns (btree_insert (stored_asn_id r) (asn_expires_at r) m) rs = Inr m'"
    by (auto simp: and_then_Inr_iff validate_expiry_def validate_asn_def split: if_splits)
  show ?case
    by (rule Cons.IH [OF c(4)]) (use Cons.prems c in \<open>auto simp: set_btree_insert\<close>)
qed simp

lemma parse_temporary_bans_ok: "parse_temporary_bans dec s = Inr b \<Longrightarrow> bans_ok b"
  by (auto simp: parse_temporary_bans_def and_then_Inr_iff bans_ok_def split: if_splits
      dest!: load_ips_ok load_asns_ok)

section \<open>Properties\<close>

text \<open>
  C30: A parsed duration is a positive whole number of hours within 63 bits, and printing it
  and parsing the text again gives the same duration.
\<close>

theorem ban_duration_round_trip:
  assumes "BanDuration_from_str s = Inr d"
  shows "0 < seconds d \<and> seconds d \<le> I64_MAX \<and> 3600 dvd seconds d
    \<and> BanDuration_from_str (show_ban_duration d) = Inr d"
  using from_str_ok [OF assms] show_duration_round by (simp add: duration_ok_def)

theorem ban_duration_round_trip_witness:
  "BanDuration_from_str (lit '' 48H '') = Inr (BanDuration 172800)
   \<and> BanDuration_from_str (show_ban_duration (BanDuration 172800)) = Inr (BanDuration 172800)"
proof
  show *: "BanDuration_from_str (lit '' 48H '') = Inr (BanDuration 172800)" by code_simp
  show "BanDuration_from_str (show_ban_duration (BanDuration 172800)) = Inr (BanDuration 172800)"
    using ban_duration_round_trip [OF *] by simp
qed

text \<open>
  C31: A deadline is the exact sum of the current time and the duration, and is refused
  exactly when that sum leaves the positive signed 64-bit range; the addition never wraps.
\<close>

theorem expires_at_exact:
  "expires_at d now =
     (if 0 < now + seconds d \<and> now + seconds d \<le> I64_MAX
      then Inr (now + seconds d) else Inl InvalidExpiry)"
  by (auto simp: expires_at_def checked_add_u64_def validate_expiry_def I64_MAX_def U64_MAX_def)

text \<open>
  C32: Pruning keeps exactly the entries that are active at the cutoff, reports whether it
  removed one, changes no list of active entries at that or a later cutoff, and keeps the
  invariant of the state.
\<close>

theorem prune_expired_exact:
  assumes "bans_ok s" "prune_expired s cutoff = (removed, s')" "cutoff \<le> later"
  shows "bans_ok s'
    \<and> map fst (tb_ips s') = active_ips s cutoff \<and> map fst (tb_asns s') = active_asns s cutoff
    \<and> active_ips s' later = active_ips s later \<and> active_asns s' later = active_asns s later
    \<and> (removed \<longleftrightarrow> s' \<noteq> s)"
proof -
  have same: "length (filter p m) = length m \<longleftrightarrow> filter p m = m" for p and m :: "('k \<times> nat) list"
    by (metis filter_id_conv length_filter_less less_irrefl)
  have s': "tb_ips s' = filter (\<lambda>(_, e). e > cutoff) (tb_ips s)"
    "tb_asns s' = filter (\<lambda>(_, e). e > cutoff) (tb_asns s)"
    and r: "removed \<longleftrightarrow> \<not> (length (tb_ips s') = length (tb_ips s) \<and> length (tb_asns s') = length (tb_asns s))"
    using assms(2) by (auto simp: prune_expired_def Let_def)
  have later: "filter (\<lambda>(_, e). e > later) (filter (\<lambda>(_, e). e > cutoff) m) = filter (\<lambda>(_, e). e > later) m"
    for m :: "('k \<times> nat) list"
    unfolding filter_filter using assms(3) by (intro filter_cong) auto
  have "s' = s \<longleftrightarrow> tb_ips s' = tb_ips s \<and> tb_asns s' = tb_asns s"
    by (metis temporary_bans.equality unit_eq)
  moreover have "length (tb_ips s') = length (tb_ips s) \<longleftrightarrow> tb_ips s' = tb_ips s"
    "length (tb_asns s') = length (tb_asns s) \<longleftrightarrow> tb_asns s' = tb_asns s"
    unfolding s' by (rule same)+
  ultimately have "removed \<longleftrightarrow> s' \<noteq> s" using r by blast
  moreover have "bans_ok s'" using assms(1) by (simp add: bans_ok_def s')
  moreover have "active_ips s' later = active_ips s later" "active_asns s' later = active_asns s later"
    by (simp_all only: active_ips_def active_asns_def s' later)
  ultimately show ?thesis by (simp only: active_ips_def active_asns_def s' simp_thms)
qed

theorem prune_expired_exact_witness:
  "active_ips \<lparr>tb_ips = [(V4 (Cidr 0x0A000001 32), 9)], tb_asns = []\<rparr> 7
     = active_ips \<lparr>tb_ips = [(V4 (Cidr 0x0A000000 32), 5), (V4 (Cidr 0x0A000001 32), 9)], tb_asns = [(7, 3)]\<rparr> 7"
proof -
  let ?s = "\<lparr>tb_ips = [(V4 (Cidr 0x0A000000 32), 5), (V4 (Cidr 0x0A000001 32), 9)], tb_asns = [(7, 3)]\<rparr>"
  have "bans_ok ?s" by code_simp
  moreover have "prune_expired ?s 6 = (True, \<lparr>tb_ips = [(V4 (Cidr 0x0A000001 32), 9)], tb_asns = []\<rparr>)"
    by code_simp
  ultimately show ?thesis using prune_expired_exact [of ?s 6 _ _ 7] by simp
qed

lemma serialize_bans_ok:
  assumes "\<And>doc. ban_document_of s = Inr doc \<Longrightarrow> toml_decode (toml_render doc) = Inr (stored_of doc)"
    and ok: "bans_ok s"
  shows "\<exists>text. serialize_temporary_bans toml_render s = Inr text
    \<and> parse_temporary_bans toml_decode text = Inr s"
proof -
  have "btree_ok ([] @ tb_ips s)" "btree_ok ([] @ tb_asns s)"
    and "\<forall>(c, e) \<in> set (tb_ips s). canonical_ok c \<and> 0 < e \<and> e \<le> I64_MAX"
    and "\<forall>(a, e) \<in> set (tb_asns s). 0 < a \<and> 0 < e \<and> e \<le> I64_MAX"
    using ok by (simp_all add: bans_ok_def)
  then have "load_ips [] (map ip_record (tb_ips s)) = Inr (tb_ips s)"
    "load_asns [] (map asn_record (tb_asns s)) = Inr (tb_asns s)"
    using load_ips_records [of "[]"] load_asns_records [of "[]"] by fastforce+
  with assms(1) [OF ban_document_ok [OF ok]] show ?thesis
    by (auto simp: serialize_temporary_bans_def ban_document_ok [OF ok] parse_temporary_bans_def stored_of_def)
qed

text \<open>
  C33: Every state the parser accepts is well-formed, and a well-formed state is serialised
  without an error and parses back to itself, given that the TOML library decodes the
  documents it renders to their records.
\<close>

theorem temporary_bans_round_trip:
  assumes "\<And>doc. ban_document_of s = Inr doc \<Longrightarrow> toml_decode (toml_render doc) = Inr (stored_of doc)"
    and "parse_temporary_bans toml_decode contents = Inr s"
  shows "bans_ok s \<and> (\<exists>text. serialize_temporary_bans toml_render s = Inr text
    \<and> parse_temporary_bans toml_decode text = Inr s)"
  using parse_temporary_bans_ok [OF assms(2)] serialize_bans_ok [OF assms(1)] by blast

theorem temporary_bans_round_trip_witness:
  "\<exists>text. serialize_temporary_bans (\<lambda>_. lit ''rendered'')
       \<lparr>tb_ips = [(V4 (Cidr 0x0A000001 32), 9)], tb_asns = [(7, 3)]\<rparr> = Inr text
    \<and> parse_temporary_bans (\<lambda>_. Inr \<lparr>version = 1,
          stored_ips = [\<lparr>stored_cidr = lit ''10.0.0.1/32'', ip_expires_at = 9\<rparr>],
          stored_asns = [\<lparr>stored_asn_id = 7, asn_expires_at = 3\<rparr>]\<rparr>) text
      = Inr \<lparr>tb_ips = [(V4 (Cidr 0x0A000001 32), 9)], tb_asns = [(7, 3)]\<rparr>"
proof (rule temporary_bans_round_trip [where contents = "[]", THEN conjunct2])
  let ?s = "\<lparr>tb_ips = [(V4 (Cidr 0x0A000001 32), 9)], tb_asns = [(7, 3)]\<rparr>"
  let ?r = "\<lparr>version = 1, stored_ips = [\<lparr>stored_cidr = lit ''10.0.0.1/32'', ip_expires_at = 9\<rparr>],
      stored_asns = [\<lparr>stored_asn_id = 7, asn_expires_at = 3\<rparr>]\<rparr>"
  have "map_sum id stored_of (ban_document_of ?s) = Inr ?r" by code_simp
  then show "Inr ?r = Inr (stored_of doc)" if "ban_document_of ?s = Inr doc" for doc
    using that by simp
  show "parse_temporary_bans (\<lambda>_. Inr ?r) [] = Inr ?s" by code_simp
qed

end
