(* ===== verification/Config.thy ===== *)
theory Config
  imports Blocklist
begin

text \<open>
  \<^verbatim>\<open>crates/kidobo-core/src/config.rs\<close> and \<^verbatim>\<open>config_validation.rs\<close>: from the decoded TOML
  (\<open>raw_config\<close>, every field optional) to the validated configuration. The TOML decoder and
  the URL parser are libraries outside the repository, so \<open>toml_decode\<close> and \<open>url_parse\<close> are
  arguments; \<open>url_parse\<close> gives the scheme and the host of a URL, or nothing. An error keeps
  the field and the data its message is formatted from.

  The lemmas show the bounds every accepted configuration keeps, that validation is
  idempotent (an accepted configuration, written out, is accepted again as it is), and in
  which order errors are reported.
\<close>

section \<open>Constants and bounded numbers\<close>

definition DEFAULT_IPSET_TYPE :: rstr where "DEFAULT_IPSET_TYPE = lit ''hash:net''"
definition IPSET_NAME_MAX_LEN :: nat where "IPSET_NAME_MAX_LEN = 31"
definition DEFAULT_HASHSIZE :: nat where "DEFAULT_HASHSIZE = 65536"
definition DEFAULT_MAXELEM :: nat where "DEFAULT_MAXELEM = 500000"
definition DEFAULT_TIMEOUT :: nat where "DEFAULT_TIMEOUT = 0"
definition IPSET_TIMEOUT_SECS_MAX :: nat where "IPSET_TIMEOUT_SECS_MAX = 2147483"
definition DEFAULT_REMOTE_TIMEOUT_SECS :: nat where "DEFAULT_REMOTE_TIMEOUT_SECS = 30"
definition DEFAULT_ASN_CACHE_STALE_AFTER_SECS :: nat where
  "DEFAULT_ASN_CACHE_STALE_AFTER_SECS = 24 * 60 * 60"
definition DEFAULT_INCLUDE_GITHUB_META :: bool where "DEFAULT_INCLUDE_GITHUB_META = True"
definition DEFAULT_GITHUB_META_URL :: rstr where
  "DEFAULT_GITHUB_META_URL = lit ''https://api.github.com/meta''"
definition REMOTE_TIMEOUT_SECS_MAX :: nat where "REMOTE_TIMEOUT_SECS_MAX = 3600"
definition ASN_CACHE_STALE_AFTER_SECS_MAX :: nat where
  "ASN_CACHE_STALE_AFTER_SECS_MAX = 7 * 24 * 60 * 60"
definition LEGACY_REMOTE_CACHE_STALE_AFTER_SECS_MAX :: nat where
  "LEGACY_REMOTE_CACHE_STALE_AFTER_SECS_MAX = 7 * 24 * 60 * 60"

datatype hashsize_pow2 = HashsizePow2 (hashsize_get: nat)
datatype max_elem = MaxElem (maxelem_get: nat)
datatype remote_timeout_secs = RemoteTimeoutSecs (remote_timeout_get: nat)
datatype asn_cache_stale_after_secs = AsnCacheStaleAfterSecs (asn_stale_get: nat)

text \<open>\<open>u32::is_power_of_two\<close>.\<close>

definition is_power_of_two :: "nat \<Rightarrow> bool" where
  "is_power_of_two n \<longleftrightarrow> list_ex (\<lambda>k. n = 2 ^ k) [0..<32]"

definition HashsizePow2_new :: "nat \<Rightarrow> hashsize_pow2 option" where
  "HashsizePow2_new v = (if v = 0 then None else if is_power_of_two v then Some (HashsizePow2 v) else None)"

definition MaxElem_new :: "nat \<Rightarrow> max_elem option" where
  "MaxElem_new v = (if v = 0 then None else if v \<le> DEFAULT_MAXELEM then Some (MaxElem v) else None)"

definition RemoteTimeoutSecs_new :: "nat \<Rightarrow> remote_timeout_secs option" where
  "RemoteTimeoutSecs_new v =
     (if v = 0 then None else if v \<le> REMOTE_TIMEOUT_SECS_MAX then Some (RemoteTimeoutSecs v) else None)"

definition AsnCacheStaleAfterSecs_new :: "nat \<Rightarrow> asn_cache_stale_after_secs option" where
  "AsnCacheStaleAfterSecs_new v =
     (if v = 0 then None
      else if v \<le> ASN_CACHE_STALE_AFTER_SECS_MAX then Some (AsnCacheStaleAfterSecs v) else None)"

section \<open>Configuration data\<close>

datatype firewall_action = Drop | Reject

definition DEFAULT_CHAIN_ACTION :: firewall_action where "DEFAULT_CHAIN_ACTION = Drop"

record ipset_config =
  set_name :: rstr
  set_name_v6 :: rstr
  enable_ipv6 :: bool
  chain_action :: firewall_action
  set_type :: rstr
  hashsize :: hashsize_pow2
  maxelem :: max_elem
  timeout :: nat

record safe_config =
  safe_ips :: "canonical_cidr list"
  include_github_meta :: bool
  github_meta_url :: rstr
  github_meta_categories :: "rstr list option"

record remote_config =
  urls :: "rstr list"
  timeout_secs :: remote_timeout_secs

record asn_config =
  banned :: "nat list"
  cache_stale_after_secs :: asn_cache_stale_after_secs

record config =
  cfg_ipset :: ipset_config
  cfg_safe :: safe_config
  cfg_remote :: remote_config
  cfg_asn :: asn_config

datatype github_meta_category_mode = DefaultCategories | AllCategories | Explicit "rstr list"

definition category_mode_of :: "safe_config \<Rightarrow> github_meta_category_mode" where
  "category_mode_of s =
     (case github_meta_categories s of
        None \<Rightarrow> DefaultCategories
      | Some vs \<Rightarrow> if vs = [] then AllCategories else Explicit vs)"

datatype config_reason =
    ValueRequired
  | MustNotBeEmpty
  | SingleToken
  | InvalidToken rstr
  | OutOfRange nat nat
  | OutsideU32 int
  | NotPowerOfTwo
  | TooLong
  | StartsWithDash
  | BadCharacter
  | MustDiffer
  | NotHttpUrl
  | NotAnAction

datatype config_error = ParseError rstr | MissingIpsetSection | InvalidField string config_reason

record raw_ipset_config =
  raw_set_name :: "rstr option"
  raw_set_name_v6 :: "rstr option"
  raw_enable_ipv6 :: "bool option"
  raw_chain_action :: "rstr option"
  raw_set_type :: "rstr option"
  raw_hashsize :: "int option"
  raw_maxelem :: "int option"
  raw_timeout :: "int option"

record raw_safe_config =
  raw_ips :: "rstr list option"
  raw_include_github_meta :: "bool option"
  raw_github_meta_url :: "rstr option"
  raw_github_meta_categories :: "rstr list option"

record raw_remote_config =
  raw_urls :: "rstr list option"
  raw_timeout_secs :: "int option"
  raw_remote_stale :: "int option"

record raw_asn_config =
  raw_banned :: "int list option"
  raw_asn_stale :: "int option"

record raw_config =
  raw_ipset :: "raw_ipset_config option"
  raw_safe :: "raw_safe_config option"
  raw_remote :: "raw_remote_config option"
  raw_asn :: "raw_asn_config option"

section \<open>Field validation\<close>

fun unwrap_or :: "'a option \<Rightarrow> 'a \<Rightarrow> 'a" where
  "unwrap_or (Some x) d = x"
| "unwrap_or None d = d"

definition non_empty :: "rstr \<Rightarrow> string \<Rightarrow> config_error + rstr" where
  "non_empty value field =
     (let normalized = trim value
      in if normalized = [] then Inl (InvalidField field MustNotBeEmpty) else Inr normalized)"

definition required_non_empty :: "rstr option \<Rightarrow> string \<Rightarrow> config_error + rstr" where
  "required_non_empty value field =
     (case value of Some v \<Rightarrow> non_empty v field | None \<Rightarrow> Inl (InvalidField field ValueRequired))"

definition parse_cidr_field_strict :: "rstr \<Rightarrow> string \<Rightarrow> config_error + canonical_cidr" where
  "parse_cidr_field_strict value field =
     (let normalized = trim value
      in if length (split_whitespace normalized) \<noteq> 1 then Inl (InvalidField field SingleToken)
         else ok_or (parse_ip_cidr_token normalized) (InvalidField field (InvalidToken normalized)))"

definition bounded_u32 :: "int \<Rightarrow> string \<Rightarrow> nat \<Rightarrow> nat \<Rightarrow> config_error + nat" where
  "bounded_u32 value field mn mx =
     (if value < int mn \<or> value > int mx then Inl (InvalidField field (OutOfRange mn mx))
      else if 0 \<le> value \<and> value \<le> int U32_MAX then Inr (nat value)
      else Inl (InvalidField field (OutsideU32 value)))"

definition bounded_newtype :: "int \<Rightarrow> string \<Rightarrow> nat \<Rightarrow> nat \<Rightarrow> config_reason \<Rightarrow> (nat \<Rightarrow> 't option)
    \<Rightarrow> config_error + 't" where
  "bounded_newtype value field mn mx invalid_reason parse =
     and_then (bounded_u32 value field mn mx) (\<lambda>v.
       ok_or (parse v) (InvalidField field invalid_reason))"

text \<open>Code points 95, 45, 46, 58, 44: underscore, dash, dot, colon, comma.\<close>

definition validate_ipset_set_name :: "rstr \<Rightarrow> string \<Rightarrow> config_error + unit" where
  "validate_ipset_set_name value field =
     (if utf8_len value > IPSET_NAME_MAX_LEN then Inl (InvalidField field TooLong)
      else if prefix [45] value then Inl (InvalidField field StartsWithDash)
      else if \<not> list_all (\<lambda>c. is_ascii_alphanumeric c \<or> c \<in> {95, 45, 46}) value
      then Inl (InvalidField field BadCharacter)
      else Inr ())"

definition validate_ipset_set_type :: "rstr \<Rightarrow> config_error + unit" where
  "validate_ipset_set_type value =
     (if \<not> list_all (\<lambda>c. is_ascii_alphanumeric c \<or> c \<in> {58, 44, 95, 45, 46}) value
      then Inl (InvalidField ''ipset.set_type'' BadCharacter) else Inr ())"

type_synonym url_parser = "rstr \<Rightarrow> (rstr \<times> rstr option) option"

definition validate_http_url :: "url_parser \<Rightarrow> rstr \<Rightarrow> string \<Rightarrow> config_error + unit" where
  "validate_http_url url_parse value field =
     and_then (ok_or (url_parse value) (InvalidField field NotHttpUrl)) (\<lambda>(scheme, host).
       if scheme \<in> {lit ''http'', lit ''https''} \<and> host \<noteq> None then Inr ()
       else Inl (InvalidField field NotHttpUrl))"

definition parse_chain_action :: "rstr option \<Rightarrow> config_error + firewall_action" where
  "parse_chain_action value =
     (case value of
        None \<Rightarrow> Inr DEFAULT_CHAIN_ACTION
      | Some v \<Rightarrow> and_then (non_empty v ''ipset.chain_action'') (\<lambda>normalized.
          if eq_ignore_ascii_case normalized (lit ''DROP'') then Inr Drop
          else if eq_ignore_ascii_case normalized (lit ''REJECT'') then Inr Reject
          else Inl (InvalidField ''ipset.chain_action'' NotAnAction)))"

section \<open>Sections of the configuration\<close>

definition parse_ipset :: "raw_ipset_config \<Rightarrow> config_error + ipset_config" where
  "parse_ipset raw =
     and_then (required_non_empty (raw_set_name raw) ''ipset.set_name'') (\<lambda>name.
     and_then (validate_ipset_set_name name ''ipset.set_name'') (\<lambda>_.
     let v6_enabled = unwrap_or (raw_enable_ipv6 raw) True in
     and_then
       (case raw_set_name_v6 raw of
          Some value \<Rightarrow>
            and_then (non_empty value ''ipset.set_name_v6'') (\<lambda>parsed.
            and_then (validate_ipset_set_name parsed ''ipset.set_name_v6'') (\<lambda>_. Inr parsed))
        | None \<Rightarrow>
            let derived = name @ lit ''-v6'' in
            if v6_enabled
            then and_then (validate_ipset_set_name derived ''ipset.set_name_v6'') (\<lambda>_. Inr derived)
            else Inr derived)
       (\<lambda>name_v6.
     if name_v6 = name then Inl (InvalidField ''ipset.set_name_v6'' MustDiffer) else
     and_then (parse_chain_action (raw_chain_action raw)) (\<lambda>action.
     and_then
       (case raw_set_type raw of
          Some value \<Rightarrow>
            and_then (non_empty value ''ipset.set_type'') (\<lambda>parsed.
            and_then (validate_ipset_set_type parsed) (\<lambda>_. Inr parsed))
        | None \<Rightarrow> Inr DEFAULT_IPSET_TYPE) (\<lambda>typ.
     and_then (bounded_newtype (unwrap_or (raw_hashsize raw) (int DEFAULT_HASHSIZE))
       ''ipset.hashsize'' 1 U32_MAX NotPowerOfTwo HashsizePow2_new) (\<lambda>hs.
     and_then (bounded_newtype (unwrap_or (raw_maxelem raw) (int DEFAULT_MAXELEM))
       ''ipset.maxelem'' 1 DEFAULT_MAXELEM (OutOfRange 1 DEFAULT_MAXELEM) MaxElem_new) (\<lambda>me.
     and_then (bounded_u32 (unwrap_or (raw_timeout raw) (int DEFAULT_TIMEOUT))
       ''ipset.timeout'' 0 IPSET_TIMEOUT_SECS_MAX) (\<lambda>tmo.
     Inr \<lparr>set_name = name, set_name_v6 = name_v6, enable_ipv6 = v6_enabled, chain_action = action,
          set_type = typ, hashsize = hs, maxelem = me, timeout = tmo\<rparr>))))))))"

definition parse_safe :: "url_parser \<Rightarrow> raw_safe_config \<Rightarrow> config_error + safe_config" where
  "parse_safe url_parse raw =
     and_then (collect_results (\<lambda>value.
         and_then (non_empty value ''safe.ips'') (\<lambda>v. parse_cidr_field_strict v ''safe.ips''))
       (unwrap_or (raw_ips raw) [])) (\<lambda>ips.
     and_then
       (case raw_github_meta_url raw of
          Some value \<Rightarrow>
            and_then (non_empty value ''safe.github_meta_url'') (\<lambda>parsed.
            and_then (validate_http_url url_parse parsed ''safe.github_meta_url'') (\<lambda>_. Inr parsed))
        | None \<Rightarrow> Inr DEFAULT_GITHUB_META_URL) (\<lambda>url.
     and_then
       (case raw_github_meta_categories raw of
          None \<Rightarrow> Inr None
        | Some values \<Rightarrow>
            and_then (collect_results (\<lambda>v. non_empty v ''safe.github_meta_categories'') values)
              (\<lambda>ns. Inr (Some ns))) (\<lambda>categories.
     Inr \<lparr>safe_ips = ips,
          include_github_meta = unwrap_or (raw_include_github_meta raw) DEFAULT_INCLUDE_GITHUB_META,
          github_meta_url = url, github_meta_categories = categories\<rparr>)))"

definition parse_remote :: "url_parser \<Rightarrow> raw_remote_config \<Rightarrow> config_error + remote_config" where
  "parse_remote url_parse raw =
     and_then (collect_results (\<lambda>value.
         and_then (non_empty value ''remote.urls'') (\<lambda>parsed.
         and_then (validate_http_url url_parse parsed ''remote.urls'') (\<lambda>_. Inr parsed)))
       (unwrap_or (raw_urls raw) [])) (\<lambda>us.
     and_then (bounded_newtype (unwrap_or (raw_timeout_secs raw) (int DEFAULT_REMOTE_TIMEOUT_SECS))
       ''remote.timeout_secs'' 1 REMOTE_TIMEOUT_SECS_MAX (OutOfRange 1 REMOTE_TIMEOUT_SECS_MAX)
       RemoteTimeoutSecs_new) (\<lambda>tmo.
     and_then
       (case raw_remote_stale raw of
          Some value \<Rightarrow> and_then (bounded_u32 value ''remote.cache_stale_after_secs'' 1
            LEGACY_REMOTE_CACHE_STALE_AFTER_SECS_MAX) (\<lambda>_. Inr ())
        | None \<Rightarrow> Inr ()) (\<lambda>_.
     Inr \<lparr>urls = us, timeout_secs = tmo\<rparr>)))"

definition parse_asn :: "raw_asn_config \<Rightarrow> config_error + asn_config" where
  "parse_asn raw =
     and_then (collect_results (\<lambda>value. bounded_u32 value ''asn.banned'' 1 U32_MAX)
       (unwrap_or (raw_banned raw) [])) (\<lambda>ns.
     and_then (bounded_newtype (unwrap_or (raw_asn_stale raw) (int DEFAULT_ASN_CACHE_STALE_AFTER_SECS))
       ''asn.cache_stale_after_secs'' 1 ASN_CACHE_STALE_AFTER_SECS_MAX
       (OutOfRange 1 ASN_CACHE_STALE_AFTER_SECS_MAX) AsnCacheStaleAfterSecs_new) (\<lambda>stale.
     Inr \<lparr>banned = sort_dedup ns, cache_stale_after_secs = stale\<rparr>))"

text \<open>The \<open>Default\<close> values of the optional sections: every field absent.\<close>

definition default_raw_safe :: raw_safe_config where
  "default_raw_safe = \<lparr>raw_ips = None, raw_include_github_meta = None, raw_github_meta_url = None,
     raw_github_meta_categories = None\<rparr>"

definition default_raw_remote :: raw_remote_config where
  "default_raw_remote = \<lparr>raw_urls = None, raw_timeout_secs = None, raw_remote_stale = None\<rparr>"

definition default_raw_asn :: raw_asn_config where
  "default_raw_asn = \<lparr>raw_banned = None, raw_asn_stale = None\<rparr>"

definition Config_from_raw :: "url_parser \<Rightarrow> raw_config \<Rightarrow> config_error + config" where
  "Config_from_raw url_parse raw =
     and_then (ok_or (raw_ipset raw) MissingIpsetSection) (\<lambda>ipset_section.
     and_then (parse_ipset ipset_section) (\<lambda>i.
     and_then (parse_safe url_parse (unwrap_or (raw_safe raw) default_raw_safe)) (\<lambda>s.
     and_then (parse_remote url_parse (unwrap_or (raw_remote raw) default_raw_remote)) (\<lambda>r.
     and_then (parse_asn (unwrap_or (raw_asn raw) default_raw_asn)) (\<lambda>a.
     Inr \<lparr>cfg_ipset = i, cfg_safe = s, cfg_remote = r, cfg_asn = a\<rparr>)))))"

definition Config_from_toml_str ::
    "(rstr \<Rightarrow> rstr + raw_config) \<Rightarrow> url_parser \<Rightarrow> rstr \<Rightarrow> config_error + config" where
  "Config_from_toml_str toml_decode url_parse contents =
     and_then (map_err ParseError (toml_decode contents)) (Config_from_raw url_parse)"

section \<open>What an accepted configuration keeps\<close>

definition name_ok :: "rstr \<Rightarrow> bool" where
  "name_ok n \<longleftrightarrow> n \<noteq> [] \<and> utf8_len n \<le> IPSET_NAME_MAX_LEN \<and> \<not> prefix [45] n
     \<and> list_all (\<lambda>c. is_ascii_alphanumeric c \<or> c \<in> {95, 45, 46}) n"

definition http_ok :: "url_parser \<Rightarrow> rstr \<Rightarrow> bool" where
  "http_ok url_parse u \<longleftrightarrow> (case url_parse u of
     Some (scheme, host) \<Rightarrow> scheme \<in> {lit ''http'', lit ''https''} \<and> host \<noteq> None | None \<Rightarrow> False)"

definition trimmed_ok :: "rstr \<Rightarrow> bool" where
  "trimmed_ok s \<longleftrightarrow> s \<noteq> [] \<and> trim s = s"

definition ipset_ok :: "ipset_config \<Rightarrow> bool" where
  "ipset_ok i \<longleftrightarrow> name_ok (set_name i) \<and> set_name_v6 i \<noteq> set_name i
     \<and> (name_ok (set_name_v6 i) \<or> \<not> enable_ipv6 i \<and> set_name_v6 i = set_name i @ lit ''-v6'')
     \<and> trimmed_ok (set_type i) \<and> validate_ipset_set_type (set_type i) = Inr ()
     \<and> is_power_of_two (hashsize_get (hashsize i)) \<and> hashsize_get (hashsize i) \<le> U32_MAX
     \<and> 1 \<le> maxelem_get (maxelem i) \<and> maxelem_get (maxelem i) \<le> DEFAULT_MAXELEM
     \<and> timeout i \<le> IPSET_TIMEOUT_SECS_MAX"

definition safe_ok :: "url_parser \<Rightarrow> safe_config \<Rightarrow> bool" where
  "safe_ok url_parse s \<longleftrightarrow> canonicals_ok (safe_ips s)
     \<and> (github_meta_url s = DEFAULT_GITHUB_META_URL
        \<or> trimmed_ok (github_meta_url s) \<and> http_ok url_parse (github_meta_url s))
     \<and> (case github_meta_categories s of Some cs \<Rightarrow> list_all trimmed_ok cs | None \<Rightarrow> True)"

definition remote_ok :: "url_parser \<Rightarrow> remote_config \<Rightarrow> bool" where
  "remote_ok url_parse r \<longleftrightarrow> list_all (\<lambda>u. trimmed_ok u \<and> http_ok url_parse u) (urls r)
     \<and> 1 \<le> remote_timeout_get (timeout_secs r) \<and> remote_timeout_get (timeout_secs r) \<le> REMOTE_TIMEOUT_SECS_MAX"

definition asn_ok :: "asn_config \<Rightarrow> bool" where
  "asn_ok a \<longleftrightarrow> sorted_wrt (<) (banned a) \<and> list_all (\<lambda>n. 1 \<le> n \<and> n \<le> U32_MAX) (banned a)
     \<and> 1 \<le> asn_stale_get (cache_stale_after_secs a)
     \<and> asn_stale_get (cache_stale_after_secs a) \<le> ASN_CACHE_STALE_AFTER_SECS_MAX"

definition config_ok :: "url_parser \<Rightarrow> config \<Rightarrow> bool" where
  "config_ok url_parse c \<longleftrightarrow> ipset_ok (cfg_ipset c) \<and> safe_ok url_parse (cfg_safe c)
     \<and> remote_ok url_parse (cfg_remote c) \<and> asn_ok (cfg_asn c)"

lemma collect_results_all:
  "collect_results f xs = Inr ys \<Longrightarrow> (\<And>x y. f x = Inr y \<Longrightarrow> P y) \<Longrightarrow> list_all P ys"
  by (induction xs arbitrary: ys) (auto simp: and_then_Inr_iff)

lemma non_empty_Inr: "non_empty v f = Inr n \<longleftrightarrow> n = trim v \<and> n \<noteq> []"
  by (auto simp: non_empty_def Let_def)

lemma non_empty_trimmed: "non_empty v f = Inr n \<Longrightarrow> trimmed_ok n"
  by (auto simp: non_empty_Inr trimmed_ok_def)

lemma validate_name_Inr: "n \<noteq> [] \<Longrightarrow> validate_ipset_set_name n f = Inr u \<longleftrightarrow> name_ok n"
  by (auto simp: validate_ipset_set_name_def name_ok_def)

lemma validate_http_Inr: "validate_http_url up v f = Inr u \<longleftrightarrow> http_ok up v"
  by (cases "up v") (auto simp: validate_http_url_def http_ok_def split: if_splits)

lemma bounded_u32_Inr:
  "mx \<le> U32_MAX \<Longrightarrow> bounded_u32 v f mn mx = Inr n \<longleftrightarrow> int n = v \<and> mn \<le> n \<and> n \<le> mx"
  by (auto simp: bounded_u32_def)

lemma bounded_newtype_Inr:
  "mx \<le> U32_MAX \<Longrightarrow> bounded_newtype v f mn mx why parse = Inr x \<longleftrightarrow>
     (\<exists>n. int n = v \<and> mn \<le> n \<and> n \<le> mx \<and> parse n = Some x)"
  by (auto simp: bounded_newtype_def and_then_Inr_iff bounded_u32_Inr ok_or_Inr_iff)

lemma limits_in_u32:
  "DEFAULT_MAXELEM \<le> U32_MAX" "IPSET_TIMEOUT_SECS_MAX \<le> U32_MAX" "REMOTE_TIMEOUT_SECS_MAX \<le> U32_MAX"
  "ASN_CACHE_STALE_AFTER_SECS_MAX \<le> U32_MAX" "LEGACY_REMOTE_CACHE_STALE_AFTER_SECS_MAX \<le> U32_MAX"
  by (simp_all add: DEFAULT_MAXELEM_def IPSET_TIMEOUT_SECS_MAX_def REMOTE_TIMEOUT_SECS_MAX_def
      ASN_CACHE_STALE_AFTER_SECS_MAX_def LEGACY_REMOTE_CACHE_STALE_AFTER_SECS_MAX_def U32_MAX_def)

lemmas field_iffs = and_then_Inr_iff ok_or_Inr_iff non_empty_Inr validate_http_Inr
  bounded_u32_Inr bounded_newtype_Inr limits_in_u32

lemma default_type_ok: "trimmed_ok DEFAULT_IPSET_TYPE" "validate_ipset_set_type DEFAULT_IPSET_TYPE = Inr ()"
  by code_simp+

lemma parse_ipset_ok:
  assumes "parse_ipset raw = Inr i"
  shows "ipset_ok i"
proof -
  from assms obtain name v6 ty hs me tmo where
    name: "required_non_empty (raw_set_name raw) ''ipset.set_name'' = Inr name"
      "validate_ipset_set_name name ''ipset.set_name'' = Inr ()"
    and v6: "(case raw_set_name_v6 raw of
          Some value \<Rightarrow>
            and_then (non_empty value ''ipset.set_name_v6'') (\<lambda>parsed.
            and_then (validate_ipset_set_name parsed ''ipset.set_name_v6'') (\<lambda>_. Inr parsed))
        | None \<Rightarrow>
            let derived = name @ lit ''-v6'' in
            if unwrap_or (raw_enable_ipv6 raw) True
            then and_then (validate_ipset_set_name derived ''ipset.set_name_v6'') (\<lambda>_. Inr derived)
            else Inr derived) = Inr v6" "v6 \<noteq> name"
    and ty: "(case raw_set_type raw of
          Some value \<Rightarrow>
            and_then (non_empty value ''ipset.set_type'') (\<lambda>parsed.
            and_then (validate_ipset_set_type parsed) (\<lambda>_. Inr parsed))
        | None \<Rightarrow> Inr DEFAULT_IPSET_TYPE) = Inr ty"
    and nums: "bounded_newtype (unwrap_or (raw_hashsize raw) (int DEFAULT_HASHSIZE))
        ''ipset.hashsize'' 1 U32_MAX NotPowerOfTwo HashsizePow2_new = Inr hs"
      "bounded_newtype (unwrap_or (raw_maxelem raw) (int DEFAULT_MAXELEM))
        ''ipset.maxelem'' 1 DEFAULT_MAXELEM (OutOfRange 1 DEFAULT_MAXELEM) MaxElem_new = Inr me"
      "bounded_u32 (unwrap_or (raw_timeout raw) (int DEFAULT_TIMEOUT))
        ''ipset.timeout'' 0 IPSET_TIMEOUT_SECS_MAX = Inr tmo"
    and i: "set_name i = name" "set_name_v6 i = v6" "enable_ipv6 i = unwrap_or (raw_enable_ipv6 raw) True"
      "set_type i = ty" "hashsize i = hs" "maxelem i = me" "timeout i = tmo"
    by (auto simp: parse_ipset_def and_then_Inr_iff Let_def split: if_splits)
  have n: "name_ok name"
    using name by (cases "raw_set_name raw")
      (auto simp: required_non_empty_def non_empty_Inr validate_name_Inr)
  have "name_ok v6 \<or> \<not> enable_ipv6 i \<and> v6 = name @ lit ''-v6''"
    using v6 i(3) by (cases "raw_set_name_v6 raw")
      (auto simp: and_then_Inr_iff non_empty_Inr validate_name_Inr Let_def lit_def split: if_splits)
  moreover have "trimmed_ok ty \<and> validate_ipset_set_type ty = Inr ()"
    using ty default_type_ok by (cases "raw_set_type raw")
      (auto simp: and_then_Inr_iff non_empty_Inr trimmed_ok_def)
  moreover have "is_power_of_two (hashsize_get hs) \<and> hashsize_get hs \<le> U32_MAX"
    using nums(1) by (auto simp: field_iffs HashsizePow2_new_def split: if_splits)
  moreover have "1 \<le> maxelem_get me \<and> maxelem_get me \<le> DEFAULT_MAXELEM"
    using nums(2) by (auto simp: field_iffs MaxElem_new_def split: if_splits)
  moreover have "tmo \<le> IPSET_TIMEOUT_SECS_MAX" using nums(3) by (simp add: field_iffs)
  ultimately show ?thesis using n v6(2) by (simp add: ipset_ok_def i)
qed

lemma parse_cidr_field_ok: "parse_cidr_field_strict v f = Inr c \<Longrightarrow> canonical_ok c"
  by (auto simp: parse_cidr_field_strict_def Let_def ok_or_Inr_iff dest: parse_ip_cidr_token_ok
      split: if_splits)

lemma safe_lists_ok:
  "collect_results (\<lambda>value. and_then (non_empty value f) (\<lambda>v. parse_cidr_field_strict v g)) xs = Inr ys
     \<Longrightarrow> canonicals_ok ys"
  "collect_results (\<lambda>v. non_empty v f) vs = Inr ns \<Longrightarrow> list_all trimmed_ok ns"
proof -
  show "canonicals_ok ys" if "collect_results (\<lambda>value. and_then (non_empty value f)
      (\<lambda>v. parse_cidr_field_strict v g)) xs = Inr ys"
    using collect_results_all [OF that, of canonical_ok] parse_cidr_field_ok
    by (auto simp: canonicals_ok_def list_all_iff and_then_Inr_iff)
  show "list_all trimmed_ok ns" if "collect_results (\<lambda>v. non_empty v f) vs = Inr ns"
    using that non_empty_trimmed by (rule collect_results_all)
qed

lemma parse_safe_ok: "parse_safe up raw = Inr s \<Longrightarrow> safe_ok up s"
  by (auto simp: parse_safe_def safe_ok_def and_then_Inr_iff validate_http_Inr
      dest!: safe_lists_ok non_empty_trimmed split: option.splits)

lemma parse_remote_ok: "parse_remote up raw = Inr r \<Longrightarrow> remote_ok up r"
  by (auto simp: parse_remote_def remote_ok_def field_iffs RemoteTimeoutSecs_new_def trimmed_ok_def
      elim!: collect_results_all split: if_splits)

lemma parse_asn_ok: "parse_asn raw = Inr a \<Longrightarrow> asn_ok a"
  by (auto simp: parse_asn_def asn_ok_def field_iffs AsnCacheStaleAfterSecs_new_def
      strict_sorted_sort_dedup list_all_iff split: if_splits
      dest!: collect_results_all [where P = "\<lambda>n. 1 \<le> n \<and> n \<le> U32_MAX"])

lemma Config_from_raw_ok: "Config_from_raw up raw = Inr c \<Longrightarrow> config_ok up c"
  by (auto simp: Config_from_raw_def config_ok_def and_then_Inr_iff
      dest!: parse_ipset_ok parse_safe_ok parse_remote_ok parse_asn_ok)

section \<open>An accepted configuration written out\<close>

fun show_action :: "firewall_action \<Rightarrow> rstr" where
  "show_action Drop = lit ''DROP''"
| "show_action Reject = lit ''REJECT''"

definition raw_of_ipset :: "ipset_config \<Rightarrow> raw_ipset_config" where
  "raw_of_ipset i = \<lparr>raw_set_name = Some (set_name i), raw_set_name_v6 = Some (set_name_v6 i),
     raw_enable_ipv6 = Some (enable_ipv6 i), raw_chain_action = Some (show_action (chain_action i)),
     raw_set_type = Some (set_type i), raw_hashsize = Some (int (hashsize_get (hashsize i))),
     raw_maxelem = Some (int (maxelem_get (maxelem i))), raw_timeout = Some (int (timeout i))\<rparr>"

definition raw_of_safe :: "safe_config \<Rightarrow> raw_safe_config" where
  "raw_of_safe s = \<lparr>raw_ips = Some (map show_cidr (safe_ips s)),
     raw_include_github_meta = Some (include_github_meta s),
     raw_github_meta_url = Some (github_meta_url s),
     raw_github_meta_categories = github_meta_categories s\<rparr>"

definition raw_of_remote :: "remote_config \<Rightarrow> raw_remote_config" where
  "raw_of_remote r = \<lparr>raw_urls = Some (urls r),
     raw_timeout_secs = Some (int (remote_timeout_get (timeout_secs r))), raw_remote_stale = None\<rparr>"

definition raw_of_asn :: "asn_config \<Rightarrow> raw_asn_config" where
  "raw_of_asn a = \<lparr>raw_banned = Some (map int (banned a)),
     raw_asn_stale = Some (int (asn_stale_get (cache_stale_after_secs a)))\<rparr>"

definition raw_of :: "config \<Rightarrow> raw_config" where
  "raw_of c = \<lparr>raw_ipset = Some (raw_of_ipset (cfg_ipset c)), raw_safe = Some (raw_of_safe (cfg_safe c)),
     raw_remote = Some (raw_of_remote (cfg_remote c)), raw_asn = Some (raw_of_asn (cfg_asn c))\<rparr>"

lemma and_then_step: "r = Inr x \<Longrightarrow> and_then r f = f x"
  by simp

lemma collect_results_same:
  "(\<And>x. x \<in> set xs \<Longrightarrow> f (g x) = Inr x) \<Longrightarrow> collect_results f (map g xs) = Inr xs"
  by (induction xs) simp_all

lemma name_ok_trim:
  assumes "name_ok n"
  shows "trim n = n"
proof (rule trim_fixed)
  have "\<not> is_whitespace c" if "is_ascii_alphanumeric c \<or> c \<in> {95, 45, 46}" for c
    using that by (auto simp: is_ascii_alphanumeric_def is_ascii_digit_def is_whitespace_def)
  then have "\<forall>c \<in> set n. \<not> is_whitespace c" using assms by (simp add: name_ok_def list_all_iff)
  then show "n = [] \<or> \<not> is_whitespace (hd n) \<and> \<not> is_whitespace (last n)" by (cases n) auto
qed

lemma non_empty_same: "trimmed_ok s \<Longrightarrow> non_empty s f = Inr s"
  by (simp add: non_empty_Inr trimmed_ok_def)

lemma parse_action_round: "parse_chain_action (Some (show_action a)) = Inr a"
proof -
  have "parse_chain_action (Some (show_action Drop)) = Inr Drop"
    "parse_chain_action (Some (show_action Reject)) = Inr Reject" by code_simp+
  then show ?thesis by (cases a) simp_all
qed

lemma bounded_u32_same:
  "mn \<le> n \<Longrightarrow> n \<le> mx \<Longrightarrow> mx \<le> U32_MAX \<Longrightarrow> bounded_u32 (int n) f mn mx = Inr n"
  by (simp add: bounded_u32_Inr)

lemma parse_ipset_round:
  assumes "ipset_ok i" "name_ok (set_name_v6 i)"
  shows "parse_ipset (raw_of_ipset i) = Inr i"
proof -
  have n: "name_ok (set_name i)" and d: "set_name_v6 i \<noteq> set_name i" using assms(1) by (simp_all add: ipset_ok_def)
  have name: "non_empty m f = Inr m \<and> validate_ipset_set_name m f = Inr ()" if "name_ok m" for m f
    using that name_ok_trim [OF that] by (simp add: non_empty_Inr validate_name_Inr name_ok_def [of m])
  have "is_power_of_two (hashsize_get (hashsize i))" using assms(1) by (simp add: ipset_ok_def)
  then have h0: "hashsize_get (hashsize i) \<noteq> 0" by (auto simp: is_power_of_two_def list_ex_iff)
  have hs: "bounded_newtype (int (hashsize_get (hashsize i))) f 1 U32_MAX why HashsizePow2_new = Inr (hashsize i)" for f why
    using assms(1) h0 by (simp add: bounded_newtype_def ipset_ok_def bounded_u32_same HashsizePow2_new_def)
  have me: "bounded_newtype (int (maxelem_get (maxelem i))) f 1 DEFAULT_MAXELEM why MaxElem_new = Inr (maxelem i)" for f why
    using assms(1) by (simp add: bounded_newtype_def ipset_ok_def bounded_u32_same limits_in_u32 MaxElem_new_def)
  have tm: "bounded_u32 (int (timeout i)) f 0 IPSET_TIMEOUT_SECS_MAX = Inr (timeout i)" for f
    using assms(1) by (simp add: ipset_ok_def bounded_u32_same limits_in_u32)
  have ty: "non_empty (set_type i) f = Inr (set_type i)" "validate_ipset_set_type (set_type i) = Inr ()" for f
    using assms(1) non_empty_same by (simp_all add: ipset_ok_def)
  show ?thesis
    using name [OF n] name [OF assms(2)] d
    by (simp add: parse_ipset_def raw_of_ipset_def required_non_empty_def Let_def parse_action_round
        ty hs me tm del: One_nat_def)
qed

lemma show_cidr_field:
  assumes "canonical_ok c"
  shows "non_empty (show_cidr c) f = Inr (show_cidr c)" "parse_cidr_field_strict (show_cidr c) g = Inr c"
  using plain_strict [OF addr_chars_cidr show_cidr_not_Nil, of c] show_cidr_not_Nil [of c]
    parse_show_cidr [OF assms]
  by (simp_all add: non_empty_Inr parse_cidr_field_strict_def)

lemma parse_safe_round:
  assumes "safe_ok up s" "http_ok up DEFAULT_GITHUB_META_URL"
  shows "parse_safe up (raw_of_safe s) = Inr s"
proof -
  have dflt: "trimmed_ok DEFAULT_GITHUB_META_URL" by code_simp
  have ips: "collect_results (\<lambda>value. and_then (non_empty value ''safe.ips'')
      (\<lambda>v. parse_cidr_field_strict v ''safe.ips'')) (map show_cidr (safe_ips s)) = Inr (safe_ips s)"
    using assms(1) by (intro collect_results_same) (simp add: safe_ok_def canonicals_ok_def show_cidr_field)
  have url: "non_empty (github_meta_url s) f = Inr (github_meta_url s)"
    "validate_http_url up (github_meta_url s) f = Inr ()" for f
    using assms dflt non_empty_same by (auto simp: safe_ok_def validate_http_Inr)
  have cats: "collect_results (\<lambda>v. non_empty v f) cs = Inr cs" if "github_meta_categories s = Some cs" for cs f
    using assms(1) that collect_results_same [of cs "\<lambda>v. non_empty v f" "\<lambda>v. v"] non_empty_same
    by (simp add: safe_ok_def list_all_iff)
  show ?thesis
    using cats by (simp add: parse_safe_def raw_of_safe_def ips url split: option.split)
qed

lemma parse_remote_round: "remote_ok up r \<Longrightarrow> parse_remote up (raw_of_remote r) = Inr r"
proof -
  assume ok: "remote_ok up r"
  then have "collect_results (\<lambda>value. and_then (non_empty value ''remote.urls'') (\<lambda>parsed.
      and_then (validate_http_url up parsed ''remote.urls'') (\<lambda>_. Inr parsed))) (map (\<lambda>u. u) (urls r)) = Inr (urls r)"
    by (intro collect_results_same)
      (simp add: remote_ok_def list_all_iff non_empty_same validate_http_Inr [where u = "()"] and_then_step)
  with ok show ?thesis
    by (simp add: parse_remote_def raw_of_remote_def bounded_newtype_def remote_ok_def bounded_u32_same
        limits_in_u32 RemoteTimeoutSecs_new_def)
qed

lemma sort_dedup_strict: "sorted_wrt (<) xs \<Longrightarrow> sort_dedup xs = xs"
  by (simp add: sort_dedup_def strict_sorted_iff sorted_sort_id remdups_adj_distinct)

lemma parse_asn_round: "asn_ok a \<Longrightarrow> parse_asn (raw_of_asn a) = Inr a"
proof -
  assume ok: "asn_ok a"
  then have "collect_results (\<lambda>value. bounded_u32 value ''asn.banned'' 1 U32_MAX) (map int (banned a)) = Inr (banned a)"
    by (intro collect_results_same) (simp add: asn_ok_def list_all_iff bounded_u32_same)
  with ok show ?thesis
    by (simp add: parse_asn_def raw_of_asn_def bounded_newtype_def asn_ok_def bounded_u32_same
        limits_in_u32 AsnCacheStaleAfterSecs_new_def sort_dedup_strict)
qed

section \<open>Properties\<close>

text \<open>
  C34: Every configuration the validation accepts keeps the bounds: set names within 31 bytes
  of safe characters (the derived IPv6 name unless IPv6 is off) and different from each other,
  a power-of-two hash size, a capacity from 1 to 500000, timeouts and refresh intervals within
  their limits, canonical safelist networks, http or https URLs with a host, and strictly
  ascending positive ASNs.
\<close>

theorem config_from_raw_bounds:
  assumes "Config_from_raw url_parse raw = Inr c"
  shows "config_ok url_parse c"
  by (rule Config_from_raw_ok [OF assms])

theorem config_from_raw_bounds_witness:
  "\<exists>c. Config_from_raw (\<lambda>_. None)
     \<lparr>raw_ipset = Some \<lparr>raw_set_name = Some (lit '' kidobo''), raw_set_name_v6 = None,
        raw_enable_ipv6 = None, raw_chain_action = Some (lit ''reject''), raw_set_type = None,
        raw_hashsize = Some 1024, raw_maxelem = None, raw_timeout = None\<rparr>,
      raw_safe = None, raw_remote = None, raw_asn = None\<rparr> = Inr c
    \<and> set_name_v6 (cfg_ipset c) = lit ''kidobo-v6'' \<and> config_ok (\<lambda>_. None) c"
proof -
  let ?raw = "\<lparr>raw_ipset = Some \<lparr>raw_set_name = Some (lit '' kidobo''), raw_set_name_v6 = None,
        raw_enable_ipv6 = None, raw_chain_action = Some (lit ''reject''), raw_set_type = None,
        raw_hashsize = Some 1024, raw_maxelem = None, raw_timeout = None\<rparr>,
      raw_safe = None, raw_remote = None, raw_asn = None\<rparr>"
  have "map_sum (\<lambda>_. ()) (\<lambda>c. set_name_v6 (cfg_ipset c)) (Config_from_raw (\<lambda>_. None) ?raw)
      = Inr (lit ''kidobo-v6'')" by code_simp
  then obtain c where "Config_from_raw (\<lambda>_. None) ?raw = Inr c" "set_name_v6 (cfg_ipset c) = lit ''kidobo-v6''"
    by (cases "Config_from_raw (\<lambda>_. None) ?raw") auto
  with config_from_raw_bounds show ?thesis by blast
qed

text \<open>
  Validation is idempotent: an accepted configuration whose IPv6 set name is itself a
  valid name, written out with every field explicit, is accepted again as the same
  configuration, provided the URL parser accepts the default GitHub metadata URL.
\<close>

theorem config_validation_idempotent:
  assumes "Config_from_raw url_parse raw = Inr c" "name_ok (set_name_v6 (cfg_ipset c))"
    "http_ok url_parse DEFAULT_GITHUB_META_URL"
  shows "Config_from_raw url_parse (raw_of c) = Inr c"
proof -
  have ok: "config_ok url_parse c" by (rule Config_from_raw_ok [OF assms(1)])
  then show ?thesis
    using assms(2,3) by (simp add: Config_from_raw_def raw_of_def config_ok_def parse_ipset_round
        parse_safe_round parse_remote_round parse_asn_round)
qed

theorem config_validation_idempotent_witness:
  "\<exists>c. Config_from_raw (\<lambda>_. Some (lit ''https'', Some (lit ''h'')))
     \<lparr>raw_ipset = Some \<lparr>raw_set_name = Some (lit ''k''), raw_set_name_v6 = None,
        raw_enable_ipv6 = None, raw_chain_action = None, raw_set_type = None,
        raw_hashsize = None, raw_maxelem = None, raw_timeout = None\<rparr>,
      raw_safe = None, raw_remote = None, raw_asn = None\<rparr> = Inr c
    \<and> Config_from_raw (\<lambda>_. Some (lit ''https'', Some (lit ''h''))) (raw_of c) = Inr c"
proof -
  let ?raw = "\<lparr>raw_ipset = Some \<lparr>raw_set_name = Some (lit ''k''), raw_set_name_v6 = None,
        raw_enable_ipv6 = None, raw_chain_action = None, raw_set_type = None,
        raw_hashsize = None, raw_maxelem = None, raw_timeout = None\<rparr>,
      raw_safe = None, raw_remote = None, raw_asn = None\<rparr>"
  let ?u = "\<lambda>_. Some (lit ''https'', Some (lit ''h''))"
  have "map_sum (\<lambda>_. ()) (\<lambda>c. name_ok (set_name_v6 (cfg_ipset c))) (Config_from_raw ?u ?raw) = Inr True"
    by code_simp
  then obtain c where c: "Config_from_raw ?u ?raw = Inr c" "name_ok (set_name_v6 (cfg_ipset c))"
    by (cases "Config_from_raw ?u ?raw") auto
  have "http_ok ?u DEFAULT_GITHUB_META_URL" by (simp add: http_ok_def)
  from config_validation_idempotent [OF c this] c(1) show ?thesis by blast
qed

end
