(* ===== verification/Iptables.thy ===== *)
theory Iptables
  imports Commands Config
begin

text \<open>
  \<^verbatim>\<open>crates/kidobo-adapters/src/iptables.rs\<close>: the fail-closed firewall adapter. The runner of
  external commands is an argument. What iptables does is outside the repository; the
  properties assume \<open>iptables_law\<close>, its documented behaviour on the commands the code issues:
  a command changes the rules as documented or not at all, and when it reports success it has.

  The lemmas show that wiring never leaves the managed chain empty or unreachable once it was
  in force (whatever command fails, at whatever point), that success means the exact wiring,
  that the unbounded jump-removal loop ends, and what cleanup leaves.
\<close>

section \<open>The adapter\<close>

definition KIDOBO_CHAIN_NAME :: rstr where
  "KIDOBO_CHAIN_NAME = lit ''kidobo-input''"

definition KIDOBO_STAGING_CHAIN_NAME :: rstr where
  "KIDOBO_STAGING_CHAIN_NAME = lit ''kidobo-input-stage''"

definition XTABLES_LOCK_WAIT_SECS :: rstr where
  "XTABLES_LOCK_WAIT_SECS = lit ''5''"

datatype chain_action_kind = DropAction | RejectAction

fun as_target :: "chain_action_kind \<Rightarrow> rstr" where
  "as_target DropAction = lit ''DROP''"
| "as_target RejectAction = lit ''REJECT''"

datatype firewall_family = FwIpv4 | FwIpv6

fun binary :: "firewall_family \<Rightarrow> rstr" where
  "binary FwIpv4 = lit ''iptables''"
| "binary FwIpv6 = lit ''ip6tables''"

datatype firewall_error =
    CommandExecution command_runner_error
  | CommandFailed rstr process_status rstr
  | UnexpectedInputWiring firewall_family "nat list" "nat list"

definition with_lock_wait :: "rstr list \<Rightarrow> rstr list" where
  "with_lock_wait args = lit ''-w'' # XTABLES_LOCK_WAIT_SECS # args"

definition fw_run :: "'s runner \<Rightarrow> rstr \<Rightarrow> rstr list \<Rightarrow> ('s, firewall_error, command_result) dact" where
  "fw_run runner command args = d_map_err CommandExecution (d_lift (runner command args))"

definition run_checked :: "'s runner \<Rightarrow> rstr \<Rightarrow> rstr list \<Rightarrow> ('s, firewall_error, command_result) dact" where
  "run_checked runner command args =
     (let waited_args = with_lock_wait args
      in d_bind (fw_run runner command waited_args) (\<lambda>result.
           d_res (ensure_command_succeeded result command waited_args CommandFailed)))"

definition is_missing_chain_result :: "command_result \<Rightarrow> bool" where
  "is_missing_chain_result r \<longleftrightarrow> status_code (cr_status r) = Some 1
     \<and> str_contains (lit ''no chain/target/match by that name'') (to_ascii_lowercase (cr_stderr r))"

text \<open>Code points 96 and 39 are the quotes of the diagnostic.\<close>

definition is_ambiguous_chain_result :: "command_result \<Rightarrow> rstr \<Rightarrow> rstr \<Rightarrow> bool" where
  "is_ambiguous_chain_result r bin chain_name \<longleftrightarrow>
     (let pre = bin @ lit '' v'';
          suf = lit ''(nf_tables): chain '' @ [96] @ chain_name @ [39] @ lit '' in table '' @ [96]
            @ lit ''filter'' @ [39] @ lit '' is incompatible, use '' @ [39] @ lit ''nft'' @ [39] @ lit '' tool.''
      in status_code (cr_status r) = Some 1
         \<and> list_ex (\<lambda>l. prefix pre l \<and> suffix suf l) (str_lines (cr_stderr r)))"

definition run_checked_allow_missing_chain ::
    "'s runner \<Rightarrow> rstr \<Rightarrow> rstr list \<Rightarrow> ('s, firewall_error, unit) dact" where
  "run_checked_allow_missing_chain runner command args =
     (let waited_args = with_lock_wait args
      in d_bind (fw_run runner command waited_args) (\<lambda>result.
           if status_success (cr_status result) \<or> is_missing_chain_result result then d_ok ()
           else d_err (CommandFailed (display_command command waited_args) (cr_status result)
                  (cr_stderr result))))"

definition declared_in :: "rstr \<Rightarrow> rstr \<Rightarrow> bool" where
  "declared_in stdout chain_name \<longleftrightarrow> list_ex (\<lambda>line.
     case split_whitespace line of
       op # c # _ \<Rightarrow> (op = lit ''-N'' \<or> op = lit ''-P'') \<and> c = chain_name
     | _ \<Rightarrow> False) (str_lines stdout)"

definition chain_exists :: "'s runner \<Rightarrow> firewall_family \<Rightarrow> rstr \<Rightarrow> ('s, firewall_error, bool) dact" where
  "chain_exists runner fam chain_name =
     (let bin = binary fam; args = with_lock_wait [lit ''-S'', chain_name]
      in d_bind (fw_run runner bin args) (\<lambda>result.
        let failed = d_err (CommandFailed (display_command bin args) (cr_status result) (cr_stderr result))
        in if status_success (cr_status result) then d_ok True
        else if is_missing_chain_result result then d_ok False
        else if is_ambiguous_chain_result result bin chain_name
        then d_bind (run_checked runner bin [lit ''-S'']) (\<lambda>listing.
               if \<not> declared_in (cr_stdout listing) chain_name then d_ok False else failed)
        else failed))"

definition ensure_chain_exists :: "'s runner \<Rightarrow> firewall_family \<Rightarrow> rstr \<Rightarrow> ('s, firewall_error, unit) dact" where
  "ensure_chain_exists runner fam chain_name =
     d_bind (chain_exists runner fam chain_name) (\<lambda>present.
       if present then d_ok ()
       else d_bind (run_checked runner (binary fam) [lit ''-N'', chain_name]) (\<lambda>_. d_ok ()))"

definition chain_rule_count :: "rstr \<Rightarrow> rstr \<Rightarrow> nat" where
  "chain_rule_count stdout chain_name =
     (let pre = lit ''-A '' @ chain_name @ lit '' ''
      in length (filter (prefix pre) (str_lines stdout)))"

text \<open>\<open>enumerate\<close> and \<open>idx + 1\<close> give one-based positions among the INPUT rules.\<close>

definition exact_jump_positions :: "rstr \<Rightarrow> rstr \<Rightarrow> nat list" where
  "exact_jump_positions stdout chain_name =
     (let expected = lit ''-A INPUT -j '' @ chain_name
      in positions (\<lambda>line. trim line = expected) 1
           (filter (prefix (lit ''-A INPUT '')) (str_lines stdout)))"

partial_function (option) remove_all_input_jumps_for_chain ::
    "'s runner \<Rightarrow> firewall_family \<Rightarrow> rstr \<Rightarrow> 's \<Rightarrow> ((firewall_error + unit) \<times> 's) option" where
  "remove_all_input_jumps_for_chain runner fam chain_name s =
     (case run_checked runner (binary fam) [lit ''-S'', lit ''INPUT''] s of
        None \<Rightarrow> None
      | Some (r, s) \<Rightarrow> (case r of
          Inl e \<Rightarrow> Some (Inl e, s)
        | Inr inp \<Rightarrow>
            if exact_jump_positions (cr_stdout inp) chain_name = [] then Some (Inr (), s)
            else (case fw_run runner (binary fam)
                         (with_lock_wait [lit ''-D'', lit ''INPUT'', lit ''-j'', chain_name]) s of
                None \<Rightarrow> None
              | Some (r, s) \<Rightarrow> (case r of
                  Inl e \<Rightarrow> Some (Inl e, s)
                | Inr result \<Rightarrow>
                    if status_success (cr_status result)
                    then remove_all_input_jumps_for_chain runner fam chain_name s
                    else Some (Inl (CommandFailed (display_command (binary fam)
                           (with_lock_wait [lit ''-D'', lit ''INPUT'', lit ''-j'', chain_name]))
                           (cr_status result) (cr_stderr result)), s)))))"

definition replace_chain_jump_fail_closed ::
    "'s runner \<Rightarrow> firewall_family \<Rightarrow> rstr \<Rightarrow> rstr \<Rightarrow> ('s, firewall_error, unit) dact" where
  "replace_chain_jump_fail_closed runner fam chain_name target_chain =
     (let bin = binary fam
      in d_bind (run_checked runner bin [lit ''-S'', chain_name]) (\<lambda>current.
         let old_rule_count = chain_rule_count (cr_stdout current) chain_name
         in d_bind (run_checked runner bin [lit ''-A'', chain_name, lit ''-j'', target_chain]) (\<lambda>_.
            d_repeat old_rule_count
              (d_bind (run_checked runner bin [lit ''-D'', chain_name, lit ''1'']) (\<lambda>_. d_ok ())))))"

definition replace_chain_rule_fail_closed ::
    "'s runner \<Rightarrow> firewall_family \<Rightarrow> rstr \<Rightarrow> rstr \<Rightarrow> rstr \<Rightarrow> ('s, firewall_error, unit) dact" where
  "replace_chain_rule_fail_closed runner fam chain_name set_nm target =
     (let bin = binary fam
      in d_bind (run_checked runner bin [lit ''-S'', chain_name]) (\<lambda>current.
         let old_rule_count = chain_rule_count (cr_stdout current) chain_name
         in d_bind (run_checked runner bin [lit ''-A'', chain_name, lit ''-m'', lit ''set'',
              lit ''--match-set'', set_nm, lit ''src'', lit ''-j'', target]) (\<lambda>_.
            d_repeat old_rule_count
              (d_bind (run_checked runner bin [lit ''-D'', chain_name, lit ''1'']) (\<lambda>_. d_ok ())))))"

definition normalize_input_jump_fail_closed ::
    "'s runner \<Rightarrow> firewall_family \<Rightarrow> rstr \<Rightarrow> ('s, firewall_error, unit) dact" where
  "normalize_input_jump_fail_closed runner fam chain_name =
     (let bin = binary fam; staging = KIDOBO_STAGING_CHAIN_NAME
      in d_bind (ensure_chain_exists runner fam staging) (\<lambda>_.
         d_bind (replace_chain_jump_fail_closed runner fam staging chain_name) (\<lambda>_.
         d_bind (run_checked runner bin [lit ''-I'', lit ''INPUT'', lit ''1'', lit ''-j'', staging]) (\<lambda>_.
         d_bind (remove_all_input_jumps_for_chain runner fam chain_name) (\<lambda>_.
         d_bind (run_checked runner bin [lit ''-I'', lit ''INPUT'', lit ''1'', lit ''-j'', chain_name]) (\<lambda>_.
         d_bind (remove_all_input_jumps_for_chain runner fam staging) (\<lambda>_.
         d_bind (run_checked_allow_missing_chain runner bin [lit ''-F'', staging]) (\<lambda>_.
         d_bind (run_checked_allow_missing_chain runner bin [lit ''-X'', staging]) (\<lambda>_.
         d_bind (run_checked runner bin [lit ''-S'', lit ''INPUT'']) (\<lambda>final_input.
         let stable_positions = exact_jump_positions (cr_stdout final_input) chain_name;
             staging_positions = exact_jump_positions (cr_stdout final_input) staging
         in if stable_positions \<noteq> [1] \<or> staging_positions \<noteq> []
            then d_err (UnexpectedInputWiring fam stable_positions staging_positions)
            else d_ok ()))))))))))"

definition ensure_firewall_wiring ::
    "'s runner \<Rightarrow> firewall_family \<Rightarrow> rstr \<Rightarrow> chain_action_kind \<Rightarrow> ('s, firewall_error, unit) dact" where
  "ensure_firewall_wiring runner fam set_nm action =
     d_bind (ensure_chain_exists runner fam KIDOBO_CHAIN_NAME) (\<lambda>_.
     d_bind (replace_chain_rule_fail_closed runner fam KIDOBO_CHAIN_NAME set_nm (as_target action)) (\<lambda>_.
     d_bind (normalize_input_jump_fail_closed runner fam KIDOBO_CHAIN_NAME) (\<lambda>_. d_ok ())))"

definition ensure_firewall_wiring_for_families ::
    "'s runner \<Rightarrow> rstr \<Rightarrow> rstr \<Rightarrow> bool \<Rightarrow> chain_action_kind \<Rightarrow> ('s, firewall_error, unit) dact" where
  "ensure_firewall_wiring_for_families runner set_v4 set_v6 v6_enabled action =
     d_bind (ensure_firewall_wiring runner FwIpv4 set_v4 action) (\<lambda>_.
       if v6_enabled then d_bind (ensure_firewall_wiring runner FwIpv6 set_v6 action) (\<lambda>_. d_ok ())
       else d_ok ())"

definition ensure_firewall_artifacts_for_families ::
    "'s runner \<Rightarrow> bool \<Rightarrow> ('s, firewall_error, unit) dact" where
  "ensure_firewall_artifacts_for_families runner v6_enabled =
     d_bind (ensure_chain_exists runner FwIpv4 KIDOBO_CHAIN_NAME) (\<lambda>_.
       if v6_enabled then d_bind (ensure_chain_exists runner FwIpv6 KIDOBO_CHAIN_NAME) (\<lambda>_. d_ok ())
       else d_ok ())"

definition cleanup_firewall_wiring :: "'s runner \<Rightarrow> firewall_family \<Rightarrow> ('s, firewall_error, unit) dact" where
  "cleanup_firewall_wiring runner fam =
     (let bin = binary fam; staging = KIDOBO_STAGING_CHAIN_NAME; stable = KIDOBO_CHAIN_NAME
      in d_bind (d_try (remove_all_input_jumps_for_chain runner fam staging)) (\<lambda>staging_jump_result.
         d_bind (d_try (remove_all_input_jumps_for_chain runner fam stable)) (\<lambda>stable_jump_result.
         d_bind (d_try (run_checked_allow_missing_chain runner bin [lit ''-F'', staging])) (\<lambda>staging_flush_result.
         d_bind (d_try (run_checked_allow_missing_chain runner bin [lit ''-X'', staging])) (\<lambda>staging_delete_result.
         d_bind (d_try (run_checked_allow_missing_chain runner bin [lit ''-F'', stable])) (\<lambda>stable_flush_result.
         d_bind (d_try (run_checked_allow_missing_chain runner bin [lit ''-X'', stable])) (\<lambda>stable_delete_result.
           d_res (and_then staging_jump_result (\<lambda>_. and_then stable_jump_result (\<lambda>_.
             and_then staging_flush_result (\<lambda>_. and_then staging_delete_result (\<lambda>_.
             and_then stable_flush_result (\<lambda>_. stable_delete_result)))))))))))))"


section \<open>What iptables promises\<close>

text \<open>The rules of a table: chain names to rules, as \<^verbatim>\<open>iptables -S\<close> lists them without the
  \<^verbatim>\<open>-A chain\<close> they begin with.\<close>

type_synonym ruleset = "rstr \<Rightarrow> rstr list option"

definition INPUT :: rstr where
  "INPUT = lit ''INPUT''"

definition jump_to :: "rstr \<Rightarrow> rstr" where
  "jump_to c = lit ''-j '' @ c"

definition match_rule :: "rstr \<Rightarrow> chain_action_kind \<Rightarrow> rstr" where
  "match_rule set_nm action =
     lit ''-m set --match-set '' @ set_nm @ lit '' src -j '' @ as_target action"

text \<open>The effect of a command that succeeds; \<open>None\<close> when it cannot.\<close>

definition fw_effect :: "rstr list \<Rightarrow> ruleset \<Rightarrow> ruleset option" where
  "fw_effect args R = (case args of
     [] \<Rightarrow> None
   | op # [] \<Rightarrow> if op = lit ''-S'' then Some R else None
   | op # c # rest \<Rightarrow>
       if op = lit ''-N'' then (if R c = None then Some (R(c \<mapsto> [])) else None)
       else (case R c of
           None \<Rightarrow> None
         | Some rs \<Rightarrow>
             if op = lit ''-S'' then Some R
             else if op = lit ''-F'' then Some (R(c \<mapsto> []))
             else if op = lit ''-X'' then (if rs = [] then Some (R(c := None)) else None)
             else if op = lit ''-A'' then Some (R(c \<mapsto> rs @ [str_join [32] rest]))
             else if op = lit ''-I'' then Some (R(c \<mapsto> str_join [32] (tl rest) # rs))
             else if op = lit ''-D'' then
               (if rest = [lit ''1''] then (if rs = [] then None else Some (R(c \<mapsto> tl rs)))
                else if str_join [32] rest \<in> set rs then Some (R(c \<mapsto> remove1 (str_join [32] rest) rs))
                else None)
             else None))"

text \<open>The commands the adapter issues.\<close>

definition managed :: "rstr \<Rightarrow> bool" where
  "managed c \<longleftrightarrow> c = KIDOBO_CHAIN_NAME \<or> c = KIDOBO_STAGING_CHAIN_NAME"

definition kidobo_command :: "rstr list \<Rightarrow> bool" where
  "kidobo_command args \<longleftrightarrow>
     args = [lit ''-S''] \<or> args = [lit ''-S'', INPUT]
   \<or> (\<exists>c. managed c \<and> args \<in> {[lit ''-S'', c], [lit ''-N'', c], [lit ''-F'', c], [lit ''-X'', c],
        [lit ''-D'', c, lit ''1''], [lit ''-D'', INPUT, lit ''-j'', c],
        [lit ''-I'', INPUT, lit ''1'', lit ''-j'', c],
        [lit ''-A'', c, lit ''-j'', KIDOBO_CHAIN_NAME]})
   \<or> (\<exists>set_nm action. args = [lit ''-A'', KIDOBO_CHAIN_NAME, lit ''-m'', lit ''set'',
        lit ''--match-set'', set_nm, lit ''src'', lit ''-j'', as_target action])"

text \<open>A listing of a chain: a policy or declaration line, then the rules.\<close>

definition rule_line :: "rstr \<Rightarrow> rstr \<Rightarrow> rstr" where
  "rule_line c r = lit ''-A '' @ c @ [32] @ r"

text \<open>The default option of the REJECT target, which the listing adds.\<close>

definition reject_defaults :: "rstr list" where
  "reject_defaults = [lit '' --reject-with icmp-port-unreachable'', lit '' --reject-with icmp6-port-unreachable'']"

definition prints_rule :: "rstr \<Rightarrow> rstr \<Rightarrow> rstr \<Rightarrow> bool" where
  "prints_rule c r l \<longleftrightarrow> l = rule_line c r
     \<or> suffix (lit ''-j REJECT'') r \<and> (\<exists>d \<in> set reject_defaults. l = rule_line c (r @ d))"

definition is_listing :: "rstr \<Rightarrow> rstr list \<Rightarrow> rstr \<Rightarrow> bool" where
  "is_listing c rs text \<longleftrightarrow> (\<exists>h ls. line_ok h \<and> \<not> prefix (lit ''-A'') h
     \<and> list_all2 (prints_rule c) rs ls \<and> text = str_join [10] (h # ls) @ [10])"

definition reports :: "rstr list \<Rightarrow> ruleset \<Rightarrow> rstr \<Rightarrow> bool" where
  "reports args R text \<longleftrightarrow>
     (\<forall>c rs. args = [lit ''-S'', c] \<longrightarrow> R c = Some rs \<longrightarrow> is_listing c rs text)
   \<and> (args = [lit ''-S''] \<longrightarrow>
        (\<forall>c. managed c \<longrightarrow> R c \<noteq> None \<longrightarrow> lit ''-N '' @ c \<in> set (str_lines text)))"

text \<open>
  The documented behaviour of one iptables binary, \<open>view\<close> reading its rules in the state of
  the host: a command does its effect or nothing, whatever it reports (it may time out after
  the effect); success means the effect and a true listing; the missing-chain diagnostic of
  \<^verbatim>\<open>-S\<close>, \<^verbatim>\<open>-F\<close> and \<^verbatim>\<open>-X\<close> means that the chain is absent.
\<close>

definition iptables_law :: "'s runner \<Rightarrow> ('s \<Rightarrow> ruleset) \<Rightarrow> rstr \<Rightarrow> bool" where
  "iptables_law runner view bin \<longleftrightarrow>
     (\<forall>args s r s'. kidobo_command args \<longrightarrow> runner bin (with_lock_wait args) s = (r, s') \<longrightarrow>
        (view s' = view s \<or> fw_effect args (view s) = Some (view s'))
      \<and> (\<forall>res. r = Inr res \<longrightarrow> status_success (cr_status res) \<longrightarrow>
           fw_effect args (view s) = Some (view s') \<and> reports args (view s) (cr_stdout res))
      \<and> (\<forall>res op c. r = Inr res \<longrightarrow> is_missing_chain_result res \<longrightarrow> args = [op, c] \<longrightarrow>
           op \<in> {lit ''-S'', lit ''-F'', lit ''-X''} \<longrightarrow> view s c = None \<and> view s' = view s))"

definition rule_ok :: "rstr \<Rightarrow> bool" where
  "rule_ok r \<longleftrightarrow> line_ok r \<and> r \<noteq> [] \<and> \<not> is_whitespace (last r)"

definition rules_ok :: "ruleset \<Rightarrow> bool" where
  "rules_ok R \<longleftrightarrow> (\<forall>c rs. R c = Some rs \<longrightarrow> list_all rule_ok rs)"

text \<open>
  Enforcement is in force: the first INPUT rule jumps to the stable chain, or to the staging
  chain when that one has nothing but jumps to the stable chain; and the stable chain is not
  empty.
\<close>

definition stable_jump :: rstr where
  "stable_jump = jump_to KIDOBO_CHAIN_NAME"

definition staging_jump :: rstr where
  "staging_jump = jump_to KIDOBO_STAGING_CHAIN_NAME"

definition in_force :: "rstr list \<Rightarrow> rstr list option \<Rightarrow> rstr list option \<Rightarrow> bool" where
  "in_force i st sg \<longleftrightarrow> i \<noteq> [] \<and> st \<noteq> None \<and> st \<noteq> Some []
     \<and> (hd i = stable_jump
        \<or> hd i = staging_jump \<and> (case sg of None \<Rightarrow> False
             | Some l \<Rightarrow> l \<noteq> [] \<and> list_all (\<lambda>r. r = stable_jump) l))"

definition enforcing :: "ruleset \<Rightarrow> bool" where
  "enforcing R \<longleftrightarrow> (case R INPUT of None \<Rightarrow> False
     | Some i \<Rightarrow> in_force i (R KIDOBO_CHAIN_NAME) (R KIDOBO_STAGING_CHAIN_NAME))"

definition unmanaged_rule :: "rstr \<Rightarrow> bool" where
  "unmanaged_rule r \<longleftrightarrow> r \<noteq> stable_jump \<and> r \<noteq> staging_jump"

section \<open>Reading the listings\<close>

lemma chain_names [simp]:
  "KIDOBO_CHAIN_NAME \<noteq> KIDOBO_STAGING_CHAIN_NAME" "KIDOBO_STAGING_CHAIN_NAME \<noteq> KIDOBO_CHAIN_NAME"
  "INPUT \<noteq> KIDOBO_CHAIN_NAME" "INPUT \<noteq> KIDOBO_STAGING_CHAIN_NAME"
  "KIDOBO_CHAIN_NAME \<noteq> INPUT" "KIDOBO_STAGING_CHAIN_NAME \<noteq> INPUT"
  by code_simp+

lemma jumps_differ [simp]: "stable_jump \<noteq> staging_jump" "staging_jump \<noteq> stable_jump"
  by code_simp+

lemma jumps_ok [simp]: "rule_ok stable_jump" "rule_ok staging_jump"
  by code_simp+

lemma managed_simps [simp]: "managed KIDOBO_CHAIN_NAME" "managed KIDOBO_STAGING_CHAIN_NAME"
  by (simp_all add: managed_def)

lemma managed_line_ok: "managed c \<Longrightarrow> line_ok c"
proof -
  have "line_ok KIDOBO_CHAIN_NAME" "line_ok KIDOBO_STAGING_CHAIN_NAME" by code_simp+
  then show "managed c \<Longrightarrow> line_ok c" by (auto simp: managed_def)
qed

lemma INPUT_line_ok: "line_ok INPUT" by code_simp

lemma rule_line_ok: "line_ok c \<Longrightarrow> rule_ok r \<Longrightarrow> line_ok (rule_line c r)"
proof -
  have "10 \<notin> set (lit ''-A '')" by code_simp
  then show "line_ok c \<Longrightarrow> rule_ok r \<Longrightarrow> line_ok (rule_line c r)"
    using line_ok_append [of "lit ''-A '' @ c @ [32]" r] by (auto simp: rule_line_def rule_ok_def line_ok_def)
qed

lemma rule_line_prefix: "prefix (lit ''-A'') (rule_line c r)"
proof -
  have "lit ''-A '' = lit ''-A'' @ [32]" by code_simp
  then show ?thesis by (simp add: rule_line_def)
qed

lemma reject_default_ok: "d \<in> set reject_defaults \<Longrightarrow> rule_ok d \<and> 10 \<notin> set d"
proof -
  have "list_all (\<lambda>d. rule_ok d \<and> 10 \<notin> set d) reject_defaults" by code_simp
  then show "d \<in> set reject_defaults \<Longrightarrow> rule_ok d \<and> 10 \<notin> set d" by (auto simp: list_all_iff)
qed

text \<open>Whatever is printed for a rule is a line about some rule, which is the given one unless
  that rule rejects.\<close>

lemma prints_rule_line:
  assumes "prints_rule c r l" "rule_ok r"
  obtains q where "l = rule_line c q" "rule_ok q" "q = r \<or> 82 \<in> set r \<and> 82 \<in> set q"
proof (cases "l = rule_line c r")
  case True
  then show ?thesis using that assms(2) by blast
next
  case False
  then obtain d where d: "suffix (lit ''-j REJECT'') r" "d \<in> set reject_defaults" "l = rule_line c (r @ d)"
    using assms(1) by (auto simp: prints_rule_def)
  have "82 \<in> set (lit ''-j REJECT'')" by code_simp
  then have "82 \<in> set r" using d(1) by (auto simp: suffix_def)
  moreover have "line_ok (r @ d)"
    using assms(2) reject_default_ok [OF d(2)] by (intro line_ok_append) (auto simp: rule_ok_def line_ok_def)
  then have "rule_ok (r @ d)" using reject_default_ok [OF d(2)] by (simp add: rule_ok_def)
  ultimately show ?thesis using that [of "r @ d"] d(3) by simp
qed

lemma listing_lines:
  assumes "is_listing c rs text" "line_ok c" "list_all rule_ok rs"
  obtains h ls where "str_lines text = h # ls" "\<not> prefix (lit ''-A'') h" "list_all2 (prints_rule c) rs ls"
proof -
  obtain h ls where h: "line_ok h" "\<not> prefix (lit ''-A'') h" "list_all2 (prints_rule c) rs ls"
      "text = str_join [10] (h # ls) @ [10]"
    using assms(1) by (auto simp: is_listing_def)
  have "list_all line_ok ls"
    using h(3) assms(3)
  proof (induction rs ls rule: list_all2_induct)
    case (Cons r rs l ls)
    obtain q where "l = rule_line c q" "rule_ok q"
      using prints_rule_line [OF Cons.hyps(1)] Cons.prems by auto
    then show ?case using Cons rule_line_ok [OF assms(2)] by simp
  qed simp
  then have "list_all line_ok (h # ls)" using h(1) by simp
  then have "str_lines text = h # ls"
    using h(4) str_lines_join by blast
  with h(2,3) show ?thesis using that by blast
qed

lemma chain_rule_count_listing:
  assumes "is_listing c rs text" "line_ok c" "list_all rule_ok rs"
  shows "chain_rule_count text c = length rs"
proof -
  obtain h ls where h: "str_lines text = h # ls" "\<not> prefix (lit ''-A'') h" "list_all2 (prints_rule c) rs ls"
    using assms by (rule listing_lines)
  have e: "lit '' '' = [32]" by code_simp
  have a: "lit ''-A '' = lit ''-A'' @ [32]" by code_simp
  have "\<not> prefix (lit ''-A '' @ c @ [32]) h" using h(2) a append_prefixD by (metis append_assoc)
  moreover have "filter (prefix (lit ''-A '' @ c @ [32])) ls = ls" if "list_all2 (prints_rule c) rs ls" for ls
    using that by (induction rs ls rule: list_all2_induct) (auto simp: prints_rule_def rule_line_def)
  ultimately show ?thesis using h(3) by (simp add: chain_rule_count_def Let_def e h(1) list_all2_lengthD)
qed

lemma positions_Nil_iff: "positions p i xs = [] \<longleftrightarrow> (\<forall>x \<in> set xs. \<not> p x)"
  by (induction xs arbitrary: i) auto

lemma positions_list_all2:
  "list_all2 (\<lambda>x y. p x = q y) xs ys \<Longrightarrow> positions p i xs = positions q i ys"
  by (induction xs ys arbitrary: i rule: list_all2_induct) auto

lemma exact_jump_positions_listing:
  assumes "is_listing INPUT rs text" "list_all rule_ok rs" "managed c"
  shows "exact_jump_positions text c = positions (\<lambda>r. r = jump_to c) 1 rs"
proof -
  obtain h ls where h: "str_lines text = h # ls" "\<not> prefix (lit ''-A'') h" "list_all2 (prints_rule INPUT) rs ls"
    using assms(1) INPUT_line_ok assms(2) by (rule listing_lines)
  have e: "lit ''-A INPUT '' = lit ''-A '' @ INPUT @ [32]" "lit ''-A INPUT -j '' = lit ''-A '' @ INPUT @ [32] @ lit ''-j ''"
    "lit ''-A '' = lit ''-A'' @ [32]" "lit ''-A '' = 45 # lit ''A ''" "\<not> is_whitespace 45"
    by code_simp+
  have "82 \<notin> set (jump_to KIDOBO_CHAIN_NAME)" "82 \<notin> set (jump_to KIDOBO_STAGING_CHAIN_NAME)" by code_simp+
  then have R: "82 \<notin> set (jump_to c)" using assms(3) by (auto simp: managed_def)
  have n: "\<not> prefix (lit ''-A INPUT '') h"
    using h(2) unfolding e(1) unfolding e(3) by (metis append_assoc append_prefixD)
  have p: "filter (prefix (lit ''-A INPUT '')) ls = ls" if "list_all2 (prints_rule INPUT) rs ls" for ls
    using that by (induction rs ls rule: list_all2_induct) (auto simp: prints_rule_def rule_line_def e(1))
  have line: "(trim (rule_line INPUT q) = lit ''-A INPUT -j '' @ c) = (q = jump_to c)" if "rule_ok q" for q
  proof -
    have "trim (rule_line INPUT q) = rule_line INPUT q"
      using that by (intro trim_fixed) (simp add: rule_line_def rule_ok_def e(4,5))
    then show ?thesis by (simp add: rule_line_def e(2) jump_to_def)
  qed
  have "list_all2 (\<lambda>r l. (r = jump_to c) = (trim l = lit ''-A INPUT -j '' @ c)) rs ls"
    using h(3) assms(2)
  proof (induction rs ls rule: list_all2_induct)
    case (Cons r rs l ls)
    obtain q where "l = rule_line INPUT q" "rule_ok q" "q = r \<or> 82 \<in> set r \<and> 82 \<in> set q"
      using prints_rule_line [OF Cons.hyps(1)] Cons.prems by auto
    then have "(r = jump_to c) = (trim l = lit ''-A INPUT -j '' @ c)" using line R by auto
    with Cons show ?case by simp
  qed simp
  then have "positions (\<lambda>l. trim l = lit ''-A INPUT -j '' @ c) 1 ls = positions (\<lambda>r. r = jump_to c) 1 rs"
    using positions_list_all2 by metis
  with n p [OF h(3)] show ?thesis
    by (simp add: exact_jump_positions_def Let_def h(1) del: One_nat_def)
qed

section \<open>Assertions on the managed part of the rules\<close>

text \<open>\<open>mk R0 i st sg\<close>: the rules \<open>R0\<close> with the INPUT chain, the stable chain and the staging
  chain replaced.\<close>

definition mk :: "ruleset \<Rightarrow> rstr list \<Rightarrow> rstr list option \<Rightarrow> rstr list option \<Rightarrow> ruleset" where
  "mk R0 i st sg = R0(INPUT \<mapsto> i, KIDOBO_CHAIN_NAME := st, KIDOBO_STAGING_CHAIN_NAME := sg)"

type_synonym fw_assn = "rstr list \<Rightarrow> rstr list option \<Rightarrow> rstr list option \<Rightarrow> bool"

definition holds :: "('s \<Rightarrow> ruleset) \<Rightarrow> ruleset \<Rightarrow> fw_assn \<Rightarrow> 's \<Rightarrow> bool" where
  "holds view R0 \<phi> s \<longleftrightarrow> (\<exists>i st sg. view s = mk R0 i st sg \<and> \<phi> i st sg)"

definition from_command :: "firewall_error \<Rightarrow> bool" where
  "from_command e \<longleftrightarrow> (case e of UnexpectedInputWiring _ _ _ \<Rightarrow> False | _ \<Rightarrow> True)"

lemma from_command_simps [simp]:
  "from_command (CommandExecution e)" "from_command (CommandFailed c st t)"
  "\<not> from_command (UnexpectedInputWiring f a b)"
  by (simp_all add: from_command_def)

lemma mk_simps [simp]:
  "mk R0 i st sg INPUT = Some i" "mk R0 i st sg KIDOBO_CHAIN_NAME = st"
  "mk R0 i st sg KIDOBO_STAGING_CHAIN_NAME = sg"
  "(mk R0 i st sg)(INPUT \<mapsto> i') = mk R0 i' st sg"
  "(mk R0 i st sg)(KIDOBO_CHAIN_NAME := st') = mk R0 i st' sg"
  "(mk R0 i st sg)(KIDOBO_STAGING_CHAIN_NAME := sg') = mk R0 i st sg'"
  by (simp_all add: mk_def fun_eq_iff)

lemma mk_self: "R INPUT = Some i \<Longrightarrow> mk R i (R KIDOBO_CHAIN_NAME) (R KIDOBO_STAGING_CHAIN_NAME) = R"
  by (auto simp: mk_def fun_eq_iff)

lemma mk_unmanaged: "\<not> managed c \<Longrightarrow> c \<noteq> INPUT \<Longrightarrow> mk R0 i st sg c = R0 c"
  by (simp add: mk_def managed_def)

lemma enforcing_mk [simp]: "enforcing (mk R0 i st sg) = in_force i st sg"
  by (simp add: enforcing_def)

lemma holds_mono: "holds view R0 \<phi> s \<Longrightarrow> (\<And>i st sg. \<phi> i st sg \<Longrightarrow> \<psi> i st sg) \<Longrightarrow> holds view R0 \<psi> s"
  unfolding holds_def by blast

text \<open>The effects of the commands.\<close>

lemma op_names [simp]:
  "lit ''-S'' \<noteq> lit ''-N''" "lit ''-F'' \<noteq> lit ''-N''" "lit ''-F'' \<noteq> lit ''-S''"
  "lit ''-X'' \<noteq> lit ''-N''" "lit ''-X'' \<noteq> lit ''-S''" "lit ''-X'' \<noteq> lit ''-F''"
  "lit ''-A'' \<noteq> lit ''-N''" "lit ''-A'' \<noteq> lit ''-S''" "lit ''-A'' \<noteq> lit ''-F''" "lit ''-A'' \<noteq> lit ''-X''"
  "lit ''-I'' \<noteq> lit ''-N''" "lit ''-I'' \<noteq> lit ''-S''" "lit ''-I'' \<noteq> lit ''-F''" "lit ''-I'' \<noteq> lit ''-X''"
  "lit ''-I'' \<noteq> lit ''-A''" "lit ''-D'' \<noteq> lit ''-N''" "lit ''-D'' \<noteq> lit ''-S''"
  "lit ''-D'' \<noteq> lit ''-F''" "lit ''-D'' \<noteq> lit ''-X''" "lit ''-D'' \<noteq> lit ''-A''" "lit ''-D'' \<noteq> lit ''-I''"
  by code_simp+

lemma join_jump: "str_join [32] [lit ''-j'', c] = jump_to c"
proof -
  have "lit ''-j '' = lit ''-j'' @ [32]" by code_simp
  then show ?thesis by (simp add: jump_to_def)
qed

lemma join_match:
  "str_join [32] [lit ''-m'', lit ''set'', lit ''--match-set'', set_nm, lit ''src'', lit ''-j'', t]
     = lit ''-m set --match-set '' @ set_nm @ lit '' src -j '' @ t"
proof -
  have "lit ''-m set --match-set '' = lit ''-m'' @ [32] @ lit ''set'' @ [32] @ lit ''--match-set'' @ [32]"
    "lit '' src -j '' = [32] @ lit ''src'' @ [32] @ lit ''-j'' @ [32]"
    by code_simp+
  then show ?thesis by simp
qed

lemma effect_simps:
  "fw_effect [lit ''-S''] R = Some R"
  "fw_effect [lit ''-S'', c] R = (if R c = None then None else Some R)"
  "fw_effect [lit ''-N'', c] R = (if R c = None then Some (R(c \<mapsto> [])) else None)"
  "fw_effect [lit ''-F'', c] R = (if R c = None then None else Some (R(c \<mapsto> [])))"
  "fw_effect [lit ''-X'', c] R = (if R c = Some [] then Some (R(c := None)) else None)"
  by (auto simp: fw_effect_def split: option.split)

lemma effect_rule_simps:
  "R c = Some rs \<Longrightarrow> fw_effect [lit ''-A'', c, lit ''-j'', t] R = Some (R(c \<mapsto> rs @ [jump_to t]))"
  "R c = Some rs \<Longrightarrow> fw_effect [lit ''-A'', c, lit ''-m'', lit ''set'', lit ''--match-set'', set_nm,
      lit ''src'', lit ''-j'', as_target action] R = Some (R(c \<mapsto> rs @ [match_rule set_nm action]))"
  "R c = Some rs \<Longrightarrow> fw_effect [lit ''-D'', c, lit ''1''] R = (if rs = [] then None else Some (R(c \<mapsto> tl rs)))"
  "R c = Some rs \<Longrightarrow> fw_effect [lit ''-D'', c, lit ''-j'', t] R
      = (if jump_to t \<in> set rs then Some (R(c \<mapsto> remove1 (jump_to t) rs)) else None)"
  "R c = Some rs \<Longrightarrow> fw_effect [lit ''-I'', c, lit ''1'', lit ''-j'', t] R = Some (R(c \<mapsto> jump_to t # rs))"
  using join_jump [of t] join_match [of set_nm "as_target action"]
  by (simp_all add: fw_effect_def match_rule_def del: str_join.simps)

section \<open>One command\<close>

lemma fw_run_eq: "fw_run runner command args s = (case runner command args s of
    (Inl e, s') \<Rightarrow> Some (Inl (CommandExecution e), s') | (Inr x, s') \<Rightarrow> Some (Inr x, s'))"
  by (auto simp: fw_run_def d_map_err_def d_lift_def split: prod.split sum.split)

lemma run_checked_eq: "run_checked runner command args s = (case runner command (with_lock_wait args) s of
    (Inl e, s') \<Rightarrow> Some (Inl (CommandExecution e), s')
  | (Inr x, s') \<Rightarrow> Some (if status_success (cr_status x) then Inr x
       else Inl (CommandFailed (display_command command (with_lock_wait args)) (cr_status x) (cr_stderr x)), s'))"
  by (auto simp: run_checked_def d_bind_def d_res_def fw_run_eq ensure_command_succeeded_def Let_def
      split: prod.split sum.split)

lemma run_checked_allow_eq:
  "run_checked_allow_missing_chain runner command args s = (case runner command (with_lock_wait args) s of
    (Inl e, s') \<Rightarrow> Some (Inl (CommandExecution e), s')
  | (Inr x, s') \<Rightarrow> Some (if status_success (cr_status x) \<or> is_missing_chain_result x then Inr ()
       else Inl (CommandFailed (display_command command (with_lock_wait args)) (cr_status x) (cr_stderr x)), s'))"
  by (auto simp: run_checked_allow_missing_chain_def d_bind_def d_ok_def d_err_def fw_run_eq Let_def
      split: prod.split sum.split)

text \<open>What the law says of the state after a command.\<close>

lemma law_step:
  assumes "iptables_law runner view bin" "kidobo_command args"
    "runner bin (with_lock_wait args) s = (r, s')" "holds view R0 \<phi> s"
    and eff: "\<And>i st sg R. \<phi> i st sg \<Longrightarrow> fw_effect args (mk R0 i st sg) = Some R
      \<Longrightarrow> \<exists>i' st' sg'. R = mk R0 i' st' sg' \<and> \<psi> i' st' sg'"
    and err: "\<And>i st sg. \<phi> i st sg \<Longrightarrow> E i st sg" "\<And>i st sg. \<psi> i st sg \<Longrightarrow> E i st sg"
  shows "holds view R0 E s'"
    "r = Inr res \<Longrightarrow> status_success (cr_status res) \<Longrightarrow> holds view R0 \<psi> s'"
proof -
  obtain i st sg where v: "view s = mk R0 i st sg" "\<phi> i st sg"
    using assms(4) unfolding holds_def by blast
  have L: "view s' = view s \<or> fw_effect args (view s) = Some (view s')"
    "\<And>res. r = Inr res \<Longrightarrow> status_success (cr_status res) \<Longrightarrow> fw_effect args (view s) = Some (view s')"
    using assms(1-3) unfolding iptables_law_def by blast+
  have post: "holds view R0 \<psi> s'" if "fw_effect args (view s) = Some (view s')"
    using eff [OF v(2)] that v(1) unfolding holds_def by simp
  then show "r = Inr res \<Longrightarrow> status_success (cr_status res) \<Longrightarrow> holds view R0 \<psi> s'" using L(2) by blast
  show "holds view R0 E s'"
    using L(1)
  proof
    assume "view s' = view s"
    then show ?thesis using v err(1) unfolding holds_def by metis
  next
    assume "fw_effect args (view s) = Some (view s')"
    then show ?thesis using post err(2) holds_mono by metis
  qed
qed

abbreviation fw_fails :: "('s \<Rightarrow> ruleset) \<Rightarrow> ruleset \<Rightarrow> fw_assn \<Rightarrow> firewall_error \<Rightarrow> 's \<Rightarrow> bool" where
  "fw_fails view R0 E e s \<equiv> from_command e \<and> holds view R0 E s"

lemma run_checked_returns:
  assumes law: "iptables_law runner view bin" and cmd: "kidobo_command args"
    and eff: "\<And>i st sg R. \<phi> i st sg \<Longrightarrow> fw_effect args (mk R0 i st sg) = Some R
      \<Longrightarrow> \<exists>i' st' sg'. R = mk R0 i' st' sg' \<and> \<psi> i' st' sg'"
    and err: "\<And>i st sg. \<phi> i st sg \<Longrightarrow> E i st sg" "\<And>i st sg. \<psi> i st sg \<Longrightarrow> E i st sg"
  shows "returns (holds view R0 \<phi>) (run_checked runner bin args) (\<lambda>_. holds view R0 \<psi>) (fw_fails view R0 E)"
proof (rule returnsI)
  fix s assume s: "holds view R0 \<phi> s"
  obtain r s' where r: "runner bin (with_lock_wait args) s = (r, s')" by fastforce
  have "holds view R0 E s'" "\<And>res. r = Inr res \<Longrightarrow> status_success (cr_status res) \<Longrightarrow> holds view R0 \<psi> s'"
    using law_step [OF law cmd r s, of \<psi> E] eff err by blast+
  then show "\<exists>r s'. run_checked runner bin args s = Some (r, s') \<and> (case r of
      Inl e \<Rightarrow> fw_fails view R0 E e s' | Inr x \<Rightarrow> holds view R0 \<psi> s')"
    by (cases r) (auto simp: run_checked_eq r)
qed

lemma allow_missing_returns:
  assumes law: "iptables_law runner view bin" and cmd: "kidobo_command [op, c]"
    and op: "op \<in> {lit ''-S'', lit ''-F'', lit ''-X''}"
    and eff: "\<And>i st sg R. \<phi> i st sg \<Longrightarrow> fw_effect [op, c] (mk R0 i st sg) = Some R
      \<Longrightarrow> \<exists>i' st' sg'. R = mk R0 i' st' sg' \<and> \<psi> i' st' sg'"
    and absent: "\<And>i st sg. \<phi> i st sg \<Longrightarrow> mk R0 i st sg c = None \<Longrightarrow> \<psi> i st sg"
    and err: "\<And>i st sg. \<phi> i st sg \<Longrightarrow> E i st sg" "\<And>i st sg. \<psi> i st sg \<Longrightarrow> E i st sg"
  shows "returns (holds view R0 \<phi>) (run_checked_allow_missing_chain runner bin [op, c])
    (\<lambda>_. holds view R0 \<psi>) (fw_fails view R0 E)"
proof (rule returnsI)
  fix s assume s: "holds view R0 \<phi> s"
  obtain r s' where r: "runner bin (with_lock_wait [op, c]) s = (r, s')" by fastforce
  have 1: "holds view R0 E s'" "\<And>res. r = Inr res \<Longrightarrow> status_success (cr_status res) \<Longrightarrow> holds view R0 \<psi> s'"
    using law_step [OF law cmd r s, of \<psi> E] eff err by blast+
  have "holds view R0 \<psi> s'" if "r = Inr res" "is_missing_chain_result res" for res
  proof -
    have "view s c = None" "view s' = view s"
      using law cmd r op that unfolding iptables_law_def by blast+
    then show ?thesis using s absent unfolding holds_def by metis
  qed
  with 1 show "\<exists>r s'. run_checked_allow_missing_chain runner bin [op, c] s = Some (r, s') \<and> (case r of
      Inl e \<Rightarrow> fw_fails view R0 E e s' | Inr x \<Rightarrow> holds view R0 \<psi> s')"
    by (cases r) (auto simp: run_checked_allow_eq r)
qed

lemma list_chain_returns:
  assumes law: "iptables_law runner view bin" and c: "managed c \<or> c = INPUT"
    and err: "\<And>i st sg. \<phi> i st sg \<Longrightarrow> E i st sg"
  shows "returns (holds view R0 \<phi>) (run_checked runner bin [lit ''-S'', c])
    (\<lambda>res s. \<exists>rs. is_listing c rs (cr_stdout res)
        \<and> holds view R0 (\<lambda>i st sg. \<phi> i st sg \<and> mk R0 i st sg c = Some rs) s)
    (fw_fails view R0 E)"
proof (rule returnsI)
  fix s assume s: "holds view R0 \<phi> s"
  have cmd: "kidobo_command [lit ''-S'', c]" using c by (auto simp: kidobo_command_def)
  obtain r s' where r: "runner bin (with_lock_wait [lit ''-S'', c]) s = (r, s')" by fastforce
  obtain i st sg where v: "view s = mk R0 i st sg" "\<phi> i st sg" using s unfolding holds_def by blast
  have L: "view s' = view s \<or> fw_effect [lit ''-S'', c] (view s) = Some (view s')"
    "\<And>res. r = Inr res \<Longrightarrow> status_success (cr_status res) \<Longrightarrow>
       fw_effect [lit ''-S'', c] (view s) = Some (view s') \<and> reports [lit ''-S'', c] (view s) (cr_stdout res)"
    using law cmd r unfolding iptables_law_def by blast+
  then have same: "view s' = view s" by (auto simp: effect_simps split: if_splits)
  have "\<exists>rs. is_listing c rs (cr_stdout res) \<and> holds view R0 (\<lambda>i st sg. \<phi> i st sg \<and> mk R0 i st sg c = Some rs) s'"
    if ok: "r = Inr res" "status_success (cr_status res)" for res
  proof -
    obtain rs where rs: "view s c = Some rs"
      using L(2) [OF ok] by (auto simp: effect_simps split: if_splits)
    then have "is_listing c rs (cr_stdout res)" using L(2) [OF ok] by (simp add: reports_def)
    then show ?thesis using v rs same unfolding holds_def by metis
  qed
  moreover have "holds view R0 E s'" using v same err unfolding holds_def by metis
  ultimately show "\<exists>r s'. run_checked runner bin [lit ''-S'', c] s = Some (r, s') \<and> (case r of
      Inl e \<Rightarrow> fw_fails view R0 E e s'
    | Inr res \<Rightarrow> \<exists>rs. is_listing c rs (cr_stdout res)
        \<and> holds view R0 (\<lambda>i st sg. \<phi> i st sg \<and> mk R0 i st sg c = Some rs) s')"
    by (cases r) (auto simp: run_checked_eq r)
qed

lemma declared_in_line: "managed c \<Longrightarrow> lit ''-N '' @ c \<in> set (str_lines text) \<Longrightarrow> declared_in text c"
proof -
  have "split_whitespace (lit ''-N '' @ KIDOBO_CHAIN_NAME) = [lit ''-N'', KIDOBO_CHAIN_NAME]"
    "split_whitespace (lit ''-N '' @ KIDOBO_STAGING_CHAIN_NAME) = [lit ''-N'', KIDOBO_STAGING_CHAIN_NAME]"
    by code_simp+
  then have "split_whitespace (lit ''-N '' @ c) = [lit ''-N'', c]" if "managed c"
    using that unfolding managed_def by blast
  then show "managed c \<Longrightarrow> lit ''-N '' @ c \<in> set (str_lines text) \<Longrightarrow> declared_in text c"
    unfolding declared_in_def list_ex_iff by (intro bexI [of _ "lit ''-N '' @ c"]) simp_all
qed

lemma full_listing_returns:
  assumes law: "iptables_law runner view bin" and c: "managed c"
    and err: "\<And>i st sg. \<phi> i st sg \<Longrightarrow> E i st sg"
  shows "returns (holds view R0 \<phi>) (run_checked runner bin [lit ''-S''])
    (\<lambda>res s. (\<not> declared_in (cr_stdout res) c \<longrightarrow> holds view R0 (\<lambda>i st sg. \<phi> i st sg \<and> mk R0 i st sg c = None) s)
        \<and> holds view R0 \<phi> s)
    (fw_fails view R0 E)"
proof (rule returnsI)
  fix s assume s: "holds view R0 \<phi> s"
  have cmd: "kidobo_command [lit ''-S'']" by (simp add: kidobo_command_def)
  obtain r s' where r: "runner bin (with_lock_wait [lit ''-S'']) s = (r, s')" by fastforce
  obtain i st sg where v: "view s = mk R0 i st sg" "\<phi> i st sg" using s unfolding holds_def by blast
  have L: "view s' = view s \<or> fw_effect [lit ''-S''] (view s) = Some (view s')"
    "\<And>res. r = Inr res \<Longrightarrow> status_success (cr_status res) \<Longrightarrow> reports [lit ''-S''] (view s) (cr_stdout res)"
    using law cmd r unfolding iptables_law_def by blast+
  then have same: "view s' = view s" by (auto simp: effect_simps)
  have "holds view R0 (\<lambda>i st sg. \<phi> i st sg \<and> mk R0 i st sg c = None) s'"
    if "r = Inr res" "status_success (cr_status res)" "\<not> declared_in (cr_stdout res) c" for res
  proof -
    have "view s c = None"
      using L(2) [OF that(1,2)] that(3) c declared_in_line unfolding reports_def by blast
    then show ?thesis using v same unfolding holds_def by metis
  qed
  moreover have "holds view R0 E s'" "holds view R0 \<phi> s'" using v same err unfolding holds_def by metis+
  ultimately show "\<exists>r s'. run_checked runner bin [lit ''-S''] s = Some (r, s') \<and> (case r of
      Inl e \<Rightarrow> fw_fails view R0 E e s'
    | Inr res \<Rightarrow> (\<not> declared_in (cr_stdout res) c \<longrightarrow> holds view R0 (\<lambda>i st sg. \<phi> i st sg \<and> mk R0 i st sg c = None) s')
        \<and> holds view R0 \<phi> s')"
    by (cases r) (auto simp: run_checked_eq r)
qed

section \<open>The operations\<close>

lemma inspect_chain_returns:
  assumes law: "iptables_law runner view bin" and c: "managed c"
    and err: "\<And>i st sg. \<phi> i st sg \<Longrightarrow> E i st sg"
  shows "returns (holds view R0 \<phi>) (fw_run runner bin (with_lock_wait [lit ''-S'', c]))
    (\<lambda>res s. holds view R0 \<phi> s
      \<and> (status_success (cr_status res) \<longrightarrow> holds view R0 (\<lambda>i st sg. \<phi> i st sg \<and> mk R0 i st sg c \<noteq> None) s)
      \<and> (is_missing_chain_result res \<longrightarrow> holds view R0 (\<lambda>i st sg. \<phi> i st sg \<and> mk R0 i st sg c = None) s))
    (fw_fails view R0 E)"
proof (rule returnsI)
  fix s assume s: "holds view R0 \<phi> s"
  let ?a = "[lit ''-S'', c]"
  have cmd: "kidobo_command ?a" using c by (auto simp: kidobo_command_def)
  obtain r s' where r: "runner bin (with_lock_wait ?a) s = (r, s')" by fastforce
  obtain i st sg where v: "view s = mk R0 i st sg" "\<phi> i st sg" using s unfolding holds_def by blast
  have L: "view s' = view s \<or> fw_effect ?a (view s) = Some (view s')"
    "\<And>res. r = Inr res \<Longrightarrow> status_success (cr_status res) \<Longrightarrow> fw_effect ?a (view s) = Some (view s')"
    "\<And>res. r = Inr res \<Longrightarrow> is_missing_chain_result res \<Longrightarrow> view s c = None"
    using law cmd r unfolding iptables_law_def by blast+
  then have v': "view s' = mk R0 i st sg" using v(1) by (auto simp: effect_simps split: if_splits)
  have H: "holds view R0 \<psi> s'" if "\<psi> i st sg" for \<psi> using that v' unfolding holds_def by blast
  have yes: "mk R0 i st sg c \<noteq> None" if "r = Inr res" "status_success (cr_status res)" for res
    using L(2) [OF that] v(1) by (auto simp: effect_simps split: if_splits)
  have no: "mk R0 i st sg c = None" if "r = Inr res" "is_missing_chain_result res" for res
    using L(3) [OF that] v(1) by simp
  show "\<exists>r s'. fw_run runner bin (with_lock_wait ?a) s = Some (r, s') \<and> (case r of
      Inl e \<Rightarrow> fw_fails view R0 E e s'
    | Inr res \<Rightarrow> holds view R0 \<phi> s'
      \<and> (status_success (cr_status res) \<longrightarrow> holds view R0 (\<lambda>i st sg. \<phi> i st sg \<and> mk R0 i st sg c \<noteq> None) s')
      \<and> (is_missing_chain_result res \<longrightarrow> holds view R0 (\<lambda>i st sg. \<phi> i st sg \<and> mk R0 i st sg c = None) s'))"
  proof (cases r)
    case (Inl e)
    then show ?thesis using H [of E] err [OF v(2)] by (simp add: fw_run_eq r)
  next
    case (Inr x)
    then show ?thesis
      using H [of \<phi>] yes [OF Inr] no [OF Inr] v(2) by (auto simp: fw_run_eq r intro!: H)
  qed
qed

lemma chain_exists_returns:
  assumes law: "iptables_law runner view (binary fam)" and c: "managed c"
    and err: "\<And>i st sg. \<phi> i st sg \<Longrightarrow> E i st sg"
  shows "returns (holds view R0 \<phi>) (chain_exists runner fam c)
    (\<lambda>b. holds view R0 (\<lambda>i st sg. \<phi> i st sg \<and> (b \<longleftrightarrow> mk R0 i st sg c \<noteq> None)))
    (fw_fails view R0 E)"
proof -
  let ?Q = "\<lambda>b. holds view R0 (\<lambda>i st sg. \<phi> i st sg \<and> (b \<longleftrightarrow> mk R0 i st sg c \<noteq> None))"
  let ?F = "fw_fails view R0 E"
  have E: "holds view R0 \<phi> s \<Longrightarrow> holds view R0 E s" for s using err by (auto elim: holds_mono)
  have inspect: "returns (holds view R0 \<phi>) (fw_run runner (binary fam) (with_lock_wait [lit ''-S'', c]))
      (\<lambda>res s. holds view R0 \<phi> s
        \<and> (status_success (cr_status res) \<longrightarrow> holds view R0 (\<lambda>i st sg. \<phi> i st sg \<and> mk R0 i st sg c \<noteq> None) s)
        \<and> (is_missing_chain_result res \<longrightarrow> holds view R0 (\<lambda>i st sg. \<phi> i st sg \<and> mk R0 i st sg c = None) s)) ?F"
    by (rule inspect_chain_returns [OF law c]) (rule err)
  have full: "returns (holds view R0 \<phi>) (run_checked runner (binary fam) [lit ''-S''])
      (\<lambda>res s. (\<not> declared_in (cr_stdout res) c \<longrightarrow> holds view R0 (\<lambda>i st sg. \<phi> i st sg \<and> mk R0 i st sg c = None) s)
        \<and> holds view R0 \<phi> s) ?F"
    by (rule full_listing_returns [OF law c]) (rule err)
  show ?thesis
    unfolding chain_exists_def Let_def
    by (rule returns_bind [OF inspect], intro returns_if returns_pre [OF _ returns_bind [OF full]])
      (auto intro!: returns_ok returns_err E elim: holds_mono)
qed

lemma ensure_chain_returns:
  assumes law: "iptables_law runner view (binary fam)" and c: "managed c"
    and present: "\<And>i st sg. \<phi> i st sg \<Longrightarrow> mk R0 i st sg c \<noteq> None \<Longrightarrow> \<psi> i st sg"
    and absent: "\<And>i st sg. \<phi> i st sg \<Longrightarrow> mk R0 i st sg c = None
      \<Longrightarrow> \<exists>i' st' sg'. (mk R0 i st sg)(c \<mapsto> []) = mk R0 i' st' sg' \<and> \<psi> i' st' sg'"
    and err: "\<And>i st sg. \<phi> i st sg \<Longrightarrow> E i st sg" "\<And>i st sg. \<psi> i st sg \<Longrightarrow> E i st sg"
  shows "returns (holds view R0 \<phi>) (ensure_chain_exists runner fam c) (\<lambda>_. holds view R0 \<psi>) (fw_fails view R0 E)"
  unfolding ensure_chain_exists_def
proof (rule returns_bind [OF chain_exists_returns [OF law c]])
  show "\<And>i st sg. \<phi> i st sg \<Longrightarrow> E i st sg" by (rule err)
  fix b
  show "returns (holds view R0 (\<lambda>i st sg. \<phi> i st sg \<and> (b \<longleftrightarrow> mk R0 i st sg c \<noteq> None)))
      (if b then d_ok () else d_bind (run_checked runner (binary fam) [lit ''-N'', c]) (\<lambda>_. d_ok ()))
      (\<lambda>_. holds view R0 \<psi>) (fw_fails view R0 E)"
  proof (cases b)
    case True
    then show ?thesis using present by (auto intro!: returns_ok elim!: holds_mono)
  next
    case False
    have "kidobo_command [lit ''-N'', c]" using c by (auto simp: kidobo_command_def)
    with False show ?thesis
      using absent err by (auto simp: effect_simps split: if_splits
          intro!: returns_bind [OF run_checked_returns [OF law, where \<psi> = \<psi> and E = E]] returns_ok)
  qed
qed

text \<open>The removal loop ends: every round shortens the INPUT chain.\<close>

lemma remove_all_unfold:
  "remove_all_input_jumps_for_chain runner fam c =
     d_bind (run_checked runner (binary fam) [lit ''-S'', lit ''INPUT'']) (\<lambda>inp.
       if exact_jump_positions (cr_stdout inp) c = [] then d_ok ()
       else d_bind (run_checked runner (binary fam) [lit ''-D'', lit ''INPUT'', lit ''-j'', c])
         (\<lambda>_. remove_all_input_jumps_for_chain runner fam c))"
  by (rule ext, subst remove_all_input_jumps_for_chain.simps)
    (simp add: d_bind_def d_ok_def fw_run_eq run_checked_eq split: option.split sum.split prod.split)

lemma remove_all_returns:
  assumes law: "iptables_law runner view (binary fam)" and c: "managed c"
    and ok: "\<And>i st sg. \<phi> i st sg \<Longrightarrow> list_all rule_ok i"
    and removed: "\<And>i st sg. \<phi> i st sg \<Longrightarrow> jump_to c \<in> set i \<Longrightarrow> \<phi> (remove1 (jump_to c) i) st sg"
    and err: "\<And>i st sg. \<phi> i st sg \<Longrightarrow> E i st sg"
  shows "returns (holds view R0 \<phi>) (remove_all_input_jumps_for_chain runner fam c)
    (\<lambda>_. holds view R0 (\<lambda>i st sg. \<phi> i st sg \<and> jump_to c \<notin> set i)) (fw_fails view R0 E)"
proof -
  let ?m = "remove_all_input_jumps_for_chain runner fam c"
  let ?Q = "\<lambda>_. holds view R0 (\<lambda>i st sg. \<phi> i st sg \<and> jump_to c \<notin> set i)"
  have I: "lit ''INPUT'' = INPUT" by (simp add: INPUT_def)
  have "returns (holds view R0 (\<lambda>i st sg. \<phi> i st sg \<and> length i = n)) ?m ?Q (fw_fails view R0 E)" for n
  proof (induction n rule: less_induct)
    case (less n)
    let ?\<phi> = "\<lambda>i st sg. \<phi> i st sg \<and> length i = n"
    have list: "returns (holds view R0 ?\<phi>) (run_checked runner (binary fam) [lit ''-S'', INPUT])
        (\<lambda>res s. \<exists>rs. is_listing INPUT rs (cr_stdout res)
          \<and> holds view R0 (\<lambda>i st sg. ?\<phi> i st sg \<and> mk R0 i st sg INPUT = Some rs) s) (fw_fails view R0 E)"
      by (rule list_chain_returns [OF law]) (auto intro: err)
    have inspect: "returns (holds view R0 ?\<phi>) (run_checked runner (binary fam) [lit ''-S'', INPUT])
        (\<lambda>res. holds view R0 (\<lambda>i st sg. ?\<phi> i st sg
          \<and> (exact_jump_positions (cr_stdout res) c = [] \<longleftrightarrow> jump_to c \<notin> set i))) (fw_fails view R0 E)"
    proof (rule returns_weaken [OF list])
      fix res s
      assume "\<exists>rs. is_listing INPUT rs (cr_stdout res)
          \<and> holds view R0 (\<lambda>i st sg. ?\<phi> i st sg \<and> mk R0 i st sg INPUT = Some rs) s"
      then obtain i st sg where "is_listing INPUT i (cr_stdout res)" "view s = mk R0 i st sg" "?\<phi> i st sg"
        unfolding holds_def by auto
      moreover from this have "exact_jump_positions (cr_stdout res) c = [] \<longleftrightarrow> jump_to c \<notin> set i"
        using ok c by (auto simp: exact_jump_positions_listing positions_Nil_iff simp del: One_nat_def)
      ultimately show "holds view R0 (\<lambda>i st sg. ?\<phi> i st sg
          \<and> (exact_jump_positions (cr_stdout res) c = [] \<longleftrightarrow> jump_to c \<notin> set i)) s"
        unfolding holds_def by blast
    qed auto
    have cmd: "kidobo_command [lit ''-D'', INPUT, lit ''-j'', c]" using c by (auto simp: kidobo_command_def)
    have del: "returns (holds view R0 (\<lambda>i st sg. ?\<phi> i st sg \<and> jump_to c \<in> set i))
        (run_checked runner (binary fam) [lit ''-D'', INPUT, lit ''-j'', c])
        (\<lambda>_. holds view R0 (\<lambda>i st sg. \<phi> i st sg \<and> length i = n - 1 \<and> 0 < n)) (fw_fails view R0 E)"
    proof (rule run_checked_returns [OF law cmd])
      fix i st sg R
      assume a: "?\<phi> i st sg \<and> jump_to c \<in> set i" "fw_effect [lit ''-D'', INPUT, lit ''-j'', c] (mk R0 i st sg) = Some R"
      then have "R = mk R0 (remove1 (jump_to c) i) st sg" by (simp add: effect_rule_simps split: if_splits)
      moreover have "length (remove1 (jump_to c) i) = n - 1" "0 < n"
        using a by (auto simp: length_remove1)
      moreover have "\<phi> (remove1 (jump_to c) i) st sg" using a(1) removed by simp
      ultimately show "\<exists>i' st' sg'. R = mk R0 i' st' sg' \<and> \<phi> i' st' sg' \<and> length i' = n - 1 \<and> 0 < n"
        by blast
    qed (auto intro: err)
    have rec: "returns (holds view R0 (\<lambda>i st sg. \<phi> i st sg \<and> length i = n - 1 \<and> 0 < n)) ?m ?Q (fw_fails view R0 E)"
    proof (cases "0 < n")
      case True
      then show ?thesis using less [of "n - 1"] by simp
    next
      case False
      then show ?thesis by (simp add: returns_def holds_def)
    qed
    have branch: "returns (holds view R0 (\<lambda>i st sg. ?\<phi> i st sg \<and> (b \<longleftrightarrow> jump_to c \<notin> set i)))
        (if b then d_ok ()
         else d_bind (run_checked runner (binary fam) [lit ''-D'', INPUT, lit ''-j'', c]) (\<lambda>_. ?m))
        ?Q (fw_fails view R0 E)" for b
      by (intro returns_if returns_ok returns_pre [OF _ returns_bind [OF del rec]])
        (auto elim!: holds_mono)
    show ?case by (subst remove_all_unfold) (unfold I, rule returns_bind [OF inspect branch])
  qed
  then have "returns (\<lambda>s. \<exists>n. holds view R0 (\<lambda>i st sg. \<phi> i st sg \<and> length i = n) s) ?m ?Q (fw_fails view R0 E)"
    by (rule returns_ex)
  then show ?thesis by (rule returns_pre [rotated]) (simp add: holds_def)
qed

text \<open>Replacing the rules of a chain: the new rule goes in behind the old ones, which are then
  deleted from the front. \<open>A l\<close> says that the chain holds \<open>l\<close>.\<close>

lemma replace_rules_returns:
  assumes law: "iptables_law runner view bin" and c: "managed c" and cmd: "kidobo_command args"
    and content: "\<And>l i st sg. A l i st sg \<Longrightarrow> mk R0 i st sg c = Some l"
    and update: "\<And>l l' i st sg. A l i st sg \<Longrightarrow>
      \<exists>i' st' sg'. (mk R0 i st sg)(c \<mapsto> l') = mk R0 i' st' sg' \<and> A l' i' st' sg'"
    and appends: "\<And>R rs. R c = Some rs \<Longrightarrow> fw_effect args R = Some (R(c \<mapsto> rs @ [new]))"
    and old: "list_all rule_ok old"
    and err: "\<And>i st sg. A old i st sg \<Longrightarrow> E i st sg" "\<And>k i st sg. A (drop k old @ [new]) i st sg \<Longrightarrow> E i st sg"
  shows "returns (holds view R0 (A old))
    (d_bind (run_checked runner bin [lit ''-S'', c]) (\<lambda>current.
       d_bind (run_checked runner bin args) (\<lambda>_.
         d_repeat (chain_rule_count (cr_stdout current) c)
           (d_bind (run_checked runner bin [lit ''-D'', c, lit ''1'']) (\<lambda>_. d_ok ())))))
    (\<lambda>_. holds view R0 (A [new])) (fw_fails view R0 E)"
proof -
  have list: "returns (holds view R0 (A old)) (run_checked runner bin [lit ''-S'', c])
      (\<lambda>res s. \<exists>rs. is_listing c rs (cr_stdout res)
        \<and> holds view R0 (\<lambda>i st sg. A old i st sg \<and> mk R0 i st sg c = Some rs) s) (fw_fails view R0 E)"
    by (rule list_chain_returns [OF law]) (use c err in auto)
  have count: "returns (holds view R0 (A old)) (run_checked runner bin [lit ''-S'', c])
      (\<lambda>res s. chain_rule_count (cr_stdout res) c = length old \<and> holds view R0 (A old) s) (fw_fails view R0 E)"
  proof (rule returns_weaken [OF list])
    fix res s
    assume "\<exists>rs. is_listing c rs (cr_stdout res)
        \<and> holds view R0 (\<lambda>i st sg. A old i st sg \<and> mk R0 i st sg c = Some rs) s"
    then obtain rs where rs: "is_listing c rs (cr_stdout res)"
        "holds view R0 (\<lambda>i st sg. A old i st sg \<and> mk R0 i st sg c = Some rs) s" by blast
    then have "rs = old" using content unfolding holds_def by fastforce
    with rs old c show "chain_rule_count (cr_stdout res) c = length old \<and> holds view R0 (A old) s"
      using chain_rule_count_listing managed_line_ok by (auto elim: holds_mono)
  qed auto
  have add: "returns (holds view R0 (A old)) (run_checked runner bin args)
      (\<lambda>_. holds view R0 (A (old @ [new]))) (fw_fails view R0 E)"
  proof (rule run_checked_returns [OF law cmd])
    fix i st sg R assume a: "A old i st sg" "fw_effect args (mk R0 i st sg) = Some R"
    then have "R = (mk R0 i st sg)(c \<mapsto> old @ [new])" using appends [of "mk R0 i st sg" old] content [OF a(1)] by simp
    then show "\<exists>i' st' sg'. R = mk R0 i' st' sg' \<and> A (old @ [new]) i' st' sg'" using update [OF a(1)] by blast
  qed (use err(1) err(2) [of 0] in auto)
  have del: "returns (holds view R0 (A (drop k old @ [new])))
      (d_bind (run_checked runner bin [lit ''-D'', c, lit ''1'']) (\<lambda>_. d_ok ()))
      (\<lambda>_. holds view R0 (A (drop (Suc k) old @ [new]))) (fw_fails view R0 E)" if "k < length old" for k
  proof (rule returns_bind [OF run_checked_returns [OF law]])
    show "kidobo_command [lit ''-D'', c, lit ''1'']" using c by (auto simp: kidobo_command_def)
    fix i st sg R
    assume a: "A (drop k old @ [new]) i st sg" "fw_effect [lit ''-D'', c, lit ''1''] (mk R0 i st sg) = Some R"
    have "drop k old = old ! k # drop (Suc k) old" using that by (simp add: Cons_nth_drop_Suc)
    then have "R = (mk R0 i st sg)(c \<mapsto> drop (Suc k) old @ [new])"
      using effect_rule_simps(3) [of "mk R0 i st sg" c "drop k old @ [new]"] content [OF a(1)] a(2) by simp
    then show "\<exists>i' st' sg'. R = mk R0 i' st' sg' \<and> A (drop (Suc k) old @ [new]) i' st' sg'"
      using update [OF a(1)] by blast
  qed (use err(2) in \<open>auto intro: returns_ok\<close>)
  have loop: "returns (holds view R0 (A (old @ [new])))
      (d_repeat (length old) (d_bind (run_checked runner bin [lit ''-D'', c, lit ''1'']) (\<lambda>_. d_ok ())))
      (\<lambda>_. holds view R0 (A [new])) (fw_fails view R0 E)"
    using returns_repeat [where P = "\<lambda>k. holds view R0 (A (drop k old @ [new]))" and n = "length old", OF del]
    by simp
  have rest: "returns (\<lambda>s. chain_rule_count (cr_stdout res) c = length old \<and> holds view R0 (A old) s)
      (d_bind (run_checked runner bin args) (\<lambda>_.
         d_repeat (chain_rule_count (cr_stdout res) c)
           (d_bind (run_checked runner bin [lit ''-D'', c, lit ''1'']) (\<lambda>_. d_ok ()))))
      (\<lambda>_. holds view R0 (A [new])) (fw_fails view R0 E)" for res
  proof (cases "chain_rule_count (cr_stdout res) c = length old")
    case True
    then show ?thesis using returns_bind [OF add loop] by simp
  next
    case False
    then show ?thesis by (simp add: returns_def)
  qed
  show ?thesis by (rule returns_bind [OF count rest])
qed

text \<open>
  The wiring of one family from the rules \<open>R0\<close>. \<open>wired_error\<close> is what every failure leaves:
  the INPUT rules of others in their order, and enforcement in force if it was.
\<close>

definition chain_content :: "rstr list option \<Rightarrow> rstr list" where
  "chain_content c = (case c of None \<Rightarrow> [] | Some l \<Rightarrow> l)"

definition kept_rules :: "rstr list \<Rightarrow> rstr \<Rightarrow> rstr list \<Rightarrow> bool" where
  "kept_rules old new now \<longleftrightarrow> now = old \<or> (\<exists>k. now = drop k old @ [new])"

definition wired_error :: "rstr list \<Rightarrow> rstr list option \<Rightarrow> rstr list option \<Rightarrow> rstr \<Rightarrow> fw_assn" where
  "wired_error i0 st0 sg0 new i st sg \<longleftrightarrow>
     filter unmanaged_rule i = filter unmanaged_rule i0
     \<and> (in_force i0 st0 sg0 \<longrightarrow> in_force i st sg \<and> kept_rules (chain_content st0) new (chain_content st))"

lemma unmanaged_filter_simps [simp]:
  "filter unmanaged_rule (remove1 stable_jump i) = filter unmanaged_rule i"
  "filter unmanaged_rule (remove1 staging_jump i) = filter unmanaged_rule i"
  "\<not> unmanaged_rule stable_jump" "\<not> unmanaged_rule staging_jump"
  by (induction i) (auto simp: unmanaged_rule_def)

lemma filter_unmanaged_id: "stable_jump \<notin> set i \<Longrightarrow> staging_jump \<notin> set i \<Longrightarrow> filter unmanaged_rule i = i"
  by (auto simp: filter_id_conv unmanaged_rule_def)

lemma list_all_remove1: "list_all p xs \<Longrightarrow> list_all p (remove1 x xs)"
  by (induction xs) auto

lemma kept_rules_append [intro]: "kept_rules old new (drop k old @ [new])" "kept_rules old new [new]" "kept_rules old new old"
  unfolding kept_rules_def by (auto intro: exI [of _ "length old"])

lemma rule_jump_to: "jump_to KIDOBO_CHAIN_NAME = stable_jump" "jump_to KIDOBO_STAGING_CHAIN_NAME = staging_jump"
  by (simp_all add: stable_jump_def staging_jump_def)

lemma content_Some: "chain_content (Some l) = l"
  by (simp add: chain_content_def)

lemma in_force_content: "in_force i st sg \<Longrightarrow> l \<noteq> [] \<Longrightarrow> in_force i (Some l) sg"
  by (simp add: in_force_def)

lemma in_force_staging:
  "in_force i st (Some l) \<Longrightarrow> l' \<noteq> [] \<Longrightarrow> set l' \<subseteq> insert stable_jump (set l) \<Longrightarrow> in_force i st (Some l')"
  by (auto simp: in_force_def list_all_iff)

lemma in_force_old: "in_force i st sg \<Longrightarrow> chain_content st \<noteq> []"
  by (auto simp: in_force_def chain_content_def split: option.splits)

lemma in_force_old_staging: "in_force i st sg \<Longrightarrow> in_force i st (Some (chain_content sg))"
  by (auto simp: in_force_def chain_content_def split: option.splits)

lemma replace_stable_returns:
  assumes bin: "bin = binary fam" and law: "iptables_law runner view bin"
    and old: "list_all rule_ok old" "old = chain_content st0"
  shows "returns (holds view R0 (\<lambda>i st sg. i = i0 \<and> st = Some old \<and> sg = sg0))
    (replace_chain_rule_fail_closed runner fam KIDOBO_CHAIN_NAME set_nm (as_target action))
    (\<lambda>_. holds view R0 (\<lambda>i st sg. i = i0 \<and> st = Some [match_rule set_nm action] \<and> sg = sg0))
    (fw_fails view R0 (wired_error i0 st0 sg0 (match_rule set_nm action)))"
  unfolding replace_chain_rule_fail_closed_def Let_def bin [symmetric]
proof (rule replace_rules_returns [OF law, where A = "\<lambda>l i st sg. i = i0 \<and> st = Some l \<and> sg = sg0"])
  show "kidobo_command [lit ''-A'', KIDOBO_CHAIN_NAME, lit ''-m'', lit ''set'',
        lit ''--match-set'', set_nm, lit ''src'', lit ''-j'', as_target action]"
    unfolding kidobo_command_def by (intro disjI2 exI) (rule refl)
  show "list_all rule_ok old" by (rule old(1))
next
  show "wired_error i0 st0 sg0 (match_rule set_nm action) i st sg" if "i = i0 \<and> st = Some old \<and> sg = sg0" for i st sg
    using that in_force_content [of i0 st0 sg0] in_force_old [of i0 st0 sg0] old(2)
    by (simp add: wired_error_def content_Some kept_rules_append)
  show "wired_error i0 st0 sg0 (match_rule set_nm action) i st sg"
    if "i = i0 \<and> st = Some (drop k old @ [match_rule set_nm action]) \<and> sg = sg0" for k i st sg
    using that in_force_content [of i0 st0 sg0] old(2)
    by (simp add: wired_error_def content_Some kept_rules_append)
next
  fix l l' i :: "rstr list" and st sg :: "rstr list option" assume "i = i0 \<and> st = Some l \<and> sg = sg0"
  then show "\<exists>i' st' sg'. (mk R0 i st sg)(KIDOBO_CHAIN_NAME \<mapsto> l') = mk R0 i' st' sg'
      \<and> i' = i0 \<and> st' = Some l' \<and> sg' = sg0"
    by (intro exI [of _ i0] exI [of _ "Some l'"] exI [of _ sg0]) simp
qed (auto intro: effect_rule_simps(2))

lemma replace_staging_returns:
  assumes bin: "bin = binary fam" and law: "iptables_law runner view bin"
    and old: "list_all rule_ok old" "old = chain_content sg0"
    and new: "kept_rules (chain_content st0) new [new]"
  shows "returns (holds view R0 (\<lambda>i st sg. i = i0 \<and> st = Some [new] \<and> sg = Some old))
    (replace_chain_jump_fail_closed runner fam KIDOBO_STAGING_CHAIN_NAME KIDOBO_CHAIN_NAME)
    (\<lambda>_. holds view R0 (\<lambda>i st sg. i = i0 \<and> st = Some [new] \<and> sg = Some [stable_jump]))
    (fw_fails view R0 (wired_error i0 st0 sg0 new))"
  unfolding replace_chain_jump_fail_closed_def Let_def bin [symmetric]
proof (rule replace_rules_returns [OF law, where A = "\<lambda>l i st sg. i = i0 \<and> st = Some [new] \<and> sg = Some l"])
  show "kidobo_command [lit ''-A'', KIDOBO_STAGING_CHAIN_NAME, lit ''-j'', KIDOBO_CHAIN_NAME]"
    unfolding kidobo_command_def by (simp add: managed_def)
  show "list_all rule_ok old" by (rule old(1))
  have base: "in_force i0 (Some [new]) (Some old)" if "in_force i0 st0 sg0"
    using in_force_old_staging [OF that] in_force_content old(2) by blast
  {
    fix i st sg assume "i = i0 \<and> st = Some [new] \<and> sg = Some old"
    then show "wired_error i0 st0 sg0 new i st sg"
      using base new by (auto simp: wired_error_def content_Some)
  next
    fix k i st sg assume "i = i0 \<and> st = Some [new] \<and> sg = Some (drop k old @ [stable_jump])"
    then show "wired_error i0 st0 sg0 new i st sg"
      using base new in_force_staging [of i0 "Some [new]" old "drop k old @ [stable_jump]"]
      by (auto simp: wired_error_def content_Some dest: in_set_dropD)
  }
next
  fix l l' i :: "rstr list" and st sg :: "rstr list option" assume "i = i0 \<and> st = Some [new] \<and> sg = Some l"
  then show "\<exists>i' st' sg'. (mk R0 i st sg)(KIDOBO_STAGING_CHAIN_NAME \<mapsto> l') = mk R0 i' st' sg'
      \<and> i' = i0 \<and> st' = Some [new] \<and> sg' = Some l'"
    by (intro exI [of _ i0] exI [of _ "Some [new]"] exI [of _ "Some l'"]) simp
qed (simp_all add: effect_rule_simps rule_jump_to)

lemma wired_errorI:
  assumes "filter unmanaged_rule i = filter unmanaged_rule i0"
    "in_force i0 st0 sg0 \<Longrightarrow> in_force i st sg" "kept_rules (chain_content st0) new (chain_content st)"
  shows "wired_error i0 st0 sg0 new i st sg"
  using assms by (simp add: wired_error_def)

lemma insert_jump_returns:
  assumes law: "iptables_law runner view bin" and c: "managed c"
    and step: "\<And>i st sg. \<phi> i st sg \<Longrightarrow> \<psi> (jump_to c # i) st sg"
    and err: "\<And>i st sg. \<phi> i st sg \<Longrightarrow> E i st sg" "\<And>i st sg. \<psi> i st sg \<Longrightarrow> E i st sg"
  shows "returns (holds view R0 \<phi>) (run_checked runner bin [lit ''-I'', lit ''INPUT'', lit ''1'', lit ''-j'', c])
    (\<lambda>_. holds view R0 \<psi>) (fw_fails view R0 E)"
proof -
  have "kidobo_command [lit ''-I'', INPUT, lit ''1'', lit ''-j'', c]"
    using c unfolding kidobo_command_def by (intro disjI2 disjI1 exI conjI) auto
  then show ?thesis
    unfolding INPUT_def [symmetric]
    by (rule run_checked_returns [OF law]) (auto simp: effect_rule_simps intro: step err)
qed

lemma flush_returns:
  assumes law: "iptables_law runner view bin" and c: "managed c"
    and step: "\<And>i st sg. \<phi> i st sg \<Longrightarrow> mk R0 i st sg c \<noteq> None \<Longrightarrow>
      \<exists>i' st' sg'. (mk R0 i st sg)(c \<mapsto> []) = mk R0 i' st' sg' \<and> \<psi> i' st' sg'"
    and absent: "\<And>i st sg. \<phi> i st sg \<Longrightarrow> mk R0 i st sg c = None \<Longrightarrow> \<psi> i st sg"
    and err: "\<And>i st sg. \<phi> i st sg \<Longrightarrow> E i st sg" "\<And>i st sg. \<psi> i st sg \<Longrightarrow> E i st sg"
  shows "returns (holds view R0 \<phi>) (run_checked_allow_missing_chain runner bin [lit ''-F'', c])
    (\<lambda>_. holds view R0 \<psi>) (fw_fails view R0 E)"
proof (rule allow_missing_returns [OF law])
  show "kidobo_command [lit ''-F'', c]"
    using c unfolding kidobo_command_def by (intro disjI2 disjI1 exI conjI) auto
qed (use step absent err in \<open>auto simp: effect_simps split: if_splits\<close>)

lemma delete_returns:
  assumes law: "iptables_law runner view bin" and c: "managed c"
    and step: "\<And>i st sg. \<phi> i st sg \<Longrightarrow> mk R0 i st sg c = Some [] \<Longrightarrow>
      \<exists>i' st' sg'. (mk R0 i st sg)(c := None) = mk R0 i' st' sg' \<and> \<psi> i' st' sg'"
    and absent: "\<And>i st sg. \<phi> i st sg \<Longrightarrow> mk R0 i st sg c = None \<Longrightarrow> \<psi> i st sg"
    and err: "\<And>i st sg. \<phi> i st sg \<Longrightarrow> E i st sg" "\<And>i st sg. \<psi> i st sg \<Longrightarrow> E i st sg"
  shows "returns (holds view R0 \<phi>) (run_checked_allow_missing_chain runner bin [lit ''-X'', c])
    (\<lambda>_. holds view R0 \<psi>) (fw_fails view R0 E)"
proof (rule allow_missing_returns [OF law])
  show "kidobo_command [lit ''-X'', c]"
    using c unfolding kidobo_command_def by (intro disjI2 disjI1 exI conjI) auto
qed (use step absent err in \<open>auto simp: effect_simps split: if_splits\<close>)

lemma normalize_returns:
  assumes law: "iptables_law runner view (binary fam)"
    and ok: "list_all rule_ok i0" "list_all rule_ok (chain_content sg0)"
    and new: "kept_rules (chain_content st0) new [new]"
  shows "returns (holds view R0 (\<lambda>i st sg. i = i0 \<and> st = Some [new] \<and> sg = sg0))
    (normalize_input_jump_fail_closed runner fam KIDOBO_CHAIN_NAME)
    (\<lambda>_. holds view R0 (\<lambda>i st sg. i = stable_jump # filter unmanaged_rule i0 \<and> st = Some [new] \<and> sg = None))
    (fw_fails view R0 (wired_error i0 st0 sg0 new))"
proof -
  let ?F = "fw_fails view R0 (wired_error i0 st0 sg0 new)"
  let ?K = "\<lambda>i. list_all rule_ok i \<and> filter unmanaged_rule i = filter unmanaged_rule i0"
  have forced: "wired_error i0 st0 sg0 new i (Some [new]) sg"
    if "?K i" "i \<noteq> []" "hd i = stable_jump \<or> hd i = staging_jump \<and> sg = Some [stable_jump]" for i sg
    using that new by (intro wired_errorI) (auto simp: in_force_def content_Some)
  have initial: "wired_error i0 st0 sg0 new i0 (Some [new]) sg" if "sg = sg0 \<or> sg = Some (chain_content sg0)" for sg
    using that in_force_content [of i0 st0 _ "[new]"] in_force_old_staging new
    by (intro wired_errorI) (auto simp: content_Some)
  have s1: "returns (holds view R0 (\<lambda>i st sg. i = i0 \<and> st = Some [new] \<and> sg = sg0))
      (ensure_chain_exists runner fam KIDOBO_STAGING_CHAIN_NAME)
      (\<lambda>_. holds view R0 (\<lambda>i st sg. i = i0 \<and> st = Some [new] \<and> sg = Some (chain_content sg0))) ?F"
    by (rule ensure_chain_returns [OF law])
      (auto simp: chain_content_def [of None] content_Some initial intro: exI [of _ i0] exI [of _ "Some [new]"])
  have s2: "returns (holds view R0 (\<lambda>i st sg. i = i0 \<and> st = Some [new] \<and> sg = Some (chain_content sg0)))
      (replace_chain_jump_fail_closed runner fam KIDOBO_STAGING_CHAIN_NAME KIDOBO_CHAIN_NAME)
      (\<lambda>_. holds view R0 (\<lambda>i st sg. i = i0 \<and> st = Some [new] \<and> sg = Some [stable_jump])) ?F"
    by (rule replace_staging_returns [OF refl law ok(2) refl new])
  have s3: "returns (holds view R0 (\<lambda>i st sg. i = i0 \<and> st = Some [new] \<and> sg = Some [stable_jump]))
      (run_checked runner (binary fam) [lit ''-I'', lit ''INPUT'', lit ''1'', lit ''-j'', KIDOBO_STAGING_CHAIN_NAME])
      (\<lambda>_. holds view R0 (\<lambda>i st sg. ?K i \<and> i \<noteq> [] \<and> hd i = staging_jump \<and> st = Some [new] \<and> sg = Some [stable_jump])) ?F"
  proof (rule insert_jump_returns [OF law])
    fix i st sg assume "i = i0 \<and> st = Some [new] \<and> sg = Some [stable_jump]"
    then show "wired_error i0 st0 sg0 new i st sg"
      using in_force_staging [of i0 "Some [new]" "chain_content sg0" "[stable_jump]"]
        in_force_content [of i0 st0 _ "[new]"] in_force_old_staging [of i0 st0 sg0] new
      by (intro wired_errorI) (auto simp: content_Some)
  qed (use ok in \<open>auto simp: rule_jump_to intro: forced\<close>)
  have s4: "returns (holds view R0 (\<lambda>i st sg. ?K i \<and> i \<noteq> [] \<and> hd i = staging_jump \<and> st = Some [new] \<and> sg = Some [stable_jump]))
      (remove_all_input_jumps_for_chain runner fam KIDOBO_CHAIN_NAME)
      (\<lambda>_. holds view R0 (\<lambda>i st sg. (?K i \<and> i \<noteq> [] \<and> hd i = staging_jump \<and> st = Some [new] \<and> sg = Some [stable_jump])
        \<and> jump_to KIDOBO_CHAIN_NAME \<notin> set i)) ?F"
  proof (rule remove_all_returns [OF law])
    fix i st sg
    assume a: "?K i \<and> i \<noteq> [] \<and> hd i = staging_jump \<and> st = Some [new] \<and> sg = Some [stable_jump]"
    then show "wired_error i0 st0 sg0 new i st sg" using forced by blast
    from a obtain i' where "i = staging_jump # i'" by (cases i) auto
    with a show "?K (remove1 (jump_to KIDOBO_CHAIN_NAME) i) \<and> remove1 (jump_to KIDOBO_CHAIN_NAME) i \<noteq> []
        \<and> hd (remove1 (jump_to KIDOBO_CHAIN_NAME) i) = staging_jump \<and> st = Some [new] \<and> sg = Some [stable_jump]"
      by (simp add: rule_jump_to list_all_remove1)
  qed auto
  have s5: "returns (holds view R0 (\<lambda>i st sg. (?K i \<and> i \<noteq> [] \<and> hd i = staging_jump \<and> st = Some [new] \<and> sg = Some [stable_jump])
        \<and> jump_to KIDOBO_CHAIN_NAME \<notin> set i))
      (run_checked runner (binary fam) [lit ''-I'', lit ''INPUT'', lit ''1'', lit ''-j'', KIDOBO_CHAIN_NAME])
      (\<lambda>_. holds view R0 (\<lambda>i st sg. ?K i \<and> i \<noteq> [] \<and> hd i = stable_jump \<and> stable_jump \<notin> set (tl i)
        \<and> st = Some [new] \<and> sg = Some [stable_jump])) ?F"
    by (rule insert_jump_returns [OF law]) (auto simp: rule_jump_to intro: forced)
  have s6: "returns (holds view R0 (\<lambda>i st sg. ?K i \<and> i \<noteq> [] \<and> hd i = stable_jump \<and> stable_jump \<notin> set (tl i)
        \<and> st = Some [new] \<and> sg = Some [stable_jump]))
      (remove_all_input_jumps_for_chain runner fam KIDOBO_STAGING_CHAIN_NAME)
      (\<lambda>_. holds view R0 (\<lambda>i st sg. (?K i \<and> i \<noteq> [] \<and> hd i = stable_jump \<and> stable_jump \<notin> set (tl i)
        \<and> st = Some [new] \<and> sg = Some [stable_jump]) \<and> jump_to KIDOBO_STAGING_CHAIN_NAME \<notin> set i)) ?F"
  proof (rule remove_all_returns [OF law])
    fix i st sg
    assume a: "?K i \<and> i \<noteq> [] \<and> hd i = stable_jump \<and> stable_jump \<notin> set (tl i) \<and> st = Some [new] \<and> sg = Some [stable_jump]"
    then show "wired_error i0 st0 sg0 new i st sg" using forced by blast
    from a obtain i' where "i = stable_jump # i'" by (cases i) auto
    with a show "?K (remove1 (jump_to KIDOBO_STAGING_CHAIN_NAME) i) \<and> remove1 (jump_to KIDOBO_STAGING_CHAIN_NAME) i \<noteq> []
        \<and> hd (remove1 (jump_to KIDOBO_STAGING_CHAIN_NAME) i) = stable_jump
        \<and> stable_jump \<notin> set (tl (remove1 (jump_to KIDOBO_STAGING_CHAIN_NAME) i)) \<and> st = Some [new] \<and> sg = Some [stable_jump]"
      by (simp add: rule_jump_to list_all_remove1)
  qed auto
  let ?W = "\<lambda>i. i = stable_jump # filter unmanaged_rule i0 \<and> ?K i"
  have wired: "?W i" if w: "?K i" "i \<noteq> []" "hd i = stable_jump" "stable_jump \<notin> set (tl i)" "staging_jump \<notin> set i" for i
  proof -
    obtain i' where i': "i = stable_jump # i'" using w by (cases i) auto
    then have "filter unmanaged_rule i' = i'" using w by (intro filter_unmanaged_id) auto
    with i' w show ?thesis by auto
  qed
  have wired_forced: "wired_error i0 st0 sg0 new i (Some [new]) sg" if "?W i" for i sg
    using that by (intro forced) auto
  have s7: "returns (holds view R0 (\<lambda>i st sg. (?K i \<and> i \<noteq> [] \<and> hd i = stable_jump \<and> stable_jump \<notin> set (tl i)
        \<and> st = Some [new] \<and> sg = Some [stable_jump]) \<and> jump_to KIDOBO_STAGING_CHAIN_NAME \<notin> set i))
      (run_checked_allow_missing_chain runner (binary fam) [lit ''-F'', KIDOBO_STAGING_CHAIN_NAME])
      (\<lambda>_. holds view R0 (\<lambda>i st sg. ?W i \<and> st = Some [new] \<and> sg = Some [])) ?F"
  proof (rule flush_returns [OF law])
    fix i st sg
    assume a: "(?K i \<and> i \<noteq> [] \<and> hd i = stable_jump \<and> stable_jump \<notin> set (tl i)
        \<and> st = Some [new] \<and> sg = Some [stable_jump]) \<and> jump_to KIDOBO_STAGING_CHAIN_NAME \<notin> set i"
    then have "?W i" by (intro wired) (simp_all add: rule_jump_to)
    with a show "wired_error i0 st0 sg0 new i st sg"
      "\<exists>i' st' sg'. (mk R0 i st sg)(KIDOBO_STAGING_CHAIN_NAME \<mapsto> []) = mk R0 i' st' sg' \<and> ?W i' \<and> st' = Some [new] \<and> sg' = Some []"
      using wired_forced by auto
  qed (auto intro: wired_forced)
  have s8: "returns (holds view R0 (\<lambda>i st sg. ?W i \<and> st = Some [new] \<and> sg = Some []))
      (run_checked_allow_missing_chain runner (binary fam) [lit ''-X'', KIDOBO_STAGING_CHAIN_NAME])
      (\<lambda>_. holds view R0 (\<lambda>i st sg. ?W i \<and> st = Some [new] \<and> sg = None)) ?F"
    by (rule delete_returns [OF law]) (auto intro: wired_forced)
  have s9: "returns (holds view R0 (\<lambda>i st sg. ?W i \<and> st = Some [new] \<and> sg = None))
      (run_checked runner (binary fam) [lit ''-S'', INPUT])
      (\<lambda>res s. exact_jump_positions (cr_stdout res) KIDOBO_CHAIN_NAME = [1]
        \<and> exact_jump_positions (cr_stdout res) KIDOBO_STAGING_CHAIN_NAME = []
        \<and> holds view R0 (\<lambda>i st sg. i = stable_jump # filter unmanaged_rule i0 \<and> st = Some [new] \<and> sg = None) s) ?F"
  proof (rule returns_weaken [OF list_chain_returns [OF law, where c = INPUT and ?R0.0 = R0
        and \<phi> = "\<lambda>i st sg. ?W i \<and> st = Some [new] \<and> sg = None" and E = "wired_error i0 st0 sg0 new"]])
    fix res s
    assume "\<exists>rs. is_listing INPUT rs (cr_stdout res)
        \<and> holds view R0 (\<lambda>i st sg. (?W i \<and> st = Some [new] \<and> sg = None) \<and> mk R0 i st sg INPUT = Some rs) s"
    then obtain i where i: "?W i" "is_listing INPUT i (cr_stdout res)"
      and h: "holds view R0 (\<lambda>i st sg. i = stable_jump # filter unmanaged_rule i0 \<and> st = Some [new] \<and> sg = None) s"
      unfolding holds_def by auto
    have "positions (\<lambda>r. r = jump_to KIDOBO_CHAIN_NAME) 1 i = [1]"
      "positions (\<lambda>r. r = jump_to KIDOBO_STAGING_CHAIN_NAME) 1 i = []"
      using i(1) by (auto simp: rule_jump_to positions_Nil_iff unmanaged_rule_def)
    then have "exact_jump_positions (cr_stdout res) KIDOBO_CHAIN_NAME = [1]"
      "exact_jump_positions (cr_stdout res) KIDOBO_STAGING_CHAIN_NAME = []"
      using trans [OF exact_jump_positions_listing [OF i(2) conjunct1 [OF conjunct2 [OF i(1)]]]] by simp_all
    with h show "exact_jump_positions (cr_stdout res) KIDOBO_CHAIN_NAME = [1]
        \<and> exact_jump_positions (cr_stdout res) KIDOBO_STAGING_CHAIN_NAME = []
        \<and> holds view R0 (\<lambda>i st sg. i = stable_jump # filter unmanaged_rule i0 \<and> st = Some [new] \<and> sg = None) s"
      by blast
  qed (auto intro: wired_forced)
  have s10: "returns (\<lambda>s. a = [1] \<and> b = []
        \<and> holds view R0 (\<lambda>i st sg. i = stable_jump # filter unmanaged_rule i0 \<and> st = Some [new] \<and> sg = None) s)
      (if a \<noteq> [1] \<or> b \<noteq> [] then d_err (UnexpectedInputWiring fam a b) else d_ok ())
      (\<lambda>_. holds view R0 (\<lambda>i st sg. i = stable_jump # filter unmanaged_rule i0 \<and> st = Some [new] \<and> sg = None)) ?F" for a b
    by (auto simp: returns_def d_ok_def)
  show ?thesis
    unfolding normalize_input_jump_fail_closed_def Let_def INPUT_def [symmetric]
    by (intro returns_bind [OF s1] returns_bind [OF s2] returns_bind [OF s3 [unfolded INPUT_def [symmetric]]]
        returns_bind [OF s4] returns_bind [OF s5 [unfolded INPUT_def [symmetric]]] returns_bind [OF s6]
        returns_bind [OF s7] returns_bind [OF s8] returns_bind [OF s9] s10)
qed

lemma wiring_returns:
  assumes law: "iptables_law runner view (binary fam)" and R0: "rules_ok R0" "R0 INPUT = Some i0"
  shows "returns (\<lambda>s. view s = R0) (ensure_firewall_wiring runner fam set_nm action)
    (\<lambda>_. holds view R0 (\<lambda>i st sg. i = stable_jump # filter unmanaged_rule i0
        \<and> st = Some [match_rule set_nm action] \<and> sg = None))
    (fw_fails view R0 (wired_error i0 (R0 KIDOBO_CHAIN_NAME) (R0 KIDOBO_STAGING_CHAIN_NAME)
        (match_rule set_nm action)))"
proof -
  let ?st0 = "R0 KIDOBO_CHAIN_NAME" and ?sg0 = "R0 KIDOBO_STAGING_CHAIN_NAME"
  let ?new = "match_rule set_nm action"
  let ?F = "fw_fails view R0 (wired_error i0 ?st0 ?sg0 ?new)"
  have content: "list_all rule_ok (chain_content (R0 c))" for c
    using R0(1) by (auto simp: rules_ok_def chain_content_def split: option.split)
  have ok: "list_all rule_ok i0" using R0 by (auto simp: rules_ok_def)
  have base: "wired_error i0 ?st0 ?sg0 ?new i0 st ?sg0" if "st = ?st0 \<or> st = Some (chain_content ?st0)" for st
    using that in_force_content [of i0 ?st0 ?sg0] in_force_old [of i0 ?st0 ?sg0]
    by (auto simp: wired_error_def content_Some)
  have t1: "returns (holds view R0 (\<lambda>i st sg. i = i0 \<and> st = ?st0 \<and> sg = ?sg0))
      (ensure_chain_exists runner fam KIDOBO_CHAIN_NAME)
      (\<lambda>_. holds view R0 (\<lambda>i st sg. i = i0 \<and> st = Some (chain_content ?st0) \<and> sg = ?sg0)) ?F"
    by (rule ensure_chain_returns [OF law])
      (auto simp: chain_content_def base intro: exI [of _ i0] exI [of _ ?sg0])
  have t2: "returns (holds view R0 (\<lambda>i st sg. i = i0 \<and> st = Some (chain_content ?st0) \<and> sg = ?sg0))
      (replace_chain_rule_fail_closed runner fam KIDOBO_CHAIN_NAME set_nm (as_target action))
      (\<lambda>_. holds view R0 (\<lambda>i st sg. i = i0 \<and> st = Some [?new] \<and> sg = ?sg0)) ?F"
    by (rule replace_stable_returns [OF refl law content refl])
  have t3: "returns (holds view R0 (\<lambda>i st sg. i = i0 \<and> st = Some [?new] \<and> sg = ?sg0))
      (normalize_input_jump_fail_closed runner fam KIDOBO_CHAIN_NAME)
      (\<lambda>_. holds view R0 (\<lambda>i st sg. i = stable_jump # filter unmanaged_rule i0 \<and> st = Some [?new] \<and> sg = None)) ?F"
    by (rule normalize_returns [OF law ok content kept_rules_append(2)])
  have "returns (holds view R0 (\<lambda>i st sg. i = i0 \<and> st = ?st0 \<and> sg = ?sg0))
      (ensure_firewall_wiring runner fam set_nm action)
      (\<lambda>_. holds view R0 (\<lambda>i st sg. i = stable_jump # filter unmanaged_rule i0 \<and> st = Some [?new] \<and> sg = None)) ?F"
    unfolding ensure_firewall_wiring_def
    by (intro returns_bind [OF t1] returns_bind [OF t2] returns_bind [OF t3] returns_ok)
  then show ?thesis
    by (rule returns_pre [rotated]) (metis (mono_tags, lifting) R0(2) holds_def mk_self)
qed

section \<open>Cleanup\<close>

definition ok_or_command :: "firewall_error + unit \<Rightarrow> bool" where
  "ok_or_command r \<longleftrightarrow> (case r of Inl e \<Rightarrow> from_command e | Inr _ \<Rightarrow> True)"

text \<open>One attempt of the cleanup: \<open>P True\<close> holds after it if it reports success, \<open>P False\<close>
  anyway.\<close>

lemma attempt_returns:
  assumes "returns (holds view R0 (P False)) m (\<lambda>_. holds view R0 (P True)) (fw_fails view R0 (P False))"
    and rest: "\<And>r. ok_or_command r \<Longrightarrow> returns (holds view R0 (P (r = Inr ()))) (f r) Q E"
  shows "returns (holds view R0 (P False)) (d_bind (d_try m) f) Q E"
proof (rule returns_bind)
  show "returns (holds view R0 (P False)) (d_try m)
      (\<lambda>r s. ok_or_command r \<and> holds view R0 (P (r = Inr ())) s) E"
    by (rule returns_weaken [OF returns_try [OF assms(1)]])
      (auto simp: ok_or_command_def split: sum.splits)
  show "returns (\<lambda>s. ok_or_command r \<and> holds view R0 (P (r = Inr ())) s) (f r) Q E" for r
    using rest [of r] unfolding returns_def by blast
qed

text \<open>The state of the cleanup: which of its six attempts succeeded, and what that means.\<close>

definition cleaned :: "rstr list \<Rightarrow> bool \<Rightarrow> bool \<Rightarrow> bool \<Rightarrow> bool \<Rightarrow> bool \<Rightarrow> bool \<Rightarrow> fw_assn" where
  "cleaned i0 b1 b2 b3 b4 b5 b6 i st sg \<longleftrightarrow>
     list_all rule_ok i \<and> filter unmanaged_rule i = filter unmanaged_rule i0
     \<and> (b1 \<longrightarrow> staging_jump \<notin> set i) \<and> (b2 \<longrightarrow> stable_jump \<notin> set i)
     \<and> (b3 \<longrightarrow> sg = None \<or> sg = Some []) \<and> (b4 \<longrightarrow> sg = None)
     \<and> (b5 \<longrightarrow> st = None \<or> st = Some []) \<and> (b6 \<longrightarrow> st = None)"

lemma cleaned_remove1:
  assumes "cleaned i0 b1 b2 b3 b4 b5 b6 i st sg"
  shows "cleaned i0 b1 b2 b3 b4 b5 b6 (remove1 stable_jump i) st sg"
    "cleaned i0 b1 b2 b3 b4 b5 b6 (remove1 staging_jump i) st sg"
  using assms notin_set_remove1 by (auto simp: cleaned_def list_all_remove1)

lemma wiring_cleanup_returns:
  assumes law: "iptables_law runner view (binary fam)" and ok: "list_all rule_ok i0"
  shows "returns (holds view R0 (\<lambda>i st sg. i = i0)) (cleanup_firewall_wiring runner fam)
    (\<lambda>_. holds view R0 (\<lambda>i st sg. i = filter unmanaged_rule i0 \<and> st = None \<and> sg = None))
    (fw_fails view R0 (\<lambda>i st sg. filter unmanaged_rule i = filter unmanaged_rule i0))"
proof -
  let ?C = "cleaned i0"
  let ?F = "fw_fails view R0 (\<lambda>i st sg. filter unmanaged_rule i = filter unmanaged_rule i0)"
  have s1: "returns (holds view R0 (?C False False False False False False))
      (remove_all_input_jumps_for_chain runner fam KIDOBO_STAGING_CHAIN_NAME)
      (\<lambda>_. holds view R0 (?C True False False False False False))
      (fw_fails view R0 (?C False False False False False False))"
    by (rule returns_weaken [OF remove_all_returns [OF law]])
      (auto simp: cleaned_def rule_jump_to list_all_remove1 elim: holds_mono)
  have s2: "returns (holds view R0 (?C b1 False False False False False))
      (remove_all_input_jumps_for_chain runner fam KIDOBO_CHAIN_NAME)
      (\<lambda>_. holds view R0 (?C b1 True False False False False))
      (fw_fails view R0 (?C b1 False False False False False))" for b1
  proof (rule returns_weaken [OF remove_all_returns [OF law, where c = KIDOBO_CHAIN_NAME and ?R0.0 = R0
        and \<phi> = "?C b1 False False False False False" and E = "?C b1 False False False False False"]])
    show "holds view R0 (?C b1 True False False False False) s"
      if "holds view R0 (\<lambda>i st sg. ?C b1 False False False False False i st sg \<and> jump_to KIDOBO_CHAIN_NAME \<notin> set i) s" for s
      using that by (rule holds_mono) (simp add: cleaned_def rule_jump_to)
  qed (auto simp: rule_jump_to cleaned_remove1 cleaned_def [THEN iffD1])
  have s3: "returns (holds view R0 (?C b1 b2 False False False False))
      (run_checked_allow_missing_chain runner (binary fam) [lit ''-F'', KIDOBO_STAGING_CHAIN_NAME])
      (\<lambda>_. holds view R0 (?C b1 b2 True False False False))
      (fw_fails view R0 (?C b1 b2 False False False False))" for b1 b2
  proof (rule flush_returns [OF law])
    fix i st sg assume "?C b1 b2 False False False False i st sg"
    then show "\<exists>i' st' sg'. (mk R0 i st sg)(KIDOBO_STAGING_CHAIN_NAME \<mapsto> []) = mk R0 i' st' sg'
        \<and> ?C b1 b2 True False False False i' st' sg'"
      by (intro exI [of _ i] exI [of _ st] exI [of _ "Some []"]) (simp add: cleaned_def)
  qed (simp_all add: cleaned_def)
  have s4: "returns (holds view R0 (?C b1 b2 b3 False False False))
      (run_checked_allow_missing_chain runner (binary fam) [lit ''-X'', KIDOBO_STAGING_CHAIN_NAME])
      (\<lambda>_. holds view R0 (?C b1 b2 b3 True False False))
      (fw_fails view R0 (?C b1 b2 b3 False False False))" for b1 b2 b3
  proof (rule delete_returns [OF law])
    fix i st sg assume "?C b1 b2 b3 False False False i st sg"
    then show "\<exists>i' st' sg'. (mk R0 i st sg)(KIDOBO_STAGING_CHAIN_NAME := None) = mk R0 i' st' sg'
        \<and> ?C b1 b2 b3 True False False i' st' sg'"
      by (intro exI [of _ i] exI [of _ st] exI [of _ None]) (simp add: cleaned_def)
  qed (simp_all add: cleaned_def)
  have s5: "returns (holds view R0 (?C b1 b2 b3 b4 False False))
      (run_checked_allow_missing_chain runner (binary fam) [lit ''-F'', KIDOBO_CHAIN_NAME])
      (\<lambda>_. holds view R0 (?C b1 b2 b3 b4 True False))
      (fw_fails view R0 (?C b1 b2 b3 b4 False False))" for b1 b2 b3 b4
  proof (rule flush_returns [OF law])
    fix i st sg assume "?C b1 b2 b3 b4 False False i st sg"
    then show "\<exists>i' st' sg'. (mk R0 i st sg)(KIDOBO_CHAIN_NAME \<mapsto> []) = mk R0 i' st' sg'
        \<and> ?C b1 b2 b3 b4 True False i' st' sg'"
      by (intro exI [of _ i] exI [of _ "Some []"] exI [of _ sg]) (simp add: cleaned_def)
  qed (simp_all add: cleaned_def)
  have s6: "returns (holds view R0 (?C b1 b2 b3 b4 b5 False))
      (run_checked_allow_missing_chain runner (binary fam) [lit ''-X'', KIDOBO_CHAIN_NAME])
      (\<lambda>_. holds view R0 (?C b1 b2 b3 b4 b5 True))
      (fw_fails view R0 (?C b1 b2 b3 b4 b5 False))" for b1 b2 b3 b4 b5
  proof (rule delete_returns [OF law])
    fix i st sg assume "?C b1 b2 b3 b4 b5 False i st sg"
    then show "\<exists>i' st' sg'. (mk R0 i st sg)(KIDOBO_CHAIN_NAME := None) = mk R0 i' st' sg'
        \<and> ?C b1 b2 b3 b4 b5 True i' st' sg'"
      by (intro exI [of _ i] exI [of _ None] exI [of _ sg]) (simp add: cleaned_def)
  qed (simp_all add: cleaned_def)
  let ?all = "\<lambda>r1 r2 r3 r4 r5 r6. and_then r1 (\<lambda>_. and_then r2 (\<lambda>_. and_then r3 (\<lambda>_.
    and_then r4 (\<lambda>_. and_then r5 (\<lambda>_. r6)))))"
  have final: "returns (holds view R0 (?C (r1 = Inr ()) (r2 = Inr ()) (r3 = Inr ()) (r4 = Inr ()) (r5 = Inr ()) (r6 = Inr ())))
      (d_res (?all r1 r2 r3 r4 r5 r6))
      (\<lambda>_. holds view R0 (\<lambda>i st sg. i = filter unmanaged_rule i0 \<and> st = None \<and> sg = None)) ?F"
    if "ok_or_command r1" "ok_or_command r2" "ok_or_command r3" "ok_or_command r4" "ok_or_command r5" "ok_or_command r6"
    for r1 r2 r3 r4 r5 r6
  proof (rule returns_res)
    fix s assume h: "holds view R0 (?C (r1 = Inr ()) (r2 = Inr ()) (r3 = Inr ()) (r4 = Inr ()) (r5 = Inr ()) (r6 = Inr ())) s"
    show "case ?all r1 r2 r3 r4 r5 r6 of Inl e \<Rightarrow> ?F e s
        | Inr _ \<Rightarrow> holds view R0 (\<lambda>i st sg. i = filter unmanaged_rule i0 \<and> st = None \<and> sg = None) s"
    proof (cases "?all r1 r2 r3 r4 r5 r6")
      case (Inl e)
      then have "from_command e" using that by (auto simp: and_then_Inl_iff ok_or_command_def)
      moreover have "holds view R0 (\<lambda>i st sg. filter unmanaged_rule i = filter unmanaged_rule i0) s"
        using h by (rule holds_mono) (simp add: cleaned_def)
      ultimately show ?thesis using Inl by simp
    next
      case (Inr u)
      then have "r1 = Inr ()" "r2 = Inr ()" "r3 = Inr ()" "r4 = Inr ()" "r5 = Inr ()" "r6 = Inr ()"
        by (auto simp: and_then_Inr_iff)
      with h have "holds view R0 (\<lambda>i st sg. i = filter unmanaged_rule i0 \<and> st = None \<and> sg = None) s"
        by (elim holds_mono) (auto simp: cleaned_def dest: filter_unmanaged_id)
      with Inr show ?thesis by simp
    qed
  qed
  have "returns (holds view R0 (?C False False False False False False)) (cleanup_firewall_wiring runner fam)
    (\<lambda>_. holds view R0 (\<lambda>i st sg. i = filter unmanaged_rule i0 \<and> st = None \<and> sg = None)) ?F"
    unfolding cleanup_firewall_wiring_def Let_def
    by (rule attempt_returns [where P = "\<lambda>b. ?C b False False False False False", OF s1],
        rule attempt_returns [where P = "\<lambda>b. ?C _ b False False False False", OF s2],
        rule attempt_returns [where P = "\<lambda>b. ?C _ _ b False False False", OF s3],
        rule attempt_returns [where P = "\<lambda>b. ?C _ _ _ b False False", OF s4],
        rule attempt_returns [where P = "\<lambda>b. ?C _ _ _ _ b False", OF s5],
        rule attempt_returns [where P = "\<lambda>b. ?C _ _ _ _ _ b", OF s6], rule final)
  then show ?thesis using ok by (elim returns_pre [rotated] holds_mono) (simp add: cleaned_def)
qed

section \<open>A model of iptables\<close>

text \<open>A runner on rules in memory that obeys the law: it answers the first \<open>n\<close> commands and
  then times out.\<close>

definition model_listing :: "rstr list \<Rightarrow> ruleset \<Rightarrow> rstr" where
  "model_listing args R =
     (if args = [lit ''-S''] then str_join [10] (lit ''-P INPUT ACCEPT''
        # map ((@) (lit ''-N '')) (filter (\<lambda>c. R c \<noteq> None) [KIDOBO_CHAIN_NAME, KIDOBO_STAGING_CHAIN_NAME])) @ [10]
      else case args of
        [_, c] \<Rightarrow> str_join [10] ((lit ''-N '' @ c) # map (rule_line c) (chain_content (R c))) @ [10]
      | _ \<Rightarrow> [])"

definition model_iptables :: "(ruleset \<times> nat) runner" where
  "model_iptables bin full_args s = (case s of (R, n) \<Rightarrow>
     let args = drop 2 full_args
     in if n = 0 then (Inl (Timeout bin 30000), (R, 0))
        else case fw_effect args R of
          Some R' \<Rightarrow> (Inr \<lparr>cr_status = Exited 0, cr_stdout = model_listing args R, cr_stderr = []\<rparr>, (R', n - 1))
        | None \<Rightarrow> (Inr \<lparr>cr_status = Exited 1, cr_stdout = [],
             cr_stderr = (case args of [_, c] \<Rightarrow> if R c = None
               then lit ''iptables: No chain/target/match by that name.'' else lit ''iptables: refused''
              | _ \<Rightarrow> lit ''iptables: refused'')\<rparr>, (R, n - 1)))"

lemma model_listing_chain:
  assumes "line_ok c" "R c = Some rs"
  shows "is_listing c rs (model_listing [lit ''-S'', c] R)"
proof -
  have "10 \<notin> set (lit ''-N '')" "lit ''-N '' \<noteq> []" "13 \<notin> set (lit ''-N '')" "lit ''-N '' = [45, 78, 32]"
    "lit ''-A'' = [45, 65]"
    by code_simp+
  then have "line_ok (lit ''-N '' @ c)" "\<not> prefix (lit ''-A'') (lit ''-N '' @ c)"
    using assms(1) by (auto simp: line_ok_def)
  then show ?thesis using assms(2) unfolding is_listing_def model_listing_def
    by (intro exI [of _ "lit ''-N '' @ c"] exI [of _ "map (rule_line c) rs"])
      (simp add: chain_content_def list_all2_map2 list.rel_refl prints_rule_def)
qed

lemma model_listing_full:
  assumes "managed c" "R c \<noteq> None"
  shows "lit ''-N '' @ c \<in> set (str_lines (model_listing [lit ''-S''] R))"
proof -
  let ?ls = "lit ''-P INPUT ACCEPT'' # map ((@) (lit ''-N ''))
    (filter (\<lambda>c. R c \<noteq> None) [KIDOBO_CHAIN_NAME, KIDOBO_STAGING_CHAIN_NAME])"
  have "line_ok (lit ''-P INPUT ACCEPT'')" "line_ok (lit ''-N '' @ KIDOBO_CHAIN_NAME)"
    "line_ok (lit ''-N '' @ KIDOBO_STAGING_CHAIN_NAME)" by code_simp+
  then have "list_all line_ok ?ls" by simp
  then have "str_lines (model_listing [lit ''-S''] R) = ?ls"
    unfolding model_listing_def using str_lines_join [of ?ls] by simp
  then show ?thesis using assms by (auto simp: managed_def)
qed

lemma listed_chain: "kidobo_command [lit ''-S'', c] \<Longrightarrow> line_ok c"
  using managed_line_ok INPUT_line_ok by (auto simp: kidobo_command_def)

lemma model_listing_reports:
  assumes "kidobo_command args"
  shows "reports args R (model_listing args R)"
  unfolding reports_def
proof (intro conjI allI impI)
  fix c rs assume "args = [lit ''-S'', c]" "R c = Some rs"
  then show "is_listing c rs (model_listing args R)"
    using model_listing_chain listed_chain assms by simp
next
  fix c assume "args = [lit ''-S'']" "managed c" "R c \<noteq> None"
  then show "lit ''-N '' @ c \<in> set (str_lines (model_listing args R))"
    using model_listing_full by simp
qed

lemma model_iptables_law: "iptables_law model_iptables fst bin"
  unfolding iptables_law_def
proof (intro allI impI)
  fix args :: "rstr list" and s s' :: "ruleset \<times> nat" and r
  assume cmd: "kidobo_command args" and run: "model_iptables bin (with_lock_wait args) s = (r, s')"
  obtain R n where s: "s = (R, n)" by fastforce
  have d: "drop 2 (with_lock_wait args) = args" by (simp add: with_lock_wait_def)
  note eq = run [unfolded model_iptables_def s d Let_def prod.case]
  have rep: "reports args R (model_listing args R)" by (rule model_listing_reports [OF cmd])
  have "\<not> is_missing_chain_result \<lparr>cr_status = st, cr_stdout = x, cr_stderr = y\<rparr>"
    if "st = Exited 0 \<or> y = lit ''iptables: refused''" for st x y
  proof -
    have "\<not> str_contains (lit ''no chain/target/match by that name'') (to_ascii_lowercase (lit ''iptables: refused''))"
      by code_simp
    then show ?thesis using that by (auto simp: is_missing_chain_result_def)
  qed
  note missing = this
  show "(fst s' = fst s \<or> fw_effect args (fst s) = Some (fst s')) \<and>
       (\<forall>res. r = Inr res \<longrightarrow> status_success (cr_status res) \<longrightarrow>
           fw_effect args (fst s) = Some (fst s') \<and> reports args (fst s) (cr_stdout res)) \<and>
       (\<forall>res op c. r = Inr res \<longrightarrow> is_missing_chain_result res \<longrightarrow> args = [op, c] \<longrightarrow>
           op \<in> {lit ''-S'', lit ''-F'', lit ''-X''} \<longrightarrow> fst s c = None \<and> fst s' = fst s)"
  proof (cases "n = 0")
    case True
    then show ?thesis using eq s by auto
  next
    case n: False
    show ?thesis
    proof (cases "fw_effect args R")
      case None
      let ?y = "case args of [_, c] \<Rightarrow> if R c = None
               then lit ''iptables: No chain/target/match by that name.'' else lit ''iptables: refused''
              | _ \<Rightarrow> lit ''iptables: refused''"
      obtain y where y: "y = ?y" by simp
      have r: "r = Inr \<lparr>cr_status = Exited 1, cr_stdout = [], cr_stderr = y\<rparr>" "s' = (R, n - 1)"
        using eq n None unfolding y by simp_all
      have absent: "R c = None" if "is_missing_chain_result \<lparr>cr_status = Exited 1, cr_stdout = [], cr_stderr = y\<rparr>"
        "args = [op, c]" for op c
      proof (rule ccontr)
        assume "R c \<noteq> None"
        then have "y = lit ''iptables: refused''" using y that(2) by auto
        then show False using missing that(1) by blast
      qed
      have "\<not> status_success (Exited 1)" by (simp add: status_success_def)
      then show ?thesis using s r(1) r(2) absent by simp
    next
      case (Some R')
      then have r: "r = Inr \<lparr>cr_status = Exited 0, cr_stdout = model_listing args R, cr_stderr = []\<rparr>" "s' = (R', n - 1)"
        using eq n by simp_all
      then show ?thesis using missing rep s Some by simp
    qed
  qed
qed

section \<open>Properties\<close>

definition wired_host :: ruleset where
  "wired_host = [INPUT \<mapsto> [stable_jump, lit ''-p tcp -j ACCEPT'', staging_jump],
     KIDOBO_CHAIN_NAME \<mapsto> [match_rule (lit ''old-set'') RejectAction]]"

lemma wired_host_ok: "rules_ok wired_host"
proof -
  have "list_all rule_ok [stable_jump, lit ''-p tcp -j ACCEPT'', staging_jump]"
    "list_all rule_ok [match_rule (lit ''old-set'') RejectAction]"
    by code_simp+
  then show ?thesis by (auto simp: rules_ok_def wired_host_def split: if_splits)
qed

lemma wired_host_INPUT: "wired_host INPUT = Some [stable_jump, lit ''-p tcp -j ACCEPT'', staging_jump]"
  by (simp add: wired_host_def)

lemma wired_host_enforcing: "enforcing wired_host"
  by code_simp

text \<open>
  C35: Wiring is fail closed. If enforcement is in force before, it is in force after,
  whatever command fails at whatever point, also when the failed command did its effect, and
  the stable chain then holds the old rules, or some last of them followed by the new rule.
  The wiring always returns.
\<close>

theorem wiring_fail_closed:
  assumes "iptables_law runner view (binary fam)" "rules_ok (view s)" "enforcing (view s)"
  shows "\<exists>r s'. ensure_firewall_wiring runner fam set_nm action s = Some (r, s')
    \<and> enforcing (view s')
    \<and> kept_rules (chain_content (view s KIDOBO_CHAIN_NAME)) (match_rule set_nm action)
         (chain_content (view s' KIDOBO_CHAIN_NAME))"
proof -
  let ?R0 = "view s" and ?new = "match_rule set_nm action"
  let ?st0 = "view s KIDOBO_CHAIN_NAME" and ?sg0 = "view s KIDOBO_STAGING_CHAIN_NAME"
  obtain i0 where i0: "?R0 INPUT = Some i0" "in_force i0 ?st0 ?sg0"
    using assms(3) by (auto simp: enforcing_def split: option.splits)
  obtain r s' where r: "ensure_firewall_wiring runner fam set_nm action s = Some (r, s')"
    "case r of Inl e \<Rightarrow> fw_fails view ?R0 (wired_error i0 ?st0 ?sg0 ?new) e s'
     | Inr u \<Rightarrow> holds view ?R0 (\<lambda>i st sg. i = stable_jump # filter unmanaged_rule i0 \<and> st = Some [?new] \<and> sg = None) s'"
    using returns_imp [OF wiring_returns [OF assms(1,2) i0(1)], of s] by blast
  have "holds view ?R0 (\<lambda>i st sg. in_force i st sg \<and> kept_rules (chain_content ?st0) ?new (chain_content st)) s'"
    using r(2) i0(2)
    by (cases r) (auto elim!: holds_mono simp: wired_error_def in_force_def content_Some)
  then have "enforcing (view s') \<and> kept_rules (chain_content ?st0) ?new (chain_content (view s' KIDOBO_CHAIN_NAME))"
    by (auto simp: holds_def)
  with r(1) show ?thesis by blast
qed

theorem wiring_fail_closed_witness:
  "\<exists>r s'. ensure_firewall_wiring model_iptables FwIpv4 (lit ''kidobo'') DropAction (wired_host, 9) = Some (r, s')
    \<and> enforcing (fst s')
    \<and> kept_rules (chain_content (wired_host KIDOBO_CHAIN_NAME)) (match_rule (lit ''kidobo'') DropAction)
         (chain_content (fst s' KIDOBO_CHAIN_NAME))"
  by (rule wiring_fail_closed [where s = "(wired_host, 9)" and view = fst, unfolded fst_conv,
      OF model_iptables_law wired_host_ok wired_host_enforcing])

text \<open>
  C36: Success of the wiring means the exact wiring: the first INPUT rule is the only jump
  to a managed chain, the stable chain has the one match-set rule, the staging chain is gone,
  and nothing else changed. Every failure reports a failed command (the final validation of
  the INPUT chain never fails) and leaves the INPUT rules of others, in their order, and all
  other chains.
\<close>

theorem wiring_exact:
  assumes "iptables_law runner view (binary fam)" "rules_ok (view s)" "view s INPUT = Some i0"
  shows "\<exists>r s'. ensure_firewall_wiring runner fam set_nm action s = Some (r, s')
    \<and> (case r of
        Inl e \<Rightarrow> from_command e
          \<and> (\<exists>i. view s' INPUT = Some i \<and> filter unmanaged_rule i = filter unmanaged_rule i0)
          \<and> (\<forall>c. \<not> managed c \<longrightarrow> c \<noteq> INPUT \<longrightarrow> view s' c = view s c)
      | Inr _ \<Rightarrow> view s' = (view s)(INPUT \<mapsto> stable_jump # filter unmanaged_rule i0,
          KIDOBO_CHAIN_NAME \<mapsto> [match_rule set_nm action], KIDOBO_STAGING_CHAIN_NAME := None))"
proof -
  obtain r s' where r: "ensure_firewall_wiring runner fam set_nm action s = Some (r, s')"
    "case r of Inl e \<Rightarrow> fw_fails view (view s) (wired_error i0 (view s KIDOBO_CHAIN_NAME)
        (view s KIDOBO_STAGING_CHAIN_NAME) (match_rule set_nm action)) e s'
     | Inr u \<Rightarrow> holds view (view s) (\<lambda>i st sg. i = stable_jump # filter unmanaged_rule i0
        \<and> st = Some [match_rule set_nm action] \<and> sg = None) s'"
    using returns_imp [OF wiring_returns [OF assms], of s] by blast
  then show ?thesis
    by (cases r) (auto simp: holds_def mk_unmanaged wired_error_def mk_def [of "view s" "stable_jump # _"])
qed

theorem wiring_exact_witness:
  "\<exists>r s'. ensure_firewall_wiring model_iptables FwIpv4 (lit ''kidobo'') DropAction (wired_host, 100) = Some (r, s')
    \<and> (case r of
        Inl e \<Rightarrow> from_command e
          \<and> (\<exists>i. fst s' INPUT = Some i \<and> filter unmanaged_rule i
               = filter unmanaged_rule [stable_jump, lit ''-p tcp -j ACCEPT'', staging_jump])
          \<and> (\<forall>c. \<not> managed c \<longrightarrow> c \<noteq> INPUT \<longrightarrow> fst s' c = wired_host c)
      | Inr _ \<Rightarrow> fst s' = wired_host(INPUT \<mapsto> stable_jump
            # filter unmanaged_rule [stable_jump, lit ''-p tcp -j ACCEPT'', staging_jump],
          KIDOBO_CHAIN_NAME \<mapsto> [match_rule (lit ''kidobo'') DropAction], KIDOBO_STAGING_CHAIN_NAME := None))"
  by (rule wiring_exact [where s = "(wired_host, 100)" and view = fst, unfolded fst_conv,
      OF model_iptables_law wired_host_ok wired_host_INPUT])

section \<open>What the clean-up attempts\<close>

text \<open>\<open>log\<close> reads the commands issued so far in the state of the host: the runner appends the
  arguments of each one.\<close>

definition command_log :: "'s runner \<Rightarrow> rstr \<Rightarrow> ('s \<Rightarrow> rstr list list) \<Rightarrow> bool" where
  "command_log runner bin log \<longleftrightarrow> (\<forall>args s. log (snd (runner bin args s)) = log s @ [args])"

text \<open>The action issues, if it returns, one of the sequences of commands \<open>P\<close>, whatever the
  commands answer.\<close>

definition issues :: "('s \<Rightarrow> rstr list list) \<Rightarrow> ('s, 'e, 'a) dact \<Rightarrow> (rstr list list \<Rightarrow> bool) \<Rightarrow> bool" where
  "issues log m P \<longleftrightarrow> (\<forall>s r s'. m s = Some (r, s') \<longrightarrow> (\<exists>cs. P cs \<and> log s' = log s @ cs))"

lemma issuesD: "issues log m P \<Longrightarrow> m s = Some (r, s') \<Longrightarrow> \<exists>cs. P cs \<and> log s' = log s @ cs"
  unfolding issues_def by blast

lemma issues_try_bind:
  assumes "issues log m P" "\<And>r. issues log (f r) Q"
  shows "issues log (d_bind (d_try m) f) (\<lambda>cs. \<exists>a b. P a \<and> Q b \<and> cs = a @ b)"
  unfolding issues_def
proof (intro allI impI)
  fix s r s'
  assume "d_bind (d_try m) f s = Some (r, s')"
  then obtain r1 s1 where m: "m s = Some (r1, s1)" "f r1 s1 = Some (r, s')"
    by (auto simp: d_bind_def d_try_def split: option.splits prod.splits)
  obtain a b where "P a" "log s1 = log s @ a" "Q b" "log s' = log s1 @ b"
    using issuesD [OF assms(1) m(1)] issuesD [OF assms(2) m(2)] by blast
  then show "\<exists>cs. (\<exists>a b. P a \<and> Q b \<and> cs = a @ b) \<and> log s' = log s @ cs" by auto
qed

lemma issues_res: "issues log (d_res x) (\<lambda>cs. cs = [])"
  by (simp add: issues_def d_res_def)

lemma command_logged:
  "command_log runner bin log \<Longrightarrow> runner bin args s = (r, s') \<Longrightarrow> log s' = log s @ [args]"
  unfolding command_log_def by (metis snd_conv)

lemma issues_checked:
  "command_log runner bin log \<Longrightarrow> issues log (run_checked runner bin args) (\<lambda>cs. cs = [with_lock_wait args])"
  unfolding issues_def run_checked_eq by (auto split: prod.splits sum.splits dest: command_logged)

lemma issues_allow_missing:
  "command_log runner bin log
     \<Longrightarrow> issues log (run_checked_allow_missing_chain runner bin args) (\<lambda>cs. cs = [with_lock_wait args])"
  unfolding issues_def run_checked_allow_eq by (auto split: prod.splits sum.splits dest: command_logged)

text \<open>The removal of the jumps to a chain: a listing of the INPUT chain, then deletions of a
  jump to this chain and listings.\<close>

definition list_input :: "rstr list" where
  "list_input = with_lock_wait [lit ''-S'', INPUT]"

definition delete_jump :: "rstr \<Rightarrow> rstr list" where
  "delete_jump c = with_lock_wait [lit ''-D'', INPUT, lit ''-j'', c]"

definition jump_removal :: "rstr \<Rightarrow> rstr list list \<Rightarrow> bool" where
  "jump_removal c cs \<longleftrightarrow> (\<exists>a. cs = list_input # a \<and> set a \<subseteq> {list_input, delete_jump c})"

lemma jump_removal_simps:
  "jump_removal c [list_input]" "jump_removal c [list_input, delete_jump c]"
  "jump_removal c cs \<Longrightarrow> jump_removal c (list_input # delete_jump c # cs)"
  by (auto simp: jump_removal_def)

lemma issues_remove_step:
  fixes rec :: "'s runner \<Rightarrow> firewall_family \<Rightarrow> rstr \<Rightarrow> ('s, firewall_error, unit) dact"
  assumes log: "command_log runner (binary fam) log"
    and rec: "issues log (rec runner fam c) (jump_removal c)"
  shows "issues log (d_bind (run_checked runner (binary fam) [lit ''-S'', INPUT]) (\<lambda>inp.
      if exact_jump_positions (cr_stdout inp) c = [] then d_ok ()
      else d_bind (run_checked runner (binary fam) [lit ''-D'', INPUT, lit ''-j'', c]) (\<lambda>_. rec runner fam c)))
    (jump_removal c)"
  unfolding issues_def
proof (intro allI impI)
  fix s r s'
  let ?list = "run_checked runner (binary fam) [lit ''-S'', INPUT]"
  let ?del = "run_checked runner (binary fam) [lit ''-D'', INPUT, lit ''-j'', c]"
  assume run: "d_bind ?list (\<lambda>inp. if exact_jump_positions (cr_stdout inp) c = [] then d_ok ()
      else d_bind ?del (\<lambda>_. rec runner fam c)) s = Some (r, s')"
  obtain r1 s1 where 1: "?list s = Some (r1, s1)" using run by (cases "?list s") (auto simp: d_bind_def)
  have l1: "log s1 = log s @ [list_input]"
    using issuesD [OF issues_checked [OF log] 1] by (simp add: list_input_def)
  obtain r2 s2 where 2: "?del s1 = Some (r2, s2)"
    by (cases "?del s1") (auto simp: run_checked_eq split: prod.splits sum.splits)
  have l2: "log s2 = log s1 @ [delete_jump c]"
    using issuesD [OF issues_checked [OF log] 2] by (simp add: delete_jump_def)
  have l3: "\<exists>cs. jump_removal c cs \<and> log s' = log s2 @ cs" if "rec runner fam c s2 = Some (r, s')"
    using issuesD [OF rec that] .
  have "s' = s1 \<or> s' = s2 \<or> rec runner fam c s2 = Some (r, s')"
    using run 1 2 by (cases r1; cases r2) (auto simp: d_bind_def d_ok_def split: if_splits)
  then show "\<exists>cs. jump_removal c cs \<and> log s' = log s @ cs"
  proof (elim disjE)
    assume "s' = s1"
    then show ?thesis using l1 jump_removal_simps(1) by blast
  next
    assume "s' = s2"
    then have "log s' = log s @ [list_input, delete_jump c]" using l1 l2 by simp
    then show ?thesis using jump_removal_simps(2) by blast
  next
    assume "rec runner fam c s2 = Some (r, s')"
    then obtain cs where "jump_removal c cs" "log s' = log s2 @ cs" using l3 by blast
    then have "log s' = log s @ list_input # delete_jump c # cs" using l1 l2 by simp
    then show ?thesis using jump_removal_simps(3) \<open>jump_removal c cs\<close> by blast
  qed
qed

lemma issues_remove:
  assumes "command_log runner (binary fam) log"
  shows "issues log (remove_all_input_jumps_for_chain runner fam c) (jump_removal c)"
proof -
  have "command_log runner (binary fam) log \<longrightarrow> (\<exists>cs. jump_removal c cs \<and> log (snd y) = log s @ cs)"
    if "remove_all_input_jumps_for_chain runner fam c s = Some y" for s y
  proof (rule remove_all_input_jumps_for_chain.raw_induct
        [where P = "\<lambda>runner fam c s y. command_log runner (binary fam) log \<longrightarrow>
            (\<exists>cs. jump_removal c cs \<and> log (snd y) = log s @ cs)", OF _ that], intro impI)
    fix rec runner fam c s and y :: "(firewall_error + unit) \<times> 'a"
    assume IH: "\<And>runner fam c s y. rec runner fam c s = Some y \<Longrightarrow>
        command_log runner (binary fam) log \<longrightarrow> (\<exists>cs. jump_removal c cs \<and> log (snd y) = log s @ cs)"
      and log: "command_log runner (binary fam) log"
      and step: "(case run_checked runner (binary fam) [lit ''-S'', lit ''INPUT''] s of
          None \<Rightarrow> None
        | Some (r, s) \<Rightarrow> (case r of
            Inl e \<Rightarrow> Some (Inl e, s)
          | Inr inp \<Rightarrow>
              if exact_jump_positions (cr_stdout inp) c = [] then Some (Inr (), s)
              else (case fw_run runner (binary fam) (with_lock_wait [lit ''-D'', lit ''INPUT'', lit ''-j'', c]) s of
                  None \<Rightarrow> None
                | Some (r, s) \<Rightarrow> (case r of
                    Inl e \<Rightarrow> Some (Inl e, s)
                  | Inr result \<Rightarrow>
                      if status_success (cr_status result) then rec runner fam c s
                      else Some (Inl (CommandFailed (display_command (binary fam)
                             (with_lock_wait [lit ''-D'', lit ''INPUT'', lit ''-j'', c]))
                             (cr_status result) (cr_stderr result)), s))))) = Some y"
    have "issues log (rec runner fam c) (jump_removal c)"
      unfolding issues_def using IH log by fastforce
    from issues_remove_step [where rec = rec, OF log this]
    have "issues log (d_bind (run_checked runner (binary fam) [lit ''-S'', lit ''INPUT'']) (\<lambda>inp.
        if exact_jump_positions (cr_stdout inp) c = [] then d_ok ()
        else d_bind (run_checked runner (binary fam) [lit ''-D'', lit ''INPUT'', lit ''-j'', c]) (\<lambda>_. rec runner fam c)))
      (jump_removal c)" unfolding INPUT_def .
    from issuesD [OF this, of s "fst y" "snd y"] step
    show "\<exists>cs. jump_removal c cs \<and> log (snd y) = log s @ cs"
      by (simp add: d_bind_def d_ok_def fw_run_eq run_checked_eq split: prod.splits sum.splits if_splits)
  qed
  with assms show ?thesis unfolding issues_def by fastforce
qed

text \<open>All six attempts, in this order.\<close>

definition cleanup_attempts :: "rstr list list \<Rightarrow> bool" where
  "cleanup_attempts cs \<longleftrightarrow> (\<exists>a b. jump_removal KIDOBO_STAGING_CHAIN_NAME a \<and> jump_removal KIDOBO_CHAIN_NAME b
     \<and> cs = a @ b @ [with_lock_wait [lit ''-F'', KIDOBO_STAGING_CHAIN_NAME], with_lock_wait [lit ''-X'', KIDOBO_STAGING_CHAIN_NAME],
         with_lock_wait [lit ''-F'', KIDOBO_CHAIN_NAME], with_lock_wait [lit ''-X'', KIDOBO_CHAIN_NAME]])"

lemma issues_mono: "issues log m P \<Longrightarrow> (\<And>cs. P cs \<Longrightarrow> Q cs) \<Longrightarrow> issues log m Q"
  unfolding issues_def by blast

lemma cleanup_issues:
  assumes "command_log runner (binary fam) log"
  shows "issues log (cleanup_firewall_wiring runner fam) cleanup_attempts"
proof -
  note I = issues_try_bind [OF issues_remove [OF assms]] issues_try_bind [OF issues_allow_missing [OF assms]]
  show ?thesis
    unfolding cleanup_firewall_wiring_def Let_def
    by (rule issues_mono, rule I, rule I, rule I, rule I, rule I, rule I, rule issues_res)
      (auto simp: cleanup_attempts_def)
qed

text \<open>A runner that keeps the log beside the state of another one.\<close>

definition recorded :: "'s runner \<Rightarrow> ('s \<times> rstr list list) runner" where
  "recorded runner program args s = (case runner program args (fst s) of (r, s') \<Rightarrow> (r, s', snd s @ [args]))"

lemma recorded_log: "command_log (recorded runner) bin snd"
  by (simp add: command_log_def recorded_def split: prod.split)

lemma recorded_law: "iptables_law runner view bin \<Longrightarrow> iptables_law (recorded runner) (view \<circ> fst) bin"
  unfolding iptables_law_def recorded_def by (fastforce split: prod.splits)

section \<open>Properties of the clean-up\<close>

text \<open>
  C37: Cleanup always returns and makes all six attempts whatever fails: it removes the jumps to
  the staging chain and to the stable chain (each time a listing of INPUT, then deletions of
  this jump), flushes and deletes the staging chain, flushes and deletes the stable chain, in
  this order and with no other command. It never touches a rule or chain of others, and its
  success means that no jump and no chain of the program is left.
\<close>

theorem cleanup_exact:
  assumes "iptables_law runner view (binary fam)" "rules_ok (view s)" "view s INPUT = Some i0"
    and "command_log runner (binary fam) log"
  shows "\<exists>r s'. cleanup_firewall_wiring runner fam s = Some (r, s')
    \<and> (\<exists>a b. jump_removal KIDOBO_STAGING_CHAIN_NAME a \<and> jump_removal KIDOBO_CHAIN_NAME b
        \<and> log s' = log s @ a @ b
           @ [with_lock_wait [lit ''-F'', KIDOBO_STAGING_CHAIN_NAME], with_lock_wait [lit ''-X'', KIDOBO_STAGING_CHAIN_NAME],
              with_lock_wait [lit ''-F'', KIDOBO_CHAIN_NAME], with_lock_wait [lit ''-X'', KIDOBO_CHAIN_NAME]])
    \<and> (case r of
        Inl e \<Rightarrow> from_command e
          \<and> (\<exists>i. view s' INPUT = Some i \<and> filter unmanaged_rule i = filter unmanaged_rule i0)
          \<and> (\<forall>c. \<not> managed c \<longrightarrow> c \<noteq> INPUT \<longrightarrow> view s' c = view s c)
      | Inr _ \<Rightarrow> view s' = (view s)(INPUT \<mapsto> filter unmanaged_rule i0,
          KIDOBO_CHAIN_NAME := None, KIDOBO_STAGING_CHAIN_NAME := None))"
proof -
  have "list_all rule_ok i0" using assms(2,3) by (auto simp: rules_ok_def)
  moreover have "holds view (view s) (\<lambda>i st sg. i = i0) s"
    using mk_self [of "view s" i0] assms(3) unfolding holds_def by metis
  ultimately obtain r s' where r: "cleanup_firewall_wiring runner fam s = Some (r, s')"
    "case r of Inl e \<Rightarrow> fw_fails view (view s) (\<lambda>i st sg. filter unmanaged_rule i = filter unmanaged_rule i0) e s'
     | Inr u \<Rightarrow> holds view (view s) (\<lambda>i st sg. i = filter unmanaged_rule i0 \<and> st = None \<and> sg = None) s'"
    using returns_imp [OF wiring_cleanup_returns [OF assms(1)], of i0 "view s" s] by blast
  obtain cs where cs: "cleanup_attempts cs" "log s' = log s @ cs"
    using issuesD [OF cleanup_issues [OF assms(4)] r(1)] by blast
  show ?thesis
  proof (intro exI [of _ r] exI [of _ s'] conjI)
    show "\<exists>a b. jump_removal KIDOBO_STAGING_CHAIN_NAME a \<and> jump_removal KIDOBO_CHAIN_NAME b
        \<and> log s' = log s @ a @ b
           @ [with_lock_wait [lit ''-F'', KIDOBO_STAGING_CHAIN_NAME], with_lock_wait [lit ''-X'', KIDOBO_STAGING_CHAIN_NAME],
              with_lock_wait [lit ''-F'', KIDOBO_CHAIN_NAME], with_lock_wait [lit ''-X'', KIDOBO_CHAIN_NAME]]"
      using cs unfolding cleanup_attempts_def by blast
  qed (use r in \<open>cases r; auto simp: holds_def mk_unmanaged mk_def [of "view s" "filter unmanaged_rule i0"]\<close>)+
qed

theorem cleanup_exact_witness:
  "\<exists>r s'. cleanup_firewall_wiring (recorded model_iptables) FwIpv6 ((wired_host, 100), []) = Some (r, s')
    \<and> (\<exists>a b. jump_removal KIDOBO_STAGING_CHAIN_NAME a \<and> jump_removal KIDOBO_CHAIN_NAME b
        \<and> snd s' = a @ b
           @ [with_lock_wait [lit ''-F'', KIDOBO_STAGING_CHAIN_NAME], with_lock_wait [lit ''-X'', KIDOBO_STAGING_CHAIN_NAME],
              with_lock_wait [lit ''-F'', KIDOBO_CHAIN_NAME], with_lock_wait [lit ''-X'', KIDOBO_CHAIN_NAME]])
    \<and> (case r of
        Inl e \<Rightarrow> from_command e
          \<and> (\<exists>i. fst (fst s') INPUT = Some i \<and> filter unmanaged_rule i
               = filter unmanaged_rule [stable_jump, lit ''-p tcp -j ACCEPT'', staging_jump])
          \<and> (\<forall>c. \<not> managed c \<longrightarrow> c \<noteq> INPUT \<longrightarrow> fst (fst s') c = wired_host c)
      | Inr _ \<Rightarrow> fst (fst s') = wired_host(INPUT \<mapsto> filter unmanaged_rule [stable_jump, lit ''-p tcp -j ACCEPT'', staging_jump],
          KIDOBO_CHAIN_NAME := None, KIDOBO_STAGING_CHAIN_NAME := None))"
  by (rule cleanup_exact [where s = "((wired_host, 100), [])" and view = "fst \<circ> fst" and log = snd,
        unfolded comp_apply fst_conv snd_conv append_Nil,
        OF recorded_law [OF model_iptables_law, unfolded comp_def] wired_host_ok wired_host_INPUT recorded_log])

end
