(* ===== verification/Files.thy ===== *)
theory Files
  imports Actions Ip_Text
begin

text \<open>
  Bounded and atomic file access, \<^verbatim>\<open>crates/kidobo-adapters/src/limited_io.rs\<close>, and the
  functions of \<open>std::path\<close> the adapters use.

  The operating system is a parameter (\<open>file_host\<close>); \<open>file_law\<close> states the documented effect of
  its calls on the contents of the files. Every call may fail without an effect, and a call may
  keep failing from some point on, so what holds for all hosts under the law at every exit also
  holds of what is found on disk after a crash at any call. Paths are Unicode, and two paths
  name one file only if they are equal (no links).
\<close>

section \<open>Errors and paths\<close>

datatype io_error = AlreadyExists | NotFound | WouldBlock | InvalidInput | InvalidData | OtherIo rstr

text \<open>\<open>PathBuf::join\<close> with a relative component; code point 47 is the slash, 46 the dot.\<close>

definition path_join :: "rstr \<Rightarrow> rstr \<Rightarrow> rstr" where
  "path_join d f = (if d = [] then f else if last d = 47 then d @ f else d @ [47] @ f)"

text \<open>A path without the separators and the \<open>.\<close> components at its end, on the reversed text.\<close>

fun trim_back :: "rstr \<Rightarrow> rstr" where
  "trim_back [] = []"
| "trim_back [c] = [c]"
| "trim_back (c # d # r) =
     (if c = 47 \<or> c = 46 \<and> d = 47 then trim_back (d # r) else c # d # r)"

definition is_sep :: "nat \<Rightarrow> bool" where
  "is_sep c \<longleftrightarrow> c = 47"

text \<open>\<open>Path::file_name\<close> and \<open>Path::parent\<close>.\<close>

definition path_file_name :: "rstr \<Rightarrow> rstr option" where
  "path_file_name p =
     (let r = trim_back (rev p); name = rev (takeWhile (\<lambda>c. \<not> is_sep c) r)
      in if name = [] \<or> name = [46] \<or> name = [46, 46] then None else Some name)"

definition path_parent :: "rstr \<Rightarrow> rstr option" where
  "path_parent p =
     (let r = trim_back (rev p)
      in if r = [] \<or> r = [47] then None
         else Some (rev (trim_back (dropWhile (\<lambda>c. \<not> is_sep c) r))))"

section \<open>The operating system\<close>

text \<open>
  The bytes of a file as \<open>String::from_utf8\<close> sees them: a text, or the bytes of something
  that is not valid UTF-8. A permission set is opaque.
\<close>

datatype file_bytes = Utf8 rstr | Raw "8 word list"

fun byte_len :: "file_bytes \<Rightarrow> nat" where
  "byte_len (Utf8 t) = utf8_len t"
| "byte_len (Raw bs) = length bs"

text \<open>
  \<open>fh_open_regular\<close> opens for reading and asks whether the file is a regular one; \<open>fh_read\<close>
  reads to the end, but at most so many bytes; a creation has an optional mode.
\<close>

record 's file_host =
  fh_open_regular :: "rstr \<Rightarrow> ('s, io_error, bool) dact"
  fh_read :: "rstr \<Rightarrow> nat \<Rightarrow> ('s, io_error, file_bytes) dact"
  fh_permissions :: "rstr \<Rightarrow> ('s, io_error, nat) dact"
  fh_create_new :: "rstr \<Rightarrow> nat option \<Rightarrow> ('s, io_error, unit) dact"
  fh_set_permissions :: "rstr \<Rightarrow> nat \<Rightarrow> ('s, io_error, unit) dact"
  fh_write_all :: "rstr \<Rightarrow> file_bytes \<Rightarrow> ('s, io_error, unit) dact"
  fh_sync_file :: "rstr \<Rightarrow> ('s, io_error, unit) dact"
  fh_rename :: "rstr \<Rightarrow> rstr \<Rightarrow> ('s, io_error, unit) dact"
  fh_hard_link :: "rstr \<Rightarrow> rstr \<Rightarrow> ('s, io_error, unit) dact"
  fh_remove_file :: "rstr \<Rightarrow> ('s, io_error, unit) dact"
  fh_sync_directory :: "rstr \<Rightarrow> ('s, io_error, unit) dact"
  fh_create_dir_all :: "rstr \<Rightarrow> ('s, io_error, unit) dact"
  fh_process_id :: nat
  fh_next_counter :: "'s \<Rightarrow> nat \<times> 's"

section \<open>Bounded reads\<close>

definition U64_LIMIT :: nat where
  "U64_LIMIT = 2 ^ 64 - 1"

definition read_to_end_with_limit ::
    "(nat \<Rightarrow> ('s, io_error, file_bytes) dact) \<Rightarrow> nat \<Rightarrow> ('s, io_error, file_bytes) dact" where
  "read_to_end_with_limit reader max_bytes =
     (let extra_byte_limit = min ((if max_bytes \<le> U64_LIMIT then max_bytes else U64_LIMIT - 1) + 1) U64_LIMIT
      in d_bind (reader extra_byte_limit) (\<lambda>contents.
           if byte_len contents > max_bytes then d_err InvalidData else d_ok contents))"

definition read_bytes_with_limit ::
    "('s, 'z) file_host_scheme \<Rightarrow> rstr \<Rightarrow> nat \<Rightarrow> ('s, io_error, file_bytes) dact" where
  "read_bytes_with_limit h path max_bytes =
     d_bind (fh_open_regular h path) (\<lambda>regular.
       if \<not> regular then d_err InvalidInput
       else read_to_end_with_limit (fh_read h path) max_bytes)"

definition read_to_string_with_limit ::
    "('s, 'z) file_host_scheme \<Rightarrow> rstr \<Rightarrow> nat \<Rightarrow> ('s, io_error, rstr) dact" where
  "read_to_string_with_limit h path max_bytes =
     d_bind (read_bytes_with_limit h path max_bytes) (\<lambda>bytes.
       case bytes of Utf8 t \<Rightarrow> d_ok t | Raw _ \<Rightarrow> d_err InvalidData)"

section \<open>Atomic writes\<close>

datatype publication_mode = Replace | CreateNew

definition temp_write_path :: "('s, 'z) file_host_scheme \<Rightarrow> rstr \<Rightarrow> rstr \<Rightarrow> 's \<Rightarrow> rstr \<times> 's" where
  "temp_write_path h parent path s =
     (let file_name = (case path_file_name path of Some n \<Rightarrow> n | None \<Rightarrow> lit ''kidobo'')
      in case fh_next_counter h s of (counter, s) \<Rightarrow>
           (path_join parent ([46] @ file_name @ lit ''.kidobo-tmp-'' @ show_nat (fh_process_id h)
              @ [45] @ show_nat counter), s))"

definition publish_temp ::
    "('s, 'z) file_host_scheme \<Rightarrow> rstr \<Rightarrow> rstr \<Rightarrow> rstr \<Rightarrow> publication_mode \<Rightarrow> ('s, io_error, unit) dact" where
  "publish_temp h parent temp path mode = (case mode of
     Replace \<Rightarrow> d_bind (fh_rename h temp path) (\<lambda>_. fh_sync_directory h parent)
   | CreateNew \<Rightarrow>
       d_bind (d_try (fh_hard_link h temp path)) (\<lambda>publication.
       d_bind (fh_remove_file h temp) (\<lambda>_.
       d_bind (fh_sync_directory h parent) (\<lambda>_. d_res publication))))"

text \<open>Mode 384 is octal 600.\<close>

definition write_temp ::
    "('s, 'z) file_host_scheme \<Rightarrow> rstr \<Rightarrow> rstr \<Rightarrow> rstr \<Rightarrow> file_bytes \<Rightarrow> publication_mode \<Rightarrow> bool
     \<Rightarrow> nat option \<Rightarrow> ('s, io_error, unit) dact" where
  "write_temp h parent temp path contents mode private permissions =
     d_bind (if private then fh_set_permissions h temp 384
             else case permissions of Some p \<Rightarrow> fh_set_permissions h temp p | None \<Rightarrow> d_ok ()) (\<lambda>_.
     d_bind (fh_write_all h temp contents) (\<lambda>_.
     d_bind (fh_sync_file h temp) (\<lambda>_.
       publish_temp h parent temp path mode)))"

fun write_attempts ::
    "('s, 'z) file_host_scheme \<Rightarrow> nat \<Rightarrow> rstr \<Rightarrow> rstr \<Rightarrow> file_bytes \<Rightarrow> publication_mode \<Rightarrow> bool
     \<Rightarrow> nat option \<Rightarrow> ('s, io_error, unit) dact" where
  "write_attempts h 0 parent path contents mode private permissions = d_err AlreadyExists"
| "write_attempts h (Suc n) parent path contents mode private permissions = (\<lambda>s.
     case temp_write_path h parent path s of (temp, s) \<Rightarrow>
       d_bind (d_try (fh_create_new h temp (if private then Some 384 else None))) (\<lambda>created. case created of
           Inr _ \<Rightarrow> d_bind (d_try (write_temp h parent temp path contents mode private permissions)) (\<lambda>result.
             case result of
               Inl e \<Rightarrow> d_bind (d_try (fh_remove_file h temp)) (\<lambda>_. d_err e)
             | Inr _ \<Rightarrow> d_ok ())
         | Inl e \<Rightarrow> if e = AlreadyExists
             then write_attempts h n parent path contents mode private permissions else d_err e) s)"

definition write_bytes_atomic_mode ::
    "('s, 'z) file_host_scheme \<Rightarrow> rstr \<Rightarrow> file_bytes \<Rightarrow> publication_mode \<Rightarrow> bool \<Rightarrow> ('s, io_error, unit) dact" where
  "write_bytes_atomic_mode h path contents mode private =
     (let parent = (case path_parent path of Some p \<Rightarrow> if p = [] then [46] else p | None \<Rightarrow> [46])
      in d_bind (case mode of
             CreateNew \<Rightarrow> d_ok None
           | Replace \<Rightarrow> d_bind (d_try (fh_permissions h path)) (\<lambda>metadata. case metadata of
               Inr p \<Rightarrow> d_ok (Some p)
             | Inl e \<Rightarrow> if e = NotFound then d_ok None else d_err e)) (\<lambda>permissions.
           write_attempts h 16 parent path contents mode private permissions))"

definition write_bytes_atomic :: "('s, 'z) file_host_scheme \<Rightarrow> rstr \<Rightarrow> file_bytes \<Rightarrow> ('s, io_error, unit) dact" where
  "write_bytes_atomic h path contents = write_bytes_atomic_mode h path contents Replace False"

definition write_string_atomic :: "('s, 'z) file_host_scheme \<Rightarrow> rstr \<Rightarrow> rstr \<Rightarrow> ('s, io_error, unit) dact" where
  "write_string_atomic h path contents = write_bytes_atomic h path (Utf8 contents)"

definition write_string_atomic_with_limit ::
    "('s, 'z) file_host_scheme \<Rightarrow> rstr \<Rightarrow> rstr \<Rightarrow> nat \<Rightarrow> ('s, io_error, unit) dact" where
  "write_string_atomic_with_limit h path contents max_bytes =
     (if utf8_len contents > max_bytes then d_err InvalidData else write_string_atomic h path contents)"

definition create_string_atomic :: "('s, 'z) file_host_scheme \<Rightarrow> rstr \<Rightarrow> rstr \<Rightarrow> ('s, io_error, unit) dact" where
  "create_string_atomic h path contents = write_bytes_atomic_mode h path (Utf8 contents) CreateNew False"

definition create_private_string_atomic :: "('s, 'z) file_host_scheme \<Rightarrow> rstr \<Rightarrow> rstr \<Rightarrow> ('s, io_error, unit) dact" where
  "create_private_string_atomic h path contents = write_bytes_atomic_mode h path (Utf8 contents) CreateNew True"

definition write_private_string_atomic_with_limit ::
    "('s, 'z) file_host_scheme \<Rightarrow> rstr \<Rightarrow> rstr \<Rightarrow> nat \<Rightarrow> ('s, io_error, unit) dact" where
  "write_private_string_atomic_with_limit h path contents max_bytes =
     (if utf8_len contents > max_bytes then d_err InvalidData
      else write_bytes_atomic_mode h path (Utf8 contents) Replace True)"

section \<open>What the operating system promises\<close>

type_synonym file_map = "rstr \<Rightarrow> file_bytes option"

text \<open>A call that leaves all files as they are.\<close>

definition quiet_call :: "('s \<Rightarrow> file_map) \<Rightarrow> ('s, io_error, 'a) dact \<Rightarrow> bool" where
  "quiet_call files m \<longleftrightarrow> (\<forall>F. returns (\<lambda>s. files s = F) m (\<lambda>_ s. files s = F) (\<lambda>_ s. files s = F))"

definition file_law :: "('s, 'z) file_host_scheme \<Rightarrow> ('s \<Rightarrow> file_map) \<Rightarrow> bool" where
  "file_law h files \<longleftrightarrow> (\<forall>F p q n m c.
     returns (\<lambda>s. files s = F) (fh_open_regular h p) (\<lambda>b s. files s = F \<and> (b \<longrightarrow> F p \<noteq> None))
       (\<lambda>e s. files s = F \<and> (e = NotFound \<longrightarrow> F p = None))
   \<and> returns (\<lambda>s. files s = F) (fh_read h p n)
       (\<lambda>b s. files s = F \<and> (\<exists>d. F p = Some d \<and> (if byte_len d \<le> n then b = d else byte_len b = n)))
       (\<lambda>e s. files s = F \<and> e \<noteq> NotFound)
   \<and> quiet_call files (fh_permissions h p) \<and> quiet_call files (fh_set_permissions h p n)
   \<and> quiet_call files (fh_sync_file h p) \<and> quiet_call files (fh_sync_directory h p)
   \<and> quiet_call files (fh_create_dir_all h p)
   \<and> returns (\<lambda>s. files s = F) (fh_create_new h p m) (\<lambda>_ s. F p = None \<and> files s = F(p \<mapsto> Utf8 []))
       (\<lambda>_ s. files s = F)
   \<and> returns (\<lambda>s. files s = F) (fh_write_all h p c) (\<lambda>_ s. (\<exists>x. files s = F(p := x)) \<and> (F p = Some (Utf8 []) \<longrightarrow> files s = F(p \<mapsto> c)))
       (\<lambda>_ s. \<exists>x. files s = F(p := x))
   \<and> returns (\<lambda>s. files s = F) (fh_rename h p q) (\<lambda>_ s. F p \<noteq> None \<and> files s = F(p := None, q := F p))
       (\<lambda>_ s. files s = F)
   \<and> returns (\<lambda>s. files s = F) (fh_hard_link h p q) (\<lambda>_ s. F p \<noteq> None \<and> F q = None \<and> files s = F(q := F p))
       (\<lambda>_ s. files s = F)
   \<and> returns (\<lambda>s. files s = F) (fh_remove_file h p) (\<lambda>_ s. files s = F(p := None)) (\<lambda>_ s. files s = F)
   \<and> (\<forall>s. files (snd (fh_next_counter h s)) = files s))"

section \<open>Atomic writes are all or nothing\<close>

lemma trim_back_last: "p \<noteq> [] \<Longrightarrow> last (trim_back p) = last p"
  by (induction p rule: trim_back.induct) auto

definition path_base :: "rstr \<Rightarrow> rstr" where
  "path_base p = rev (takeWhile (\<lambda>c. \<not> is_sep c) (rev p))"

lemma takeWhile_stop: "\<forall>x \<in> set xs. P x \<Longrightarrow> \<not> P y \<Longrightarrow> takeWhile P (xs @ y # ys) = xs"
  by (induction xs) auto

lemma base_join: "47 \<notin> set f \<Longrightarrow> path_base (path_join d f) = f"
proof -
  assume f: "47 \<notin> set f"
  then have all: "\<forall>x \<in> set (rev f). \<not> is_sep x" by (auto simp: is_sep_def)
  show ?thesis
  proof (cases "d = []")
    case True
    then show ?thesis using all by (simp add: path_join_def path_base_def takeWhile_eq_all_conv [THEN iffD2])
  next
    case False
    then obtain e x where d: "d = e @ [x]" by (cases d rule: rev_cases) auto
    show ?thesis
      using takeWhile_stop [OF all, of 47 "rev e"] takeWhile_stop [OF all, of 47 "rev d"] d
      by (auto simp: path_join_def path_base_def is_sep_def)
  qed
qed

lemma trim_back_suffix: "suffix (trim_back p) p"
  by (induction p rule: trim_back.induct) (auto simp: suffix_Cons)

lemma trim_back_head: "trim_back p = c # r \<Longrightarrow> r \<noteq> [] \<Longrightarrow> c \<noteq> 47"
  by (induction p rule: trim_back.induct) (auto split: if_splits)

text \<open>The last component of the path, unless something was trimmed off its end.\<close>

lemma base_file_name:
  assumes "path_file_name p = Some n"
  shows "path_base p = n \<or> path_base p = [] \<or> path_base p = [46]"
proof -
  let ?r = "trim_back (rev p)"
  have n: "n = rev (takeWhile (\<lambda>c. \<not> is_sep c) ?r)"
    using assms by (simp add: path_file_name_def Let_def split: if_splits)
  have "takeWhile (\<lambda>c. \<not> is_sep c) q = takeWhile (\<lambda>c. \<not> is_sep c) (trim_back q)
      \<or> takeWhile (\<lambda>c. \<not> is_sep c) q = [] \<or> takeWhile (\<lambda>c. \<not> is_sep c) q = [46]" for q
    by (cases q rule: trim_back.cases) (auto simp: is_sep_def)
  from this [of "rev p"] show ?thesis unfolding path_base_def n by auto
qed

lemma file_name_no_slash: "path_file_name p = Some n \<Longrightarrow> 47 \<notin> set n"
  by (auto simp: path_file_name_def Let_def is_sep_def dest: set_takeWhileD split: if_splits)

lemma no_file_name:
  assumes "path_file_name p = None"
  shows "path_base p \<in> {[], [46], [46, 46]}"
proof -
  let ?P = "\<lambda>c. \<not> is_sep c"
  have tr: "rev (takeWhile ?P (trim_back (rev p))) \<in> {[], [46], [46, 46]}"
    using assms by (auto simp: path_file_name_def Let_def split: if_splits)
  have "takeWhile ?P q = takeWhile ?P (trim_back q) \<or> takeWhile ?P q = [] \<or> takeWhile ?P q = [46]" for q
    by (cases q rule: trim_back.cases) (auto simp: is_sep_def)
  from this [of "rev p"] have "path_base p = rev (takeWhile ?P (trim_back (rev p))) \<or> path_base p \<in> {[], [46]}"
    unfolding path_base_def by auto
  with tr show ?thesis by auto
qed

definition path_directory :: "rstr \<Rightarrow> rstr" where
  "path_directory path = (case path_parent path of Some p \<Rightarrow> if p = [] then [46] else p | None \<Rightarrow> [46])"

definition temp_paths :: "('s, 'z) file_host_scheme \<Rightarrow> rstr \<Rightarrow> rstr set" where
  "temp_paths h path = (\<lambda>k. path_join (path_directory path)
     ([46] @ (case path_file_name path of Some n \<Rightarrow> n | None \<Rightarrow> lit ''kidobo'')
        @ lit ''.kidobo-tmp-'' @ show_nat (fh_process_id h) @ [45] @ show_nat k)) ` UNIV"

lemma slash_notin_show_nat: "47 \<notin> set (show_nat n)"
  using slash_notin_radix [of 10 n] by (simp add: show_nat_def)

lemma temp_not_path: "path \<notin> temp_paths h path"
proof
  assume "path \<in> temp_paths h path"
  then obtain k where k: "path = path_join (path_directory path)
     ([46] @ (case path_file_name path of Some n \<Rightarrow> n | None \<Rightarrow> lit ''kidobo'')
        @ lit ''.kidobo-tmp-'' @ show_nat (fh_process_id h) @ [45] @ show_nat k)" (is "_ = path_join _ ?f")
    by (auto simp: temp_paths_def)
  have "47 \<notin> set ?f"
    using slash_notin_show_nat file_name_no_slash by (auto simp: lit_def split: option.splits)
  then have b: "path_base path = ?f" using base_join k by metis
  show False
  proof (cases "path_file_name path")
    case None
    then show ?thesis using no_file_name [OF None] b by (auto simp: lit_def)
  next
    case (Some n)
    have "length ?f > length n" "length ?f > 1" by (simp_all add: Some lit_def)
    then show ?thesis using base_file_name [OF Some] b by force
  qed
qed

locale file_system =
  fixes h :: "('s, 'z) file_host_scheme" and files :: "'s \<Rightarrow> file_map"
  assumes law: "file_law h files"
begin

lemma open_returns: "returns (\<lambda>s. files s = F) (fh_open_regular h p) (\<lambda>b s. files s = F \<and> (b \<longrightarrow> F p \<noteq> None))
       (\<lambda>e s. files s = F \<and> (e = NotFound \<longrightarrow> F p = None))"
  and read_returns: "returns (\<lambda>s. files s = F) (fh_read h p n)
       (\<lambda>b s. files s = F \<and> (\<exists>d. F p = Some d \<and> (if byte_len d \<le> n then b = d else byte_len b = n)))
       (\<lambda>e s. files s = F \<and> e \<noteq> NotFound)"
  and create_new_returns: "returns (\<lambda>s. files s = F) (fh_create_new h p m)
       (\<lambda>_ s. F p = None \<and> files s = F(p \<mapsto> Utf8 [])) (\<lambda>_ s. files s = F)"
  and write_all_returns: "returns (\<lambda>s. files s = F) (fh_write_all h p c)
       (\<lambda>_ s. (\<exists>x. files s = F(p := x)) \<and> (F p = Some (Utf8 []) \<longrightarrow> files s = F(p \<mapsto> c))) (\<lambda>_ s. \<exists>x. files s = F(p := x))"
  and rename_returns: "returns (\<lambda>s. files s = F) (fh_rename h p q)
       (\<lambda>_ s. F p \<noteq> None \<and> files s = F(p := None, q := F p)) (\<lambda>_ s. files s = F)"
  and hard_link_returns: "returns (\<lambda>s. files s = F) (fh_hard_link h p q)
       (\<lambda>_ s. F p \<noteq> None \<and> F q = None \<and> files s = F(q := F p)) (\<lambda>_ s. files s = F)"
  and remove_returns: "returns (\<lambda>s. files s = F) (fh_remove_file h p)
       (\<lambda>_ s. files s = F(p := None)) (\<lambda>_ s. files s = F)"
  and counter_files: "files (snd (fh_next_counter h s)) = files s"
  using law unfolding file_law_def by blast+

lemma quiet_calls:
  "returns (\<lambda>s. files s = F) (fh_permissions h p) (\<lambda>_ s. files s = F) (\<lambda>_ s. files s = F)"
  "returns (\<lambda>s. files s = F) (fh_set_permissions h p n) (\<lambda>_ s. files s = F) (\<lambda>_ s. files s = F)"
  "returns (\<lambda>s. files s = F) (fh_sync_file h p) (\<lambda>_ s. files s = F) (\<lambda>_ s. files s = F)"
  "returns (\<lambda>s. files s = F) (fh_sync_directory h p) (\<lambda>_ s. files s = F) (\<lambda>_ s. files s = F)"
  "returns (\<lambda>s. files s = F) (fh_create_dir_all h p) (\<lambda>_ s. files s = F) (\<lambda>_ s. files s = F)"
  using law unfolding file_law_def quiet_call_def by blast+

text \<open>Reads.\<close>

lemma read_bytes_returns:
  "returns (\<lambda>s. files s = F) (read_bytes_with_limit h p n)
     (\<lambda>b s. files s = F \<and> F p = Some b \<and> byte_len b \<le> n)
     (\<lambda>e s. files s = F \<and> (e = NotFound \<longrightarrow> F p = None))"
  if "n \<le> U64_LIMIT - 1"
proof -
  have lim: "min ((if n \<le> U64_LIMIT then n else U64_LIMIT - 1) + 1) U64_LIMIT = n + 1"
    using that by (simp add: U64_LIMIT_def)
  have open_file: "returns (\<lambda>s. files s = F) (fh_open_regular h p) (\<lambda>_ s. files s = F)
      (\<lambda>e s. files s = F \<and> (e = NotFound \<longrightarrow> F p = None))"
    by (rule returns_weaken [OF open_returns [of F p]]) auto
  have read_file: "returns (\<lambda>s. files s = F) (fh_read h p (n + 1))
      (\<lambda>b s. files s = F \<and> (\<exists>d. F p = Some d \<and> (if byte_len d \<le> n + 1 then b = d else byte_len b = n + 1)))
      (\<lambda>e s. files s = F \<and> (e = NotFound \<longrightarrow> F p = None))"
    by (rule returns_weaken [OF read_returns [of F p "n + 1"]]) auto
  show ?thesis unfolding read_bytes_with_limit_def read_to_end_with_limit_def Let_def lim
    by (rule returns_bind [OF open_file], rule returns_if, rule returns_err, simp,
        rule returns_bind [OF read_file]) (auto intro!: returns_if returns_ok returns_err split: if_splits)
qed

lemma read_string_returns:
  "returns (\<lambda>s. files s = F) (read_to_string_with_limit h p n)
     (\<lambda>t s. files s = F \<and> F p = Some (Utf8 t) \<and> utf8_len t \<le> n)
     (\<lambda>e s. files s = F \<and> (e = NotFound \<longrightarrow> F p = None))"
  if "n \<le> U64_LIMIT - 1"
  unfolding read_to_string_with_limit_def
proof (rule returns_bind [OF read_bytes_returns [OF that]])
  fix b
  show "returns (\<lambda>s. files s = F \<and> F p = Some b \<and> byte_len b \<le> n)
      (case b of Utf8 t \<Rightarrow> d_ok t | Raw _ \<Rightarrow> d_err InvalidData)
      (\<lambda>t s. files s = F \<and> F p = Some (Utf8 t) \<and> utf8_len t \<le> n)
      (\<lambda>e s. files s = F \<and> (e = NotFound \<longrightarrow> F p = None))"
    by (cases b) (auto intro!: returns_ok returns_err)
qed

end

text \<open>
  What a failed write of \<open>c\<close> may leave: the files as they were or, where it is allowed to, with
  the new contents published, in both cases beside a left-over temporary file.
\<close>

definition may_publish :: "publication_mode \<Rightarrow> rstr \<Rightarrow> file_map \<Rightarrow> bool" where
  "may_publish mode path F \<longleftrightarrow> mode = Replace \<or> F path = None"

definition written_or_kept ::
    "('s, 'z) file_host_scheme \<Rightarrow> publication_mode \<Rightarrow> rstr \<Rightarrow> file_bytes \<Rightarrow> file_map \<Rightarrow> file_map \<Rightarrow> bool" where
  "written_or_kept h mode path c F G \<longleftrightarrow>
     (\<exists>t \<in> temp_paths h path. \<exists>x. G = F(t := x) \<or> may_publish mode path F \<and> G = F(path \<mapsto> c, t := x))"

lemma written_or_kept_refl: "written_or_kept h mode path c F F"
proof -
  obtain t where "t \<in> temp_paths h path" unfolding temp_paths_def by blast
  moreover have "F = F(t := F t)" by simp
  ultimately show ?thesis unfolding written_or_kept_def by metis
qed

lemma written_or_kept_path:
  "written_or_kept h mode path c F G \<Longrightarrow> G path = F path \<or> G path = Some c"
  using temp_not_path [of path h] by (auto simp: written_or_kept_def)

lemma written_or_kept_other:
  "written_or_kept h mode path c F G \<Longrightarrow> q \<noteq> path \<Longrightarrow> q \<notin> temp_paths h path \<Longrightarrow> G q = F q"
  by (auto simp: written_or_kept_def)

lemma returns_false: "(\<And>s. \<not> P s) \<Longrightarrow> returns P m Q E"
  by (simp add: returns_def)

context file_system
begin

lemma publish_returns:
  assumes "t \<in> temp_paths h path" "F t = None"
  shows "returns (\<lambda>s. files s = F(t \<mapsto> c)) (publish_temp h parent t path mode)
    (\<lambda>_ s. may_publish mode path F \<and> files s = F(path \<mapsto> c))
    (\<lambda>_ s. \<exists>x. files s = F(t := x) \<or> may_publish mode path F \<and> files s = F(path \<mapsto> c, t := x))"
proof -
  have ne: "t \<noteq> path" "path \<noteq> t" using assms(1) temp_not_path [of path h] by auto
  have F: "F(t := None) = F" using assms(2) by auto
  show ?thesis
  proof (cases mode)
    case Replace
    have "returns (\<lambda>s. files s = F(t \<mapsto> c)) (fh_rename h t path) (\<lambda>_ s. files s = F(path \<mapsto> c))
        (\<lambda>_ s. \<exists>x. files s = F(t := x) \<or> files s = F(path \<mapsto> c, t := x))"
      using F by (intro returns_weaken [OF rename_returns [of "F(t \<mapsto> c)" t path]]) auto
    moreover have "returns (\<lambda>s. files s = F(path \<mapsto> c)) (fh_sync_directory h parent) (\<lambda>_ s. files s = F(path \<mapsto> c))
        (\<lambda>_ s. \<exists>x. files s = F(t := x) \<or> files s = F(path \<mapsto> c, t := x))"
    proof (rule returns_weaken [OF quiet_calls(4) [of "F(path \<mapsto> c)" parent]])
      fix s assume "files s = F(path \<mapsto> c)"
      moreover have "F(path \<mapsto> c) = F(path \<mapsto> c, t := None)" using assms(2) ne by auto
      ultimately show "\<exists>x. files s = F(t := x) \<or> files s = F(path \<mapsto> c, t := x)" by metis
    qed auto
    ultimately show ?thesis unfolding publish_temp_def
      by (auto simp: Replace may_publish_def intro!: returns_bind)
  next
    case CreateNew
    let ?E = "\<lambda>(_ :: io_error) s. \<exists>x. files s = F(t := x) \<or> F path = None \<and> files s = F(path \<mapsto> c, t := x)"
    let ?G = "\<lambda>r :: io_error + unit. case r of Inl _ \<Rightarrow> F | Inr _ \<Rightarrow> F(path \<mapsto> c)"
    have link: "returns (\<lambda>s. files s = F(t \<mapsto> c)) (d_try (fh_hard_link h t path))
        (\<lambda>(r :: io_error + unit) s. (r = Inr () \<longrightarrow> F path = None) \<and> files s = (?G r)(t \<mapsto> c)) ?E"
    proof (rule returns_weaken [OF returns_try [OF hard_link_returns [of "F(t \<mapsto> c)" t path]]])
      fix r :: "io_error + unit" and s assume "case r of Inl _ \<Rightarrow> files s = F(t \<mapsto> c) | Inr _ \<Rightarrow> (F(t \<mapsto> c)) t \<noteq> None
        \<and> (F(t \<mapsto> c)) path = None \<and> files s = (F(t \<mapsto> c))(path := (F(t \<mapsto> c)) t)"
      then show "(r = Inr () \<longrightarrow> F path = None) \<and> files s = (?G r)(t \<mapsto> c)"
        using ne by (cases r) (auto simp: fun_upd_twist)
    qed auto
    have rm: "returns (\<lambda>s. (r = Inr () \<longrightarrow> F path = None) \<and> files s = (?G r)(t \<mapsto> c)) (fh_remove_file h t)
        (\<lambda>_ s. (r = Inr () \<longrightarrow> F path = None) \<and> files s = ?G r) ?E" for r :: "io_error + unit"
    proof (cases "r = Inr () \<longrightarrow> F path = None")
      case True
      have G: "(?G r)(t := None) = ?G r" using assms(2) ne by (cases r) auto
      have "returns (\<lambda>s. files s = (?G r)(t \<mapsto> c)) (fh_remove_file h t) (\<lambda>_ s. files s = ?G r) ?E"
      proof (rule returns_weaken [OF remove_returns [of "(?G r)(t \<mapsto> c)" t]])
        fix e s assume "files s = (?G r)(t \<mapsto> c)"
        then show "?E e s" using True by (cases r) auto
      qed (use G in auto)
      then show ?thesis using True by simp
    qed (rule returns_false, auto)
    have sy: "returns (\<lambda>s. (r = Inr () \<longrightarrow> F path = None) \<and> files s = ?G r) (fh_sync_directory h parent)
        (\<lambda>_ s. (r = Inr () \<longrightarrow> F path = None) \<and> files s = ?G r) ?E" for r :: "io_error + unit"
    proof (cases "r = Inr () \<longrightarrow> F path = None")
      case True
      have G: "(?G r)(t := None) = ?G r" using assms(2) ne by (cases r) auto
      have "returns (\<lambda>s. files s = ?G r) (fh_sync_directory h parent) (\<lambda>_ s. files s = ?G r) ?E"
      proof (rule returns_weaken [OF quiet_calls(4) [of "?G r" parent]])
        fix e s assume "files s = ?G r"
        then show "?E e s" using True G by (cases r) (auto, metis+)
      qed auto
      then show ?thesis using True by simp
    qed (rule returns_false, auto)
    have fin: "returns (\<lambda>s. (r = Inr () \<longrightarrow> F path = None) \<and> files s = ?G r) (d_res r)
        (\<lambda>_ s. F path = None \<and> files s = F(path \<mapsto> c)) ?E" for r :: "io_error + unit"
    proof (rule returns_res)
      fix s assume "(r = Inr () \<longrightarrow> F path = None) \<and> files s = ?G r"
      then show "case r of Inl e \<Rightarrow> ?E e s | Inr _ \<Rightarrow> F path = None \<and> files s = F(path \<mapsto> c)"
        using F by (cases r) (auto, metis)
    qed
    show ?thesis unfolding publish_temp_def CreateNew publication_mode.case may_publish_def
      by (simp, rule returns_bind [OF link], rule returns_bind [OF rm], rule returns_bind [OF sy], rule fin)
  qed
qed

lemma write_temp_returns:
  assumes "t \<in> temp_paths h path" "F t = None"
  shows "returns (\<lambda>s. files s = F(t \<mapsto> Utf8 [])) (write_temp h parent t path c mode private permissions)
    (\<lambda>_ s. may_publish mode path F \<and> files s = F(path \<mapsto> c))
    (\<lambda>_ s. \<exists>x. files s = F(t := x) \<or> may_publish mode path F \<and> files s = F(path \<mapsto> c, t := x))"
proof -
  let ?E = "\<lambda>_ s. \<exists>x. files s = F(t := x) \<or> may_publish mode path F \<and> files s = F(path \<mapsto> c, t := x)"
  have perm: "returns (\<lambda>s. files s = F(t \<mapsto> Utf8 [])) (fh_set_permissions h t m) (\<lambda>_ s. files s = F(t \<mapsto> Utf8 [])) ?E" for m
    by (rule returns_weaken [OF quiet_calls(2) [of "F(t \<mapsto> Utf8 [])" t m]]) auto
  have setp: "returns (\<lambda>s. files s = F(t \<mapsto> Utf8 []))
      (if private then fh_set_permissions h t 384
       else case permissions of Some p \<Rightarrow> fh_set_permissions h t p | None \<Rightarrow> d_ok ())
      (\<lambda>_ s. files s = F(t \<mapsto> Utf8 [])) ?E"
    by (auto intro!: returns_if perm returns_ok split: option.split)
  have wr: "returns (\<lambda>s. files s = F(t \<mapsto> Utf8 [])) (fh_write_all h t c) (\<lambda>_ s. files s = F(t \<mapsto> c)) ?E"
    by (rule returns_weaken [OF write_all_returns [of "F(t \<mapsto> Utf8 [])" t c]]) auto
  have sy: "returns (\<lambda>s. files s = F(t \<mapsto> c)) (fh_sync_file h t) (\<lambda>_ s. files s = F(t \<mapsto> c)) ?E"
    by (rule returns_weaken [OF quiet_calls(3) [of "F(t \<mapsto> c)" t]]) auto
  show ?thesis unfolding write_temp_def
    by (rule returns_bind [OF setp], rule returns_bind [OF wr], rule returns_bind [OF sy],
        rule publish_returns [where F = F and t = t, OF assms])
qed

lemma write_attempts_returns:
  assumes "parent = path_directory path"
  shows "returns (\<lambda>s. files s = F) (write_attempts h n parent path c mode private permissions)
    (\<lambda>_ s. may_publish mode path F \<and> files s = F(path \<mapsto> c))
    (\<lambda>_ s. written_or_kept h mode path c F (files s))"
proof (induction n)
  case 0
  then show ?case by (auto intro: returns_err written_or_kept_refl)
next
  case (Suc n)
  let ?E = "\<lambda>_ s. written_or_kept h mode path c F (files s)"
  let ?Q = "\<lambda>_ s. may_publish mode path F \<and> files s = F(path \<mapsto> c)"
  have body: "returns (\<lambda>s. files s = F)
      (d_bind (d_try (fh_create_new h t m)) (\<lambda>created. case created of
         Inr _ \<Rightarrow> d_bind (d_try (write_temp h parent t path c mode private permissions)) (\<lambda>result.
           case result of Inl e \<Rightarrow> d_bind (d_try (fh_remove_file h t)) (\<lambda>_. d_err e) | Inr _ \<Rightarrow> d_ok ())
       | Inl e \<Rightarrow> if e = AlreadyExists then write_attempts h n parent path c mode private permissions else d_err e))
      ?Q ?E" if t: "t \<in> temp_paths h path" for t m
  proof -
    let ?C = "\<lambda>r s. case r of Inl e \<Rightarrow> files s = F | Inr _ \<Rightarrow> F t = None \<and> files s = F(t \<mapsto> Utf8 [])"
    let ?L = "\<lambda>s. \<exists>x. files s = F(t := x) \<or> may_publish mode path F \<and> files s = F(path \<mapsto> c, t := x)"
    have rm: "returns ?L (d_bind (d_try (fh_remove_file h t)) (\<lambda>_. d_err e)) ?Q ?E" for e
    proof (rule returns_bind)
      have "returns ?L (fh_remove_file h t) (\<lambda>_. ?L) (\<lambda>_. ?L)"
        unfolding returns_def
      proof (intro allI impI)
        fix s assume "?L s"
        then obtain x where x: "files s = F(t := x) \<or> may_publish mode path F \<and> files s = F(path \<mapsto> c, t := x)" ..
        obtain r s' where r: "fh_remove_file h t s = Some (r, s')"
            "case r of Inl _ \<Rightarrow> files s' = files s | Inr _ \<Rightarrow> files s' = (files s)(t := None)"
          using returns_imp [OF remove_returns [of "files s" t], of s] by auto
        show "\<exists>r s'. fh_remove_file h t s = Some (r, s') \<and> (case r of Inl _ \<Rightarrow> ?L s' | Inr _ \<Rightarrow> ?L s')"
          using r x by (cases r) auto
      qed
      from returns_try [OF this]
      show "returns ?L (d_try (fh_remove_file h t)) (\<lambda>_. ?L) ?E"
        by (rule returns_weaken) (auto split: sum.splits)
      show "returns ?L (d_err e) ?Q ?E"
        by (rule returns_err) (use t in \<open>auto simp: written_or_kept_def\<close>)
    qed
    show ?thesis
    proof (rule returns_bind [OF returns_try [OF create_new_returns [of F t m]]])
      fix r
      show "returns (?C r) (case r of
           Inr _ \<Rightarrow> d_bind (d_try (write_temp h parent t path c mode private permissions)) (\<lambda>result.
             case result of Inl e \<Rightarrow> d_bind (d_try (fh_remove_file h t)) (\<lambda>_. d_err e) | Inr _ \<Rightarrow> d_ok ())
         | Inl e \<Rightarrow> if e = AlreadyExists then write_attempts h n parent path c mode private permissions else d_err e)
        ?Q ?E"
      proof (cases r)
        case (Inl e)
        have "returns (\<lambda>s. files s = F) (if e = AlreadyExists
            then write_attempts h n parent path c mode private permissions else d_err e) ?Q ?E"
          by (rule returns_if, rule Suc.IH, rule returns_err) (simp add: written_or_kept_refl)
        then show ?thesis unfolding Inl sum.case .
      next
        case (Inr u)
        show ?thesis
        proof (cases "F t = None")
          case True
          have "returns (\<lambda>s. files s = F(t \<mapsto> Utf8 []))
            (d_bind (d_try (write_temp h parent t path c mode private permissions)) (\<lambda>result.
              case result of Inl e \<Rightarrow> d_bind (d_try (fh_remove_file h t)) (\<lambda>_. d_err e) | Inr _ \<Rightarrow> d_ok ())) ?Q ?E"
          proof (rule returns_bind [OF returns_try [OF write_temp_returns [where F = F and t = t, OF t True]]])
            fix result
            show "returns (\<lambda>s. case result of Inl e \<Rightarrow> ?L s | Inr x \<Rightarrow> ?Q x s)
              (case result of Inl e \<Rightarrow> d_bind (d_try (fh_remove_file h t)) (\<lambda>_. d_err e) | Inr _ \<Rightarrow> d_ok ()) ?Q ?E"
              using rm by (cases result) (auto intro!: returns_ok)
          qed
          then show ?thesis unfolding Inr sum.case using True by (simp del: fun_upd_apply cong: sum.case_cong)
        qed (unfold Inr sum.case, rule returns_false, blast)
      qed
    qed
  qed
  show ?case unfolding returns_def
  proof (intro allI impI)
    fix s assume s: "files s = F"
    obtain t s1 where t: "temp_write_path h parent path s = (t, s1)" by (cases "temp_write_path h parent path s")
    have "t \<in> temp_paths h path" "files s1 = F"
      using t s counter_files [of s] assms
      by (auto simp: temp_write_path_def temp_paths_def Let_def split: prod.splits)
    from returns_imp [OF body [OF this(1)] this(2)]
    show "\<exists>r s'. write_attempts h (Suc n) parent path c mode private permissions s = Some (r, s')
        \<and> (case r of Inl e \<Rightarrow> ?E e s' | Inr x \<Rightarrow> ?Q x s')"
      unfolding write_attempts.simps t prod.case .
  qed
qed

lemma atomic_write_returns:
  "returns (\<lambda>s. files s = F) (write_bytes_atomic_mode h path c mode private)
    (\<lambda>_ s. may_publish mode path F \<and> files s = F(path \<mapsto> c))
    (\<lambda>_ s. written_or_kept h mode path c F (files s))"
  unfolding write_bytes_atomic_mode_def Let_def path_directory_def [symmetric]
proof (rule returns_bind)
  let ?E = "\<lambda>_ s. written_or_kept h mode path c F (files s)"
  have meta: "returns (\<lambda>s. files s = F) (d_try (fh_permissions h path)) (\<lambda>_ s. files s = F) ?E"
    by (rule returns_weaken [OF returns_try [OF quiet_calls(1) [of F path]]]) (auto split: sum.splits)
  show "returns (\<lambda>s. files s = F) (case mode of CreateNew \<Rightarrow> d_ok None
      | Replace \<Rightarrow> d_bind (d_try (fh_permissions h path)) (\<lambda>metadata. case metadata of
          Inr p \<Rightarrow> d_ok (Some p) | Inl e \<Rightarrow> if e = NotFound then d_ok None else d_err e))
      (\<lambda>_ s. files s = F) ?E"
  proof (cases mode)
    case Replace
    show ?thesis unfolding Replace publication_mode.case
      by (rule returns_bind [OF meta [unfolded Replace]])
        (auto intro!: returns_ok returns_err written_or_kept_refl split: sum.split)
  qed (auto intro: returns_ok)
qed (rule write_attempts_returns [OF refl])

end

section \<open>A host in memory\<close>

text \<open>
  Files in memory, with a budget of calls: when it is used up, every further call fails, which
  is a crash (or a full disk) at that call.
\<close>

record memory_files =
  mf_files :: "(rstr \<times> file_bytes) list"
  mf_counter :: nat
  mf_budget :: nat

definition mf_view :: "memory_files \<Rightarrow> file_map" where
  "mf_view s = map_of (mf_files s)"

definition mf_put :: "rstr \<Rightarrow> file_bytes option \<Rightarrow> memory_files \<Rightarrow> memory_files" where
  "mf_put p c s = s\<lparr>mf_files := (case c of Some b \<Rightarrow> [(p, b)] | None \<Rightarrow> []) @ filter (\<lambda>(q, _). q \<noteq> p) (mf_files s)\<rparr>"

definition mf_call :: "(memory_files \<Rightarrow> (io_error + 'a) \<times> memory_files) \<Rightarrow> (memory_files, io_error, 'a) dact" where
  "mf_call f = (\<lambda>s. Some (if mf_budget s = 0 then (Inl (OtherIo (lit ''failed'')), s)
     else f (s\<lparr>mf_budget := mf_budget s - 1\<rparr>)))"

definition memory_host :: "memory_files file_host" where
  "memory_host = \<lparr>
     fh_open_regular = (\<lambda>p. mf_call (\<lambda>s. (if mf_view s p = None then Inl NotFound else Inr True, s))),
     fh_read = (\<lambda>p n. mf_call (\<lambda>s. (case mf_view s p of None \<Rightarrow> Inl (OtherIo [])
        | Some d \<Rightarrow> Inr (if byte_len d \<le> n then d else Raw (replicate n 0)), s))),
     fh_permissions = (\<lambda>p. mf_call (\<lambda>s. (if mf_view s p = None then Inl NotFound else Inr 420, s))),
     fh_create_new = (\<lambda>p m. mf_call (\<lambda>s. if mf_view s p = None then (Inr (), mf_put p (Some (Utf8 [])) s)
        else (Inl AlreadyExists, s))),
     fh_set_permissions = (\<lambda>p m. mf_call (\<lambda>s. (Inr (), s))),
     fh_write_all = (\<lambda>p c. mf_call (\<lambda>s. (Inr (), mf_put p (Some c) s))),
     fh_sync_file = (\<lambda>p. mf_call (\<lambda>s. (Inr (), s))),
     fh_rename = (\<lambda>p q. mf_call (\<lambda>s. case mf_view s p of None \<Rightarrow> (Inl NotFound, s)
        | Some d \<Rightarrow> (Inr (), mf_put q (Some d) (mf_put p None s)))),
     fh_hard_link = (\<lambda>p q. mf_call (\<lambda>s. case mf_view s p of None \<Rightarrow> (Inl NotFound, s)
        | Some d \<Rightarrow> if mf_view s q = None then (Inr (), mf_put q (Some d) s) else (Inl AlreadyExists, s))),
     fh_remove_file = (\<lambda>p. mf_call (\<lambda>s. (Inr (), mf_put p None s))),
     fh_sync_directory = (\<lambda>p. mf_call (\<lambda>s. (Inr (), s))),
     fh_create_dir_all = (\<lambda>p. mf_call (\<lambda>s. (Inr (), s))),
     fh_process_id = 7,
     fh_next_counter = (\<lambda>s. (mf_counter s, s\<lparr>mf_counter := mf_counter s + 1\<rparr>))\<rparr>"

lemma mf_view_put [simp]: "mf_view (mf_put p c s) = (mf_view s)(p := c)"
proof
  fix q
  have "map_of (filter (\<lambda>(q, _). q \<noteq> p) xs) q = (if q = p then None else map_of xs q)" for xs :: "(rstr \<times> file_bytes) list"
    by (induction xs) auto
  then show "mf_view (mf_put p c s) q = ((mf_view s)(p := c)) q"
    by (auto simp: mf_view_def mf_put_def split: option.split)
qed

lemma mf_view_budget [simp]:
  "mf_view (s\<lparr>mf_budget := n\<rparr>) = mf_view s" "mf_view (s\<lparr>mf_counter := n\<rparr>) = mf_view s"
  by (simp_all add: mf_view_def)

lemma returns_mf_call:
  assumes "\<And>s. mf_view s = F \<Longrightarrow> case f s of (Inl e, s') \<Rightarrow> E e s' | (Inr x, s') \<Rightarrow> Q x s'"
    and "\<And>s. mf_view s = F \<Longrightarrow> E (OtherIo (lit ''failed'')) s"
  shows "returns (\<lambda>s. mf_view s = F) (mf_call f) Q E"
  unfolding returns_def
proof (intro allI impI)
  fix s assume s: "mf_view s = F"
  let ?s = "s\<lparr>mf_budget := mf_budget s - 1\<rparr>"
  have "case f ?s of (Inl e, s') \<Rightarrow> E e s' | (Inr x, s') \<Rightarrow> Q x s'" using assms(1) [of ?s] s by simp
  then show "\<exists>r s'. mf_call f s = Some (r, s') \<and> (case r of Inl e \<Rightarrow> E e s' | Inr x \<Rightarrow> Q x s')"
    using assms(2) [OF s] by (auto simp: mf_call_def split: prod.splits sum.splits)
qed

lemma memory_host_law: "file_law memory_host mf_view"
  unfolding file_law_def quiet_call_def memory_host_def file_host.simps
  by (intro allI conjI returns_mf_call) (auto split: option.splits intro: exI [of _ "mf_view s p" for s p] fun_upd_triv [symmetric])

interpretation memory_disk: file_system memory_host mf_view
  by unfold_locales (rule memory_host_law)

lemma file_systemI: "file_law h files \<Longrightarrow> file_system h files"
  by unfold_locales

section \<open>Properties\<close>

text \<open>
  C7: A file is written all or nothing. An atomic write always returns. On success exactly the
  target has changed, to exactly the new contents, and no temporary file is left; publishing
  without replacement succeeds only if the target did not exist. On failure, at whatever call
  (a crash included), the target has its old or its complete new contents, an existing target
  is never replaced by a publication, and no other file has changed but temporary ones.
\<close>

theorem atomic_write_all_or_nothing:
  assumes "file_law h files"
  shows "\<exists>r s'. write_bytes_atomic_mode h path c mode private s = Some (r, s') \<and> (case r of
      Inr _ \<Rightarrow> may_publish mode path (files s) \<and> files s' = (files s)(path \<mapsto> c)
    | Inl _ \<Rightarrow> (files s' path = files s path \<or> may_publish mode path (files s) \<and> files s' path = Some c)
        \<and> (\<forall>q. q \<noteq> path \<and> q \<notin> temp_paths h path \<longrightarrow> files s' q = files s q))"
proof -
  obtain r s' where r: "write_bytes_atomic_mode h path c mode private s = Some (r, s')"
    "case r of Inl _ \<Rightarrow> written_or_kept h mode path c (files s) (files s')
      | Inr _ \<Rightarrow> may_publish mode path (files s) \<and> files s' = (files s)(path \<mapsto> c)"
    using returns_imp [OF file_system.atomic_write_returns [OF file_systemI [OF assms], of "files s" path c mode "private"], of s] by blast
  show ?thesis
  proof (cases r)
    case (Inl e)
    with r(2) have w: "written_or_kept h mode path c (files s) (files s')" by simp
    then obtain t x where t: "t \<in> temp_paths h path" "files s' = (files s)(t := x)
        \<or> may_publish mode path (files s) \<and> files s' = (files s)(path \<mapsto> c, t := x)"
      unfolding written_or_kept_def by blast
    have "t \<noteq> path" using t(1) temp_not_path [of path h] by auto
    with t(2) have "files s' path = files s path \<or> may_publish mode path (files s) \<and> files s' path = Some c"
      by auto
    then show ?thesis using r(1) Inl written_or_kept_other [OF w] by (intro exI [of _ r] exI [of _ s']) simp
  qed (use r in auto)
qed

text \<open>Two files, and a machine that stops right after the rename: the new contents are there.\<close>

definition demo_disk :: memory_files where
  "demo_disk = \<lparr>mf_files = [(lit ''/etc/list'', Utf8 (lit ''old'')), (lit ''/etc/other'', Utf8 (lit ''x''))],
     mf_counter = 0, mf_budget = 6\<rparr>"

theorem atomic_write_all_or_nothing_witness:
  "(case write_bytes_atomic_mode memory_host (lit ''/etc/list'') (Utf8 (lit ''new'')) Replace False demo_disk of
      Some (Inl _, s) \<Rightarrow> mf_view s (lit ''/etc/list'') = Some (Utf8 (lit ''new''))
        \<and> mf_view s (lit ''/etc/other'') = Some (Utf8 (lit ''x'')) | _ \<Rightarrow> False)"
proof -
  let ?r = "write_bytes_atomic_mode memory_host (lit ''/etc/list'') (Utf8 (lit ''new'')) Replace False demo_disk"
  obtain r s' where r: "?r = Some (r, s')" "case r of
      Inr _ \<Rightarrow> may_publish Replace (lit ''/etc/list'') (mf_view demo_disk)
        \<and> mf_view s' = (mf_view demo_disk)(lit ''/etc/list'' \<mapsto> Utf8 (lit ''new''))
    | Inl _ \<Rightarrow> (mf_view s' (lit ''/etc/list'') = mf_view demo_disk (lit ''/etc/list'')
          \<or> may_publish Replace (lit ''/etc/list'') (mf_view demo_disk) \<and> mf_view s' (lit ''/etc/list'') = Some (Utf8 (lit ''new'')))
        \<and> (\<forall>q. q \<noteq> lit ''/etc/list'' \<and> q \<notin> temp_paths memory_host (lit ''/etc/list'') \<longrightarrow> mf_view s' q = mf_view demo_disk q)"
    using atomic_write_all_or_nothing [where path = "lit ''/etc/list''" and c = "Utf8 (lit ''new'')" and mode = Replace
      and s = demo_disk, OF memory_host_law] by blast
  have "map_option (isl \<circ> fst) ?r = Some True" by code_simp
  then obtain e where e: "r = Inl e" using r(1) by (cases r) auto
  have new: "map_option (\<lambda>(_, s). mf_view s (lit ''/etc/list'')) ?r = Some (Some (Utf8 (lit ''new'')))" by code_simp
  have "lit ''/etc/other'' \<notin> temp_paths memory_host (lit ''/etc/list'')"
  proof
    assume "lit ''/etc/other'' \<in> temp_paths memory_host (lit ''/etc/list'')"
    moreover have "path_directory (lit ''/etc/list'') = lit ''/etc''"
      "path_file_name (lit ''/etc/list'') = Some (lit ''list'')" by code_simp+
    ultimately show False by (auto simp: temp_paths_def path_join_def lit_def)
  qed
  moreover have "mf_view demo_disk (lit ''/etc/other'') = Some (Utf8 (lit ''x''))"
    "lit ''/etc/other'' \<noteq> lit ''/etc/list''" by code_simp+
  ultimately have "mf_view s' (lit ''/etc/other'') = Some (Utf8 (lit ''x''))" using r(2) e by auto
  then show ?thesis using r(1) e new by simp
qed

end
