(* ===== verification/Ipset.thy ===== *)
theory Ipset
  imports Commands Config Files
begin

text \<open>
  \<^verbatim>\<open>crates/kidobo-adapters/src/ipset.rs\<close> (and \<^verbatim>\<open>hash.rs\<close>): inspection and creation of the
  managed sets, the restore script and the atomic replacement of a set.

  The command runner, the clock, SHA-256 and the operations on the script file are arguments
  (\<open>ipset_host\<close>). What the kernel does with the commands is outside the repository: the
  properties assume \<open>ipset_law\<close>, the documented effect of \<^verbatim>\<open>create\<close>, \<^verbatim>\<open>add\<close>, \<^verbatim>\<open>swap\<close>,
  \<^verbatim>\<open>destroy\<close> and \<^verbatim>\<open>list\<close>, and of a restore, which runs the lines of its file in order and
  may stop after any of them.
\<close>

section \<open>Specifications, errors and the host\<close>

datatype ipset_family = Inet | Inet6

fun family_as_str :: "ipset_family \<Rightarrow> rstr" where
  "family_as_str Inet = lit ''inet''"
| "family_as_str Inet6 = lit ''inet6''"

record ipset_set_spec =
  sp_set_name :: rstr
  sp_set_type :: rstr
  sp_family :: ipset_family
  sp_hashsize :: nat
  sp_maxelem :: nat
  sp_timeout :: nat

record ipset_set_info =
  info_set_type :: rstr
  info_family :: ipset_family

datatype inspection_reason =
    MissingType
  | MissingHeader
  | MissingFamily
  | UnsupportedFamily rstr

datatype ipset_error =
    IpsetExecution command_runner_error
  | IpsetCommandFailed rstr process_status rstr
  | WriteRestoreScript rstr io_error
  | CreateRestoreScript rstr io_error
  | MalformedInspection rstr inspection_reason
  | IncompatibleSet rstr rstr rstr rstr rstr

record 's ipset_host =
  ih_run :: "'s runner"
  ih_now_nanos :: "'s \<Rightarrow> nat \<times> 's"
  ih_process_id :: nat
  ih_sha256 :: "8 word list \<Rightarrow> 8 word list"
  ih_temp_dir :: rstr
  ih_create_new :: "rstr \<Rightarrow> ('s, io_error, unit) act"
  ih_write :: "rstr \<Rightarrow> rstr \<Rightarrow> ('s, io_error, unit) act"
  ih_remove_file :: "rstr \<Rightarrow> ('s, io_error, unit) act"

definition ipset_run :: "('s, 'z) ipset_host_scheme \<Rightarrow> rstr list \<Rightarrow> ('s, ipset_error, command_result) act" where
  "ipset_run h args = act_map_err IpsetExecution (ih_run h (lit ''ipset'') args)"

section \<open>Inspection and creation\<close>

definition is_missing_set_result :: "command_result \<Rightarrow> bool" where
  "is_missing_set_result r \<longleftrightarrow> status_code (cr_status r) = Some 1
     \<and> str_contains (lit ''does not exist'') (to_ascii_lowercase (cr_stderr r))"

definition is_unsupported_terse_option_result :: "command_result \<Rightarrow> bool" where
  "is_unsupported_terse_option_result r \<longleftrightarrow>
     (let e = to_ascii_lowercase (cr_stderr r)
      in str_contains (lit ''terse'') e
         \<and> (str_contains (lit ''unknown'') e \<or> str_contains (lit ''unrecognized'') e
            \<or> str_contains (lit ''invalid'') e \<or> str_contains (lit ''syntax'') e))"

fun find_map :: "('a \<Rightarrow> 'b option) \<Rightarrow> 'a list \<Rightarrow> 'b option" where
  "find_map f [] = None"
| "find_map f (x # xs) = (case f x of None \<Rightarrow> find_map f xs | Some y \<Rightarrow> Some y)"

text \<open>\<open>tokens.windows(2).find_map(..)\<close>.\<close>

fun value_after :: "rstr \<Rightarrow> rstr list \<Rightarrow> rstr option" where
  "value_after key (k # v # rest) = (if k = key then Some v else value_after key (v # rest))"
| "value_after key [k] = None"
| "value_after key [] = None"

definition field :: "rstr \<Rightarrow> rstr \<Rightarrow> rstr option" where
  "field pre stdout = find_map (\<lambda>line. map_option trim (strip_prefix pre line)) (str_lines stdout)"

definition parse_ipset_info :: "rstr \<Rightarrow> inspection_reason + ipset_set_info" where
  "parse_ipset_info stdout =
     and_then (ok_or (case field (lit ''Type:'') stdout of
         Some v \<Rightarrow> if v \<noteq> [] then Some v else None | None \<Rightarrow> None) MissingType) (\<lambda>ty.
     and_then (ok_or (field (lit ''Header:'') stdout) MissingHeader) (\<lambda>header.
     and_then (ok_or (value_after (lit ''family'') (split_whitespace header)) MissingFamily) (\<lambda>f.
     and_then (if f = lit ''inet'' then Inr Inet else if f = lit ''inet6'' then Inr Inet6
               else Inl (UnsupportedFamily f)) (\<lambda>fam.
       Inr \<lparr>info_set_type = ty, info_family = fam\<rparr>))))"

definition inspect_ipset :: "('s, 'z) ipset_host_scheme \<Rightarrow> rstr \<Rightarrow> ('s, ipset_error, ipset_set_info option) act" where
  "inspect_ipset h name =
     (let terse_args = [lit ''list'', name, lit ''-terse''];
          list_args = [lit ''list'', name];
          parsed = (\<lambda>res. act_res (map_err (MalformedInspection name)
            (and_then (parse_ipset_info (cr_stdout res)) (\<lambda>info. Inr (Some info)))))
      in act_bind (ipset_run h terse_args) (\<lambda>terse_result.
        if status_success (cr_status terse_result) then parsed terse_result
        else if is_missing_set_result terse_result then act_ok None
        else if is_unsupported_terse_option_result terse_result then
          act_bind (ipset_run h list_args) (\<lambda>res.
            if is_missing_set_result res then act_ok None
            else act_bind (act_res (ensure_command_succeeded res (lit ''ipset'') list_args IpsetCommandFailed)) parsed)
        else act_err (IpsetCommandFailed (display_command (lit ''ipset'') terse_args)
               (cr_status terse_result) (cr_stderr terse_result))))"

definition run_checked_ipset :: "('s, 'z) ipset_host_scheme \<Rightarrow> rstr list \<Rightarrow> ('s, ipset_error, command_result) act" where
  "run_checked_ipset h args =
     act_bind (ipset_run h args) (\<lambda>res.
       act_res (ensure_command_succeeded res (lit ''ipset'') args IpsetCommandFailed))"

definition create_ipset :: "('s, 'z) ipset_host_scheme \<Rightarrow> ipset_set_spec \<Rightarrow> ('s, ipset_error, unit) act" where
  "create_ipset h spec =
     act_bind (run_checked_ipset h [lit ''create'', sp_set_name spec, sp_set_type spec,
         lit ''family'', family_as_str (sp_family spec), lit ''hashsize'', show_nat (sp_hashsize spec),
         lit ''maxelem'', show_nat (sp_maxelem spec), lit ''timeout'', show_nat (sp_timeout spec),
         lit ''-exist'']) (\<lambda>_. act_ok ())"

definition ensure_ipset_exists :: "('s, 'z) ipset_host_scheme \<Rightarrow> ipset_set_spec \<Rightarrow> ('s, ipset_error, unit) act" where
  "ensure_ipset_exists h spec =
     act_bind (inspect_ipset h (sp_set_name spec)) (\<lambda>found. case found of
       Some info \<Rightarrow>
         if info_set_type info \<noteq> sp_set_type spec \<or> info_family info \<noteq> sp_family spec
         then act_err (IncompatibleSet (sp_set_name spec) (sp_set_type spec)
                (family_as_str (sp_family spec)) (info_set_type info) (family_as_str (info_family info)))
         else act_ok ()
     | None \<Rightarrow> create_ipset h spec)"

section \<open>Names\<close>

definition lower_hex_nibble :: "8 word \<Rightarrow> nat" where
  "lower_hex_nibble v = (let n = unat (and v 15) in if n \<le> 9 then 48 + n else 97 + (n - 10))"

definition hex_lower :: "8 word list \<Rightarrow> rstr" where
  "hex_lower bytes = concat (map (\<lambda>b. [lower_hex_nibble (drop_bit 4 b), lower_hex_nibble b]) bytes)"

text \<open>The seed is ASCII, so its bytes are its code points.\<close>

definition random_hex_suffix :: "('s, 'z) ipset_host_scheme \<Rightarrow> nat \<Rightarrow> 's \<Rightarrow> rstr \<times> 's" where
  "random_hex_suffix h len s =
     (let (now_nanos, s') = ih_now_nanos h s;
          seed = show_nat (ih_process_id h) @ [45] @ show_nat now_nanos;
          hex = hex_lower (ih_sha256 h (map of_nat seed))
      in (take (min len (length hex)) hex, s'))"

definition is_char_boundary :: "rstr \<Rightarrow> nat \<Rightarrow> bool" where
  "is_char_boundary s i \<longleftrightarrow> i \<in> set (map (\<lambda>k. utf8_len (take k s)) [0..<Suc (length s)])"

fun floor_char_boundary :: "rstr \<Rightarrow> nat \<Rightarrow> nat" where
  "floor_char_boundary s 0 = 0"
| "floor_char_boundary s (Suc i) = (if is_char_boundary s (Suc i) then Suc i else floor_char_boundary s i)"

text \<open>\<open>&input[..i]\<close> at a boundary \<open>i\<close>.\<close>

fun bytes_upto :: "nat \<Rightarrow> rstr \<Rightarrow> rstr" where
  "bytes_upto i [] = []"
| "bytes_upto i (c # cs) = (if utf8_width c \<le> i then c # bytes_upto (i - utf8_width c) cs else [])"

definition truncate_to_max_bytes :: "rstr \<Rightarrow> nat \<Rightarrow> rstr" where
  "truncate_to_max_bytes s max_bytes =
     (if utf8_len s \<le> max_bytes then s else bytes_upto (floor_char_boundary s max_bytes) s)"

definition temp_name :: "rstr \<Rightarrow> rstr \<Rightarrow> rstr" where
  "temp_name base_set_name suf =
     (let max_base_len = IPSET_NAME_MAX_LEN - (utf8_len suf + 1);
          base = truncate_to_max_bytes base_set_name max_base_len;
          base = (if base = [] then lit ''kidobo'' else base)
      in base @ [45] @ suf)"

definition generate_temp_set_name :: "('s, 'z) ipset_host_scheme \<Rightarrow> rstr \<Rightarrow> 's \<Rightarrow> rstr \<times> 's" where
  "generate_temp_set_name h base_set_name s =
     (case random_hex_suffix h 8 s of (suf, s') \<Rightarrow> (temp_name base_set_name suf, s'))"

section \<open>The restore script\<close>

fun is_sorted_and_unique :: "'a::linorder list \<Rightarrow> bool" where
  "is_sorted_and_unique (x # y # rest) \<longleftrightarrow> x < y \<and> is_sorted_and_unique (y # rest)"
| "is_sorted_and_unique [x] \<longleftrightarrow> True"
| "is_sorted_and_unique [] \<longleftrightarrow> True"

definition sorted_unique_entries :: "'a::linorder list \<Rightarrow> 'a list" where
  "sorted_unique_entries es = (if \<not> is_sorted_and_unique es then sort_dedup es else es)"

definition create_line :: "ipset_set_spec \<Rightarrow> rstr \<Rightarrow> rstr" where
  "create_line spec temp = lit ''create '' @ temp @ [32] @ sp_set_type spec @ lit '' family ''
     @ family_as_str (sp_family spec) @ lit '' hashsize '' @ show_nat (sp_hashsize spec)
     @ lit '' maxelem '' @ show_nat (sp_maxelem spec) @ lit '' timeout '' @ show_nat (sp_timeout spec)"

definition write_restore_entry_lines :: "('a::linorder \<Rightarrow> rstr) \<Rightarrow> rstr \<Rightarrow> 'a list \<Rightarrow> rstr" where
  "write_restore_entry_lines display temp es =
     concat (map (\<lambda>e. lit ''add '' @ temp @ [32] @ display e @ [10]) (sorted_unique_entries es))"

definition write_restore_script :: "('a::linorder \<Rightarrow> rstr) \<Rightarrow> ipset_set_spec \<Rightarrow> rstr \<Rightarrow> 'a list \<Rightarrow> rstr" where
  "write_restore_script display spec temp es =
     create_line spec temp @ [10] @ write_restore_entry_lines display temp es
     @ lit ''swap '' @ temp @ [32] @ sp_set_name spec @ [10]"

definition restore_script_path :: "('s, 'z) ipset_host_scheme \<Rightarrow> 's \<Rightarrow> rstr \<times> 's" where
  "restore_script_path h s =
     (case random_hex_suffix h 12 s of (suf, s') \<Rightarrow>
        (ih_temp_dir h @ lit ''/kidobo-ipset-'' @ suf @ lit ''.restore'', s'))"

fun create_restore_script_attempts :: "('s, 'z) ipset_host_scheme \<Rightarrow> nat \<Rightarrow> ('s, ipset_error, rstr) act" where
  "create_restore_script_attempts h 0 s =
     (case restore_script_path h s of (path, s) \<Rightarrow> (Inl (CreateRestoreScript path AlreadyExists), s))"
| "create_restore_script_attempts h (Suc n) s =
     (case restore_script_path h s of (path, s) \<Rightarrow>
        (case ih_create_new h path s of
           (Inr _, s) \<Rightarrow> (Inr path, s)
         | (Inl err, s) \<Rightarrow>
             if err = AlreadyExists then create_restore_script_attempts h n s
             else (Inl (CreateRestoreScript path err), s)))"

definition create_restore_script_file :: "('s, 'z) ipset_host_scheme \<Rightarrow> ('s, ipset_error, rstr) act" where
  "create_restore_script_file h = create_restore_script_attempts h 16"

section \<open>Replacing a set\<close>

definition best_effort_destroy_set :: "('s, 'z) ipset_host_scheme \<Rightarrow> rstr \<Rightarrow> 's \<Rightarrow> 's" where
  "best_effort_destroy_set h name s = snd (ih_run h (lit ''ipset'') [lit ''destroy'', name] s)"

text \<open>The script file is removed when \<open>TempRestoreScript\<close> is dropped, at every exit.\<close>

definition execute_ipset_restore_with_entries ::
    "('s, 'z) ipset_host_scheme \<Rightarrow> ('a::linorder \<Rightarrow> rstr) \<Rightarrow> ipset_set_spec \<Rightarrow> rstr \<Rightarrow> 'a list
     \<Rightarrow> ('s, ipset_error, unit) act" where
  "execute_ipset_restore_with_entries h display spec temp es =
     act_bind (create_restore_script_file h) (\<lambda>path.
     act_bind (act_try
       (act_bind (act_map_err (WriteRestoreScript path)
          (ih_write h path (write_restore_script display spec temp es))) (\<lambda>_.
        act_bind (run_checked_ipset h [lit ''restore'', lit ''-file'', path]) (\<lambda>_. act_ok ())))) (\<lambda>outcome.
     act_bind (act_try (ih_remove_file h path)) (\<lambda>_.
       act_res outcome)))"

definition atomic_replace_ipset_values ::
    "('s, 'z) ipset_host_scheme \<Rightarrow> ('a::linorder \<Rightarrow> rstr) \<Rightarrow> ipset_set_spec \<Rightarrow> 'a list
     \<Rightarrow> ('s, ipset_error, unit) act" where
  "atomic_replace_ipset_values h display spec es s =
     (let (temp, s) = generate_temp_set_name h (sp_set_name spec) s;
          s = best_effort_destroy_set h temp s;
          (restore_result, s) = execute_ipset_restore_with_entries h display spec temp es s;
          s = best_effort_destroy_set h temp s
      in (restore_result, s))"

section \<open>What ipset promises\<close>

record kset =
  ks_type :: rstr
  ks_family :: ipset_family
  ks_entries :: "rstr set"

type_synonym ksets = "rstr \<Rightarrow> kset option"

definition family_named :: "rstr \<Rightarrow> ipset_family option" where
  "family_named f = (if f = lit ''inet'' then Some Inet else if f = lit ''inet6'' then Some Inet6 else None)"

text \<open>The effect of a command or of a line of a restore file, split at white space, when it
  succeeds; \<open>None\<close> when it cannot: adding an element twice is an error, and only sets of one
  type and family are swapped.\<close>

definition ipset_effect :: "rstr list \<Rightarrow> ksets \<Rightarrow> ksets option" where
  "ipset_effect toks K = (case toks of
     op # n # rest \<Rightarrow>
       if op = lit ''create'' then (case rest of
           ty # _ # f # opts \<Rightarrow> (case (family_named f, K n) of
               (Some fam, None) \<Rightarrow> Some (K(n \<mapsto> \<lparr>ks_type = ty, ks_family = fam, ks_entries = {}\<rparr>))
             | (Some fam, Some k) \<Rightarrow> if opts \<noteq> [] \<and> last opts = lit ''-exist'' \<and> ks_type k = ty \<and> ks_family k = fam
                 then Some K else None
             | _ \<Rightarrow> None)
         | _ \<Rightarrow> None)
       else (case K n of
           None \<Rightarrow> None
         | Some k \<Rightarrow>
             if op = lit ''list'' then Some K
             else if op = lit ''destroy'' then Some (K(n := None))
             else (case rest of
                 [x] \<Rightarrow>
                   if op = lit ''add'' then
                     (if x \<in> ks_entries k then None else Some (K(n \<mapsto> k\<lparr>ks_entries := insert x (ks_entries k)\<rparr>)))
                   else if op = lit ''swap'' then (case K x of
                       Some k' \<Rightarrow> if ks_type k' = ks_type k \<and> ks_family k' = ks_family k
                         then Some (K(n \<mapsto> k', x \<mapsto> k)) else None
                     | None \<Rightarrow> None)
                   else None
               | _ \<Rightarrow> None))
   | _ \<Rightarrow> None)"

fun run_script :: "rstr list list \<Rightarrow> ksets \<Rightarrow> ksets option" where
  "run_script [] K = Some K"
| "run_script (t # ts) K = (case ipset_effect t K of None \<Rightarrow> None | Some K' \<Rightarrow> run_script ts K')"

definition ipset_command :: "rstr list \<Rightarrow> bool" where
  "ipset_command args \<longleftrightarrow> (\<exists>n. args \<in> {[lit ''list'', n], [lit ''list'', n, lit ''-terse''], [lit ''destroy'', n]})
     \<or> (\<exists>n ty f a b c. args = [lit ''create'', n, ty, lit ''family'', f, lit ''hashsize'', a,
          lit ''maxelem'', b, lit ''timeout'', c, lit ''-exist''])"

definition word_ok :: "rstr \<Rightarrow> bool" where
  "word_ok w \<longleftrightarrow> w \<noteq> [] \<and> list_all (\<lambda>c. \<not> is_whitespace c) w"

text \<open>The listing of a set: its name, type, revision and header, then anything. The hash types
  (but the one of hardware addresses) have a family, with which their header begins; the
  header of the other types names none.\<close>

definition has_family :: "rstr \<Rightarrow> bool" where
  "has_family ty \<longleftrightarrow> prefix (lit ''hash:'') ty \<and> ty \<noteq> lit ''hash:mac''"

definition header_words :: "kset \<Rightarrow> rstr list \<Rightarrow> rstr list" where
  "header_words k opts = (if has_family (ks_type k) then lit ''family'' # family_as_str (ks_family k) # opts
     else opts)"

definition is_set_listing :: "rstr \<Rightarrow> kset \<Rightarrow> rstr \<Rightarrow> bool" where
  "is_set_listing n k text \<longleftrightarrow> (\<exists>rev opts more.
     word_ok (ks_type k) \<and> list_all word_ok opts \<and> line_ok rev \<and> list_all line_ok more \<and> word_ok n
     \<and> (\<not> has_family (ks_type k) \<longrightarrow> opts \<noteq> [] \<and> lit ''family'' \<notin> set opts)
     \<and> text = str_join [10] ([lit ''Name: '' @ n, lit ''Type: '' @ ks_type k, lit ''Revision: '' @ rev,
         lit ''Header: '' @ str_join [32] (header_words k opts)] @ more) @ [10])"

text \<open>
  \<open>sets\<close> reads the sets of the kernel and \<open>files\<close> the files, in the state of the host. A
  command does its effect or nothing, and its effect if it reports success; a restore runs
  some first lines of its file, all of them if it reports success; a listing is true; the
  missing-set diagnostic of a listing means that the set is absent; the file operations do
  not change the sets, and a script written with success is in its file.
\<close>

definition ipset_law :: "('s, 'z) ipset_host_scheme \<Rightarrow> ('s \<Rightarrow> ksets) \<Rightarrow> ('s \<Rightarrow> rstr \<Rightarrow> rstr option) \<Rightarrow> bool" where
  "ipset_law h sets files \<longleftrightarrow>
     (\<forall>args s r s'. ipset_command args \<longrightarrow> ih_run h (lit ''ipset'') args s = (r, s') \<longrightarrow>
        (sets s' = sets s \<or> ipset_effect args (sets s) = Some (sets s'))
      \<and> (\<forall>res. r = Inr res \<longrightarrow> status_success (cr_status res) \<longrightarrow>
           ipset_effect args (sets s) = Some (sets s')
         \<and> (\<forall>n rest k. args = lit ''list'' # n # rest \<longrightarrow> sets s n = Some k \<longrightarrow> is_set_listing n k (cr_stdout res)))
      \<and> (\<forall>res n rest. r = Inr res \<longrightarrow> is_missing_set_result res \<longrightarrow> args = lit ''list'' # n # rest \<longrightarrow> sets s n = None))
   \<and> (\<forall>path s r s'. ih_run h (lit ''ipset'') [lit ''restore'', lit ''-file'', path] s = (r, s') \<longrightarrow>
        (case files s path of
           None \<Rightarrow> sets s' = sets s \<and> (\<forall>res. r = Inr res \<longrightarrow> \<not> status_success (cr_status res))
         | Some text \<Rightarrow> let ls = map split_whitespace (str_lines text) in
             \<exists>k. k \<le> length ls \<and> run_script (take k ls) (sets s) = Some (sets s')
               \<and> (\<forall>res. r = Inr res \<longrightarrow> status_success (cr_status res) \<longrightarrow> k = length ls)))
   \<and> (\<forall>s. sets (snd (ih_now_nanos h s)) = sets s)
   \<and> (\<forall>path s. sets (snd (ih_create_new h path s)) = sets s)
   \<and> (\<forall>path s. sets (snd (ih_remove_file h path s)) = sets s)
   \<and> (\<forall>path text s r s'. ih_write h path text s = (r, s') \<longrightarrow>
        sets s' = sets s \<and> (r = Inr () \<longrightarrow> files s' path = Some text))"

section \<open>Words and lines\<close>

lemma split_on_no: "list_all (\<lambda>c. \<not> p c) w \<Longrightarrow> split_on p w = [w]"
  by (induction w) auto

lemma split_on_word: "list_all (\<lambda>c. \<not> p c) w \<Longrightarrow> p c \<Longrightarrow> split_on p (w @ c # r) = w # split_on p r"
  by (induction w) auto

lemma split_whitespace_words: "list_all word_ok ws \<Longrightarrow> split_whitespace (str_join [32] ws) = ws"
proof (induction ws rule: induct_list012)
  case (3 x y zs)
  have "is_whitespace 32" by (simp add: is_whitespace_def)
  with 3 show ?case by (simp add: split_whitespace_def split_on_word word_ok_def)
qed (simp_all add: split_whitespace_def split_on_no word_ok_def)

lemma join_chars: "list_all word_ok ws \<Longrightarrow> c \<in> set (str_join [32] ws) \<Longrightarrow> c = 32 \<or> \<not> is_whitespace c"
  by (induction ws rule: induct_list012) (auto simp: word_ok_def list_all_iff)

lemma join_line_ok:
  assumes "list_all word_ok ws"
  shows "line_ok (str_join [32] ws)"
proof -
  have "10 \<notin> set (str_join [32] ws)" "13 \<notin> set (str_join [32] ws)"
    using join_chars [OF assms, of 10] join_chars [OF assms, of 13] by (auto simp: is_whitespace_def)
  then show ?thesis using last_in_set unfolding line_ok_def by metis
qed

lemma join_ends:
  assumes "list_all word_ok ws" "ws \<noteq> []"
  shows "str_join [32] ws \<noteq> []" "\<not> is_whitespace (hd (str_join [32] ws))" "\<not> is_whitespace (last (str_join [32] ws))"
  using assms by (induction ws rule: induct_list012) (auto simp: word_ok_def list_all_iff)

lemma trim_join: "list_all word_ok ws \<Longrightarrow> ws \<noteq> [] \<Longrightarrow> trim (str_join [32] ws) = str_join [32] ws"
  using join_ends by (intro trim_fixed) blast

lemma trim_blank: "is_whitespace c \<Longrightarrow> trim (c # s) = trim s"
  by (simp add: trim_def trim_start_def)

lemma word_trim: "word_ok w \<Longrightarrow> trim w = w"
  using trim_join [of "[w]"] by simp

lemma word_ok_show_nat: "word_ok (show_nat n)"
  using addr_chars_radix [of 10 n] addr_char_plain
  by (simp add: word_ok_def show_nat_def list_all_iff show_radix_not_Nil)

lemma show_nat_no_option: "show_nat n \<noteq> lit ''-exist''"
proof
  assume "show_nat n = lit ''-exist''"
  moreover have "\<not> list_all addr_char (lit ''-exist'')"
    by (simp add: lit_def addr_char_def is_digit_of_def to_digit_def)
  moreover have "list_all addr_char (show_nat n)"
    using addr_chars_radix [of 10 n] by (simp add: show_nat_def)
  ultimately show False by simp
qed

lemma word_ok_family: "word_ok (family_as_str f)" "word_ok (lit ''family'')"
proof -
  have "word_ok (family_as_str Inet)" "word_ok (family_as_str Inet6)" by code_simp+
  then show "word_ok (family_as_str f)" by (cases f) simp_all
  show "word_ok (lit ''family'')" by code_simp
qed

lemma family_named_as_str [simp]: "family_named (family_as_str f) = Some f"
proof -
  have "family_named (family_as_str Inet) = Some Inet" "family_named (family_as_str Inet6) = Some Inet6"
    by code_simp+
  then show ?thesis by (cases f) simp_all
qed

lemma str_lines_concat: "list_all line_ok ls \<Longrightarrow> str_lines (concat (map (\<lambda>l. l @ [10]) ls)) = ls"
  by (induction ls) (simp_all add: str_lines_Cons)

section \<open>The script\<close>

definition script_tokens :: "('a::linorder \<Rightarrow> rstr) \<Rightarrow> ipset_set_spec \<Rightarrow> rstr \<Rightarrow> 'a list \<Rightarrow> rstr list list" where
  "script_tokens display spec temp es =
     [lit ''create'', temp, sp_set_type spec, lit ''family'', family_as_str (sp_family spec),
       lit ''hashsize'', show_nat (sp_hashsize spec), lit ''maxelem'', show_nat (sp_maxelem spec),
       lit ''timeout'', show_nat (sp_timeout spec)]
     # map (\<lambda>e. [lit ''add'', temp, display e]) (sorted_unique_entries es)
     @ [[lit ''swap'', temp, sp_set_name spec]]"

definition spec_words_ok :: "ipset_set_spec \<Rightarrow> bool" where
  "spec_words_ok spec \<longleftrightarrow> word_ok (sp_set_name spec) \<and> word_ok (sp_set_type spec)"

lemma keywords_ok:
  "word_ok (lit ''create'')" "word_ok (lit ''family'')" "word_ok (lit ''hashsize'')" "word_ok (lit ''maxelem'')"
  "word_ok (lit ''timeout'')" "word_ok (lit ''add'')" "word_ok (lit ''swap'')"
  by code_simp+

lemma write_restore_script_lines:
  "write_restore_script display spec temp es
     = concat (map (\<lambda>l. l @ [10]) (map (str_join [32]) (script_tokens display spec temp es)))"
proof -
  have "lit ''create '' = lit ''create'' @ [32]" "lit '' family '' = [32] @ lit ''family'' @ [32]"
    "lit '' hashsize '' = [32] @ lit ''hashsize'' @ [32]" "lit '' maxelem '' = [32] @ lit ''maxelem'' @ [32]"
    "lit '' timeout '' = [32] @ lit ''timeout'' @ [32]" "lit ''add '' = lit ''add'' @ [32]"
    "lit ''swap '' = lit ''swap'' @ [32]"
    by code_simp+
  then show ?thesis
    by (simp add: write_restore_script_def create_line_def write_restore_entry_lines_def script_tokens_def comp_def)
qed

lemma set_sorted_unique [simp]: "set (sorted_unique_entries es) = set es"
  by (simp add: sorted_unique_entries_def)

lemma is_sorted_and_unique_iff: "is_sorted_and_unique es \<longleftrightarrow> sorted_wrt (<) es"
  by (induction es rule: is_sorted_and_unique.induct) (auto dest: less_trans)

lemma strict_sorted_unique: "sorted_wrt (<) (sorted_unique_entries es)"
  by (simp add: sorted_unique_entries_def is_sorted_and_unique_iff strict_sorted_sort_dedup)

lemma distinct_sorted_unique [simp]: "distinct (sorted_unique_entries es)"
  using strict_sorted_unique strict_sorted_iff by blast

lemma script_tokens_words:
  assumes "spec_words_ok spec" "word_ok temp" "\<forall>e \<in> set es. word_ok (display e)"
  shows "list_all (list_all word_ok) (script_tokens display spec temp es)"
  using assms keywords_ok word_ok_show_nat word_ok_family
  by (auto simp: script_tokens_def spec_words_ok_def list_all_iff)

lemma script_parsed:
  assumes "spec_words_ok spec" "word_ok temp" "\<forall>e \<in> set es. word_ok (display e)"
  shows "map split_whitespace (str_lines (write_restore_script display spec temp es)) = script_tokens display spec temp es"
proof -
  have w: "list_all (list_all word_ok) (script_tokens display spec temp es)"
    by (rule script_tokens_words [OF assms])
  then have "list_all line_ok (map (str_join [32]) (script_tokens display spec temp es))"
    by (auto simp: list_all_iff intro!: join_line_ok)
  then have "str_lines (write_restore_script display spec temp es) = map (str_join [32]) (script_tokens display spec temp es)"
    unfolding write_restore_script_lines by (rule str_lines_concat)
  then show ?thesis using w by (auto simp: list_all_iff split_whitespace_words intro!: map_idI)
qed

lemma ipset_names [simp]:
  "lit ''add'' \<noteq> lit ''create''" "lit ''add'' \<noteq> lit ''list''" "lit ''add'' \<noteq> lit ''destroy''"
  "lit ''swap'' \<noteq> lit ''create''" "lit ''swap'' \<noteq> lit ''list''" "lit ''swap'' \<noteq> lit ''destroy''"
  "lit ''swap'' \<noteq> lit ''add''" "lit ''list'' \<noteq> lit ''create''" "lit ''destroy'' \<noteq> lit ''create''"
  "lit ''destroy'' \<noteq> lit ''list''"
  by code_simp+

lemma ipset_effect_simps:
  "ipset_effect [lit ''add'', n, x] K = (case K n of None \<Rightarrow> None | Some k \<Rightarrow>
     if x \<in> ks_entries k then None else Some (K(n \<mapsto> k\<lparr>ks_entries := insert x (ks_entries k)\<rparr>)))"
  "ipset_effect [lit ''swap'', n, x] K = (case (K n, K x) of
     (Some k, Some k') \<Rightarrow> if ks_type k' = ks_type k \<and> ks_family k' = ks_family k
       then Some (K(n \<mapsto> k', x \<mapsto> k)) else None | _ \<Rightarrow> None)"
  "ipset_effect [lit ''destroy'', n] K = (case K n of None \<Rightarrow> None | Some k \<Rightarrow> Some (K(n := None)))"
  "ipset_effect (lit ''list'' # n # rest) K = (case K n of None \<Rightarrow> None | Some k \<Rightarrow> Some K)"
  by (simp_all add: ipset_effect_def split: option.split)

lemma create_effect:
  "ipset_effect (lit ''create'' # n # ty # u # family_as_str fam # opts) K = (case K n of
      None \<Rightarrow> Some (K(n \<mapsto> \<lparr>ks_type = ty, ks_family = fam, ks_entries = {}\<rparr>))
    | Some k \<Rightarrow> if opts \<noteq> [] \<and> last opts = lit ''-exist'' \<and> ks_type k = ty \<and> ks_family k = fam then Some K else None)"
  by (simp add: ipset_effect_def split: option.split)

lemma run_script_append:
  "run_script (xs @ ys) K = (case run_script xs K of None \<Rightarrow> None | Some K' \<Rightarrow> run_script ys K')"
  by (induction xs arbitrary: K) (auto split: option.split)

text \<open>The elements added are in the temporary set, and nowhere else.\<close>

lemma run_adds:
  assumes "K n = Some k"
  shows "run_script (map (\<lambda>e. [lit ''add'', n, e]) es) K =
    (if distinct es \<and> set es \<inter> ks_entries k = {}
     then Some (K(n \<mapsto> k\<lparr>ks_entries := ks_entries k \<union> set es\<rparr>)) else None)"
  using assms
proof (induction es arbitrary: K k)
  case Nil
  then show ?case by (simp add: fun_upd_idem)
next
  case (Cons e es)
  let ?k = "k\<lparr>ks_entries := insert e (ks_entries k)\<rparr>"
  show ?case
  proof (cases "e \<in> ks_entries k")
    case True
    then show ?thesis using Cons.prems by (simp add: ipset_effect_simps)
  next
    case False
    then have "run_script (map (\<lambda>e. [lit ''add'', n, e]) (e # es)) K
        = run_script (map (\<lambda>e. [lit ''add'', n, e]) es) (K(n \<mapsto> ?k))"
      using Cons.prems by (simp add: ipset_effect_simps)
    also have "\<dots> = (if distinct es \<and> set es \<inter> insert e (ks_entries k) = {}
        then Some (K(n \<mapsto> k\<lparr>ks_entries := insert e (ks_entries k) \<union> set es\<rparr>)) else None)"
      by (subst Cons.IH [of "K(n \<mapsto> ?k)" ?k]) simp_all
    finally show ?thesis using False by auto
  qed
qed

definition spec_set :: "('a \<Rightarrow> rstr) \<Rightarrow> ipset_set_spec \<Rightarrow> 'a list \<Rightarrow> kset" where
  "spec_set display spec es =
     \<lparr>ks_type = sp_set_type spec, ks_family = sp_family spec, ks_entries = display ` set es\<rparr>"

definition empty_set :: "ipset_set_spec \<Rightarrow> kset" where
  "empty_set spec = \<lparr>ks_type = sp_set_type spec, ks_family = sp_family spec, ks_entries = {}\<rparr>"

lemma script_shape:
  obtains create where
    "script_tokens display spec temp es = create
       # map (\<lambda>e. [lit ''add'', temp, e]) (map display (sorted_unique_entries es))
       @ [[lit ''swap'', temp, sp_set_name spec]]"
    "\<And>K. ipset_effect create K = (if K temp = None then Some (K(temp \<mapsto> empty_set spec)) else None)"
proof
  show "script_tokens display spec temp es = hd (script_tokens display spec temp es)
       # map (\<lambda>e. [lit ''add'', temp, e]) (map display (sorted_unique_entries es))
       @ [[lit ''swap'', temp, sp_set_name spec]]"
    by (simp add: script_tokens_def)
  show "ipset_effect (hd (script_tokens display spec temp es)) K
      = (if K temp = None then Some (K(temp \<mapsto> empty_set spec)) else None)" for K
    by (simp add: script_tokens_def create_effect empty_set_def show_nat_no_option split: option.split)
qed

lemma adds_touch:
  "run_script (map (\<lambda>e. [lit ''add'', n, e]) es) K = Some K' \<Longrightarrow> m \<noteq> n \<Longrightarrow> K' m = K m"
  by (induction es arbitrary: K) (fastforce simp: ipset_effect_simps split: option.splits if_splits)+

text \<open>Before its last line the script touches the temporary set only.\<close>

lemma script_partial:
  assumes "run_script (take j (script_tokens display spec temp es)) K = Some K'"
    and "j < length (script_tokens display spec temp es)" "n \<noteq> temp"
  shows "K' n = K n"
proof (rule script_shape [of display spec temp es])
  fix create
  let ?es = "map display (sorted_unique_entries es)"
  assume toks: "script_tokens display spec temp es = create # map (\<lambda>e. [lit ''add'', temp, e]) ?es
      @ [[lit ''swap'', temp, sp_set_name spec]]"
    and create: "\<And>K. ipset_effect create K = (if K temp = None then Some (K(temp \<mapsto> empty_set spec)) else None)"
  show "K' n = K n"
  proof (cases j)
    case 0
    then show ?thesis using assms(1) by simp
  next
    case (Suc i)
    have "i \<le> length ?es" using assms(2) Suc unfolding toks by simp
    then have "take j (script_tokens display spec temp es) = create # map (\<lambda>e. [lit ''add'', temp, e]) (take i ?es)"
      unfolding toks Suc by (simp add: take_map)
    then have "run_script (map (\<lambda>e. [lit ''add'', temp, e]) (take i ?es)) (K(temp \<mapsto> empty_set spec)) = Some K'"
      using assms(1) create by (simp split: if_splits)
    then show ?thesis using adds_touch assms(3) by fastforce
  qed
qed

lemma script_complete:
  assumes "temp \<noteq> sp_set_name spec"
  shows "run_script (script_tokens display spec temp es) K =
    (case K (sp_set_name spec) of
       Some k \<Rightarrow> if K temp = None \<and> distinct (map display (sorted_unique_entries es))
           \<and> ks_type k = sp_set_type spec \<and> ks_family k = sp_family spec
         then Some (K(temp \<mapsto> k, sp_set_name spec \<mapsto> spec_set display spec es)) else None
     | None \<Rightarrow> None)"
proof (rule script_shape [of display spec temp es])
  fix create
  let ?es = "map display (sorted_unique_entries es)"
  assume toks: "script_tokens display spec temp es = create # map (\<lambda>e. [lit ''add'', temp, e]) ?es
      @ [[lit ''swap'', temp, sp_set_name spec]]"
    and create: "\<And>K. ipset_effect create K = (if K temp = None then Some (K(temp \<mapsto> empty_set spec)) else None)"
  have new: "(empty_set spec)\<lparr>ks_entries := ks_entries (empty_set spec) \<union> set ?es\<rparr> = spec_set display spec es"
    "ks_entries (empty_set spec) = {}"
    by (simp_all add: empty_set_def spec_set_def)
  show ?thesis
  proof (cases "K temp = None \<and> distinct ?es")
    case True
    then have "run_script (script_tokens display spec temp es) K
        = run_script [[lit ''swap'', temp, sp_set_name spec]] (K(temp \<mapsto> spec_set display spec es))"
      unfolding toks using run_adds [of "K(temp \<mapsto> empty_set spec)" temp "empty_set spec" ?es] new
      by (simp add: create run_script_append)
    also have "\<dots> = ipset_effect [lit ''swap'', temp, sp_set_name spec] (K(temp \<mapsto> spec_set display spec es))"
      by (simp split: option.split)
    finally show ?thesis
      using True assms
      by (auto simp: ipset_effect_simps spec_set_def fun_upd_twist split: option.split)
  next
    case False
    then show ?thesis
      unfolding toks using run_adds [of "K(temp \<mapsto> empty_set spec)" temp "empty_set spec" ?es] new
      by (auto simp: create run_script_append split: option.split)
  qed
qed

section \<open>Inspection tells the truth\<close>

lemma find_map_skip: "f x = None \<Longrightarrow> find_map f (x # xs) = find_map f xs"
  by simp

lemma parse_listing:
  assumes "is_set_listing n k text"
  shows "parse_ipset_info text = (if has_family (ks_type k)
    then Inr \<lparr>info_set_type = ks_type k, info_family = ks_family k\<rparr> else Inl MissingFamily)"
proof -
  obtain rev opts more where L: "word_ok (ks_type k)" "list_all word_ok opts" "line_ok rev" "list_all line_ok more" "word_ok n"
    "text = str_join [10] ([lit ''Name: '' @ n, lit ''Type: '' @ ks_type k, lit ''Revision: '' @ rev,
         lit ''Header: '' @ str_join [32] (header_words k opts)] @ more) @ [10]"
    and none: "\<not> has_family (ks_type k) \<Longrightarrow> opts \<noteq> [] \<and> lit ''family'' \<notin> set opts"
    using assms unfolding is_set_listing_def by blast
  let ?hdr = "str_join [32] (header_words k opts)"
  have words: "list_all word_ok (header_words k opts)" "header_words k opts \<noteq> []"
    using L(2) word_ok_family none by (simp_all add: header_words_def)
  have keys: "10 \<notin> set (lit ''Name: '')" "10 \<notin> set (lit ''Type: '')" "10 \<notin> set (lit ''Revision: '')"
    "10 \<notin> set (lit ''Header: '')" "13 \<notin> set (lit ''Revision: '')" "is_whitespace 32"
    "\<not> prefix (lit ''Type:'') (lit ''Name: '' @ x)" "\<not> prefix (lit ''Header:'') (lit ''Name: '' @ x)"
    "\<not> prefix (lit ''Header:'') (lit ''Type: '' @ x)" "\<not> prefix (lit ''Header:'') (lit ''Revision: '' @ x)"
    "lit ''Type: '' = lit ''Type:'' @ [32]" "lit ''Header: '' = lit ''Header:'' @ [32]" for x
    by (simp_all add: lit_def is_whitespace_def)
  have w1: "line_ok w" "w \<noteq> []" if "word_ok w" for w
    using join_line_ok [of "[w]"] that by (simp_all add: word_ok_def)
  have "line_ok (lit ''Name: '' @ n)" "line_ok (lit ''Type: '' @ ks_type k)" "line_ok (lit ''Header: '' @ ?hdr)"
    by (rule line_ok_append [OF keys(1) w1(2) [OF L(5)] w1(1) [OF L(5)]],
        rule line_ok_append [OF keys(2) w1(2) [OF L(1)] w1(1) [OF L(1)]],
        rule line_ok_append [OF keys(4) join_ends(1) [OF words] join_line_ok [OF words(1)]])
  moreover have "line_ok (lit ''Revision: '' @ rev)"
    using keys L(3) by (auto simp: line_ok_def lit_def)
  ultimately have lines: "str_lines text = [lit ''Name: '' @ n, lit ''Type: '' @ ks_type k, lit ''Revision: '' @ rev,
         lit ''Header: '' @ ?hdr] @ more"
    unfolding L(6) using L(4) by (intro str_lines_join) simp_all
  have ty: "field (lit ''Type:'') text = Some (ks_type k)"
    using word_trim [OF L(1)] trim_blank [OF keys(6)]
    by (simp add: field_def lines strip_prefix_def keys(7,11))
  have hdr: "field (lit ''Header:'') text = Some ?hdr"
    using trim_join [OF words] trim_blank [OF keys(6)]
    by (simp add: field_def lines strip_prefix_def keys(8-10,12) del: str_join.simps)
  have toks: "split_whitespace ?hdr = header_words k opts"
    by (rule split_whitespace_words [OF words(1)])
  have absent: "value_after w ws = None" if "w \<notin> set ws" for w ws
    using that by (induction w ws rule: value_after.induct) auto
  have fam: "(if family_as_str f = lit ''inet'' then Inr Inet else if family_as_str f = lit ''inet6'' then Inr Inet6
               else Inl (UnsupportedFamily (family_as_str f))) = Inr f" for f
  proof -
    have "lit ''inet6'' \<noteq> lit ''inet''" by code_simp
    then show ?thesis by (cases f) simp_all
  qed
  have "value_after (lit ''family'') (header_words k opts)
      = (if has_family (ks_type k) then Some (family_as_str (ks_family k)) else None)"
    using none absent by (simp add: header_words_def)
  then show ?thesis
    using w1(2) [OF L(1)]
    by (simp add: parse_ipset_info_def ty hdr toks fam del: str_join.simps)
qed

lemma law_run:
  assumes "ipset_law h sets files" "ipset_command args" "ih_run h (lit ''ipset'') args s = (r, s')"
  shows "sets s' = sets s \<or> ipset_effect args (sets s) = Some (sets s')"
    "r = Inr res \<Longrightarrow> status_success (cr_status res) \<Longrightarrow> ipset_effect args (sets s) = Some (sets s')"
    "r = Inr res \<Longrightarrow> status_success (cr_status res) \<Longrightarrow> args = lit ''list'' # n # rest \<Longrightarrow> sets s n = Some k
       \<Longrightarrow> is_set_listing n k (cr_stdout res)"
    "r = Inr res \<Longrightarrow> is_missing_set_result res \<Longrightarrow> args = lit ''list'' # n # rest \<Longrightarrow> sets s n = None"
  using conjunct1 [OF assms(1) [unfolded ipset_law_def], rule_format, OF assms(2,3)] by auto

text \<open>A listing command does not change the sets; success finds the set, the missing-set
  diagnostic finds none.\<close>

lemma law_list:
  assumes law: "ipset_law h sets files" and cmd: "ipset_command (lit ''list'' # n # rest)"
    and run: "ih_run h (lit ''ipset'') (lit ''list'' # n # rest) s = (r, s')"
  shows "sets s' = sets s"
    "r = Inr res \<Longrightarrow> status_success (cr_status res) \<Longrightarrow> \<exists>k. sets s n = Some k
       \<and> parse_ipset_info (cr_stdout res) = (if has_family (ks_type k)
           then Inr \<lparr>info_set_type = ks_type k, info_family = ks_family k\<rparr> else Inl MissingFamily)"
    "r = Inr res \<Longrightarrow> is_missing_set_result res \<Longrightarrow> sets s n = None"
proof -
  show "sets s' = sets s"
    using law_run(1) [OF law cmd run] by (auto simp: ipset_effect_simps split: option.splits)
  show "r = Inr res \<Longrightarrow> is_missing_set_result res \<Longrightarrow> sets s n = None"
    using law_run(4) [OF law cmd run] by blast
  assume ok: "r = Inr res" "status_success (cr_status res)"
  then obtain k where k: "sets s n = Some k"
    using law_run(2) [OF law cmd run ok] by (auto simp: ipset_effect_simps split: option.splits)
  then show "\<exists>k. sets s n = Some k
       \<and> parse_ipset_info (cr_stdout res) = (if has_family (ks_type k)
           then Inr \<lparr>info_set_type = ks_type k, info_family = ks_family k\<rparr> else Inl MissingFamily)"
    using law_run(3) [OF law cmd run ok refl k] parse_listing by blast
qed

definition inspection_ok :: "kset option \<Rightarrow> ipset_error + ipset_set_info option \<Rightarrow> bool" where
  "inspection_ok found r \<longleftrightarrow> (case r of
     Inr None \<Rightarrow> found = None
   | Inr (Some i) \<Rightarrow> (\<exists>k. found = Some k \<and> info_set_type i = ks_type k \<and> info_family i = ks_family k)
   | Inl (IpsetExecution _) \<Rightarrow> True
   | Inl (IpsetCommandFailed _ _ _) \<Rightarrow> True
   | Inl (MalformedInspection _ why) \<Rightarrow> why = MissingFamily \<and> (\<exists>k. found = Some k \<and> \<not> has_family (ks_type k))
   | Inl _ \<Rightarrow> False)"

lemma inspect_spec:
  assumes law: "ipset_law h sets files" and run: "inspect_ipset h n s = (r, s')"
  shows "sets s' = sets s" "inspection_ok (sets s n) r"
proof -
  let ?terse = "lit ''list'' # n # [lit ''-terse'']" and ?list = "lit ''list'' # n # []"
  have cmd: "ipset_command ?terse" "ipset_command ?list" by (auto simp: ipset_command_def)
  obtain r1 s1 where r1: "ih_run h (lit ''ipset'') ?terse s = (r1, s1)" by fastforce
  obtain r2 s2 where r2: "ih_run h (lit ''ipset'') ?list s1 = (r2, s2)" by fastforce
  note L1 = law_list [OF law cmd(1) r1]
  note L2 = law_list [OF law cmd(2) r2]
  note eqs = inspect_ipset_def Let_def ipset_run_def act_simps r1 r2 ensure_command_succeeded_def
  have "sets s' = sets s \<and> inspection_ok (sets s n) r"
  proof (cases r1)
    case (Inl e)
    then show ?thesis using run L1(1) by (auto simp: eqs inspection_ok_def)
  next
    case r1v: (Inr res1)
    show ?thesis
    proof (cases "status_success (cr_status res1)")
      case True
      then show ?thesis using run L1(1) L1(2) [OF r1v True] by (auto simp: eqs r1v inspection_ok_def)
    next
      case F1: False
      show ?thesis
      proof (cases "is_missing_set_result res1 \<or> \<not> is_unsupported_terse_option_result res1")
        case True
        then show ?thesis using run F1 L1(1) L1(3) [OF r1v] by (auto simp: eqs r1v inspection_ok_def split: if_splits)
      next
        case F2: False
        show ?thesis
        proof (cases r2)
          case (Inl e)
          then show ?thesis using run F1 F2 L1(1) L2(1) by (auto simp: eqs r1v inspection_ok_def)
        next
          case r2v: (Inr res2)
          consider "is_missing_set_result res2" | "\<not> is_missing_set_result res2" "status_success (cr_status res2)"
            | "\<not> is_missing_set_result res2" "\<not> status_success (cr_status res2)" by blast
          then show ?thesis
          proof cases
            case 1
            then show ?thesis using run F1 F2 L1(1) L2(1) L2(3) [OF r2v] by (auto simp: eqs r1v r2v inspection_ok_def)
          next
            case 2
            then show ?thesis using run F1 F2 L1(1) L2(1) L2(2) [OF r2v] by (auto simp: eqs r1v r2v inspection_ok_def)
          next
            case 3
            then show ?thesis using run F1 F2 L1(1) L2(1) by (auto simp: eqs r1v r2v inspection_ok_def)
          qed
        qed
      qed
    qed
  qed
  then show "sets s' = sets s" "inspection_ok (sets s n) r" by simp_all
qed

section \<open>Temporary names\<close>

lemma utf8_len_append [simp]: "utf8_len (a @ b) = utf8_len a + utf8_len b"
  by (simp add: utf8_len_def)

lemma lower_hex_nibble_range: "lower_hex_nibble v \<le> 102 \<and> \<not> is_whitespace (lower_hex_nibble v)"
proof -
  have "unat (and v 15) \<le> 15"
    using word_and_le1 [of v 15] by (simp add: word_le_nat_alt)
  then show ?thesis by (auto simp: lower_hex_nibble_def Let_def is_whitespace_def)
qed

lemma hex_lower_chars: "c \<in> set (hex_lower bs) \<Longrightarrow> c \<le> 102 \<and> \<not> is_whitespace c"
  using lower_hex_nibble_range by (auto simp: hex_lower_def)

lemma utf8_len_ascii: "\<forall>c \<in> set s. c \<le> 102 \<Longrightarrow> utf8_len s = length s"
  by (induction s) (auto simp: utf8_len_def utf8_width_def)

lemma random_hex_suffix_props:
  assumes "random_hex_suffix h len s = (suf, s')"
  shows "utf8_len suf \<le> len" "list_all (\<lambda>c. \<not> is_whitespace c) suf" "s' = snd (ih_now_nanos h s)"
proof -
  obtain hex where suf: "suf = take (min len (length hex)) hex" and chars: "\<forall>c \<in> set hex. c \<le> 102 \<and> \<not> is_whitespace c"
    using assms hex_lower_chars by (auto simp: random_hex_suffix_def Let_def split: prod.splits)
  have "\<forall>c \<in> set suf. c \<le> 102" using suf chars by (auto dest: in_set_takeD)
  then show "utf8_len suf \<le> len" using utf8_len_ascii suf by simp
  show "list_all (\<lambda>c. \<not> is_whitespace c) suf" using suf chars by (auto simp: list_all_iff dest: in_set_takeD)
  show "s' = snd (ih_now_nanos h s)" using assms by (auto simp: random_hex_suffix_def Let_def split: prod.splits)
qed

lemma bytes_upto_len: "utf8_len (bytes_upto i s) \<le> i"
proof (induction i s rule: bytes_upto.induct)
  case (2 i c cs)
  have "utf8_len (c # x) = utf8_width c + utf8_len x" for x by (simp add: utf8_len_def)
  with 2 show ?case by (auto simp: utf8_len_def)
qed (simp add: utf8_len_def)

lemma floor_char_boundary_le: "floor_char_boundary s i \<le> i"
  by (induction i) (auto simp: le_SucI)

lemma truncate_len: "utf8_len (truncate_to_max_bytes s m) \<le> m"
  using bytes_upto_len [of "floor_char_boundary s m" s] floor_char_boundary_le [of s m]
  by (simp add: truncate_to_max_bytes_def)

lemma prefix_bytes_upto: "prefix (bytes_upto i s) s"
  by (induction i s rule: bytes_upto.induct) auto

lemma prefix_truncate: "prefix (truncate_to_max_bytes s m) s"
  by (simp add: truncate_to_max_bytes_def prefix_bytes_upto)

lemma truncate_whole: "utf8_len s \<le> m \<Longrightarrow> truncate_to_max_bytes s m = s"
  by (simp add: truncate_to_max_bytes_def)

lemma temp_name_word:
  assumes "word_ok base" "list_all (\<lambda>c. \<not> is_whitespace c) suf"
  shows "word_ok (temp_name base suf)"
proof -
  have k: "word_ok (lit ''kidobo'')" by code_simp
  have "list_all (\<lambda>c. \<not> is_whitespace c) (truncate_to_max_bytes base m)" for m
    using assms(1) set_mono_prefix [OF prefix_truncate [of base m]] by (auto simp: word_ok_def list_all_iff)
  with k assms(2) show ?thesis
    by (auto simp: temp_name_def Let_def word_ok_def is_whitespace_def)
qed

lemma kidobo_len: "utf8_len (lit ''kidobo'') = 6" by code_simp

text \<open>
  The name of the temporary set fits the kernel: at most 31 bytes, never empty, one word,
  whatever the managed name (also when it is cut inside a multi-byte character), and it
  differs from a managed name of at most 22 bytes.
\<close>

theorem temp_set_name_fits:
  assumes "word_ok base"
  shows "utf8_len (fst (generate_temp_set_name h base s)) \<le> IPSET_NAME_MAX_LEN
    \<and> word_ok (fst (generate_temp_set_name h base s))
    \<and> (utf8_len base \<le> 22 \<longrightarrow> fst (generate_temp_set_name h base s) \<noteq> base)"
proof -
  obtain suf s' where suf: "random_hex_suffix h 8 s = (suf, s')" by fastforce
  note p = random_hex_suffix_props [OF suf]
  have n: "fst (generate_temp_set_name h base s) = temp_name base suf"
    by (simp add: generate_temp_set_name_def suf)
  let ?m = "IPSET_NAME_MAX_LEN - (utf8_len suf + 1)"
  have m: "?m \<ge> 22" "?m + utf8_len suf \<le> 30" "utf8_len suf \<le> 8" using p(1) by (simp_all add: IPSET_NAME_MAX_LEN_def)
  have one: "utf8_len (45 # x) = 1 + utf8_len x" for x by (simp add: utf8_len_def utf8_width_def)
  have "utf8_len (truncate_to_max_bytes base ?m) + utf8_len suf \<le> 30"
    using truncate_len [of base ?m] m(2) by (meson add_right_mono order_trans)
  then have "utf8_len (temp_name base suf) \<le> 31"
    using m(3) kidobo_len one by (simp add: temp_name_def Let_def)
  moreover have "temp_name base suf \<noteq> base" if "utf8_len base \<le> 22"
  proof -
    have "truncate_to_max_bytes base ?m = base" using that m by (intro truncate_whole) simp
    then show ?thesis using assms by (auto simp: temp_name_def Let_def word_ok_def)
  qed
  ultimately show ?thesis
    using temp_name_word [OF assms p(2)] by (simp add: n IPSET_NAME_MAX_LEN_def)
qed

section \<open>Replacing and creating\<close>

lemma law_files:
  assumes "ipset_law h sets files"
  shows "sets (snd (ih_now_nanos h s)) = sets s"
    "sets (snd (ih_create_new h path s)) = sets s" "sets (snd (ih_remove_file h path s)) = sets s"
    "ih_write h path text s = (r, s') \<Longrightarrow> sets s' = sets s"
    "ih_write h path text s = (Inr (), s') \<Longrightarrow> files s' path = Some text"
  using assms unfolding ipset_law_def by (elim conjE, simp)+

lemma law_restore:
  assumes "ipset_law h sets files" "files s path = Some text"
    "ih_run h (lit ''ipset'') [lit ''restore'', lit ''-file'', path] s = (r, s')"
  obtains j where "j \<le> length (str_lines text)"
    "run_script (take j (map split_whitespace (str_lines text))) (sets s) = Some (sets s')"
    "\<And>res. r = Inr res \<Longrightarrow> status_success (cr_status res) \<Longrightarrow> j = length (str_lines text)"
proof -
  have "case files s path of None \<Rightarrow> sets s' = sets s \<and> (\<forall>res. r = Inr res \<longrightarrow> \<not> status_success (cr_status res))
      | Some text \<Rightarrow> let ls = map split_whitespace (str_lines text) in
             \<exists>k. k \<le> length ls \<and> run_script (take k ls) (sets s) = Some (sets s')
               \<and> (\<forall>res. r = Inr res \<longrightarrow> status_success (cr_status res) \<longrightarrow> k = length ls)"
    using assms(1,3) unfolding ipset_law_def by (elim conjE) simp
  then show ?thesis using assms(2) that by (auto simp: Let_def)
qed

lemma path_sets:
  assumes "ipset_law h sets files" "restore_script_path h s = (path, s')"
  shows "sets s' = sets s"
  using assms(2) law_files(1) [OF assms(1), of s] random_hex_suffix_props(3) [of h 12 s]
  by (auto simp: restore_script_path_def split: prod.splits)

lemma attempts_sets:
  assumes law: "ipset_law h sets files"
  shows "create_restore_script_attempts h n s = (r, s') \<Longrightarrow> sets s' = sets s"
proof (induction n arbitrary: s)
  case 0
  then show ?case using path_sets [OF law] by (auto split: prod.splits)
next
  case (Suc n)
  obtain path s1 where p: "restore_script_path h s = (path, s1)" by fastforce
  obtain r2 s2 where c: "ih_create_new h path s1 = (r2, s2)" by fastforce
  have "sets s2 = sets s" using path_sets [OF law p] law_files(2) [OF law, of path s1] c by simp
  then show ?case using Suc.IH [of s2] Suc.prems p c by (auto split: sum.splits if_splits)
qed

lemma destroy_sets:
  assumes law: "ipset_law h sets files"
  shows "m \<noteq> n \<Longrightarrow> sets (best_effort_destroy_set h n s) m = sets s m"
proof -
  obtain r s' where r: "ih_run h (lit ''ipset'') [lit ''destroy'', n] s = (r, s')" by fastforce
  have "ipset_command [lit ''destroy'', n]" by (auto simp: ipset_command_def)
  from law_run(1) [OF law this r]
  have "sets s' = sets s \<or> sets s' = (sets s)(n := None)"
    by (auto simp: ipset_effect_simps split: option.splits)
  then show "m \<noteq> n \<Longrightarrow> sets (best_effort_destroy_set h n s) m = sets s m"
    by (auto simp: best_effort_destroy_set_def r)
qed

text \<open>One run of the restore, between the creation and the removal of its script.\<close>

lemma restore_sets:
  assumes law: "ipset_law h sets files"
    and words: "spec_words_ok spec" "word_ok temp" "\<forall>e \<in> set es. word_ok (display e)"
    and new: "temp \<noteq> sp_set_name spec"
    and run: "execute_ipset_restore_with_entries h display spec temp es s = (r, s')"
  shows "n \<noteq> temp \<Longrightarrow> n \<noteq> sp_set_name spec \<Longrightarrow> sets s' n = sets s n"
    "sets s' (sp_set_name spec) = sets s (sp_set_name spec) \<and> r \<noteq> Inr ()
     \<or> sets s' (sp_set_name spec) = Some (spec_set display spec es)"
proof -
  let ?text = "write_restore_script display spec temp es"
  let ?toks = "script_tokens display spec temp es"
  obtain r1 s1 where c: "create_restore_script_file h s = (r1, s1)" by fastforce
  have k1: "sets s1 = sets s" using attempts_sets [OF law] c by (simp add: create_restore_script_file_def)
  have "(\<forall>n. n \<noteq> temp \<longrightarrow> n \<noteq> sp_set_name spec \<longrightarrow> sets s' n = sets s n) \<and>
    (sets s' (sp_set_name spec) = sets s (sp_set_name spec) \<and> r \<noteq> Inr ()
     \<or> sets s' (sp_set_name spec) = Some (spec_set display spec es))"
  proof (cases r1)
    case (Inl e)
    then show ?thesis using run c k1 by (auto simp: execute_ipset_restore_with_entries_def act_simps)
  next
    case path: (Inr path)
    obtain r2 s2 where w: "ih_write h path ?text s1 = (r2, s2)" by fastforce
    have k2: "sets s2 = sets s" using law_files(4) [OF law w] k1 by simp
    obtain r3 s3 where x: "ih_run h (lit ''ipset'') [lit ''restore'', lit ''-file'', path] s2 = (r3, s3)" by fastforce
    have rm: "sets (snd (ih_remove_file h path t)) = sets t" for t by (rule law_files(3) [OF law])
    show ?thesis
    proof (cases r2)
      case (Inl e)
      then show ?thesis using run c path w k2 rm [of s2]
        by (auto simp: execute_ipset_restore_with_entries_def act_simps split: prod.splits)
    next
      case ok: (Inr u)
      then have f: "files s2 path = Some ?text" using law_files(5) [OF law, of path ?text s1 s2] w by simp
      have len: "length (str_lines ?text) = length ?toks"
        using arg_cong [OF script_parsed [OF words], of length] by simp
      obtain j where j: "j \<le> length ?toks" "run_script (take j ?toks) (sets s) = Some (sets s3)"
        "\<And>res. r3 = Inr res \<Longrightarrow> status_success (cr_status res) \<Longrightarrow> j = length ?toks"
        using law_restore [OF law f x] unfolding script_parsed [OF words] k2 len by metis
      have out: "sets s' = sets s3"
        and bad: "r = Inr () \<Longrightarrow> \<exists>res. r3 = Inr res \<and> status_success (cr_status res)"
        using run c path w ok x rm [of s3]
        by (auto simp: execute_ipset_restore_with_entries_def run_checked_ipset_def ipset_run_def
            ensure_command_succeeded_def act_simps map_err_Inr_iff split: prod.splits sum.splits if_splits)
      show ?thesis
      proof (cases "j = length ?toks")
        case True
        then have "run_script ?toks (sets s) = Some (sets s3)" using j(2) by simp
        then have "sets s3 = (sets s)(temp := sets s (sp_set_name spec), sp_set_name spec \<mapsto> spec_set display spec es)"
          unfolding script_complete [OF new] by (auto split: option.splits if_splits)
        then show ?thesis using out by simp
      next
        case False
        then have "n \<noteq> temp \<Longrightarrow> sets s3 n = sets s n" for n
          using script_partial [OF j(2)] j(1) by simp
        moreover have "r \<noteq> Inr ()" using False bad j(3) by blast
        ultimately show ?thesis using out new by simp
      qed
    qed
  qed
  then show "n \<noteq> temp \<Longrightarrow> n \<noteq> sp_set_name spec \<Longrightarrow> sets s' n = sets s n"
    "sets s' (sp_set_name spec) = sets s (sp_set_name spec) \<and> r \<noteq> Inr ()
     \<or> sets s' (sp_set_name spec) = Some (spec_set display spec es)" by blast+
qed

lemma atomic_replace_sets:
  assumes "ipset_law h sets files" "spec_words_ok spec" "\<forall>e \<in> set es. word_ok (display e)"
    and "fst (generate_temp_set_name h (sp_set_name spec) s) \<noteq> sp_set_name spec"
    and run: "atomic_replace_ipset_values h display spec es s = (r, s')"
  shows "(if r = Inr () then sets s' (sp_set_name spec) = Some (spec_set display spec es)
      else sets s' (sp_set_name spec) = sets s (sp_set_name spec)
        \<or> sets s' (sp_set_name spec) = Some (spec_set display spec es))
    \<and> (\<forall>n. n \<noteq> sp_set_name spec \<longrightarrow> n \<noteq> fst (generate_temp_set_name h (sp_set_name spec) s) \<longrightarrow>
         sets s' n = sets s n)"
proof -
  let ?name = "sp_set_name spec"
  obtain temp s1 where t: "generate_temp_set_name h ?name s = (temp, s1)" by fastforce
  obtain r3 s3 where x: "execute_ipset_restore_with_entries h display spec temp es (best_effort_destroy_set h temp s1) = (r3, s3)"
    by fastforce
  have out: "r = r3" "s' = best_effort_destroy_set h temp s3"
    using run by (simp_all add: atomic_replace_ipset_values_def t x)
  obtain suf where suf: "random_hex_suffix h 8 s = (suf, s1)" "temp = temp_name ?name suf"
    using t by (auto simp: generate_temp_set_name_def split: prod.splits)
  have word: "word_ok temp"
    using temp_name_word [of ?name suf] random_hex_suffix_props(2) [OF suf(1)] assms(2) suf(2)
    by (simp add: spec_words_ok_def)
  have k1: "sets s1 = sets s" using random_hex_suffix_props(3) [OF suf(1)] law_files(1) [OF assms(1), of s] by simp
  have new: "temp \<noteq> ?name" using assms(4) t by simp
  note d = destroy_sets [OF assms(1)]
  note R = restore_sets [OF assms(1,2) word assms(3) new x]
  have "sets s' n = sets s n" if "n \<noteq> ?name" "n \<noteq> temp" for n
    using R(1) [OF that(2,1)] d [OF that(2), of s3] d [OF that(2), of s1] out k1 by simp
  moreover have "sets s' ?name = sets s ?name \<and> r \<noteq> Inr () \<or> sets s' ?name = Some (spec_set display spec es)"
    using R(2) d [of ?name temp s3] d [of ?name temp s1] new out k1 by metis
  ultimately show ?thesis using t by auto
qed

lemma ensure_ipset_sets:
  assumes "ipset_law h sets files" and run: "ensure_ipset_exists h spec s = (r, s')"
  shows "(\<forall>n. n \<noteq> sp_set_name spec \<longrightarrow> sets s' n = sets s n)
    \<and> (case sets s (sp_set_name spec) of
         Some k \<Rightarrow> sets s' (sp_set_name spec) = Some k
           \<and> (r = Inr () \<longrightarrow> ks_type k = sp_set_type spec \<and> ks_family k = sp_family spec)
       | None \<Rightarrow> sets s' (sp_set_name spec) \<in> {None, Some (empty_set spec)}
           \<and> (r = Inr () \<longrightarrow> sets s' (sp_set_name spec) = Some (empty_set spec)))
    \<and> (\<forall>n et ef at af. r = Inl (IncompatibleSet n et ef at af) \<longrightarrow>
         (\<exists>k. sets s (sp_set_name spec) = Some k \<and> (ks_type k \<noteq> sp_set_type spec \<or> ks_family k \<noteq> sp_family spec)))
    \<and> (\<forall>n why. r = Inl (MalformedInspection n why) \<longrightarrow>
         why = MissingFamily \<and> (\<exists>k. sets s (sp_set_name spec) = Some k \<and> \<not> has_family (ks_type k)))"
proof -
  let ?n = "sp_set_name spec"
  let ?args = "[lit ''create'', ?n, sp_set_type spec,
         lit ''family'', family_as_str (sp_family spec), lit ''hashsize'', show_nat (sp_hashsize spec),
         lit ''maxelem'', show_nat (sp_maxelem spec), lit ''timeout'', show_nat (sp_timeout spec), lit ''-exist'']"
  obtain r1 s1 where i: "inspect_ipset h ?n s = (r1, s1)" by fastforce
  note I = inspect_spec [OF assms(1) i]
  have cmd: "ipset_command ?args" unfolding ipset_command_def by blast
  obtain r2 s2 where c: "ih_run h (lit ''ipset'') ?args s1 = (r2, s2)" by fastforce
  note C = law_run [OF assms(1) cmd c]
  show ?thesis
  proof (cases "r1 = Inr None")
    case True
    then have none: "sets s1 ?n = None" using I by (simp add: inspection_ok_def)
    then have "sets s2 = sets s1 \<or> sets s2 = (sets s1)(?n \<mapsto> empty_set spec)"
      "r2 = Inr res \<Longrightarrow> status_success (cr_status res) \<Longrightarrow> sets s2 = (sets s1)(?n \<mapsto> empty_set spec)" for res
      using C(1,2) by (auto simp: create_effect empty_set_def)
    moreover have "s' = s2 \<and> (r = Inr () \<longrightarrow> (\<exists>res. r2 = Inr res \<and> status_success (cr_status res)))
        \<and> (\<forall>e. r = Inl e \<longrightarrow> (case e of IpsetExecution _ \<Rightarrow> True | IpsetCommandFailed _ _ _ \<Rightarrow> True | _ \<Rightarrow> False))"
      using run True i c
      by (cases r2) (auto simp: ensure_ipset_exists_def create_ipset_def run_checked_ipset_def ipset_run_def
          ensure_command_succeeded_def act_simps split: if_splits)
    moreover have "sets s1 \<noteq> (sets s1)(?n \<mapsto> empty_set spec)" using none by (metis fun_upd_same option.distinct(1))
    ultimately show ?thesis using none I(1) by (cases r) auto
  next
    case False
    then show ?thesis
      using run i I
      by (cases r1) (auto simp: ensure_ipset_exists_def act_simps inspection_ok_def
          split: option.splits if_splits ipset_error.splits)
  qed
qed

section \<open>A model of the host\<close>

text \<open>Sets, files and a clock in memory, obeying the law; the digest is a constant and at most
  \<open>fuel\<close> lines of a restore file are run.\<close>

record model_host =
  mh_sets :: ksets
  mh_files :: "rstr \<Rightarrow> rstr option"
  mh_clock :: nat
  mh_fuel :: nat

definition mh_result :: "bool \<Rightarrow> rstr \<Rightarrow> command_runner_error + command_result" where
  "mh_result ok out = Inr \<lparr>cr_status = Exited (if ok then 0 else 1), cr_stdout = out, cr_stderr = []\<rparr>"

definition mh_listing :: "rstr \<Rightarrow> kset \<Rightarrow> rstr" where
  "mh_listing n k = str_join [10] ([lit ''Name: '' @ n, lit ''Type: '' @ ks_type k, lit ''Revision: '' @ lit ''7'',
     lit ''Header: '' @ str_join [32] (header_words k [lit ''size''])] @ []) @ [10]"

fun run_fuel :: "nat \<Rightarrow> rstr list list \<Rightarrow> ksets \<Rightarrow> nat \<times> ksets" where
  "run_fuel n [] K = (0, K)"
| "run_fuel 0 (t # ts) K = (0, K)"
| "run_fuel (Suc n) (t # ts) K = (case ipset_effect t K of
     None \<Rightarrow> (0, K) | Some K' \<Rightarrow> (case run_fuel n ts K' of (j, K'') \<Rightarrow> (Suc j, K'')))"

definition mh_run :: "model_host runner" where
  "mh_run program args s =
     (case args of
        [a, b, path] \<Rightarrow>
          if a = lit ''restore'' \<and> b = lit ''-file'' then
            (case mh_files s path of
               None \<Rightarrow> (mh_result False [], s)
             | Some text \<Rightarrow> (let ls = map split_whitespace (str_lines text) in
                 case run_fuel (mh_fuel s) ls (mh_sets s) of (j, K) \<Rightarrow>
                   (mh_result (j = length ls) [], s\<lparr>mh_sets := K\<rparr>)))
          else if a = lit ''list'' then
            (case mh_sets s b of None \<Rightarrow> (mh_result False [], s)
             | Some k \<Rightarrow> (mh_result (word_ok b \<and> word_ok (ks_type k)) (mh_listing b k), s))
          else (mh_result False [], s)
      | [a, n] \<Rightarrow>
          if a = lit ''destroy'' \<and> mh_sets s n \<noteq> None then (mh_result True [], s\<lparr>mh_sets := (mh_sets s)(n := None)\<rparr>)
          else (mh_result False [], s)
      | _ \<Rightarrow> (case ipset_effect args (mh_sets s) of
          None \<Rightarrow> (mh_result False [], s)
        | Some K \<Rightarrow> (mh_result (hd args = lit ''create'') [], s\<lparr>mh_sets := K\<rparr>)))"

definition model_ipset_host :: "model_host ipset_host" where
  "model_ipset_host = \<lparr>ih_run = mh_run, ih_now_nanos = (\<lambda>s. (mh_clock s, s\<lparr>mh_clock := mh_clock s + 1\<rparr>)),
     ih_process_id = 4242, ih_sha256 = (\<lambda>b. [222, 173, 190, 239, 1, 35, 69, 103]), ih_temp_dir = lit ''/tmp'',
     ih_create_new = (\<lambda>p s. if mh_files s p = None then (Inr (), s\<lparr>mh_files := (mh_files s)(p \<mapsto> [])\<rparr>)
        else (Inl AlreadyExists, s)),
     ih_write = (\<lambda>p t s. (Inr (), s\<lparr>mh_files := (mh_files s)(p \<mapsto> t)\<rparr>)),
     ih_remove_file = (\<lambda>p s. (Inr (), s\<lparr>mh_files := (mh_files s)(p := None)\<rparr>))\<rparr>"

lemma run_fuel_run:
  "run_fuel n ts K = (j, K') \<Longrightarrow> j \<le> length ts \<and> run_script (take j ts) K = Some K'"
  by (induction n ts K arbitrary: j K' rule: run_fuel.induct) (auto split: option.splits prod.splits)

lemma mh_result_simps [simp]:
  "mh_result ok out = Inr res \<Longrightarrow> status_success (cr_status res) \<longleftrightarrow> ok"
  "mh_result ok out = Inr res \<Longrightarrow> cr_stdout res = out"
  "mh_result ok out = Inr res \<Longrightarrow> \<not> is_missing_set_result res"
  by (auto simp: mh_result_def status_success_def is_missing_set_result_def to_ascii_lowercase_def lit_def
      split: if_splits)

lemma mh_listing_ok: "word_ok n \<Longrightarrow> word_ok (ks_type k) \<Longrightarrow> is_set_listing n k (mh_listing n k)"
proof -
  have "line_ok (lit ''7'')" "word_ok (lit ''size'')" "lit ''family'' \<noteq> lit ''size''" by code_simp+
  then show "word_ok n \<Longrightarrow> word_ok (ks_type k) \<Longrightarrow> is_set_listing n k (mh_listing n k)"
    unfolding is_set_listing_def mh_listing_def
    by (intro exI [of _ "lit ''7''"] exI [of _ "[lit ''size'']"] exI [of _ "[]"]) simp
qed

lemma lit_names2:
  "lit ''list'' \<noteq> lit ''destroy''" "lit ''list'' \<noteq> lit ''restore''" "lit ''destroy'' \<noteq> lit ''restore''" "lit ''create'' \<noteq> lit ''restore''"
  by code_simp+

lemma mh_list:
  assumes "mh_run program (lit ''list'' # n # rest) s = (r, s')" "ipset_command (lit ''list'' # n # rest)"
  shows "s' = s \<and> (\<forall>res. r = Inr res \<longrightarrow> (status_success (cr_status res) \<longrightarrow>
      (\<exists>k. mh_sets s n = Some k \<and> is_set_listing n k (cr_stdout res))) \<and> \<not> is_missing_set_result res)"
proof -
  have "rest = [] \<or> rest = [lit ''-terse'']"
    using assms(2) by (auto simp: ipset_command_def)
  then show ?thesis
    using assms(1) lit_names2 mh_listing_ok
    by (auto simp: mh_run_def split: option.splits if_splits)
qed

lemma mh_destroy:
  assumes "mh_run program [lit ''destroy'', n] s = (r, s')"
  shows "mh_sets s' = mh_sets s \<or> ipset_effect [lit ''destroy'', n] (mh_sets s) = Some (mh_sets s')"
    "\<forall>res. r = Inr res \<longrightarrow> (status_success (cr_status res) \<longrightarrow>
       ipset_effect [lit ''destroy'', n] (mh_sets s) = Some (mh_sets s'))"
  using assms by (auto simp: mh_run_def ipset_effect_simps split: option.splits if_splits)

lemma mh_create:
  assumes "mh_run program (lit ''create'' # n # ty # u # f # rest) s = (r, s')"
  shows "mh_sets s' = mh_sets s \<or> ipset_effect (lit ''create'' # n # ty # u # f # rest) (mh_sets s) = Some (mh_sets s')"
    "\<forall>res. r = Inr res \<longrightarrow> (status_success (cr_status res) \<longrightarrow>
       ipset_effect (lit ''create'' # n # ty # u # f # rest) (mh_sets s) = Some (mh_sets s'))"
  using assms by (auto simp: mh_run_def split: option.splits if_splits)

lemma mh_restore:
  assumes "mh_run program [lit ''restore'', lit ''-file'', path] s = (r, s')"
  shows "case mh_files s path of
           None \<Rightarrow> mh_sets s' = mh_sets s \<and> (\<forall>res. r = Inr res \<longrightarrow> \<not> status_success (cr_status res))
         | Some text \<Rightarrow> let ls = map split_whitespace (str_lines text) in
             \<exists>k. k \<le> length ls \<and> run_script (take k ls) (mh_sets s) = Some (mh_sets s')
               \<and> (\<forall>res. r = Inr res \<longrightarrow> status_success (cr_status res) \<longrightarrow> k = length ls)"
proof (cases "mh_files s path")
  case None
  then show ?thesis using assms by (auto simp: mh_run_def)
next
  case (Some body)
  obtain j K where jK: "run_fuel (mh_fuel s) (map split_whitespace (str_lines body)) (mh_sets s) = (j, K)" by fastforce
  then have "s' = s\<lparr>mh_sets := K\<rparr>" "mh_result (j = length (str_lines body)) [] = r"
    using assms Some by (simp_all add: mh_run_def)
  then show ?thesis using run_fuel_run [OF jK] Some by (auto simp: Let_def)
qed

lemma model_ipset_law: "ipset_law model_ipset_host mh_sets mh_files"
  unfolding ipset_law_def
proof (intro conjI allI impI)
  fix args s r s'
  assume cmd: "ipset_command args" and "ih_run model_ipset_host (lit ''ipset'') args s = (r, s')"
  then have run: "mh_run (lit ''ipset'') args s = (r, s')" by (simp add: model_ipset_host_def)
  consider n rest where "args = lit ''list'' # n # rest" | n where "args = [lit ''destroy'', n]"
    | n ty u f rest where "args = lit ''create'' # n # ty # u # f # rest"
    using cmd unfolding ipset_command_def by blast
  then show "mh_sets s' = mh_sets s \<or> ipset_effect args (mh_sets s) = Some (mh_sets s')"
    "\<And>res. r = Inr res \<Longrightarrow> status_success (cr_status res) \<Longrightarrow> ipset_effect args (mh_sets s) = Some (mh_sets s')"
    "\<And>res n rest k. r = Inr res \<Longrightarrow> status_success (cr_status res) \<Longrightarrow> args = lit ''list'' # n # rest
       \<Longrightarrow> mh_sets s n = Some k \<Longrightarrow> is_set_listing n k (cr_stdout res)"
    "\<And>res n rest. r = Inr res \<Longrightarrow> is_missing_set_result res \<Longrightarrow> args = lit ''list'' # n # rest \<Longrightarrow> mh_sets s n = None"
    by (cases; use run mh_list mh_destroy mh_create cmd in \<open>fastforce simp: ipset_effect_simps\<close>)+
next
  fix path s r s'
  assume "ih_run model_ipset_host (lit ''ipset'') [lit ''restore'', lit ''-file'', path] s = (r, s')"
  then show "case mh_files s path of
           None \<Rightarrow> mh_sets s' = mh_sets s \<and> (\<forall>res. r = Inr res \<longrightarrow> \<not> status_success (cr_status res))
         | Some text \<Rightarrow> let ls = map split_whitespace (str_lines text) in
             \<exists>k. k \<le> length ls \<and> run_script (take k ls) (mh_sets s) = Some (mh_sets s')
               \<and> (\<forall>res. r = Inr res \<longrightarrow> status_success (cr_status res) \<longrightarrow> k = length ls)"
    by (intro mh_restore) (simp add: model_ipset_host_def)
qed (auto simp: model_ipset_host_def split: if_splits)

section \<open>Properties\<close>

text \<open>
  C39: The restore script is right as text: split into lines and words the way ipset reads it,
  and run on sets where the managed set is compatible and the temporary name is free, it
  runs to its end (no element is added twice) and leaves the managed name with exactly the
  given entries and the old set under the temporary name.
\<close>

theorem restore_script_installs:
  assumes "spec_words_ok spec" "word_ok temp" "\<forall>e \<in> set es. word_ok (display e)" "inj_on display (set es)"
    and "temp \<noteq> sp_set_name spec" "K temp = None"
    and "K (sp_set_name spec) = Some k" "ks_type k = sp_set_type spec" "ks_family k = sp_family spec"
  shows "run_script (map split_whitespace (str_lines (write_restore_script display spec temp es))) K
    = Some (K(temp \<mapsto> k, sp_set_name spec \<mapsto> spec_set display spec es))"
  using assms by (simp add: script_parsed script_complete distinct_map)

definition example_spec :: ipset_set_spec where
  "example_spec = \<lparr>sp_set_name = lit ''kidobo'', sp_set_type = lit ''hash:net'', sp_family = Inet,
     sp_hashsize = 65536, sp_maxelem = 500000, sp_timeout = 0\<rparr>"

definition example_kset :: kset where
  "example_kset = \<lparr>ks_type = lit ''hash:net'', ks_family = Inet, ks_entries = {lit ''192.0.2.0/24''}\<rparr>"

definition example_sets :: ksets where
  "example_sets = [lit ''kidobo'' \<mapsto> example_kset, lit ''other'' \<mapsto> example_kset]"

lemma example_words: "spec_words_ok example_spec" "word_ok (lit ''10.0.0.0/8'')" "word_ok (lit ''198.51.100.7/32'')"
  "word_ok (lit ''kidobo-deadbeef'')" "word_ok (sp_set_type example_spec)"
  by code_simp+

lemma example_names:
  "lit ''kidobo-deadbeef'' \<noteq> sp_set_name example_spec" "example_sets (lit ''kidobo-deadbeef'') = None"
  "example_sets (sp_set_name example_spec) = Some example_kset"
  by code_simp+

theorem restore_script_installs_witness:
  "run_script (map split_whitespace (str_lines (write_restore_script id example_spec (lit ''kidobo-deadbeef'')
       [lit ''198.51.100.7/32'', lit ''10.0.0.0/8'', lit ''198.51.100.7/32'']))) example_sets
    = Some (example_sets(lit ''kidobo-deadbeef'' \<mapsto> example_kset, sp_set_name example_spec \<mapsto>
        spec_set id example_spec [lit ''198.51.100.7/32'', lit ''10.0.0.0/8'', lit ''198.51.100.7/32'']))"
  by (rule restore_script_installs)
    (use example_words example_names in \<open>simp_all add: example_kset_def example_spec_def\<close>)

text \<open>
  C38: Replacement is all or nothing. Whatever fails, at whatever point (the clock, the script
  file, the restore stopped after any line, the clean-up), the managed set is afterwards
  untouched or has exactly the new entries, and it has them if success is reported; no set
  but the managed one and the temporary one is touched.
\<close>

theorem atomic_replace_all_or_nothing:
  assumes "ipset_law h sets files" "spec_words_ok spec" "\<forall>e \<in> set es. word_ok (display e)"
    and "fst (generate_temp_set_name h (sp_set_name spec) s) \<noteq> sp_set_name spec"
    and run: "atomic_replace_ipset_values h display spec es s = (r, s')"
  shows "(if r = Inr () then sets s' (sp_set_name spec) = Some (spec_set display spec es)
      else sets s' (sp_set_name spec) = sets s (sp_set_name spec)
        \<or> sets s' (sp_set_name spec) = Some (spec_set display spec es))
    \<and> (\<forall>n. n \<noteq> sp_set_name spec \<longrightarrow> n \<noteq> fst (generate_temp_set_name h (sp_set_name spec) s) \<longrightarrow>
         sets s' n = sets s n)"
  by (rule atomic_replace_sets [OF assms])

definition example_host :: model_host where
  "example_host = \<lparr>mh_sets = example_sets, mh_files = (\<lambda>_. None), mh_clock = 7, mh_fuel = 2\<rparr>"

theorem temp_set_name_fits_witness:
  "utf8_len (fst (generate_temp_set_name model_ipset_host (lit ''kidobo'') example_host)) \<le> IPSET_NAME_MAX_LEN
    \<and> word_ok (fst (generate_temp_set_name model_ipset_host (lit ''kidobo'') example_host))
    \<and> fst (generate_temp_set_name model_ipset_host (lit ''kidobo'') example_host) \<noteq> lit ''kidobo''"
proof -
  have "word_ok (lit ''kidobo'')" by code_simp
  from temp_set_name_fits [OF this] show ?thesis by (simp add: kidobo_len)
qed

lemma example_temp: "fst (generate_temp_set_name model_ipset_host (sp_set_name example_spec) example_host)
  = lit ''kidobo-deadbeef''"
  by code_simp

theorem atomic_replace_all_or_nothing_witness:
  "\<exists>r s'. atomic_replace_ipset_values model_ipset_host id example_spec [lit ''10.0.0.0/8''] example_host = (r, s')
    \<and> (if r = Inr () then mh_sets s' (sp_set_name example_spec) = Some (spec_set id example_spec [lit ''10.0.0.0/8''])
      else mh_sets s' (sp_set_name example_spec) = mh_sets example_host (sp_set_name example_spec)
        \<or> mh_sets s' (sp_set_name example_spec) = Some (spec_set id example_spec [lit ''10.0.0.0/8'']))
    \<and> (\<forall>n. n \<noteq> sp_set_name example_spec \<longrightarrow>
         n \<noteq> fst (generate_temp_set_name model_ipset_host (sp_set_name example_spec) example_host) \<longrightarrow>
         mh_sets s' n = mh_sets example_host n)"
proof -
  obtain r s' where run: "atomic_replace_ipset_values model_ipset_host id example_spec [lit ''10.0.0.0/8''] example_host = (r, s')"
    by fastforce
  have "\<forall>e \<in> set [lit ''10.0.0.0/8'']. word_ok (id e)" using example_words(2) by simp
  moreover have "fst (generate_temp_set_name model_ipset_host (sp_set_name example_spec) example_host) \<noteq> sp_set_name example_spec"
    using example_temp example_names(1) by simp
  ultimately show ?thesis
    using run atomic_replace_all_or_nothing [OF model_ipset_law example_words(1) _ _ run] by blast
qed

text \<open>
  C40: Ensuring a set never changes the contents of a set. Success means that the managed set
  exists with the configured type and family, with its old contents, or empty if it did not
  exist; the incompatibility error is raised for a set that really differs; a true listing is
  found malformed only for the missing family of a set whose type has none.
\<close>

theorem ensure_ipset_exact:
  assumes "ipset_law h sets files" and run: "ensure_ipset_exists h spec s = (r, s')"
  shows "(\<forall>n. n \<noteq> sp_set_name spec \<longrightarrow> sets s' n = sets s n)
    \<and> (case sets s (sp_set_name spec) of
         Some k \<Rightarrow> sets s' (sp_set_name spec) = Some k
           \<and> (r = Inr () \<longrightarrow> ks_type k = sp_set_type spec \<and> ks_family k = sp_family spec)
       | None \<Rightarrow> sets s' (sp_set_name spec) \<in> {None, Some (empty_set spec)}
           \<and> (r = Inr () \<longrightarrow> sets s' (sp_set_name spec) = Some (empty_set spec)))
    \<and> (\<forall>n et ef at af. r = Inl (IncompatibleSet n et ef at af) \<longrightarrow>
         (\<exists>k. sets s (sp_set_name spec) = Some k \<and> (ks_type k \<noteq> sp_set_type spec \<or> ks_family k \<noteq> sp_family spec)))
    \<and> (\<forall>n why. r = Inl (MalformedInspection n why) \<longrightarrow>
         why = MissingFamily \<and> (\<exists>k. sets s (sp_set_name spec) = Some k \<and> \<not> has_family (ks_type k)))"
  by (rule ensure_ipset_sets [OF assms])

theorem ensure_ipset_exact_witness:
  "\<exists>r s'. ensure_ipset_exists model_ipset_host example_spec example_host = (r, s')
    \<and> (\<forall>n. n \<noteq> sp_set_name example_spec \<longrightarrow> mh_sets s' n = mh_sets example_host n)
    \<and> (case mh_sets example_host (sp_set_name example_spec) of
         Some k \<Rightarrow> mh_sets s' (sp_set_name example_spec) = Some k
           \<and> (r = Inr () \<longrightarrow> ks_type k = sp_set_type example_spec \<and> ks_family k = sp_family example_spec)
       | None \<Rightarrow> mh_sets s' (sp_set_name example_spec) \<in> {None, Some (empty_set example_spec)}
           \<and> (r = Inr () \<longrightarrow> mh_sets s' (sp_set_name example_spec) = Some (empty_set example_spec)))"
proof -
  obtain r s' where run: "ensure_ipset_exists model_ipset_host example_spec example_host = (r, s')" by fastforce
  then show ?thesis using ensure_ipset_exact [OF model_ipset_law run] by blast
qed

end
