(* ===== verification/App_Types.thy ===== *)
theory App_Types
  imports Actions Temporary_Bans Iptables Ipset
begin

text \<open>
  The data the application workflows share: \<^verbatim>\<open>crates/kidobo-app/src/error.rs\<close>,
  \<^verbatim>\<open>paths.rs\<close>, \<^verbatim>\<open>ports.rs\<close>, \<^verbatim>\<open>temporary_bans.rs\<close> and \<^verbatim>\<open>source.rs\<close> (notices, source
  descriptors, batches and registries). A port is an operation of the surrounding system on
  its state, so a set of ports is a record of actions. Diagnostics that only carry a foreign
  message are text; notices are the data their message is formatted from.
\<close>

section \<open>Errors\<close>

datatype app_error =
    StoragePreparation rstr io_error
  | TemporaryBansFailed rstr temporary_ban_error
  | TemporaryBansIo rstr io_error
  | ClockFailed rstr
  | PartialBanUpdate rstr rstr app_error
  | Interrupted
  | PreviewSourceBudget rstr rstr
  | CacheStaging rstr rstr
  | PathResolution rstr
  | MissingConfigFile rstr
  | ConfigRead rstr io_error
  | ConfigWrite rstr io_error
  | ConfigurationChanged
  | ConfigurationEdit rstr
  | ConfirmationRequired
  | ConfigParse config_error
  | LockFailed rstr
  | BlocklistRead rstr io_error
  | BlocklistParseLine rstr nat rstr
  | BlocklistWrite rstr io_error
  | BlocklistTargetParse rstr
  | BlocklistTargetFileRead rstr io_error
  | BlocklistInvalidTargets nat
  | BlocklistChanged
  | AsnTokens asn_token_error
  | AsnFailed rstr
  | FlushCacheIo rstr io_error
  | FlushIncomplete nat rstr
  | IpsetCapacityExceeded address_family rstr nat nat
  | LookupInvalidTargets nat
  | LookupTargetFileRead rstr io_error
  | LookupSourceLoad rstr
  | FirewallFailed firewall_error
  | IpsetFailed ipset_error
  | InitIo rstr io_error
  | InitSystemd rstr rstr
  | InitBinaryPathUnavailable rstr
  | SourceFailed rstr rstr
  | SourceAggregateBudgetExceeded nat nat
  | CachePromotion rstr io_error
  | DuplicateSourceProvider rstr

section \<open>Paths\<close>

record path_resolution_input =
  explicit_config_path :: "rstr option"
  temp_dir :: rstr
  env_vars :: "(rstr \<times> rstr) list"

record resolved_paths =
  root_override :: "rstr option"
  config_dir :: rstr
  config_file :: rstr
  data_dir :: rstr
  blocklist_file :: rstr
  cache_dir :: rstr
  remote_cache_dir :: rstr
  lock_file :: rstr

datatype config_requirement = ConfigRequired | ConfigOptional

definition temporary_bans_file :: "resolved_paths \<Rightarrow> rstr" where
  "temporary_bans_file p = path_join (data_dir p) (lit ''temporary-bans.toml'')"

section \<open>Notices\<close>

datatype notice_level = Info | Warning

datatype notice_message =
    KernelTimeout
  | SourceFailedSoftly rstr app_error
  | SafelistRejected rstr
  | NoAdmissibleFallback rstr
  | ExpiredCleanupFailed app_error
  | Ipv6FirewallCleanupFailed firewall_error
  | Ipv6IpsetCleanupSkipped
  | Ipv6IpsetCleanupStatus rstr process_status rstr
  | Ipv6IpsetCleanupError rstr command_runner_error
  | AsnStaleFallback nat
  | AsnDuplicateCleanupFailed app_error
  | AsnCacheCleanupFailed nat app_error
  | ProviderNotice rstr

record notice =
  notice_level_of :: notice_level
  notice_message_of :: notice_message

definition notice_info :: "notice_message \<Rightarrow> notice" where
  "notice_info m = \<lparr>notice_level_of = Info, notice_message_of = m\<rparr>"

definition notice_warning :: "notice_message \<Rightarrow> notice" where
  "notice_warning m = \<lparr>notice_level_of = Warning, notice_message_of = m\<rparr>"

definition kernel_timeout_notice :: notice where
  "kernel_timeout_notice = notice_warning KernelTimeout"

section \<open>Sources\<close>

datatype source_role = Candidate | Safelist | ExternalSafelist

datatype failure_policy = RequiredSource | BestEffort

datatype source_failure_disposition = Fatal | Degraded

definition classify_source_failure :: "failure_policy \<Rightarrow> app_error \<Rightarrow> source_failure_disposition" where
  "classify_source_failure policy e =
     (if policy = RequiredSource
         \<or> (case e of Interrupted \<Rightarrow> True | SourceAggregateBudgetExceeded _ _ \<Rightarrow> True
            | CacheStaging _ _ \<Rightarrow> True | PreviewSourceBudget _ _ \<Rightarrow> True | _ \<Rightarrow> False)
      then Fatal else Degraded)"

record source_descriptor =
  desc_id :: rstr
  desc_role :: source_role
  desc_failure_policy :: failure_policy

record source_batch =
  batch_networks :: "canonical_cidr list"
  batch_notices :: "notice list"

datatype source_provenance = LocalSource | NetworkSource | CacheSource | FallbackCache | Unavailable | Disabled

definition provenance_is_degraded :: "source_provenance \<Rightarrow> bool" where
  "provenance_is_degraded p \<longleftrightarrow> (case p of FallbackCache \<Rightarrow> True | Unavailable \<Rightarrow> True | _ \<Rightarrow> False)"

definition provenance_is_loaded :: "source_provenance \<Rightarrow> bool" where
  "provenance_is_loaded p \<longleftrightarrow> \<not> (case p of Unavailable \<Rightarrow> True | Disabled \<Rightarrow> True | _ \<Rightarrow> False)"

record source_observation =
  obs_label :: rstr
  obs_provenance :: source_provenance

text \<open>A pending promotion is the deferred action itself.\<close>

type_synonym 's promotion = "('s, io_error, unit) dact"

record 's source_load =
  load_primary :: source_batch
  load_fallback :: "source_batch option"
  load_promotions :: "'s promotion list"
  load_fallback_failure :: "app_error option"
  load_observations :: "source_observation list"

definition source_load_ready :: "source_batch \<Rightarrow> 's source_load" where
  "source_load_ready primary = \<lparr>load_primary = primary, load_fallback = None, load_promotions = [],
     load_fallback_failure = None, load_observations = []\<rparr>"

record source_context =
  ctx_paths :: resolved_paths
  ctx_config :: config
  ctx_env :: "(rstr \<times> rstr) list"
  ctx_temporary_bans :: temporary_bans
  ctx_cutoff :: nat

record 's source_provider =
  prov_descriptor :: source_descriptor
  prov_load :: "source_context \<Rightarrow> ('s, app_error, 's source_load) dact"

record 's source_registry =
  reg_providers :: "'s source_provider list"
  reg_ids :: "rstr set"

definition registry_new :: "'s source_registry" where
  "registry_new = \<lparr>reg_providers = [], reg_ids = {}\<rparr>"

definition registry_register :: "'s source_registry \<Rightarrow> 's source_provider \<Rightarrow> app_error + 's source_registry" where
  "registry_register r p =
     (let i = desc_id (prov_descriptor p)
      in if i \<in> reg_ids r then Inl (DuplicateSourceProvider i)
         else Inr \<lparr>reg_providers = reg_providers r @ [p], reg_ids = insert i (reg_ids r)\<rparr>)"

definition registry_descriptors :: "'s source_registry \<Rightarrow> source_descriptor list" where
  "registry_descriptors r = map prov_descriptor (reg_providers r)"

section \<open>Ports\<close>

record 's app_ports =
  port_is_cancelled :: "'s \<Rightarrow> bool \<times> 's"
  port_resolve :: "path_resolution_input \<Rightarrow> config_requirement \<Rightarrow> ('s, app_error, resolved_paths) dact"
  port_load_config :: "rstr \<Rightarrow> ('s, app_error, config) dact"
  port_acquire :: "rstr \<Rightarrow> ('s, app_error, unit) dact"
  port_release :: "'s \<Rightarrow> 's"
  port_now :: "('s, app_error, nat) dact"
  port_load_bans :: "rstr \<Rightarrow> ('s, app_error, temporary_bans) dact"
  port_save_bans :: "rstr \<Rightarrow> temporary_bans \<Rightarrow> ('s, app_error, unit) dact"

definition cancellation_check :: "('s, 'z) app_ports_scheme \<Rightarrow> ('s, app_error, unit) dact" where
  "cancellation_check d s = (case port_is_cancelled d s of
     (c, s) \<Rightarrow> Some (if c then Inl Interrupted else Inr (), s))"

text \<open>The lock guard is released when it is dropped, at every exit of the code behind it.\<close>

definition with_lock :: "('s, 'z) app_ports_scheme \<Rightarrow> rstr \<Rightarrow> ('s, app_error, 'a) dact \<Rightarrow> ('s, app_error, 'a) dact" where
  "with_lock d path body = d_bind (port_acquire d path) (\<lambda>_. d_finally (port_release d) body)"

end
