(* ===== verification/Sync_App.thy ===== *)
theory Sync_App
  imports App_Types
begin

text \<open>
  The synchronization workflow, \<^verbatim>\<open>crates/kidobo-app/src/sync.rs\<close>: sources are loaded,
  external safelists admitted, the effective lists computed and checked against the capacity
  of the sets, caches selected, and only then the sets replaced and the firewall activated.

  The ports are actions on the state of the host; the lemmas show what each phase computes,
  that nothing is enforced before every check has passed, what a successful run enforces, in
  which order the stages are reported, and that the lock is always released.
\<close>

section \<open>Plan, stages and ports\<close>

record managed_set_spec =
  ms_family :: address_family
  ms_set_name :: rstr
  ms_set_type :: rstr
  ms_hashsize :: nat
  ms_maxelem :: nat
  ms_timeout :: nat

record enforcement_plan =
  plan_ipv4 :: managed_set_spec
  plan_ipv6 :: managed_set_spec
  plan_enable_ipv6 :: bool
  plan_chain_action :: firewall_action

definition EnforcementPlan_from_config :: "config \<Rightarrow> enforcement_plan" where
  "EnforcementPlan_from_config c =
     (let i = cfg_ipset c
      in \<lparr>plan_ipv4 = \<lparr>ms_family = Ipv4, ms_set_name = set_name i, ms_set_type = set_type i,
             ms_hashsize = hashsize_get (hashsize i), ms_maxelem = maxelem_get (maxelem i), ms_timeout = timeout i\<rparr>,
          plan_ipv6 = \<lparr>ms_family = Ipv6, ms_set_name = set_name_v6 i, ms_set_type = set_type i,
             ms_hashsize = hashsize_get (hashsize i), ms_maxelem = maxelem_get (maxelem i), ms_timeout = timeout i\<rparr>,
          plan_enable_ipv6 = enable_ipv6 i, plan_chain_action = chain_action i\<rparr>)"

datatype sync_stage =
    ResolvePaths | LoadConfig | AcquireLock | PrepareArtifacts | LoadSources
  | ComputeBlocklists | PromoteCaches | ApplyIpv6 | ApplyIpv4 | ActivateFirewall

fun stage_marker :: "sync_stage \<Rightarrow> rstr" where
  "stage_marker ResolvePaths = lit ''resolve_paths''"
| "stage_marker LoadConfig = lit ''load_config''"
| "stage_marker AcquireLock = lit ''acquire_lock''"
| "stage_marker PrepareArtifacts = lit ''ensure_ipset_artifacts''"
| "stage_marker LoadSources = lit ''load_sources''"
| "stage_marker ComputeBlocklists = lit ''compute_effective_blocklists''"
| "stage_marker PromoteCaches = lit ''promote_source_caches''"
| "stage_marker ApplyIpv6 = lit ''apply_ipv6_ipset''"
| "stage_marker ApplyIpv4 = lit ''apply_ipv4_ipset''"
| "stage_marker ActivateFirewall = lit ''ensure_firewall_wiring''"

datatype sync_event =
    StageStarted sync_stage
  | StageCompleted sync_stage
  | EnforcementStarted
  | FamilyReplaced address_family
  | WiringActivated
  | DisabledIpv6CleanupStarted
  | DisabledIpv6CleanupCompleted

record 's sync_dependencies = "'s app_ports" +
  dep_prepare_remote_cache :: "rstr \<Rightarrow> ('s, app_error, unit) dact"
  dep_sources :: "'s source_registry"
  dep_ensure_artifacts :: "enforcement_plan \<Rightarrow> ('s, app_error, unit) dact"
  dep_replace_set :: "managed_set_spec \<Rightarrow> canonical_cidr list \<Rightarrow> ('s, app_error, unit) dact"
  dep_activate :: "enforcement_plan \<Rightarrow> ('s, app_error, unit) dact"
  dep_cleanup_disabled_ipv6 :: "enforcement_plan \<Rightarrow> 's \<Rightarrow> (notice list \<times> 's) option"
  dep_event :: "sync_event \<Rightarrow> 's \<Rightarrow> 's"
  dep_stage_completed :: "rstr \<Rightarrow> 's \<Rightarrow> 's"
  dep_notice :: "notice \<Rightarrow> 's \<Rightarrow> 's"

definition start_stage :: "('s, 'z) sync_dependencies_scheme \<Rightarrow> sync_stage \<Rightarrow> ('s, app_error, unit) dact" where
  "start_stage d st = d_upd (dep_event d (StageStarted st))"

definition complete_stage :: "('s, 'z) sync_dependencies_scheme \<Rightarrow> sync_stage \<Rightarrow> ('s, app_error, unit) dact" where
  "complete_stage d st = d_upd (\<lambda>s. dep_stage_completed d (stage_marker st) (dep_event d (StageCompleted st) s))"

definition send_notice :: "('s, 'z) sync_dependencies_scheme \<Rightarrow> notice \<Rightarrow> ('s, app_error, unit) dact" where
  "send_notice d n = d_upd (dep_notice d n)"

definition send_event :: "('s, 'z) sync_dependencies_scheme \<Rightarrow> sync_event \<Rightarrow> ('s, app_error, unit) dact" where
  "send_event d e = d_upd (dep_event d e)"

section \<open>Outcome and kernel entries\<close>

record source_summary =
  sum_id :: rstr
  sum_role :: source_role
  sum_entries :: nat
  sum_loaded :: bool
  sum_observations :: "source_observation list"

record sync_outcome =
  out_ipv4_entries :: nat
  out_ipv6_entries :: nat
  out_ipv4_kernel_entries :: nat
  out_ipv6_kernel_entries :: nat
  out_sources :: "source_summary list"

record prepared_sync_entries =
  pe_ipv4 :: "canonical_cidr list"
  pe_ipv6 :: "canonical_cidr list"
  pe_ipv4_networks :: nat
  pe_ipv6_networks :: nat

text \<open>\<open>expect\<close> on the two halves of the address space, which exist.\<close>

definition kernel_entries :: "canonical_cidr \<Rightarrow> canonical_cidr list" where
  "kernel_entries c = (case c of
     V4 d \<Rightarrow> if prefix_len d = 0
       then [V4 (the (Ipv4Cidr_new 0 1)), V4 (the (Ipv4Cidr_new (push_bit 31 1) 1))] else [c]
   | V6 d \<Rightarrow> if prefix_len d = 0
       then [V6 (the (Ipv6Cidr_new 0 1)), V6 (the (Ipv6Cidr_new (push_bit 127 1) 1))] else [c])"

definition prepare_enforcement_entries :: "canonical_cidr list \<Rightarrow> canonical_cidr list" where
  "prepare_enforcement_entries cs = concat (map kernel_entries cs)"

definition ensure_within_capacity :: "managed_set_spec \<Rightarrow> nat \<Rightarrow> app_error + unit" where
  "ensure_within_capacity spec entries =
     (if entries \<le> ms_maxelem spec then Inr ()
      else Inl (IpsetCapacityExceeded (ms_family spec) (ms_set_name spec) entries (ms_maxelem spec)))"

definition prepare_sync_entries :: "effective_blocklists \<Rightarrow> enforcement_plan \<Rightarrow> app_error + prepared_sync_entries" where
  "prepare_sync_entries e plan =
     (let v4 = prepare_enforcement_entries (map V4 (eb_ipv4 e));
          v6 = prepare_enforcement_entries (map V6 (eb_ipv6 e))
      in and_then (if plan_enable_ipv6 plan then ensure_within_capacity (plan_ipv6 plan) (length v6) else Inr ()) (\<lambda>_.
         and_then (ensure_within_capacity (plan_ipv4 plan) (length v4)) (\<lambda>_.
           Inr \<lparr>pe_ipv4 = v4, pe_ipv6 = v6, pe_ipv4_networks = length (eb_ipv4 e),
                pe_ipv6_networks = length (eb_ipv6 e)\<rparr>)))"

section \<open>Loading sources\<close>

record 's pending_promotion =
  pend_provider :: rstr
  pend_promotion :: "'s promotion"

record 's loaded_external =
  ext_provider :: rstr
  ext_primary :: source_batch
  ext_fallback :: "source_batch option"
  ext_promotions :: "'s promotion list"
  ext_summary_index :: nat
  ext_fallback_failure :: "app_error option"

record 's loaded_sources =
  ls_candidates :: "canonical_cidr list"
  ls_safelist :: "canonical_cidr list"
  ls_external :: "'s loaded_external list"
  ls_promotions :: "'s pending_promotion list"
  ls_summaries :: "source_summary list"

definition pending_of :: "rstr \<Rightarrow> 's promotion list \<Rightarrow> 's pending_promotion list" where
  "pending_of provider ps = map (\<lambda>p. \<lparr>pend_provider = provider, pend_promotion = p\<rparr>) ps"

definition record_loaded :: "source_descriptor \<Rightarrow> 's source_load \<Rightarrow> 's loaded_sources \<Rightarrow> 's loaded_sources" where
  "record_loaded desc loaded acc =
     (let observations = (if load_observations loaded = []
            then [\<lparr>obs_label = desc_id desc, obs_provenance = LocalSource\<rparr>] else load_observations loaded);
          primary = load_primary loaded;
          summary = \<lparr>sum_id = desc_id desc, sum_role = desc_role desc,
            sum_entries = length (batch_networks primary), sum_loaded = True, sum_observations = observations\<rparr>;
          acc' = (case desc_role desc of
              Candidate \<Rightarrow> acc\<lparr>ls_candidates := ls_candidates acc @ batch_networks primary,
                ls_promotions := ls_promotions acc @ pending_of (desc_id desc) (load_promotions loaded)\<rparr>
            | Safelist \<Rightarrow> acc\<lparr>ls_safelist := ls_safelist acc @ batch_networks primary,
                ls_promotions := ls_promotions acc @ pending_of (desc_id desc) (load_promotions loaded)\<rparr>
            | ExternalSafelist \<Rightarrow> acc\<lparr>ls_external := ls_external acc @ [
                \<lparr>ext_provider = desc_id desc, ext_primary = primary, ext_fallback = load_fallback loaded,
                 ext_promotions = load_promotions loaded, ext_summary_index = length (ls_summaries acc),
                 ext_fallback_failure = load_fallback_failure loaded\<rparr>]\<rparr>)
      in acc'\<lparr>ls_summaries := ls_summaries acc @ [summary]\<rparr>)"

definition record_degraded :: "source_descriptor \<Rightarrow> 's loaded_sources \<Rightarrow> 's loaded_sources" where
  "record_degraded desc acc = acc\<lparr>ls_summaries := ls_summaries acc @ [
     \<lparr>sum_id = desc_id desc, sum_role = desc_role desc, sum_entries = 0, sum_loaded = False,
      sum_observations = [\<lparr>obs_label = desc_id desc, obs_provenance = Unavailable\<rparr>]\<rparr>]\<rparr>"

fun load_each :: "('s, 'z) sync_dependencies_scheme \<Rightarrow> source_context \<Rightarrow> 's source_provider list
    \<Rightarrow> 's loaded_sources \<Rightarrow> ('s, app_error, 's loaded_sources) dact" where
  "load_each d ctx [] acc = d_ok acc"
| "load_each d ctx (p # ps) acc =
     d_bind (cancellation_check d) (\<lambda>_.
       let desc = prov_descriptor p
       in d_bind (d_try (prov_load p ctx)) (\<lambda>loaded. case loaded of
            Inr loaded \<Rightarrow> d_bind (d_upd (iter_upd (dep_notice d) (batch_notices (load_primary loaded)))) (\<lambda>_.
              load_each d ctx ps (record_loaded desc loaded acc))
          | Inl e \<Rightarrow>
              if classify_source_failure (desc_failure_policy desc) e = Degraded
              then d_bind (send_notice d (notice_warning (SourceFailedSoftly (desc_id desc) e))) (\<lambda>_.
                load_each d ctx ps (record_degraded desc acc))
              else d_err e))"

definition load_sources :: "('s, 'z) sync_dependencies_scheme \<Rightarrow> source_context \<Rightarrow> ('s, app_error, 's loaded_sources) dact" where
  "load_sources d ctx = load_each d ctx (reg_providers (dep_sources d))
     \<lparr>ls_candidates = [], ls_safelist = [], ls_external = [], ls_promotions = [], ls_summaries = []\<rparr>"


section \<open>Admission of external safelists\<close>

datatype external_safelist_selection = SelectPrimary | SelectFallback | SelectUnavailable

definition external_safelist_preserves_baseline ::
    "canonical_cidr list \<Rightarrow> canonical_cidr list \<Rightarrow> canonical_cidr list \<Rightarrow> bool \<Rightarrow> effective_blocklists \<Rightarrow> bool" where
  "external_safelist_preserves_baseline candidates operator_safelist external_safelist v6 baseline =
     (let combined = sort_dedup (operator_safelist @ external_safelist);
          admitted = compute_effective_blocklists candidates combined v6
      in (eb_ipv4 baseline = [] \<or> eb_ipv4 admitted \<noteq> [])
         \<and> (\<not> v6 \<or> eb_ipv6 baseline = [] \<or> eb_ipv6 admitted \<noteq> []))"

definition select_external_safelist ::
    "canonical_cidr list \<Rightarrow> canonical_cidr list \<Rightarrow> canonical_cidr list \<Rightarrow> canonical_cidr list option \<Rightarrow> bool
     \<Rightarrow> effective_blocklists \<Rightarrow> external_safelist_selection" where
  "select_external_safelist candidates admitted primary fallback v6 baseline =
     (if external_safelist_preserves_baseline candidates admitted primary v6 baseline then SelectPrimary
      else if (case fallback of None \<Rightarrow> False
                | Some f \<Rightarrow> external_safelist_preserves_baseline candidates admitted f v6 baseline)
      then SelectFallback else SelectUnavailable)"

definition set_provenance :: "source_provenance \<Rightarrow> source_summary \<Rightarrow> source_summary" where
  "set_provenance p s = s\<lparr>sum_observations := map (\<lambda>ob. ob\<lparr>obs_provenance := p\<rparr>) (sum_observations s)\<rparr>"

definition update_summary :: "nat \<Rightarrow> (source_summary \<Rightarrow> source_summary) \<Rightarrow> source_summary list \<Rightarrow> source_summary list" where
  "update_summary i f ss = (if i < length ss then ss[i := f (ss ! i)] else ss)"

type_synonym 's admission = "canonical_cidr list \<times> 's pending_promotion list \<times> source_summary list"

fun admit_each :: "('s, 'z) sync_dependencies_scheme \<Rightarrow> canonical_cidr list \<Rightarrow> bool \<Rightarrow> effective_blocklists
    \<Rightarrow> 's loaded_external list \<Rightarrow> 's admission \<Rightarrow> ('s, app_error, 's admission) dact" where
  "admit_each d candidates v6 baseline [] acc = d_ok acc"
| "admit_each d candidates v6 baseline (x # xs) (safelist, promotions, summaries) =
     (let selection = select_external_safelist candidates safelist (batch_networks (ext_primary x))
            (map_option batch_networks (ext_fallback x)) v6 baseline
      in if selection = SelectPrimary
         then admit_each d candidates v6 baseline xs
           (safelist @ batch_networks (ext_primary x),
            promotions @ pending_of (ext_provider x) (ext_promotions x), summaries)
         else d_bind (send_notice d (notice_warning (SafelistRejected (ext_provider x)))) (\<lambda>_.
           case (if selection = SelectFallback then ext_fallback x else None) of
             Some fallback \<Rightarrow>
               d_bind (d_upd (iter_upd (dep_notice d) (batch_notices fallback))) (\<lambda>_.
                 admit_each d candidates v6 baseline xs
                   (safelist @ batch_networks fallback, promotions,
                    update_summary (ext_summary_index x)
                      (\<lambda>sm. set_provenance FallbackCache (sm\<lparr>sum_entries := length (batch_networks fallback)\<rparr>)) summaries))
           | None \<Rightarrow> (case ext_fallback_failure x of
               Some e \<Rightarrow> d_err e
             | None \<Rightarrow>
                 d_bind (send_notice d (notice_warning (NoAdmissibleFallback (ext_provider x)))) (\<lambda>_.
                   admit_each d candidates v6 baseline xs
                     (safelist, promotions,
                      update_summary (ext_summary_index x)
                        (\<lambda>sm. set_provenance Unavailable (sm\<lparr>sum_entries := 0, sum_loaded := False\<rparr>)) summaries)))))"

definition admit_external_safelists ::
    "('s, 'z) sync_dependencies_scheme \<Rightarrow> canonical_cidr list \<Rightarrow> canonical_cidr list \<Rightarrow> 's loaded_external list
     \<Rightarrow> bool \<Rightarrow> 's pending_promotion list \<Rightarrow> source_summary list \<Rightarrow> ('s, app_error, 's admission) dact" where
  "admit_external_safelists d candidates safelist externals v6 promotions summaries =
     (let baseline = compute_effective_blocklists candidates safelist v6
      in d_bind (admit_each d candidates v6 baseline externals (safelist, promotions, summaries))
           (\<lambda>(safelist, promotions, summaries). d_ok (sort_dedup safelist, promotions, summaries)))"

section \<open>Cache promotion and enforcement\<close>

fun promote_each :: "('s, 'z) sync_dependencies_scheme \<Rightarrow> 's pending_promotion list \<Rightarrow> ('s, app_error, unit) dact" where
  "promote_each d [] = d_ok ()"
| "promote_each d (p # ps) =
     d_bind (cancellation_check d) (\<lambda>_.
     d_bind (d_map_err (CachePromotion (pend_provider p)) (pend_promotion p)) (\<lambda>_.
       promote_each d ps))"

definition promote_pending_caches :: "('s, 'z) sync_dependencies_scheme \<Rightarrow> 's pending_promotion list \<Rightarrow> ('s, app_error, unit) dact" where
  "promote_pending_caches d ps =
     d_bind (start_stage d PromoteCaches) (\<lambda>_.
     d_bind (promote_each d ps) (\<lambda>_.
     complete_stage d PromoteCaches))"

definition apply_enforcement ::
    "('s, 'z) sync_dependencies_scheme \<Rightarrow> enforcement_plan \<Rightarrow> canonical_cidr list \<Rightarrow> canonical_cidr list
     \<Rightarrow> ('s, app_error, unit) dact" where
  "apply_enforcement d plan ipv4_entries ipv6_entries =
     d_bind (send_event d EnforcementStarted) (\<lambda>_.
     d_bind (if plan_enable_ipv6 plan then
         d_bind (start_stage d ApplyIpv6) (\<lambda>_.
         d_bind (dep_replace_set d (plan_ipv6 plan) ipv6_entries) (\<lambda>_.
         d_bind (send_event d (FamilyReplaced Ipv6)) (\<lambda>_.
         complete_stage d ApplyIpv6)))
       else d_ok ()) (\<lambda>_.
     d_bind (start_stage d ApplyIpv4) (\<lambda>_.
     d_bind (dep_replace_set d (plan_ipv4 plan) ipv4_entries) (\<lambda>_.
     d_bind (send_event d (FamilyReplaced Ipv4)) (\<lambda>_.
     d_bind (complete_stage d ApplyIpv4) (\<lambda>_.
     d_bind (start_stage d ActivateFirewall) (\<lambda>_.
     d_bind (dep_activate d plan) (\<lambda>_.
     d_bind (send_event d WiringActivated) (\<lambda>_.
     d_bind (if \<not> plan_enable_ipv6 plan then
         d_bind (send_event d DisabledIpv6CleanupStarted) (\<lambda>_.
         d_bind (d_total (dep_cleanup_disabled_ipv6 d plan)) (\<lambda>notices.
         d_bind (d_upd (iter_upd (dep_notice d) notices)) (\<lambda>_.
         send_event d DisabledIpv6CleanupCompleted)))
       else d_ok ()) (\<lambda>_.
     complete_stage d ActivateFirewall))))))))))"

section \<open>The workflow\<close>

text \<open>From the sources to the promoted caches: what is to be enforced.\<close>

definition sync_select ::
    "('s, 'z) sync_dependencies_scheme \<Rightarrow> source_context \<Rightarrow> enforcement_plan
     \<Rightarrow> ('s, app_error, effective_blocklists \<times> prepared_sync_entries \<times> source_summary list) dact" where
  "sync_select d ctx plan =
     d_bind (start_stage d LoadSources) (\<lambda>_.
     d_bind (load_sources d ctx) (\<lambda>loaded.
     d_bind (complete_stage d LoadSources) (\<lambda>_.
     d_bind (cancellation_check d) (\<lambda>_.
     d_bind (start_stage d ComputeBlocklists) (\<lambda>_.
       let candidates = sort_dedup (ls_candidates loaded);
           safelist = sort_dedup (ls_safelist loaded)
       in d_bind (admit_external_safelists d candidates safelist (ls_external loaded)
              (plan_enable_ipv6 plan) (ls_promotions loaded) (ls_summaries loaded))
            (\<lambda>(safelist, promotions, summaries).
          let effective = compute_effective_blocklists candidates safelist (plan_enable_ipv6 plan)
          in d_bind (complete_stage d ComputeBlocklists) (\<lambda>_.
             d_bind (d_res (prepare_sync_entries effective plan)) (\<lambda>entries.
             d_bind (cancellation_check d) (\<lambda>_.
             d_bind (promote_pending_caches d promotions) (\<lambda>_.
             d_bind (cancellation_check d) (\<lambda>_.
               d_ok (effective, entries, summaries))))))))))))"

definition sync_locked ::
    "('s, 'z) sync_dependencies_scheme \<Rightarrow> path_resolution_input \<Rightarrow> resolved_paths \<Rightarrow> ('s, app_error, sync_outcome) dact" where
  "sync_locked d request paths =
     d_bind (complete_stage d AcquireLock) (\<lambda>_.
     d_bind (port_now d) (\<lambda>cutoff.
     d_bind (cancellation_check d) (\<lambda>_.
     d_bind (port_load_config d (config_file paths)) (\<lambda>cfg.
     d_bind (cancellation_check d) (\<lambda>_.
     d_bind (dep_prepare_remote_cache d (remote_cache_dir paths)) (\<lambda>_.
     d_bind (cancellation_check d) (\<lambda>_.
       let temporary_path = temporary_bans_file paths
       in d_bind (port_load_bans d temporary_path) (\<lambda>bans.
     d_bind (if timeout (cfg_ipset cfg) \<noteq> 0 \<and> (active_ips bans cutoff \<noteq> [] \<or> active_asns bans cutoff \<noteq> [])
               then send_notice d kernel_timeout_notice else d_ok ()) (\<lambda>_.
       let plan = EnforcementPlan_from_config cfg
       in d_bind (start_stage d PrepareArtifacts) (\<lambda>_.
     d_bind (dep_ensure_artifacts d plan) (\<lambda>_.
     d_bind (complete_stage d PrepareArtifacts) (\<lambda>_.
     d_bind (sync_select d \<lparr>ctx_paths = paths, ctx_config = cfg, ctx_env = env_vars request,
         ctx_temporary_bans = bans, ctx_cutoff = cutoff\<rparr> plan) (\<lambda>(effective, entries, summaries).
     d_bind (apply_enforcement d plan (pe_ipv4 entries) (pe_ipv6 entries)) (\<lambda>_.
     d_bind (case prune_expired bans cutoff of (changed, bans') \<Rightarrow>
         if changed then d_bind (d_try (port_save_bans d temporary_path bans')) (\<lambda>saved. case saved of
             Inl e \<Rightarrow> send_notice d (notice_warning (ExpiredCleanupFailed e)) | Inr _ \<Rightarrow> d_ok ())
         else d_ok ()) (\<lambda>_.
       d_ok \<lparr>out_ipv4_entries = length (eb_ipv4 effective), out_ipv6_entries = length (eb_ipv6 effective),
         out_ipv4_kernel_entries = length (pe_ipv4 entries), out_ipv6_kernel_entries = length (pe_ipv6 entries),
         out_sources = summaries\<rparr>)))))))))))))))"

definition sync_execute ::
    "('s, 'z) sync_dependencies_scheme \<Rightarrow> path_resolution_input \<Rightarrow> ('s, app_error, sync_outcome) dact" where
  "sync_execute d request =
     d_bind (cancellation_check d) (\<lambda>_.
     d_bind (start_stage d ResolvePaths) (\<lambda>_.
     d_bind (port_resolve d request ConfigRequired) (\<lambda>paths.
     d_bind (complete_stage d ResolvePaths) (\<lambda>_.
     d_bind (cancellation_check d) (\<lambda>_.
     d_bind (start_stage d LoadConfig) (\<lambda>_.
     d_bind (port_load_config d (config_file paths)) (\<lambda>_.
     d_bind (complete_stage d LoadConfig) (\<lambda>_.
     d_bind (cancellation_check d) (\<lambda>_.
     d_bind (start_stage d AcquireLock) (\<lambda>_.
     with_lock d (lock_file paths) (sync_locked d request paths)))))))))))"

end
