(* ===== verification/Sync_Select.thy ===== *)
theory Sync_Select
  imports Sync_App
begin

text \<open>
  What a synchronization selects: the kernel entries of the effective lists and their
  capacity check, the record of the loaded sources, and the admission of external safelists.
\<close>

section \<open>Kernel entries\<close>

lemma addrs_of_simps [simp]:
  "addrs_of [] = {}" "addrs_of (c # cs) = canonical_addrs c \<union> addrs_of cs"
  "addrs_of (cs @ ds) = addrs_of cs \<union> addrs_of ds"
  by (auto simp: addrs_of_def)

lemma canonicals_ok_simps [simp]:
  "canonicals_ok []" "canonicals_ok (c # cs) \<longleftrightarrow> canonical_ok c \<and> canonicals_ok cs"
  "canonicals_ok (cs @ ds) \<longleftrightarrow> canonicals_ok cs \<and> canonicals_ok ds"
  by (auto simp: canonicals_ok_def)

lemma canonicals_ok_sorted [simp]: "canonicals_ok (sort_dedup cs) \<longleftrightarrow> canonicals_ok cs"
  by (simp add: canonicals_ok_def)

lemma addrs_of_sorted [simp]: "addrs_of (sort_dedup cs) = addrs_of cs"
  by (simp add: addrs_of_def)

fun canonical_prefix :: "canonical_cidr \<Rightarrow> nat" where
  "canonical_prefix (V4 c) = prefix_len c"
| "canonical_prefix (V6 c) = prefix_len c"

text \<open>The two halves of an address space make the whole.\<close>

lemma halves:
  assumes "prefix_len c = 0"
  shows "cidr_addrs c = cidr_addrs (from_parts (0 :: 'a::len word) 1)
    \<union> cidr_addrs (from_parts (push_bit (LENGTH('a) - 1) 1 :: 'a word) 1)"
proof -
  have "x \<in> cidr_addrs c" for x :: "'a word"
    using assms unsigned_less [of x] unsigned_less [of "network c"] by (simp add: cidr_addrs_iff)
  moreover have "x \<in> cidr_addrs (from_parts (0 :: 'a word) 1)
      \<or> x \<in> cidr_addrs (from_parts (push_bit (LENGTH('a) - 1) 1 :: 'a word) 1)" for x :: "'a word"
  proof -
    let ?h = "LENGTH('a) - 1"
    have len: "LENGTH('a) = Suc ?h" by simp
    have "(2 :: nat) * 2 ^ ?h = 2 ^ LENGTH('a)" by (metis len power_Suc)
    then have "unat x < 2 * 2 ^ ?h" using unsigned_less [of x] by simp
    then have "unat x div 2 ^ ?h < 2" by (simp add: less_mult_imp_div_less)
    then have "unat x div 2 ^ ?h = 0 \<or> unat x div 2 ^ ?h = 1" by linarith
    moreover have "unat (push_bit ?h 1 :: 'a word) = 2 ^ ?h" by (rule unat_shl_one) simp
    then have "drop_bit ?h (push_bit ?h 1 :: 'a word) = 1"
      by (simp only: word_eq_iff_unat unat_drop_bit_word) simp
    ultimately show ?thesis
      by (auto simp: from_parts_addrs word_eq_iff_unat unat_drop_bit_word)
  qed
  ultimately show ?thesis by blast
qed

lemma kernel_entries_exact:
  assumes "canonical_ok c"
  shows "addrs_of (kernel_entries c) = canonical_addrs c" "canonicals_ok (kernel_entries c)"
    "0 \<notin> canonical_prefix ` set (kernel_entries c)"
  using assms halves [where 'a = 32] halves [where 'a = 128] from_parts_ok [where 'a = 32] from_parts_ok [where 'a = 128]
  by (auto simp: kernel_entries_def Ipv4Cidr_new_def Ipv6Cidr_new_def Ipv4Cidr_from_parts_eq
      Ipv6Cidr_from_parts_eq image_Un split: canonical_cidr.splits)

lemma prepare_enforcement_entries_exact:
  assumes "canonicals_ok cs"
  shows "addrs_of (prepare_enforcement_entries cs) = addrs_of cs"
    "canonicals_ok (prepare_enforcement_entries cs)"
    "0 \<notin> canonical_prefix ` set (prepare_enforcement_entries cs)"
  using assms
  by (induction cs) (simp_all add: prepare_enforcement_entries_def kernel_entries_exact image_Un)

lemma addrs_of_families:
  "addrs_of (map V4 cs) = Addr4 ` cidrs_addrs cs" "addrs_of (map V6 ds) = Addr6 ` cidrs_addrs ds"
  by (auto simp: addrs_of_def cidrs_addrs_def)

lemma families_ok [simp]: "canonicals_ok (map V4 cs) \<longleftrightarrow> cidrs_ok cs" "canonicals_ok (map V6 ds) \<longleftrightarrow> cidrs_ok ds"
  by (auto simp: canonicals_ok_def cidrs_ok_def)

definition fits_kernel :: "canonical_cidr list \<Rightarrow> nat \<Rightarrow> bool" where
  "fits_kernel es capacity \<longleftrightarrow> canonicals_ok es \<and> 0 \<notin> canonical_prefix ` set es \<and> length es \<le> capacity"

lemma prepare_sync_entries_Inr:
  assumes "cidrs_ok (eb_ipv4 e)" "cidrs_ok (eb_ipv6 e)" "prepare_sync_entries e plan = Inr p"
  shows "addrs_of (pe_ipv4 p) = Addr4 ` cidrs_addrs (eb_ipv4 e)"
    "addrs_of (pe_ipv6 p) = Addr6 ` cidrs_addrs (eb_ipv6 e)"
    "fits_kernel (pe_ipv4 p) (ms_maxelem (plan_ipv4 plan))"
    "plan_enable_ipv6 plan \<Longrightarrow> fits_kernel (pe_ipv6 p) (ms_maxelem (plan_ipv6 plan))"
    "pe_ipv4_networks p = length (eb_ipv4 e) \<and> pe_ipv6_networks p = length (eb_ipv6 e)"
  using assms prepare_enforcement_entries_exact [of "map V4 (eb_ipv4 e)"]
    prepare_enforcement_entries_exact [of "map V6 (eb_ipv6 e)"]
  by (auto simp: prepare_sync_entries_def Let_def and_then_Inr_iff ensure_within_capacity_def
      addrs_of_families fits_kernel_def split: if_splits)
section \<open>Loading\<close>

text \<open>
  \<open>loads\<close> gives the load of a provider. The summaries are in the order of the providers;
  the networks of a role are those of its providers that loaded, in that order.
\<close>

definition batch_of :: "('s source_provider \<Rightarrow> 's source_load) \<Rightarrow> 's source_provider \<Rightarrow> canonical_cidr list" where
  "batch_of loads p = batch_networks (load_primary (loads p))"

definition loaded_batches ::
    "source_role \<Rightarrow> ('s source_provider \<Rightarrow> 's source_load) \<Rightarrow> 's source_provider list \<Rightarrow> source_summary list
     \<Rightarrow> canonical_cidr list" where
  "loaded_batches role loads ps sms = concat (map (\<lambda>(p, sm). batch_of loads p)
     (filter (\<lambda>(p, sm). desc_role (prov_descriptor p) = role \<and> sum_loaded sm) (zip ps sms)))"

definition summary_of :: "'s source_provider \<Rightarrow> source_summary \<Rightarrow> bool" where
  "summary_of p sm \<longleftrightarrow> sum_id sm = desc_id (prov_descriptor p) \<and> sum_role sm = desc_role (prov_descriptor p)"

text \<open>The externals point at their summaries, and carry the batches of their providers.\<close>

definition external_ok :: "('s source_provider \<Rightarrow> 's source_load) \<Rightarrow> 's source_provider list \<Rightarrow> source_summary list
    \<Rightarrow> 's loaded_external \<Rightarrow> bool" where
  "external_ok loads ps sms x \<longleftrightarrow> ext_summary_index x < length sms
     \<and> sum_role (sms ! ext_summary_index x) = ExternalSafelist
     \<and> (\<exists>p \<in> set ps. desc_role (prov_descriptor p) = ExternalSafelist
          \<and> ext_primary x = load_primary (loads p) \<and> ext_fallback x = load_fallback (loads p)
          \<and> ext_promotions x = load_promotions (loads p))"

definition loaded_ok :: "('s source_provider \<Rightarrow> 's source_load) \<Rightarrow> 's source_provider list \<Rightarrow> 's loaded_sources \<Rightarrow> bool" where
  "loaded_ok loads ps ls \<longleftrightarrow> list_all2 summary_of ps (ls_summaries ls)
     \<and> ls_candidates ls = loaded_batches Candidate loads ps (ls_summaries ls)
     \<and> ls_safelist ls = loaded_batches Safelist loads ps (ls_summaries ls)
     \<and> list_all (external_ok loads ps (ls_summaries ls)) (ls_external ls)
     \<and> pend_promotion ` set (ls_promotions ls) \<subseteq> (\<Union>p \<in> set ps. set (load_promotions (loads p)))"

lemma loaded_batches_simps [simp]:
  "loaded_batches role loads [] [] = []"
  "length ps = length sms \<Longrightarrow> loaded_batches role loads (ps @ [p]) (sms @ [sm])
    = loaded_batches role loads ps sms
      @ (if desc_role (prov_descriptor p) = role \<and> sum_loaded sm then batch_of loads p else [])"
  by (simp_all add: loaded_batches_def)

lemma external_ok_later:
  "external_ok loads ps sms x \<Longrightarrow> external_ok loads (ps @ [p]) (sms @ [sm]) x"
  by (auto simp: external_ok_def nth_append)

lemma record_loaded_ok:
  assumes "loaded_ok loads ps acc"
  shows "loaded_ok loads (ps @ [p]) (record_loaded (prov_descriptor p) (loads p) acc)"
proof -
  have len: "length ps = length (ls_summaries acc)"
    using assms by (auto simp: loaded_ok_def dest: list_all2_lengthD)
  have later: "list_all (external_ok loads (ps @ [p]) (ls_summaries acc @ [sm])) (ls_external acc)" for sm
    using assms unfolding loaded_ok_def list_all_iff by (meson external_ok_later)
  show ?thesis
    using assms len later unfolding loaded_ok_def
    by (cases "desc_role (prov_descriptor p)")
      (auto simp: record_loaded_def pending_of_def Let_def summary_of_def batch_of_def list_all2_appendI external_ok_def
        nth_append)
qed

lemma record_degraded_ok:
  assumes "loaded_ok loads ps acc"
  shows "loaded_ok loads (ps @ [p]) (record_degraded (prov_descriptor p) acc)"
proof -
  have len: "length ps = length (ls_summaries acc)"
    using assms by (auto simp: loaded_ok_def dest: list_all2_lengthD)
  have later: "list_all (external_ok loads (ps @ [p]) (ls_summaries acc @ [sm])) (ls_external acc)" for sm
    using assms unfolding loaded_ok_def list_all_iff by (meson external_ok_later)
  show ?thesis
    using assms len later unfolding loaded_ok_def
    by (auto simp: record_degraded_def Let_def summary_of_def list_all2_appendI nth_append)
qed
text \<open>
  What the workflow relies on from its ports, for a part \<open>v\<close> of the state (the kernel, the
  log of the observer): asking for cancellation, notices and the sources do not change it,
  every source answers, and \<open>loads\<close> is what a source loads in a context.
\<close>

definition sources_law ::
    "('s, 'z) sync_dependencies_scheme \<Rightarrow> ('s \<Rightarrow> 'v) \<Rightarrow> ('s source_provider \<Rightarrow> source_context \<Rightarrow> 's source_load) \<Rightarrow> bool" where
  "sources_law d v loads \<longleftrightarrow>
     (\<forall>s. v (snd (port_is_cancelled d s)) = v s) \<and> (\<forall>n s. v (dep_notice d n s) = v s)
   \<and> (\<forall>p \<in> set (reg_providers (dep_sources d)). \<forall>ctx.
        yields v (prov_load p ctx) (\<lambda>l. l = loads p ctx)
      \<and> (\<forall>q \<in> set (load_promotions (loads p ctx)). steps (keeps v) q))"

locale quiet_sources =
  fixes d :: "('s, 'z) sync_dependencies_scheme"
    and v :: "'s \<Rightarrow> 'v"
    and loads :: "'s source_provider \<Rightarrow> source_context \<Rightarrow> 's source_load"
  assumes sources: "sources_law d v loads"
begin

lemma cancellation_quiet: "steps (keeps v) (cancellation_check d)"
  using sources by (auto simp: sources_law_def steps_def cancellation_check_def keeps_def split: prod.splits)
    (metis snd_conv)

lemma send_notice_quiet: "steps (keeps v) (send_notice d n)"
  unfolding send_notice_def
  by (rule keeping.steps_upd) (use sources in \<open>simp add: sources_law_def keeps_def\<close>)

lemma notices_quiet: "steps (keeps v) (d_upd (iter_upd (dep_notice d) ns))"
  by (rule keeping.steps_iter) (use sources in \<open>simp add: sources_law_def keeps_def\<close>)

lemmas checks_yield = yields_keeps [OF cancellation_quiet] yields_keeps [OF send_notice_quiet]
  yields_keeps [OF notices_quiet]

lemma load_each_yields:
  assumes "set ps' \<subseteq> set (reg_providers (dep_sources d))" "loaded_ok (\<lambda>p. loads p ctx) ps acc"
  shows "yields v (load_each d ctx ps' acc) (loaded_ok (\<lambda>p. loads p ctx) (ps @ ps'))"
  using assms
proof (induction ps' arbitrary: ps acc)
  case Nil
  then show ?case by (simp add: yields_ok)
next
  case (Cons p ps')
  let ?next = "\<lambda>loaded. case loaded of
      Inr loaded \<Rightarrow> d_bind (d_upd (iter_upd (dep_notice d) (batch_notices (load_primary loaded)))) (\<lambda>_.
        load_each d ctx ps' (record_loaded (prov_descriptor p) loaded acc))
    | Inl e \<Rightarrow>
        if classify_source_failure (desc_failure_policy (prov_descriptor p)) e = Degraded
        then d_bind (send_notice d (notice_warning (SourceFailedSoftly (desc_id (prov_descriptor p)) e))) (\<lambda>_.
          load_each d ctx ps' (record_degraded (prov_descriptor p) acc))
        else d_err e"
  note IH = Cons.IH [of "ps @ [p]", simplified append_assoc append_Cons append_Nil]
  have load: "yields v (d_try (prov_load p ctx)) (\<lambda>r. \<forall>l. r = Inr l \<longrightarrow> l = loads p ctx)"
    using Cons.prems(1) sources by (intro yields_try) (simp add: sources_law_def)
  have "yields v (?next r) (loaded_ok (\<lambda>p. loads p ctx) (ps @ p # ps'))"
    if "\<forall>l. r = Inr l \<longrightarrow> l = loads p ctx" for r
  proof (cases r)
    case (Inl e)
    have "loaded_ok (\<lambda>p. loads p ctx) (ps @ [p]) (record_degraded (prov_descriptor p) acc)"
      by (rule record_degraded_ok [OF Cons.prems(2)])
    with Inl IH Cons.prems(1) show ?thesis
      by (auto intro!: yields_bind [OF checks_yield(2)] yields_err)
  next
    case (Inr l)
    have "loaded_ok (\<lambda>p. loads p ctx) (ps @ [p]) (record_loaded (prov_descriptor p) (loads p ctx) acc)"
      by (rule record_loaded_ok [OF Cons.prems(2)])
    with Inr that IH Cons.prems(1) show ?thesis
      by (auto intro!: yields_bind [OF checks_yield(3)])
  qed
  then show ?case
    unfolding load_each.simps Let_def
    by (intro yields_bind [OF checks_yield(1)] yields_bind [OF load])
qed

lemma load_sources_yields:
  "yields v (load_sources d ctx) (loaded_ok (\<lambda>p. loads p ctx) (reg_providers (dep_sources d)))"
  unfolding load_sources_def
  using load_each_yields [of "reg_providers (dep_sources d)" ctx "[]"] by (simp add: loaded_ok_def)

end
section \<open>Admission\<close>

lemma compute_cong:
  assumes "canonicals_ok cs" "canonicals_ok ss" "canonicals_ok ts" "addrs_of ss = addrs_of ts"
  shows "compute_effective_blocklists cs ss v6 = compute_effective_blocklists cs ts v6"
proof -
  let ?a = "compute_effective_blocklists cs ss v6" and ?b = "compute_effective_blocklists cs ts v6"
  note A = effective_collapsed [OF assms(1,2), of v6] and B = effective_collapsed [OF assms(1,3), of v6]
  have e: "effective_addrs ?a = effective_addrs ?b" using A(3) B(3) assms(4) by simp
  have "cidrs_addrs (eb_ipv4 e) = {a. Addr4 a \<in> effective_addrs e}"
    "cidrs_addrs (eb_ipv6 e) = {a. Addr6 a \<in> effective_addrs e}" for e
    by (auto simp: in_effective_addrs)
  then have "cidrs_addrs (eb_ipv4 ?a) = cidrs_addrs (eb_ipv4 ?b)" "cidrs_addrs (eb_ipv6 ?a) = cidrs_addrs (eb_ipv6 ?b)"
    using e by simp_all
  then show ?thesis
    using collapsed_unique [OF A(1) B(1)] collapsed_unique [OF A(2) B(2)] by simp
qed

lemma compute_ipv6_disabled [simp]: "eb_ipv6 (compute_effective_blocklists cs ss False) = []"
  by (simp add: compute_effective_blocklists_def Let_def)

text \<open>No family that the operator's own lists arm is disarmed.\<close>

definition still_armed :: "effective_blocklists \<Rightarrow> effective_blocklists \<Rightarrow> bool" where
  "still_armed baseline e \<longleftrightarrow> (eb_ipv4 baseline \<noteq> [] \<longrightarrow> eb_ipv4 e \<noteq> []) \<and> (eb_ipv6 baseline \<noteq> [] \<longrightarrow> eb_ipv6 e \<noteq> [])"

lemma preserves_baseline_iff:
  assumes "canonicals_ok cs" "canonicals_ok ss" "canonicals_ok xs"
    "baseline = compute_effective_blocklists cs ss0 v6"
  shows "external_safelist_preserves_baseline cs ss xs v6 baseline
    \<longleftrightarrow> still_armed baseline (compute_effective_blocklists cs (ss @ xs) v6)"
  using compute_cong [of cs "sort_dedup (ss @ xs)" "ss @ xs" v6] assms
  by (cases v6) (auto simp: external_safelist_preserves_baseline_def still_armed_def Let_def)

definition same_summary :: "source_summary \<Rightarrow> source_summary \<Rightarrow> bool" where
  "same_summary sm sm' \<longleftrightarrow> sum_id sm' = sum_id sm \<and> sum_role sm' = sum_role sm
     \<and> (sum_role sm \<noteq> ExternalSafelist \<longrightarrow> sm' = sm)"

lemma same_summaries_refl: "list_all2 same_summary sms sms"
  by (rule list.rel_refl) (simp add: same_summary_def)

lemma same_summaries_trans:
  "list_all2 same_summary a b \<Longrightarrow> list_all2 same_summary b c \<Longrightarrow> list_all2 same_summary a c"
  by (rule list_all2_trans [where ?P1.0 = same_summary and ?P2.0 = same_summary])
    (auto simp: same_summary_def)

lemma update_summary_same:
  assumes "i < length sms \<Longrightarrow> sum_role (sms ! i) = ExternalSafelist"
    "\<And>sm. sum_id (f sm) = sum_id sm \<and> sum_role (f sm) = sum_role sm"
  shows "list_all2 same_summary sms (update_summary i f sms)"
  using assms same_summaries_refl
  by (auto simp: update_summary_def list_all2_conv_all_nth same_summary_def nth_list_update)

lemma set_provenance_same [simp]: "sum_id (set_provenance p sm) = sum_id sm" "sum_role (set_provenance p sm) = sum_role sm"
  by (simp_all add: set_provenance_def)

definition fallback_networks :: "source_batch option \<Rightarrow> canonical_cidr list" where
  "fallback_networks f = (case f of None \<Rightarrow> [] | Some b \<Rightarrow> batch_networks b)"

definition external_networks :: "'s loaded_external list \<Rightarrow> canonical_cidr set" where
  "external_networks xs = (\<Union>x \<in> set xs. set (batch_networks (ext_primary x)) \<union> set (fallback_networks (ext_fallback x)))"

definition externals_valid :: "source_summary list \<Rightarrow> 's loaded_external list \<Rightarrow> bool" where
  "externals_valid sms xs \<longleftrightarrow> (\<forall>x \<in> set xs. canonicals_ok (batch_networks (ext_primary x))
     \<and> canonicals_ok (fallback_networks (ext_fallback x))
     \<and> (ext_summary_index x < length sms \<longrightarrow> sum_role (sms ! ext_summary_index x) = ExternalSafelist))"

text \<open>How the three accumulators of the admission change.\<close>

definition admits ::
    "canonical_cidr list \<Rightarrow> bool \<Rightarrow> effective_blocklists \<Rightarrow> 's loaded_external list \<Rightarrow> 's admission \<Rightarrow> 's admission \<Rightarrow> bool" where
  "admits cs v6 baseline xs = (\<lambda>(ss, ps, sms) (ss', ps', sms').
     canonicals_ok ss' \<and> set ss \<subseteq> set ss' \<and> set ss' \<subseteq> set ss \<union> external_networks xs
   \<and> still_armed baseline (compute_effective_blocklists cs ss' v6)
   \<and> pend_promotion ` set ps' \<subseteq> pend_promotion ` set ps \<union> (\<Union>x \<in> set xs. set (ext_promotions x))
   \<and> list_all2 same_summary sms sms')"

lemma admits_step:
  assumes "admits cs v6 baseline [x] a b" "admits cs v6 baseline xs b c"
  shows "admits cs v6 baseline (x # xs) a c"
proof -
  obtain ss ps sms ss' ps' sms' ss'' ps'' sms'' where "a = (ss, ps, sms)" "b = (ss', ps', sms')" "c = (ss'', ps'', sms'')"
    by (metis prod_cases3)
  with assms show ?thesis
    unfolding admits_def external_networks_def prod.case list.set UN_insert UN_empty Un_empty_right
    by (blast intro: same_summaries_trans)
qed

lemma admits_skip:
  assumes "canonicals_ok ss" "still_armed baseline (compute_effective_blocklists cs ss v6)"
    "list_all2 same_summary sms sms'"
  shows "admits cs v6 baseline xs (ss, ps, sms) (ss, ps, sms')"
  using assms by (simp add: admits_def)

lemma admits_add:
  assumes "canonicals_ok (ss @ ns)" "still_armed baseline (compute_effective_blocklists cs (ss @ ns) v6)"
    "list_all2 same_summary sms sms'" "set ns \<subseteq> external_networks [x]"
    "pend_promotion ` set qs \<subseteq> set (ext_promotions x)"
  shows "admits cs v6 baseline [x] (ss, ps, sms) (ss @ ns, ps @ qs, sms')"
  using assms by (auto simp: admits_def)

lemma externals_valid_later:
  assumes "externals_valid sms (x # xs)" "list_all2 same_summary sms sms'"
  shows "externals_valid sms' xs"
  using assms by (auto simp: externals_valid_def same_summary_def list_all2_conv_all_nth)

lemma same_role: "list_all2 same_summary sms sms' \<Longrightarrow> i < length sms \<Longrightarrow> sum_role (sms' ! i) = sum_role (sms ! i)"
  by (auto simp: same_summary_def list_all2_conv_all_nth)

lemma admit_each_yields:
  assumes quiet: "\<And>n s. v (dep_notice d n s) = v s"
    and base: "canonicals_ok cs" "baseline = compute_effective_blocklists cs ss0 v6"
    and "canonicals_ok ss" "externals_valid sms xs" "still_armed baseline (compute_effective_blocklists cs ss v6)"
  shows "yields v (admit_each d cs v6 baseline xs (ss, ps, sms)) (admits cs v6 baseline xs (ss, ps, sms))"
  using assms(4-6)
proof (induction xs arbitrary: ss ps sms)
  case Nil
  then show ?case by (auto intro: yields_ok admits_skip same_summaries_refl)
next
  case (Cons x xs)
  note prems = Cons.prems
  have rec: "yields v (admit_each d cs v6 baseline xs (ss', ps', sms')) (admits cs v6 baseline (x # xs) (ss, ps, sms))"
    if "admits cs v6 baseline [x] (ss, ps, sms) (ss', ps', sms')" for ss' ps' sms'
  proof -
    have "externals_valid sms' xs" "canonicals_ok ss'" "still_armed baseline (compute_effective_blocklists cs ss' v6)"
      using that externals_valid_later [OF prems(2)] by (auto simp: admits_def)
    from Cons.IH [OF this(2,1,3)] show ?thesis
      by (rule yields_mono) (rule admits_step [OF that])
  qed
  have notices: "yields v (send_notice d n) (\<lambda>_. True)" "yields v (d_upd (iter_upd (dep_notice d) ns)) (\<lambda>_. True)" for n ns
    using quiet unfolding send_notice_def
    by (auto intro!: yields_keeps keeping.steps_upd keeping.steps_iter simp: keeps_def)
  let ?p = "batch_networks (ext_primary x)"
  let ?sel = "select_external_safelist cs ss ?p (map_option batch_networks (ext_fallback x)) v6 baseline"
  have ok: "canonicals_ok ?p" "canonicals_ok (fallback_networks (ext_fallback x))" using prems(2) by (simp_all add: externals_valid_def)
  have idx: "ext_summary_index x < length sms \<Longrightarrow> sum_role (sms ! ext_summary_index x) = ExternalSafelist"
    using prems(2) by (simp add: externals_valid_def)
  have primary: "admits cs v6 baseline [x] (ss, ps, sms) (ss @ ?p, ps @ pending_of (ext_provider x) (ext_promotions x), sms)"
    if "?sel = SelectPrimary"
    using that preserves_baseline_iff [OF base(1) prems(1) ok(1) base(2)] prems(1) ok(1)
    by (intro admits_add)
      (auto simp: select_external_safelist_def external_networks_def pending_of_def same_summaries_refl split: if_splits)
  have fallback: "admits cs v6 baseline [x] (ss, ps, sms) (ss @ batch_networks f, ps, update_summary (ext_summary_index x) g sms)"
    if "?sel = SelectFallback" "ext_fallback x = Some f" "\<And>sm. sum_id (g sm) = sum_id sm \<and> sum_role (g sm) = sum_role sm" for f g
    using that preserves_baseline_iff [OF base(1) prems(1) _ base(2), of "batch_networks f"] prems(1) ok(2)
      admits_add [of ss "batch_networks f" baseline cs v6 sms _ x "[]" ps] update_summary_same [OF idx, of g]
    by (simp add: select_external_safelist_def external_networks_def fallback_networks_def split: if_splits)
  have none: "admits cs v6 baseline [x] (ss, ps, sms) (ss, ps, update_summary (ext_summary_index x) g sms)"
    if "\<And>sm. sum_id (g sm) = sum_id sm \<and> sum_role (g sm) = sum_role sm" for g
    using prems(1,3) update_summary_same [OF idx that] by (rule admits_skip)
  show ?case
    using primary fallback none
    by (auto simp: Let_def intro!: rec yields_bind [OF notices(1)] yields_bind [OF notices(2)] yields_err
        split: option.split)
qed

lemma admit_each_error:
  "admit_each d cs v6 base xs acc s = Some (Inl e, s') \<Longrightarrow> \<exists>x \<in> set xs. ext_fallback_failure x = Some e"
proof (induction xs arbitrary: acc s)
  case Nil
  then show ?case by (simp add: d_ok_def)
next
  case (Cons x xs)
  obtain ss ps sms where acc: "acc = (ss, ps, sms)" by (metis prod_cases3)
  have "ext_fallback_failure x = Some e \<or> (\<exists>acc s. admit_each d cs v6 base xs acc s = Some (Inl e, s'))"
    using Cons.prems unfolding acc admit_each.simps Let_def send_notice_def d_bind_def d_upd_def d_err_def
    by (auto split: if_splits option.splits)
  then show ?case using Cons.IH by auto
qed

lemma admit_external_error:
  "admit_external_safelists d cs ss xs v6 ps sms s = Some (Inl e, s') \<Longrightarrow> \<exists>x \<in> set xs. ext_fallback_failure x = Some e"
  by (auto simp: admit_external_safelists_def Let_def d_bind_def d_ok_def dest: admit_each_error
      split: option.splits sum.splits prod.splits)
section \<open>The selection\<close>

text \<open>The other ports: they answer and do not change \<open>v\<close>; events are not among them, since a
  log does record them.\<close>

definition ports_law :: "('s, 'z) sync_dependencies_scheme \<Rightarrow> ('s \<Rightarrow> 'v) \<Rightarrow> bool" where
  "ports_law d v \<longleftrightarrow>
     (\<forall>m s. v (dep_stage_completed d m s) = v s)
   \<and> (\<forall>r q. steps (keeps v) (port_resolve d r q)) \<and> (\<forall>f. steps (keeps v) (port_load_config d f))
   \<and> (\<forall>f. steps (keeps v) (port_acquire d f)) \<and> (\<forall>s. v (port_release d s) = v s)
   \<and> steps (keeps v) (port_now d) \<and> (\<forall>f. steps (keeps v) (port_load_bans d f))
   \<and> (\<forall>f b. steps (keeps v) (port_save_bans d f b)) \<and> (\<forall>f. steps (keeps v) (dep_prepare_remote_cache d f))"

locale quiet_ports = quiet_sources +
  assumes ports: "ports_law d v"

text \<open>What a provider loads is canonical.\<close>

definition loads_ok :: "('s source_provider \<Rightarrow> 's source_load) \<Rightarrow> 's source_provider list \<Rightarrow> bool" where
  "loads_ok loads ps \<longleftrightarrow> (\<forall>p \<in> set ps. canonicals_ok (batch_of loads p)
     \<and> canonicals_ok (fallback_networks (load_fallback (loads p))))"

definition external_batches :: "('s source_provider \<Rightarrow> 's source_load) \<Rightarrow> 's source_provider list \<Rightarrow> canonical_cidr list" where
  "external_batches loads ps = concat (map (\<lambda>p. batch_of loads p @ fallback_networks (load_fallback (loads p)))
     (filter (\<lambda>p. desc_role (prov_descriptor p) = ExternalSafelist) ps))"

lemma loaded_batches_ok: "loads_ok loads ps \<Longrightarrow> canonicals_ok (loaded_batches role loads ps sms)"
  by (auto simp: loads_ok_def loaded_batches_def canonicals_ok_def dest: set_zip_leftD)

lemma loaded_batches_same:
  assumes "list_all2 summary_of ps sms" "list_all2 same_summary sms sms'" "role \<noteq> ExternalSafelist"
  shows "loaded_batches role loads ps sms' = loaded_batches role loads ps sms" "list_all2 summary_of ps sms'"
proof -
  have "list_all2 summary_of ps sms' \<and> loaded_batches role loads ps sms' = loaded_batches role loads ps sms"
    using assms(1,2)
  proof (induction ps arbitrary: sms sms')
    case (Cons p ps)
    then obtain a as b bs where *: "sms = a # as" "sms' = b # bs" "summary_of p a" "same_summary a b"
      "list_all2 summary_of ps as" "list_all2 same_summary as bs"
      by (auto simp: list_all2_Cons1)
    from *(3,4) have "summary_of p b" "desc_role (prov_descriptor p) = role \<Longrightarrow> b = a"
      using assms(3) by (auto simp: summary_of_def same_summary_def)
    with * Cons.IH [OF *(5,6)] show ?case by (auto simp: loaded_batches_def)
  qed (simp add: loaded_batches_def)
  then show "loaded_batches role loads ps sms' = loaded_batches role loads ps sms" "list_all2 summary_of ps sms'"
    by simp_all
qed

lemma loaded_externals:
  assumes "loaded_ok loads ps ls" "loads_ok loads ps"
  shows "externals_valid (ls_summaries ls) (ls_external ls)"
    "external_networks (ls_external ls) \<subseteq> set (external_batches loads ps)"
proof -
  have x: "external_ok loads ps (ls_summaries ls) x" if "x \<in> set (ls_external ls)" for x
    using assms(1) that by (simp add: loaded_ok_def list_all_iff)
  show "externals_valid (ls_summaries ls) (ls_external ls)"
    using x assms(2) by (fastforce simp: externals_valid_def external_ok_def loads_ok_def batch_of_def)
  show "external_networks (ls_external ls) \<subseteq> set (external_batches loads ps)"
    using x by (fastforce simp: external_networks_def external_ok_def external_batches_def batch_of_def)
qed

text \<open>What is selected for enforcement: the admitted safelist has the operator's networks and
  only networks of sources, the effective lists are the candidates without it, no family is
  disarmed by an external source, and the entries passed the capacity check.\<close>

definition selected ::
    "('s source_provider \<Rightarrow> 's source_load) \<Rightarrow> 's source_provider list \<Rightarrow> enforcement_plan
     \<Rightarrow> effective_blocklists \<times> prepared_sync_entries \<times> source_summary list \<Rightarrow> bool" where
  "selected loads ps plan = (\<lambda>(e, p, sms).
     list_all2 summary_of ps sms
   \<and> (\<exists>safelist. canonicals_ok safelist
        \<and> set (loaded_batches Safelist loads ps sms) \<subseteq> set safelist
        \<and> set safelist \<subseteq> set (loaded_batches Safelist loads ps sms @ external_batches loads ps)
        \<and> e = compute_effective_blocklists (sort_dedup (loaded_batches Candidate loads ps sms)) safelist (plan_enable_ipv6 plan)
        \<and> still_armed (compute_effective_blocklists (sort_dedup (loaded_batches Candidate loads ps sms))
             (sort_dedup (loaded_batches Safelist loads ps sms)) (plan_enable_ipv6 plan)) e)
   \<and> prepare_sync_entries e plan = Inr p)"

lemma admit_external_yields:
  assumes "\<And>n s. v (dep_notice d n s) = v s" "canonicals_ok cs" "canonicals_ok ss" "externals_valid sms xs"
  shows "yields v (admit_external_safelists d cs ss xs v6 ps sms)
    (admits cs v6 (compute_effective_blocklists cs ss v6) xs (ss, ps, sms))"
proof -
  let ?base = "compute_effective_blocklists cs ss v6"
  have sorted: "admits cs v6 ?base xs (ss, ps, sms) (sort_dedup ss', ps', sms')"
    if "admits cs v6 ?base xs (ss, ps, sms) (ss', ps', sms')" for ss' ps' sms'
    using that compute_cong [OF assms(2), of "sort_dedup ss'" ss' v6] by (simp add: admits_def)
  have "yields v (admit_each d cs v6 ?base xs (ss, ps, sms)) (admits cs v6 ?base xs (ss, ps, sms))"
    by (rule admit_each_yields [OF assms(1,2) refl assms(3,4)]) (simp add: still_armed_def)
  then show ?thesis
    unfolding admit_external_safelists_def Let_def
    by (rule yields_bind) (auto split: prod.split intro!: yields_ok sorted)
qed

context quiet_ports
begin

lemma complete_stage_quiet:
  assumes "\<And>e s. v (dep_event d e s) = v s"
  shows "steps (keeps v) (start_stage d st)" "steps (keeps v) (complete_stage d st)" "steps (keeps v) (send_event d e)"
  unfolding start_stage_def complete_stage_def send_event_def
  by (rule keeping.steps_upd; use ports assms in \<open>simp add: ports_law_def keeps_def\<close>)+

lemma promote_each_quiet:
  assumes "\<And>q. q \<in> pend_promotion ` set ps \<Longrightarrow> steps (keeps v) q"
  shows "steps (keeps v) (promote_each d ps)"
  using assms
  by (induction ps) (auto intro!: keeping.steps_intros cancellation_quiet)

lemma sync_select_yields:
  assumes events: "\<And>e s. v (dep_event d e s) = v s"
    and loads: "loads_ok (\<lambda>p. loads p ctx) (reg_providers (dep_sources d))"
  shows "yields v (sync_select d ctx plan) (selected (\<lambda>p. loads p ctx) (reg_providers (dep_sources d)) plan)"
proof -
  let ?loads = "\<lambda>p. loads p ctx" and ?ps = "reg_providers (dep_sources d)" and ?v6 = "plan_enable_ipv6 plan"
  note stages = yields_keeps [OF complete_stage_quiet(1) [OF events]] yields_keeps [OF complete_stage_quiet(2) [OF events]]
  have quiet: "v (dep_notice d n s) = v s" for n s using sources by (simp add: sources_law_def)
  have promoted: "steps (keeps v) q" if "q \<in> (\<Union>p \<in> set ?ps. set (load_promotions (?loads p)))" for q
    using that sources by (auto simp: sources_law_def)
  have rest: "yields v (d_bind (complete_stage d ComputeBlocklists) (\<lambda>_.
        d_bind (d_res (prepare_sync_entries e plan)) (\<lambda>entries.
        d_bind (cancellation_check d) (\<lambda>_. d_bind (promote_pending_caches d qs) (\<lambda>_.
        d_bind (cancellation_check d) (\<lambda>_. d_ok (e, entries, sms))))))) (selected ?loads ?ps plan)"
    if "\<And>p. prepare_sync_entries e plan = Inr p \<Longrightarrow> selected ?loads ?ps plan (e, p, sms)"
      "pend_promotion ` set qs \<subseteq> (\<Union>p \<in> set ?ps. set (load_promotions (?loads p)))" for e qs sms
  proof -
    have "steps (keeps v) (promote_pending_caches d qs)"
      using that(2) promoted unfolding promote_pending_caches_def
      by (intro keeping.steps_bind complete_stage_quiet events promote_each_quiet) blast
    note promote = yields_keeps [OF this]
    show ?thesis
      by (rule yields_bind [OF stages(2)] yields_bind [OF checks_yield(1)] yields_bind [OF promote]
          yields_bind [OF yields_res [where Q = "\<lambda>p. prepare_sync_entries e plan = Inr p"]] yields_ok
          that(1) | assumption)+
  qed
  have admit: "yields v (d_bind (admit_external_safelists d (sort_dedup (ls_candidates ls)) (sort_dedup (ls_safelist ls))
          (ls_external ls) ?v6 (ls_promotions ls) (ls_summaries ls)) (\<lambda>(safelist, promotions, summaries).
        let effective = compute_effective_blocklists (sort_dedup (ls_candidates ls)) safelist ?v6
        in d_bind (complete_stage d ComputeBlocklists) (\<lambda>_.
           d_bind (d_res (prepare_sync_entries effective plan)) (\<lambda>entries.
           d_bind (cancellation_check d) (\<lambda>_. d_bind (promote_pending_caches d promotions) (\<lambda>_.
           d_bind (cancellation_check d) (\<lambda>_. d_ok (effective, entries, summaries)))))))) (selected ?loads ?ps plan)"
    if ls: "loaded_ok ?loads ?ps ls" for ls
  proof -
    let ?c = "sort_dedup (ls_candidates ls)" and ?s = "sort_dedup (ls_safelist ls)"
    let ?base = "compute_effective_blocklists ?c ?s ?v6"
    have l: "list_all2 summary_of ?ps (ls_summaries ls)" "ls_candidates ls = loaded_batches Candidate ?loads ?ps (ls_summaries ls)"
      "ls_safelist ls = loaded_batches Safelist ?loads ?ps (ls_summaries ls)"
      "pend_promotion ` set (ls_promotions ls) \<subseteq> (\<Union>p \<in> set ?ps. set (load_promotions (?loads p)))"
      using ls by (simp_all add: loaded_ok_def)
    have ok: "canonicals_ok ?c" "canonicals_ok ?s" using loaded_batches_ok [OF loads] l(2,3) by simp_all
    note x = loaded_externals [OF ls loads]
    have xp: "(\<Union>x \<in> set (ls_external ls). set (ext_promotions x)) \<subseteq> (\<Union>p \<in> set ?ps. set (load_promotions (?loads p)))"
      using ls by (fastforce simp: loaded_ok_def list_all_iff external_ok_def)
    note adm = admit_external_yields [OF quiet ok x(1), of ?v6 "ls_promotions ls"]
    have "yields v (let effective = compute_effective_blocklists ?c safelist ?v6
        in d_bind (complete_stage d ComputeBlocklists) (\<lambda>_.
           d_bind (d_res (prepare_sync_entries effective plan)) (\<lambda>entries.
           d_bind (cancellation_check d) (\<lambda>_. d_bind (promote_pending_caches d qs) (\<lambda>_.
           d_bind (cancellation_check d) (\<lambda>_. d_ok (effective, entries, sms))))))) (selected ?loads ?ps plan)"
      if "admits ?c ?v6 ?base (ls_external ls) (?s, ls_promotions ls, ls_summaries ls) (safelist, qs, sms)"
      for safelist qs sms
      unfolding Let_def
    proof (rule rest)
      have a: "canonicals_ok safelist" "set ?s \<subseteq> set safelist" "set safelist \<subseteq> set ?s \<union> external_networks (ls_external ls)"
        "still_armed ?base (compute_effective_blocklists ?c safelist ?v6)"
        "pend_promotion ` set qs \<subseteq> pend_promotion ` set (ls_promotions ls) \<union> (\<Union>x \<in> set (ls_external ls). set (ext_promotions x))"
        "list_all2 same_summary (ls_summaries ls) sms"
        using that by (simp_all add: admits_def)
      note same = loaded_batches_same(1) [OF l(1) a(6)] loaded_batches_same(2) [OF l(1) a(6), of Candidate, simplified]
      show "pend_promotion ` set qs \<subseteq> (\<Union>p \<in> set ?ps. set (load_promotions (?loads p)))"
        using a(5) l(4) xp by blast
      fix p assume "prepare_sync_entries (compute_effective_blocklists ?c safelist ?v6) plan = Inr p"
      then show "selected ?loads ?ps plan (compute_effective_blocklists ?c safelist ?v6, p, sms)"
        unfolding selected_def prod.case
        using a(1-4) x(2) same l(2,3) by (auto intro!: exI [of _ safelist])
    qed
    then show ?thesis
      by (intro yields_bind [OF adm]) (auto split: prod.split)
  qed
  show ?thesis
    unfolding sync_select_def
    by (intro yields_bind [OF stages(1)] yields_bind [OF stages(2)] yields_bind [OF checks_yield(1)]
        yields_bind [OF load_sources_yields]) (unfold Let_def, rule admit [unfolded Let_def])
qed

end

end
