(* ===== verification/Sync_Order.thy ===== *)
theory Sync_Order
  imports Sync_Select
begin

text \<open>
  The order of a synchronization: the events the observer sees, that nothing is enforced
  before enforcement is announced, and that the lock is released. The last section has a
  system in memory on which the contracts of the ports hold.
\<close>

section \<open>The expected events\<close>

definition stage_events :: "sync_stage \<Rightarrow> sync_event list" where
  "stage_events st = [StageStarted st, StageCompleted st]"

definition enforcement_trace :: "bool \<Rightarrow> sync_event list" where
  "enforcement_trace v6 = EnforcementStarted
     # (if v6 then [StageStarted ApplyIpv6, FamilyReplaced Ipv6, StageCompleted ApplyIpv6] else [])
     @ [StageStarted ApplyIpv4, FamilyReplaced Ipv4, StageCompleted ApplyIpv4,
        StageStarted ActivateFirewall, WiringActivated]
     @ (if v6 then [] else [DisabledIpv6CleanupStarted, DisabledIpv6CleanupCompleted])
     @ [StageCompleted ActivateFirewall]"

definition sync_trace :: "bool \<Rightarrow> sync_event list" where
  "sync_trace v6 = concat (map stage_events
      [ResolvePaths, LoadConfig, AcquireLock, PrepareArtifacts, LoadSources, ComputeBlocklists, PromoteCaches])
     @ enforcement_trace v6"

section \<open>Contracts\<close>

definition promotes :: "'s promotion set \<Rightarrow> 's pending_promotion list \<Rightarrow> bool" where
  "promotes P ps \<longleftrightarrow> pend_promotion ` set ps \<subseteq> P"

lemma promotes_append [simp]:
  "promotes P (ps @ pending_of n qs) \<longleftrightarrow> promotes P ps \<and> set qs \<subseteq> P"
  by (simp add: promotes_def pending_of_def image_Un image_image)

text \<open>The observer appends the events to its log, and the backend does not touch the log.\<close>

definition observer_law :: "('s, 'z) sync_dependencies_scheme \<Rightarrow> ('s \<Rightarrow> sync_event list) \<Rightarrow> bool" where
  "observer_law d log \<longleftrightarrow>
     (\<forall>e s. log (dep_event d e s) = log s @ [e])
   \<and> (\<forall>plan. steps (keeps log) (dep_ensure_artifacts d plan))
   \<and> (\<forall>spec es. steps (keeps log) (dep_replace_set d spec es))
   \<and> (\<forall>plan. steps (keeps log) (dep_activate d plan))
   \<and> (\<forall>plan. steps (keeps log) (d_total (dep_cleanup_disabled_ipv6 d plan) :: ('s, app_error, notice list) dact))"

locale observed = quiet_ports d log loads
  for d :: "('s, 'z) sync_dependencies_scheme" and log :: "'s \<Rightarrow> sync_event list" and loads +
  assumes observer: "observer_law d log"
begin

lemma log_event: "log (dep_event d e s) = log s @ [e]"
  using observer by (simp add: observer_law_def)

lemma log_stage: "log (dep_stage_completed d m s) = log s"
  using ports by (simp add: ports_law_def)

lemma emits_events:
  "emits log (start_stage d st) {[StageStarted st]}" "emits log (complete_stage d st) {[StageCompleted st]}"
  "emits log (send_event d e) {[e]}"
  unfolding start_stage_def complete_stage_def send_event_def
  by (rule emits_one; simp add: log_event log_stage)+

lemma admit_each_promotions:
  assumes "promotes P ps" "\<And>x. x \<in> set xs \<Longrightarrow> set (ext_promotions x) \<subseteq> P"
  shows "yields log (admit_each d cs v6 base xs (ss, ps, sms)) (\<lambda>(_, ps', _). promotes P ps')"
  using assms
proof (induction xs arbitrary: ss ps sms)
  case Nil
  then show ?case by (simp add: yields_ok)
next
  case (Cons x xs)
  have rec: "yields log (admit_each d cs v6 base xs (ss, ps, sms)) (\<lambda>(_, ps', _). promotes P ps')"
    if "promotes P ps" for ss ps sms
    by (rule Cons.IH [OF that]) (simp add: Cons.prems(2))
  have "promotes P (ps @ pending_of (ext_provider x) (ext_promotions x))" using Cons.prems by simp
  then show ?case
    using Cons.prems(1)
    by (auto simp: Let_def intro!: rec yields_bind [OF checks_yield(2)]
        yields_bind [OF checks_yield(3)] yields_err split: option.split)
qed

lemma sync_select_emits:
  "emits log (sync_select d ctx plan) {concat (map stage_events [LoadSources, ComputeBlocklists, PromoteCaches])}"
proof -
  let ?loads = "\<lambda>p. loads p ctx" and ?ps = "reg_providers (dep_sources d)"
  let ?P = "\<Union>p \<in> set ?ps. set (load_promotions (?loads p))"
  have promoted: "steps (keeps log) q" if "q \<in> ?P" for q
    using that sources by (auto simp: sources_law_def)
  note ev = emits_bind [OF emits_events(1)] emits_bind [OF emits_events(2)]
  note chk = emits_after [OF checks_yield(1)]
  have promote: "emits log (d_bind (promote_pending_caches d qs) (\<lambda>_. d_bind (cancellation_check d) (\<lambda>_. d_ok r)))
      {stage_events PromoteCaches}"
    if "promotes ?P qs" for qs r
  proof -
    have "steps (keeps log) (promote_each d qs)"
      using that promoted by (intro promote_each_quiet) (auto simp: promotes_def)
    note each = emits_after [OF yields_keeps [OF this]]
    have "emits log (d_bind (start_stage d PromoteCaches) (\<lambda>_. d_bind (promote_each d qs) (\<lambda>_.
        d_bind (complete_stage d PromoteCaches) (\<lambda>_. d_bind (cancellation_check d) (\<lambda>_. d_ok r)))))
        ((@) [StageStarted PromoteCaches] ` (@) [StageCompleted PromoteCaches] ` {[]})"
      by (intro ev each chk emits_silent keeping.steps_ok) simp_all
    then show ?thesis by (simp add: promote_pending_caches_def d_bind_assoc stage_events_def)
  qed
  have admit: "emits log (d_bind (admit_external_safelists d cs ss (ls_external ls) v6 (ls_promotions ls) sms) (f ls))
      {StageCompleted ComputeBlocklists # stage_events PromoteCaches}"
    if ls: "loaded_ok ?loads ?ps ls"
      and f: "\<And>a qs b. promotes ?P qs \<Longrightarrow>
        emits log (f ls (a, qs, b)) {StageCompleted ComputeBlocklists # stage_events PromoteCaches}"
    for cs ss ls v6 sms f
  proof -
    have "promotes ?P (ls_promotions ls)" "\<And>x. x \<in> set (ls_external ls) \<Longrightarrow> set (ext_promotions x) \<subseteq> ?P"
      using ls by (fastforce simp: loaded_ok_def list_all_iff external_ok_def promotes_def)+
    from admit_each_promotions [OF this] show ?thesis
      unfolding admit_external_safelists_def Let_def d_bind_assoc
      by (rule emits_after) (auto split: prod.split intro!: f)
  qed
  have rest: "emits log (d_bind (complete_stage d ComputeBlocklists) (\<lambda>_.
        d_bind (d_res (prepare_sync_entries e plan)) (\<lambda>entries.
        d_bind (cancellation_check d) (\<lambda>_. d_bind (promote_pending_caches d qs) (\<lambda>_.
        d_bind (cancellation_check d) (\<lambda>_. d_ok (g entries)))))))
      {StageCompleted ComputeBlocklists # stage_events PromoteCaches}"
    if "promotes ?P qs" for e qs g
  proof -
    have "emits log (d_bind (complete_stage d ComputeBlocklists) (\<lambda>_.
        d_bind (d_res (prepare_sync_entries e plan)) (\<lambda>entries.
        d_bind (cancellation_check d) (\<lambda>_. d_bind (promote_pending_caches d qs) (\<lambda>_.
        d_bind (cancellation_check d) (\<lambda>_. d_ok (g entries)))))))
      ((@) [StageCompleted ComputeBlocklists] ` {stage_events PromoteCaches})"
      by (intro ev chk emits_after [OF yields_res [where Q = "\<lambda>_. True"]] promote [OF that]) simp_all
    then show ?thesis by simp
  qed
  have "emits log (sync_select d ctx plan) ((@) [StageStarted LoadSources] ` (@) [StageCompleted LoadSources]
      ` (@) [StageStarted ComputeBlocklists] ` {StageCompleted ComputeBlocklists # stage_events PromoteCaches})"
    unfolding sync_select_def Let_def
    by (intro ev chk emits_after [OF load_sources_yields] admit) (auto intro!: rest)
  then show ?thesis by (simp add: stage_events_def)
qed

end
text \<open>The trace after the lock, whatever the configuration says about IPv6.\<close>

definition locked_trace :: "bool \<Rightarrow> sync_event list" where
  "locked_trace v6 = concat (map stage_events [PrepareArtifacts, LoadSources, ComputeBlocklists, PromoteCaches])
     @ enforcement_trace v6"

context observed
begin

lemma backend_quiet:
  "steps (keeps log) (dep_ensure_artifacts d plan)" "steps (keeps log) (dep_replace_set d spec es)"
  "steps (keeps log) (dep_activate d plan)"
  "steps (keeps log) (d_total (dep_cleanup_disabled_ipv6 d plan) :: ('s, app_error, notice list) dact)"
  using observer by (simp_all add: observer_law_def)

lemma ports_quiet:
  "steps (keeps log) (port_resolve d r q)" "steps (keeps log) (port_load_config d f)"
  "steps (keeps log) (port_acquire d f)" "steps (keeps log) (port_now d)" "steps (keeps log) (port_load_bans d f)"
  "steps (keeps log) (port_save_bans d f b)" "steps (keeps log) (dep_prepare_remote_cache d f)"
  "log (port_release d s) = log s"
  using ports by (simp_all add: ports_law_def)

lemmas emits_event = emits_bind [OF emits_events(1)] emits_bind [OF emits_events(2)] emits_bind [OF emits_events(3)]

lemmas emits_quiet = emits_after [OF checks_yield(1)] emits_after [OF checks_yield(3)]
  emits_after [OF yields_keeps [OF backend_quiet(1)]] emits_after [OF yields_keeps [OF backend_quiet(2)]]
  emits_after [OF yields_keeps [OF backend_quiet(3)]] emits_after [OF yields_keeps [OF backend_quiet(4)]]
  emits_after [OF yields_keeps [OF ports_quiet(1)]] emits_after [OF yields_keeps [OF ports_quiet(2)]]
  emits_after [OF yields_keeps [OF ports_quiet(3)]] emits_after [OF yields_keeps [OF ports_quiet(4)]]
  emits_after [OF yields_keeps [OF ports_quiet(5)]] emits_after [OF yields_keeps [OF ports_quiet(7)]]

lemma apply_enforcement_emits:
  assumes "\<And>u. emits log (f u) {ys}"
  shows "emits log (d_bind (apply_enforcement d plan v4 v6) f) {enforcement_trace (plan_enable_ipv6 plan) @ ys}"
proof (cases "plan_enable_ipv6 plan")
  case True
  have "emits log (d_bind (apply_enforcement d plan v4 v6) f)
      ((@) [EnforcementStarted] ` (@) [StageStarted ApplyIpv6] ` (@) [FamilyReplaced Ipv6] ` (@) [StageCompleted ApplyIpv6]
        ` (@) [StageStarted ApplyIpv4] ` (@) [FamilyReplaced Ipv4] ` (@) [StageCompleted ApplyIpv4]
        ` (@) [StageStarted ActivateFirewall] ` (@) [WiringActivated] ` (@) [StageCompleted ActivateFirewall] ` {ys})"
    unfolding apply_enforcement_def
    by (simp only: True if_True not_True_eq_False if_False d_bind_assoc d_bind_ok)
      (intro emits_event emits_quiet assms; simp)
  then show ?thesis using True by (simp add: enforcement_trace_def)
next
  case False
  have "emits log (d_bind (apply_enforcement d plan v4 v6) f)
      ((@) [EnforcementStarted] ` (@) [StageStarted ApplyIpv4] ` (@) [FamilyReplaced Ipv4] ` (@) [StageCompleted ApplyIpv4]
        ` (@) [StageStarted ActivateFirewall] ` (@) [WiringActivated] ` (@) [DisabledIpv6CleanupStarted]
        ` (@) [DisabledIpv6CleanupCompleted] ` (@) [StageCompleted ActivateFirewall] ` {ys})"
    unfolding apply_enforcement_def
    by (simp only: False if_True not_False_eq_True if_False d_bind_assoc d_bind_ok)
      (intro emits_event emits_quiet assms; simp)
  then show ?thesis using False by (simp add: enforcement_trace_def)
qed

lemma sync_locked_emits:
  "emits log (sync_locked d request paths) ((@) [StageCompleted AcquireLock] ` (locked_trace ` UNIV))"
proof -
  have after: "emits log (d_bind (apply_enforcement d plan v4 v6) (\<lambda>_. d_bind
      (case prune_expired bans cutoff of (changed, bans') \<Rightarrow>
         if changed then d_bind (d_try (port_save_bans d path bans')) (\<lambda>saved. case saved of
             Inl e \<Rightarrow> send_notice d (notice_warning (ExpiredCleanupFailed e)) | Inr _ \<Rightarrow> d_ok ())
         else d_ok ()) (\<lambda>_. d_ok x))) {enforcement_trace (plan_enable_ipv6 plan)}"
    for plan v4 v6 bans cutoff path x
  proof -
    have "steps (keeps log) (case prune_expired bans cutoff of (changed, bans') \<Rightarrow>
         if changed then d_bind (d_try (port_save_bans d path bans')) (\<lambda>saved. case saved of
             Inl e \<Rightarrow> send_notice d (notice_warning (ExpiredCleanupFailed e)) | Inr _ \<Rightarrow> d_ok ())
         else d_ok ())"
      by (auto split: prod.split sum.split
          intro!: keeping.steps_bind keeping.steps_try ports_quiet send_notice_quiet keeping.steps_ok)
    note q = emits_after [OF yields_keeps [OF this]]
    have "emits log (d_bind (apply_enforcement d plan v4 v6) (\<lambda>_. d_bind
      (case prune_expired bans cutoff of (changed, bans') \<Rightarrow>
         if changed then d_bind (d_try (port_save_bans d path bans')) (\<lambda>saved. case saved of
             Inl e \<Rightarrow> send_notice d (notice_warning (ExpiredCleanupFailed e)) | Inr _ \<Rightarrow> d_ok ())
         else d_ok ()) (\<lambda>_. d_ok x))) {enforcement_trace (plan_enable_ipv6 plan) @ []}"
      by (intro apply_enforcement_emits q emits_silent keeping.steps_ok) simp
    then show ?thesis by simp
  qed
  have notice: "emits log (d_bind (if b then send_notice d n else d_ok ()) f) T"
    if "\<And>u. emits log (f u) T" "T \<noteq> {}" for b n T and f :: "unit \<Rightarrow> ('s, app_error, sync_outcome) dact"
    using that emits_after [OF checks_yield(2), of f T] by (cases b) simp_all
  have tail: "emits log (d_bind (start_stage d PrepareArtifacts) (\<lambda>_. d_bind (dep_ensure_artifacts d plan) (\<lambda>_.
      d_bind (complete_stage d PrepareArtifacts) (\<lambda>_. d_bind (sync_select d ctx plan) f)))) (locked_trace ` UNIV)"
    if "\<And>x. emits log (f x) {enforcement_trace (plan_enable_ipv6 plan)}"
    for plan ctx and f :: "_ \<Rightarrow> ('s, app_error, sync_outcome) dact"
  proof -
    have "emits log (d_bind (start_stage d PrepareArtifacts) (\<lambda>_. d_bind (dep_ensure_artifacts d plan) (\<lambda>_.
        d_bind (complete_stage d PrepareArtifacts) (\<lambda>_. d_bind (sync_select d ctx plan) f))))
      ((@) [StageStarted PrepareArtifacts] ` (@) [StageCompleted PrepareArtifacts]
        ` (@) (concat (map stage_events [LoadSources, ComputeBlocklists, PromoteCaches]))
        ` {enforcement_trace (plan_enable_ipv6 plan)})"
      by (intro emits_event emits_quiet emits_bind [OF sync_select_emits] that) simp_all
    then show ?thesis
      by (rule emits_mono) (simp add: locked_trace_def stage_events_def)
  qed
  show ?thesis
    unfolding sync_locked_def Let_def
    by (intro emits_event emits_quiet notice tail)
      (simp_all only: split_paired_all prod.case after image_is_empty UNIV_not_empty not_False_eq_True)
qed

lemma sync_execute_emits: "emits log (sync_execute d request) (sync_trace ` UNIV)"
proof -
  have "emits log (sync_execute d request) ((@) [StageStarted ResolvePaths] ` (@) [StageCompleted ResolvePaths]
      ` (@) [StageStarted LoadConfig] ` (@) [StageCompleted LoadConfig] ` (@) [StageStarted AcquireLock]
      ` (@) [StageCompleted AcquireLock] ` (locked_trace ` UNIV))"
    unfolding sync_execute_def with_lock_def
    by (intro emits_event emits_quiet emits_finally sync_locked_emits ports_quiet) simp_all
  then show ?thesis
    by (rule emits_mono) (auto simp: sync_trace_def locked_trace_def stage_events_def)
qed

end
section \<open>Nothing before its time\<close>

text \<open>
  \<open>kview\<close> reads what is enforced; \<open>inert\<close> relates two such values when the second only has
  more unused artifacts. Preparing the artifacts is inert, and observing changes nothing.
\<close>

definition kernel_law ::
    "('s, 'z) sync_dependencies_scheme \<Rightarrow> ('s \<Rightarrow> 'k) \<Rightarrow> ('k \<Rightarrow> 'k \<Rightarrow> bool) \<Rightarrow> bool" where
  "kernel_law d kview inert \<longleftrightarrow> reflp inert \<and> transp inert
   \<and> (\<forall>e s. kview (dep_event d e s) = kview s)
   \<and> (\<forall>plan. steps (\<lambda>s s'. inert (kview s) (kview s')) (dep_ensure_artifacts d plan))"

text \<open>The lock: taken by a successful acquisition only, given up by the release.\<close>

definition lock_law :: "('s, 'z) sync_dependencies_scheme \<Rightarrow> ('s \<Rightarrow> bool) \<Rightarrow> bool" where
  "lock_law d locked \<longleftrightarrow>
     (\<forall>s. locked (snd (port_is_cancelled d s)) = locked s)
   \<and> (\<forall>e s. locked (dep_event d e s) = locked s) \<and> (\<forall>m s. locked (dep_stage_completed d m s) = locked s)
   \<and> (\<forall>r q. steps (keeps locked) (port_resolve d r q)) \<and> (\<forall>f. steps (keeps locked) (port_load_config d f))
   \<and> (\<forall>f s e s'. port_acquire d f s = Some (Inl e, s') \<longrightarrow> locked s' = locked s)
   \<and> (\<forall>s. \<not> locked (port_release d s))"

definition announced :: "('s \<Rightarrow> sync_event list) \<Rightarrow> ('s \<Rightarrow> 'k) \<Rightarrow> ('k \<Rightarrow> 'k \<Rightarrow> bool) \<Rightarrow> 's \<Rightarrow> 's \<Rightarrow> bool" where
  "announced log kview inert s s' \<longleftrightarrow>
     (\<exists>ys. log s' = log s @ ys \<and> (EnforcementStarted \<in> set ys \<or> inert (kview s) (kview s')))"

lemma emits_extends: "emits log m T \<Longrightarrow> steps (extends log) m"
  unfolding emits_def steps_def extends_def by meson

locale guarded = observed d log loads + kern: quiet_ports d kview loads
  for d :: "('s, 'z) sync_dependencies_scheme" and log loads and kview :: "'s \<Rightarrow> 'k" +
  fixes inert :: "'k \<Rightarrow> 'k \<Rightarrow> bool"
  assumes kernel: "kernel_law d kview inert"
begin

sublocale ann: step_preorder "announced log kview inert"
proof
  note k = kernel [unfolded kernel_law_def reflp_def transp_def]
  show "announced log kview inert s s" for s using k by (auto simp: announced_def)
  show "announced log kview inert s u" if "announced log kview inert s t" "announced log kview inert t u" for s t u
    using k that unfolding announced_def by (metis append.assoc set_append Un_iff)
qed

lemma announced_inert:
  assumes "steps (extends log) m" "steps (\<lambda>s s'. inert (kview s) (kview s')) m"
  shows "steps (announced log kview inert) m"
  using steps_conj [OF assms] by (rule steps_mono) (auto simp: announced_def extends_def)

lemma announced_quiet:
  assumes "steps (extends log) m" "steps (keeps kview) m"
  shows "steps (announced log kview inert) m"
  by (rule announced_inert [OF assms(1) steps_mono [OF assms(2)]])
    (use kernel in \<open>auto simp: kernel_law_def keeps_def dest: reflpD\<close>)

lemma keeps_extends: "steps (keeps log) m \<Longrightarrow> steps (extends log) m"
  by (erule steps_mono) (simp add: keeps_def extends_def)

lemma kernel_event: "kview (dep_event d e s) = kview s"
  using kernel by (simp add: kernel_law_def)

lemma kernel_ports:
  "steps (keeps kview) (port_resolve d r q)" "steps (keeps kview) (port_load_config d f)"
  "steps (keeps kview) (port_acquire d f)" "steps (keeps kview) (port_now d)" "steps (keeps kview) (port_load_bans d f)"
  "steps (keeps kview) (port_save_bans d f b)" "steps (keeps kview) (dep_prepare_remote_cache d f)"
  "kview (port_release d s) = kview s"
  using kern.ports by (simp_all add: ports_law_def)

lemmas announced_ports = announced_quiet [OF keeps_extends [OF ports_quiet(1)] kernel_ports(1)]
  announced_quiet [OF keeps_extends [OF ports_quiet(2)] kernel_ports(2)]
  announced_quiet [OF keeps_extends [OF ports_quiet(3)] kernel_ports(3)]
  announced_quiet [OF keeps_extends [OF ports_quiet(4)] kernel_ports(4)]
  announced_quiet [OF keeps_extends [OF ports_quiet(5)] kernel_ports(5)]
  announced_quiet [OF keeps_extends [OF ports_quiet(6)] kernel_ports(6)]
  announced_quiet [OF keeps_extends [OF ports_quiet(7)] kernel_ports(7)]
  announced_quiet [OF keeps_extends [OF cancellation_quiet] kern.cancellation_quiet]
  announced_quiet [OF keeps_extends [OF send_notice_quiet] kern.send_notice_quiet]

lemmas announced_stages =
  announced_quiet [OF emits_extends [OF emits_events(1)] kern.complete_stage_quiet(1) [OF kernel_event]]
  announced_quiet [OF emits_extends [OF emits_events(2)] kern.complete_stage_quiet(2) [OF kernel_event]]

lemma announced_artifacts: "steps (announced log kview inert) (dep_ensure_artifacts d plan)"
  using announced_inert [OF keeps_extends [OF backend_quiet(1)]] kernel by (simp add: kernel_law_def)

lemmas extending_parts = emits_extends [OF emits_events(1)] emits_extends [OF emits_events(2)]
  emits_extends [OF emits_events(3)] keeps_extends [OF backend_quiet(2)] keeps_extends [OF backend_quiet(3)]
  keeps_extends [OF backend_quiet(4)] keeps_extends [OF notices_quiet]

lemma announced_enforcement: "steps (announced log kview inert) (apply_enforcement d plan v4 v6)"
proof -
  obtain f where f: "apply_enforcement d plan v4 v6 = d_bind (send_event d EnforcementStarted) (\<lambda>_. f)"
    and "steps (extends log) f"
    by (rule that, rule apply_enforcement_def)
      (intro extending.steps_bind extending.steps_if extending.steps_ok extending_parts)
  then have "\<exists>r s'. f s = Some (r, s') \<and> extends log s s'" for s by (simp add: steps_def)
  then have "\<exists>r s' ys. f (dep_event d EnforcementStarted s) = Some (r, s')
      \<and> log s' = log s @ EnforcementStarted # ys" for s
    unfolding extends_def by (metis log_event append.assoc append_Cons append_Nil)
  then show ?thesis
    unfolding f steps_def announced_def send_event_def d_bind_def d_upd_def
    by (metis (no_types, lifting) list.set_intros(1) old.prod.case old.sum.simps(6) option.simps(5))
qed

lemma announced_select:
  assumes "\<And>ctx. loads_ok (\<lambda>p. loads p ctx) (reg_providers (dep_sources d))"
  shows "steps (announced log kview inert) (sync_select d ctx plan)"
  by (rule announced_quiet [OF emits_extends [OF sync_select_emits]
        yields_steps [OF kern.sync_select_yields [OF kernel_event assms]]])

lemma announced_execute:
  assumes "\<And>ctx. loads_ok (\<lambda>p. loads p ctx) (reg_providers (dep_sources d))"
  shows "steps (announced log kview inert) (sync_execute d request)"
proof -
  have release: "announced log kview inert s (port_release d s)" for s
    using ann.refl [of s] by (simp add: announced_def kernel_ports ports_quiet)
  show ?thesis
    unfolding sync_execute_def with_lock_def sync_locked_def Let_def
    by (intro ann.steps_bind announced_ports announced_stages ann.steps_finally release announced_artifacts
        announced_select assms ann.steps_if ann.steps_ok)
      (auto split: prod.split sum.split intro!: ann.steps_bind announced_enforcement ann.steps_ok
        ann.steps_try announced_ports)
qed

end
section \<open>The lock\<close>

interpretation unlocking: step_preorder "\<lambda>s s'. \<not> v s \<longrightarrow> \<not> v s'"
  by unfold_locales auto

context observed
begin

lemma lock_released:
  assumes law: "lock_law d locked"
  shows "steps (\<lambda>s s'. \<not> locked s \<longrightarrow> \<not> locked s') (sync_execute d request)"
proof -
  have kept: "steps (keeps locked) m \<Longrightarrow> steps (\<lambda>s s'. \<not> locked s \<longrightarrow> \<not> locked s') m" for m :: "('s, app_error, 'a) dact"
    by (erule steps_mono) (simp add: keeps_def)
  have quiet: "steps (keeps locked) (port_resolve d r q)" "steps (keeps locked) (port_load_config d f)" for r q f
    using law by (simp_all add: lock_law_def)
  have check: "steps (\<lambda>s s'. \<not> locked s \<longrightarrow> \<not> locked s') (cancellation_check d)"
    using law unfolding lock_law_def steps_def cancellation_check_def by (simp split: prod.split) (metis snd_conv)
  have stage: "steps (\<lambda>s s'. \<not> locked s \<longrightarrow> \<not> locked s') (start_stage d st)"
    "steps (\<lambda>s s'. \<not> locked s \<longrightarrow> \<not> locked s') (complete_stage d st)" for st
    using law unfolding start_stage_def complete_stage_def lock_law_def by (auto intro!: unlocking.steps_upd)
  have "steps (\<lambda>s s'. \<not> locked s \<longrightarrow> \<not> locked s') (with_lock d f m)"
    if ext: "steps (extends log) m" for f and m :: "('s, app_error, 'a) dact"
    unfolding steps_def
  proof
    fix s
    obtain r t where a: "port_acquire d f s = Some (r, t)"
      using stepsD [OF ports_quiet(3), of f s] by blast
    obtain r' u where m: "m t = Some (r', u)" using stepsD [OF ext, of t] by blast
    show "\<exists>r s'. with_lock d f m s = Some (r, s') \<and> (\<not> locked s \<longrightarrow> \<not> locked s')"
      using law a m unfolding lock_law_def with_lock_def d_bind_def d_finally_def
      by (cases r) simp_all
  qed
  then show ?thesis
    unfolding sync_execute_def
    by (intro unlocking.steps_bind check stage kept [OF quiet(1)] kept [OF quiet(2)])
      (use emits_extends [OF sync_locked_emits] in blast)
qed

end

section \<open>A system in memory\<close>

text \<open>Everything answers; cancellation comes when the polls have run out; sets and wiring are
  what was last written.\<close>

record sync_memory =
  sm_log :: "sync_event list"
  sm_notices :: "notice list"
  sm_locked :: bool
  sm_bans :: temporary_bans
  sm_sets :: "rstr \<Rightarrow> canonical_cidr list option"
  sm_wired :: "enforcement_plan option"
  sm_artifacts :: "enforcement_plan list"
  sm_polls :: nat

definition memory_paths :: resolved_paths where
  "memory_paths = \<lparr>root_override = None, config_dir = lit ''/etc/kidobo'', config_file = lit ''/etc/kidobo/config.toml'',
     data_dir = lit ''/var/lib/kidobo'', blocklist_file = lit ''/var/lib/kidobo/blocklist.txt'',
     cache_dir = lit ''/var/cache/kidobo'', remote_cache_dir = lit ''/var/cache/kidobo/remote'',
     lock_file = lit ''/var/cache/kidobo/sync.lock''\<rparr>"

definition memory_provider :: "source_descriptor \<times> canonical_cidr list \<Rightarrow> 's source_provider" where
  "memory_provider = (\<lambda>(desc, cs). \<lparr>prov_descriptor = desc,
     prov_load = (\<lambda>ctx. d_ok (source_load_ready \<lparr>batch_networks = cs, batch_notices = []\<rparr>))\<rparr>)"

definition provider_networks :: "'s \<Rightarrow> 's source_provider \<Rightarrow> source_context \<Rightarrow> 's source_load" where
  "provider_networks s p ctx = (case prov_load p ctx s of
     Some (Inr l, _) \<Rightarrow> l | _ \<Rightarrow> source_load_ready \<lparr>batch_networks = [], batch_notices = []\<rparr>)"

definition memory_sync ::
    "config \<Rightarrow> (source_descriptor \<times> canonical_cidr list) list \<Rightarrow> sync_memory sync_dependencies" where
  "memory_sync cfg srcs = \<lparr>
     port_is_cancelled = (\<lambda>s. (sm_polls s = 0, s\<lparr>sm_polls := sm_polls s - 1\<rparr>)),
     port_resolve = (\<lambda>_ _. d_ok memory_paths),
     port_load_config = (\<lambda>_. d_ok cfg),
     port_acquire = (\<lambda>f s. if sm_locked s then Some (Inl (LockFailed f), s) else Some (Inr (), s\<lparr>sm_locked := True\<rparr>)),
     port_release = (\<lambda>s. s\<lparr>sm_locked := False\<rparr>),
     port_now = d_ok 1700000000,
     port_load_bans = (\<lambda>_ s. Some (Inr (sm_bans s), s)),
     port_save_bans = (\<lambda>_ b. d_upd (\<lambda>s. s\<lparr>sm_bans := b\<rparr>)),
     dep_prepare_remote_cache = (\<lambda>_. d_ok ()),
     dep_sources = \<lparr>reg_providers = map memory_provider srcs, reg_ids = set (map (desc_id \<circ> fst) srcs)\<rparr>,
     dep_ensure_artifacts = (\<lambda>plan. d_upd (\<lambda>s. s\<lparr>sm_artifacts := plan # sm_artifacts s\<rparr>)),
     dep_replace_set = (\<lambda>spec es. d_upd (\<lambda>s. s\<lparr>sm_sets := (sm_sets s)(ms_set_name spec \<mapsto> es)\<rparr>)),
     dep_activate = (\<lambda>plan. d_upd (\<lambda>s. s\<lparr>sm_wired := Some plan\<rparr>)),
     dep_cleanup_disabled_ipv6 = (\<lambda>plan s. Some ([], s\<lparr>sm_sets := (sm_sets s)(ms_set_name (plan_ipv6 plan) := None)\<rparr>)),
     dep_event = (\<lambda>e s. s\<lparr>sm_log := sm_log s @ [e]\<rparr>),
     dep_stage_completed = (\<lambda>_ s. s),
     dep_notice = (\<lambda>n s. s\<lparr>sm_notices := sm_notices s @ [n]\<rparr>)\<rparr>"

lemma quiet_ok: "steps (keeps v) (d_ok x)"
  by (rule keeping.steps_ok)

lemma quiet_upd: "(\<And>s. v (f s) = v s) \<Longrightarrow> steps (keeps v) (d_upd f)"
  by (rule keeping.steps_upd) (simp add: keeps_def)

lemma memory_sources_law:
  assumes "\<And>n s. v (s\<lparr>sm_polls := n\<rparr>) = v s" "\<And>n s. v (s\<lparr>sm_notices := n\<rparr>) = v s"
  shows "sources_law (memory_sync cfg srcs) v (provider_networks s0)"
  using assms
  by (auto simp: sources_law_def memory_sync_def memory_provider_def provider_networks_def yields_def d_ok_def
      source_load_ready_def)

lemma memory_ports_law:
  assumes "\<And>n s. v (s\<lparr>sm_locked := n\<rparr>) = v s" "\<And>n s. v (s\<lparr>sm_bans := n\<rparr>) = v s"
  shows "ports_law (memory_sync cfg srcs) v"
  using assms by (auto simp: ports_law_def memory_sync_def quiet_ok steps_def keeps_def d_ok_def d_upd_def)

lemma memory_observer_law: "observer_law (memory_sync cfg srcs) sm_log"
  by (auto simp: observer_law_def memory_sync_def intro!: quiet_upd)
    (simp add: steps_def keeps_def d_total_def)

lemma memory_kernel_law: "kernel_law (memory_sync cfg srcs) (\<lambda>s. (sm_sets s, sm_wired s)) (=)"
  by (auto simp: kernel_law_def memory_sync_def steps_def d_upd_def reflp_def transp_def)

lemma memory_lock_law: "lock_law (memory_sync cfg srcs) sm_locked"
  by (auto simp: lock_law_def memory_sync_def quiet_ok split: if_splits)

interpretation memory: guarded "memory_sync cfg srcs" sm_log "provider_networks s0" "\<lambda>s. (sm_sets s, sm_wired s)" "(=)"
  by unfold_locales (simp_all add: memory_sources_law memory_ports_law memory_observer_law memory_kernel_law)
section \<open>Properties\<close>

text \<open>An example: candidates of both families, an operator safelist, and an external safelist
  whose one network covers all of IPv4, so that it is not admitted.\<close>

definition demo_config :: config where
  "demo_config = \<lparr>
     cfg_ipset = \<lparr>set_name = lit ''kidobo'', set_name_v6 = lit ''kidobo-v6'', enable_ipv6 = True, chain_action = Drop,
       set_type = lit ''hash:net'', hashsize = HashsizePow2 1024, maxelem = MaxElem 500000, timeout = 0\<rparr>,
     cfg_safe = \<lparr>safe_ips = [V4 (Cidr 0x0A000000 30)], include_github_meta = False, github_meta_url = [],
       github_meta_categories = None\<rparr>,
     cfg_remote = \<lparr>urls = [], timeout_secs = RemoteTimeoutSecs 30\<rparr>,
     cfg_asn = \<lparr>banned = [], cache_stale_after_secs = AsnCacheStaleAfterSecs 3600\<rparr>\<rparr>"

definition demo_sources :: "(source_descriptor \<times> canonical_cidr list) list" where
  "demo_sources = [
     (\<lparr>desc_id = lit ''local'', desc_role = Candidate, desc_failure_policy = RequiredSource\<rparr>,
       [V4 (Cidr 0x0A000000 24), V6 (Cidr 0 0)]),
     (\<lparr>desc_id = lit ''safe'', desc_role = Safelist, desc_failure_policy = RequiredSource\<rparr>, [V4 (Cidr 0x0A000000 30)]),
     (\<lparr>desc_id = lit ''meta'', desc_role = ExternalSafelist, desc_failure_policy = BestEffort\<rparr>, [V4 (Cidr 0 0)])]"

definition demo_request :: path_resolution_input where
  "demo_request = \<lparr>explicit_config_path = None, temp_dir = lit ''/tmp'', env_vars = []\<rparr>"

definition demo_state :: sync_memory where
  "demo_state = \<lparr>sm_log = [], sm_notices = [], sm_locked = False, sm_bans = \<lparr>tb_ips = [], tb_asns = []\<rparr>,
     sm_sets = (\<lambda>_. None), sm_wired = None, sm_artifacts = [], sm_polls = 100\<rparr>"

lemma demo_loads_ok:
  "loads_ok (\<lambda>p. provider_networks s0 p ctx) (reg_providers (dep_sources (memory_sync cfg demo_sources)))"
proof -
  have "canonical_ok (V4 (Cidr 0x0A000000 24))" "canonical_ok (V6 (Cidr 0 0))" "canonical_ok (V4 (Cidr 0x0A000000 30))"
    "canonical_ok (V4 (Cidr 0 0))" by code_simp+
  then show ?thesis
    by (auto simp: loads_ok_def memory_sync_def demo_sources_def memory_provider_def provider_networks_def d_ok_def
        batch_of_def source_load_ready_def fallback_networks_def)
qed

lemma observedI:
  "sources_law d log loads \<Longrightarrow> ports_law d log \<Longrightarrow> observer_law d log \<Longrightarrow> observed d log loads"
  by (simp add: observed_def observed_axioms_def quiet_ports_def quiet_ports_axioms_def quiet_sources_def)

lemma guardedI:
  "observed d log loads \<Longrightarrow> sources_law d kview loads \<Longrightarrow> ports_law d kview \<Longrightarrow> kernel_law d kview inert
     \<Longrightarrow> guarded d log loads kview inert"
  by (simp add: guarded_def guarded_axioms_def quiet_ports_def quiet_ports_axioms_def quiet_sources_def)

lemma memory_laws:
  "sources_law (memory_sync cfg srcs) sm_log (provider_networks s0)" "ports_law (memory_sync cfg srcs) sm_log"
  "sources_law (memory_sync cfg srcs) (\<lambda>s. (sm_sets s, sm_wired s)) (provider_networks s0)"
  "ports_law (memory_sync cfg srcs) (\<lambda>s. (sm_sets s, sm_wired s))"
  by (simp_all add: memory_sources_law memory_ports_law)

text \<open>
  C2: Stages are reported in their order. Whatever the ports answer, a synchronization returns
  and the events it reports are a beginning of the fixed sequence of its stages (with IPv6
  enabled or disabled); on success they are the whole sequence.
\<close>

theorem sync_events_in_order:
  assumes "sources_law d log loads" "ports_law d log" "observer_law d log"
  shows "\<exists>r s' v6 ys. sync_execute d request s = Some (r, s') \<and> log s' = log s @ ys
    \<and> prefix ys (sync_trace v6) \<and> (isl r \<or> ys = sync_trace v6)"
  using observed.sync_execute_emits [OF observedI [OF assms], of request] unfolding emits_def by blast

theorem sync_events_in_order_witness:
  "\<exists>r s' v6 ys. sync_execute (memory_sync demo_config demo_sources) demo_request demo_state = Some (r, s')
    \<and> sm_log s' = sm_log demo_state @ ys \<and> prefix ys (sync_trace v6) \<and> (isl r \<or> ys = sync_trace v6)"
  by (rule sync_events_in_order [OF memory_laws(1,2) memory_observer_law])

text \<open>
  C3: Nothing is enforced before its time. As long as the events reported by a run do not
  contain the announcement of enforcement (which, by the order of the stages, comes after
  the sources were loaded, the capacity of the sets was checked and the caches were
  selected), what the kernel enforces is as before the run, up to unused artifacts; so a
  run that fails earlier, or is interrupted, changes nothing.
\<close>

theorem enforcement_only_after_announcement:
  assumes "sources_law d log loads" "ports_law d log" "observer_law d log"
    and "sources_law d kview loads" "ports_law d kview" "kernel_law d kview inert"
    and "\<And>ctx. loads_ok (\<lambda>p. loads p ctx) (reg_providers (dep_sources d))"
  shows "\<exists>r s' ys. sync_execute d request s = Some (r, s') \<and> log s' = log s @ ys
    \<and> (EnforcementStarted \<in> set ys \<or> inert (kview s) (kview s'))"
  using guarded.announced_execute [OF guardedI [OF observedI [OF assms(1-3)] assms(4-6)] assms(7), of request]
  unfolding steps_def announced_def by blast

theorem enforcement_only_after_announcement_witness:
  "\<exists>r s' ys. sync_execute (memory_sync demo_config demo_sources) demo_request demo_state = Some (r, s')
    \<and> sm_log s' = sm_log demo_state @ ys
    \<and> (EnforcementStarted \<in> set ys \<or> (sm_sets demo_state, sm_wired demo_state) = (sm_sets s', sm_wired s'))"
  by (rule enforcement_only_after_announcement [OF memory_laws(1,2) memory_observer_law memory_laws(3,4)
        memory_kernel_law demo_loads_ok])

text \<open>
  C15: The lock is released at every exit: a run that starts without the lock ends without
  it, whether it succeeds, fails before the lock, cannot take it, or fails behind it.
\<close>

theorem sync_releases_lock:
  assumes "sources_law d log loads" "ports_law d log" "observer_law d log" "lock_law d locked"
    and "\<not> locked s"
  shows "\<exists>r s'. sync_execute d request s = Some (r, s') \<and> \<not> locked s'"
  using observed.lock_released [OF observedI [OF assms(1-3)] assms(4), of request] assms(5)
  unfolding steps_def by blast

theorem sync_releases_lock_witness:
  "\<exists>r s'. sync_execute (memory_sync demo_config demo_sources) demo_request demo_state = Some (r, s') \<and> \<not> sm_locked s'"
  by (rule sync_releases_lock [OF memory_laws(1,2) memory_observer_law memory_lock_law])
    (simp add: demo_state_def)

text \<open>
  C4: External safelists cannot disarm the blocklist. Admission returns; it keeps every network
  of the operator's safelist and adds only networks of the external sources; and no address
  family that the operator's own lists leave with something to block is left with nothing.
  Its only error is the stored failure of the fallback of a rejected source.
\<close>

theorem admission_never_disarms:
  assumes "canonicals_ok candidates" "canonicals_ok safelist" "externals_valid summaries externals"
  shows "\<exists>r s'. admit_external_safelists d candidates safelist externals v6 promotions summaries s = Some (r, s')
    \<and> (case r of
        Inl e \<Rightarrow> \<exists>x \<in> set externals. ext_fallback_failure x = Some e
      | Inr (safelist', promotions', summaries') \<Rightarrow>
          set safelist \<subseteq> set safelist' \<and> set safelist' \<subseteq> set safelist \<union> external_networks externals
        \<and> still_armed (compute_effective_blocklists candidates safelist v6)
            (compute_effective_blocklists candidates safelist' v6))"
proof -
  obtain r s' where run: "admit_external_safelists d candidates safelist externals v6 promotions summaries s = Some (r, s')"
    "\<forall>x. r = Inr x \<longrightarrow> admits candidates v6 (compute_effective_blocklists candidates safelist v6) externals
       (safelist, promotions, summaries) x"
    using admit_external_yields [of "\<lambda>_. ()" d, OF _ assms, of v6 promotions] unfolding yields_def by blast
  then show ?thesis
    using admit_external_error [of d candidates safelist externals v6 promotions summaries s]
    by (cases r) (auto simp: admits_def)
qed

theorem admission_never_disarms_witness:
  "\<exists>r s'. admit_external_safelists (memory_sync demo_config []) [V4 (Cidr 0x0A000000 24)] [V4 (Cidr 0x0A000000 30)]
      [\<lparr>ext_provider = lit ''meta'', ext_primary = \<lparr>batch_networks = [V4 (Cidr 0 0)], batch_notices = []\<rparr>,
        ext_fallback = None, ext_promotions = [], ext_summary_index = 0, ext_fallback_failure = None\<rparr>] True [] [] demo_state
      = Some (r, s')
    \<and> (case r of
        Inl e \<Rightarrow> False
      | Inr (safelist', promotions', summaries') \<Rightarrow>
          still_armed (compute_effective_blocklists [V4 (Cidr 0x0A000000 24)] [V4 (Cidr 0x0A000000 30)] True)
            (compute_effective_blocklists [V4 (Cidr 0x0A000000 24)] safelist' True))"
proof -
  let ?x = "\<lparr>ext_provider = lit ''meta'', ext_primary = \<lparr>batch_networks = [V4 (Cidr 0 0)], batch_notices = []\<rparr>,
        ext_fallback = None, ext_promotions = [], ext_summary_index = 0, ext_fallback_failure = None\<rparr> :: sync_memory loaded_external"
  have ok: "canonicals_ok [V4 (Cidr 0x0A000000 24)]" "canonicals_ok [V4 (Cidr 0x0A000000 30)]" "canonical_ok (V4 (Cidr 0 0))"
    by code_simp+
  then have "externals_valid [] [?x]" by (simp add: externals_valid_def fallback_networks_def)
  from admission_never_disarms [OF ok(1,2) this, of "memory_sync demo_config []" True "[]" demo_state]
  show ?thesis by (fastforce split: sum.splits)
qed

text \<open>
  C9: What passes the capacity check fits the kernel. The kernel entries of a family denote
  exactly the addresses of its effective list, all are canonical, none is a /0 (which the
  kernel type cannot hold: it is split in its halves), and there are at most as many as
  the set holds; the check fails only for an enabled family that really has more.
\<close>

theorem kernel_entries_fit:
  assumes "cidrs_ok (eb_ipv4 e)" "cidrs_ok (eb_ipv6 e)"
  shows "case prepare_sync_entries e plan of
      Inr p \<Rightarrow> addrs_of (pe_ipv4 p @ pe_ipv6 p) = effective_addrs e
        \<and> fits_kernel (pe_ipv4 p) (ms_maxelem (plan_ipv4 plan))
        \<and> (\<not> plan_enable_ipv6 plan \<or> fits_kernel (pe_ipv6 p) (ms_maxelem (plan_ipv6 plan)))
    | Inl er \<Rightarrow> (\<exists>spec entries. er = IpsetCapacityExceeded (ms_family spec) (ms_set_name spec) entries (ms_maxelem spec)
        \<and> entries > ms_maxelem spec
        \<and> (spec = plan_ipv4 plan \<and> entries = length (prepare_enforcement_entries (map V4 (eb_ipv4 e)))
           \<or> spec = plan_ipv6 plan \<and> plan_enable_ipv6 plan
             \<and> entries = length (prepare_enforcement_entries (map V6 (eb_ipv6 e)))))"
proof (cases "prepare_sync_entries e plan")
  case (Inl er)
  then show ?thesis
    by (auto simp: prepare_sync_entries_def Let_def ensure_within_capacity_def and_then_Inl_iff split: if_splits)
next
  case (Inr p)
  with prepare_sync_entries_Inr [OF assms Inr] show ?thesis by (auto simp: effective_addrs_def)
qed

theorem kernel_entries_fit_witness:
  "case prepare_sync_entries \<lparr>eb_ipv4 = [Cidr 0 0], eb_ipv6 = []\<rparr> (EnforcementPlan_from_config demo_config) of
      Inr p \<Rightarrow> addrs_of (pe_ipv4 p @ pe_ipv6 p) = effective_addrs \<lparr>eb_ipv4 = [Cidr 0 0], eb_ipv6 = []\<rparr>
        \<and> length (pe_ipv4 p) = 2
    | Inl er \<Rightarrow> False"
proof -
  let ?e = "\<lparr>eb_ipv4 = [Cidr 0 0], eb_ipv6 = []\<rparr>"
  have "cidrs_ok (eb_ipv4 ?e)" "cidrs_ok (eb_ipv6 ?e)" by code_simp+
  moreover have "map_sum (\<lambda>_. ()) (\<lambda>p. length (pe_ipv4 p)) (prepare_sync_entries ?e (EnforcementPlan_from_config demo_config))
      = Inr 2" by code_simp
  ultimately show ?thesis
    using kernel_entries_fit [of ?e "EnforcementPlan_from_config demo_config"] by (auto split: sum.splits)
qed

end
