(* ===== verification/Enforcement.thy ===== *)
theory Enforcement
  imports Sync_Order
begin

text \<open>
  The production backend, \<^verbatim>\<open>crates/kidobo-adapters/src/enforcement.rs\<close>: the port of the
  synchronization implemented by the ipset and the iptables adapters over one runner. The
  lemmas compose the laws of the two tools to what each operation of the port promises, and
  these to what enforcing a selection does to the sets and the rules.
\<close>

section \<open>The backend\<close>

definition to_ipset_spec :: "managed_set_spec \<Rightarrow> ipset_set_spec" where
  "to_ipset_spec spec = \<lparr>sp_set_name = ms_set_name spec, sp_set_type = ms_set_type spec,
     sp_family = (case ms_family spec of Ipv4 \<Rightarrow> Inet | Ipv6 \<Rightarrow> Inet6),
     sp_hashsize = ms_hashsize spec, sp_maxelem = ms_maxelem spec, sp_timeout = ms_timeout spec\<rparr>"

fun to_chain_action :: "firewall_action \<Rightarrow> chain_action_kind" where
  "to_chain_action Drop = DropAction"
| "to_chain_action Reject = RejectAction"

definition backend_ensure_artifacts ::
    "('s, 'z) ipset_host_scheme \<Rightarrow> enforcement_plan \<Rightarrow> ('s, app_error, unit) dact" where
  "backend_ensure_artifacts h plan =
     d_bind (d_map_err IpsetFailed (d_lift (ensure_ipset_exists h (to_ipset_spec (plan_ipv4 plan))))) (\<lambda>_.
     d_bind (if plan_enable_ipv6 plan
         then d_map_err IpsetFailed (d_lift (ensure_ipset_exists h (to_ipset_spec (plan_ipv6 plan))))
         else d_ok ()) (\<lambda>_.
     d_map_err FirewallFailed (ensure_firewall_artifacts_for_families (ih_run h) (plan_enable_ipv6 plan))))"

definition backend_replace_set ::
    "('s, 'z) ipset_host_scheme \<Rightarrow> managed_set_spec \<Rightarrow> canonical_cidr list \<Rightarrow> ('s, app_error, unit) dact" where
  "backend_replace_set h spec es =
     d_map_err IpsetFailed (d_lift (atomic_replace_ipset_values h show_cidr (to_ipset_spec spec) es))"

definition backend_activate :: "('s, 'z) ipset_host_scheme \<Rightarrow> enforcement_plan \<Rightarrow> ('s, app_error, unit) dact" where
  "backend_activate h plan =
     d_map_err FirewallFailed (ensure_firewall_wiring_for_families (ih_run h) (ms_set_name (plan_ipv4 plan))
       (ms_set_name (plan_ipv6 plan)) (plan_enable_ipv6 plan) (to_chain_action (plan_chain_action plan)))"

definition backend_cleanup_disabled_ipv6 ::
    "('s, 'z) ipset_host_scheme \<Rightarrow> enforcement_plan \<Rightarrow> 's \<Rightarrow> (notice list \<times> 's) option" where
  "backend_cleanup_disabled_ipv6 h plan s = (case cleanup_firewall_wiring (ih_run h) FwIpv6 s of
     None \<Rightarrow> None
   | Some (r, s) \<Rightarrow>
       let notices = (case r of Inl e \<Rightarrow> [notice_warning (Ipv6FirewallCleanupFailed e)] | Inr _ \<Rightarrow> []);
           name = ms_set_name (plan_ipv6 plan)
       in if utf8_len name > IPSET_NAME_MAX_LEN then Some (notices, s)
          else if name = ms_set_name (plan_ipv4 plan)
          then Some (notices @ [notice_warning Ipv6IpsetCleanupSkipped], s)
          else (case ih_run h (lit ''ipset'') [lit ''destroy'', name] s of (r, s) \<Rightarrow>
            Some (notices @ (case r of
                Inr result \<Rightarrow>
                  if status_success (cr_status result) \<or> is_missing_set_result result then []
                  else let diagnostic = trim (cr_stderr result)
                       in [notice_warning (Ipv6IpsetCleanupStatus name (cr_status result)
                            (if diagnostic = [] then lit ''no stderr'' else diagnostic))]
              | Inl e \<Rightarrow> [notice_warning (Ipv6IpsetCleanupError name e)]), s)))"

text \<open>The dependencies of a synchronization with this backend.\<close>

definition uses_backend :: "('s, 'z) sync_dependencies_scheme \<Rightarrow> ('s, 'y) ipset_host_scheme \<Rightarrow> bool" where
  "uses_backend d h \<longleftrightarrow> dep_ensure_artifacts d = backend_ensure_artifacts h
     \<and> dep_replace_set d = backend_replace_set h \<and> dep_activate d = backend_activate h
     \<and> dep_cleanup_disabled_ipv6 d = backend_cleanup_disabled_ipv6 h"

section \<open>The host\<close>

text \<open>
  What is enforced on a host: the sets and the rules of both families. Beside the laws of
  the two tools, a tool touches only what is its own, and files and clock touch nothing.
\<close>

record kernel_view =
  k_sets :: ksets
  k_rules4 :: ruleset
  k_rules6 :: ruleset

definition host_law :: "('s, 'z) ipset_host_scheme \<Rightarrow> ('s \<Rightarrow> kernel_view) \<Rightarrow> ('s \<Rightarrow> rstr \<Rightarrow> rstr option) \<Rightarrow> bool" where
  "host_law h view files \<longleftrightarrow>
     ipset_law h (k_sets \<circ> view) files
   \<and> iptables_law (ih_run h) (k_rules4 \<circ> view) (binary FwIpv4)
   \<and> iptables_law (ih_run h) (k_rules6 \<circ> view) (binary FwIpv6)
   \<and> (\<forall>args s. let s' = snd (ih_run h (lit ''ipset'') args s)
        in k_rules4 (view s') = k_rules4 (view s) \<and> k_rules6 (view s') = k_rules6 (view s))
   \<and> (\<forall>args s. let s' = snd (ih_run h (binary FwIpv4) args s)
        in k_sets (view s') = k_sets (view s) \<and> k_rules6 (view s') = k_rules6 (view s))
   \<and> (\<forall>args s. let s' = snd (ih_run h (binary FwIpv6) args s)
        in k_sets (view s') = k_sets (view s) \<and> k_rules4 (view s') = k_rules4 (view s))
   \<and> (\<forall>s. view (snd (ih_now_nanos h s)) = view s) \<and> (\<forall>p s. view (snd (ih_create_new h p s)) = view s)
   \<and> (\<forall>p t s. view (snd (ih_write h p t s)) = view s) \<and> (\<forall>p s. view (snd (ih_remove_file h p s)) = view s)"

section \<open>What the adapters leave alone\<close>

text \<open>\<open>unchanged v m\<close>: if the action returns, it has kept \<open>v\<close>.\<close>

definition unchanged :: "('s \<Rightarrow> 'v) \<Rightarrow> ('s, 'e, 'a) dact \<Rightarrow> bool" where
  "unchanged v m \<longleftrightarrow> (\<forall>s r s'. m s = Some (r, s') \<longrightarrow> v s' = v s)"

lemma unchangedD: "unchanged v m \<Longrightarrow> m s = Some (r, s') \<Longrightarrow> v s' = v s"
  by (simp add: unchanged_def)

lemma unchanged_intros:
  "unchanged v (d_ok x)" "unchanged v (d_err e)" "unchanged v (d_res r)"
  "(\<And>s. v (snd (a s)) = v s) \<Longrightarrow> unchanged v (d_lift a)"
  "unchanged v m \<Longrightarrow> (\<And>x. unchanged v (f x)) \<Longrightarrow> unchanged v (d_bind m f)"
  "unchanged v m \<Longrightarrow> unchanged v (d_try m)" "unchanged v m \<Longrightarrow> unchanged v (d_map_err g m)"
  "unchanged v m \<Longrightarrow> unchanged v m' \<Longrightarrow> unchanged v (if b then m else m')"
  by (auto simp: unchanged_def d_ok_def d_err_def d_res_def d_lift_def d_bind_def d_try_def d_map_err_def
      split: option.splits sum.splits) (metis snd_conv)+

lemma unchanged_repeat: "unchanged v m \<Longrightarrow> unchanged v (d_repeat n m)"
  by (induction n) (simp_all add: unchanged_intros)

lemma spec2: "\<forall>x y. P x y \<Longrightarrow> P x y" by blast

lemma runner_keeps:
  assumes "\<And>args s. v (snd (runner bin args s)) = v s"
  shows "fw_run runner bin args s = Some (r, t) \<Longrightarrow> v t = v s"
    "run_checked runner bin args s = Some (r', t) \<Longrightarrow> v t = v s"
proof -
  have w: "fw_run runner bin a s = Some (r, t) \<Longrightarrow> v t = v s" for a r t
    using assms [of a s] by (auto simp: fw_run_eq split: prod.splits sum.splits)
  then show "fw_run runner bin args s = Some (r, t) \<Longrightarrow> v t = v s" .
  show "run_checked runner bin args s = Some (r', t) \<Longrightarrow> v t = v s"
    using w by (auto simp: run_checked_def d_bind_def d_res_def Let_def split: option.splits sum.splits)
qed

lemma remove_all_keeps:
  "remove_all_input_jumps_for_chain runner fam chain s = Some y
     \<Longrightarrow> (\<forall>args s. v (snd (runner (binary fam) args s)) = v s) \<longrightarrow> v (snd y) = v s"
proof (rule remove_all_input_jumps_for_chain.raw_induct [where P = "\<lambda>runner fam chain s y.
    (\<forall>args s. v (snd (runner (binary fam) args s)) = v s) \<longrightarrow> v (snd y) = v s"], intro impI, goal_cases)
  case (1 f runner fam chain s y)
  let ?c = "run_checked runner (binary fam) [lit ''-S'', lit ''INPUT'']"
  let ?w = "fw_run runner (binary fam) (with_lock_wait [lit ''-D'', lit ''INPUT'', lit ''-j'', chain])"
  note keeps = runner_keeps [of v runner "binary fam", OF spec2 [OF 1(4)]]
  show ?case
  proof (cases "?c s")
    case None
    then show ?thesis using 1(3) by simp
  next
    case (Some p)
    obtain r t where c: "?c s = Some (r, t)" using Some by (cases p) simp
    have t: "v t = v s" by (rule keeps(2) [OF c])
    show ?thesis
    proof (cases r)
      case (Inl e)
      then show ?thesis using 1(3) c t by auto
    next
      case (Inr inp)
      note body = 1(3) [unfolded c option.case prod.case Inr sum.case]
      show ?thesis
      proof (cases "exact_jump_positions (cr_stdout inp) chain = []")
        case True
        then show ?thesis using body t by auto
      next
        case False
        note body = body [unfolded if_not_P [OF False]]
        show ?thesis
        proof (cases "?w t")
          case None
          then show ?thesis using body by simp
        next
          case (Some q)
          obtain r' u where w: "?w t = Some (r', u)" using Some by (cases q) simp
          have u: "v u = v s" using keeps(1) [OF w] t by simp
          note body = body [unfolded w option.case prod.case]
          show ?thesis
          proof (cases r')
            case (Inl e)
            then show ?thesis using body u by auto
          next
            case (Inr result)
            have "v (snd y) = v u" if "f runner fam chain u = Some y" using 1(2) [OF that] 1(4) by blast
            then show ?thesis using body u Inr by (auto split: if_splits)
          qed
        qed
      qed
    qed
  qed
qed

locale other_tool =
  fixes runner :: "'s runner" and v :: "'s \<Rightarrow> 'v" and fam :: firewall_family
  assumes keeps: "v (snd (runner (binary fam) args s)) = v s"
begin

lemma run_unchanged: "unchanged v (fw_run runner (binary fam) args)"
  unfolding fw_run_def by (intro unchanged_intros keeps)

lemma checked_unchanged: "unchanged v (run_checked runner (binary fam) args)"
  "unchanged v (run_checked_allow_missing_chain runner (binary fam) args)"
  unfolding run_checked_def run_checked_allow_missing_chain_def Let_def
  by (intro unchanged_intros run_unchanged)+

lemma ensure_chain_unchanged: "unchanged v (ensure_chain_exists runner fam chain)"
  unfolding ensure_chain_exists_def chain_exists_def Let_def
  by (intro unchanged_intros run_unchanged checked_unchanged)

lemma remove_all_unchanged: "unchanged v (remove_all_input_jumps_for_chain runner fam chain)"
  unfolding unchanged_def using remove_all_keeps [of runner fam chain _ "(_, _)" v] keeps by simp

lemma wiring_unchanged: "unchanged v (ensure_firewall_wiring runner fam name action)"
  unfolding ensure_firewall_wiring_def replace_chain_rule_fail_closed_def normalize_input_jump_fail_closed_def
    replace_chain_jump_fail_closed_def Let_def
  by (intro unchanged_intros unchanged_repeat run_unchanged checked_unchanged ensure_chain_unchanged remove_all_unchanged)

lemma cleanup_unchanged: "unchanged v (cleanup_firewall_wiring runner fam)"
  unfolding cleanup_firewall_wiring_def Let_def
  by (intro unchanged_intros checked_unchanged remove_all_unchanged)

end
lemma act_keeps:
  "v (snd (act_ok x s)) = v s" "v (snd (act_err e s)) = v s" "v (snd (act_res r s)) = v s"
  "(\<And>s. v (snd (m s)) = v s) \<Longrightarrow> (\<And>x s. v (snd (f x s)) = v s) \<Longrightarrow> v (snd (act_bind m f s)) = v s"
  "v (snd (m s)) = v s \<Longrightarrow> v (snd (act_try m s)) = v s"
  "v (snd (m s)) = v s \<Longrightarrow> v (snd (act_map_err g m s)) = v s"
  "v (snd (m s)) = v s \<Longrightarrow> v (snd (m' s)) = v s \<Longrightarrow> v (snd ((if b then m else m') s)) = v s"
  by (simp_all add: act_simps split: prod.split sum.split) (metis snd_conv)+

locale other_state =
  fixes h :: "('s, 'z) ipset_host_scheme" and v :: "'s \<Rightarrow> 'v"
  assumes run: "v (snd (ih_run h (lit ''ipset'') args s)) = v s"
    and env: "v (snd (ih_now_nanos h s)) = v s" "v (snd (ih_create_new h p s)) = v s"
      "v (snd (ih_write h p t s)) = v s" "v (snd (ih_remove_file h p s)) = v s"
begin

lemma run_keeps: "v (snd (ipset_run h args s)) = v s" "v (snd (run_checked_ipset h args s)) = v s"
  unfolding run_checked_ipset_def ipset_run_def by (intro act_keeps run)+

lemma ensure_keeps: "v (snd (ensure_ipset_exists h spec s)) = v s"
  unfolding ensure_ipset_exists_def inspect_ipset_def create_ipset_def Let_def
  by (intro act_keeps run_keeps | split option.split, intro conjI impI allI)+

lemma suffix_keeps: "v (snd (random_hex_suffix h n s)) = v s"
  using env(1) [of s] by (auto simp: random_hex_suffix_def Let_def split: prod.splits)

lemma attempts_keeps: "v (snd (create_restore_script_attempts h n s)) = v s"
proof (induction n arbitrary: s)
  case 0
  then show ?case
    using suffix_keeps by (auto simp: restore_script_path_def split: prod.splits) (metis snd_conv)+
next
  case (Suc n)
  obtain path t where p: "restore_script_path h s = (path, t)" by fastforce
  have "v t = v s" using suffix_keeps [of 12 s] p by (auto simp: restore_script_path_def split: prod.splits)
  then show ?case
    using p Suc env(2) [of path t] by (auto split: prod.splits sum.splits if_splits)
qed

lemma replace_keeps: "v (snd (atomic_replace_ipset_values h display spec es s)) = v s"
proof -
  obtain temp s1 where t: "generate_temp_set_name h (sp_set_name spec) s = (temp, s1)" by fastforce
  have s1: "v s1 = v s" using t suffix_keeps [of 8 s] by (auto simp: generate_temp_set_name_def split: prod.splits)
  have d: "v (best_effort_destroy_set h n u) = v u" for n u by (simp add: best_effort_destroy_set_def run)
  have x: "v (snd (execute_ipset_restore_with_entries h display spec temp es u)) = v u" for u
    unfolding execute_ipset_restore_with_entries_def create_restore_script_file_def
    by (intro act_keeps run_keeps attempts_keeps env)
  show ?thesis
    using x [of "best_effort_destroy_set h temp s1"]
    by (auto simp add: atomic_replace_ipset_values_def t d s1 Let_def split: prod.splits)
qed

end
section \<open>What the operations promise\<close>

text \<open>Artifacts in the kernel that nothing uses yet: an empty set, an empty managed chain.\<close>

definition rules_grow :: "ruleset \<Rightarrow> ruleset \<Rightarrow> bool" where
  "rules_grow R R' \<longleftrightarrow> R' = R \<or> R KIDOBO_CHAIN_NAME = None \<and> R' = R(KIDOBO_CHAIN_NAME \<mapsto> [])"

definition sets_grow :: "ksets \<Rightarrow> ksets \<Rightarrow> bool" where
  "sets_grow S S' \<longleftrightarrow> (\<forall>n. S' n = S n \<or> S n = None \<and> (\<exists>k. S' n = Some k \<and> ks_entries k = {}))"

definition inert_kernel :: "kernel_view \<Rightarrow> kernel_view \<Rightarrow> bool" where
  "inert_kernel K K' \<longleftrightarrow> sets_grow (k_sets K) (k_sets K')
     \<and> rules_grow (k_rules4 K) (k_rules4 K') \<and> rules_grow (k_rules6 K) (k_rules6 K')"

lemma rules_grow_refl [simp]: "rules_grow R R"
  by (simp add: rules_grow_def)

lemma rules_grow_trans: "rules_grow R R' \<Longrightarrow> rules_grow R' R'' \<Longrightarrow> rules_grow R R''"
  by (auto simp: rules_grow_def)

lemma sets_grow_refl [simp]: "sets_grow S S"
  by (simp add: sets_grow_def)

lemma sets_grow_trans: "sets_grow S S' \<Longrightarrow> sets_grow S' S'' \<Longrightarrow> sets_grow S S''"
  unfolding sets_grow_def by (metis option.distinct(1))

interpretation inert_steps: step_preorder "\<lambda>s s'. inert_kernel (view s) (view s')"
  by unfold_locales (auto simp: inert_kernel_def intro: rules_grow_trans sets_grow_trans)

lemma rules_grow_enforcing: "rules_grow R R' \<Longrightarrow> enforcing R' \<longleftrightarrow> enforcing R"
  by (auto simp: rules_grow_def enforcing_def in_force_def split: option.split)

lemma rules_grow_ok: "rules_grow R R' \<Longrightarrow> rules_ok R \<Longrightarrow> rules_ok R'" "rules_grow R R' \<Longrightarrow> R' INPUT = R INPUT"
  by (auto simp: rules_grow_def rules_ok_def split: if_splits)

text \<open>The exact wiring of a family.\<close>

definition wired :: "rstr \<Rightarrow> chain_action_kind \<Rightarrow> ruleset \<Rightarrow> ruleset" where
  "wired name action R = R(INPUT \<mapsto> stable_jump # filter unmanaged_rule (the (R INPUT)),
     KIDOBO_CHAIN_NAME \<mapsto> [match_rule name action], KIDOBO_STAGING_CHAIN_NAME := None)"

lemma wired_grow: "rules_grow R R' \<Longrightarrow> wired name action R' = wired name action R"
  by (auto simp: rules_grow_def wired_def)

definition new_set :: "managed_set_spec \<Rightarrow> canonical_cidr list \<Rightarrow> kset" where
  "new_set spec es = spec_set show_cidr (to_ipset_spec spec) es"

definition temps :: "('s, 'z) ipset_host_scheme \<Rightarrow> rstr \<Rightarrow> rstr set" where
  "temps h name = range (\<lambda>s. fst (generate_temp_set_name h name s))"

lemma to_ipset_spec_sel [simp]:
  "sp_set_name (to_ipset_spec spec) = ms_set_name spec" "sp_set_type (to_ipset_spec spec) = ms_set_type spec"
  by (simp_all add: to_ipset_spec_def)

lemma word_ok_show_cidr: "word_ok (show_cidr c)"
  using show_cidr_not_Nil [of c] addr_chars_cidr [of c]
  by (auto simp: word_ok_def list_all_iff addr_char_plain)

locale command_host =
  fixes h :: "('s, 'z) ipset_host_scheme" and view :: "'s \<Rightarrow> kernel_view" and files :: "'s \<Rightarrow> rstr \<Rightarrow> rstr option"
  assumes law: "host_law h view files"
begin

lemma laws:
  "ipset_law h (k_sets \<circ> view) files" "iptables_law (ih_run h) (k_rules4 \<circ> view) (binary FwIpv4)"
  "iptables_law (ih_run h) (k_rules6 \<circ> view) (binary FwIpv6)"
  using law by (simp_all add: host_law_def)

sublocale sets: other_state h "\<lambda>s. (k_rules4 (view s), k_rules6 (view s))"
  by unfold_locales (use law in \<open>simp_all add: host_law_def Let_def\<close>)

sublocale fw4: other_tool "ih_run h" "\<lambda>s. (k_sets (view s), k_rules6 (view s))" FwIpv4
  by unfold_locales (use law in \<open>simp add: host_law_def Let_def\<close>)

sublocale fw6: other_tool "ih_run h" "\<lambda>s. (k_sets (view s), k_rules4 (view s))" FwIpv6
  by unfold_locales (use law in \<open>simp add: host_law_def Let_def\<close>)

lemma ensure_set_inert: "steps (\<lambda>s s'. inert_kernel (view s) (view s')) (d_lift (ensure_ipset_exists h spec))"
  unfolding steps_def
proof
  fix s
  obtain r s' where run: "ensure_ipset_exists h spec s = (r, s')" by fastforce
  have "sets_grow (k_sets (view s)) (k_sets (view s'))"
    unfolding sets_grow_def
  proof
    fix n
    show "k_sets (view s') n = k_sets (view s) n \<or> k_sets (view s) n = None
        \<and> (\<exists>k. k_sets (view s') n = Some k \<and> ks_entries k = {})"
      using ensure_ipset_sets [OF laws(1) run]
      by (cases "n = sp_set_name spec") (auto simp: empty_set_def split: option.splits)
  qed
  moreover have "k_rules4 (view s') = k_rules4 (view s) \<and> k_rules6 (view s') = k_rules6 (view s)"
    using sets.ensure_keeps [of spec s] run by simp
  ultimately show "\<exists>r s'. d_lift (ensure_ipset_exists h spec) s = Some (r, s') \<and> inert_kernel (view s) (view s')"
    using run by (simp add: d_lift_def inert_kernel_def)
qed

end

text \<open>Making sure that the managed chain exists.\<close>

interpretation growing: step_preorder "\<lambda>s s'. rules_grow (v s) (v s')"
  by unfold_locales (auto intro: rules_grow_trans)

lemma ensure_chain_grows:
  assumes law: "iptables_law runner v (binary fam)"
  shows "steps (\<lambda>s s'. rules_grow (v s) (v s')) (ensure_chain_exists runner fam KIDOBO_CHAIN_NAME)"
proof -
  let ?R = "\<lambda>s s'. rules_grow (v s) (v s')"
  have run: "steps ?R (fw_run runner (binary fam) (with_lock_wait args))"
    if "args \<in> {[lit ''-S''], [lit ''-S'', KIDOBO_CHAIN_NAME], [lit ''-N'', KIDOBO_CHAIN_NAME]}" for args
    unfolding steps_def
  proof
    fix s
    obtain r s' where r: "runner (binary fam) (with_lock_wait args) s = (r, s')" by fastforce
    have "kidobo_command args"
      using that managed_simps(1) unfolding kidobo_command_def by blast
    then have "v s' = v s \<or> fw_effect args (v s) = Some (v s')" using law r unfolding iptables_law_def by blast
    then have "rules_grow (v s) (v s')"
      using that by (auto simp: rules_grow_def effect_simps fw_effect_def split: if_splits option.splits)
    then show "\<exists>r s'. fw_run runner (binary fam) (with_lock_wait args) s = Some (r, s') \<and> ?R s s'"
      using r by (cases r) (simp_all add: fw_run_eq)
  qed
  have checked: "steps ?R (run_checked runner (binary fam) args)"
    if "args \<in> {[lit ''-S''], [lit ''-S'', KIDOBO_CHAIN_NAME], [lit ''-N'', KIDOBO_CHAIN_NAME]}" for args
    unfolding run_checked_def Let_def by (intro growing.steps_intros run that)
  show ?thesis
    unfolding ensure_chain_exists_def chain_exists_def Let_def
    by (intro growing.steps_intros run checked) simp_all
qed

lemma wiring_outcome:
  assumes "iptables_law runner v (binary fam)" "rules_ok (v s)" "v s INPUT \<noteq> None"
  shows "\<exists>r s'. ensure_firewall_wiring runner fam name action s = Some (r, s')
    \<and> (if isl r then enforcing (v s) \<longrightarrow> enforcing (v s') else v s' = wired name action (v s))"
proof -
  obtain i0 where i0: "v s INPUT = Some i0" using assms(3) by blast
  obtain r s' where r: "ensure_firewall_wiring runner fam name action s = Some (r, s')"
    "case r of Inl e \<Rightarrow> fw_fails v (v s) (wired_error i0 (v s KIDOBO_CHAIN_NAME)
        (v s KIDOBO_STAGING_CHAIN_NAME) (match_rule name action)) e s'
     | Inr u \<Rightarrow> holds v (v s) (\<lambda>i st sg. i = stable_jump # filter unmanaged_rule i0
        \<and> st = Some [match_rule name action] \<and> sg = None) s'"
    using returns_imp [OF wiring_returns [OF assms(1,2) i0], of s] by blast
  have "enforcing (v s')" if "enforcing (v s)" "isl r"
  proof -
    have "in_force i0 (v s KIDOBO_CHAIN_NAME) (v s KIDOBO_STAGING_CHAIN_NAME)" using that(1) i0 by (simp add: enforcing_def)
    then have "holds v (v s) in_force s'"
      using r(2) that(2) by (cases r) (auto elim!: holds_mono simp: wired_error_def)
    then show ?thesis by (auto simp: holds_def)
  qed
  moreover have "v s' = wired name action (v s)" if "\<not> isl r"
    using r(2) that i0 by (cases r) (auto simp: holds_def mk_def [of "v s" "stable_jump # _"] wired_def)
  ultimately show ?thesis using r(1) by auto
qed
text \<open>The names of a plan are words, and no temporary name of a set is a managed name.\<close>

definition plan_ok :: "('s, 'z) ipset_host_scheme \<Rightarrow> enforcement_plan \<Rightarrow> bool" where
  "plan_ok h plan \<longleftrightarrow>
     (let n4 = ms_set_name (plan_ipv4 plan); n6 = ms_set_name (plan_ipv6 plan)
      in n4 \<noteq> n6 \<and> spec_words_ok (to_ipset_spec (plan_ipv4 plan))
         \<and> n4 \<notin> temps h n4 \<and> n6 \<notin> temps h n4
         \<and> (plan_enable_ipv6 plan \<longrightarrow> spec_words_ok (to_ipset_spec (plan_ipv6 plan))
              \<and> n4 \<notin> temps h n6 \<and> n6 \<notin> temps h n6))"

definition set_replaced :: "rstr set \<Rightarrow> managed_set_spec \<Rightarrow> canonical_cidr list \<Rightarrow> bool \<Rightarrow> ksets \<Rightarrow> ksets \<Rightarrow> bool" where
  "set_replaced ts spec es success S S' \<longleftrightarrow>
     (S' (ms_set_name spec) = Some (new_set spec es) \<or> \<not> success \<and> S' (ms_set_name spec) = S (ms_set_name spec))
   \<and> (\<forall>n. n \<noteq> ms_set_name spec \<longrightarrow> n \<notin> ts \<longrightarrow> S' n = S n)"

text \<open>Both filter tables have readable rules and their INPUT chain.\<close>

definition ready :: "kernel_view \<Rightarrow> bool" where
  "ready K \<longleftrightarrow> rules_ok (k_rules4 K) \<and> rules_ok (k_rules6 K) \<and> k_rules4 K INPUT \<noteq> None \<and> k_rules6 K INPUT \<noteq> None"

context command_host
begin

lemma artifacts_inert: "steps (\<lambda>s s'. inert_kernel (view s) (view s')) (backend_ensure_artifacts h plan)"
proof -
  let ?I = "\<lambda>s s'. inert_kernel (view s) (view s')"
  have chain: "steps ?I (ensure_chain_exists (ih_run h) fam KIDOBO_CHAIN_NAME)"
    if A: "steps (\<lambda>s s'. rules_grow (f (view s)) (f (view s'))) (ensure_chain_exists (ih_run h) fam KIDOBO_CHAIN_NAME)"
      and B: "unchanged (\<lambda>s. (k_sets (view s), g (view s))) (ensure_chain_exists (ih_run h) fam KIDOBO_CHAIN_NAME)"
      and C: "f = k_rules4 \<and> g = k_rules6 \<or> f = k_rules6 \<and> g = k_rules4" for fam f g
    unfolding steps_def
  proof
    fix s
    obtain r s' where m: "ensure_chain_exists (ih_run h) fam KIDOBO_CHAIN_NAME s = Some (r, s')"
      "rules_grow (f (view s)) (f (view s'))" using stepsD [OF A, of s] by blast
    have "k_sets (view s') = k_sets (view s)" "g (view s') = g (view s)" using unchangedD [OF B m(1)] by simp_all
    with m C show "\<exists>r s'. ensure_chain_exists (ih_run h) fam KIDOBO_CHAIN_NAME s = Some (r, s') \<and> ?I s s'"
      by (auto simp: inert_kernel_def)
  qed
  have chain4: "steps ?I (ensure_chain_exists (ih_run h) FwIpv4 KIDOBO_CHAIN_NAME)"
    using chain [OF _ fw4.ensure_chain_unchanged, of k_rules4] ensure_chain_grows [OF laws(2)] by simp
  have chain6: "steps ?I (ensure_chain_exists (ih_run h) FwIpv6 KIDOBO_CHAIN_NAME)"
    using chain [OF _ fw6.ensure_chain_unchanged, of k_rules6] ensure_chain_grows [OF laws(3)] by simp
  show ?thesis
    unfolding backend_ensure_artifacts_def ensure_firewall_artifacts_for_families_def
    by (intro inert_steps.steps_intros ensure_set_inert chain4 chain6)
qed

lemma replace_set_outcome:
  assumes "spec_words_ok (to_ipset_spec spec)" "ms_set_name spec \<notin> temps h (ms_set_name spec)"
  shows "\<exists>r s'. backend_replace_set h spec es s = Some (r, s')
    \<and> set_replaced (temps h (ms_set_name spec)) spec es (\<not> isl r) (k_sets (view s)) (k_sets (view s'))
    \<and> k_rules4 (view s') = k_rules4 (view s) \<and> k_rules6 (view s') = k_rules6 (view s)"
proof -
  obtain r s' where run: "atomic_replace_ipset_values h show_cidr (to_ipset_spec spec) es s = (r, s')" by fastforce
  have "fst (generate_temp_set_name h (sp_set_name (to_ipset_spec spec)) s) \<noteq> sp_set_name (to_ipset_spec spec)"
    using assms(2) unfolding temps_def by (metis rangeI to_ipset_spec_sel(1))
  note sets = atomic_replace_sets [OF laws(1) assms(1) _ this run]
  have "set_replaced (temps h (ms_set_name spec)) spec es (\<not> isl r) (k_sets (view s)) (k_sets (view s'))"
    using sets word_ok_show_cidr by (cases r) (auto simp: set_replaced_def new_set_def temps_def)
  moreover have "k_rules4 (view s') = k_rules4 (view s) \<and> k_rules6 (view s') = k_rules6 (view s)"
    using sets.replace_keeps [of show_cidr "to_ipset_spec spec" es s] run by simp
  ultimately show ?thesis
    using run by (cases r) (auto simp: backend_replace_set_def d_map_err_def d_lift_def)
qed

lemma activate_outcome:
  assumes "ready (view s)"
  shows "\<exists>r s'. backend_activate h plan s = Some (r, s') \<and> k_sets (view s') = k_sets (view s)
    \<and> (if isl r then (enforcing (k_rules4 (view s)) \<longrightarrow> enforcing (k_rules4 (view s')))
          \<and> (enforcing (k_rules6 (view s)) \<longrightarrow> enforcing (k_rules6 (view s')))
       else k_rules4 (view s') = wired (ms_set_name (plan_ipv4 plan)) (to_chain_action (plan_chain_action plan)) (k_rules4 (view s))
          \<and> k_rules6 (view s') = (if plan_enable_ipv6 plan
              then wired (ms_set_name (plan_ipv6 plan)) (to_chain_action (plan_chain_action plan)) (k_rules6 (view s))
              else k_rules6 (view s)))"
proof -
  let ?a = "to_chain_action (plan_chain_action plan)"
  obtain r t where 4: "ensure_firewall_wiring (ih_run h) FwIpv4 (ms_set_name (plan_ipv4 plan)) ?a s = Some (r, t)"
    "if isl r then enforcing (k_rules4 (view s)) \<longrightarrow> enforcing (k_rules4 (view t))
     else k_rules4 (view t) = wired (ms_set_name (plan_ipv4 plan)) ?a (k_rules4 (view s))"
    using wiring_outcome [OF laws(2), of s "ms_set_name (plan_ipv4 plan)" ?a, unfolded comp_apply] assms
    by (auto simp: ready_def)
  have t: "k_sets (view t) = k_sets (view s)" "k_rules6 (view t) = k_rules6 (view s)"
    using unchangedD [OF fw4.wiring_unchanged 4(1)] by simp_all
  obtain r' u where 6: "ensure_firewall_wiring (ih_run h) FwIpv6 (ms_set_name (plan_ipv6 plan)) ?a t = Some (r', u)"
    "if isl r' then enforcing (k_rules6 (view t)) \<longrightarrow> enforcing (k_rules6 (view u))
     else k_rules6 (view u) = wired (ms_set_name (plan_ipv6 plan)) ?a (k_rules6 (view t))"
    using wiring_outcome [OF laws(3), of t "ms_set_name (plan_ipv6 plan)" ?a, unfolded comp_apply] assms t
    by (auto simp: ready_def)
  have u: "k_sets (view u) = k_sets (view t)" "k_rules4 (view u) = k_rules4 (view t)"
    using unchangedD [OF fw6.wiring_unchanged 6(1)] by simp_all
  show ?thesis
  proof (cases r)
    case (Inl e)
    then show ?thesis
      using 4 t by (simp add: backend_activate_def ensure_firewall_wiring_for_families_def d_map_err_def d_bind_def)
  next
    case (Inr x)
    then have w: "k_rules4 (view t) = wired (ms_set_name (plan_ipv4 plan)) ?a (k_rules4 (view s))"
      "enforcing (k_rules4 (view t))"
      using 4(2) by (simp_all add: wired_def enforcing_def in_force_def)
    show ?thesis
      using 4(1) Inr 6 t u w
      by (cases r') (simp_all add: backend_activate_def ensure_firewall_wiring_for_families_def d_map_err_def d_bind_def d_ok_def)
  qed
qed

lemma cleanup_outcome:
  "\<exists>ns s'. backend_cleanup_disabled_ipv6 h plan s = Some (ns, s') \<and> k_rules4 (view s') = k_rules4 (view s)
    \<and> (\<forall>n. n \<noteq> ms_set_name (plan_ipv6 plan) \<or> n = ms_set_name (plan_ipv4 plan) \<longrightarrow> k_sets (view s') n = k_sets (view s) n)"
  if "rules_ok (k_rules6 (view s))" "k_rules6 (view s) INPUT \<noteq> None"
proof -
  let ?n6 = "ms_set_name (plan_ipv6 plan)"
  have ok: "list_all rule_ok (the (k_rules6 (view s) INPUT))" using that by (auto simp: rules_ok_def)
  have "holds (k_rules6 \<circ> view) (k_rules6 (view s)) (\<lambda>i st sg. i = the (k_rules6 (view s) INPUT)) s"
    using that mk_self [of "k_rules6 (view s)"] unfolding holds_def comp_def by (metis option.exhaust_sel)
  then obtain r t where c: "cleanup_firewall_wiring (ih_run h) FwIpv6 s = Some (r, t)"
    using returns_imp [OF wiring_cleanup_returns [OF laws(3) ok]] by blast
  have t: "k_sets (view t) = k_sets (view s)" "k_rules4 (view t) = k_rules4 (view s)"
    using unchangedD [OF fw6.cleanup_unchanged c] by simp_all
  obtain r' u where d: "ih_run h (lit ''ipset'') [lit ''destroy'', ?n6] t = (r', u)" by fastforce
  have "ipset_command [lit ''destroy'', ?n6]" by (auto simp: ipset_command_def)
  from law_run(1) [OF laws(1) this d]
  have "n \<noteq> ?n6 \<Longrightarrow> k_sets (view u) n = k_sets (view t) n" for n
    by (auto simp: ipset_effect_simps split: option.splits dest!: sym [of _ "k_sets (view u)"])
  moreover have "k_rules4 (view u) = k_rules4 (view t)" using sets.run [of "[lit ''destroy'', ?n6]" t] d by simp
  ultimately show ?thesis
    using t c d by (auto simp: backend_cleanup_disabled_ipv6_def Let_def)
qed

end
section \<open>Enforcing a selection\<close>

text \<open>The addresses that the entries of a set match.\<close>

definition kset_addrs :: "kset \<Rightarrow> address set" where
  "kset_addrs k = {a. \<exists>c. canonical_ok c \<and> show_cidr c \<in> ks_entries k \<and> a \<in> canonical_addrs c}"

lemma show_cidr_inj:
  assumes "canonical_ok c" "canonical_ok e" "show_cidr c = show_cidr e"
  shows "c = e"
proof -
  have "Some c = parse_ip_cidr_token (show_cidr c)" using parse_show_cidr [OF assms(1)] by (rule sym)
  also have "\<dots> = Some e" unfolding assms(3) by (rule parse_show_cidr [OF assms(2)])
  finally show ?thesis by (rule option.inject [THEN iffD1])
qed

lemma shown_entries:
  assumes "\<forall>e \<in> set es. canonical_ok e"
  shows "(canonical_ok c \<and> show_cidr c \<in> show_cidr ` set es) = (c \<in> set es)"
proof
  assume "canonical_ok c \<and> show_cidr c \<in> show_cidr ` set es"
  then obtain e where e: "e \<in> set es" "show_cidr c = show_cidr e" "canonical_ok c" by (elim conjE imageE)
  show "c \<in> set es" using show_cidr_inj [OF e(3) bspec [OF assms e(1)] e(2)] e(1) by (rule ssubst)
next
  assume c: "c \<in> set es"
  show "canonical_ok c \<and> show_cidr c \<in> show_cidr ` set es"
    by (intro conjI imageI c bspec [OF assms c])
qed

lemma kset_addrs_new_set:
  assumes "canonicals_ok es"
  shows "kset_addrs (new_set spec es) = addrs_of es"
proof -
  have ok: "\<forall>e \<in> set es. canonical_ok e" using assms unfolding canonicals_ok_def .
  have "kset_addrs (new_set spec es)
      = {a. \<exists>c. (canonical_ok c \<and> show_cidr c \<in> show_cidr ` set es) \<and> a \<in> canonical_addrs c}"
    unfolding kset_addrs_def new_set_def spec_set_def kset.select_convs conj_assoc ..
  then show ?thesis unfolding shown_entries [OF ok] addrs_of_def by (simp only: UNION_eq Bex_def)
qed

definition blocks :: "ksets \<Rightarrow> rstr \<Rightarrow> address set \<Rightarrow> bool" where
  "blocks S n A \<longleftrightarrow> (\<exists>k. S n = Some k \<and> kset_addrs k = A)"

definition action_of :: "enforcement_plan \<Rightarrow> chain_action_kind" where
  "action_of plan = to_chain_action (plan_chain_action plan)"

text \<open>
  After a success: the set of each enabled family matches exactly the addresses of \<open>A\<close> of
  that family, and the wiring is exact. After a failure: each of these sets matches them or
  is as it was, and a family that was enforcing still is. In both cases no set but these
  and the temporary ones (and the set of a disabled IPv6) is touched.
\<close>

definition other_sets_kept :: "('s, 'z) ipset_host_scheme \<Rightarrow> enforcement_plan \<Rightarrow> ksets \<Rightarrow> ksets \<Rightarrow> bool" where
  "other_sets_kept h plan S S' \<longleftrightarrow> (\<forall>n. n \<noteq> ms_set_name (plan_ipv4 plan) \<longrightarrow> n \<noteq> ms_set_name (plan_ipv6 plan)
     \<longrightarrow> n \<notin> temps h (ms_set_name (plan_ipv4 plan)) \<longrightarrow> n \<notin> temps h (ms_set_name (plan_ipv6 plan)) \<longrightarrow> S' n = S n)"

definition enforced :: "('s, 'z) ipset_host_scheme \<Rightarrow> enforcement_plan \<Rightarrow> address set \<Rightarrow> kernel_view \<Rightarrow> kernel_view \<Rightarrow> bool" where
  "enforced h plan A K K' \<longleftrightarrow>
     blocks (k_sets K') (ms_set_name (plan_ipv4 plan)) (A \<inter> range Addr4)
   \<and> (plan_enable_ipv6 plan \<longrightarrow> blocks (k_sets K') (ms_set_name (plan_ipv6 plan)) (A \<inter> range Addr6))
   \<and> k_rules4 K' = wired (ms_set_name (plan_ipv4 plan)) (action_of plan) (k_rules4 K)
   \<and> (plan_enable_ipv6 plan \<longrightarrow> k_rules6 K' = wired (ms_set_name (plan_ipv6 plan)) (action_of plan) (k_rules6 K))
   \<and> other_sets_kept h plan (k_sets K) (k_sets K')"

definition enforced_or_kept :: "('s, 'z) ipset_host_scheme \<Rightarrow> enforcement_plan \<Rightarrow> address set \<Rightarrow> kernel_view \<Rightarrow> kernel_view \<Rightarrow> bool" where
  "enforced_or_kept h plan A K K' \<longleftrightarrow>
     (let n4 = ms_set_name (plan_ipv4 plan); n6 = ms_set_name (plan_ipv6 plan)
      in (k_sets K' n4 = k_sets K n4 \<or> blocks (k_sets K') n4 (A \<inter> range Addr4))
       \<and> (k_sets K' n6 = k_sets K n6 \<or> blocks (k_sets K') n6 (A \<inter> range Addr6))
       \<and> (enforcing (k_rules4 K) \<longrightarrow> enforcing (k_rules4 K'))
       \<and> (enforcing (k_rules6 K) \<longrightarrow> enforcing (k_rules6 K'))
       \<and> other_sets_kept h plan (k_sets K) (k_sets K'))"

locale enforcing_sync = command_host h view files + quiet_ports d view loads
  for h :: "('s, 'y) ipset_host_scheme" and view :: "'s \<Rightarrow> kernel_view" and files
    and d :: "('s, 'z) sync_dependencies_scheme" and loads +
  assumes backend: "uses_backend d h"
    and events: "view (dep_event d e s) = view s"
begin

lemma observe_returns:
  "returns (\<lambda>s. P (view s)) (start_stage d st) (\<lambda>_ s. P (view s)) E"
  "returns (\<lambda>s. P (view s)) (complete_stage d st) (\<lambda>_ s. P (view s)) E"
  "returns (\<lambda>s. P (view s)) (send_event d e) (\<lambda>_ s. P (view s)) E"
  "returns (\<lambda>s. P (view s)) (d_upd (iter_upd (dep_notice d) ns)) (\<lambda>_ s. P (view s)) E"
proof -
  have "view (dep_stage_completed d m s) = view s" "view (dep_notice d n s) = view s" for m n s
    using ports sources by (simp_all add: ports_law_def sources_law_def)
  moreover from this(2) have "view (iter_upd (dep_notice d) ns s) = view s" for s
    by (induction ns arbitrary: s) simp_all
  ultimately show "returns (\<lambda>s. P (view s)) (start_stage d st) (\<lambda>_ s. P (view s)) E"
    "returns (\<lambda>s. P (view s)) (complete_stage d st) (\<lambda>_ s. P (view s)) E"
    "returns (\<lambda>s. P (view s)) (send_event d e) (\<lambda>_ s. P (view s)) E"
    "returns (\<lambda>s. P (view s)) (d_upd (iter_upd (dep_notice d) ns)) (\<lambda>_ s. P (view s)) E"
    using events unfolding start_stage_def complete_stage_def send_event_def
    by (simp_all add: returns_upd)
qed

lemma replace_returns:
  assumes spec: "spec_words_ok (to_ipset_spec spec)" "ms_set_name spec \<notin> temps h (ms_set_name spec)"
    and Q: "\<And>K S. P K \<Longrightarrow> set_replaced (temps h (ms_set_name spec)) spec es True (k_sets K) S \<Longrightarrow> Q (K\<lparr>k_sets := S\<rparr>)"
    and E: "\<And>K S. P K \<Longrightarrow> set_replaced (temps h (ms_set_name spec)) spec es False (k_sets K) S \<Longrightarrow> E (K\<lparr>k_sets := S\<rparr>)"
  shows "returns (\<lambda>s. P (view s)) (dep_replace_set d spec es) (\<lambda>_ s. Q (view s)) (\<lambda>_ s. E (view s))"
proof (rule returnsI)
  fix s assume P: "P (view s)"
  obtain r s' where run: "backend_replace_set h spec es s = Some (r, s')"
    "set_replaced (temps h (ms_set_name spec)) spec es (\<not> isl r) (k_sets (view s)) (k_sets (view s'))"
    "k_rules4 (view s') = k_rules4 (view s)" "k_rules6 (view s') = k_rules6 (view s)"
    using replace_set_outcome [OF spec] by blast
  have eq: "(view s)\<lparr>k_sets := k_sets (view s')\<rparr> = view s'" using run(3,4) by (simp add: kernel_view.equality)
  have "case r of Inl e \<Rightarrow> E (view s') | Inr u \<Rightarrow> Q (view s')"
    using Q [OF P, of "k_sets (view s')"] E [OF P, of "k_sets (view s')"] run(2) unfolding eq
    by (cases r) simp_all
  then show "\<exists>r s'. dep_replace_set d spec es s = Some (r, s') \<and> (case r of Inl e \<Rightarrow> E (view s') | Inr u \<Rightarrow> Q (view s'))"
    using run(1) backend by (auto simp: uses_backend_def)
qed

end
text \<open>The states of the kernel between the steps, from \<open>K\<close>: which sets are replaced so far.\<close>

definition replaced_so_far ::
    "('s, 'z) ipset_host_scheme \<Rightarrow> enforcement_plan \<Rightarrow> address set \<Rightarrow> kernel_view \<Rightarrow> bool \<Rightarrow> bool \<Rightarrow> ksets \<Rightarrow> bool" where
  "replaced_so_far h plan A K b6 b4 S \<longleftrightarrow>
     (let n4 = ms_set_name (plan_ipv4 plan); n6 = ms_set_name (plan_ipv6 plan)
      in (if b4 then blocks S n4 (A \<inter> range Addr4) else S n4 = k_sets K n4)
       \<and> (if b6 then blocks S n6 (A \<inter> range Addr6) else S n6 = k_sets K n6)
       \<and> other_sets_kept h plan (k_sets K) S)"

lemma replaced_kept:
  "replaced_so_far h plan A K b6 b4 (k_sets K') \<Longrightarrow> enforcing (k_rules4 K) \<longrightarrow> enforcing (k_rules4 K')
     \<Longrightarrow> enforcing (k_rules6 K) \<longrightarrow> enforcing (k_rules6 K') \<Longrightarrow> enforced_or_kept h plan A K K'"
  by (auto simp: replaced_so_far_def enforced_or_kept_def Let_def split: if_splits)

lemma other_sets_trans:
  "other_sets_kept h plan S S' \<Longrightarrow> other_sets_kept h plan S' S'' \<Longrightarrow> other_sets_kept h plan S S''"
  by (simp add: other_sets_kept_def)

lemma blocks_new_set:
  "canonicals_ok es \<Longrightarrow> addrs_of es = A \<Longrightarrow> S n = Some (new_set spec es) \<Longrightarrow> blocks S n A"
  by (simp add: blocks_def kset_addrs_new_set)

lemma replaced_v4:
  assumes "plan_ok h plan" "replaced_so_far h plan A K b6 False S" "canonicals_ok es" "addrs_of es = A \<inter> range Addr4"
    "set_replaced (temps h (ms_set_name (plan_ipv4 plan))) (plan_ipv4 plan) es success S S'"
  shows "replaced_so_far h plan A K b6 True S' \<or> \<not> success \<and> replaced_so_far h plan A K b6 False S'"
proof -
  let ?n4 = "ms_set_name (plan_ipv4 plan)" and ?n6 = "ms_set_name (plan_ipv6 plan)"
  have n6: "S' ?n6 = S ?n6" using assms(1,5) unfolding plan_ok_def set_replaced_def Let_def by metis
  have "other_sets_kept h plan S S'" using assms(5) by (simp add: other_sets_kept_def set_replaced_def)
  moreover have r: "other_sets_kept h plan (k_sets K) S" "S ?n4 = k_sets K ?n4"
    "if b6 then blocks S ?n6 (A \<inter> range Addr6) else S ?n6 = k_sets K ?n6"
    using assms(2) by (simp_all add: replaced_so_far_def Let_def)
  ultimately have other: "other_sets_kept h plan (k_sets K) S'" using other_sets_trans by blast
  have six: "if b6 then blocks S' ?n6 (A \<inter> range Addr6) else S' ?n6 = k_sets K ?n6"
    using r(3) n6 by (simp add: blocks_def split: if_splits)
  have "S' ?n4 = Some (new_set (plan_ipv4 plan) es) \<or> \<not> success \<and> S' ?n4 = S ?n4"
    using assms(5) by (simp add: set_replaced_def)
  then show ?thesis
    using blocks_new_set [OF assms(3,4), of S' ?n4] other six r(2)
    by (elim disjE) (simp_all add: replaced_so_far_def Let_def)
qed

lemma replaced_v6:
  assumes "plan_ok h plan" "plan_enable_ipv6 plan" "canonicals_ok es" "addrs_of es = A \<inter> range Addr6"
    "set_replaced (temps h (ms_set_name (plan_ipv6 plan))) (plan_ipv6 plan) es success (k_sets K) S'"
  shows "replaced_so_far h plan A K True False S' \<or> \<not> success \<and> replaced_so_far h plan A K False False S'"
proof -
  let ?n4 = "ms_set_name (plan_ipv4 plan)" and ?n6 = "ms_set_name (plan_ipv6 plan)"
  have n4: "S' ?n4 = k_sets K ?n4" using assms(1,2,5) unfolding plan_ok_def set_replaced_def Let_def by metis
  have other: "other_sets_kept h plan (k_sets K) S'" using assms(5) by (simp add: other_sets_kept_def set_replaced_def)
  have "S' ?n6 = Some (new_set (plan_ipv6 plan) es) \<or> \<not> success \<and> S' ?n6 = k_sets K ?n6"
    using assms(5) by (simp add: set_replaced_def)
  then show ?thesis
    using blocks_new_set [OF assms(3,4), of S' ?n6] other n4
    by (elim disjE) (simp_all add: replaced_so_far_def Let_def)
qed

context enforcing_sync
begin

lemma activate_returns:
  assumes "plan_ok h plan" "ready K"
    and P: "\<And>K'. P K' \<Longrightarrow> replaced_so_far h plan A K b6 True (k_sets K') \<and> k_rules4 K' = k_rules4 K \<and> k_rules6 K' = k_rules6 K"
  shows "returns (\<lambda>s. P (view s)) (dep_activate d plan)
    (\<lambda>_ s. replaced_so_far h plan A K b6 True (k_sets (view s))
      \<and> k_rules4 (view s) = wired (ms_set_name (plan_ipv4 plan)) (action_of plan) (k_rules4 K)
      \<and> (plan_enable_ipv6 plan \<longrightarrow> k_rules6 (view s) = wired (ms_set_name (plan_ipv6 plan)) (action_of plan) (k_rules6 K))
      \<and> (\<not> plan_enable_ipv6 plan \<longrightarrow> k_rules6 (view s) = k_rules6 K))
    (\<lambda>_ s. enforced_or_kept h plan A K (view s))"
proof (rule returnsI)
  fix s assume "P (view s)"
  note p = P [OF this]
  have "ready (view s)" using assms(2) p by (simp add: ready_def)
  from activate_outcome [OF this, of plan] obtain r s' where run: "backend_activate h plan s = Some (r, s')"
    "k_sets (view s') = k_sets (view s)"
    "if isl r then (enforcing (k_rules4 (view s)) \<longrightarrow> enforcing (k_rules4 (view s')))
          \<and> (enforcing (k_rules6 (view s)) \<longrightarrow> enforcing (k_rules6 (view s')))
       else k_rules4 (view s') = wired (ms_set_name (plan_ipv4 plan)) (action_of plan) (k_rules4 (view s))
          \<and> k_rules6 (view s') = (if plan_enable_ipv6 plan
              then wired (ms_set_name (plan_ipv6 plan)) (action_of plan) (k_rules6 (view s))
              else k_rules6 (view s))"
    unfolding action_of_def by blast
  have b: "dep_activate d plan s = Some (r, s')" using run(1) backend by (simp add: uses_backend_def)
  show "\<exists>r s'. dep_activate d plan s = Some (r, s') \<and> (case r of Inl e \<Rightarrow> enforced_or_kept h plan A K (view s')
    | Inr u \<Rightarrow> replaced_so_far h plan A K b6 True (k_sets (view s'))
      \<and> k_rules4 (view s') = wired (ms_set_name (plan_ipv4 plan)) (action_of plan) (k_rules4 K)
      \<and> (plan_enable_ipv6 plan \<longrightarrow> k_rules6 (view s') = wired (ms_set_name (plan_ipv6 plan)) (action_of plan) (k_rules6 K))
      \<and> (\<not> plan_enable_ipv6 plan \<longrightarrow> k_rules6 (view s') = k_rules6 K))"
    using b run(2,3) p replaced_kept [of h plan A K b6 True "view s'"] by (cases r) auto
qed

lemma cleanup_returns:
  assumes ok: "\<And>K. P K \<Longrightarrow> rules_ok (k_rules6 K) \<and> k_rules6 K INPUT \<noteq> None"
    and Q: "\<And>K K'. P K \<Longrightarrow> k_rules4 K' = k_rules4 K
      \<Longrightarrow> (\<And>n. n \<noteq> ms_set_name (plan_ipv6 plan) \<Longrightarrow> k_sets K' n = k_sets K n) \<Longrightarrow> Q K'"
  shows "returns (\<lambda>s. P (view s)) (d_total (dep_cleanup_disabled_ipv6 d plan)) (\<lambda>_ s. Q (view s)) E"
proof (rule returnsI)
  fix s assume P: "P (view s)"
  obtain ns s' where run: "backend_cleanup_disabled_ipv6 h plan s = Some (ns, s')" "k_rules4 (view s') = k_rules4 (view s)"
    "\<forall>n. n \<noteq> ms_set_name (plan_ipv6 plan) \<or> n = ms_set_name (plan_ipv4 plan) \<longrightarrow> k_sets (view s') n = k_sets (view s) n"
    using cleanup_outcome [of s plan] ok [OF P] by blast
  then have "Q (view s')" using Q [OF P] by blast
  then show "\<exists>r s'. d_total (dep_cleanup_disabled_ipv6 d plan) s = Some (r, s') \<and> (case r of Inl e \<Rightarrow> E e s' | Inr ns \<Rightarrow> Q (view s'))"
    using run(1) backend by (simp add: d_total_def uses_backend_def)
qed

end
context enforcing_sync
begin

lemma apply_enforcement_returns:
  assumes plan: "plan_ok h plan" and K: "ready K"
    and es4: "canonicals_ok es4" "addrs_of es4 = A \<inter> range Addr4"
    and es6: "canonicals_ok es6" "addrs_of es6 = A \<inter> range Addr6"
  shows "returns (\<lambda>s. view s = K) (apply_enforcement d plan es4 es6)
    (\<lambda>_ s. enforced h plan A K (view s)) (\<lambda>_ s. enforced_or_kept h plan A K (view s))"
proof -
  let ?b = "plan_enable_ipv6 plan"
  let ?n4 = "ms_set_name (plan_ipv4 plan)" and ?n6 = "ms_set_name (plan_ipv6 plan)"
  let ?P = "\<lambda>b4 K'. replaced_so_far h plan A K ?b b4 (k_sets K') \<and> k_rules4 K' = k_rules4 K \<and> k_rules6 K' = k_rules6 K"
  let ?W = "\<lambda>K'. replaced_so_far h plan A K ?b True (k_sets K')
      \<and> k_rules4 K' = wired ?n4 (action_of plan) (k_rules4 K)
      \<and> (?b \<longrightarrow> k_rules6 K' = wired ?n6 (action_of plan) (k_rules6 K)) \<and> (\<not> ?b \<longrightarrow> k_rules6 K' = k_rules6 K)"
  let ?D = "enforced h plan A K" and ?E = "\<lambda>_ s. enforced_or_kept h plan A K (view s)"
  have words: "spec_words_ok (to_ipset_spec (plan_ipv4 plan))" "?n4 \<notin> temps h ?n4"
    "?b \<Longrightarrow> spec_words_ok (to_ipset_spec (plan_ipv6 plan))" "?b \<Longrightarrow> ?n6 \<notin> temps h ?n6" "?n4 \<noteq> ?n6"
    using plan by (simp_all add: plan_ok_def Let_def)
  have start: "replaced_so_far h plan A K False False (k_sets K)"
    by (simp add: replaced_so_far_def Let_def other_sets_kept_def)
  have r6: "returns (\<lambda>s. view s = K) (dep_replace_set d (plan_ipv6 plan) es6) (\<lambda>_ s. ?P False (view s)) ?E" if b: ?b
  proof (rule replace_returns [OF words(3,4), OF b b])
    fix K' :: kernel_view and S assume K': "K' = K"
    show "?P False (K'\<lparr>k_sets := S\<rparr>)"
      if "set_replaced (temps h ?n6) (plan_ipv6 plan) es6 True (k_sets K') S"
      using replaced_v6 [OF plan b es6, of True K S] that K' b by simp
    show "enforced_or_kept h plan A K (K'\<lparr>k_sets := S\<rparr>)"
      if "set_replaced (temps h ?n6) (plan_ipv6 plan) es6 False (k_sets K') S"
      using replaced_v6 [OF plan b es6, of False K S] that K' replaced_kept [of h plan A K _ _ "K\<lparr>k_sets := S\<rparr>"] by auto
  qed
  have v6: "returns (\<lambda>s. view s = K) (if ?b then
         d_bind (start_stage d ApplyIpv6) (\<lambda>_.
         d_bind (dep_replace_set d (plan_ipv6 plan) es6) (\<lambda>_.
         d_bind (send_event d (FamilyReplaced Ipv6)) (\<lambda>_.
         complete_stage d ApplyIpv6)))
       else d_ok ()) (\<lambda>_ s. ?P False (view s)) ?E"
  proof (rule returns_if)
    show "returns (\<lambda>s. view s = K) (d_bind (start_stage d ApplyIpv6) (\<lambda>_.
         d_bind (dep_replace_set d (plan_ipv6 plan) es6) (\<lambda>_.
         d_bind (send_event d (FamilyReplaced Ipv6)) (\<lambda>_. complete_stage d ApplyIpv6)))) (\<lambda>_ s. ?P False (view s)) ?E" if ?b
      by (rule returns_bind [OF observe_returns(1) [of "\<lambda>K'. K' = K"]] returns_bind [OF r6 [OF that]]
          returns_bind [OF observe_returns(3) [of "?P False"]] observe_returns(2) [of "?P False"])+
    show "returns (\<lambda>s. view s = K) (d_ok ()) (\<lambda>_ s. ?P False (view s)) ?E" if "\<not> ?b"
      by (rule returns_ok) (use start that in simp)
  qed
  have r4: "returns (\<lambda>s. ?P False (view s)) (dep_replace_set d (plan_ipv4 plan) es4) (\<lambda>_ s. ?P True (view s)) ?E"
  proof (rule replace_returns [OF words(1,2)])
    fix K' :: kernel_view and S assume K': "?P False K'"
    show "?P True (K'\<lparr>k_sets := S\<rparr>)"
      if "set_replaced (temps h ?n4) (plan_ipv4 plan) es4 True (k_sets K') S"
      using replaced_v4 [OF plan conjunct1 [OF K'] es4 that] K' by simp
    show "enforced_or_kept h plan A K (K'\<lparr>k_sets := S\<rparr>)"
      if "set_replaced (temps h ?n4) (plan_ipv4 plan) es4 False (k_sets K') S"
      using replaced_v4 [OF plan conjunct1 [OF K'] es4 that] K' replaced_kept [of h plan A K _ _ "K'\<lparr>k_sets := S\<rparr>"] by auto
  qed
  have act: "returns (\<lambda>s. ?P True (view s)) (dep_activate d plan) (\<lambda>_ s. ?W (view s)) ?E"
    by (rule activate_returns [OF plan K]) simp
  have finish: "?D K'" if "?W K''" "k_rules4 K' = k_rules4 K''" "?b \<longrightarrow> k_rules6 K' = k_rules6 K''"
    "\<And>n. n \<noteq> ?n6 \<or> ?b \<Longrightarrow> k_sets K' n = k_sets K'' n" for K' K'' :: kernel_view
    using that words(5) by (auto simp: enforced_def replaced_so_far_def Let_def blocks_def other_sets_kept_def)
  have cleanup: "returns (\<lambda>s. ?W (view s)) (if \<not> ?b then
         d_bind (send_event d DisabledIpv6CleanupStarted) (\<lambda>_.
         d_bind (d_total (dep_cleanup_disabled_ipv6 d plan)) (\<lambda>notices.
         d_bind (d_upd (iter_upd (dep_notice d) notices)) (\<lambda>_.
         send_event d DisabledIpv6CleanupCompleted)))
       else d_ok ()) (\<lambda>_ s. ?D (view s)) ?E"
  proof (rule returns_if)
    assume b: "\<not> ?b"
    have c: "returns (\<lambda>s. ?W (view s)) (d_total (dep_cleanup_disabled_ipv6 d plan)) (\<lambda>_ s. ?D (view s)) ?E"
    proof (rule cleanup_returns)
      show "rules_ok (k_rules6 K') \<and> k_rules6 K' INPUT \<noteq> None" if "?W K'" for K' :: kernel_view
        using that b K by (simp add: ready_def)
      show "?D K'" if "?W K''" "k_rules4 K' = k_rules4 K''" "\<And>n. n \<noteq> ?n6 \<Longrightarrow> k_sets K' n = k_sets K'' n" for K' K'' :: kernel_view
        using finish [OF that(1,2)] that(3) b by blast
    qed
    show "returns (\<lambda>s. ?W (view s)) (d_bind (send_event d DisabledIpv6CleanupStarted) (\<lambda>_.
         d_bind (d_total (dep_cleanup_disabled_ipv6 d plan)) (\<lambda>notices.
         d_bind (d_upd (iter_upd (dep_notice d) notices)) (\<lambda>_.
         send_event d DisabledIpv6CleanupCompleted)))) (\<lambda>_ s. ?D (view s)) ?E"
      by (rule returns_bind [OF observe_returns(3) [of ?W]] returns_bind [OF c]
          returns_bind [OF observe_returns(4) [of ?D]] observe_returns(3) [of ?D])+
  next
    show "returns (\<lambda>s. ?W (view s)) (d_ok ()) (\<lambda>_ s. ?D (view s)) ?E" if "\<not> \<not> ?b"
      by (rule returns_ok, rule finish) (use that in auto)
  qed
  show ?thesis
    unfolding apply_enforcement_def
    by (rule returns_bind [OF observe_returns(3) [of "\<lambda>K'. K' = K"]] returns_bind [OF v6]
        returns_bind [OF observe_returns(1) [of "?P False"]] returns_bind [OF r4]
        returns_bind [OF observe_returns(3) [of "?P True"]] returns_bind [OF observe_returns(2) [of "?P True"]]
        returns_bind [OF observe_returns(1) [of "?P True"]] returns_bind [OF act]
        returns_bind [OF observe_returns(3) [of ?W]] returns_bind [OF cleanup] observe_returns(2) [of ?D])+
qed

end

end
