(* ===== verification/Sync_System.thy ===== *)
theory Sync_System
  imports Enforcement
begin

text \<open>
  A whole synchronization with the production backend: what the workflow of \<open>Sync_App\<close> does to
  the kernel when its enforcement port is the one of \<open>Enforcement\<close>, from the documented
  behaviour of the tools alone; and a host in memory on which all contracts hold.
\<close>

section \<open>A whole synchronization\<close>

text \<open>The names of a validated configuration are words; the temporary names of a set are apart
  from the managed names (they end in eight hexadecimal digits of a digest).\<close>

definition config_fits :: "('s, 'z) ipset_host_scheme \<Rightarrow> config \<Rightarrow> bool" where
  "config_fits h c \<longleftrightarrow> ipset_ok (cfg_ipset c)
     \<and> (let n4 = set_name (cfg_ipset c); n6 = set_name_v6 (cfg_ipset c)
        in n4 \<notin> temps h n4 \<and> n6 \<notin> temps h n4 \<and> n4 \<notin> temps h n6 \<and> n6 \<notin> temps h n6)"

lemma name_ok_word: "name_ok n \<Longrightarrow> word_ok n"
  by (auto simp: name_ok_def word_ok_def list_all_iff is_ascii_alphanumeric_def is_ascii_digit_def is_whitespace_def)

lemma set_type_word: "trimmed_ok t \<Longrightarrow> validate_ipset_set_type t = Inr () \<Longrightarrow> word_ok t"
  by (auto simp: validate_ipset_set_type_def trimmed_ok_def word_ok_def list_all_iff list_ex_iff
      is_ascii_alphanumeric_def is_ascii_digit_def is_whitespace_def split: if_splits)

lemma config_plan_ok:
  assumes "config_fits h c"
  shows "plan_ok h (EnforcementPlan_from_config c)"
proof -
  have "word_ok (set_name (cfg_ipset c))" "enable_ipv6 (cfg_ipset c) \<Longrightarrow> word_ok (set_name_v6 (cfg_ipset c))"
    "word_ok (set_type (cfg_ipset c))" "set_name (cfg_ipset c) \<noteq> set_name_v6 (cfg_ipset c)"
    using assms name_ok_word set_type_word unfolding config_fits_def ipset_ok_def by metis+
  then show ?thesis
    using assms by (simp add: plan_ok_def EnforcementPlan_from_config_def config_fits_def Let_def spec_words_ok_def)
qed

text \<open>
  The addresses \<open>A\<close> that the sources select: those of the enabled families that a loaded
  candidate source has and the admitted safelist does not, which has the networks of every
  loaded operator safelist and otherwise only networks of external safelist sources.
\<close>

definition sources_select ::
    "('s source_provider \<Rightarrow> 's source_load) \<Rightarrow> 's source_provider list \<Rightarrow> bool \<Rightarrow> source_summary list \<Rightarrow> address set \<Rightarrow> bool" where
  "sources_select loads ps v6 sms A \<longleftrightarrow> list_all2 summary_of ps sms
     \<and> (\<exists>safelist. set (loaded_batches Safelist loads ps sms) \<subseteq> set safelist
          \<and> set safelist \<subseteq> set (loaded_batches Safelist loads ps sms @ external_batches loads ps)
          \<and> A = {a \<in> addrs_of (loaded_batches Candidate loads ps sms) - addrs_of safelist. family_enabled v6 a})"

text \<open>The context of the sources: the paths, the time, the configuration and the temporary bans
  are what the ports answered for this request.\<close>

definition answers :: "('s, 'e, 'a) dact \<Rightarrow> 'a \<Rightarrow> bool" where
  "answers m x \<longleftrightarrow> (\<exists>t t'. m t = Some (Inr x, t'))"

definition read_context :: "('s, 'z) sync_dependencies_scheme \<Rightarrow> path_resolution_input \<Rightarrow> source_context \<Rightarrow> bool" where
  "read_context d request ctx \<longleftrightarrow> answers (port_resolve d request ConfigRequired) (ctx_paths ctx)
     \<and> answers (port_now d) (ctx_cutoff ctx)
     \<and> answers (port_load_config d (config_file (ctx_paths ctx))) (ctx_config ctx)
     \<and> answers (port_load_bans d (temporary_bans_file (ctx_paths ctx))) (ctx_temporary_bans ctx)
     \<and> ctx_env ctx = env_vars request"

lemma read_contextI:
  "answers (port_resolve d request ConfigRequired) paths \<Longrightarrow> answers (port_now d) cutoff
     \<Longrightarrow> answers (port_load_config d (config_file paths)) cfg
     \<Longrightarrow> answers (port_load_bans d (temporary_bans_file paths)) bans
     \<Longrightarrow> read_context d request \<lparr>ctx_paths = paths, ctx_config = cfg, ctx_env = env_vars request,
         ctx_temporary_bans = bans, ctx_cutoff = cutoff\<rparr>"
  by (simp add: read_context_def)

definition sync_effect ::
    "('s, 'y) ipset_host_scheme \<Rightarrow> ('s, 'z) sync_dependencies_scheme \<Rightarrow> path_resolution_input \<Rightarrow> ('s source_provider \<Rightarrow> source_context \<Rightarrow> 's source_load)
     \<Rightarrow> kernel_view \<Rightarrow> app_error + sync_outcome \<Rightarrow> kernel_view \<Rightarrow> bool" where
  "sync_effect h d request loads K r K' \<longleftrightarrow>
     (isl r \<and> inert_kernel K K')
   \<or> (\<exists>ctx sms A K1. let plan = EnforcementPlan_from_config (ctx_config ctx) in
        read_context d request ctx \<and> config_fits h (ctx_config ctx) \<and> inert_kernel K K1
      \<and> sources_select (\<lambda>p. loads p ctx) (reg_providers (dep_sources d)) (plan_enable_ipv6 plan) sms A
      \<and> (case r of Inl e \<Rightarrow> enforced_or_kept h plan A K1 K'
         | Inr out \<Rightarrow> out_sources out = sms \<and> enforced h plan A K1 K'))"

lemma returns_finally:
  assumes "returns P m Q E" "\<And>x s. Q x s \<Longrightarrow> Q x (f s)" "\<And>e s. E e s \<Longrightarrow> E e (f s)"
  shows "returns P (d_finally f m) Q E"
proof (rule returnsI)
  fix s assume "P s"
  then obtain r s' where "m s = Some (r, s')" "case r of Inl e \<Rightarrow> E e s' | Inr x \<Rightarrow> Q x s'"
    using returns_imp [OF assms(1)] by blast
  then show "\<exists>r s'. d_finally f m s = Some (r, s') \<and> (case r of Inl e \<Rightarrow> E e s' | Inr x \<Rightarrow> Q x s')"
    using assms(2,3) by (cases r) (simp_all add: d_finally_def)
qed

lemma selected_enforceable:
  assumes "selected loads ps plan (e, p, sms)" "loads_ok loads ps"
  shows "sources_select loads ps (plan_enable_ipv6 plan) sms (effective_addrs e)"
    "canonicals_ok (pe_ipv4 p)" "addrs_of (pe_ipv4 p) = effective_addrs e \<inter> range Addr4"
    "canonicals_ok (pe_ipv6 p)" "addrs_of (pe_ipv6 p) = effective_addrs e \<inter> range Addr6"
proof -
  let ?c = "sort_dedup (loaded_batches Candidate loads ps sms)"
  obtain safelist where s: "canonicals_ok safelist" "set (loaded_batches Safelist loads ps sms) \<subseteq> set safelist"
      "set safelist \<subseteq> set (loaded_batches Safelist loads ps sms @ external_batches loads ps)"
      "e = compute_effective_blocklists ?c safelist (plan_enable_ipv6 plan)"
    and p: "prepare_sync_entries e plan = Inr p" "list_all2 summary_of ps sms"
    using assms(1) unfolding selected_def prod.case by blast
  have c: "canonicals_ok ?c" using loaded_batches_ok [OF assms(2)] by simp
  note E = effective_collapsed [OF c s(1), of "plan_enable_ipv6 plan", folded s(4)]
  have ok: "cidrs_ok (eb_ipv4 e)" "cidrs_ok (eb_ipv6 e)" using E(1,2) collapsed_ok by blast+
  show "sources_select loads ps (plan_enable_ipv6 plan) sms (effective_addrs e)"
    using s(2,3) p(2) E(3) unfolding sources_select_def by auto
  have pe: "pe_ipv4 p = prepare_enforcement_entries (map V4 (eb_ipv4 e))"
    "pe_ipv6 p = prepare_enforcement_entries (map V6 (eb_ipv6 e))"
    using p(1) by (auto simp: prepare_sync_entries_def Let_def and_then_Inr_iff)
  show "canonicals_ok (pe_ipv4 p)" "canonicals_ok (pe_ipv6 p)"
    using ok prepare_enforcement_entries_exact(2) by (simp_all add: pe)
  show "addrs_of (pe_ipv4 p) = effective_addrs e \<inter> range Addr4" "addrs_of (pe_ipv6 p) = effective_addrs e \<inter> range Addr6"
    using prepare_sync_entries_Inr(1,2) [OF ok p(1)] by (auto simp: effective_addrs_def)
qed

context enforcing_sync
begin

lemma quiet_returns: "steps (keeps view) m \<Longrightarrow> (\<And>s e. P (view s) \<Longrightarrow> E e (view s)) \<Longrightarrow>
    returns (\<lambda>s. P (view s)) m (\<lambda>_ s. P (view s)) (\<lambda>e s. E e (view s))"
  unfolding steps_def keeps_def returns_def by (metis (mono_tags, lifting) old.sum.exhaust sum.case)

lemma view_ports:
  "steps (keeps view) (port_resolve d r q)" "steps (keeps view) (port_load_config d f)"
  "steps (keeps view) (port_acquire d f)" "steps (keeps view) (port_now d)" "steps (keeps view) (port_load_bans d f)"
  "steps (keeps view) (port_save_bans d f b)" "steps (keeps view) (dep_prepare_remote_cache d f)"
  "view (port_release d s) = view s"
  using ports by (simp_all add: ports_law_def)

lemma enforce_and_prune_returns:
  assumes config: "config_fits h (ctx_config ctx)" and ctx: "read_context d request ctx" and plan: "plan = EnforcementPlan_from_config (ctx_config ctx)"
    and K: "ready K" "inert_kernel K K1"
    and sel: "selected (\<lambda>p. loads p ctx) (reg_providers (dep_sources d)) plan (e, p, sms)"
    and loads: "loads_ok (\<lambda>p. loads p ctx) (reg_providers (dep_sources d))"
    and out: "\<And>out. out_sources (f out) = sms" and m: "\<And>s. \<exists>s'. m s = Some (Inr (), s') \<and> view s' = view s"
  shows "returns (\<lambda>s. view s = K1) (d_bind (apply_enforcement d plan (pe_ipv4 p) (pe_ipv6 p)) (\<lambda>_.
      d_bind m (\<lambda>_. d_ok (f out)))) (\<lambda>out s. sync_effect h d request loads K (Inr out) (view s))
      (\<lambda>e s. sync_effect h d request loads K (Inl e) (view s))"
proof -
  note S = selected_enforceable [OF sel loads]
  have K1: "ready K1"
    using K rules_grow_ok [of "k_rules4 K" "k_rules4 K1"] rules_grow_ok [of "k_rules6 K" "k_rules6 K1"]
    by (simp add: ready_def inert_kernel_def)
  note apply_enforcement = apply_enforcement_returns [OF config_plan_ok [OF config, folded plan] K1 S(2-5)]
  have err: "sync_effect h d request loads K (Inl er) K'"
    if "enforced_or_kept h plan (effective_addrs e) K1 K'" for er K'
    unfolding sync_effect_def Let_def using config ctx K(2) S(1) that plan by auto
  have ok: "sync_effect h d request loads K (Inr (f out)) K'"
    if "enforced h plan (effective_addrs e) K1 K'" for K'
    unfolding sync_effect_def Let_def using config ctx K(2) S(1) that plan out by auto
  show ?thesis
  proof (rule returns_bind)
    show "returns (\<lambda>s. view s = K1) (apply_enforcement d plan (pe_ipv4 p) (pe_ipv6 p))
        (\<lambda>_ s. enforced h plan (effective_addrs e) K1 (view s)) (\<lambda>e s. sync_effect h d request loads K (Inl e) (view s))"
      by (rule returns_weaken [OF apply_enforcement]) (auto intro: err)
    show "returns (\<lambda>s. enforced h plan (effective_addrs e) K1 (view s)) (d_bind m (\<lambda>_. d_ok (f out)))
        (\<lambda>out s. sync_effect h d request loads K (Inr out) (view s)) (\<lambda>e s. sync_effect h d request loads K (Inl e) (view s))"
    proof (rule returns_bind)
      show "returns (\<lambda>s. enforced h plan (effective_addrs e) K1 (view s)) m
          (\<lambda>_ s. enforced h plan (effective_addrs e) K1 (view s)) (\<lambda>e s. sync_effect h d request loads K (Inl e) (view s))"
      proof (rule returnsI)
        fix s assume "enforced h plan (effective_addrs e) K1 (view s)"
        moreover obtain s' where "m s = Some (Inr (), s')" "view s' = view s" using m by blast
        ultimately show "\<exists>r s'. m s = Some (r, s') \<and> (case r of Inl e \<Rightarrow> sync_effect h d request loads K (Inl e) (view s')
            | Inr u \<Rightarrow> enforced h plan (effective_addrs e) K1 (view s'))" by (intro exI [of _ "Inr ()"]) simp
      qed
    qed (rule returns_ok, rule ok)
  qed
qed

end
text \<open>The configurations a host can have, and the rest of the contract of the ports.\<close>

definition configs_law :: "('s, 'y) ipset_host_scheme \<Rightarrow> ('s, 'z) sync_dependencies_scheme \<Rightarrow> bool" where
  "configs_law h d \<longleftrightarrow> (\<forall>f s c s'. port_load_config d f s = Some (Inr c, s') \<longrightarrow> config_fits h c)"

lemma returns_assume: "(c \<Longrightarrow> returns P m Q E) \<Longrightarrow> returns (\<lambda>s. c \<and> P s) m Q E"
  by (auto simp: returns_def)

lemmas ctx_sel = source_context.select_convs

context enforcing_sync
begin

lemma sync_execute_returns:
  assumes K: "ready K" and configs: "configs_law h d"
    and loads: "\<And>ctx. loads_ok (\<lambda>p. loads p ctx) (reg_providers (dep_sources d))"
  shows "returns (\<lambda>s. view s = K) (sync_execute d request)
    (\<lambda>out s. sync_effect h d request loads K (Inr out) (view s)) (\<lambda>e s. sync_effect h d request loads K (Inl e) (view s))"
proof -
  let ?E = "\<lambda>e s. sync_effect h d request loads K (Inl e) (view s)"
  have inert: "sync_effect h d request loads K (Inl e) K'" if "inert_kernel K K'" for e K'
    using that by (simp add: sync_effect_def)
  have inert_refl: "inert_kernel K K" by (simp add: inert_kernel_def)
  have quiet: "returns (\<lambda>s. view s = K) m (\<lambda>_ s. view s = K) ?E" if "steps (keeps view) m"
    for m :: "('s, app_error, 'a) dact"
    by (rule quiet_returns [OF that]) (simp add: inert inert_refl)
  have quiet': "returns (\<lambda>s. inert_kernel K (view s)) m (\<lambda>_ s. inert_kernel K (view s)) ?E" if "steps (keeps view) m"
    for m :: "('s, app_error, 'a) dact"
    by (rule quiet_returns [OF that]) (simp add: inert)
  have answered: "returns (\<lambda>s. view s = K) m (\<lambda>x s. answers m x \<and> view s = K) ?E" if quiet_m: "steps (keeps view) m"
    for m :: "('s, app_error, 'a) dact"
  proof (rule returnsI)
    fix s assume "view s = K"
    moreover obtain r s' where "m s = Some (r, s')" "view s' = view s"
      using stepsD [OF quiet_m, of s] by (auto simp: keeps_def)
    ultimately show "\<exists>r s'. m s = Some (r, s')
        \<and> (case r of Inl e \<Rightarrow> sync_effect h d request loads K (Inl e) (view s') | Inr x \<Rightarrow> answers m x \<and> view s' = K)"
      using inert [OF inert_refl] by (cases r) (auto simp: answers_def)
  qed
  have fits: "answers (port_load_config d f) c \<Longrightarrow> config_fits h c" for f c
    using configs by (auto simp: answers_def configs_law_def)
  have artifacts: "returns (\<lambda>s. view s = K) (dep_ensure_artifacts d plan) (\<lambda>_ s. inert_kernel K (view s)) ?E" for plan
  proof (rule returnsI)
    fix s assume "view s = K"
    then obtain r s' where "dep_ensure_artifacts d plan s = Some (r, s')" "inert_kernel K (view s')"
      using stepsD [OF artifacts_inert, of plan s] backend by (auto simp: uses_backend_def)
    then show "\<exists>r s'. dep_ensure_artifacts d plan s = Some (r, s')
        \<and> (case r of Inl e \<Rightarrow> sync_effect h d request loads K (Inl e) (view s') | Inr u \<Rightarrow> inert_kernel K (view s'))"
      by (cases r) (auto intro: inert)
  qed
  note stages = complete_stage_quiet [OF events]
  have notice: "steps (keeps view) (if b then send_notice d n else d_ok ())" for b n
    by (intro keeping.steps_if send_notice_quiet keeping.steps_ok)
  have prune: "\<exists>s'. (case prune_expired bans cutoff of (changed, bans') \<Rightarrow>
         if changed then d_bind (d_try (port_save_bans d path bans')) (\<lambda>saved. case saved of
             Inl e \<Rightarrow> send_notice d (notice_warning (ExpiredCleanupFailed e)) | Inr _ \<Rightarrow> d_ok ())
         else d_ok ()) s = Some (Inr (), s') \<and> view s' = view s" for bans cutoff path s
  proof -
    obtain changed bans' where p: "prune_expired bans cutoff = (changed, bans')" by fastforce
    obtain r s' where "port_save_bans d path bans' s = Some (r, s')" "view s' = view s"
      using stepsD [OF view_ports(6), of path bans' s] by (auto simp: keeps_def)
    moreover have "view (dep_notice d n t) = view t" for n t using sources by (simp add: sources_law_def)
    ultimately show ?thesis
      using p by (cases r) (simp_all add: d_bind_def d_try_def d_ok_def send_notice_def d_upd_def)
  qed
  have tail: "returns (\<lambda>s. inert_kernel K (view s)) (d_bind (sync_select d ctx plan) (\<lambda>(effective, entries, summaries).
        d_bind (apply_enforcement d plan (pe_ipv4 entries) (pe_ipv6 entries)) (\<lambda>_.
        d_bind (m effective entries summaries) (\<lambda>_. d_ok (f effective entries summaries)))))
      (\<lambda>out s. sync_effect h d request loads K (Inr out) (view s)) ?E"
    if "config_fits h (ctx_config ctx)" "read_context d request ctx" "plan = EnforcementPlan_from_config (ctx_config ctx)"
      and "\<And>e p sms. out_sources (f e p sms) = sms" "\<And>e p sms s. \<exists>s'. m e p sms s = Some (Inr (), s') \<and> view s' = view s"
    for ctx plan f m
  proof (rule returns_view [where v = view and Q = "inert_kernel K"])
    fix K1 assume K1: "inert_kernel K K1"
    have sel: "returns (\<lambda>s. view s = K1) (sync_select d ctx plan)
        (\<lambda>x s. view s = K1 \<and> selected (\<lambda>p. loads p ctx) (reg_providers (dep_sources d)) plan x) ?E"
      by (rule returns_weaken [OF yields_returns [where k = K1, OF sync_select_yields [OF events loads]]]) (simp_all add: inert K1)

    show "returns (\<lambda>s. view s = K1) (d_bind (sync_select d ctx plan) (\<lambda>(effective, entries, summaries).
        d_bind (apply_enforcement d plan (pe_ipv4 entries) (pe_ipv6 entries)) (\<lambda>_.
        d_bind (m effective entries summaries) (\<lambda>_. d_ok (f effective entries summaries)))))
      (\<lambda>out s. sync_effect h d request loads K (Inr out) (view s)) ?E"
    proof (rule returns_bind [OF sel], simp only: split_paired_all prod.case)
      fix e p sms
      show "returns (\<lambda>s. view s = K1 \<and> selected (\<lambda>p. loads p ctx) (reg_providers (dep_sources d)) plan (e, p, sms))
          (d_bind (apply_enforcement d plan (pe_ipv4 p) (pe_ipv6 p)) (\<lambda>_. d_bind (m e p sms) (\<lambda>_. d_ok (f e p sms))))
          (\<lambda>out s. sync_effect h d request loads K (Inr out) (view s)) ?E"
      proof (cases "selected (\<lambda>p. loads p ctx) (reg_providers (dep_sources d)) plan (e, p, sms)")
        case True
        show ?thesis
          by (rule returns_pre [OF _ enforce_and_prune_returns [OF that(1-3) K K1 True loads that(4,5)]]) simp
      qed (simp add: returns_def)
    qed
  qed
  have locked: "returns (\<lambda>s. view s = K) (sync_locked d request paths)
      (\<lambda>out s. sync_effect h d request loads K (Inr out) (view s)) ?E"
    if "answers (port_resolve d request ConfigRequired) paths" for paths
    using that unfolding sync_locked_def Let_def
    by - (rule returns_bind [OF quiet [OF stages(2)]] returns_bind [OF quiet [OF stages(1)]]
        returns_bind [OF answered [OF view_ports(4)]] returns_bind [OF quiet [OF cancellation_quiet]]
        returns_bind [OF answered [OF view_ports(2)]] returns_assume returns_bind [OF quiet [OF view_ports(7)]]
        returns_bind [OF answered [OF view_ports(5)]] returns_bind [OF quiet [OF notice]]
        returns_bind [OF artifacts] returns_bind [OF quiet' [OF stages(2)]] tail refl prune read_contextI
        | assumption | erule fits | simp only: sync_outcome.select_convs ctx_sel)+
  show ?thesis
    unfolding sync_execute_def with_lock_def
    by (rule returns_bind [OF quiet [OF stages(1)]] returns_bind [OF quiet [OF stages(2)]]
        returns_bind [OF quiet [OF cancellation_quiet]] returns_bind [OF answered [OF view_ports(1)]] returns_assume
        returns_bind [OF quiet [OF view_ports(2)]] returns_bind [OF quiet [OF view_ports(3)]] returns_finally locked
        | assumption | simp only: view_ports(8))+
qed

end
section \<open>A host in memory\<close>

text \<open>The models of the tools side by side, with the application's own state.\<close>

record system =
  sys_app :: sync_memory
  sys_host :: model_host
  sys_fw4 :: "ruleset \<times> nat"
  sys_fw6 :: "ruleset \<times> nat"

definition system_view :: "system \<Rightarrow> kernel_view" where
  "system_view s = \<lparr>k_sets = mh_sets (sys_host s), k_rules4 = fst (sys_fw4 s), k_rules6 = fst (sys_fw6 s)\<rparr>"

definition system_run :: "system runner" where
  "system_run program args s =
     (if program = lit ''ipset''
      then (case mh_run program args (sys_host s) of (r, x) \<Rightarrow> (r, s\<lparr>sys_host := x\<rparr>))
      else if program = binary FwIpv4
      then (case model_iptables program args (sys_fw4 s) of (r, x) \<Rightarrow> (r, s\<lparr>sys_fw4 := x\<rparr>))
      else if program = binary FwIpv6
      then (case model_iptables program args (sys_fw6 s) of (r, x) \<Rightarrow> (r, s\<lparr>sys_fw6 := x\<rparr>))
      else (Inl (Spawn program (lit ''not found'')), s))"

definition lift_host :: "(model_host \<Rightarrow> 'b \<times> model_host) \<Rightarrow> system \<Rightarrow> 'b \<times> system" where
  "lift_host f s = (case f (sys_host s) of (r, x) \<Rightarrow> (r, s\<lparr>sys_host := x\<rparr>))"

definition system_host :: "system ipset_host" where
  "system_host = \<lparr>ih_run = system_run, ih_now_nanos = lift_host (ih_now_nanos model_ipset_host),
     ih_process_id = ih_process_id model_ipset_host, ih_sha256 = ih_sha256 model_ipset_host,
     ih_temp_dir = ih_temp_dir model_ipset_host,
     ih_create_new = (\<lambda>p. lift_host (ih_create_new model_ipset_host p)),
     ih_write = (\<lambda>p t. lift_host (ih_write model_ipset_host p t)),
     ih_remove_file = (\<lambda>p. lift_host (ih_remove_file model_ipset_host p))\<rparr>"

lemma programs: "binary FwIpv4 \<noteq> lit ''ipset''" "binary FwIpv6 \<noteq> lit ''ipset''" "binary FwIpv6 \<noteq> binary FwIpv4"
  by code_simp+

lemma lift_host_sel:
  "lift_host f s = (r, s') \<Longrightarrow> f (sys_host s) = (r, sys_host s') \<and> sys_fw4 s' = sys_fw4 s \<and> sys_fw6 s' = sys_fw6 s"
  by (auto simp: lift_host_def split: prod.splits)

lemma system_run_ipset:
  "ih_run system_host (lit ''ipset'') args s = (r, s') \<Longrightarrow> ih_run model_ipset_host (lit ''ipset'') args (sys_host s) = (r, sys_host s')"
  by (auto simp: system_host_def system_run_def model_ipset_host_def split: prod.splits)

lemma system_ipset_law: "ipset_law system_host (k_sets \<circ> system_view) (mh_files \<circ> sys_host)"
proof -
  note L = model_ipset_law [unfolded ipset_law_def]
  have k: "k_sets \<circ> system_view = mh_sets \<circ> sys_host" by (simp add: system_view_def fun_eq_iff)
  have snd_lift: "sys_host (snd (lift_host f s)) = snd (f (sys_host s))" for f :: "model_host \<Rightarrow> 'b \<times> model_host" and s
    by (simp add: lift_host_def split: prod.split)
  have written: "ih_write model_ipset_host path t (sys_host s) = (r, sys_host s')"
    if "ih_write system_host path t s = (r, s')" for path t s r s'
    using that lift_host_sel [of "ih_write model_ipset_host path t" s r s'] by (simp add: system_host_def)
  show ?thesis
    unfolding ipset_law_def k comp_apply
  proof (intro conjI, goal_cases)
    case 1
    show ?case using L [THEN conjunct1] by (intro allI impI) (drule system_run_ipset, blast)
  next
    case 2
    show ?case using L [THEN conjunct2, THEN conjunct1] by (intro allI impI) (drule system_run_ipset, blast)
  next
    case 6
    show ?case using L by (intro allI impI) (drule written, blast)
  qed (use L in \<open>simp_all add: system_host_def snd_lift\<close>)
qed

lemma system_fw_law:
  "iptables_law (ih_run system_host) (k_rules4 \<circ> system_view) (binary FwIpv4)"
  "iptables_law (ih_run system_host) (k_rules6 \<circ> system_view) (binary FwIpv6)"
proof -
  have k: "k_rules4 \<circ> system_view = fst \<circ> sys_fw4" "k_rules6 \<circ> system_view = fst \<circ> sys_fw6"
    by (simp_all add: system_view_def fun_eq_iff)
  have 4: "model_iptables (binary FwIpv4) args (sys_fw4 s) = (r, sys_fw4 s')"
    if "ih_run system_host (binary FwIpv4) args s = (r, s')" for args s r s'
    using that programs by (auto simp: system_host_def system_run_def split: prod.splits)
  have 6: "model_iptables (binary FwIpv6) args (sys_fw6 s) = (r, sys_fw6 s')"
    if "ih_run system_host (binary FwIpv6) args s = (r, s')" for args s r s'
    using that programs by (auto simp: system_host_def system_run_def split: prod.splits)
  show "iptables_law (ih_run system_host) (k_rules4 \<circ> system_view) (binary FwIpv4)"
    unfolding iptables_law_def k comp_apply
    using model_iptables_law [of "binary FwIpv4", unfolded iptables_law_def]
    by (intro allI impI) (drule 4, blast)
  show "iptables_law (ih_run system_host) (k_rules6 \<circ> system_view) (binary FwIpv6)"
    unfolding iptables_law_def k comp_apply
    using model_iptables_law [of "binary FwIpv6", unfolded iptables_law_def]
    by (intro allI impI) (drule 6, blast)
qed

lemma system_host_law: "host_law system_host system_view (mh_files \<circ> sys_host)"
proof -
  have files: "mh_sets (snd (ih_now_nanos model_ipset_host s)) = mh_sets s"
    "mh_sets (snd (ih_create_new model_ipset_host p s)) = mh_sets s"
    "mh_sets (snd (ih_write model_ipset_host p t s)) = mh_sets s"
    "mh_sets (snd (ih_remove_file model_ipset_host p s)) = mh_sets s" for p t s
    by (simp_all add: model_ipset_host_def)
  have lifted: "system_view (snd (lift_host f s)) = system_view s"
    if "\<And>s. mh_sets (snd (f s)) = mh_sets s" for f :: "model_host \<Rightarrow> 'b \<times> model_host" and s
    using that [of "sys_host s"] by (cases "f (sys_host s)") (simp add: system_view_def lift_host_def)
  have frames: "system_run (lit ''ipset'') args s = (r, s') \<Longrightarrow> sys_fw4 s' = sys_fw4 s \<and> sys_fw6 s' = sys_fw6 s"
    "system_run (binary FwIpv4) args s = (r, s') \<Longrightarrow> sys_host s' = sys_host s \<and> sys_fw6 s' = sys_fw6 s"
    "system_run (binary FwIpv6) args s = (r, s') \<Longrightarrow> sys_host s' = sys_host s \<and> sys_fw4 s' = sys_fw4 s" for args s r s'
    using programs by (auto simp: system_run_def split: prod.splits)
  have run: "ih_run system_host = system_run" by (simp add: system_host_def)
  note frames' = frames [OF surjective_pairing]
  have "system_view (snd (ih_now_nanos system_host s)) = system_view s"
    "system_view (snd (ih_create_new system_host p s)) = system_view s"
    "system_view (snd (ih_write system_host p t s)) = system_view s"
    "system_view (snd (ih_remove_file system_host p s)) = system_view s" for p t s
    by (simp_all add: system_host_def lifted files)
  then show ?thesis
    unfolding host_law_def run Let_def
    using system_ipset_law system_fw_law frames'
    by (simp add: run) (simp add: system_view_def)
qed

text \<open>The application on this host: its own ports in memory, the backend on the tools.\<close>

definition on_app :: "(sync_memory \<Rightarrow> ((app_error + 'a) \<times> sync_memory) option) \<Rightarrow> (system, app_error, 'a) dact" where
  "on_app m s = (case m (sys_app s) of None \<Rightarrow> None | Some (r, x) \<Rightarrow> Some (r, s\<lparr>sys_app := x\<rparr>))"

definition app_upd :: "(sync_memory \<Rightarrow> sync_memory) \<Rightarrow> system \<Rightarrow> system" where
  "app_upd f s = s\<lparr>sys_app := f (sys_app s)\<rparr>"

definition system_sync ::
    "config \<Rightarrow> (source_descriptor \<times> canonical_cidr list) list \<Rightarrow> system sync_dependencies" where
  "system_sync cfg srcs = (let d = memory_sync cfg srcs in \<lparr>
     port_is_cancelled = (\<lambda>s. case port_is_cancelled d (sys_app s) of (b, x) \<Rightarrow> (b, s\<lparr>sys_app := x\<rparr>)),
     port_resolve = (\<lambda>r q. on_app (port_resolve d r q)),
     port_load_config = (\<lambda>f. on_app (port_load_config d f)),
     port_acquire = (\<lambda>f. on_app (port_acquire d f)),
     port_release = app_upd (port_release d),
     port_now = on_app (port_now d),
     port_load_bans = (\<lambda>f. on_app (port_load_bans d f)),
     port_save_bans = (\<lambda>f b. on_app (port_save_bans d f b)),
     dep_prepare_remote_cache = (\<lambda>f. on_app (dep_prepare_remote_cache d f)),
     dep_sources = \<lparr>reg_providers = map memory_provider srcs, reg_ids = reg_ids (dep_sources d)\<rparr>,
     dep_ensure_artifacts = backend_ensure_artifacts system_host,
     dep_replace_set = backend_replace_set system_host,
     dep_activate = backend_activate system_host,
     dep_cleanup_disabled_ipv6 = backend_cleanup_disabled_ipv6 system_host,
     dep_event = (\<lambda>e. app_upd (dep_event d e)),
     dep_stage_completed = (\<lambda>m. app_upd (dep_stage_completed d m)),
     dep_notice = (\<lambda>n. app_upd (dep_notice d n))\<rparr>)"

lemma app_quiet: "steps (keeps (\<lambda>_. ())) m \<Longrightarrow> steps (keeps system_view) (on_app m)"
  unfolding steps_def keeps_def on_app_def system_view_def by (fastforce split: option.splits)

lemma app_upd_view: "system_view (app_upd f s) = system_view s"
  by (simp add: system_view_def app_upd_def)

lemma system_sync_laws:
  "sources_law (system_sync cfg srcs) system_view (provider_networks s0)"
  "ports_law (system_sync cfg srcs) system_view"
  "system_view (dep_event (system_sync cfg srcs) e s) = system_view s"
  "uses_backend (system_sync cfg srcs) system_host"
proof -
  have poll: "system_view (snd (port_is_cancelled (system_sync cfg srcs) s)) = system_view s" for s
    by (simp add: system_sync_def Let_def system_view_def split: prod.split)
  show "sources_law (system_sync cfg srcs) system_view (provider_networks s0)"
    using poll
    by (auto simp: sources_law_def system_sync_def Let_def app_upd_view memory_provider_def provider_networks_def
        yields_def d_ok_def source_load_ready_def)
  have ports: "ports_law (memory_sync cfg srcs) (\<lambda>_. ())" by (rule memory_ports_law) simp_all
  show "ports_law (system_sync cfg srcs) system_view"
    using ports by (simp add: ports_law_def system_sync_def Let_def app_upd_view app_quiet)
  show "system_view (dep_event (system_sync cfg srcs) e s) = system_view s"
    "uses_backend (system_sync cfg srcs) system_host"
    by (simp_all add: system_sync_def Let_def app_upd_view uses_backend_def)
qed

interpretation system: enforcing_sync system_host system_view "mh_files \<circ> sys_host" "system_sync cfg srcs" "provider_networks s0"
  by unfold_locales (simp_all add: system_host_law system_sync_laws)
section \<open>Properties\<close>

definition demo_system :: system where
  "demo_system = \<lparr>sys_app = demo_state,
     sys_host = \<lparr>mh_sets = example_sets, mh_files = (\<lambda>_. None), mh_clock = 7, mh_fuel = 1000\<rparr>,
     sys_fw4 = (wired_host, 1000), sys_fw6 = ([INPUT \<mapsto> []], 1000)\<rparr>"

lemma demo_ready: "ready (system_view demo_system)"
proof -
  have "rules_ok [INPUT \<mapsto> []]" by (simp add: rules_ok_def)
  then show ?thesis
    using wired_host_ok wired_host_INPUT by (simp add: ready_def system_view_def demo_system_def)
qed

lemma temps_system: "temps system_host n = {temp_name n (lit ''deadbeef'')}"
proof -
  have "take 8 (hex_lower [222, 173, 190, 239, 1, 35, 69, 103]) = lit ''deadbeef''"
    "length (hex_lower [222, 173, 190, 239, 1, 35, 69, 103]) = 16" by code_simp+
  then have "fst (generate_temp_set_name system_host n s) = temp_name n (lit ''deadbeef'')" for s
    by (simp add: generate_temp_set_name_def random_hex_suffix_def system_host_def model_ipset_host_def Let_def
        split: prod.split)
  then show ?thesis by (auto simp: temps_def)
qed

lemma demo_config_fits: "config_fits system_host demo_config"
proof -
  let ?a = "lit ''kidobo''" and ?b = "lit ''kidobo-v6''" and ?t = "\<lambda>n. temp_name n (lit ''deadbeef'')"
  have "ipset_ok (cfg_ipset demo_config)" by code_simp
  moreover have "?a \<noteq> ?t ?a \<and> ?b \<noteq> ?t ?a \<and> ?a \<noteq> ?t ?b \<and> ?b \<noteq> ?t ?b" by code_simp
  ultimately show ?thesis
    by (simp add: config_fits_def temps_system demo_config_def Let_def)
qed

lemma demo_configs_law: "configs_law system_host (system_sync demo_config srcs)"
  using demo_config_fits
  by (auto simp: configs_law_def system_sync_def memory_sync_def on_app_def d_ok_def Let_def)

lemma demo_system_loads_ok:
  "loads_ok (\<lambda>p. provider_networks s0 p ctx) (reg_providers (dep_sources (system_sync cfg demo_sources)))"
proof -
  have "canonical_ok (V4 (Cidr 0x0A000000 24))" "canonical_ok (V6 (Cidr 0 0))" "canonical_ok (V4 (Cidr 0x0A000000 30))"
    "canonical_ok (V4 (Cidr 0 0))" by code_simp+
  then show ?thesis
    by (auto simp: loads_ok_def system_sync_def demo_sources_def memory_provider_def provider_networks_def d_ok_def
        batch_of_def source_load_ready_def fallback_networks_def Let_def)
qed

lemma enforcing_syncI:
  "sources_law d view loads \<Longrightarrow> ports_law d view \<Longrightarrow> (\<And>e s. view (dep_event d e s) = view s)
     \<Longrightarrow> uses_backend d h \<Longrightarrow> host_law h view files \<Longrightarrow> enforcing_sync h view files d loads"
  by (simp add: enforcing_sync_def enforcing_sync_axioms_def quiet_ports_def quiet_ports_axioms_def
      quiet_sources_def command_host_def)

text \<open>
  C1: The workflow and the tools together enforce what the sources select. On a host whose
  ipset and iptables behave as documented, whatever fails at whatever point, a
  synchronization returns. The sources load in the context that the ports answered for the
  request: its paths, time, configuration and temporary bans. On success there are loaded
  sources whose candidate addresses
  without the admitted safelist (which contains the whole operator safelist) are exactly
  the addresses the kernel sets of the enabled families match, and the wiring of these
  families is exact. On failure nothing but unused artifacts changed, or each of these sets
  matches exactly the selected addresses or is as it was, and a firewall that was enforcing
  still is.
\<close>

theorem sync_enforces_selection:
  assumes "sources_law d view loads" "ports_law d view" "\<And>e s. view (dep_event d e s) = view s"
    and "uses_backend d h" "host_law h view files" "configs_law h d"
    and "\<And>ctx. loads_ok (\<lambda>p. loads p ctx) (reg_providers (dep_sources d))" "ready (view s)"
  shows "\<exists>r s'. sync_execute d request s = Some (r, s') \<and> sync_effect h d request loads (view s) r (view s')"
proof -
  note R = enforcing_sync.sync_execute_returns [OF enforcing_syncI [OF assms(1-5)] assms(8,6,7), of request]
  from returns_imp [OF R, of s] obtain r s' where "sync_execute d request s = Some (r, s')"
    "case r of Inl e \<Rightarrow> sync_effect h d request loads (view s) (Inl e) (view s')
     | Inr out \<Rightarrow> sync_effect h d request loads (view s) (Inr out) (view s')" by blast
  then show ?thesis by (cases r) auto
qed

theorem sync_enforces_selection_witness:
  "\<exists>r s'. sync_execute (system_sync demo_config demo_sources) demo_request demo_system = Some (r, s')
    \<and> sync_effect system_host (system_sync demo_config demo_sources) demo_request (provider_networks demo_system)
        (system_view demo_system) r (system_view s')"
  by (rule sync_enforces_selection [OF system_sync_laws(1,2) system_sync_laws(3) system_sync_laws(4) system_host_law
        demo_configs_law demo_system_loads_ok demo_ready])

text \<open>
  C8: Enforcing a selection is all or nothing for every family. With entries that denote the
  addresses of \<open>A\<close> of their family, enforcement returns; after a success the sets match
  exactly these addresses and the wiring is exact; after a failure each set matches them or
  is as it was, and a firewall that was enforcing still is. No other set is touched but the
  temporary ones and, after a success, the set of a disabled IPv6.
\<close>

theorem enforcement_exact_or_kept:
  assumes "sources_law d view loads" "ports_law d view" "\<And>e s. view (dep_event d e s) = view s"
    and "uses_backend d h" "host_law h view files"
    and "plan_ok h plan" "ready (view s)"
    and "canonicals_ok es4" "addrs_of es4 = A \<inter> range Addr4" "canonicals_ok es6" "addrs_of es6 = A \<inter> range Addr6"
  shows "\<exists>r s'. apply_enforcement d plan es4 es6 s = Some (r, s')
    \<and> (if isl r then enforced_or_kept h plan A (view s) (view s') else enforced h plan A (view s) (view s'))"
proof -
  note R = enforcing_sync.apply_enforcement_returns [OF enforcing_syncI [OF assms(1-5)] assms(6-11)]
  from returns_imp [OF R, of s] obtain r s' where "apply_enforcement d plan es4 es6 s = Some (r, s')"
    "case r of Inl e \<Rightarrow> enforced_or_kept h plan A (view s) (view s') | Inr u \<Rightarrow> enforced h plan A (view s) (view s')"
    by blast
  then show ?thesis by (cases r) auto
qed

theorem enforcement_exact_or_kept_witness:
  "\<exists>r s'. apply_enforcement (system_sync demo_config []) (EnforcementPlan_from_config demo_config)
        [V4 (Cidr 0x0A000000 8)] [] demo_system = Some (r, s')
    \<and> (if isl r then enforced_or_kept system_host (EnforcementPlan_from_config demo_config)
          (canonical_addrs (V4 (Cidr 0x0A000000 8))) (system_view demo_system) (system_view s')
       else enforced system_host (EnforcementPlan_from_config demo_config)
          (canonical_addrs (V4 (Cidr 0x0A000000 8))) (system_view demo_system) (system_view s'))"
proof (rule enforcement_exact_or_kept [OF system_sync_laws(1,2) system_sync_laws(3) system_sync_laws(4) system_host_law
      config_plan_ok [OF demo_config_fits] demo_ready])
  have "canonical_ok (V4 (Cidr 0x0A000000 8))" by code_simp
  then show "canonicals_ok [V4 (Cidr 0x0A000000 8)]" by simp
qed auto

end
