(* ===== verification/Ban_App.thy ===== *)
theory Ban_App
  imports App_Types Blocklist
begin

text \<open>
  The workflows that change the operator's own lists, \<^verbatim>\<open>crates/kidobo-app/src/blocklist.rs\<close>,
  \<^verbatim>\<open>blocklist/ban.rs\<close>, \<^verbatim>\<open>blocklist/unban.rs\<close> and \<^verbatim>\<open>blocklist/asn.rs\<close>: bans and unbans of
  networks and of autonomous systems, permanent and temporary. Lists under the process lock are
  read, changed in memory and written back, at most one write per list.
\<close>

section \<open>Shared parts\<close>

datatype blocklist_input = Single rstr | File rstr

datatype ban_change =
    ChangeAdded rstr
  | ChangeAlreadyPresent rstr
  | AlreadyPermanent rstr
  | TemporaryAdded rstr nat
  | TemporaryRescheduled rstr nat

record 's ban_dependencies = "'s app_ports" +
  repo_load :: "rstr \<Rightarrow> ('s, app_error, blocklist_document) dact"
  repo_append_entries :: "rstr \<Rightarrow> rstr list \<Rightarrow> bool \<Rightarrow> bool \<Rightarrow> ('s, app_error, unit) dact"
  repo_write_lines :: "rstr \<Rightarrow> rstr list \<Rightarrow> ('s, app_error, unit) dact"
  repo_read_target_lines :: "rstr \<Rightarrow> ('s, app_error, rstr list) dact"

fun record_each :: "('k::linorder \<Rightarrow> rstr) \<Rightarrow> 'k set \<Rightarrow> nat \<Rightarrow> 'k set \<Rightarrow> ('k, nat) btree \<Rightarrow> 'k list
    \<Rightarrow> ban_change list \<times> ('k, nat) btree" where
  "record_each render permanent expiry seen entries [] = ([], entries)"
| "record_each render permanent expiry seen entries (t # ts) =
     (if t \<in> permanent then
        (case record_each render permanent expiry seen entries ts of (cs, m) \<Rightarrow> (AlreadyPermanent (render t) # cs, m))
      else if t \<in> seen then
        (case record_each render permanent expiry seen entries ts of (cs, m) \<Rightarrow> (ChangeAlreadyPresent (render t) # cs, m))
      else (case record_each render permanent expiry (insert t seen) (btree_insert t expiry entries) ts of (cs, m) \<Rightarrow>
        ((if map_of entries t \<noteq> None then TemporaryRescheduled (render t) expiry
          else TemporaryAdded (render t) expiry) # cs, m)))"

definition record_temporary_bans ::
    "('s, 'z) app_ports_scheme \<Rightarrow> ('k::linorder, nat) btree \<Rightarrow> 'k list \<Rightarrow> 'k set \<Rightarrow> ban_duration \<Rightarrow> rstr
     \<Rightarrow> ('k \<Rightarrow> rstr) \<Rightarrow> ('s, app_error, ban_change list \<times> bool \<times> ('k, nat) btree) dact" where
  "record_temporary_bans d entries targets permanent duration path render =
     d_bind (cancellation_check d) (\<lambda>_.
       let has_updates = list_ex (\<lambda>t. t \<notin> permanent) targets
       in d_bind (if has_updates then d_bind (port_now d) (\<lambda>now.
              d_res (map_err (TemporaryBansFailed path) (expires_at duration now)))
            else d_ok 0) (\<lambda>expiry.
          case record_each render permanent expiry {} entries targets of
            (changes, entries) \<Rightarrow> d_ok (changes, has_updates, entries)))"

datatype parsed_blocklist_input =
    ParsedReady "canonical_cidr list" | ParsedInvalid "rstr list" | ParsedEmptyFile

fun parse_targets :: "rstr list \<Rightarrow> canonical_cidr list \<times> rstr list" where
  "parse_targets [] = ([], [])"
| "parse_targets (v # vs) = (case parse_targets vs of (targets, invalid) \<Rightarrow>
     case parse_blocklist_target v of Inr t \<Rightarrow> (t # targets, invalid) | Inl _ \<Rightarrow> (targets, v # invalid))"

definition parse_input :: "('s, 'z) ban_dependencies_scheme \<Rightarrow> blocklist_input \<Rightarrow> ('s, app_error, parsed_blocklist_input) dact" where
  "parse_input d inp = (case inp of
     Single value \<Rightarrow> d_res (map_err (\<lambda>_. BlocklistTargetParse value)
       (and_then (parse_blocklist_target value) (\<lambda>target. Inr (ParsedReady [target]))))
   | File path \<Rightarrow> d_bind (repo_read_target_lines d path) (\<lambda>raw.
       if raw = [] then d_ok ParsedEmptyFile
       else case parse_targets raw of (targets, invalid) \<Rightarrow>
         d_ok (if invalid = [] then ParsedReady targets else ParsedInvalid invalid)))"

definition partial_update_error :: "app_error \<Rightarrow> bool \<Rightarrow> rstr \<Rightarrow> rstr \<Rightarrow> app_error" where
  "partial_update_error source completed temporary_path permanent_path =
     (if completed then PartialBanUpdate temporary_path permanent_path source else source)"

section \<open>Bans\<close>

record ban_request =
  br_paths :: path_resolution_input
  br_input :: blocklist_input
  br_duration :: "ban_duration option"

datatype ban_outcome =
    Applied "ban_change list"
  | TemporaryApplied "ban_change list" "notice list"
  | BanInvalidTargets "rstr list"
  | BanEmptyFile

fun change_of :: "ban_classification \<Rightarrow> ban_change" where
  "change_of (Added c) = ChangeAdded (show_cidr c)"
| "change_of (AlreadyPresent c) = ChangeAlreadyPresent (show_cidr c)"

fun appended_of :: "ban_classification list \<Rightarrow> rstr list" where
  "appended_of [] = []"
| "appended_of (Added c # cs) = show_cidr c # appended_of cs"
| "appended_of (AlreadyPresent c # cs) = appended_of cs"

definition existing_entries :: "blocklist_document \<Rightarrow> canonical_cidr list" where
  "existing_entries document = List.map_filter canonical (doc_lines document)"

definition ban_temporarily ::
    "('s, 'z) ban_dependencies_scheme \<Rightarrow> config \<Rightarrow> rstr \<Rightarrow> canonical_cidr list \<Rightarrow> canonical_cidr list
     \<Rightarrow> ban_duration \<Rightarrow> ('s, app_error, ban_outcome) dact" where
  "ban_temporarily d cfg path existing targets duration =
     d_bind (port_load_bans d path) (\<lambda>temporary.
     d_bind (record_temporary_bans d (tb_ips temporary) targets (set existing) duration path show_cidr)
       (\<lambda>(changes, has_updates, ips).
     d_bind (if has_updates then port_save_bans d path (temporary\<lparr>tb_ips := ips\<rparr>) else d_ok ()) (\<lambda>_.
       d_ok (TemporaryApplied changes
         (if has_updates \<and> timeout (cfg_ipset cfg) \<noteq> 0 then [kernel_timeout_notice] else [])))))"

definition ban_permanently ::
    "('s, 'z) ban_dependencies_scheme \<Rightarrow> rstr \<Rightarrow> blocklist_document \<Rightarrow> canonical_cidr list \<Rightarrow> canonical_cidr list
     \<Rightarrow> ('s, app_error, ban_outcome) dact" where
  "ban_permanently d path document existing targets =
     (let classifications = classify_ban_targets existing targets;
          appended = appended_of classifications
      in d_bind (if appended \<noteq> [] then d_bind (cancellation_check d) (\<lambda>_.
             repo_append_entries d path appended (has_content document) (trailing_newline document))
           else d_ok ()) (\<lambda>_.
         d_ok (Applied (map change_of classifications))))"

definition execute_ban ::
    "('s, 'z) ban_dependencies_scheme \<Rightarrow> ban_request \<Rightarrow> ('s, app_error, ban_outcome) dact" where
  "execute_ban d request =
     d_bind (cancellation_check d) (\<lambda>_.
     d_bind (port_resolve d (br_paths request) ConfigRequired) (\<lambda>paths.
     with_lock d (lock_file paths) (
       d_bind (port_load_config d (config_file paths)) (\<lambda>cfg.
       d_bind (parse_input d (br_input request)) (\<lambda>parsed. case parsed of
           ParsedInvalid targets \<Rightarrow> d_ok (BanInvalidTargets targets)
         | ParsedEmptyFile \<Rightarrow> d_ok BanEmptyFile
         | ParsedReady targets \<Rightarrow>
             d_bind (repo_load d (blocklist_file paths)) (\<lambda>document.
               let existing = existing_entries document
               in case br_duration request of
                    Some duration \<Rightarrow> ban_temporarily d cfg (temporary_bans_file paths) existing targets duration
                  | None \<Rightarrow> ban_permanently d (blocklist_file paths) document existing targets))))))"

section \<open>Unbans\<close>

record unban_request =
  ur_paths :: path_resolution_input
  ur_input :: blocklist_input

record unban_preview =
  up_target_label :: rstr
  up_requested_target_count :: nat
  up_exact_entries :: "rstr list"
  up_partial_entries :: "rstr list"
  up_targets :: unban_target_index
  up_temporary_matches :: "(canonical_cidr, nat) btree"

datatype unban_preparation = UnbanReady unban_preview | UnbanInvalidTargets "rstr list" | UnbanEmptyFile

record unban_outcome =
  uo_target_label :: rstr
  uo_requested_target_count :: nat
  uo_removed_exact :: nat
  uo_removed_partial :: nat
  uo_had_partial_matches :: bool

definition total_removed :: "unban_outcome \<Rightarrow> nat" where
  "total_removed u = uo_removed_exact u + uo_removed_partial u"

record unban_state_plan =
  usp_permanent :: unban_index_plan
  usp_temporary :: unban_index_plan
  usp_temporary_targets :: "canonical_cidr list"
  usp_exact_entries :: "rstr list"
  usp_partial_entries :: "rstr list"
  usp_temporary_matches :: "(canonical_cidr, nat) btree"

definition entries_for_indexes :: "blocklist_document \<Rightarrow> nat list \<Rightarrow> rstr list" where
  "entries_for_indexes document is = List.map_filter (\<lambda>i.
     if i < length (doc_lines document) then map_option show_cidr (canonical (doc_lines document ! i)) else None) is"

fun match_temporary :: "canonical_cidr list \<Rightarrow> (canonical_cidr, nat) btree \<Rightarrow> nat list
    \<Rightarrow> rstr list \<times> (canonical_cidr, nat) btree \<Rightarrow> rstr list \<times> (canonical_cidr, nat) btree" where
  "match_temporary targets ips [] acc = acc"
| "match_temporary targets ips (i # is) (entries, matches) =
     (if i < length targets then (case map_of ips (targets ! i) of
          Some expiry \<Rightarrow> match_temporary targets ips is
            (entries @ [show_cidr (targets ! i) @ lit '' (temporary, expires at Unix '' @ show_nat expiry @ [41]],
             btree_insert (targets ! i) expiry matches)
        | None \<Rightarrow> match_temporary targets ips is (entries, matches))
      else match_temporary targets ips is (entries, matches))"

definition build_unban_plan ::
    "('s, 'z) app_ports_scheme \<Rightarrow> unban_target_index \<Rightarrow> blocklist_document \<Rightarrow> temporary_bans
     \<Rightarrow> ('s, app_error, unban_state_plan) dact" where
  "build_unban_plan d targets document temporary =
     d_bind (cancellation_check d) (\<lambda>_.
       let index_plan = UnbanTargetIndex_plan targets (map canonical (doc_lines document))
       in d_bind (cancellation_check d) (\<lambda>_.
       let exact_entries = entries_for_indexes document (exact_indexes index_plan);
           partial_entries = entries_for_indexes document (partial_indexes index_plan);
           temporary_targets = map fst (tb_ips temporary);
           temporary_plan = UnbanTargetIndex_plan targets (map Some temporary_targets)
       in d_bind (cancellation_check d) (\<lambda>_.
       case match_temporary temporary_targets (tb_ips temporary) (exact_indexes temporary_plan) (exact_entries, []) of
         (exact_entries, matches) \<Rightarrow>
       case match_temporary temporary_targets (tb_ips temporary) (partial_indexes temporary_plan) (partial_entries, matches) of
         (partial_entries, matches) \<Rightarrow>
       d_bind (cancellation_check d) (\<lambda>_.
       d_ok \<lparr>usp_permanent = index_plan, usp_temporary = temporary_plan, usp_temporary_targets = temporary_targets,
         usp_exact_entries = sort exact_entries, usp_partial_entries = sort partial_entries,
         usp_temporary_matches = matches\<rparr>))))"

definition unban_target_label :: "blocklist_input \<Rightarrow> unban_target_index \<Rightarrow> rstr" where
  "unban_target_label inp targets = (case inp of
     Single value \<Rightarrow> (case ut_targets targets of t # _ \<Rightarrow> show_cidr t | [] \<Rightarrow> value)
   | File _ \<Rightarrow> (let count = length (ut_targets targets)
       in show_nat count @ lit '' file '' @ (if count = 1 then lit ''target'' else lit ''targets'')))"

definition prepare_unban ::
    "('s, 'z) ban_dependencies_scheme \<Rightarrow> unban_request \<Rightarrow> ('s, app_error, unban_preparation) dact" where
  "prepare_unban d request =
     d_bind (cancellation_check d) (\<lambda>_.
     d_bind (port_resolve d (ur_paths request) ConfigRequired) (\<lambda>paths.
     d_bind (port_load_config d (config_file paths)) (\<lambda>_.
     d_bind (parse_input d (ur_input request)) (\<lambda>parsed. case parsed of
         ParsedInvalid targets \<Rightarrow> d_ok (UnbanInvalidTargets targets)
       | ParsedEmptyFile \<Rightarrow> d_ok UnbanEmptyFile
       | ParsedReady targets \<Rightarrow>
           d_bind (cancellation_check d) (\<lambda>_.
             let targets = UnbanTargetIndex_new targets
             in d_bind (cancellation_check d) (\<lambda>_.
                d_bind (repo_load d (blocklist_file paths)) (\<lambda>document.
                d_bind (cancellation_check d) (\<lambda>_.
                d_bind (port_load_bans d (temporary_bans_file paths)) (\<lambda>temporary.
                d_bind (build_unban_plan d targets document temporary) (\<lambda>plan.
                d_ok (UnbanReady \<lparr>up_target_label = unban_target_label (ur_input request) targets,
                  up_requested_target_count = length (ut_targets targets),
                  up_exact_entries = usp_exact_entries plan, up_partial_entries = usp_partial_entries plan,
                  up_targets = targets, up_temporary_matches = usp_temporary_matches plan\<rparr>)))))))))))"

definition btree_remove :: "'k \<Rightarrow> ('k, 'v) btree \<Rightarrow> ('k, 'v) btree" where
  "btree_remove k m = filter (\<lambda>(k', _). k' \<noteq> k) m"

fun remove_temporary :: "canonical_cidr list \<Rightarrow> nat list \<Rightarrow> nat \<times> (canonical_cidr, nat) btree
    \<Rightarrow> nat \<times> (canonical_cidr, nat) btree" where
  "remove_temporary targets [] acc = acc"
| "remove_temporary targets (i # is) (removed, ips) =
     (if i < length targets
      then remove_temporary targets is
        (removed + (if map_of ips (targets ! i) \<noteq> None then 1 else 0), btree_remove (targets ! i) ips)
      else remove_temporary targets is (removed, ips))"

definition kept_lines :: "blocklist_line list \<Rightarrow> nat set \<Rightarrow> rstr list" where
  "kept_lines ls removal = map (original \<circ> snd) (filter (\<lambda>(i, _). i \<notin> removal) (enumerate 0 ls))"

definition apply_unban ::
    "('s, 'z) ban_dependencies_scheme \<Rightarrow> unban_request \<Rightarrow> unban_preview \<Rightarrow> bool \<Rightarrow> ('s, app_error, unban_outcome) dact" where
  "apply_unban d request preview remove_partial =
     d_bind (cancellation_check d) (\<lambda>_.
     d_bind (port_resolve d (ur_paths request) ConfigRequired) (\<lambda>paths.
     with_lock d (lock_file paths) (
       d_bind (port_load_config d (config_file paths)) (\<lambda>_.
       d_bind (cancellation_check d) (\<lambda>_.
       d_bind (repo_load d (blocklist_file paths)) (\<lambda>document.
       d_bind (cancellation_check d) (\<lambda>_.
         let temporary_path = temporary_bans_file paths
         in d_bind (port_load_bans d temporary_path) (\<lambda>temporary.
       d_bind (build_unban_plan d (up_targets preview) document temporary) (\<lambda>current.
         if usp_exact_entries current \<noteq> up_exact_entries preview
            \<or> usp_partial_entries current \<noteq> up_partial_entries preview
            \<or> usp_temporary_matches current \<noteq> up_temporary_matches preview
            \<or> up_requested_target_count preview \<noteq> length (ut_targets (up_targets preview))
            \<or> up_target_label preview \<noteq> unban_target_label (ur_input request) (up_targets preview)
         then d_err BlocklistChanged
         else
           let index_plan = usp_permanent current;
               temporary_plan = usp_temporary current;
               removal_indexes = set (exact_indexes index_plan)
                 \<union> (if remove_partial then set (partial_indexes index_plan) else {})
           in case remove_temporary (usp_temporary_targets current)
                  (exact_indexes temporary_plan @ (if remove_partial then partial_indexes temporary_plan else []))
                  (0, tb_ips temporary) of
                (temporary_removed, ips) \<Rightarrow>
              d_bind (cancellation_check d) (\<lambda>_.
              d_bind (if temporary_removed > 0 then port_save_bans d temporary_path (temporary\<lparr>tb_ips := ips\<rparr>) else d_ok ()) (\<lambda>_.
              d_bind (if removal_indexes \<noteq> {}
                  then d_map_err (\<lambda>source. partial_update_error source (temporary_removed > 0) temporary_path (blocklist_file paths))
                    (repo_write_lines d (blocklist_file paths) (kept_lines (doc_lines document) removal_indexes))
                  else d_ok ()) (\<lambda>_.
              d_ok \<lparr>uo_target_label = up_target_label preview,
                uo_requested_target_count = up_requested_target_count preview,
                uo_removed_exact = length (exact_indexes index_plan) + length (exact_indexes temporary_plan),
                uo_removed_partial = (if remove_partial
                  then length (partial_indexes index_plan) + length (partial_indexes temporary_plan) else 0),
                uo_had_partial_matches = (partial_indexes index_plan \<noteq> [] \<or> partial_indexes temporary_plan \<noteq> [])\<rparr>))))))))))))"

section \<open>Autonomous systems\<close>

record asn_ban_request =
  abr_paths :: path_resolution_input
  abr_tokens :: "rstr list"
  abr_duration :: "ban_duration option"

record asn_ban_outcome =
  abo_added :: "nat list"
  abo_already_present :: "nat list"
  abo_removed_duplicate_entries :: nat
  abo_notices :: "notice list"
  abo_temporary_changes :: "ban_change list"

record asn_unban_outcome =
  auo_removed :: "nat list"
  auo_deleted_cache_files :: nat
  auo_notices :: "notice list"

record asn_prefix_batch =
  apb_prefixes :: "canonical_cidr list"
  apb_stale :: bool

record asn_config_update =
  acu_added :: "nat list"
  acu_removed :: "nat list"

record asn_unban_request =
  aur_paths :: path_resolution_input
  aur_tokens :: "rstr list"

record 's asn_dependencies = "'s ban_dependencies" +
  dep_load_prefixes :: "nat \<Rightarrow> rstr \<Rightarrow> nat \<Rightarrow> ('s, app_error, asn_prefix_batch) dact"
  dep_update_config :: "rstr \<Rightarrow> nat list \<Rightarrow> nat list \<Rightarrow> ('s, app_error, asn_config_update) dact"
  dep_delete_cache :: "nat \<Rightarrow> rstr \<Rightarrow> ('s, app_error, bool) dact"

fun load_prefixes_each ::
    "('s, 'z) asn_dependencies_scheme \<Rightarrow> rstr \<Rightarrow> nat \<Rightarrow> nat list \<Rightarrow> canonical_cidr list \<times> notice list
     \<Rightarrow> ('s, app_error, canonical_cidr list \<times> notice list) dact" where
  "load_prefixes_each d dir stale_after [] acc = d_ok acc"
| "load_prefixes_each d dir stale_after (asn # asns) (found, notices) =
     d_bind (cancellation_check d) (\<lambda>_.
     d_bind (dep_load_prefixes d asn dir stale_after) (\<lambda>loaded.
       load_prefixes_each d dir stale_after asns
         (found @ apb_prefixes loaded,
          notices @ (if apb_stale loaded then [notice_warning (AsnStaleFallback asn)] else []))))"

definition remove_exact_duplicates ::
    "('s, 'z) ban_dependencies_scheme \<Rightarrow> rstr \<Rightarrow> canonical_cidr list \<Rightarrow> ('s, app_error, nat) dact" where
  "remove_exact_duplicates d path duplicates =
     (if duplicates = [] then d_ok 0
      else d_bind (repo_load d path) (\<lambda>document.
        let removal_indexes = set (exact_match_indexes (map canonical (doc_lines document)) duplicates);
            kept = kept_lines (doc_lines document) removal_indexes;
            removed = length (doc_lines document) - length kept
        in d_bind (if removed > 0 then repo_write_lines d path kept else d_ok ()) (\<lambda>_. d_ok removed)))"

definition execute_ban_asn ::
    "('s, 'z) asn_dependencies_scheme \<Rightarrow> asn_ban_request \<Rightarrow> ('s, app_error, asn_ban_outcome) dact" where
  "execute_ban_asn d request =
     d_bind (cancellation_check d) (\<lambda>_.
     d_bind (port_resolve d (abr_paths request) ConfigRequired) (\<lambda>paths.
     d_bind (d_res (map_err AsnTokens (normalize_asn_tokens (abr_tokens request)))) (\<lambda>requested.
     with_lock d (lock_file paths) (
       d_bind (port_load_config d (config_file paths)) (\<lambda>cfg.
         let stale_after = asn_stale_get (cache_stale_after_secs (cfg_asn cfg));
             temporary_path = temporary_bans_file paths
         in d_bind (case abr_duration request of
              Some _ \<Rightarrow> d_bind (port_load_bans d temporary_path) (\<lambda>t. d_ok (Some t)) | None \<Rightarrow> d_ok None) (\<lambda>temporary.
         let cache = path_join (cache_dir paths) (lit ''asn'')
         in d_bind (load_prefixes_each d cache stale_after requested ([], [])) (\<lambda>(found, notices).
         let resolved = sort_dedup found
         in d_bind (cancellation_check d) (\<lambda>_.
         case (abr_duration request, temporary) of
           (Some duration, Some temporary) \<Rightarrow>
             d_bind (record_temporary_bans d (tb_asns temporary) requested (set (banned (cfg_asn cfg))) duration
                 temporary_path (\<lambda>asn. lit ''AS'' @ show_nat asn)) (\<lambda>(changes, changed, asns).
             d_bind (if changed then port_save_bans d temporary_path (temporary\<lparr>tb_asns := asns\<rparr>) else d_ok ()) (\<lambda>_.
               d_ok \<lparr>abo_added = [], abo_already_present = [], abo_removed_duplicate_entries = 0,
                 abo_notices = notices @ (if changed \<and> timeout (cfg_ipset cfg) \<noteq> 0 then [kernel_timeout_notice] else []),
                 abo_temporary_changes = changes\<rparr>))
         | _ \<Rightarrow>
             d_bind (dep_update_config d (config_file paths) requested []) (\<lambda>update.
             d_bind (d_try (remove_exact_duplicates d (blocklist_file paths) resolved)) (\<lambda>cleaned.
               d_ok \<lparr>abo_added = acu_added update,
                 abo_already_present = filter (\<lambda>asn. asn \<notin> set (acu_added update)) requested,
                 abo_removed_duplicate_entries = (case cleaned of Inr n \<Rightarrow> n | Inl _ \<Rightarrow> 0),
                 abo_notices = notices @ (case cleaned of Inl e \<Rightarrow> [notice_warning (AsnDuplicateCleanupFailed e)] | Inr _ \<Rightarrow> []),
                 abo_temporary_changes = []\<rparr>))))))))))"

fun remove_asns :: "nat list \<Rightarrow> (nat, nat) btree \<Rightarrow> nat list \<times> (nat, nat) btree" where
  "remove_asns [] m = ([], m)"
| "remove_asns (asn # asns) m = (case remove_asns asns (btree_remove asn m) of (removed, m') \<Rightarrow>
     ((if map_of m asn \<noteq> None then asn # removed else removed), m'))"

fun delete_caches ::
    "('s, 'z) asn_dependencies_scheme \<Rightarrow> rstr \<Rightarrow> nat list \<Rightarrow> nat \<times> notice list \<Rightarrow> ('s, app_error, nat \<times> notice list) dact" where
  "delete_caches d cache [] acc = d_ok acc"
| "delete_caches d cache (asn # asns) (deleted, notices) =
     d_bind (d_try (dep_delete_cache d asn cache)) (\<lambda>r. case r of
         Inr True \<Rightarrow> delete_caches d cache asns (deleted + 1, notices)
       | Inr False \<Rightarrow> delete_caches d cache asns (deleted, notices)
       | Inl e \<Rightarrow> delete_caches d cache asns (deleted, notices @ [notice_warning (AsnCacheCleanupFailed asn e)]))"

definition execute_unban_asn ::
    "('s, 'z) asn_dependencies_scheme \<Rightarrow> asn_unban_request \<Rightarrow> ('s, app_error, asn_unban_outcome) dact" where
  "execute_unban_asn d request =
     d_bind (cancellation_check d) (\<lambda>_.
     d_bind (port_resolve d (aur_paths request) ConfigRequired) (\<lambda>paths.
     d_bind (d_res (map_err AsnTokens (normalize_asn_tokens (aur_tokens request)))) (\<lambda>requested.
     with_lock d (lock_file paths) (
       d_bind (port_load_config d (config_file paths)) (\<lambda>cfg.
         let temporary_path = temporary_bans_file paths
         in d_bind (port_load_bans d temporary_path) (\<lambda>temporary.
         case remove_asns requested (tb_asns temporary) of (removed, asns) \<Rightarrow>
         d_bind (cancellation_check d) (\<lambda>_.
         let temporary_changed = removed \<noteq> []
         in d_bind (if temporary_changed then port_save_bans d temporary_path (temporary\<lparr>tb_asns := asns\<rparr>) else d_ok ()) (\<lambda>_.
         d_bind (if temporary_changed \<and> \<not> list_ex (\<lambda>asn. asn \<in> set (banned (cfg_asn cfg))) requested
             then d_ok \<lparr>acu_added = [], acu_removed = []\<rparr>
             else d_map_err (\<lambda>source. partial_update_error source temporary_changed temporary_path (config_file paths))
               (dep_update_config d (config_file paths) [] requested)) (\<lambda>update.
         d_bind (delete_caches d (path_join (cache_dir paths) (lit ''asn'')) requested (0, [])) (\<lambda>(deleted, notices).
           d_ok \<lparr>auo_removed = sort_dedup (removed @ acu_removed update),
             auo_deleted_cache_files = deleted, auo_notices = notices\<rparr>))))))))))"

end
