(* ===== verification/Blocklist_File.thy ===== *)
theory Blocklist_File
  imports Blocklist App_Types
begin

text \<open>
  The local blocklist as a file, \<^verbatim>\<open>crates/kidobo-adapters/src/blocklist_file.rs\<close>: bounded
  loading, appending, rewriting and normalising, and the side file that lets a synchronization
  skip an unchanged blocklist. The lemmas reduce what is on disk to the entries it denotes.
\<close>

section \<open>Loading and writing\<close>

definition BLOCKLIST_READ_LIMIT :: nat where
  "BLOCKLIST_READ_LIMIT = 16 * 1024 * 1024"

definition BLOCKLIST_TARGET_FILE_READ_LIMIT :: nat where
  "BLOCKLIST_TARGET_FILE_READ_LIMIT = 2 * 1024 * 1024"

definition map_invalid_blocklist_line :: "rstr \<Rightarrow> invalid_blocklist_line \<Rightarrow> app_error" where
  "map_invalid_blocklist_line path err = BlocklistParseLine path (line_number err) (line_content err)"

definition load_blocklist_document ::
    "('s, 'z) file_host_scheme \<Rightarrow> rstr \<Rightarrow> ('s, app_error, blocklist_document) dact" where
  "load_blocklist_document h path =
     d_bind (d_try (read_to_string_with_limit h path BLOCKLIST_READ_LIMIT)) (\<lambda>contents.
     d_bind (case contents of Inr t \<Rightarrow> d_ok t
             | Inl e \<Rightarrow> if e = NotFound then d_ok [] else d_err (BlocklistRead path e)) (\<lambda>contents.
       d_res (map_err (map_invalid_blocklist_line path) (BlocklistDocument_parse contents))))"

definition ensure_blocklist_parent :: "('s, 'z) file_host_scheme \<Rightarrow> rstr \<Rightarrow> ('s, app_error, unit) dact" where
  "ensure_blocklist_parent h path = (case path_parent path of
     Some parent \<Rightarrow> d_map_err (BlocklistWrite parent) (fh_create_dir_all h parent)
   | None \<Rightarrow> d_ok ())"

definition append_entries_with_limit ::
    "('s, 'z) file_host_scheme \<Rightarrow> rstr \<Rightarrow> rstr list \<Rightarrow> bool \<Rightarrow> bool \<Rightarrow> nat \<Rightarrow> ('s, app_error, unit) dact" where
  "append_entries_with_limit h path entries has_cont trailing limit =
     (if entries = [] then d_ok ()
      else d_bind (ensure_blocklist_parent h path) (\<lambda>_.
           d_bind (d_try (read_to_string_with_limit h path limit)) (\<lambda>contents.
           d_bind (case contents of Inr t \<Rightarrow> d_ok t
                   | Inl e \<Rightarrow> if e = NotFound then d_ok [] else d_err (BlocklistRead path e)) (\<lambda>contents.
             let contents = (if has_cont \<and> \<not> trailing then contents @ [10] else contents);
                 contents = contents @ concat (map (\<lambda>entry. entry @ [10]) entries)
             in d_map_err (BlocklistWrite path) (write_string_atomic_with_limit h path contents limit)))))"

definition write_blocklist_lines_with_limit ::
    "('s, 'z) file_host_scheme \<Rightarrow> rstr \<Rightarrow> rstr list \<Rightarrow> nat \<Rightarrow> ('s, app_error, unit) dact" where
  "write_blocklist_lines_with_limit h path ls limit =
     (let contents = str_join [10] ls;
          contents = (if contents \<noteq> [] then contents @ [10] else contents)
      in d_map_err (BlocklistWrite path) (write_string_atomic_with_limit h path contents limit))"

definition write_blocklist_lines :: "('s, 'z) file_host_scheme \<Rightarrow> rstr \<Rightarrow> rstr list \<Rightarrow> ('s, app_error, unit) dact" where
  "write_blocklist_lines h path ls = write_blocklist_lines_with_limit h path ls BLOCKLIST_READ_LIMIT"

definition read_target_lines :: "('s, 'z) file_host_scheme \<Rightarrow> rstr \<Rightarrow> ('s, app_error, rstr list) dact" where
  "read_target_lines h path =
     d_bind (d_map_err (BlocklistTargetFileRead path)
         (read_to_string_with_limit h path BLOCKLIST_TARGET_FILE_READ_LIMIT)) (\<lambda>contents.
       d_ok (str_lines contents))"

definition normalize_local_blocklist_with_limit ::
    "('s, 'z) file_host_scheme \<Rightarrow> rstr \<Rightarrow> nat \<Rightarrow> ('s, app_error, unit) dact" where
  "normalize_local_blocklist_with_limit h path limit =
     d_bind (d_try (read_to_string_with_limit h path limit)) (\<lambda>found. case found of
         Inl e \<Rightarrow> if e = NotFound then d_ok () else d_err (BlocklistRead path e)
       | Inr old \<Rightarrow>
           d_bind (d_res (map_err (map_invalid_blocklist_line path) (canonicalize_blocklist old))) (\<lambda>normalized.
             if normalized \<noteq> old
             then d_map_err (BlocklistWrite path) (write_string_atomic_with_limit h path normalized limit)
             else d_ok ()))"

definition normalize_local_blocklist :: "('s, 'z) file_host_scheme \<Rightarrow> rstr \<Rightarrow> ('s, app_error, unit) dact" where
  "normalize_local_blocklist h path = normalize_local_blocklist_with_limit h path BLOCKLIST_READ_LIMIT"

section \<open>The fast state\<close>

text \<open>Metadata is the length and the modification time, if it is available and not before 1970.\<close>

record 's metadata_host = "'s file_host" +
  fh_try_exists :: "rstr \<Rightarrow> ('s, io_error, bool) dact"
  fh_metadata :: "rstr \<Rightarrow> ('s, io_error, nat \<times> nat option) dact"

datatype blocklist_normalize_result = MissingBlocklist | SkippedUnchanged | Checked

record blocklist_fast_state =
  fs_byte_len :: nat
  fs_modified_nanos :: nat

definition BLOCKLIST_FAST_STATE_VERSION :: rstr where
  "BLOCKLIST_FAST_STATE_VERSION = lit ''v1''"

definition BLOCKLIST_FAST_STATE_READ_LIMIT :: nat where
  "BLOCKLIST_FAST_STATE_READ_LIMIT = 1024"

definition fast_state_capture ::
    "('s, 'z) metadata_host_scheme \<Rightarrow> rstr \<Rightarrow> ('s, 'e, blocklist_fast_state option) dact" where
  "fast_state_capture h path = d_bind (d_try (fh_metadata h path)) (\<lambda>m. d_ok (case m of
     Inr (len, Some nanos) \<Rightarrow> Some \<lparr>fs_byte_len = len, fs_modified_nanos = nanos\<rparr> | _ \<Rightarrow> None))"

definition fast_state_parse :: "rstr \<Rightarrow> blocklist_fast_state option" where
  "fast_state_parse contents = (case split_whitespace contents of
     v # ps \<Rightarrow> if v \<noteq> BLOCKLIST_FAST_STATE_VERSION then None
       else (case ps of
           l # ps \<Rightarrow> (case parse_uint (2 ^ 64 - 1) l of None \<Rightarrow> None | Some len \<Rightarrow> (case ps of
               m # ps \<Rightarrow> (case parse_uint (2 ^ 128 - 1) m of None \<Rightarrow> None | Some nanos \<Rightarrow>
                   if ps \<noteq> [] then None else Some \<lparr>fs_byte_len = len, fs_modified_nanos = nanos\<rparr>)
             | [] \<Rightarrow> None))
         | [] \<Rightarrow> None)
   | [] \<Rightarrow> None)"

definition fast_state_serialize :: "blocklist_fast_state \<Rightarrow> rstr" where
  "fast_state_serialize f = BLOCKLIST_FAST_STATE_VERSION @ [32] @ show_nat (fs_byte_len f) @ [32]
     @ show_nat (fs_modified_nanos f) @ [10]"

definition read_blocklist_fast_state ::
    "('s, 'z) metadata_host_scheme \<Rightarrow> rstr \<Rightarrow> ('s, 'e, blocklist_fast_state option) dact" where
  "read_blocklist_fast_state h path =
     d_bind (d_try (read_to_string_with_limit h path BLOCKLIST_FAST_STATE_READ_LIMIT)) (\<lambda>contents.
       d_ok (case contents of Inr t \<Rightarrow> fast_state_parse t | Inl _ \<Rightarrow> None))"

definition write_blocklist_fast_state ::
    "('s, 'z) metadata_host_scheme \<Rightarrow> rstr \<Rightarrow> blocklist_fast_state \<Rightarrow> ('s, io_error, unit) dact" where
  "write_blocklist_fast_state h path state =
     d_bind (case path_parent path of Some parent \<Rightarrow> fh_create_dir_all h parent | None \<Rightarrow> d_ok ()) (\<lambda>_.
       write_string_atomic h path (fast_state_serialize state))"

definition normalize_local_blocklist_with_fast_state ::
    "('s, 'z) metadata_host_scheme \<Rightarrow> rstr \<Rightarrow> rstr \<Rightarrow> ('s, app_error, blocklist_normalize_result) dact" where
  "normalize_local_blocklist_with_fast_state h blocklist_path fast_state_path =
     d_bind (d_map_err (BlocklistRead blocklist_path) (fh_try_exists h blocklist_path)) (\<lambda>exists.
       if \<not> exists then d_ok MissingBlocklist
       else d_bind (fast_state_capture h blocklist_path) (\<lambda>current.
            d_bind (read_blocklist_fast_state h fast_state_path) (\<lambda>cached.
              if current \<noteq> None \<and> cached \<noteq> None \<and> current = cached then d_ok SkippedUnchanged
              else d_bind (normalize_local_blocklist h blocklist_path) (\<lambda>_.
                   d_bind (fast_state_capture h blocklist_path) (\<lambda>final.
                   d_bind (case final of
                       Some state \<Rightarrow> d_bind (d_try (write_blocklist_fast_state h fast_state_path state)) (\<lambda>_. d_ok ())
                     | None \<Rightarrow> d_ok ()) (\<lambda>_.
                     d_ok Checked))))))"

section \<open>Texts and the entries they denote\<close>

definition text_valid :: "rstr \<Rightarrow> bool" where
  "text_valid t \<longleftrightarrow> list_all line_valid (str_lines t)"

definition text_entries :: "rstr \<Rightarrow> canonical_cidr list" where
  "text_entries t = entries_of (str_lines t)"

lemma trim_strip_cr [simp]: "trim (strip_cr l) = trim l"
proof (cases "l \<noteq> [] \<and> last l = 13")
  case True
  then obtain a where l: "l = a @ [13]" by (metis append_butlast_last_id)
  have w: "is_whitespace 13" by (simp add: is_whitespace_def)
  have "dropWhile is_whitespace (a @ [13]) = (if list_all is_whitespace a then [] else dropWhile is_whitespace a @ [13])"
    by (induction a) (auto simp: w)
  moreover have "list_all is_whitespace a \<Longrightarrow> dropWhile is_whitespace a = []"
    by (induction a) auto
  ultimately show ?thesis
    by (cases "list_all is_whitespace a")
      (simp_all add: trim_def trim_start_def trim_end_def l strip_cr_def w del: dropWhile_eq_Nil_conv)
qed (auto simp: strip_cr_def)

lemma entry_strip_cr [simp]:
  "is_header (strip_cr l) = is_header l" "entry_of (strip_cr l) = entry_of l" "line_valid (strip_cr l) = line_valid l"
  by (simp_all add: is_header_def entry_of_def line_valid_def)

lemma entries_of_append [simp]: "entries_of (xs @ ys) = entries_of xs @ entries_of ys"
  by (simp add: entries_of_def)

lemma entries_of_strip [simp]: "entries_of (map strip_cr ls) = entries_of ls"
  by (simp add: entries_of_def comp_def)

lemma blank_line [simp]: "line_valid []" "entry_of [] = None" "entries_of [[]] = []"
  by (simp_all add: line_valid_def is_header_def trim_def trim_start_def trim_end_def entries_of_def entry_of_def)

lemma split_on_append: "split_on (\<lambda>c. c = 10) (a @ 10 # r) = split_on (\<lambda>c. c = 10) a @ split_on (\<lambda>c. c = 10) r"
proof (induction a)
  case (Cons c a)
  obtain w ws where "split_on (\<lambda>c. c = 10) a = w # ws"
    using split_on_not_Nil [of "\<lambda>c. c = 10" a] by (cases "split_on (\<lambda>c. c = 10) a") auto
  then show ?case using Cons by simp
qed simp

lemma str_lines_split: "text_valid a = list_all line_valid (split_on (\<lambda>c. c = 10) a)"
    "text_entries a = entries_of (split_on (\<lambda>c. c = 10) a)"
proof -
  let ?ps = "split_on (\<lambda>c. c = 10) a"
  obtain b x where ps: "?ps = b @ [x]"
    using split_on_not_Nil [of "\<lambda>c. c = 10" a] by (cases ?ps rule: rev_cases) auto
  show "text_valid a = list_all line_valid ?ps" "text_entries a = entries_of ?ps"
    unfolding text_valid_def text_entries_def str_lines_def Let_def ps
    by (auto simp: list_all_iff)
qed

lemma text_append:
  "text_valid (a @ 10 # r) \<longleftrightarrow> text_valid a \<and> text_valid r"
  "text_entries (a @ 10 # r) = text_entries a @ text_entries r"
  by (simp_all add: str_lines_split split_on_append)

lemma text_Nil [simp]: "text_valid []" "text_entries [] = []"
  by (simp_all add: text_valid_def text_entries_def entries_of_def)

lemma text_line: "10 \<notin> set l \<Longrightarrow> text_valid l = line_valid l" "10 \<notin> set l \<Longrightarrow> text_entries l = entries_of [l]"
proof -
  assume "10 \<notin> set l"
  then have "split_on (\<lambda>c. c = 10) l = [l]" by (induction l) auto
  then show "text_valid l = line_valid l" "text_entries l = entries_of [l]" by (simp_all add: str_lines_split)
qed

lemma parse_text: "BlocklistDocument_parse t = Inr d \<longleftrightarrow> text_valid t
    \<and> d = \<lparr>doc_lines = map mk_line (str_lines t), has_content = (t \<noteq> []), trailing_newline = suffix [10] t\<rparr>"
  by (simp add: parse_document_Inr text_valid_def)

lemma parsed_entries: "BlocklistDocument_parse t = Inr d \<Longrightarrow> document_entries d = text_entries t"
  by (simp add: document_entries_eq text_entries_def)

text \<open>Appending printed networks, and writing lines.\<close>

lemma text_entry_lines:
  assumes "canonicals_ok cs"
  shows "text_valid (concat (map (\<lambda>e. e @ [10]) (map show_cidr cs)))
    \<and> text_entries (concat (map (\<lambda>e. e @ [10]) (map show_cidr cs))) = cs"
  using assms
proof (induction cs)
  case (Cons c cs)
  then have c: "canonical_ok c" by (simp add: canonicals_ok_def)
  have "10 \<notin> set (show_cidr c)"
    using addr_chars_cidr [of c] by (auto simp: list_all_iff dest: addr_char_plain)
  then have "text_valid (show_cidr c)" "text_entries (show_cidr c) = [c]"
    using show_cidr_entry [OF c] by (simp_all add: text_line line_valid_def entries_of_def)
  with Cons show ?case by (simp add: text_append canonicals_ok_def)
qed simp

definition appended_text :: "rstr \<Rightarrow> bool \<Rightarrow> bool \<Rightarrow> rstr list \<Rightarrow> rstr" where
  "appended_text t has_cont trailing es =
     (if has_cont \<and> \<not> trailing then t @ [10] else t) @ concat (map (\<lambda>e. e @ [10]) es)"

lemma appended_entries:
  assumes "text_valid t" "canonicals_ok cs"
  shows "text_valid (appended_text t (t \<noteq> []) (suffix [10] t) (map show_cidr cs))"
    "text_entries (appended_text t (t \<noteq> []) (suffix [10] t) (map show_cidr cs)) = text_entries t @ cs"
proof -
  let ?r = "concat (map (\<lambda>e. e @ [10]) (map show_cidr cs))"
  note r = text_entry_lines [OF assms(2)]
  have "text_valid (appended_text t (t \<noteq> []) (suffix [10] t) (map show_cidr cs))
    \<and> text_entries (appended_text t (t \<noteq> []) (suffix [10] t) (map show_cidr cs)) = text_entries t @ cs"
  proof (cases "suffix [10] t")
    case True
    then obtain a where "t = a @ [10]" by (auto simp: suffix_def)
    then show ?thesis using r assms(1) True by (auto simp: appended_text_def text_append)
  next
    case False
    then show ?thesis using r assms(1) by (cases "t = []") (auto simp: appended_text_def text_append)
  qed
  then show "text_valid (appended_text t (t \<noteq> []) (suffix [10] t) (map show_cidr cs))"
    "text_entries (appended_text t (t \<noteq> []) (suffix [10] t) (map show_cidr cs)) = text_entries t @ cs" by blast+
qed

definition lines_text :: "rstr list \<Rightarrow> rstr" where
  "lines_text ls = (let t = str_join [10] ls in if t \<noteq> [] then t @ [10] else t)"

lemma joined_text:
  assumes "\<forall>l \<in> set ls. 10 \<notin> set l" "ls \<noteq> []"
  shows "text_valid (str_join [10] ls) = list_all line_valid ls \<and> text_entries (str_join [10] ls) = entries_of ls"
  using assms(2,1)
proof (induction ls rule: list_nonempty_induct)
  case (single l)
  then show ?case by (simp add: text_line)
next
  case (cons l ls)
  then have "str_join [10] (l # ls) = l @ 10 # str_join [10] ls" by (cases ls) simp_all
  moreover have "entries_of (l # ls) = entries_of [l] @ entries_of ls" by (simp add: entries_of_def)
  ultimately show ?case using cons by (simp add: text_append text_line)
qed

lemma lines_text_entries:
  assumes "\<forall>l \<in> set ls. 10 \<notin> set l"
  shows "text_valid (lines_text ls) = list_all line_valid ls" "text_entries (lines_text ls) = entries_of ls"
proof -
  have "text_valid (lines_text ls) = list_all line_valid ls \<and> text_entries (lines_text ls) = entries_of ls"
  proof (cases "ls = []")
    case True
    then show ?thesis by (simp add: lines_text_def Let_def entries_of_def)
  next
    case False
    show ?thesis using joined_text [OF assms False]
      by (cases "str_join [10] ls = []") (auto simp: lines_text_def Let_def text_append)
  qed
  then show "text_valid (lines_text ls) = list_all line_valid ls" "text_entries (lines_text ls) = entries_of ls" by blast+
qed

section \<open>The file as a blocklist\<close>

definition disk_text :: "nat \<Rightarrow> file_map \<Rightarrow> rstr \<Rightarrow> rstr option" where
  "disk_text limit F p = (case F p of None \<Rightarrow> Some []
     | Some (Utf8 t) \<Rightarrow> if utf8_len t \<le> limit then Some t else None | Some (Raw _) \<Rightarrow> None)"

definition blocklist_of :: "file_map \<Rightarrow> rstr \<Rightarrow> canonical_cidr list option" where
  "blocklist_of F p = (case disk_text BLOCKLIST_READ_LIMIT F p of None \<Rightarrow> None
     | Some t \<Rightarrow> if text_valid t then Some (text_entries t) else None)"

text \<open>A failed write: the target is as it was, or complete; nothing but temporary files differs.\<close>

definition old_or_new ::
    "('s, 'z) file_host_scheme \<Rightarrow> rstr \<Rightarrow> rstr \<Rightarrow> nat \<Rightarrow> file_map \<Rightarrow> file_map \<Rightarrow> bool" where
  "old_or_new h p t limit F G \<longleftrightarrow>
     (\<forall>q. q \<noteq> p \<and> q \<notin> temp_paths h p \<longrightarrow> G q = F q) \<and> (G p = F p \<or> utf8_len t \<le> limit \<and> G p = Some (Utf8 t))"

lemma old_or_new_refl: "old_or_new h p t limit F F"
  by (simp add: old_or_new_def)

lemma limits: "BLOCKLIST_READ_LIMIT \<le> U64_LIMIT - 1" "BLOCKLIST_TARGET_FILE_READ_LIMIT \<le> U64_LIMIT - 1"
  "BLOCKLIST_FAST_STATE_READ_LIMIT \<le> U64_LIMIT - 1"
  by (simp_all add: BLOCKLIST_READ_LIMIT_def BLOCKLIST_TARGET_FILE_READ_LIMIT_def
      BLOCKLIST_FAST_STATE_READ_LIMIT_def U64_LIMIT_def)

context file_system
begin

text \<open>A bounded read in which a missing file counts as empty.\<close>

lemma read_or_empty_returns:
  assumes "limit \<le> U64_LIMIT - 1"
  shows "returns (\<lambda>s. files s = F) (d_bind (d_try (read_to_string_with_limit h p limit)) (\<lambda>contents.
      case contents of Inr t \<Rightarrow> d_ok t | Inl e \<Rightarrow> if e = NotFound then d_ok [] else d_err (g e)))
    (\<lambda>t s. files s = F \<and> disk_text limit F p = Some t) (\<lambda>_ s. files s = F)"
proof (rule returns_bind)
  show "returns (\<lambda>s. files s = F) (d_try (read_to_string_with_limit h p limit))
      (\<lambda>r s. files s = F \<and> (case r of Inl e \<Rightarrow> e = NotFound \<longrightarrow> F p = None
         | Inr t \<Rightarrow> F p = Some (Utf8 t) \<and> utf8_len t \<le> limit)) (\<lambda>_ s. files s = F)"
    by (rule returns_weaken [OF returns_try [OF read_string_returns [OF assms, of F p]]]) (auto split: sum.splits)
  fix r :: "io_error + rstr"
  show "returns (\<lambda>s. files s = F \<and> (case r of Inl e \<Rightarrow> e = NotFound \<longrightarrow> F p = None
         | Inr t \<Rightarrow> F p = Some (Utf8 t) \<and> utf8_len t \<le> limit))
      (case r of Inr t \<Rightarrow> d_ok t | Inl e \<Rightarrow> if e = NotFound then d_ok [] else d_err (g e))
      (\<lambda>t s. files s = F \<and> disk_text limit F p = Some t) (\<lambda>_ s. files s = F)"
    by (cases r) (auto simp: disk_text_def intro!: returns_ok returns_err)
qed

lemma write_limited_returns:
  "returns (\<lambda>s. files s = F) (write_string_atomic_with_limit h p t limit)
     (\<lambda>_ s. files s = F(p \<mapsto> Utf8 t) \<and> utf8_len t \<le> limit) (\<lambda>_ s. old_or_new h p t limit F (files s))"
  unfolding write_string_atomic_with_limit_def write_string_atomic_def write_bytes_atomic_def
proof (rule returns_if)
  assume len: "\<not> utf8_len t > limit"
  show "returns (\<lambda>s. files s = F) (write_bytes_atomic_mode h p (Utf8 t) Replace False)
      (\<lambda>_ s. files s = F(p \<mapsto> Utf8 t) \<and> utf8_len t \<le> limit) (\<lambda>_ s. old_or_new h p t limit F (files s))"
  proof (rule returns_weaken [OF atomic_write_returns])
    fix s assume "written_or_kept h Replace p (Utf8 t) F (files s)"
    then show "old_or_new h p t limit F (files s)"
      using written_or_kept_path written_or_kept_other len unfolding old_or_new_def by (metis not_less)
  qed (use len in auto)
qed (auto intro: returns_err old_or_new_refl)

lemma load_document_returns:
  "returns (\<lambda>s. files s = F) (load_blocklist_document h p)
     (\<lambda>d s. files s = F \<and> (\<exists>t. disk_text BLOCKLIST_READ_LIMIT F p = Some t \<and> BlocklistDocument_parse t = Inr d))
     (\<lambda>_ s. files s = F)"
  unfolding load_blocklist_document_def d_bind_assoc [symmetric]
  by (rule returns_bind [OF read_or_empty_returns [OF limits(1)]])
    (auto intro!: returns_res split: sum.split simp: map_err_Inr_iff)

lemma append_entries_returns:
  assumes "disk_text BLOCKLIST_READ_LIMIT F p = Some t" "es \<noteq> []"
  shows "returns (\<lambda>s. files s = F) (append_entries_with_limit h p es hc tr BLOCKLIST_READ_LIMIT)
    (\<lambda>_ s. files s = F(p \<mapsto> Utf8 (appended_text t hc tr es)) \<and> utf8_len (appended_text t hc tr es) \<le> BLOCKLIST_READ_LIMIT)
    (\<lambda>_ s. old_or_new h p (appended_text t hc tr es) BLOCKLIST_READ_LIMIT F (files s))"
    (is "returns ?P _ ?Q ?E")
proof -
  have parent: "returns ?P (ensure_blocklist_parent h p) (\<lambda>_. ?P) ?E"
    unfolding ensure_blocklist_parent_def
    by (auto split: option.split intro!: returns_ok returns_map_err_state returns_weaken [OF quiet_calls(5) [of F]] old_or_new_refl)
  have read: "returns ?P (d_bind (d_try (read_to_string_with_limit h p BLOCKLIST_READ_LIMIT)) (\<lambda>contents.
      case contents of Inr t \<Rightarrow> d_ok t | Inl e \<Rightarrow> if e = NotFound then d_ok [] else d_err (BlocklistRead p e)))
    (\<lambda>t' s. files s = F \<and> t' = t) ?E"
    by (rule returns_weaken [OF read_or_empty_returns [OF limits(1), of F p]])
      (use assms(1) in \<open>auto intro: old_or_new_refl\<close>)
  have wr: "returns (\<lambda>s. files s = F \<and> t' = t) (let contents = (if hc \<and> \<not> tr then t' @ [10] else t');
        contents = contents @ concat (map (\<lambda>entry. entry @ [10]) es)
      in d_map_err (BlocklistWrite p) (write_string_atomic_with_limit h p contents BLOCKLIST_READ_LIMIT)) ?Q ?E" for t'
  proof (cases "t' = t")
    case True
    have "returns ?P (d_map_err (BlocklistWrite p)
        (write_string_atomic_with_limit h p (appended_text t hc tr es) BLOCKLIST_READ_LIMIT)) ?Q ?E"
      by (rule returns_map_err_state [OF write_limited_returns])
    then have "returns (\<lambda>s. files s = F \<and> t' = t) (d_map_err (BlocklistWrite p)
        (write_string_atomic_with_limit h p (appended_text t hc tr es) BLOCKLIST_READ_LIMIT)) ?Q ?E"
      by (rule returns_pre [rotated]) simp
    then show ?thesis unfolding True Let_def appended_text_def .
  qed (rule returns_false, simp)
  show ?thesis
    unfolding append_entries_with_limit_def if_not_P [OF assms(2)]
    by (rule returns_bind [OF parent], subst d_bind_assoc [symmetric], rule returns_bind [OF read], rule wr)
qed

lemma write_lines_returns:
  "returns (\<lambda>s. files s = F) (write_blocklist_lines h p ls)
    (\<lambda>_ s. files s = F(p \<mapsto> Utf8 (lines_text ls)) \<and> utf8_len (lines_text ls) \<le> BLOCKLIST_READ_LIMIT)
    (\<lambda>_ s. old_or_new h p (lines_text ls) BLOCKLIST_READ_LIMIT F (files s))"
  unfolding write_blocklist_lines_def write_blocklist_lines_with_limit_def Let_def
    lines_text_def [unfolded Let_def, symmetric]
  by (rule returns_map_err_state [OF write_limited_returns])

end

lemma blocklist_of_document:
  "disk_text BLOCKLIST_READ_LIMIT F p = Some t \<Longrightarrow> BlocklistDocument_parse t = Inr d
     \<Longrightarrow> blocklist_of F p = Some (document_entries d)"
  by (auto simp: blocklist_of_def parsed_entries) (simp add: parse_text)

lemma blocklist_of_missing: "F p = None \<Longrightarrow> blocklist_of F p = Some []"
  by (simp add: blocklist_of_def disk_text_def)

lemma blocklist_of_text:
  "F p = Some (Utf8 t) \<Longrightarrow> utf8_len t \<le> BLOCKLIST_READ_LIMIT \<Longrightarrow> text_valid t
     \<Longrightarrow> blocklist_of F p = Some (text_entries t)"
  by (simp add: blocklist_of_def disk_text_def)

lemma old_or_new_blocklist:
  "old_or_new h p t BLOCKLIST_READ_LIMIT F G \<Longrightarrow> text_valid t
     \<Longrightarrow> blocklist_of G p = blocklist_of F p \<or> blocklist_of G p = Some (text_entries t)"
  by (auto simp: old_or_new_def blocklist_of_def disk_text_def)

lemma document_appended:
  assumes "BlocklistDocument_parse t = Inr d" "canonicals_ok cs"
  shows "text_valid (appended_text t (has_content d) (trailing_newline d) (map show_cidr cs))"
    "text_entries (appended_text t (has_content d) (trailing_newline d) (map show_cidr cs)) = document_entries d @ cs"
  using appended_entries [OF _ assms(2), of t] assms(1) parsed_entries [OF assms(1)] by (auto simp: parse_text)

text \<open>The lines of a document that are kept, and their entries.\<close>

lemma kept_document_lines:
  assumes "BlocklistDocument_parse t = Inr d" "set ls \<subseteq> set (doc_lines d)"
  shows "text_valid (lines_text (map original ls))"
    "text_entries (lines_text (map original ls)) = concat (map (\<lambda>l. case canonical l of Some c \<Rightarrow> [c] | None \<Rightarrow> []) ls)"
proof -
  have doc: "doc_lines d = map mk_line (str_lines t)" "text_valid t" using assms(1) by (auto simp: parse_text)
  then have lf: "\<forall>l \<in> set (map original ls). 10 \<notin> set l"
    using assms(2) str_lines_no_lf by fastforce
  have val: "\<forall>l \<in> set ls. line_valid (original l) \<and> canonical l = entry_of (original l)"
    using doc assms(2) by (fastforce simp: text_valid_def list_all_iff)
  show "text_valid (lines_text (map original ls))"
    using lines_text_entries(1) [OF lf] val by (simp add: list_all_iff)
  have "entries_of (map original ls) = concat (map (\<lambda>l. case canonical l of Some c \<Rightarrow> [c] | None \<Rightarrow> []) ls)"
    using val by (induction ls) (simp_all add: entries_of_def)
  then show "text_entries (lines_text (map original ls)) = concat (map (\<lambda>l. case canonical l of Some c \<Rightarrow> [c] | None \<Rightarrow> []) ls)"
    using lines_text_entries(2) [OF lf] by simp
qed

section \<open>Normalising\<close>

context file_system
begin

lemma read_target_lines_returns:
  "returns (\<lambda>s. files s = F) (read_target_lines h p)
     (\<lambda>ls s. files s = F \<and> (\<exists>t. F p = Some (Utf8 t) \<and> utf8_len t \<le> BLOCKLIST_TARGET_FILE_READ_LIMIT
        \<and> ls = str_lines t)) (\<lambda>_ s. files s = F)"
proof -
  have "returns (\<lambda>s. files s = F) (read_to_string_with_limit h p BLOCKLIST_TARGET_FILE_READ_LIMIT)
      (\<lambda>t s. files s = F \<and> F p = Some (Utf8 t) \<and> utf8_len t \<le> BLOCKLIST_TARGET_FILE_READ_LIMIT) (\<lambda>_ s. files s = F)"
    by (rule returns_weaken [OF read_string_returns [OF limits(2), of F p]]) auto
  from returns_map_err_state [OF this, of "BlocklistTargetFileRead p"] show ?thesis
    unfolding read_target_lines_def by (rule returns_bind) (auto intro: returns_ok)
qed

text \<open>Normalising keeps the file or writes its canonical form, and fails on invalid text.\<close>

lemma normalize_list_returns:
  "returns (\<lambda>s. files s = F) (normalize_local_blocklist h p)
     (\<lambda>_ s. F p = None \<and> files s = F \<or> (\<exists>t n. F p = Some (Utf8 t) \<and> canonicalize_blocklist t = Inr n
        \<and> files s = F(p \<mapsto> Utf8 n)))
     (\<lambda>_ s. files s = F \<or> (\<exists>t n. F p = Some (Utf8 t) \<and> canonicalize_blocklist t = Inr n
        \<and> old_or_new h p n BLOCKLIST_READ_LIMIT F (files s)))" (is "returns ?P _ ?Q ?E")
  unfolding normalize_local_blocklist_def normalize_local_blocklist_with_limit_def
proof (rule returns_bind)
  show "returns ?P (d_try (read_to_string_with_limit h p BLOCKLIST_READ_LIMIT))
      (\<lambda>r s. files s = F \<and> (case r of Inl e \<Rightarrow> e = NotFound \<longrightarrow> F p = None
         | Inr t \<Rightarrow> F p = Some (Utf8 t))) ?E"
    by (rule returns_weaken [OF returns_try [OF read_string_returns [OF limits(1), of F p]]]) (auto split: sum.splits)
  fix r :: "io_error + rstr"
  let ?body = "\<lambda>old. d_bind (d_res (map_err (map_invalid_blocklist_line p) (canonicalize_blocklist old)))
      (\<lambda>n. if n \<noteq> old then d_map_err (BlocklistWrite p) (write_string_atomic_with_limit h p n BLOCKLIST_READ_LIMIT)
        else d_ok ())"
  have body: "returns (\<lambda>s. files s = F \<and> F p = Some (Utf8 old)) (?body old) ?Q ?E" for old
  proof (cases "F p = Some (Utf8 old)")
    case True
    have "returns ?P (?body old) ?Q ?E"
    proof (rule returns_bind [where Q = "\<lambda>n s. files s = F \<and> canonicalize_blocklist old = Inr n"])
      show "returns ?P (d_res (map_err (map_invalid_blocklist_line p) (canonicalize_blocklist old)))
          (\<lambda>n s. files s = F \<and> canonicalize_blocklist old = Inr n) ?E"
        by (rule returns_res) (auto split: sum.split simp: map_err_Inr_iff)
      fix n
      show "returns (\<lambda>s. files s = F \<and> canonicalize_blocklist old = Inr n)
          (if n \<noteq> old then d_map_err (BlocklistWrite p) (write_string_atomic_with_limit h p n BLOCKLIST_READ_LIMIT)
            else d_ok ()) ?Q ?E"
      proof (cases "canonicalize_blocklist old = Inr n")
        case can: True
        have "returns ?P (d_map_err (BlocklistWrite p) (write_string_atomic_with_limit h p n BLOCKLIST_READ_LIMIT)) ?Q ?E"
          by (rule returns_map_err_state, rule returns_weaken [OF write_limited_returns [of F]]) (use True can in blast)+
        moreover have "returns ?P (d_ok ()) ?Q ?E" if "n = old"
        proof (rule returns_ok)
          fix s assume "files s = F"
          moreover have "F = F(p \<mapsto> Utf8 n)" using True that by auto
          ultimately show "?Q () s" using True can by metis
        qed
        ultimately show ?thesis using can by simp
      qed (rule returns_false, simp)
    qed
    then show ?thesis using True by simp
  qed (rule returns_false, simp)
  show "returns (\<lambda>s. files s = F \<and> (case r of Inl e \<Rightarrow> e = NotFound \<longrightarrow> F p = None | Inr t \<Rightarrow> F p = Some (Utf8 t)))
      (case r of Inl e \<Rightarrow> if e = NotFound then d_ok () else d_err (BlocklistRead p e) | Inr old \<Rightarrow> ?body old) ?Q ?E"
  proof (cases r)
    case (Inl e)
    then show ?thesis by (auto intro!: returns_ok returns_err)
  next
    case (Inr old)
    then show ?thesis using body [of old] by simp
  qed
qed

end

section \<open>The fast state\<close>

lemma fast_state_round_trip:
  assumes "fs_byte_len f < 2 ^ 64" "fs_modified_nanos f < 2 ^ 128"
  shows "fast_state_parse (fast_state_serialize f) = Some f"
proof -
  let ?a = "show_nat (fs_byte_len f)" and ?b = "show_nat (fs_modified_nanos f)"
  have w: "word_ok (lit ''v1'')" "word_ok ?a" "word_ok ?b"
    by (code_simp, (rule word_ok_show_nat)+)
  have sp: "is_whitespace 32" "is_whitespace 10" by (simp_all add: is_whitespace_def)
  have "split_whitespace (fast_state_serialize f) = [lit ''v1'', ?a, ?b]"
    using w sp by (simp add: split_whitespace_def fast_state_serialize_def BLOCKLIST_FAST_STATE_VERSION_def
        split_on_word word_ok_def del: split_on.simps) (simp add: word_ok_def)
  then show ?thesis
    using parse_uint_show [of "fs_byte_len f" "2 ^ 64 - 1"] parse_uint_show [of "fs_modified_nanos f" "2 ^ 128 - 1"] assms
    by (simp add: fast_state_parse_def BLOCKLIST_FAST_STATE_VERSION_def)
qed

end
