(* ===== verification/Temporary_File.thy ===== *)
theory Temporary_File
  imports Blocklist_File
begin

text \<open>
  Temporary bans as a file and the wall clock, \<^verbatim>\<open>crates/kidobo-adapters/src/temporary_bans.rs\<close>.
  The TOML library is a pair of parameters; \<open>toml_law\<close> is that it decodes what it renders.
\<close>

definition TEMPORARY_BANS_READ_LIMIT :: nat where
  "TEMPORARY_BANS_READ_LIMIT = 16 * 1024 * 1024"

definition load_temporary_bans ::
    "(rstr \<Rightarrow> rstr + stored_bans) \<Rightarrow> ('s, 'z) file_host_scheme \<Rightarrow> rstr \<Rightarrow> ('s, app_error, temporary_bans) dact" where
  "load_temporary_bans toml_decode h path =
     d_bind (d_try (read_to_string_with_limit h path TEMPORARY_BANS_READ_LIMIT)) (\<lambda>contents. case contents of
         Inl e \<Rightarrow> if e = NotFound then d_ok \<lparr>tb_ips = [], tb_asns = []\<rparr> else d_err (TemporaryBansIo path e)
       | Inr t \<Rightarrow> d_res (map_err (TemporaryBansFailed path) (parse_temporary_bans toml_decode t)))"

definition save_with_limit ::
    "(ban_document \<Rightarrow> rstr) \<Rightarrow> ('s, 'z) file_host_scheme \<Rightarrow> rstr \<Rightarrow> temporary_bans \<Rightarrow> nat
     \<Rightarrow> ('s, app_error, unit) dact" where
  "save_with_limit toml_render h path state limit =
     d_bind (d_res (map_err (TemporaryBansFailed path) (serialize_temporary_bans toml_render state))) (\<lambda>contents.
       if utf8_len contents > limit then d_err (TemporaryBansIo path InvalidData)
       else d_bind (case path_parent path of
             Some parent \<Rightarrow> if parent \<noteq> [] then d_map_err (TemporaryBansIo path) (fh_create_dir_all h parent) else d_ok ()
           | None \<Rightarrow> d_ok ()) (\<lambda>_.
         d_map_err (TemporaryBansIo path) (write_string_atomic_with_limit h path contents limit)))"

definition save_temporary_bans ::
    "(ban_document \<Rightarrow> rstr) \<Rightarrow> ('s, 'z) file_host_scheme \<Rightarrow> rstr \<Rightarrow> temporary_bans \<Rightarrow> ('s, app_error, unit) dact" where
  "save_temporary_bans toml_render h path state = save_with_limit toml_render h path state TEMPORARY_BANS_READ_LIMIT"

text \<open>The elapsed time since 1970 is a parameter: it may be unavailable.\<close>

definition now_unix_secs :: "('s \<Rightarrow> (rstr + nat) \<times> 's) \<Rightarrow> ('s, app_error, nat) dact" where
  "now_unix_secs elapsed = (\<lambda>s. case elapsed s of (r, s) \<Rightarrow> Some (case r of
       Inl reason \<Rightarrow> Inl (ClockFailed reason)
     | Inr secs \<Rightarrow> if secs \<le> I64_MAX then Inr secs else Inl (ClockFailed (lit ''out of range''))
     , s))"

section \<open>The file as a state\<close>

definition toml_law :: "(rstr \<Rightarrow> rstr + stored_bans) \<Rightarrow> (ban_document \<Rightarrow> rstr) \<Rightarrow> bool" where
  "toml_law toml_decode toml_render \<longleftrightarrow>
     (\<forall>b doc. ban_document_of b = Inr doc \<longrightarrow> toml_decode (toml_render doc) = Inr (stored_of doc))"

definition bans_of :: "(rstr \<Rightarrow> rstr + stored_bans) \<Rightarrow> file_map \<Rightarrow> rstr \<Rightarrow> temporary_bans option" where
  "bans_of toml_decode F q = (case F q of
     None \<Rightarrow> Some \<lparr>tb_ips = [], tb_asns = []\<rparr>
   | Some (Utf8 t) \<Rightarrow> if utf8_len t \<le> TEMPORARY_BANS_READ_LIMIT
       then (case parse_temporary_bans toml_decode t of Inr b \<Rightarrow> Some b | Inl _ \<Rightarrow> None) else None
   | Some (Raw _) \<Rightarrow> None)"

lemma no_bans_ok: "bans_ok \<lparr>tb_ips = [], tb_asns = []\<rparr>"
  by (simp add: bans_ok_def)

lemma bans_of_ok:
  assumes "bans_of toml_decode F q = Some b"
  shows "bans_ok b"
proof (cases "F q")
  case None
  then show ?thesis using assms no_bans_ok by (simp add: bans_of_def)
next
  case (Some c)
  then obtain t where "parse_temporary_bans toml_decode t = Inr b"
    using assms by (cases c) (auto simp: bans_of_def split: if_splits sum.splits)
  then show ?thesis by (rule parse_temporary_bans_ok)
qed

lemma temporary_limit: "TEMPORARY_BANS_READ_LIMIT \<le> U64_LIMIT - 1"
  by (simp add: TEMPORARY_BANS_READ_LIMIT_def U64_LIMIT_def)

context file_system
begin

lemma load_bans_returns:
  "returns (\<lambda>s. files s = F) (load_temporary_bans toml_decode h q)
     (\<lambda>b s. files s = F \<and> bans_of toml_decode F q = Some b) (\<lambda>_ s. files s = F)"
  unfolding load_temporary_bans_def
proof (rule returns_bind)
  show "returns (\<lambda>s. files s = F) (d_try (read_to_string_with_limit h q TEMPORARY_BANS_READ_LIMIT))
      (\<lambda>r s. files s = F \<and> (case r of Inl e \<Rightarrow> e = NotFound \<longrightarrow> F q = None
         | Inr t \<Rightarrow> F q = Some (Utf8 t) \<and> utf8_len t \<le> TEMPORARY_BANS_READ_LIMIT)) (\<lambda>_ s. files s = F)"
    by (rule returns_weaken [OF returns_try [OF read_string_returns [OF temporary_limit, of F q]]]) (auto split: sum.splits)
  fix r :: "io_error + rstr"
  show "returns (\<lambda>s. files s = F \<and> (case r of Inl e \<Rightarrow> e = NotFound \<longrightarrow> F q = None
         | Inr t \<Rightarrow> F q = Some (Utf8 t) \<and> utf8_len t \<le> TEMPORARY_BANS_READ_LIMIT))
      (case r of Inl e \<Rightarrow> if e = NotFound then d_ok \<lparr>tb_ips = [], tb_asns = []\<rparr> else d_err (TemporaryBansIo q e)
       | Inr t \<Rightarrow> d_res (map_err (TemporaryBansFailed q) (parse_temporary_bans toml_decode t)))
      (\<lambda>b s. files s = F \<and> bans_of toml_decode F q = Some b) (\<lambda>_ s. files s = F)"
    by (cases r) (auto simp: bans_of_def map_err_Inr_iff intro!: returns_ok returns_err returns_res split: sum.split)
qed

lemma save_bans_returns:
  assumes "toml_law toml_decode toml_render" "bans_ok b"
  shows "returns (\<lambda>s. files s = F) (save_temporary_bans toml_render h q b)
     (\<lambda>_ s. bans_of toml_decode (files s) q = Some b \<and> (\<forall>p. p \<noteq> q \<longrightarrow> files s p = F p))
     (\<lambda>_ s. (bans_of toml_decode (files s) q = bans_of toml_decode F q \<or> bans_of toml_decode (files s) q = Some b)
        \<and> (\<forall>p. p \<noteq> q \<and> p \<notin> temp_paths h q \<longrightarrow> files s p = F p))" (is "returns ?P _ ?Q ?E")
proof -
  obtain t where t: "serialize_temporary_bans toml_render b = Inr t" "parse_temporary_bans toml_decode t = Inr b"
    using serialize_bans_ok [of b toml_decode toml_render] assms by (auto simp: toml_law_def)
  have wr: "returns ?P (d_map_err (TemporaryBansIo q) (write_string_atomic_with_limit h q t TEMPORARY_BANS_READ_LIMIT)) ?Q ?E"
  proof (rule returns_map_err_state, rule returns_weaken [OF write_limited_returns [of F]])
    fix s assume "old_or_new h q t TEMPORARY_BANS_READ_LIMIT F (files s)"
    then show "?E e s" for e using t by (auto simp: old_or_new_def bans_of_def)
  qed (use t in \<open>auto simp: bans_of_def\<close>)
  have par: "returns ?P (case path_parent q of
      Some parent \<Rightarrow> if parent \<noteq> [] then d_map_err (TemporaryBansIo q) (fh_create_dir_all h parent) else d_ok ()
    | None \<Rightarrow> d_ok ()) (\<lambda>_. ?P) ?E"
    by (auto split: option.split intro!: returns_ok returns_map_err_state returns_weaken [OF quiet_calls(5) [of F]])
  have "returns ?P (if utf8_len t > TEMPORARY_BANS_READ_LIMIT then d_err (TemporaryBansIo q InvalidData)
      else d_bind (case path_parent q of
        Some parent \<Rightarrow> if parent \<noteq> [] then d_map_err (TemporaryBansIo q) (fh_create_dir_all h parent) else d_ok ()
      | None \<Rightarrow> d_ok ()) (\<lambda>_. d_map_err (TemporaryBansIo q)
        (write_string_atomic_with_limit h q t TEMPORARY_BANS_READ_LIMIT))) ?Q ?E"
    by (rule returns_if, rule returns_err, simp, rule returns_bind [OF par wr])
  then show ?thesis
    unfolding save_temporary_bans_def save_with_limit_def t(1) by (simp add: d_res_def d_ok_def [symmetric])
qed

end

end
