(* ===== verification/Ban_Store.thy ===== *)
theory Ban_Store
  imports Ban_App Temporary_File
begin

text \<open>
  What bans and unbans do to the operator's lists. The lists are read and written through ports;
  the locale \<open>ban_store\<close> states what a workflow may rely on, and is interpreted on the files of
  the adapters. The workflows are then correct on every such store, whatever fails.
\<close>

section \<open>Lists in memory\<close>

lemma parse_targets_ok:
  "parse_targets vs = (ts, []) \<longleftrightarrow> map parse_blocklist_target vs = map Inr ts"
proof (induction vs arbitrary: ts)
  case (Cons v vs)
  obtain xs bad where p: "parse_targets vs = (xs, bad)" by (cases "parse_targets vs")
  with Cons have IH: "(xs = ts \<and> bad = []) = (map parse_blocklist_target vs = map Inr ts)" for ts by simp
  show ?case
  proof (cases "parse_blocklist_target v")
    case (Inr t)
    then show ?thesis using p IH [of "tl ts"] by (cases ts) auto
  qed (auto simp: p)
qed auto

lemma parse_targets_invalid:
  "snd (parse_targets vs) = filter (\<lambda>v. isl (parse_blocklist_target v)) vs"
  by (induction vs) (auto split: prod.splits sum.splits)

lemma parse_target_canonical: "parse_blocklist_target v = Inr t \<Longrightarrow> canonical_ok t"
  by (auto simp: parse_blocklist_target_def ok_or_Inr_iff intro: parse_ip_cidr_strict_ok)

lemma parse_targets_canonical: "parse_targets vs = (ts, []) \<Longrightarrow> canonicals_ok ts"
proof -
  assume "parse_targets vs = (ts, [])"
  then have "\<forall>t \<in> set ts. \<exists>v. parse_blocklist_target v = Inr t"
    by (metis (no_types, lifting) parse_targets_ok image_iff image_set)
  then show ?thesis using parse_target_canonical by (auto simp: canonicals_ok_def)
qed

lemma appended_of_added: "appended_of os = map show_cidr (added os)"
  by (induction os rule: appended_of.induct) simp_all

lemma existing_entries_eq: "existing_entries d = document_entries d"
proof -
  have "List.map_filter canonical ls = concat (map (\<lambda>l. case canonical l of Some c \<Rightarrow> [c] | None \<Rightarrow> []) ls)" for ls
    by (induction ls) (auto simp: List.map_filter_simps split: option.split)
  then show ?thesis by (simp add: existing_entries_def document_entries_def)
qed

text \<open>Temporary entries: every requested entry that is not permanent gets the deadline.\<close>

lemma record_each_spec:
  assumes "record_each render permanent expiry seen m ts = (changes, m')" "btree_ok m"
  shows "btree_ok m' \<and> map_of m' = (\<lambda>k. if k \<in> set ts - permanent - seen then Some expiry else map_of m k)
    \<and> length changes = length ts"
  using assms
proof (induction ts arbitrary: seen m changes m')
  case (Cons t ts)
  show ?case
  proof (cases "t \<in> permanent \<or> t \<in> seen")
    case True
    then obtain cs where "record_each render permanent expiry seen m ts = (cs, m')" "length changes = Suc (length cs)"
      using Cons.prems(1) by (auto split: if_splits prod.splits)
    from Cons.IH [OF this(1) Cons.prems(2)] this(2) True show ?thesis by auto
  next
    case False
    then obtain cs where "record_each render permanent expiry (insert t seen) (btree_insert t expiry m) ts = (cs, m')"
        "length changes = Suc (length cs)"
      using Cons.prems(1) by (auto split: if_splits prod.splits)
    from Cons.IH [OF this(1) btree_ok_insert [OF Cons.prems(2)]] this(2) False show ?thesis by auto
  qed
qed simp

lemma btree_lookup: "btree_ok m \<Longrightarrow> (k, e) \<in> set m \<longleftrightarrow> map_of m k = Some e"
  by (rule map_of_eq_Some_iff [symmetric]) (simp add: btree_ok_def strict_sorted_iff)

text \<open>The deadline of the requested entries, and what becomes of a state that stays well-formed.\<close>

definition with_deadline :: "'k set \<Rightarrow> nat \<Rightarrow> ('k \<Rightarrow> nat option) \<Rightarrow> 'k \<Rightarrow> nat option" where
  "with_deadline ks expiry m k = (if k \<in> ks then Some expiry else m k)"

lemma record_ips_ok:
  assumes "record_each show_cidr permanent expiry {} (tb_ips b) ts = (changes, ips)" "bans_ok b" "canonicals_ok ts"
    and "\<exists>t \<in> set ts. t \<notin> permanent \<Longrightarrow> 0 < expiry \<and> expiry \<le> I64_MAX"
  shows "bans_ok (b\<lparr>tb_ips := ips\<rparr>)" "map_of ips = with_deadline (set ts - permanent) expiry (map_of (tb_ips b))"
proof -
  note parts = assms(2) [unfolded bans_ok_def]
  note b = parts [THEN conjunct1] parts [THEN conjunct2, THEN conjunct1]
    parts [THEN conjunct2, THEN conjunct2, THEN conjunct1] parts [THEN conjunct2, THEN conjunct2, THEN conjunct2]
  have r: "btree_ok ips" "map_of ips = (\<lambda>k. if k \<in> set ts - permanent - {} then Some expiry else map_of (tb_ips b) k)"
    by (rule record_each_spec [OF assms(1) b(1), THEN conjunct1])
      (rule record_each_spec [OF assms(1) b(1), THEN conjunct2, THEN conjunct1])
  then show m: "map_of ips = with_deadline (set ts - permanent) expiry (map_of (tb_ips b))"
    by (simp add: with_deadline_def fun_eq_iff)
  have "canonical_ok c \<and> 0 < e \<and> e \<le> I64_MAX" if "(c, e) \<in> set ips" for c e
  proof -
    have l: "map_of ips c = Some e" using that btree_lookup [OF r(1)] by simp
    show ?thesis
    proof (cases "c \<in> set ts - permanent")
      case True
      then have "e = expiry" using l by (simp add: m with_deadline_def)
      moreover have "canonical_ok c" "\<exists>t \<in> set ts. t \<notin> permanent" using True assms(3) by (auto simp: canonicals_ok_def)
      ultimately show ?thesis using assms(4) by simp
    next
      case False
      then have "map_of (tb_ips b) c = Some e" using l by (auto simp: m with_deadline_def split: if_splits)
      then have "(c, e) \<in> set (tb_ips b)" by (rule map_of_SomeD)
      from bspec [OF b(3) this] show ?thesis by simp
    qed
  qed
  then have all: "\<forall>(c, e) \<in> set ips. canonical_ok c \<and> 0 < e \<and> e \<le> I64_MAX"
    by (intro ballI) (rule case_prodI2, blast)
  have sel: "tb_ips (b\<lparr>tb_ips := ips\<rparr>) = ips" "tb_asns (b\<lparr>tb_ips := ips\<rparr>) = tb_asns b" by simp_all
  show "bans_ok (b\<lparr>tb_ips := ips\<rparr>)"
    unfolding bans_ok_def sel using r(1) b(2) all b(4) by (intro conjI)
qed

text \<open>The targets of a request: the one given, or the lines that its file holds.\<close>

definition input_lines :: "blocklist_input \<Rightarrow> rstr list option \<Rightarrow> rstr list \<Rightarrow> bool" where
  "input_lines inp held raw \<longleftrightarrow> (case inp of Single x \<Rightarrow> raw = [x] | File _ \<Rightarrow> held = Some raw)"

text \<open>What the clock answers in a state of \<open>P\<close>.\<close>

definition clock_answer :: "('s, 'e, nat) dact \<Rightarrow> ('s \<Rightarrow> bool) \<Rightarrow> nat \<Rightarrow> bool" where
  "clock_answer clock P now \<longleftrightarrow> (\<exists>t t'. P t \<and> clock t = Some (Inr now, t'))"

section \<open>The store\<close>

definition quiet :: "('s \<Rightarrow> 'v) \<Rightarrow> ('s, 'e, 'a) dact \<Rightarrow> bool" where
  "quiet view m \<longleftrightarrow> (\<forall>v. returns (\<lambda>s. view s = v) m (\<lambda>_ s. view s = v) (\<lambda>_ s. view s = v))"

text \<open>
  \<open>entries\<close> and \<open>bans\<close> read the two lists off a view of the state, \<open>loaded v doc\<close> says that
  \<open>doc\<close> is what loading gives there, and \<open>target v\<close> are the lines of the file that the input of the
  request names. A write that fails may have happened.
\<close>

locale ban_store =
  fixes d :: "('s, 'z) ban_dependencies_scheme" and view :: "'s \<Rightarrow> 'v" and paths :: resolved_paths
    and entries :: "'v \<Rightarrow> canonical_cidr list option" and bans :: "'v \<Rightarrow> temporary_bans option"
    and loaded :: "'v \<Rightarrow> blocklist_document \<Rightarrow> bool" and inp :: blocklist_input and target :: "'v \<Rightarrow> rstr list option"
  assumes loaded_entries: "loaded v doc \<Longrightarrow> entries v = Some (document_entries doc)"
    and entries_valid: "entries v = Some es \<Longrightarrow> canonicals_ok es"
    and bans_valid: "bans v = Some b \<Longrightarrow> bans_ok b"
    and cancel_quiet: "view (snd (port_is_cancelled d s)) = view s"
    and release_quiet: "view (port_release d s) = view s"
    and resolve_paths: "returns (\<lambda>s. view s = v) (port_resolve d req env)
          (\<lambda>p s. view s = v \<and> p = paths) (\<lambda>_ s. view s = v)"
    and config_quiet: "quiet view (port_load_config d p)"
    and acquire_quiet: "quiet view (port_acquire d p)"
    and now_quiet: "quiet view (port_now d)"
    and read_target: "inp = File p \<Longrightarrow> returns (\<lambda>s. view s = v) (repo_read_target_lines d p)
          (\<lambda>raw s. view s = v \<and> target v = Some raw) (\<lambda>_ s. view s = v)"
    and load_entries: "returns (\<lambda>s. view s = v) (repo_load d (blocklist_file paths))
          (\<lambda>doc s. view s = v \<and> loaded v doc) (\<lambda>_ s. view s = v)"
    and append: "loaded v doc \<Longrightarrow> canonicals_ok cs \<Longrightarrow> cs \<noteq> [] \<Longrightarrow>
          returns (\<lambda>s. view s = v) (repo_append_entries d (blocklist_file paths) (map show_cidr cs)
              (has_content doc) (trailing_newline doc))
            (\<lambda>_ s. entries (view s) = Some (document_entries doc @ cs) \<and> bans (view s) = bans v)
            (\<lambda>_ s. entries (view s) \<in> {entries v, Some (document_entries doc @ cs)} \<and> bans (view s) = bans v)"
    and write_lines: "loaded v doc \<Longrightarrow> set ls \<subseteq> set (doc_lines doc) \<Longrightarrow>
          returns (\<lambda>s. view s = v) (repo_write_lines d (blocklist_file paths) (map original ls))
            (\<lambda>_ s. entries (view s) = Some (List.map_filter canonical ls) \<and> bans (view s) = bans v)
            (\<lambda>_ s. entries (view s) \<in> {entries v, Some (List.map_filter canonical ls)} \<and> bans (view s) = bans v)"
    and load_bans: "returns (\<lambda>s. view s = v) (port_load_bans d (temporary_bans_file paths))
          (\<lambda>b s. view s = v \<and> bans v = Some b) (\<lambda>_ s. view s = v)"
    and save_bans: "bans_ok b \<Longrightarrow>
          returns (\<lambda>s. view s = v) (port_save_bans d (temporary_bans_file paths) b)
            (\<lambda>_ s. bans (view s) = Some b \<and> entries (view s) = entries v \<and> (\<forall>doc. loaded v doc \<longrightarrow> loaded (view s) doc))
            (\<lambda>_ s. bans (view s) \<in> {bans v, Some b} \<and> entries (view s) = entries v)"
begin

lemma unchanged_returns:
  "quiet view m \<Longrightarrow> (\<And>s. P s \<Longrightarrow> view s = v) \<Longrightarrow> (\<And>s. view s = v \<Longrightarrow> P s) \<Longrightarrow> (\<And>e s. view s = v \<Longrightarrow> E e s)
     \<Longrightarrow> returns P m (\<lambda>_. P) E"
  by (rule returns_weaken [where P = "\<lambda>s. view s = v" and Q = "\<lambda>_ s. view s = v" and E = "\<lambda>_ s. view s = v"])
    (auto simp: quiet_def)

lemma cancel_returns:
  "(\<And>s. view s = v \<Longrightarrow> E Interrupted s) \<Longrightarrow> returns (\<lambda>s. view s = v) (cancellation_check d) (\<lambda>_ s. view s = v) E"
  using cancel_quiet by (auto simp: returns_def cancellation_check_def split: prod.split) (metis snd_conv)+

lemma with_lock_returns:
  assumes "returns (\<lambda>s. view s = v) m (\<lambda>x s. Q x (view s)) (\<lambda>e s. E e (view s))" "\<And>e. E e v"
  shows "returns (\<lambda>s. view s = v) (with_lock d p m) (\<lambda>x s. Q x (view s)) (\<lambda>e s. E e (view s))"
  unfolding with_lock_def
proof (rule returns_bind [where Q = "\<lambda>_ s. view s = v"])
  show "returns (\<lambda>s. view s = v) (port_acquire d p) (\<lambda>_ s. view s = v) (\<lambda>e s. E e (view s))"
    using assms(2) by (intro unchanged_returns [OF acquire_quiet]) auto
  show "returns (\<lambda>s. view s = v) (d_finally (port_release d) m) (\<lambda>x s. Q x (view s)) (\<lambda>e s. E e (view s))"
    unfolding returns_def
  proof (intro allI impI)
    fix s assume "view s = v"
    from returns_imp [OF assms(1) this] obtain r s' where "m s = Some (r, s')"
      "case r of Inl e \<Rightarrow> E e (view s') | Inr x \<Rightarrow> Q x (view s')" by blast
    then show "\<exists>r s'. d_finally (port_release d) m s = Some (r, s')
        \<and> (case r of Inl e \<Rightarrow> E e (view s') | Inr x \<Rightarrow> Q x (view s'))"
      by (cases r) (simp_all add: d_finally_def release_quiet)
  qed
qed

lemma cancel_bind:
  "(\<And>e s. view s = v \<Longrightarrow> E e s) \<Longrightarrow> returns (\<lambda>s. view s = v) m Q E
     \<Longrightarrow> returns (\<lambda>s. view s = v) (d_bind (cancellation_check d) (\<lambda>_. m)) Q E"
  by (rule returns_bind [OF cancel_returns])

lemma quiet_bind:
  "quiet view m \<Longrightarrow> (\<And>e s. view s = v \<Longrightarrow> E e s) \<Longrightarrow> (\<And>x. returns (\<lambda>s. view s = v) (f x) Q E)
     \<Longrightarrow> returns (\<lambda>s. view s = v) (d_bind m f) Q E"
  by (rule returns_bind [OF unchanged_returns]) simp_all

lemma parse_input_returns:
  assumes "\<And>e. E e v"
  shows "returns (\<lambda>s. view s = v) (parse_input d inp)
    (\<lambda>parsed s. view s = v \<and> (\<exists>raw. input_lines inp (target v) raw \<and> (case parsed of
        ParsedReady ts \<Rightarrow> parse_targets raw = (ts, []) \<and> ts \<noteq> []
      | ParsedInvalid bad \<Rightarrow> bad = filter (\<lambda>x. isl (parse_blocklist_target x)) raw \<and> bad \<noteq> []
      | ParsedEmptyFile \<Rightarrow> raw = [])))
    (\<lambda>e s. E e (view s))"
proof (cases inp)
  case (Single x)
  show ?thesis unfolding parse_input_def Single blocklist_input.case
  proof (rule returns_res)
    fix s assume "view s = v"
    then show "case map_err (\<lambda>_. BlocklistTargetParse x) (and_then (parse_blocklist_target x) (\<lambda>t. Inr (ParsedReady [t]))) of
        Inl e \<Rightarrow> E e (view s) | Inr parsed \<Rightarrow> view s = v \<and> (\<exists>raw. input_lines (Single x) (target v) raw \<and> (case parsed of
        ParsedReady ts \<Rightarrow> parse_targets raw = (ts, []) \<and> ts \<noteq> []
      | ParsedInvalid bad \<Rightarrow> bad = filter (\<lambda>x. isl (parse_blocklist_target x)) raw \<and> bad \<noteq> []
      | ParsedEmptyFile \<Rightarrow> raw = []))"
      using assms by (cases "parse_blocklist_target x") (auto simp: input_lines_def)
  qed
next
  case (File p)
  show ?thesis unfolding parse_input_def File blocklist_input.case
  proof (rule returns_bind)
    show "returns (\<lambda>s. view s = v) (repo_read_target_lines d p) (\<lambda>raw s. view s = v \<and> target v = Some raw)
        (\<lambda>e s. E e (view s))"
      using assms by (intro returns_weaken [OF read_target [OF File]]) auto
    fix raw
    obtain ts bad where p: "parse_targets raw = (ts, bad)" by (cases "parse_targets raw")
    have bad: "bad = filter (\<lambda>x. isl (parse_blocklist_target x)) raw" using parse_targets_invalid [of raw] p by simp
    have ne: "raw \<noteq> [] \<Longrightarrow> bad = [] \<Longrightarrow> ts \<noteq> []" using p parse_targets_ok [of raw ts] by auto
    show "returns (\<lambda>s. view s = v \<and> target v = Some raw) (if raw = [] then d_ok ParsedEmptyFile else case parse_targets raw of
        (ts, bad) \<Rightarrow> d_ok (if bad = [] then ParsedReady ts else ParsedInvalid bad))
      (\<lambda>parsed s. view s = v \<and> (\<exists>raw. input_lines (File p) (target v) raw \<and> (case parsed of
        ParsedReady ts \<Rightarrow> parse_targets raw = (ts, []) \<and> ts \<noteq> []
      | ParsedInvalid bad \<Rightarrow> bad = filter (\<lambda>x. isl (parse_blocklist_target x)) raw \<and> bad \<noteq> []
      | ParsedEmptyFile \<Rightarrow> raw = []))) (\<lambda>e s. E e (view s))"
      using p bad ne by (auto simp: input_lines_def intro!: returns_if returns_ok)
  qed
qed

end

section \<open>Bans\<close>

definition permanently_banned ::
    "canonical_cidr list \<Rightarrow> canonical_cidr list option \<Rightarrow> canonical_cidr list option \<Rightarrow> bool" where
  "permanently_banned ts old new \<longleftrightarrow> (\<exists>es added. old = Some es \<and> new = Some (es @ added)
     \<and> distinct added \<and> set added = set ts - set es)"

definition temporarily_banned ::
    "(nat \<Rightarrow> bool) \<Rightarrow> canonical_cidr list \<Rightarrow> ban_duration \<Rightarrow> canonical_cidr list option \<Rightarrow> temporary_bans option
     \<Rightarrow> temporary_bans option \<Rightarrow> bool" where
  "temporarily_banned clock ts duration permanent old new \<longleftrightarrow> (\<exists>es b b' expiry. permanent = Some es \<and> old = Some b \<and> new = Some b'
     \<and> (set ts \<subseteq> set es \<or> (\<exists>now. clock now \<and> expires_at duration now = Inr expiry))
     \<and> tb_asns b' = tb_asns b \<and> map_of (tb_ips b') = with_deadline (set ts - set es) expiry (map_of (tb_ips b)))"

text \<open>\<open>held\<close> are the lines of the file with the targets, and \<open>clock\<close> the answers of the clock.\<close>

definition requested_change ::
    "(nat \<Rightarrow> bool) \<Rightarrow> rstr list option \<Rightarrow> blocklist_input \<Rightarrow> ban_duration option \<Rightarrow> canonical_cidr list option \<times> temporary_bans option
     \<Rightarrow> canonical_cidr list option \<times> temporary_bans option \<Rightarrow> bool" where
  "requested_change clock held inp duration old new \<longleftrightarrow> (\<exists>raw ts. input_lines inp held raw \<and> parse_targets raw = (ts, []) \<and> (case duration of
     None \<Rightarrow> permanently_banned ts (fst old) (fst new) \<and> snd new = snd old
   | Some dur \<Rightarrow> temporarily_banned clock ts dur (fst old) (snd old) (snd new) \<and> fst new = fst old))"

text \<open>Nothing was banned: some targets are invalid, or there are none.\<close>

definition refused_targets :: "rstr list option \<Rightarrow> blocklist_input \<Rightarrow> rstr list \<Rightarrow> bool" where
  "refused_targets held inp bad \<longleftrightarrow> bad \<noteq> []
     \<and> (\<exists>raw. input_lines inp held raw \<and> bad = filter (\<lambda>x. isl (parse_blocklist_target x)) raw)"

lemma expires_at_bounds: "expires_at duration now = Inr e \<Longrightarrow> 0 < e \<and> e \<le> I64_MAX"
  by (auto simp: expires_at_def validate_expiry_def and_then_Inr_iff split: if_splits)

context ban_store
begin

lemma ban_permanently_returns:
  assumes "canonicals_ok ts" "loaded v doc"
  shows "returns (\<lambda>s. view s = v) (ban_permanently d (blocklist_file paths) doc (document_entries doc) ts)
    (\<lambda>outcome s. (\<exists>changes. outcome = Applied changes \<and> length changes = length ts)
       \<and> permanently_banned ts (entries v) (entries (view s)) \<and> bans (view s) = bans v)
    (\<lambda>_ s. (entries (view s) = entries v \<or> permanently_banned ts (entries v) (entries (view s))) \<and> bans (view s) = bans v)"
    (is "returns ?P _ ?Q ?E")
proof -
  let ?cl = "classify_ban_targets (document_entries doc) ts"
  note spec = classify_from_spec [of "set (document_entries doc)" ts, folded classify_ban_targets_def]
  have new: "permanently_banned ts (entries v) (Some (document_entries doc @ added ?cl))"
    using spec loaded_entries [OF assms(2)] by (auto simp: permanently_banned_def)
  have len: "length ?cl = length ts" using spec by (metis length_map)
  have step: "returns ?P (if appended_of ?cl \<noteq> [] then d_bind (cancellation_check d) (\<lambda>_.
         repo_append_entries d (blocklist_file paths) (appended_of ?cl) (has_content doc) (trailing_newline doc))
       else d_ok ())
     (\<lambda>_ s. permanently_banned ts (entries v) (entries (view s)) \<and> bans (view s) = bans v) ?E"
  proof (rule returns_if)
    assume ne: "appended_of ?cl \<noteq> []"
    have ok: "canonicals_ok (added ?cl)" using assms(1) spec by (auto simp: canonicals_ok_def)
    show "returns ?P (d_bind (cancellation_check d) (\<lambda>_. repo_append_entries d (blocklist_file paths)
        (appended_of ?cl) (has_content doc) (trailing_newline doc)))
      (\<lambda>_ s. permanently_banned ts (entries v) (entries (view s)) \<and> bans (view s) = bans v) ?E"
      unfolding appended_of_added
    proof (rule returns_bind [OF cancel_returns])
      show "returns ?P (repo_append_entries d (blocklist_file paths) (map show_cidr (added ?cl)) (has_content doc) (trailing_newline doc))
        (\<lambda>_ s. permanently_banned ts (entries v) (entries (view s)) \<and> bans (view s) = bans v) ?E"
        by (rule returns_weaken [OF append [OF assms(2) ok]]) (use ne new in \<open>auto simp: appended_of_added\<close>)
    qed simp
  next
    assume "\<not> appended_of ?cl \<noteq> []"
    then have "added ?cl = []" by (simp add: appended_of_added)
    then show "returns ?P (d_ok ()) (\<lambda>_ s. permanently_banned ts (entries v) (entries (view s)) \<and> bans (view s) = bans v) ?E"
      using new loaded_entries [OF assms(2)] by (auto intro!: returns_ok)
  qed
  show ?thesis unfolding ban_permanently_def Let_def
    by (rule returns_bind [OF step]) (auto intro!: returns_ok simp: len)
qed

abbreviation "clock_at v \<equiv> clock_answer (port_now d) (\<lambda>t. view t = v)"

lemma clock_returns:
  "returns (\<lambda>s. view s = v) (port_now d) (\<lambda>now s. view s = v \<and> clock_at v now) (\<lambda>_ s. view s = v)"
proof (rule returnsI)
  fix s assume s: "view s = v"
  obtain r s' where r: "port_now d s = Some (r, s')" "view s' = v"
    using returns_imp [OF now_quiet [unfolded quiet_def, rule_format] s] by (auto split: sum.splits)
  then show "\<exists>r s'. port_now d s = Some (r, s') \<and> (case r of Inl e \<Rightarrow> view s' = v
      | Inr now \<Rightarrow> view s' = v \<and> clock_at v now)"
    using s by (cases r) (auto simp: clock_answer_def)
qed

lemma record_bans_returns:
  assumes "bans_ok b" "canonicals_ok ts"
  shows "returns (\<lambda>s. view s = v) (record_temporary_bans d (tb_ips b) ts permanent duration path show_cidr)
    (\<lambda>x s. view s = v \<and> (case x of (changes, has_updates, ips :: (canonical_cidr, nat) btree) \<Rightarrow> length changes = length ts
       \<and> (has_updates \<longleftrightarrow> \<not> set ts \<subseteq> permanent) \<and> bans_ok (b\<lparr>tb_ips := ips\<rparr>)
       \<and> (\<exists>expiry. (has_updates \<longrightarrow> (\<exists>now. clock_at v now \<and> expires_at duration now = Inr expiry))
          \<and> map_of ips = with_deadline (set ts - permanent) expiry (map_of (tb_ips b)))))
    (\<lambda>_ s. view s = v)" (is "returns ?P _ ?Q ?E")
  unfolding record_temporary_bans_def
proof (rule returns_bind [OF cancel_returns])
  let ?up = "list_ex (\<lambda>t. t \<notin> permanent) ts"
  have up: "?up \<longleftrightarrow> \<not> set ts \<subseteq> permanent" by (auto simp: list_ex_iff)
  have clock: "returns ?P (if ?up then d_bind (port_now d) (\<lambda>now.
        d_res (map_err (TemporaryBansFailed path) (expires_at duration now))) else d_ok 0)
      (\<lambda>expiry s. view s = v \<and> (?up \<longrightarrow> (\<exists>now. clock_at v now \<and> expires_at duration now = Inr expiry))) ?E"
  proof (rule returns_if)
    show "returns ?P (d_bind (port_now d) (\<lambda>now. d_res (map_err (TemporaryBansFailed path) (expires_at duration now))))
      (\<lambda>expiry s. view s = v \<and> (?up \<longrightarrow> (\<exists>now. clock_at v now \<and> expires_at duration now = Inr expiry))) ?E"
      by (rule returns_bind [OF clock_returns]) (auto intro!: returns_res split: sum.split simp: map_err_Inr_iff)
  qed (auto intro!: returns_ok)
  show "returns ?P (let has_updates = ?up in d_bind (if has_updates then d_bind (port_now d) (\<lambda>now.
        d_res (map_err (TemporaryBansFailed path) (expires_at duration now))) else d_ok 0)
      (\<lambda>expiry. case record_each show_cidr permanent expiry {} (tb_ips b) ts of
        (changes, entries) \<Rightarrow> d_ok (changes, has_updates, entries))) ?Q ?E"
    unfolding Let_def
  proof (rule returns_bind [OF clock])
    fix expiry
    obtain changes ips where r: "record_each show_cidr permanent expiry {} (tb_ips b) ts = (changes, ips)"
      by (cases "record_each show_cidr permanent expiry {} (tb_ips b) ts")
    have len: "length changes = length ts"
      using record_each_spec [OF r] assms(1) by (auto simp: bans_ok_def)
    show "returns (\<lambda>s. view s = v \<and> (?up \<longrightarrow> (\<exists>now. clock_at v now \<and> expires_at duration now = Inr expiry)))
      (case record_each show_cidr permanent expiry {} (tb_ips b) ts of
        (changes, entries) \<Rightarrow> d_ok (changes, ?up, entries)) ?Q ?E"
      unfolding r prod.case
    proof (rule returns_ok)
      fix s assume s: "view s = v \<and> (?up \<longrightarrow> (\<exists>now. clock_at v now \<and> expires_at duration now = Inr expiry))"
      have "0 < expiry \<and> expiry \<le> I64_MAX" if "\<exists>t \<in> set ts. t \<notin> permanent"
        using s that expires_at_bounds up by blast
      note ok = record_ips_ok [OF r assms this]
      show "?Q (changes, ?up, ips) s" using s ok len up by (auto simp: up)
    qed
  qed
qed simp

lemma ban_temporarily_returns:
  assumes "canonicals_ok ts" "entries v = Some es"
  shows "returns (\<lambda>s. view s = v) (ban_temporarily d cfg (temporary_bans_file paths) es ts duration)
    (\<lambda>outcome s. (\<exists>changes notices. outcome = TemporaryApplied changes notices \<and> length changes = length ts)
       \<and> temporarily_banned (clock_at v) ts duration (entries v) (bans v) (bans (view s)) \<and> entries (view s) = entries v)
    (\<lambda>_ s. (bans (view s) = bans v \<or> temporarily_banned (clock_at v) ts duration (entries v) (bans v) (bans (view s)))
       \<and> entries (view s) = entries v)" (is "returns ?P _ ?Q ?E")
  unfolding ban_temporarily_def
proof (rule returns_look [OF load_bans], simp, rule returns_look [OF record_bans_returns [OF bans_valid assms(1)]],
    assumption, simp)
  fix b :: temporary_bans and x :: "ban_change list \<times> bool \<times> (canonical_cidr, nat) btree"
  obtain changes has_updates ips where x: "x = (changes, has_updates, ips)" by (cases x)
  let ?b' = "b\<lparr>tb_ips := ips\<rparr>"
  assume b: "bans v = Some b" and "case x of (changes, has_updates, ips) \<Rightarrow> length changes = length ts
      \<and> (has_updates \<longleftrightarrow> \<not> set ts \<subseteq> set es) \<and> bans_ok (b\<lparr>tb_ips := ips\<rparr>)
      \<and> (\<exists>expiry. (has_updates \<longrightarrow> (\<exists>now. clock_at v now \<and> expires_at duration now = Inr expiry))
        \<and> map_of ips = with_deadline (set ts - set es) expiry (map_of (tb_ips b)))"
  then obtain expiry where info: "length changes = length ts" "has_updates \<longleftrightarrow> \<not> set ts \<subseteq> set es" "bans_ok ?b'"
      "has_updates \<longrightarrow> (\<exists>now. clock_at v now \<and> expires_at duration now = Inr expiry)"
      "map_of ips = with_deadline (set ts - set es) expiry (map_of (tb_ips b))" unfolding x by auto
  have new: "temporarily_banned (clock_at v) ts duration (entries v) (bans v) (Some ?b')"
    using info assms(2) b unfolding temporarily_banned_def
    by (intro exI [of _ es] exI [of _ b] exI [of _ ?b'] exI [of _ expiry]) auto
  have same: "temporarily_banned (clock_at v) ts duration (entries v) (bans v) (bans v)" if "\<not> has_updates"
    using info that assms(2) b unfolding temporarily_banned_def
    by (intro exI [of _ es] exI [of _ b] exI [of _ b] exI [of _ expiry]) (auto simp: with_deadline_def fun_eq_iff)
  let ?done = "\<lambda>s. temporarily_banned (clock_at v) ts duration (entries v) (bans v) (bans (view s)) \<and> entries (view s) = entries v"
  have "returns ?P (if has_updates then port_save_bans d (temporary_bans_file paths) ?b' else d_ok ()) (\<lambda>_. ?done) ?E"
  proof (rule returns_if)
    show "returns ?P (port_save_bans d (temporary_bans_file paths) ?b') (\<lambda>_. ?done) ?E"
      using info new by (intro returns_weaken [OF save_bans]) auto
    show "\<not> has_updates \<Longrightarrow> returns ?P (d_ok ()) (\<lambda>_. ?done) ?E"
      using same by (auto intro: returns_ok)
  qed
  then show "returns ?P (case x of (changes, has_updates, ips) \<Rightarrow>
      d_bind (if has_updates then port_save_bans d (temporary_bans_file paths) (b\<lparr>tb_ips := ips\<rparr>) else d_ok ())
        (\<lambda>_. d_ok (TemporaryApplied changes
          (if has_updates \<and> timeout (cfg_ipset cfg) \<noteq> 0 then [kernel_timeout_notice] else [])))) ?Q ?E"
    unfolding x prod.case by (rule returns_bind) (use info in \<open>auto intro: returns_ok\<close>)
qed

end

lemma requested_changeI:
  assumes "input_lines inp held raw" "parse_targets raw = (ts, [])"
  shows "permanently_banned ts (fst old) (fst new) \<Longrightarrow> snd new = snd old \<Longrightarrow> requested_change clock held inp None old new"
    and "temporarily_banned clock ts dur (fst old) (snd old) (snd new) \<Longrightarrow> fst new = fst old
      \<Longrightarrow> requested_change clock held inp (Some dur) old new"
  unfolding requested_change_def using assms by (intro exI [of _ raw] exI [of _ ts]; simp)+

definition lists_of :: "('v \<Rightarrow> 'a) \<Rightarrow> ('v \<Rightarrow> 'b) \<Rightarrow> 'v \<Rightarrow> 'a \<times> 'b" where
  "lists_of entries bans v = (entries v, bans v)"

context ban_store
begin

abbreviation "seen_lists \<equiv> lists_of entries bans"

lemma execute_ban_returns:
  assumes request: "br_input request = inp"
  shows "returns (\<lambda>s. view s = v) (execute_ban d request)
    (\<lambda>outcome s. case outcome of
        Applied changes \<Rightarrow> br_duration request = None \<and> requested_change (clock_at v) (target v) inp None (seen_lists v) (seen_lists (view s))
      | TemporaryApplied changes notices \<Rightarrow> (\<exists>dur. br_duration request = Some dur
          \<and> requested_change (clock_at v) (target v) inp (Some dur) (seen_lists v) (seen_lists (view s)))
      | BanInvalidTargets bad \<Rightarrow> refused_targets (target v) inp bad \<and> seen_lists (view s) = seen_lists v
      | BanEmptyFile \<Rightarrow> input_lines inp (target v) [] \<and> seen_lists (view s) = seen_lists v)
    (\<lambda>_ s. seen_lists (view s) = seen_lists v
       \<or> requested_change (clock_at v) (target v) inp (br_duration request) (seen_lists v) (seen_lists (view s)))"
    (is "returns ?P _ (\<lambda>outcome s. ?Q outcome (view s)) (\<lambda>_ s. ?E (view s))")
  unfolding execute_ban_def request
proof (rule cancel_bind, simp, rule returns_look [OF resolve_paths], simp)
  fix p assume p: "p = paths"
  let ?ready = "\<lambda>cfg ts. d_bind (repo_load d (blocklist_file paths)) (\<lambda>document.
      let existing = existing_entries document
      in case br_duration request of
           Some duration \<Rightarrow> ban_temporarily d cfg (temporary_bans_file paths) existing ts duration
         | None \<Rightarrow> ban_permanently d (blocklist_file paths) document existing ts)"
  have ready: "returns ?P (?ready cfg ts) (\<lambda>outcome s. ?Q outcome (view s)) (\<lambda>_ s. ?E (view s))"
    if raw: "input_lines inp (target v) raw" "parse_targets raw = (ts, [])" for cfg ts raw
  proof (rule returns_look [OF load_entries], simp)
    fix doc assume doc: "loaded v doc"
    note ts = parse_targets_canonical [OF raw(2)]
    show "returns ?P (let existing = existing_entries doc
        in case br_duration request of
           Some duration \<Rightarrow> ban_temporarily d cfg (temporary_bans_file paths) existing ts duration
         | None \<Rightarrow> ban_permanently d (blocklist_file paths) doc existing ts)
        (\<lambda>outcome s. ?Q outcome (view s)) (\<lambda>_ s. ?E (view s))"
    proof (cases "br_duration request")
      case None
      show ?thesis unfolding Let_def None option.case existing_entries_eq
        by (rule returns_weaken [OF ban_permanently_returns [OF ts doc]])
          (use None in \<open>auto simp: lists_of_def intro!: requested_changeI [OF raw]\<close>)
    next
      case (Some dur)
      show ?thesis unfolding Let_def Some option.case existing_entries_eq
        by (rule returns_weaken [OF ban_temporarily_returns [OF ts loaded_entries [OF doc]]])
          (use Some in \<open>auto simp: lists_of_def intro!: requested_changeI [OF raw]\<close>)
    qed
  qed
  show "returns ?P (with_lock d (lock_file p) (d_bind (port_load_config d (config_file p)) (\<lambda>cfg.
      d_bind (parse_input d inp) (\<lambda>parsed. case parsed of
          ParsedReady ts \<Rightarrow> d_bind (repo_load d (blocklist_file p)) (\<lambda>document.
            let existing = existing_entries document
            in case br_duration request of
                 Some duration \<Rightarrow> ban_temporarily d cfg (temporary_bans_file p) existing ts duration
               | None \<Rightarrow> ban_permanently d (blocklist_file p) document existing ts)
        | ParsedInvalid targets \<Rightarrow> d_ok (BanInvalidTargets targets)
        | ParsedEmptyFile \<Rightarrow> d_ok BanEmptyFile))))
      (\<lambda>outcome s. ?Q outcome (view s)) (\<lambda>_ s. ?E (view s))"
    unfolding p
  proof (rule with_lock_returns [where Q = ?Q and E = "\<lambda>_. ?E"], rule quiet_bind [OF config_quiet], simp,
      rule returns_look [OF parse_input_returns [where E = "\<lambda>_ x. x = v"]], simp, simp)
    fix cfg parsed
    assume info: "\<exists>raw. input_lines inp (target v) raw \<and> (case parsed of
          ParsedReady ts \<Rightarrow> parse_targets raw = (ts, []) \<and> ts \<noteq> []
        | ParsedInvalid bad \<Rightarrow> bad = filter (\<lambda>x. isl (parse_blocklist_target x)) raw \<and> bad \<noteq> []
        | ParsedEmptyFile \<Rightarrow> raw = [])"
    then show "returns ?P (case parsed of
          ParsedReady ts \<Rightarrow> ?ready cfg ts
        | ParsedInvalid targets \<Rightarrow> d_ok (BanInvalidTargets targets)
        | ParsedEmptyFile \<Rightarrow> d_ok BanEmptyFile) (\<lambda>outcome s. ?Q outcome (view s)) (\<lambda>_ s. ?E (view s))"
      by (cases parsed) (auto simp: refused_targets_def intro!: returns_ok ready)
  qed simp
qed

end

section \<open>Unbans\<close>

definition unbanned :: "canonical_cidr list \<Rightarrow> bool \<Rightarrow> canonical_cidr \<Rightarrow> bool" where
  "unbanned ts partial c \<longleftrightarrow> c \<in> set ts \<or> partial \<and> (\<exists>t \<in> set ts. cidr_overlaps c t)"

definition temporary_label :: "canonical_cidr \<times> nat \<Rightarrow> rstr" where
  "temporary_label x = show_cidr (fst x) @ lit '' (temporary, expires at Unix '' @ show_nat (snd x) @ [41]"

definition shown :: "(canonical_cidr \<Rightarrow> bool) \<Rightarrow> canonical_cidr list \<Rightarrow> temporary_bans \<Rightarrow> rstr list" where
  "shown p es b = sort (map show_cidr (filter p es) @ map temporary_label (filter (p \<circ> fst) (tb_ips b)))"

definition exactly :: "canonical_cidr list \<Rightarrow> canonical_cidr \<Rightarrow> bool" where
  "exactly ts c \<longleftrightarrow> c \<in> set ts"

definition partially :: "canonical_cidr list \<Rightarrow> canonical_cidr \<Rightarrow> bool" where
  "partially ts c \<longleftrightarrow> c \<notin> set ts \<and> (\<exists>t \<in> set ts. cidr_overlaps c t)"

definition without :: "canonical_cidr list \<Rightarrow> bool \<Rightarrow> temporary_bans \<Rightarrow> temporary_bans" where
  "without ts partial b = b\<lparr>tb_ips := filter (\<lambda>x. \<not> unbanned ts partial (fst x)) (tb_ips b)\<rparr>"

lemma positions_nth: "map ((!) xs) (positions p 0 xs) = filter p xs"
proof -
  have "map ((!) xs) (filter (p \<circ> (!) xs) [0..<length xs]) = filter p (map ((!) xs) [0..<length xs])"
    by (simp only: filter_map)
  then show ?thesis by (simp add: positions_eq comp_def map_nth)
qed

lemma positions_bound: "i \<in> set (positions p 0 xs) \<Longrightarrow> i < length xs"
  by (simp add: positions_eq)

lemma map_filter_nth:
  "(\<And>i. i \<in> set is \<Longrightarrow> i < length xs) \<Longrightarrow>
     List.map_filter (\<lambda>i. if i < length xs then f (xs ! i) else None) is = List.map_filter f (map ((!) xs) is)"
  by (induction "is") (auto simp: List.map_filter_simps split: option.split)

lemma positions_of_map: "positions p i (map f xs) = positions (p \<circ> f) i xs"
  by (induction xs arbitrary: i) simp_all

lemma positions_length: "length (positions p 0 xs) = length (filter p xs)"
  using positions_nth [of xs p] by (metis length_map)

lemma positions_Nil: "positions p 0 xs = [] \<longleftrightarrow> filter p xs = []"
  using positions_length [of p xs] by (metis length_0_conv)

lemma kept_lines_filter:
  assumes "R = set (positions p 0 ls)"
  shows "kept_lines ls R = map original (filter (\<lambda>l. \<not> p l) ls)"
proof -
  have "enumerate 0 ls = map (\<lambda>i. (i, ls ! i)) [0..<length ls]"
    by (rule nth_equalityI) (auto simp: nth_enumerate_eq)
  then have "kept_lines ls R = map original (map ((!) ls) (filter (\<lambda>i. \<not> p (ls ! i)) [0..<length ls]))"
    using filter_cong [OF refl, of "[0..<length ls]" "\<lambda>i. i < length ls \<longrightarrow> \<not> p (ls ! i)" "\<lambda>i. \<not> p (ls ! i)"]
    by (auto simp: kept_lines_def assms positions_eq filter_map comp_def)
  also have "map ((!) ls) (filter (\<lambda>i. \<not> p (ls ! i)) [0..<length ls]) = filter (\<lambda>l. \<not> p l) ls"
    using positions_nth [of ls "\<lambda>l. \<not> p l"] by (simp add: positions_eq)
  finally show ?thesis .
qed

lemma map_filter_canonical:
  "\<not> p None \<Longrightarrow> List.map_filter canonical (filter (p \<circ> canonical) ls) = filter (p \<circ> Some) (List.map_filter canonical ls)"
  "\<not> p None \<Longrightarrow> List.map_filter canonical (filter (\<lambda>l. \<not> p (canonical l)) ls)
     = filter (\<lambda>c. \<not> p (Some c)) (List.map_filter canonical ls)"
  by (induction ls) (auto simp: List.map_filter_simps split: option.split)

lemma is_parts: "is_exact ts \<circ> Some = exactly ts" "is_partial ts \<circ> Some = partially ts"
  by (auto simp: fun_eq_iff exactly_def partially_def)

lemma document_entries_map_filter: "document_entries doc = List.map_filter canonical (doc_lines doc)"
  using existing_entries_eq [of doc] by (simp add: existing_entries_def)

lemma entries_for_positions:
  assumes "\<not> p None"
  shows "entries_for_indexes doc (positions p 0 (map canonical (doc_lines doc)))
    = map show_cidr (filter (p \<circ> Some) (document_entries doc))"
proof -
  let ?ls = "doc_lines doc"
  have "entries_for_indexes doc (positions p 0 (map canonical ?ls))
      = List.map_filter (\<lambda>l. map_option show_cidr (canonical l)) (map ((!) ?ls) (positions (p \<circ> canonical) 0 ?ls))"
    unfolding entries_for_indexes_def positions_of_map by (rule map_filter_nth) (rule positions_bound)
  also have "\<dots> = List.map_filter (\<lambda>l. map_option show_cidr (canonical l)) (filter (p \<circ> canonical) ?ls)"
    by (simp only: positions_nth)
  also have "\<dots> = map show_cidr (List.map_filter canonical (filter (p \<circ> canonical) ?ls))"
    by (auto simp: List.map_filter_def comp_def filter_map)
  also have "\<dots> = map show_cidr (filter (p \<circ> Some) (document_entries doc))"
    by (simp only: map_filter_canonical(1) [where p = p, OF assms] document_entries_map_filter)
  finally show ?thesis .
qed

text \<open>Temporary entries.\<close>

lemma match_temporary_shown:
  assumes "distinct (map fst ips)" "\<And>i. i \<in> set is \<Longrightarrow> i < length ips"
  shows "fst (match_temporary (map fst ips) ips is (entries, m)) = entries @ map (temporary_label \<circ> (!) ips) is"
  using assms(2)
proof (induction "is" arbitrary: entries m)
  case (Cons i "is")
  have i: "i < length ips" using Cons.prems by simp
  then have "map_of ips (fst (ips ! i)) = Some (snd (ips ! i))"
    using assms(1) by (simp add: map_of_eq_Some_iff)
  then show ?case using Cons.IH Cons.prems i by (simp add: temporary_label_def)
qed simp

lemma remove_temporary_spec:
  assumes "\<And>i. i \<in> set is \<Longrightarrow> i < length ts"
  shows "snd (remove_temporary ts is (n, m)) = filter (\<lambda>x. fst x \<notin> set (map ((!) ts) is)) m
    \<and> (fst (remove_temporary ts is (n, m)) = 0 \<longleftrightarrow> n = 0 \<and> (\<forall>i \<in> set is. map_of m (ts ! i) = None))"
  using assms
proof (induction "is" arbitrary: n m)
  case (Cons i "is")
  have "filter (\<lambda>x. fst x \<notin> A) (btree_remove k m) = filter (\<lambda>x. fst x \<notin> insert k A) m" for k A
    by (auto simp: btree_remove_def intro: filter_cong)
  moreover have "map_of (btree_remove k m) k' = (if k' = k then None else map_of m k')" for k k'
    by (induction m) (auto simp: btree_remove_def)
  ultimately show ?case using Cons by auto
qed simp

section \<open>The plan of an unban\<close>

definition plan_value :: "canonical_cidr list \<Rightarrow> blocklist_document \<Rightarrow> temporary_bans \<Rightarrow> unban_state_plan \<Rightarrow> bool" where
  "plan_value ts doc b plan \<longleftrightarrow>
     usp_permanent plan = \<lparr>exact_indexes = positions (is_exact ts) 0 (map canonical (doc_lines doc)),
       partial_indexes = positions (is_partial ts) 0 (map canonical (doc_lines doc))\<rparr>
     \<and> usp_temporary plan = \<lparr>exact_indexes = positions (exactly ts) 0 (map fst (tb_ips b)),
       partial_indexes = positions (partially ts) 0 (map fst (tb_ips b))\<rparr>
     \<and> usp_temporary_targets plan = map fst (tb_ips b)
     \<and> usp_exact_entries plan = shown (exactly ts) (document_entries doc) b
     \<and> usp_partial_entries plan = shown (partially ts) (document_entries doc) b"

lemma document_entries_set: "Some c \<in> set (map canonical (doc_lines doc)) \<Longrightarrow> c \<in> set (document_entries doc)"
  by (auto simp: document_entries_map_filter List.map_filter_def image_iff) (metis option.sel)

lemma plan_indexes:
  assumes "canonicals_ok ts" "entries_ok es"
  shows "UnbanTargetIndex_plan (UnbanTargetIndex_new ts) es
    = \<lparr>exact_indexes = positions (is_exact ts) 0 es, partial_indexes = positions (is_partial ts) 0 es\<rparr>"
  by (simp add: UnbanTargetIndex_plan_def plan_from_eq [OF assms])

lemma temporary_shown:
  assumes "bans_ok b"
  shows "fst (match_temporary (map fst (tb_ips b)) (tb_ips b) (positions p 0 (map fst (tb_ips b))) (entries, m))
    = entries @ map temporary_label (filter (p \<circ> fst) (tb_ips b))"
proof -
  have "distinct (map fst (tb_ips b))" using assms by (simp add: bans_ok_def btree_ok_def strict_sorted_iff)
  moreover have "i < length (tb_ips b)" if "i \<in> set (positions p 0 (map fst (tb_ips b)))" for i
    using positions_bound [OF that] by simp
  ultimately
  have "fst (match_temporary (map fst (tb_ips b)) (tb_ips b) (positions p 0 (map fst (tb_ips b))) (entries, m))
    = entries @ map temporary_label (map ((!) (tb_ips b)) (positions (p \<circ> fst) 0 (tb_ips b)))"
    using match_temporary_shown [of "tb_ips b" "positions p 0 (map fst (tb_ips b))" entries m]
    by (simp add: positions_of_map)
  then show ?thesis by (simp add: positions_nth)
qed

lemma bans_entries_ok: "bans_ok b \<Longrightarrow> entries_ok (map (Some \<circ> fst) (tb_ips b))"
  by (auto simp: bans_ok_def entries_ok_def)

lemma map_filter_length:
  "\<not> p None \<Longrightarrow> length (List.map_filter canonical (filter (p \<circ> canonical) ls)) = length (filter (p \<circ> canonical) ls)"
  by (induction ls) (auto simp: List.map_filter_simps split: option.split)

lemma plan_counts:
  "length (positions (is_exact ts) 0 (map canonical (doc_lines doc))) + length (positions (exactly ts) 0 (map fst (tb_ips b)))
     = length (shown (exactly ts) (document_entries doc) b)"
  "length (positions (is_partial ts) 0 (map canonical (doc_lines doc))) + length (positions (partially ts) 0 (map fst (tb_ips b)))
     = length (shown (partially ts) (document_entries doc) b)"
proof -
  have "length (positions p 0 (map canonical (doc_lines doc))) + length (positions (p \<circ> Some) 0 (map fst (tb_ips b)))
      = length (shown (p \<circ> Some) (document_entries doc) b)" if "\<not> p None" for p
    using trans [OF map_filter_length [where p = p and ls = "doc_lines doc", OF that, symmetric]
        arg_cong [OF map_filter_canonical(1) [where p = p and ls = "doc_lines doc", OF that], of length]]
    by (simp add: shown_def positions_length filter_map document_entries_map_filter comp_assoc)
  from this [of "is_exact ts"] this [of "is_partial ts"] show
    "length (positions (is_exact ts) 0 (map canonical (doc_lines doc))) + length (positions (exactly ts) 0 (map fst (tb_ips b)))
     = length (shown (exactly ts) (document_entries doc) b)"
    "length (positions (is_partial ts) 0 (map canonical (doc_lines doc))) + length (positions (partially ts) 0 (map fst (tb_ips b)))
     = length (shown (partially ts) (document_entries doc) b)"
    by (simp_all add: is_parts)
qed

context ban_store
begin

lemma build_plan_returns:
  assumes "canonicals_ok ts" "canonicals_ok (document_entries doc)" "bans_ok b"
  shows "returns (\<lambda>s. view s = v) (build_unban_plan d (UnbanTargetIndex_new ts) doc b)
    (\<lambda>plan s. view s = v \<and> plan_value ts doc b plan) (\<lambda>_ s. view s = v)"
proof -
  have doc: "entries_ok (map canonical (doc_lines doc))"
    using assms(2) document_entries_set unfolding entries_ok_def canonicals_ok_def by blast
  note plans = plan_indexes [OF assms(1) doc] plan_indexes [OF assms(1) bans_entries_ok [OF assms(3)]]
  have temporary: "positions (is_exact ts) 0 (map (Some \<circ> fst) (tb_ips b)) = positions (exactly ts) 0 (map fst (tb_ips b))"
    "positions (is_partial ts) 0 (map (Some \<circ> fst) (tb_ips b)) = positions (partially ts) 0 (map fst (tb_ips b))"
    by (simp_all add: positions_of_map comp_assoc is_parts [symmetric])
  have es: "entries_for_indexes doc (positions (is_exact ts) 0 (map canonical (doc_lines doc)))
      = map show_cidr (filter (exactly ts) (document_entries doc))"
    "entries_for_indexes doc (positions (is_partial ts) 0 (map canonical (doc_lines doc)))
      = map show_cidr (filter (partially ts) (document_entries doc))"
    using entries_for_positions [of "is_exact ts" doc] entries_for_positions [of "is_partial ts" doc]
    by (simp_all add: is_parts)
  obtain e1 m1 where m1: "match_temporary (map fst (tb_ips b)) (tb_ips b) (positions (exactly ts) 0 (map fst (tb_ips b)))
      (map show_cidr (filter (exactly ts) (document_entries doc)), []) = (e1, m1)" by fastforce
  obtain e2 m2 where m2: "match_temporary (map fst (tb_ips b)) (tb_ips b) (positions (partially ts) 0 (map fst (tb_ips b)))
      (map show_cidr (filter (partially ts) (document_entries doc)), m1) = (e2, m2)" by fastforce
  have e: "e1 = map show_cidr (filter (exactly ts) (document_entries doc)) @ map temporary_label (filter (exactly ts \<circ> fst) (tb_ips b))"
    "e2 = map show_cidr (filter (partially ts) (document_entries doc)) @ map temporary_label (filter (partially ts \<circ> fst) (tb_ips b))"
    using temporary_shown [OF assms(3)] m1 m2 by (metis fst_conv)+
  show ?thesis
    unfolding build_unban_plan_def Let_def map_map plans temporary es unban_index_plan.simps m1 m2 prod.case
    by (intro returns_bind [OF cancel_returns] returns_ok) (simp_all add: plan_value_def shown_def e)
qed

end

definition unban_applied ::
    "canonical_cidr list \<Rightarrow> bool \<Rightarrow> canonical_cidr list option \<times> temporary_bans option
     \<Rightarrow> canonical_cidr list option \<times> temporary_bans option \<Rightarrow> bool" where
  "unban_applied ts partial old new \<longleftrightarrow> (\<exists>es b. old = (Some es, Some b)
     \<and> new = (Some (filter (\<lambda>c. \<not> unbanned ts partial c) es), Some (without ts partial b)))"

text \<open>What a failed unban leaves: the temporary list is written first, each list whole.\<close>

definition unban_interrupted ::
    "canonical_cidr list \<Rightarrow> bool \<Rightarrow> canonical_cidr list option \<times> temporary_bans option
     \<Rightarrow> canonical_cidr list option \<times> temporary_bans option \<Rightarrow> bool" where
  "unban_interrupted ts partial old new \<longleftrightarrow> new = old \<or> unban_applied ts partial old new
     \<or> (\<exists>b. snd old = Some b \<and> new = (fst old, Some (without ts partial b)))"

definition removal_indexes_of :: "unban_index_plan \<Rightarrow> bool \<Rightarrow> nat set" where
  "removal_indexes_of plan partial = set (exact_indexes plan) \<union> (if partial then set (partial_indexes plan) else {})"

definition removable :: "canonical_cidr list \<Rightarrow> bool \<Rightarrow> canonical_cidr option \<Rightarrow> bool" where
  "removable ts partial e \<longleftrightarrow> is_exact ts e \<or> partial \<and> is_partial ts e"

lemma removable_simps [simp]: "\<not> removable ts partial None" "removable ts partial (Some c) \<longleftrightarrow> unbanned ts partial c"
  by (auto simp: removable_def unbanned_def)

lemma planned_lines:
  assumes "plan_value ts doc b plan"
  shows "kept_lines (doc_lines doc) (removal_indexes_of (usp_permanent plan) partial)
      = map original (filter (\<lambda>l. \<not> removable ts partial (canonical l)) (doc_lines doc))"
    and "removal_indexes_of (usp_permanent plan) partial = {}
      \<Longrightarrow> filter (\<lambda>c. \<not> unbanned ts partial c) (document_entries doc) = document_entries doc"
proof -
  let ?R = "removal_indexes_of (usp_permanent plan) partial"
  have R: "?R = set (positions (removable ts partial \<circ> canonical) 0 (doc_lines doc))"
    using assms by (auto simp: plan_value_def removal_indexes_of_def positions_of_map positions_eq removable_def)
  show "kept_lines (doc_lines doc) ?R
      = map original (filter (\<lambda>l. \<not> removable ts partial (canonical l)) (doc_lines doc))"
    using kept_lines_filter [OF R] by simp
  assume "?R = {}"
  then have "filter (removable ts partial \<circ> canonical) (doc_lines doc) = []" by (simp add: R positions_Nil)
  then have "filter (\<lambda>l. \<not> removable ts partial (canonical l)) (doc_lines doc) = doc_lines doc"
    by (simp add: filter_empty_conv)
  then show "filter (\<lambda>c. \<not> unbanned ts partial c) (document_entries doc) = document_entries doc"
    using map_filter_canonical(2) [where p = "removable ts partial" and ls = "doc_lines doc"]
    by (simp add: document_entries_map_filter)
qed

lemma planned_removal:
  assumes "plan_value ts doc b plan" "remove_temporary (usp_temporary_targets plan) (exact_indexes (usp_temporary plan)
      @ (if partial then partial_indexes (usp_temporary plan) else [])) (0, tb_ips b) = (removed, ips)"
  shows "b\<lparr>tb_ips := ips\<rparr> = without ts partial b" "removed = 0 \<Longrightarrow> without ts partial b = b"
proof -
  let ?T = "map fst (tb_ips b)"
  let ?is = "positions (exactly ts) 0 ?T @ (if partial then positions (partially ts) 0 ?T else [])"
  have bound: "i < length ?T" if "i \<in> set ?is" for i
    using that by (auto split: if_splits dest!: positions_bound)
  have set: "set (map ((!) ?T) ?is) = {c \<in> set ?T. unbanned ts partial c}"
    by (auto simp: positions_nth exactly_def partially_def unbanned_def simp flip: set_map)
  have "remove_temporary ?T ?is (0, tb_ips b) = (removed, ips)"
    using assms by (cases partial) (simp_all add: plan_value_def)
  then have spec: "ips = filter (\<lambda>x. fst x \<notin> set (map ((!) ?T) ?is)) (tb_ips b)"
      "removed = 0 \<longleftrightarrow> (\<forall>i \<in> set ?is. map_of (tb_ips b) (?T ! i) = None)"
    using remove_temporary_spec [OF bound, of ?is 0 "tb_ips b"] by auto
  have ips: "ips = filter (\<lambda>x. \<not> unbanned ts partial (fst x)) (tb_ips b)"
    unfolding spec(1) set by (rule filter_cong) auto
  then show "b\<lparr>tb_ips := ips\<rparr> = without ts partial b" by (simp add: without_def)
  assume "removed = 0"
  then have none: "\<forall>i \<in> set ?is. map_of (tb_ips b) (?T ! i) = None" using spec(2) by blast
  have "\<not> unbanned ts partial (fst x)" if x: "x \<in> set (tb_ips b)" for x
  proof
    assume "unbanned ts partial (fst x)"
    then have "fst x \<in> set (map ((!) ?T) ?is)" unfolding set using x by simp
    then obtain i where "i \<in> set ?is" "fst x = ?T ! i" by auto
    then have "map_of (tb_ips b) (fst x) = None" using none by auto
    then show False using x by (auto simp: map_of_eq_None_iff)
  qed
  then show "without ts partial b = b" by (simp add: without_def)
qed

context ban_store
begin

lemma remove_planned_returns:
  assumes "loaded v doc" "bans v = Some b" "plan_value ts doc b plan"
    and removed: "remove_temporary (usp_temporary_targets plan) (exact_indexes (usp_temporary plan)
      @ (if partial then partial_indexes (usp_temporary plan) else [])) (0, tb_ips b) = (removed, ips)"
  shows "returns (\<lambda>s. view s = v)
    (d_bind (if removed > 0 then port_save_bans d (temporary_bans_file paths) (b\<lparr>tb_ips := ips\<rparr>) else d_ok ()) (\<lambda>_.
     d_bind (if removal_indexes_of (usp_permanent plan) partial \<noteq> {}
       then d_map_err (\<lambda>source. partial_update_error source (removed > 0) (temporary_bans_file paths) (blocklist_file paths))
         (repo_write_lines d (blocklist_file paths)
           (kept_lines (doc_lines doc) (removal_indexes_of (usp_permanent plan) partial)))
       else d_ok ()) (\<lambda>_. d_ok outcome)))
    (\<lambda>r s. r = outcome \<and> unban_applied ts partial (seen_lists v) (seen_lists (view s)))
    (\<lambda>_ s. unban_interrupted ts partial (seen_lists v) (seen_lists (view s)))" (is "returns ?P _ ?Q ?E")
proof (rule returns_bind)
  let ?es = "document_entries doc"
  let ?es' = "filter (\<lambda>c. \<not> unbanned ts partial c) ?es"
  note temporary = planned_removal [OF assms(3) removed] and permanent = planned_lines [OF assms(3), of partial]
  have old: "seen_lists v = (Some ?es, Some b)" using loaded_entries [OF assms(1)] assms(2) by (simp add: lists_of_def)
  have b': "bans_ok (without ts partial b)"
    using bans_valid [OF assms(2)] by (auto simp: bans_ok_def without_def)
  have interrupted: "unban_interrupted ts partial (seen_lists v) (e, Some b')"
    if "e \<in> {Some ?es, Some ?es'}" "b' \<in> {b, without ts partial b}" "e = Some ?es' \<Longrightarrow> b' = without ts partial b \<or> ?es' = ?es" for e b'
    using that old by (auto simp: unban_interrupted_def unban_applied_def)
  let ?A = "\<lambda>v'. entries v' = Some ?es \<and> bans v' = Some (without ts partial b) \<and> loaded v' doc"
  show "returns ?P (if removed > 0 then port_save_bans d (temporary_bans_file paths) (b\<lparr>tb_ips := ips\<rparr>) else d_ok ())
      (\<lambda>_ s. ?A (view s)) ?E"
  proof (rule returns_if)
    show "returns ?P (port_save_bans d (temporary_bans_file paths) (b\<lparr>tb_ips := ips\<rparr>)) (\<lambda>_ s. ?A (view s)) ?E"
      unfolding temporary(1)
      by (rule returns_weaken [OF save_bans [OF b']])
        (use assms old in \<open>auto simp: lists_of_def intro!: interrupted [unfolded old]\<close>)
    show "\<not> removed > 0 \<Longrightarrow> returns ?P (d_ok ()) (\<lambda>_ s. ?A (view s)) ?E"
      using temporary(2) assms old by (auto simp: lists_of_def intro!: returns_ok)
  qed
  fix u
  let ?W = "if removal_indexes_of (usp_permanent plan) partial \<noteq> {}
       then d_map_err (\<lambda>source. partial_update_error source (removed > 0) (temporary_bans_file paths) (blocklist_file paths))
         (repo_write_lines d (blocklist_file paths)
           (kept_lines (doc_lines doc) (removal_indexes_of (usp_permanent plan) partial)))
       else d_ok ()"
  let ?Done = "\<lambda>s. seen_lists (view s) = (Some ?es', Some (without ts partial b))"
  have writing: "returns (\<lambda>s. ?A (view s)) ?W (\<lambda>_. ?Done) ?E"
  proof (rule returns_if)
    assume "removal_indexes_of (usp_permanent plan) partial \<noteq> {}"
    show "returns (\<lambda>s. ?A (view s)) (d_map_err (\<lambda>source. partial_update_error source (removed > 0) (temporary_bans_file paths) (blocklist_file paths))
         (repo_write_lines d (blocklist_file paths)
           (kept_lines (doc_lines doc) (removal_indexes_of (usp_permanent plan) partial)))) (\<lambda>_. ?Done) ?E"
      unfolding permanent(1)
    proof (rule returns_view [where Q = ?A], rule returns_map_err_state)
      fix v' assume v': "?A v'"
      have law: "set (filter (\<lambda>l. \<not> removable ts partial (canonical l)) (doc_lines doc)) \<subseteq> set (doc_lines doc)" by auto
      have es': "List.map_filter canonical (filter (\<lambda>l. \<not> removable ts partial (canonical l)) (doc_lines doc)) = ?es'"
        using map_filter_canonical(2) [where p = "removable ts partial" and ls = "doc_lines doc"]
        by (simp add: document_entries_map_filter)
      show "returns (\<lambda>s. view s = v') (repo_write_lines d (blocklist_file paths)
          (map original (filter (\<lambda>l. \<not> removable ts partial (canonical l)) (doc_lines doc)))) (\<lambda>_. ?Done) ?E"
        by (rule returns_weaken [OF write_lines [OF v' [THEN conjunct2, THEN conjunct2] law]])
          (use v' in \<open>auto simp: es' lists_of_def intro!: interrupted [unfolded lists_of_def]\<close>)
    qed
  qed (use permanent(2) in \<open>auto simp: lists_of_def intro!: returns_ok\<close>)
  show "returns (\<lambda>s. ?A (view s)) (d_bind ?W (\<lambda>_. d_ok outcome)) ?Q ?E"
    by (rule returns_bind [OF writing]) (auto simp: unban_applied_def old intro!: returns_ok)
qed

end

definition preview_prepared ::
    "rstr list option \<Rightarrow> canonical_cidr list option \<times> temporary_bans option \<Rightarrow> blocklist_input \<Rightarrow> unban_preview \<Rightarrow> bool" where
  "preview_prepared held old inp preview \<longleftrightarrow> (\<exists>raw ts es b. input_lines inp held raw \<and> parse_targets raw = (ts, [])
     \<and> up_targets preview = UnbanTargetIndex_new ts \<and> old = (Some es, Some b)
     \<and> up_exact_entries preview = shown (exactly ts) es b \<and> up_partial_entries preview = shown (partially ts) es b)"

context ban_store
begin

lemma prepare_unban_returns:
  assumes request: "ur_input request = inp"
  shows "returns (\<lambda>s. view s = v) (prepare_unban d request)
    (\<lambda>outcome s. view s = v \<and> (case outcome of UnbanReady preview \<Rightarrow> preview_prepared (target v) (seen_lists v) inp preview
       | UnbanInvalidTargets bad \<Rightarrow> refused_targets (target v) inp bad
       | UnbanEmptyFile \<Rightarrow> input_lines inp (target v) []))
    (\<lambda>_ s. view s = v)" (is "returns ?P _ ?Q ?E")
  unfolding prepare_unban_def request
proof (rule cancel_bind, simp, rule returns_look [OF resolve_paths], simp, rule quiet_bind [OF config_quiet], simp,
    rule returns_look [OF parse_input_returns [where E = "\<lambda>_ x. x = v"]], simp, simp)
  fix p parsed
  assume p: "p = paths" and "\<exists>raw. input_lines inp (target v) raw \<and> (case parsed of
        ParsedReady ts \<Rightarrow> parse_targets raw = (ts, []) \<and> ts \<noteq> []
      | ParsedInvalid bad \<Rightarrow> bad = filter (\<lambda>x. isl (parse_blocklist_target x)) raw \<and> bad \<noteq> []
      | ParsedEmptyFile \<Rightarrow> raw = [])"
  moreover have "returns ?P (d_bind (cancellation_check d) (\<lambda>_.
      let targets = UnbanTargetIndex_new ts
      in d_bind (cancellation_check d) (\<lambda>_.
         d_bind (repo_load d (blocklist_file paths)) (\<lambda>document.
         d_bind (cancellation_check d) (\<lambda>_.
         d_bind (port_load_bans d (temporary_bans_file paths)) (\<lambda>temporary.
         d_bind (build_unban_plan d targets document temporary) (\<lambda>plan.
         d_ok (UnbanReady \<lparr>up_target_label = unban_target_label inp targets,
           up_requested_target_count = length (ut_targets targets),
           up_exact_entries = usp_exact_entries plan, up_partial_entries = usp_partial_entries plan,
           up_targets = targets, up_temporary_matches = usp_temporary_matches plan\<rparr>)))))))) ?Q ?E"
    if raw: "input_lines inp (target v) raw" "parse_targets raw = (ts, [])" for raw ts
    unfolding Let_def
  proof (rule cancel_bind, simp, rule cancel_bind, simp, rule returns_look [OF load_entries], simp,
      rule cancel_bind, simp, rule returns_look [OF load_bans], simp)
    fix doc b assume doc: "loaded v doc" and b: "bans v = Some b"
    note es = loaded_entries [OF doc]
    let ?preview = "\<lambda>plan. \<lparr>up_target_label = unban_target_label inp (UnbanTargetIndex_new ts),
         up_requested_target_count = length (ut_targets (UnbanTargetIndex_new ts)),
         up_exact_entries = usp_exact_entries plan, up_partial_entries = usp_partial_entries plan,
         up_targets = UnbanTargetIndex_new ts, up_temporary_matches = usp_temporary_matches plan\<rparr>"
    have "preview_prepared (target v) (seen_lists v) inp (?preview plan)" if "plan_value ts doc b plan" for plan
      using that raw b es by (simp add: preview_prepared_def plan_value_def lists_of_def) blast
    then show "returns ?P (d_bind (build_unban_plan d (UnbanTargetIndex_new ts) doc b)
        (\<lambda>plan. d_ok (UnbanReady (?preview plan)))) ?Q ?E"
      by (intro returns_look [OF build_plan_returns
          [OF parse_targets_canonical [OF raw(2)] entries_valid [OF es] bans_valid [OF b]]] returns_ok) auto
  qed
  ultimately show "returns ?P (case parsed of
         ParsedReady ts \<Rightarrow> d_bind (cancellation_check d) (\<lambda>_.
      let targets = UnbanTargetIndex_new ts
      in d_bind (cancellation_check d) (\<lambda>_.
         d_bind (repo_load d (blocklist_file p)) (\<lambda>document.
         d_bind (cancellation_check d) (\<lambda>_.
         d_bind (port_load_bans d (temporary_bans_file p)) (\<lambda>temporary.
         d_bind (build_unban_plan d targets document temporary) (\<lambda>plan.
         d_ok (UnbanReady \<lparr>up_target_label = unban_target_label inp targets,
           up_requested_target_count = length (ut_targets targets),
           up_exact_entries = usp_exact_entries plan, up_partial_entries = usp_partial_entries plan,
           up_targets = targets, up_temporary_matches = usp_temporary_matches plan\<rparr>)))))))
       | ParsedInvalid targets \<Rightarrow> d_ok (UnbanInvalidTargets targets)
       | ParsedEmptyFile \<Rightarrow> d_ok UnbanEmptyFile) ?Q ?E"
    by (cases parsed) (auto simp: refused_targets_def intro!: returns_ok)
qed

lemma apply_unban_returns:
  assumes ts: "canonicals_ok ts" and targets: "up_targets preview = UnbanTargetIndex_new ts"
  shows "returns (\<lambda>s. view s = v) (apply_unban d request preview partial)
    (\<lambda>outcome s. unban_applied ts partial (seen_lists v) (seen_lists (view s))
       \<and> (\<exists>es b. seen_lists v = (Some es, Some b) \<and> up_exact_entries preview = shown (exactly ts) es b
            \<and> up_partial_entries preview = shown (partially ts) es b)
       \<and> uo_removed_exact outcome = length (up_exact_entries preview)
       \<and> uo_removed_partial outcome = (if partial then length (up_partial_entries preview) else 0))
    (\<lambda>_ s. unban_interrupted ts partial (seen_lists v) (seen_lists (view s)))"
    (is "returns ?P _ (\<lambda>outcome s. ?Q outcome (view s)) (\<lambda>_ s. ?E (view s))")
proof -
  have stay: "?E v" by (simp add: unban_interrupted_def)
  note look = returns_look [where E = "\<lambda>_ s. ?E (view s)"]
  show ?thesis
    unfolding apply_unban_def Let_def targets
  proof (rule cancel_bind, use stay in blast, rule look [OF resolve_paths], use stay in blast,
      rule with_lock_returns [where Q = ?Q and E = "\<lambda>_. ?E", OF _ stay], hypsubst,
      rule quiet_bind [OF config_quiet], use stay in blast, rule cancel_bind, use stay in blast,
      rule look [OF load_entries], use stay in blast, rule cancel_bind, use stay in blast,
      rule look [OF load_bans], use stay in blast, goal_cases)
    case (1 p x doc b)
    note doc = 1(1) and b = 1(2) and es = loaded_entries [OF 1(1)]
    show ?case
    proof (rule look [OF build_plan_returns [OF ts entries_valid [OF es] bans_valid [OF b]]], use stay in blast,
        rule returns_if, rule returns_err, use stay in blast, goal_cases)
      case (1 plan)
      obtain removed ips where removed: "remove_temporary (usp_temporary_targets plan) (exact_indexes (usp_temporary plan)
          @ (if partial then partial_indexes (usp_temporary plan) else [])) (0, tb_ips b) = (removed, ips)" by fastforce
      note plan = 1(1) [unfolded plan_value_def]
      have shown: "up_exact_entries preview = shown (exactly ts) (document_entries doc) b"
          "up_partial_entries preview = shown (partially ts) (document_entries doc) b"
        using 1(2) plan by simp_all
      have counts: "length (exact_indexes (usp_permanent plan)) + length (exact_indexes (usp_temporary plan))
            = length (up_exact_entries preview)"
          "length (partial_indexes (usp_permanent plan)) + length (partial_indexes (usp_temporary plan))
            = length (up_partial_entries preview)"
        using plan plan_counts [of ts doc b] by (simp_all add: shown)
      show ?case
        unfolding removed prod.case removal_indexes_of_def [symmetric]
        by (rule cancel_bind, use stay in blast, rule returns_weaken [OF remove_planned_returns [OF doc b 1(1) removed]])
          (use es b shown counts in \<open>auto simp: lists_of_def\<close>)
    qed
  qed
qed

end

end
