(* ===== verification/Ban_Disk.thy ===== *)
theory Ban_Disk
  imports Ban_Store
begin

text \<open>
  Bans and unbans over the files of the adapters: \<open>FileBlocklistRepository\<close> and the temporary
  bans file are a \<open>ban_store\<close>, whatever the other ports do to the rest of the system. The
  properties say what the operator's two lists are after a ban, a preview and an unban, at every
  outcome.
\<close>

section \<open>The lists on disk\<close>

definition disk_ban_dependencies ::
    "(rstr \<Rightarrow> rstr + stored_bans) \<Rightarrow> (ban_document \<Rightarrow> rstr) \<Rightarrow> ('s, 'z) file_host_scheme \<Rightarrow> 's app_ports
     \<Rightarrow> 's ban_dependencies" where
  "disk_ban_dependencies toml_decode toml_render h d = \<lparr>
     port_is_cancelled = port_is_cancelled d, port_resolve = port_resolve d, port_load_config = port_load_config d,
     port_acquire = port_acquire d, port_release = port_release d, port_now = port_now d,
     port_load_bans = load_temporary_bans toml_decode h, port_save_bans = save_temporary_bans toml_render h,
     repo_load = load_blocklist_document h,
     repo_append_entries = (\<lambda>p es content newline. append_entries_with_limit h p es content newline BLOCKLIST_READ_LIMIT),
     repo_write_lines = write_blocklist_lines h, repo_read_target_lines = read_target_lines h\<rparr>"

text \<open>The view of the state a ban may rely on: the contents of the two files.\<close>

type_synonym list_files = "file_bytes option \<times> file_bytes option"

definition list_files :: "resolved_paths \<Rightarrow> file_map \<Rightarrow> list_files" where
  "list_files paths F = (F (blocklist_file paths), F (temporary_bans_file paths))"

definition file_entries :: "resolved_paths \<Rightarrow> list_files \<Rightarrow> canonical_cidr list option" where
  "file_entries paths v = blocklist_of (\<lambda>_. fst v) (blocklist_file paths)"

definition file_bans :: "(rstr \<Rightarrow> rstr + stored_bans) \<Rightarrow> resolved_paths \<Rightarrow> list_files \<Rightarrow> temporary_bans option" where
  "file_bans toml_decode paths v = bans_of toml_decode (\<lambda>_. snd v) (temporary_bans_file paths)"

definition file_loaded :: "resolved_paths \<Rightarrow> list_files \<Rightarrow> blocklist_document \<Rightarrow> bool" where
  "file_loaded paths v doc \<longleftrightarrow> (\<exists>t. disk_text BLOCKLIST_READ_LIMIT (\<lambda>_. fst v) (blocklist_file paths) = Some t
     \<and> BlocklistDocument_parse t = Inr doc)"

lemma list_files_view:
  "file_entries paths (list_files paths F) = blocklist_of F (blocklist_file paths)"
  "file_bans toml_decode paths (list_files paths F) = bans_of toml_decode F (temporary_bans_file paths)"
  "file_loaded paths (list_files paths F) doc \<longleftrightarrow> (\<exists>t. disk_text BLOCKLIST_READ_LIMIT F (blocklist_file paths) = Some t
     \<and> BlocklistDocument_parse t = Inr doc)"
  by (simp_all add: file_entries_def file_bans_def file_loaded_def list_files_def blocklist_of_def bans_of_def disk_text_def)

lemma list_files_eq:
  "F (blocklist_file paths) = G (blocklist_file paths) \<Longrightarrow> F (temporary_bans_file paths) = G (temporary_bans_file paths)
     \<Longrightarrow> list_files paths F = list_files paths G"
  by (simp add: list_files_def)

text \<open>With the file that the input of a request names, and the lines it holds.\<close>

type_synonym ban_files = "list_files \<times> file_bytes option"

definition ban_files :: "resolved_paths \<Rightarrow> blocklist_input \<Rightarrow> file_map \<Rightarrow> ban_files" where
  "ban_files paths inp F = (list_files paths F, case inp of Single _ \<Rightarrow> None | File p \<Rightarrow> F p)"

definition file_lines :: "file_bytes option \<Rightarrow> rstr list option" where
  "file_lines found = (case found of
     Some (Utf8 t) \<Rightarrow> if utf8_len t \<le> BLOCKLIST_TARGET_FILE_READ_LIMIT then Some (str_lines t) else None
   | _ \<Rightarrow> None)"

definition held_lines :: "blocklist_input \<Rightarrow> file_map \<Rightarrow> rstr list option" where
  "held_lines inp F = (case inp of Single _ \<Rightarrow> None | File p \<Rightarrow> file_lines (F p))"

lemma ban_files_view:
  "file_entries paths (fst (ban_files paths inp F)) = blocklist_of F (blocklist_file paths)"
  "file_bans toml_decode paths (fst (ban_files paths inp F)) = bans_of toml_decode F (temporary_bans_file paths)"
  "file_loaded paths (fst (ban_files paths inp F)) doc \<longleftrightarrow> (\<exists>t. disk_text BLOCKLIST_READ_LIMIT F (blocklist_file paths) = Some t
     \<and> BlocklistDocument_parse t = Inr doc)"
  "file_lines (snd (ban_files paths inp F)) = held_lines inp F"
  by (simp_all add: ban_files_def list_files_view held_lines_def file_lines_def split: blocklist_input.split)

text \<open>The other ports: they leave the view alone and resolve to these paths.\<close>

definition ban_ports_law :: "('s, 'z) app_ports_scheme \<Rightarrow> ('s \<Rightarrow> 'v) \<Rightarrow> resolved_paths \<Rightarrow> bool" where
  "ban_ports_law d view paths \<longleftrightarrow> (\<forall>s v inp req p.
     view (snd (port_is_cancelled d s)) = view s \<and> view (port_release d s) = view s
   \<and> returns (\<lambda>s. view s = v) (port_resolve d inp req) (\<lambda>p s. view s = v \<and> p = paths) (\<lambda>_ s. view s = v)
   \<and> quiet view (port_load_config d p) \<and> quiet view (port_acquire d p) \<and> quiet view (port_now d))"

lemma returns_paired:
  assumes "\<And>v. returns (\<lambda>s. view s = v) m (\<lambda>x s. view s = v \<and> Q x) (\<lambda>_ s. view s = v)"
  shows "returns (\<lambda>s. (view s, c) = v) m (\<lambda>x s. (view s, c) = v \<and> Q x) (\<lambda>_ s. (view s, c) = v)"
proof (cases v)
  case (Pair a b)
  show ?thesis
  proof (cases "b = c")
    case True
    then show ?thesis using Pair by (intro returns_weaken [OF assms [of a]]) auto
  qed (simp add: Pair returns_def)
qed

lemma ban_ports_law_image:
  assumes "ban_ports_law d view paths"
  shows "ban_ports_law d (\<lambda>s. (view s, c)) paths"
proof -
  note law = assms [unfolded ban_ports_law_def, rule_format]
  have q: "quiet (\<lambda>s. (view s, c)) m" if "quiet view m" for m :: "('a, app_error, 'x) dact"
    using returns_paired [where view = view and c = c and m = m and Q = "\<lambda>_. True"] that by (simp add: quiet_def)
  show ?thesis unfolding ban_ports_law_def
    by (intro allI conjI q returns_paired) (use law in simp_all)
qed

definition separate_lists :: "('s, 'z) file_host_scheme \<Rightarrow> resolved_paths \<Rightarrow> bool" where
  "separate_lists h paths \<longleftrightarrow> blocklist_file paths \<noteq> temporary_bans_file paths
     \<and> blocklist_file paths \<notin> temp_paths h (temporary_bans_file paths)
     \<and> temporary_bans_file paths \<notin> temp_paths h (blocklist_file paths)"

lemma disk_simps:
  "port_is_cancelled (disk_ban_dependencies toml_decode toml_render h d) = port_is_cancelled d" "port_resolve (disk_ban_dependencies toml_decode toml_render h d) = port_resolve d"
    "port_load_config (disk_ban_dependencies toml_decode toml_render h d) = port_load_config d" "port_acquire (disk_ban_dependencies toml_decode toml_render h d) = port_acquire d" "port_release (disk_ban_dependencies toml_decode toml_render h d) = port_release d"
    "port_now (disk_ban_dependencies toml_decode toml_render h d) = port_now d" "port_load_bans (disk_ban_dependencies toml_decode toml_render h d) = load_temporary_bans toml_decode h"
    "port_save_bans (disk_ban_dependencies toml_decode toml_render h d) = save_temporary_bans toml_render h" "repo_load (disk_ban_dependencies toml_decode toml_render h d) = load_blocklist_document h"
    "repo_append_entries (disk_ban_dependencies toml_decode toml_render h d) = (\<lambda>p es content newline. append_entries_with_limit h p es content newline BLOCKLIST_READ_LIMIT)"
    "repo_write_lines (disk_ban_dependencies toml_decode toml_render h d) = write_blocklist_lines h" "repo_read_target_lines (disk_ban_dependencies toml_decode toml_render h d) = read_target_lines h"
  by (simp_all add: disk_ban_dependencies_def)

locale disk_ban = file_system h files
  for h :: "('s, 'z) file_host_scheme" and files :: "'s \<Rightarrow> file_map" +
  fixes toml_decode :: "rstr \<Rightarrow> rstr + stored_bans" and toml_render :: "ban_document \<Rightarrow> rstr"
    and d :: "'s app_ports" and paths :: resolved_paths and inp :: blocklist_input
  assumes toml: "toml_law toml_decode toml_render"
    and ports: "ban_ports_law d (\<lambda>s. ban_files paths inp (files s)) paths"
    and separate: "separate_lists h paths"
begin

abbreviation "dependencies \<equiv> disk_ban_dependencies toml_decode toml_render h d"
abbreviation "view \<equiv> \<lambda>s. ban_files paths inp (files s)"
abbreviation "entries_in v \<equiv> file_entries paths (fst v)"
abbreviation "bans_in v \<equiv> file_bans toml_decode paths (fst v)"
abbreviation "loaded_in v \<equiv> file_loaded paths (fst v)"

lemma view_returns:
  assumes "\<And>F. ban_files paths inp F = v \<Longrightarrow> returns (\<lambda>s. files s = F) m Q E"
  shows "returns (\<lambda>s. view s = v) m Q E"
  by (rule returns_view [where v = files and Q = "\<lambda>F. ban_files paths inp F = v"]) (rule assms)

lemma quiet_files:
  assumes "\<And>F. returns (\<lambda>s. files s = F) m (\<lambda>x s. files s = F \<and> Q x F) (\<lambda>_ s. files s = F)"
    and "\<And>x F. ban_files paths inp F = v \<Longrightarrow> Q x F \<Longrightarrow> A x"
  shows "returns (\<lambda>s. view s = v) m (\<lambda>x s. view s = v \<and> A x) (\<lambda>_ s. view s = v)"
  by (rule view_returns, rule returns_weaken [OF assms(1)]) (use assms(2) in auto)

lemma changed_list:
  assumes "ban_files paths inp F = v" "text_valid t"
  shows "files s = F(blocklist_file paths \<mapsto> Utf8 t) \<and> utf8_len t \<le> BLOCKLIST_READ_LIMIT \<Longrightarrow>
      entries_in (view s) = Some (text_entries t) \<and> bans_in (view s) = bans_in v"
    and "old_or_new h (blocklist_file paths) t BLOCKLIST_READ_LIMIT F (files s) \<Longrightarrow>
      entries_in (view s) \<in> {entries_in v, Some (text_entries t)}
      \<and> bans_in (view s) = bans_in v"
proof -
  note sep = separate [unfolded separate_lists_def]
  have old: "entries_in v = blocklist_of F (blocklist_file paths)"
    "bans_in v = bans_of toml_decode F (temporary_bans_file paths)"
    using assms(1) ban_files_view by metis+
  have same: "bans_of toml_decode (files s) (temporary_bans_file paths) = bans_of toml_decode F (temporary_bans_file paths)"
    if "files s (temporary_bans_file paths) = F (temporary_bans_file paths)"
    using that by (simp add: bans_of_def)
  show "entries_in (view s) = Some (text_entries t) \<and> bans_in (view s) = bans_in v"
    if "files s = F(blocklist_file paths \<mapsto> Utf8 t) \<and> utf8_len t \<le> BLOCKLIST_READ_LIMIT"
    using that sep assms(2) same unfolding old ban_files_view by (auto simp: blocklist_of_text)
  assume o: "old_or_new h (blocklist_file paths) t BLOCKLIST_READ_LIMIT F (files s)"
  then have "files s (temporary_bans_file paths) = F (temporary_bans_file paths)"
    using sep unfolding old_or_new_def by metis
  then show "entries_in (view s) \<in> {entries_in v, Some (text_entries t)}
      \<and> bans_in (view s) = bans_in v"
    using old_or_new_blocklist [OF o assms(2)] same unfolding old ban_files_view by simp
qed

lemma store_append:
  assumes "loaded_in v doc" "canonicals_ok cs" "cs \<noteq> []"
  shows "returns (\<lambda>s. view s = v) (append_entries_with_limit h (blocklist_file paths) (map show_cidr cs)
      (has_content doc) (trailing_newline doc) BLOCKLIST_READ_LIMIT)
    (\<lambda>_ s. entries_in (view s) = Some (document_entries doc @ cs) \<and> bans_in (view s) = bans_in v)
    (\<lambda>_ s. entries_in (view s) \<in> {entries_in v, Some (document_entries doc @ cs)}
       \<and> bans_in (view s) = bans_in v)"
proof (rule view_returns)
  fix F assume v: "ban_files paths inp F = v"
  then obtain t where t: "disk_text BLOCKLIST_READ_LIMIT F (blocklist_file paths) = Some t" "BlocklistDocument_parse t = Inr doc"
    using assms(1) ban_files_view(3) by metis
  note appended = document_appended [OF t(2) assms(2)]
  have ne: "map show_cidr cs \<noteq> []" using assms(3) by simp
  show "returns (\<lambda>s. files s = F) (append_entries_with_limit h (blocklist_file paths) (map show_cidr cs)
      (has_content doc) (trailing_newline doc) BLOCKLIST_READ_LIMIT)
    (\<lambda>_ s. entries_in (view s) = Some (document_entries doc @ cs) \<and> bans_in (view s) = bans_in v)
    (\<lambda>_ s. entries_in (view s) \<in> {entries_in v, Some (document_entries doc @ cs)}
       \<and> bans_in (view s) = bans_in v)"
    by (rule returns_weaken [OF append_entries_returns [OF t(1) ne]])
      (assumption, erule changed_list(1) [OF v appended(1), unfolded appended(2)],
        erule changed_list(2) [OF v appended(1), unfolded appended(2)])
qed

lemma store_write:
  assumes "loaded_in v doc" "set ls \<subseteq> set (doc_lines doc)"
  shows "returns (\<lambda>s. view s = v) (write_blocklist_lines h (blocklist_file paths) (map original ls))
    (\<lambda>_ s. entries_in (view s) = Some (List.map_filter canonical ls) \<and> bans_in (view s) = bans_in v)
    (\<lambda>_ s. entries_in (view s) \<in> {entries_in v, Some (List.map_filter canonical ls)}
       \<and> bans_in (view s) = bans_in v)"
proof (rule view_returns)
  fix F assume v: "ban_files paths inp F = v"
  obtain t where t: "BlocklistDocument_parse t = Inr doc"
    using assms(1) by (auto simp: file_loaded_def)
  note kept = kept_document_lines [OF t assms(2)]
  have entries: "text_entries (lines_text (map original ls)) = List.map_filter canonical ls"
    using kept(2) existing_entries_eq [of "doc\<lparr>doc_lines := ls\<rparr>"]
    by (simp add: document_entries_def existing_entries_def)
  show "returns (\<lambda>s. files s = F) (write_blocklist_lines h (blocklist_file paths) (map original ls))
    (\<lambda>_ s. entries_in (view s) = Some (List.map_filter canonical ls) \<and> bans_in (view s) = bans_in v)
    (\<lambda>_ s. entries_in (view s) \<in> {entries_in v, Some (List.map_filter canonical ls)}
       \<and> bans_in (view s) = bans_in v)"
    by (rule returns_weaken [OF write_lines_returns])
      (assumption, erule changed_list(1) [OF v kept(1), unfolded entries],
        erule changed_list(2) [OF v kept(1), unfolded entries])
qed

lemma store_save:
  assumes "bans_ok b"
  shows "returns (\<lambda>s. view s = v) (save_temporary_bans toml_render h (temporary_bans_file paths) b)
    (\<lambda>_ s. bans_in (view s) = Some b \<and> entries_in (view s) = entries_in v
       \<and> (\<forall>doc. loaded_in v doc \<longrightarrow> loaded_in (view s) doc))
    (\<lambda>_ s. bans_in (view s) \<in> {bans_in v, Some b}
       \<and> entries_in (view s) = entries_in v)"
proof (rule view_returns)
  fix F assume v: "ban_files paths inp F = v"
  show "returns (\<lambda>s. files s = F) (save_temporary_bans toml_render h (temporary_bans_file paths) b)
    (\<lambda>_ s. bans_in (view s) = Some b \<and> entries_in (view s) = entries_in v
       \<and> (\<forall>doc. loaded_in v doc \<longrightarrow> loaded_in (view s) doc))
    (\<lambda>_ s. bans_in (view s) \<in> {bans_in v, Some b}
       \<and> entries_in (view s) = entries_in v)"
    by (rule returns_weaken [OF save_bans_returns [OF toml assms]])
      (use separate in \<open>auto simp: ban_files_view separate_lists_def blocklist_of_def disk_text_def simp flip: v\<close>)
qed

lemma is_store:
  "ban_store dependencies view paths (\<lambda>v. entries_in v) (\<lambda>v. bans_in v) (\<lambda>v. loaded_in v) inp (\<lambda>v. file_lines (snd v))"
proof (unfold_locales, unfold disk_simps)
  note law = ports [unfolded ban_ports_law_def]
  fix s :: 's and v :: ban_files and doc es b req env p
  show "loaded_in v doc \<Longrightarrow> entries_in v = Some (document_entries doc)"
    by (auto simp: file_loaded_def file_entries_def intro: blocklist_of_document)
  show "bans_in v = Some b \<Longrightarrow> bans_ok b"
    by (auto simp: file_bans_def intro: bans_of_ok)
  show "entries_in v = Some es \<Longrightarrow> canonicals_ok es"
    by (auto simp: file_entries_def blocklist_of_def text_entries_def entries_of_ok split: option.splits if_splits)
  show "view (snd (port_is_cancelled d s)) = view s" "view (port_release d s) = view s"
    "returns (\<lambda>s. view s = v) (port_resolve d req env) (\<lambda>p s. view s = v \<and> p = paths) (\<lambda>_ s. view s = v)"
    "quiet view (port_load_config d p)" "quiet view (port_acquire d p)" "quiet view (port_now d)"
    using law by blast+
  show "returns (\<lambda>s. view s = v) (read_target_lines h p) (\<lambda>raw s. view s = v \<and> file_lines (snd v) = Some raw)
      (\<lambda>_ s. view s = v)" if "inp = File p"
    by (rule quiet_files [OF read_target_lines_returns]) (use that in \<open>auto simp: ban_files_def file_lines_def\<close>)
  show "returns (\<lambda>s. view s = v) (load_blocklist_document h (blocklist_file paths))
      (\<lambda>doc s. view s = v \<and> loaded_in v doc) (\<lambda>_ s. view s = v)"
    by (rule quiet_files [OF load_document_returns]) (use ban_files_view(3) in metis)
  show "returns (\<lambda>s. view s = v) (load_temporary_bans toml_decode h (temporary_bans_file paths))
      (\<lambda>b s. view s = v \<and> bans_in v = Some b) (\<lambda>_ s. view s = v)"
    by (rule quiet_files [OF load_bans_returns]) (use ban_files_view(2) in metis)
qed (rule store_append store_write store_save; assumption)+

end

sublocale disk_ban \<subseteq> store: ban_store "disk_ban_dependencies toml_decode toml_render h d"
    "\<lambda>s. ban_files paths inp (files s)" paths "\<lambda>v. file_entries paths (fst v)"
    "\<lambda>v. file_bans toml_decode paths (fst v)" "\<lambda>v. file_loaded paths (fst v)" inp "\<lambda>v. file_lines (snd v)"
  by (rule is_store)

section \<open>A system in memory\<close>

text \<open>
  The same workflows over files in memory, with ports that always succeed and a small codec in
  the place of the TOML library.
\<close>

definition render_ip :: "stored_ip \<Rightarrow> rstr" where
  "render_ip r = length (stored_cidr r) # ip_expires_at r # stored_cidr r"

definition render_document :: "ban_document \<Rightarrow> rstr" where
  "render_document doc = (let ips = (case doc_ips doc of Some rs \<Rightarrow> rs | None \<Rightarrow> []);
       asns = (case doc_asns doc of Some rs \<Rightarrow> rs | None \<Rightarrow> [])
     in doc_version doc # length ips # concat (map render_ip ips)
        @ concat (map (\<lambda>r. [stored_asn_id r, asn_expires_at r]) asns))"

fun decode_ips :: "nat \<Rightarrow> rstr \<Rightarrow> stored_ip list \<times> rstr" where
  "decode_ips n xs = (if n = 0 then ([], xs) else case xs of
       k # e # ys \<Rightarrow> (case decode_ips (n - 1) (drop k ys) of (rs, rest) \<Rightarrow>
         (\<lparr>stored_cidr = take k ys, ip_expires_at = e\<rparr> # rs, rest))
     | _ \<Rightarrow> ([], xs))"

declare decode_ips.simps [simp del]

fun decode_asns :: "rstr \<Rightarrow> stored_asn list" where
  "decode_asns (a # e # xs) = \<lparr>stored_asn_id = a, asn_expires_at = e\<rparr> # decode_asns xs"
| "decode_asns _ = []"

fun decode_document :: "rstr \<Rightarrow> rstr + stored_bans" where
  "decode_document (v # n # xs) = (case decode_ips n xs of (ips, rest) \<Rightarrow>
     Inr \<lparr>version = v, stored_ips = ips, stored_asns = decode_asns rest\<rparr>)"
| "decode_document _ = Inl []"

lemma decode_rendered_ips: "decode_ips (length rs) (concat (map render_ip rs) @ ys) = (rs, ys)"
proof (induction rs)
  case (Cons r rs)
  then show ?case by (subst decode_ips.simps) (simp add: render_ip_def [of r])
qed (simp add: decode_ips.simps)

lemma decode_rendered_asns: "decode_asns (concat (map (\<lambda>r. [stored_asn_id r, asn_expires_at r]) rs)) = rs"
  by (induction rs) simp_all

lemma codec_law: "toml_law decode_document render_document"
  by (auto simp: toml_law_def render_document_def stored_of_def Let_def decode_rendered_ips decode_rendered_asns
      split: option.splits)

definition demo_paths :: resolved_paths where
  "demo_paths = \<lparr>root_override = None, config_dir = lit ''/etc/kidobo'', config_file = lit ''/etc/kidobo/config.toml'',
     data_dir = lit ''/var/lib/kidobo'', blocklist_file = lit ''/etc/kidobo/blocklist.txt'',
     cache_dir = lit ''/var/cache/kidobo'', remote_cache_dir = lit ''/var/cache/kidobo/remote'',
     lock_file = lit ''/run/kidobo.lock''\<rparr>"

definition ban_config :: config where
  "ban_config = \<lparr>
     cfg_ipset = \<lparr>set_name = lit ''kidobo'', set_name_v6 = lit ''kidobo-v6'', enable_ipv6 = True, chain_action = Drop,
       set_type = lit ''hash:net'', hashsize = HashsizePow2 65536, maxelem = MaxElem 500000, timeout = 0\<rparr>,
     cfg_safe = \<lparr>safe_ips = [], include_github_meta = False, github_meta_url = [], github_meta_categories = None\<rparr>,
     cfg_remote = \<lparr>urls = [], timeout_secs = RemoteTimeoutSecs 30\<rparr>,
     cfg_asn = \<lparr>banned = [], cache_stale_after_secs = AsnCacheStaleAfterSecs 86400\<rparr>\<rparr>"

definition ban_ports :: "memory_files app_ports" where
  "ban_ports = \<lparr>port_is_cancelled = Pair False, port_resolve = (\<lambda>_ _. d_ok demo_paths),
     port_load_config = (\<lambda>_. d_ok ban_config), port_acquire = (\<lambda>_. d_ok ()), port_release = id, port_now = d_ok 1000,
     port_load_bans = (\<lambda>_. d_err Interrupted), port_save_bans = (\<lambda>_ _. d_err Interrupted)\<rparr>"

lemma ban_ports_lawful: "ban_ports_law ban_ports view demo_paths"
  by (auto simp: ban_ports_law_def ban_ports_def quiet_def intro!: returns_ok)

lemma temp_base: "t \<in> temp_paths h p \<Longrightarrow> \<exists>f. path_base t = 46 # f"
proof -
  assume "t \<in> temp_paths h p"
  then obtain k where k: "t = path_join (path_directory p)
     ([46] @ (case path_file_name p of Some n \<Rightarrow> n | None \<Rightarrow> lit ''kidobo'')
        @ lit ''.kidobo-tmp-'' @ show_nat (fh_process_id h) @ [45] @ show_nat k)" (is "_ = path_join _ ?f")
    by (auto simp: temp_paths_def)
  have "47 \<notin> set ?f"
    using slash_notin_show_nat file_name_no_slash by (auto simp: lit_def split: option.splits)
  from base_join [OF this, of "path_directory p"] show ?thesis unfolding k by simp
qed

lemma separate_listsI:
  assumes "blocklist_file paths \<noteq> temporary_bans_file paths"
    and "hd (path_base (blocklist_file paths)) \<noteq> 46" "hd (path_base (temporary_bans_file paths)) \<noteq> 46"
  shows "separate_lists h paths"
  using assms temp_base unfolding separate_lists_def by fastforce

lemma memory_separate: "separate_lists h demo_paths"
  by (rule separate_listsI; code_simp)

interpretation memory_bans: disk_ban memory_host mf_view decode_document render_document ban_ports demo_paths inp for inp
  by unfold_locales (rule codec_law ban_ports_lawful memory_separate)+

section \<open>Properties\<close>

definition lists_on_disk ::
    "(rstr \<Rightarrow> rstr + stored_bans) \<Rightarrow> resolved_paths \<Rightarrow> file_map \<Rightarrow> canonical_cidr list option \<times> temporary_bans option" where
  "lists_on_disk toml_decode paths F =
     (blocklist_of F (blocklist_file paths), bans_of toml_decode F (temporary_bans_file paths))"

lemma lists_of_files:
  "lists_of (\<lambda>v. file_entries paths (fst v)) (\<lambda>v. file_bans toml_decode paths (fst v)) (ban_files paths inp F)
     = lists_on_disk toml_decode paths F"
  by (simp add: lists_of_def lists_on_disk_def ban_files_view)

lemma disk_banI:
  "file_law h files \<Longrightarrow> toml_law toml_decode toml_render \<Longrightarrow> ban_ports_law d (\<lambda>s. ban_files paths inp (files s)) paths
     \<Longrightarrow> separate_lists h paths \<Longrightarrow> disk_ban h files toml_decode toml_render d paths inp"
  by unfold_locales

text \<open>
  C5: A ban returns, and does what was asked or nothing. The targets are the one given or all
  the lines of the file named. On success every requested network is in the permanent list,
  after the entries that were there, and none is added twice; or, with a duration, every
  requested network that is not permanent has the deadline that the clock's answer gives, every
  other temporary ban its own, and the permanent list is as it was. Invalid targets are all
  reported, and change nothing, as does a file without targets. On an error, of whatever port or
  file operation, the two lists are as before or as requested.
\<close>

theorem ban_changes_as_requested:
  assumes "file_law h files" "toml_law toml_decode toml_render"
    and "ban_ports_law d (\<lambda>s. ban_files paths (br_input request) (files s)) paths" "separate_lists h paths"
  shows "\<exists>r s'. execute_ban (disk_ban_dependencies toml_decode toml_render h d) request s = Some (r, s')
    \<and> (let old = lists_on_disk toml_decode paths (files s); new = lists_on_disk toml_decode paths (files s');
           asked = br_input request; held = held_lines asked (files s);
           clock = clock_answer (port_now d) (\<lambda>t. ban_files paths asked (files t) = ban_files paths asked (files s))
       in case r of
          Inr (Applied changes) \<Rightarrow> br_duration request = None \<and> requested_change clock held asked None old new
        | Inr (TemporaryApplied changes notices) \<Rightarrow>
            (\<exists>dur. br_duration request = Some dur \<and> requested_change clock held asked (Some dur) old new)
        | Inr (BanInvalidTargets bad) \<Rightarrow> refused_targets held asked bad \<and> new = old
        | Inr BanEmptyFile \<Rightarrow> input_lines asked held [] \<and> new = old
        | Inl e \<Rightarrow> new = old \<or> requested_change clock held asked (br_duration request) old new)"
proof -
  let ?d = "disk_ban_dependencies toml_decode toml_render h d" and ?asked = "br_input request"
  let ?lists = "\<lambda>t. lists_on_disk toml_decode paths (files t)" and ?held = "held_lines ?asked (files s)"
  let ?clock = "clock_answer (port_now d) (\<lambda>t. ban_files paths ?asked (files t) = ban_files paths ?asked (files s))"
  note store = disk_ban.is_store [OF disk_banI [OF assms]]
  from returns_imp [OF ban_store.execute_ban_returns [OF store refl], OF refl, of s]
  obtain r s' where r: "execute_ban ?d request s = Some (r, s')"
    and post: "case r of Inl e \<Rightarrow> ?lists s' = ?lists s
          \<or> requested_change ?clock ?held ?asked (br_duration request) (?lists s) (?lists s')
      | Inr outcome \<Rightarrow> (case outcome of
          Applied changes \<Rightarrow> br_duration request = None \<and> requested_change ?clock ?held ?asked None (?lists s) (?lists s')
        | TemporaryApplied changes notices \<Rightarrow> (\<exists>dur. br_duration request = Some dur
            \<and> requested_change ?clock ?held ?asked (Some dur) (?lists s) (?lists s'))
        | BanInvalidTargets bad \<Rightarrow> refused_targets ?held ?asked bad \<and> ?lists s' = ?lists s
        | BanEmptyFile \<Rightarrow> input_lines ?asked ?held [] \<and> ?lists s' = ?lists s)"
    unfolding lists_of_files ban_files_view(4) disk_simps by blast
  show ?thesis using r post unfolding Let_def by (intro exI [of _ r] exI [of _ s'] conjI)
qed

text \<open>A disk with a small list and a file of targets, and a ban of the targets of that file.\<close>

definition list_disk :: memory_files where
  "list_disk = \<lparr>mf_files = [(lit ''/etc/kidobo/blocklist.txt'', Utf8 (lit ''10.0.0.0/24'')),
     (lit ''/root/targets'', Utf8 (lit ''192.0.2.0/24''))], mf_counter = 0, mf_budget = 100\<rparr>"

definition ban_demo :: ban_request where
  "ban_demo = \<lparr>br_paths = \<lparr>explicit_config_path = None, temp_dir = [], env_vars = []\<rparr>,
     br_input = File (lit ''/root/targets''), br_duration = None\<rparr>"

theorem ban_changes_as_requested_witness:
  "\<exists>s'. execute_ban (disk_ban_dependencies decode_document render_document memory_host ban_ports) ban_demo list_disk
      = Some (Inr (Applied [ChangeAdded (lit ''192.0.2.0/24'')]), s')
    \<and> fst (lists_on_disk decode_document demo_paths (mf_view s')) = Some [V4 (Cidr 0x0A000000 24), V4 (Cidr 0xC0000200 24)]"
proof -
  let ?r = "execute_ban (disk_ban_dependencies decode_document render_document memory_host ban_ports) ban_demo list_disk"
  let ?held = "held_lines (br_input ban_demo) (mf_view list_disk)"
  have run: "map_option fst ?r = Some (Inr (Applied [ChangeAdded (lit ''192.0.2.0/24'')]))" by code_simp
  have none: "br_duration ban_demo = None" by (simp add: ban_demo_def)
  obtain r s' clock where r: "?r = Some (r, s')" and post: "let old = lists_on_disk decode_document demo_paths (mf_view list_disk);
         new = lists_on_disk decode_document demo_paths (mf_view s'); asked = br_input ban_demo;
         held = held_lines asked (mf_view list_disk)
       in case r of
          Inr (Applied changes) \<Rightarrow> br_duration ban_demo = None \<and> requested_change clock held asked None old new
        | Inr (TemporaryApplied changes notices) \<Rightarrow>
            (\<exists>dur. br_duration ban_demo = Some dur \<and> requested_change clock held asked (Some dur) old new)
        | Inr (BanInvalidTargets bad) \<Rightarrow> refused_targets held asked bad \<and> new = old
        | Inr BanEmptyFile \<Rightarrow> input_lines asked held [] \<and> new = old
        | Inl e \<Rightarrow> new = old \<or> requested_change clock held asked (br_duration ban_demo) old new"
    using ban_changes_as_requested [OF memory_host_law codec_law ban_ports_lawful memory_separate, of ban_demo list_disk]
    unfolding Let_def by blast
  have r': "r = Inr (Applied [ChangeAdded (lit ''192.0.2.0/24'')])" using run r by simp
  have old: "fst (lists_on_disk decode_document demo_paths (mf_view list_disk)) = Some [V4 (Cidr 0x0A000000 24)]" by code_simp
  have inp: "?held = Some [lit ''192.0.2.0/24'']" "parse_targets [lit ''192.0.2.0/24''] = ([V4 (Cidr 0xC0000200 24)], [])"
    by code_simp+
  have named: "br_input ban_demo = File (lit ''/root/targets'')" by (simp add: ban_demo_def)
  obtain added where "fst (lists_on_disk decode_document demo_paths (mf_view s')) = Some ([V4 (Cidr 0x0A000000 24)] @ added)"
      "distinct added" "set added = {V4 (Cidr 0xC0000200 24)} - {V4 (Cidr 0x0A000000 24)}"
    using post inp old named by (auto simp: r' Let_def requested_change_def input_lines_def permanently_banned_def)
  moreover then have "added = [V4 (Cidr 0xC0000200 24)]"
    by (cases added; cases "tl added") auto
  ultimately show ?thesis using r r' by simp
qed

text \<open>
  C6: An unban removes exactly what its preview showed. If it succeeds, the lists have lost
  exactly the requested networks and, when that was confirmed, those that overlap one, in order;
  the preview listed precisely the entries concerned, and as many as the outcome counts. If it
  fails at any point, both lists are whole: unchanged, or the temporary one done, or both done.
\<close>

theorem unban_removes_what_was_shown:
  assumes "file_law h files" "toml_law toml_decode toml_render"
    and "ban_ports_law d (\<lambda>s. list_files paths (files s)) paths" "separate_lists h paths"
    and "canonicals_ok ts" "up_targets preview = UnbanTargetIndex_new ts"
  shows "\<exists>r s'. apply_unban (disk_ban_dependencies toml_decode toml_render h d) request preview partial s = Some (r, s')
    \<and> (let old = lists_on_disk toml_decode paths (files s); new = lists_on_disk toml_decode paths (files s')
       in case r of
          Inl e \<Rightarrow> unban_interrupted ts partial old new
        | Inr outcome \<Rightarrow> unban_applied ts partial old new
            \<and> (\<exists>es b. old = (Some es, Some b) \<and> up_exact_entries preview = shown (exactly ts) es b
                 \<and> up_partial_entries preview = shown (partially ts) es b)
            \<and> uo_removed_exact outcome = length (up_exact_entries preview)
            \<and> uo_removed_partial outcome = (if partial then length (up_partial_entries preview) else 0))"
proof -
  have ports: "ban_ports_law d (\<lambda>s. ban_files paths (Single []) (files s)) paths"
    using ban_ports_law_image [OF assms(3)] by (simp add: ban_files_def)
  note store = disk_ban.is_store [OF disk_banI [OF assms(1,2) ports assms(4)]]
  from returns_imp [OF ban_store.apply_unban_returns [OF store assms(5,6)], OF refl, of request partial s]
  obtain r s' where r: "apply_unban (disk_ban_dependencies toml_decode toml_render h d) request preview partial s = Some (r, s')"
    and post: "case r of Inl e \<Rightarrow> unban_interrupted ts partial (lists_on_disk toml_decode paths (files s)) (lists_on_disk toml_decode paths (files s'))
      | Inr outcome \<Rightarrow> unban_applied ts partial (lists_on_disk toml_decode paths (files s)) (lists_on_disk toml_decode paths (files s'))
            \<and> (\<exists>es b. lists_on_disk toml_decode paths (files s) = (Some es, Some b) \<and> up_exact_entries preview = shown (exactly ts) es b
                 \<and> up_partial_entries preview = shown (partially ts) es b)
            \<and> uo_removed_exact outcome = length (up_exact_entries preview)
            \<and> uo_removed_partial outcome = (if partial then length (up_partial_entries preview) else 0)"
    unfolding lists_of_files by blast
  show ?thesis using r post unfolding Let_def by (intro exI [of _ r] exI [of _ s'] conjI)
qed

text \<open>The preview of an unban of a network that the list has inside a larger one, then applied.\<close>

definition unban_demo :: unban_request where
  "unban_demo = \<lparr>ur_paths = \<lparr>explicit_config_path = None, temp_dir = [], env_vars = []\<rparr>,
     ur_input = Single (lit ''10.0.0.128/25'')\<rparr>"

definition demo_preview :: unban_preview where
  "demo_preview = \<lparr>up_target_label = lit ''10.0.0.128/25'', up_requested_target_count = 1, up_exact_entries = [],
     up_partial_entries = [lit ''10.0.0.0/24''], up_targets = UnbanTargetIndex_new [V4 (Cidr 0x0A000080 25)],
     up_temporary_matches = []\<rparr>"

theorem unban_removes_what_was_shown_witness:
  "\<exists>outcome s'. apply_unban (disk_ban_dependencies decode_document render_document memory_host ban_ports)
        unban_demo demo_preview True list_disk = Some (Inr outcome, s')
    \<and> fst (lists_on_disk decode_document demo_paths (mf_view s')) = Some [] \<and> uo_removed_partial outcome = 1"
proof -
  let ?ts = "[V4 (Cidr 0x0A000080 25)]"
  let ?r = "apply_unban (disk_ban_dependencies decode_document render_document memory_host ban_ports)
      unban_demo demo_preview True list_disk"
  have run: "map_option (isl \<circ> fst) ?r = Some False" by code_simp
  have ts: "canonicals_ok ?ts" by code_simp
  obtain r s' where r: "?r = Some (r, s')" and post: "let old = lists_on_disk decode_document demo_paths (mf_view list_disk);
         new = lists_on_disk decode_document demo_paths (mf_view s')
       in case r of
          Inl e \<Rightarrow> unban_interrupted ?ts True old new
        | Inr outcome \<Rightarrow> unban_applied ?ts True old new
            \<and> (\<exists>es b. old = (Some es, Some b) \<and> up_exact_entries demo_preview = shown (exactly ?ts) es b
                 \<and> up_partial_entries demo_preview = shown (partially ?ts) es b)
            \<and> uo_removed_exact outcome = length (up_exact_entries demo_preview)
            \<and> uo_removed_partial outcome = (if True then length (up_partial_entries demo_preview) else 0)"
    using unban_removes_what_was_shown [OF memory_host_law codec_law ban_ports_lawful memory_separate ts,
        of demo_preview unban_demo True list_disk] by (auto simp: demo_preview_def)
  obtain outcome where r': "r = Inr outcome" using run r by (cases r) auto
  have old: "fst (lists_on_disk decode_document demo_paths (mf_view list_disk)) = Some [V4 (Cidr 0x0A000000 24)]" by code_simp
  have "filter (\<lambda>c. \<not> unbanned ?ts True c) [V4 (Cidr 0x0A000000 24)] = []" by code_simp
  moreover have "length (up_partial_entries demo_preview) = 1" by code_simp
  ultimately show ?thesis using r r' post old by (auto simp: Let_def unban_applied_def)
qed

end
