(* ===== verification/Remote_Parse.thy ===== *)
theory Remote_Parse
  imports Files Blocklist
begin

text \<open>
  Remote feeds as text, \<^verbatim>\<open>crates/kidobo-adapters/src/remote_parse.rs\<close>: the bounded parser and the
  normalised rendering that caches keep. The parser is characterised by the lines of the feed;
  what it accepts survives rendering and parsing within the same budgets.
\<close>

section \<open>Bytes as text\<close>

text \<open>
  \<open>String::as_bytes\<close>, and \<open>String::from_utf8_lossy\<close>: every maximal invalid sequence becomes one
  replacement character.
\<close>

definition utf8_char :: "nat \<Rightarrow> 8 word list" where
  "utf8_char c =
     (if c < 128 then [of_nat c]
      else if c < 2048 then [of_nat (192 + c div 64), of_nat (128 + c mod 64)]
      else if c < 65536 then [of_nat (224 + c div 4096), of_nat (128 + c div 64 mod 64), of_nat (128 + c mod 64)]
      else [of_nat (240 + c div 262144), of_nat (128 + c div 4096 mod 64), of_nat (128 + c div 64 mod 64), of_nat (128 + c mod 64)])"

definition utf8_encode :: "rstr \<Rightarrow> 8 word list" where
  "utf8_encode t = concat (map utf8_char t)"

fun bytes_of :: "file_bytes \<Rightarrow> 8 word list" where
  "bytes_of (Utf8 t) = utf8_encode t"
| "bytes_of (Raw bs) = bs"

definition continuation :: "nat \<Rightarrow> bool" where
  "continuation b \<longleftrightarrow> 128 \<le> b \<and> b < 192"

definition second_ok :: "nat \<Rightarrow> nat \<Rightarrow> bool" where
  "second_ok a b \<longleftrightarrow> continuation b \<and> (a = 224 \<longrightarrow> 160 \<le> b) \<and> (a = 237 \<longrightarrow> b < 160)
     \<and> (a = 240 \<longrightarrow> 144 \<le> b) \<and> (a = 244 \<longrightarrow> b < 144)"

text \<open>The next character and the number of bytes it takes; 65533 is the replacement.\<close>

definition utf8_next :: "nat \<Rightarrow> nat list \<Rightarrow> nat \<times> nat" where
  "utf8_next a rest =
     (let b = (case rest of x # _ \<Rightarrow> x | [] \<Rightarrow> 0); c = (case rest of _ # x # _ \<Rightarrow> x | _ \<Rightarrow> 0);
          d = (case rest of _ # _ # x # _ \<Rightarrow> x | _ \<Rightarrow> 0)
      in if a < 128 then (a, 1)
         else if 194 \<le> a \<and> a < 224 then
           (if continuation b then ((a - 192) * 64 + (b - 128), 2) else (65533, 1))
         else if 224 \<le> a \<and> a < 240 then
           (if \<not> second_ok a b then (65533, 1) else if \<not> continuation c then (65533, 2)
            else ((a - 224) * 4096 + (b - 128) * 64 + (c - 128), 3))
         else if 240 \<le> a \<and> a < 245 then
           (if \<not> second_ok a b then (65533, 1) else if \<not> continuation c then (65533, 2)
            else if \<not> continuation d then (65533, 3)
            else ((a - 240) * 262144 + (b - 128) * 4096 + (c - 128) * 64 + (d - 128), 4))
         else (65533, 1))"

function utf8_lossy :: "nat list \<Rightarrow> rstr" where
  "utf8_lossy [] = []"
| "utf8_lossy (a # rest) = (case utf8_next a rest of (c, n) \<Rightarrow> c # utf8_lossy (drop (n - 1) rest))"
  by pat_completeness auto
termination by (relation "measure length") auto

fun from_utf8_lossy :: "file_bytes \<Rightarrow> rstr" where
  "from_utf8_lossy (Utf8 t) = t"
| "from_utf8_lossy (Raw bs) = utf8_lossy (map unat bs)"

section \<open>The parser\<close>

record RemoteFeedLimits =
  fl_data_lines :: nat
  fl_unique_cidrs :: nat

definition RemoteFeedLimits_from_maxelem :: "nat \<Rightarrow> RemoteFeedLimits" where
  "RemoteFeedLimits_from_maxelem maxelem =
     (let doubled = min (maxelem * 2) U64_LIMIT
      in \<lparr>fl_data_lines = max 16384 (min doubled 1000000), fl_unique_cidrs = max 4096 (min doubled 1000000)\<rparr>)"

datatype RemoteParseBudget = DataLines nat nat | UniqueCidrs nat nat

record ParsedRemoteCidrs =
  pr_networks :: "canonical_cidr list"
  pr_data_lines :: nat
  pr_invalid_lines :: nat

definition without_bom :: "rstr \<Rightarrow> rstr" where
  "without_bom line = trim (dropWhile (\<lambda>c. c = 65279) line)"

definition feed_token :: "rstr \<Rightarrow> rstr option" where
  "feed_token line =
     (let column = (case split_once 44 line of Some (first_column, _) \<Rightarrow> first_column | None \<Rightarrow> line)
      in case split_whitespace column of t # _ \<Rightarrow> Some t | [] \<Rightarrow> None)"

fun parse_feed_lines ::
    "RemoteFeedLimits \<Rightarrow> rstr list \<Rightarrow> canonical_cidr list \<Rightarrow> nat \<Rightarrow> nat \<Rightarrow> RemoteParseBudget + ParsedRemoteCidrs" where
  "parse_feed_lines limits [] parsed data_lines invalid_lines =
     Inr \<lparr>pr_networks = parsed, pr_data_lines = data_lines, pr_invalid_lines = invalid_lines\<rparr>"
| "parse_feed_lines limits (line # ls) parsed data_lines invalid_lines =
     (let line = without_bom line
      in if line = [] \<or> prefix [35] line then parse_feed_lines limits ls parsed data_lines invalid_lines
         else let data_lines = data_lines + 1
         in if data_lines > fl_data_lines limits then Inl (DataLines data_lines (fl_data_lines limits))
         else case feed_token line of
           None \<Rightarrow> parse_feed_lines limits ls parsed data_lines invalid_lines
         | Some token \<Rightarrow> (case parse_ip_cidr_non_strict token of
             Some cidr \<Rightarrow>
               (let parsed = List.insort_insert cidr parsed
                in if length parsed > fl_unique_cidrs limits then Inl (UniqueCidrs (length parsed) (fl_unique_cidrs limits))
                   else parse_feed_lines limits ls parsed data_lines invalid_lines)
           | None \<Rightarrow> parse_feed_lines limits ls parsed data_lines (invalid_lines + 1)))"

definition parse_remote_cidrs_bounded :: "file_bytes \<Rightarrow> RemoteFeedLimits \<Rightarrow> RemoteParseBudget + ParsedRemoteCidrs" where
  "parse_remote_cidrs_bounded raw limits = parse_feed_lines limits (str_lines (from_utf8_lossy raw)) [] 0 0"

definition parse_cached_iplist_bounded :: "rstr \<Rightarrow> RemoteFeedLimits \<Rightarrow> RemoteParseBudget + canonical_cidr list" where
  "parse_cached_iplist_bounded iplist limits =
     and_then (parse_remote_cidrs_bounded (Utf8 iplist) limits) (\<lambda>parsed. Inr (pr_networks parsed))"

definition format_normalized_cidrs :: "canonical_cidr list \<Rightarrow> rstr" where
  "format_normalized_cidrs cidrs = str_join [10] (map show_cidr cidrs)"

section \<open>What is parsed\<close>

definition data_line :: "rstr \<Rightarrow> bool" where
  "data_line line \<longleftrightarrow> without_bom line \<noteq> [] \<and> \<not> prefix [35] (without_bom line)"

definition line_network :: "rstr \<Rightarrow> canonical_cidr option" where
  "line_network line = (if data_line line then Option.bind (feed_token (without_bom line)) parse_ip_cidr_non_strict else None)"

definition line_invalid :: "rstr \<Rightarrow> bool" where
  "line_invalid line \<longleftrightarrow> data_line line \<and> (\<exists>t. feed_token (without_bom line) = Some t \<and> parse_ip_cidr_non_strict t = None)"

definition feed_networks :: "rstr list \<Rightarrow> canonical_cidr set" where
  "feed_networks ls = {c. Some c \<in> line_network ` set ls}"

lemma feed_networks_simps [simp]:
  "feed_networks [] = {}"
  "feed_networks (l # ls) = (case line_network l of Some c \<Rightarrow> insert c (feed_networks ls) | None \<Rightarrow> feed_networks ls)"
  by (auto simp: feed_networks_def split: option.split)

lemma feed_networks_ok: "c \<in> feed_networks ls \<Longrightarrow> canonical_ok c"
  by (auto simp: feed_networks_def line_network_def bind_eq_Some_conv dest!: sym [of "Some _"] parse_ip_cidr_non_strict_ok split: if_splits)

lemma finite_feed: "finite (feed_networks ls)"
  by (induction ls) (auto split: option.split)

text \<open>The result, in terms of the lines: within the budgets it is exact.\<close>

lemma parse_feed_Inr:
  assumes "sorted parsed" "distinct parsed" "data \<le> fl_data_lines limits" "length parsed \<le> fl_unique_cidrs limits"
  shows "parse_feed_lines limits ls parsed data invalid = Inr p \<longleftrightarrow>
    data + length (filter data_line ls) \<le> fl_data_lines limits
    \<and> card (set parsed \<union> feed_networks ls) \<le> fl_unique_cidrs limits
    \<and> p = \<lparr>pr_networks = sorted_list_of_set (set parsed \<union> feed_networks ls),
        pr_data_lines = data + length (filter data_line ls),
        pr_invalid_lines = invalid + length (filter line_invalid ls)\<rparr>"
  using assms
proof (induction ls arbitrary: parsed data invalid)
  case Nil
  then show ?case by (auto simp: distinct_card sorted_list_of_set_sort_remdups sort_key_id_if_sorted distinct_remdups_id)
next
  case (Cons l ls)
  let ?w = "without_bom l"
  show ?case
  proof (cases "data_line l \<and> data < fl_data_lines limits")
    case False
    then show ?thesis using Cons.IH [OF Cons.prems]
      by (auto simp: data_line_def line_network_def line_invalid_def Let_def split: option.splits)
  next
    case True
    then have d: "?w \<noteq> []" "\<not> prefix [35] ?w" "data + 1 \<le> fl_data_lines limits" by (auto simp: data_line_def)
    note IH = Cons.IH [OF Cons.prems(1,2) d(3) Cons.prems(4)]
    show ?thesis
    proof (cases "line_network l")
      case None
      then show ?thesis using d True IH
        by (auto simp: line_network_def line_invalid_def Let_def split: option.splits)
    next
      case (Some c)
      then obtain t where t: "feed_token ?w = Some t" "parse_ip_cidr_non_strict t = Some c"
        using True by (auto simp: line_network_def bind_eq_Some_conv)
      let ?p = "List.insort_insert c parsed"
      have p: "sorted ?p" "distinct ?p" "set ?p = insert c (set parsed)"
        using Cons.prems by (simp_all add: sorted_insort_insert distinct_insort_insert set_insort_insert)
      have len: "length ?p = card (insert c (set parsed))" using p distinct_card by metis
      show ?thesis
      proof (cases "length ?p \<le> fl_unique_cidrs limits")
        case True
        then show ?thesis
          using d t Some \<open>data_line l \<and> _\<close> Cons.IH [OF p(1,2) d(3) True] p(3)
          by (simp add: line_invalid_def Let_def)
      next
        case False
        have "card (insert c (set parsed)) \<le> card (insert c (set parsed \<union> feed_networks ls))"
          by (rule card_mono) (auto simp: finite_feed)
        then show ?thesis using d t Some False len by (simp add: Let_def)
      qed
    qed
  qed
qed

lemma parse_remote_Inr:
  "parse_remote_cidrs_bounded raw limits = Inr p \<longleftrightarrow> (let ls = str_lines (from_utf8_lossy raw) in
    length (filter data_line ls) \<le> fl_data_lines limits \<and> card (feed_networks ls) \<le> fl_unique_cidrs limits
    \<and> p = \<lparr>pr_networks = sorted_list_of_set (feed_networks ls), pr_data_lines = length (filter data_line ls),
        pr_invalid_lines = length (filter line_invalid ls)\<rparr>)"
  using parse_feed_Inr [of "[]" 0 limits "str_lines (from_utf8_lossy raw)" 0 p]
  by (simp add: parse_remote_cidrs_bounded_def Let_def)

section \<open>Rendering\<close>

lemma split_plain: "10 \<notin> set l \<Longrightarrow> split_on (\<lambda>c. c = 10) l = [l]"
  by (induction l) auto

lemma split_joined:
  assumes "ls \<noteq> []" "\<forall>l \<in> set ls. 10 \<notin> set l"
  shows "split_on (\<lambda>c. c = 10) (str_join [10] ls) = ls"
  using assms
proof (induction ls rule: list_nonempty_induct)
  case (cons l ls)
  have "split_on (\<lambda>c. c = 10) (l @ 10 # r) = l # split_on (\<lambda>c. c = 10) r" if "10 \<notin> set l" for l r :: rstr
    using that by (induction l) auto
  moreover have "str_join [10] (l # ls) = l @ 10 # str_join [10] ls" using cons.hyps by (cases ls) simp_all
  ultimately show ?case using cons by simp
qed (simp add: split_plain)

lemma lines_joined:
  assumes "list_all line_ok ls" "\<forall>l \<in> set ls. l \<noteq> []"
  shows "str_lines (str_join [10] ls) = ls"
proof (cases "ls = []")
  case False
  have "split_on (\<lambda>c. c = 10) (str_join [10] ls) = ls"
    using assms(1) False by (intro split_joined) (auto simp: list_all_iff line_ok_def)
  moreover have "strip_cr l = l" if "l \<in> set ls" for l
    using that assms(1) by (auto simp: list_all_iff line_ok_def strip_cr_def)
  then have "map strip_cr (butlast ls) = butlast ls" by (intro map_idI) (auto dest: in_set_butlastD)
  ultimately show ?thesis using False assms(2) by (simp add: str_lines_def Let_def)
qed simp

lemma line_network_shown:
  assumes "canonical_ok c"
  shows "data_line (show_cidr c)" "line_network (show_cidr c) = Some c"
proof -
  note plain = plain_strict [OF addr_chars_cidr show_cidr_not_Nil, of c]
  have "\<forall>x \<in> set (show_cidr c). x \<noteq> 65279 \<and> x \<noteq> 44"
    using addr_chars_cidr [of c]
    by (auto simp: list_all_iff addr_char_def is_digit_of_def to_digit_def Let_def split: if_splits)
  then have bom: "dropWhile (\<lambda>x. x = 65279) (show_cidr c) = show_cidr c" and col: "44 \<notin> set (show_cidr c)"
    using show_cidr_not_Nil [of c] by (cases "show_cidr c"; auto)+
  show d: "data_line (show_cidr c)" using plain bom show_cidr_not_Nil by (simp add: data_line_def without_bom_def)
  show "line_network (show_cidr c) = Some c"
    using d plain bom col parse_show_cidr [OF assms]
    by (simp add: line_network_def without_bom_def feed_token_def split_once_def parse_ip_cidr_non_strict_def Let_def show_cidr_not_Nil)
qed

lemma feed_networks_shown: "canonicals_ok cs \<Longrightarrow> feed_networks (map show_cidr cs) = set cs"
  by (induction cs) (auto simp: canonicals_ok_def line_network_shown)

lemma feed_data_shown: "canonicals_ok cs \<Longrightarrow> filter data_line (map show_cidr cs) = map show_cidr cs"
  by (induction cs) (auto simp: canonicals_ok_def line_network_shown)

lemma parse_formatted:
  assumes "canonicals_ok cs" "sorted cs" "distinct cs" "length cs \<le> fl_unique_cidrs limits" "length cs \<le> fl_data_lines limits"
  shows "parse_cached_iplist_bounded (format_normalized_cidrs cs) limits = Inr cs"
proof -
  have "str_lines (format_normalized_cidrs cs) = map show_cidr cs"
    unfolding format_normalized_cidrs_def
    by (rule lines_joined) (auto simp: list_all_iff show_cidr_not_Nil plain_strict(4) [OF addr_chars_cidr show_cidr_not_Nil])
  then have "parse_remote_cidrs_bounded (Utf8 (format_normalized_cidrs cs)) limits
      = Inr \<lparr>pr_networks = cs, pr_data_lines = length cs,
          pr_invalid_lines = length (filter line_invalid (map show_cidr cs))\<rparr>"
    using assms by (simp add: parse_remote_Inr feed_networks_shown feed_data_shown distinct_card
        sorted_list_of_set_sort_remdups sort_key_id_if_sorted distinct_remdups_id)
  then show ?thesis by (simp add: parse_cached_iplist_bounded_def)
qed

lemma limits_ordered:
  "fl_unique_cidrs (RemoteFeedLimits_from_maxelem m) \<le> fl_data_lines (RemoteFeedLimits_from_maxelem m)"
  by (simp add: RemoteFeedLimits_from_maxelem_def Let_def)

lemma parsed_networks:
  assumes "parse_remote_cidrs_bounded raw limits = Inr p"
  shows "canonicals_ok (pr_networks p)" "sorted (pr_networks p)" "distinct (pr_networks p)"
    "length (pr_networks p) \<le> fl_unique_cidrs limits"
  using assms finite_feed feed_networks_ok
  by (auto simp: parse_remote_Inr Let_def canonicals_ok_def sorted_list_of_set_sort_remdups)

section \<open>Properties\<close>

text \<open>
  C14: Feeds within their budgets are parsed exactly and survive the cache. A feed is accepted
  exactly when its data lines and its distinct networks are within the limits; the networks are
  then those of its lines, in ascending order without duplicates. What a cache stores for an
  accepted feed parses, within the limits of the same set size, to the same networks.
\<close>

theorem remote_feed_round_trip:
  "let limits = RemoteFeedLimits_from_maxelem m; ls = str_lines (from_utf8_lossy raw);
       fits = (length (filter data_line ls) \<le> fl_data_lines limits \<and> card (feed_networks ls) \<le> fl_unique_cidrs limits)
   in case parse_remote_cidrs_bounded raw limits of
        Inl e \<Rightarrow> \<not> fits
      | Inr p \<Rightarrow> fits \<and> set (pr_networks p) = feed_networks ls \<and> sorted_wrt (<) (pr_networks p)
          \<and> pr_data_lines p = length (filter data_line ls) \<and> pr_invalid_lines p = length (filter line_invalid ls)
          \<and> parse_cached_iplist_bounded (format_normalized_cidrs (pr_networks p)) limits = Inr (pr_networks p)"
proof -
  let ?limits = "RemoteFeedLimits_from_maxelem m"
  show ?thesis
  proof (cases "parse_remote_cidrs_bounded raw ?limits")
    case (Inl e)
    then show ?thesis using parse_remote_Inr [of raw ?limits] by (auto simp: Let_def)
  next
    case (Inr p)
    note p = parsed_networks [OF Inr]
    have "parse_cached_iplist_bounded (format_normalized_cidrs (pr_networks p)) ?limits = Inr (pr_networks p)"
      using p limits_ordered [of m] by (intro parse_formatted) auto
    then show ?thesis unfolding Let_def Inr sum.case
      using p Inr finite_feed by (auto simp: parse_remote_Inr Let_def strict_sorted_iff)
  qed
qed

text \<open>A feed with a byte order mark, a comment, a duplicate, a second column, an invalid line and bytes that are no text.\<close>

lemma demo_feed_parsed:
  "parse_remote_cidrs_bounded
      (Raw ([239, 187, 191] @ utf8_encode (lit ''10.0.0.1/24'' @ [10, 35, 120, 10] @ lit ''10.0.0.0/24 , x'' @ [10] @ lit ''?'')
        @ [255, 10] @ utf8_encode (lit ''::/64''))) (RemoteFeedLimits_from_maxelem 10)
    = Inr \<lparr>pr_networks = [V4 (Cidr 0x0A000000 24), V6 (Cidr 0 64)], pr_data_lines = 4, pr_invalid_lines = 1\<rparr>"
  by code_simp

end
