(* ===== verification/Generations.thy ===== *)
theory Generations
  imports Remote_Parse Ipset
begin

text \<open>
  The generation store of the remote caches, \<^verbatim>\<open>crates/kidobo-adapters/src/cache_generation.rs\<close>.
  A generation is a directory whose name is a hash of its files; a manifest selects the current
  one and the one before. The lemmas show that a selected generation survives whatever happens
  while the next one is staged, promoted or abandoned. Log messages are not modelled.
\<close>

section \<open>The host\<close>

text \<open>
  Directory operations beside those on files. The JSON library gives a decoder and a renderer of
  the manifest, SHA-256 is a function on bytes. \<open>cd_read_dir\<close> lists the names it could read.
\<close>

record generation_manifest =
  gm_version :: nat
  gm_current :: rstr
  gm_previous :: "rstr option"

record 's cache_host = "'s file_host" +
  cd_create_dir :: "rstr \<Rightarrow> ('s, io_error, unit) dact"
  cd_try_exists :: "rstr \<Rightarrow> ('s, io_error, bool) dact"
  cd_rename_dir :: "rstr \<Rightarrow> rstr \<Rightarrow> ('s, io_error, unit) dact"
  cd_remove_dir_all :: "rstr \<Rightarrow> ('s, io_error, unit) dact"
  cd_read_dir :: "rstr \<Rightarrow> ('s, io_error, rstr list) dact"
  cd_is_dir :: "rstr \<Rightarrow> ('s, io_error, bool) dact"
  cd_symlink_metadata :: "rstr \<Rightarrow> ('s, io_error, unit) dact"
  cd_next_staging :: "'s \<Rightarrow> nat \<times> 's"
  cd_decode_manifest :: "file_bytes \<Rightarrow> generation_manifest option"
  cd_render_manifest :: "generation_manifest \<Rightarrow> rstr option"
  cd_sha256 :: "8 word list \<Rightarrow> 8 word list"

section \<open>Generations\<close>

definition CACHE_SCHEMA_VERSION :: nat where
  "CACHE_SCHEMA_VERSION = 2"

definition MANIFEST_FILE_NAME :: rstr where
  "MANIFEST_FILE_NAME = lit ''current.json''"

definition MANIFEST_READ_LIMIT :: nat where
  "MANIFEST_READ_LIMIT = 16 * 1024"

definition GENERATIONS_DIRECTORY :: rstr where
  "GENERATIONS_DIRECTORY = lit ''generations''"

record generation_candidate =
  gc_id :: rstr
  gc_directory :: rstr

record generation_file =
  gf_name :: rstr
  gf_contents :: file_bytes

record generation_file_limit =
  gl_name :: rstr
  gl_read_limit :: nat

record staged_generation =
  sg_store_root :: rstr
  sg_generation_id :: rstr
  sg_previous :: "rstr option"
  sg_remove_on_drop :: bool
  sg_promoted :: bool
  sg_repair :: "(rstr \<times> generation_file_limit list) option"

definition is_lower_hex :: "nat \<Rightarrow> bool" where
  "is_lower_hex c \<longleftrightarrow> is_ascii_digit c \<or> (97 \<le> c \<and> c \<le> 102)"

definition is_generation_id :: "rstr \<Rightarrow> bool" where
  "is_generation_id v \<longleftrightarrow> utf8_len v = 64 \<and> list_all is_lower_hex v"

definition is_safe_file_name :: "rstr \<Rightarrow> bool" where
  "is_safe_file_name v \<longleftrightarrow> v \<noteq> [] \<and> \<not> prefix [46] v
     \<and> list_all (\<lambda>c. is_ascii_alphanumeric c \<or> c = 46 \<or> c = 95 \<or> c = 45) v"

text \<open>\<open>usize::to_le_bytes\<close> at 64 bits.\<close>

definition le_bytes :: "nat \<Rightarrow> 8 word list" where
  "le_bytes n = map (\<lambda>i. of_nat (n div 256 ^ i)) [0..<8]"

definition generation_id_from_parts :: "('s, 'z) cache_host_scheme \<Rightarrow> (rstr \<times> file_bytes) list \<Rightarrow> rstr" where
  "generation_id_from_parts h parts = hex_lower (cd_sha256 h (concat (map (\<lambda>(name, contents).
     le_bytes (utf8_len name) @ utf8_encode name @ le_bytes (byte_len contents) @ bytes_of contents) parts)))"

definition generation_id :: "('s, 'z) cache_host_scheme \<Rightarrow> generation_file list \<Rightarrow> rstr" where
  "generation_id h fs = generation_id_from_parts h (map (\<lambda>f. (gf_name f, gf_contents f)) fs)"

definition generations_root :: "rstr \<Rightarrow> rstr" where
  "generations_root store_root = path_join store_root GENERATIONS_DIRECTORY"

definition manifest_candidates :: "('s, 'z) cache_host_scheme \<Rightarrow> rstr \<Rightarrow> file_bytes \<Rightarrow> generation_candidate list" where
  "manifest_candidates h store_root bytes = (case cd_decode_manifest h bytes of None \<Rightarrow> [] | Some manifest \<Rightarrow>
     if gm_version manifest \<noteq> CACHE_SCHEMA_VERSION then []
     else if \<not> is_generation_id (gm_current manifest)
       \<or> (case gm_previous manifest of Some previous \<Rightarrow> \<not> is_generation_id previous \<or> previous = gm_current manifest
          | None \<Rightarrow> False) then []
     else map (\<lambda>id. \<lparr>gc_id = id, gc_directory = path_join (generations_root store_root) id\<rparr>)
       (gm_current manifest # (case gm_previous manifest of Some previous \<Rightarrow> [previous] | None \<Rightarrow> [])))"

definition generation_candidates ::
    "('s, 'z) cache_host_scheme \<Rightarrow> rstr \<Rightarrow> ('s, 'e, generation_candidate list) dact" where
  "generation_candidates h store_root =
     d_bind (d_try (read_bytes_with_limit h (path_join store_root MANIFEST_FILE_NAME) MANIFEST_READ_LIMIT)) (\<lambda>bytes.
       d_ok (case bytes of Inl _ \<Rightarrow> [] | Inr bytes \<Rightarrow> manifest_candidates h store_root bytes))"

fun read_members ::
    "('s, 'z) cache_host_scheme \<Rightarrow> rstr \<Rightarrow> generation_file_limit list \<Rightarrow> ('s, 'e, (rstr \<times> file_bytes) list option) dact" where
  "read_members h dir [] = d_ok (Some [])"
| "read_members h dir (f # fs) =
     d_bind (d_try (read_bytes_with_limit h (path_join dir (gl_name f)) (gl_read_limit f))) (\<lambda>r. case r of
         Inl _ \<Rightarrow> d_ok None
       | Inr bytes \<Rightarrow> d_bind (read_members h dir fs) (\<lambda>rest. d_ok (map_option ((#) (gl_name f, bytes)) rest)))"

definition generation_contents_match ::
    "('s, 'z) cache_host_scheme \<Rightarrow> generation_candidate \<Rightarrow> generation_file_limit list \<Rightarrow> ('s, 'e, bool) dact" where
  "generation_contents_match h candidate fs =
     d_bind (read_members h (gc_directory candidate) fs) (\<lambda>contents. d_ok (case contents of
         None \<Rightarrow> False
       | Some contents \<Rightarrow> generation_id_from_parts h (sort_key fst contents) = gc_id candidate))"

fun remove_unkept ::
    "('s, 'z) cache_host_scheme \<Rightarrow> rstr \<Rightarrow> (rstr \<Rightarrow> bool) \<Rightarrow> rstr list \<Rightarrow> ('s, 'e, unit) dact" where
  "remove_unkept h dir keep [] = d_ok ()"
| "remove_unkept h dir keep (name # names) =
     (if keep name then remove_unkept h dir keep names
      else d_bind (d_try (cd_is_dir h (path_join dir name))) (\<lambda>metadata.
        if metadata = Inr True
        then d_bind (d_try (cd_remove_dir_all h (path_join dir name))) (\<lambda>_. remove_unkept h dir keep names)
        else remove_unkept h dir keep names))"

definition remove_generations :: "('s, 'z) cache_host_scheme \<Rightarrow> rstr \<Rightarrow> (rstr \<Rightarrow> bool) \<Rightarrow> ('s, 'e, unit) dact" where
  "remove_generations h dir keep =
     d_bind (d_try (cd_read_dir h dir)) (\<lambda>entries. case entries of
         Inl _ \<Rightarrow> d_ok ()
       | Inr names \<Rightarrow> d_bind (remove_unkept h dir keep names) (\<lambda>_.
           d_bind (d_try (fh_sync_directory h dir)) (\<lambda>_. d_ok ())))"

definition prune_generations :: "('s, 'z) cache_host_scheme \<Rightarrow> rstr \<Rightarrow> generation_manifest \<Rightarrow> ('s, 'e, unit) dact" where
  "prune_generations h store_root manifest = remove_generations h (generations_root store_root)
     (\<lambda>name. name = gm_current manifest \<or> gm_previous manifest = Some name)"

definition cleanup_unselected_generations :: "('s, 'z) cache_host_scheme \<Rightarrow> rstr \<Rightarrow> ('s, 'e, unit) dact" where
  "cleanup_unselected_generations h store_root =
     d_bind (generation_candidates h store_root) (\<lambda>candidates. case candidates of
         [] \<Rightarrow> d_bind (d_try (cd_symlink_metadata h (path_join store_root MANIFEST_FILE_NAME))) (\<lambda>metadata.
           if metadata = Inl NotFound then remove_generations h (generations_root store_root) (\<lambda>_. False)
           else d_ok ())
       | current # others \<Rightarrow> prune_generations h store_root
           \<lparr>gm_version = CACHE_SCHEMA_VERSION, gm_current = gc_id current,
             gm_previous = (case others of p # _ \<Rightarrow> Some (gc_id p) | [] \<Rightarrow> None)\<rparr>)"

section \<open>Promotion\<close>

fun repair_members ::
    "('s, 'z) cache_host_scheme \<Rightarrow> rstr \<Rightarrow> rstr \<Rightarrow> generation_file_limit list \<Rightarrow> ('s, io_error, unit) dact" where
  "repair_members h staging destination [] = d_ok ()"
| "repair_members h staging destination (f # fs) =
     d_bind (read_bytes_with_limit h (path_join staging (gl_name f)) (gl_read_limit f)) (\<lambda>contents.
     d_bind (d_try (read_bytes_with_limit h (path_join destination (gl_name f)) (gl_read_limit f))) (\<lambda>existing.
     d_bind (if existing \<noteq> Inr contents then write_bytes_atomic h (path_join destination (gl_name f)) contents else d_ok ()) (\<lambda>_.
       repair_members h staging destination fs)))"

definition repair_generation :: "('s, 'z) cache_host_scheme \<Rightarrow> staged_generation \<Rightarrow> ('s, io_error, unit) dact" where
  "repair_generation h sg = (case sg_repair sg of None \<Rightarrow> d_ok () | Some (staging_directory, limits) \<Rightarrow>
     (let destination = path_join (generations_root (sg_store_root sg)) (sg_generation_id sg)
      in d_bind (repair_members h staging_directory destination limits) (\<lambda>_.
         d_bind (fh_sync_directory h destination) (\<lambda>_.
         d_bind (generation_contents_match h \<lparr>gc_id = sg_generation_id sg, gc_directory = destination\<rparr> limits) (\<lambda>ok.
           if ok then d_ok () else d_err InvalidData)))))"

definition promote_with_hook :: "('s, 'z) cache_host_scheme \<Rightarrow> staged_generation \<Rightarrow> ('s, io_error, unit) dact" where
  "promote_with_hook h sg =
     d_bind (repair_generation h sg) (\<lambda>_.
       let manifest = \<lparr>gm_version = CACHE_SCHEMA_VERSION, gm_current = sg_generation_id sg, gm_previous = sg_previous sg\<rparr>
       in d_bind (generation_candidates h (sg_store_root sg)) (\<lambda>selected.
          if (case selected of c # _ \<Rightarrow> gc_id c = gm_current manifest | [] \<Rightarrow> False)
             \<and> (case selected of _ # p # _ \<Rightarrow> Some (gc_id p) | _ \<Rightarrow> None) = gm_previous manifest
          then d_ok ()
          else d_bind (d_res (ok_or (cd_render_manifest h manifest) InvalidData)) (\<lambda>bytes.
               d_bind (write_bytes_atomic h (path_join (sg_store_root sg) MANIFEST_FILE_NAME) (Utf8 bytes)) (\<lambda>_.
                 prune_generations h (sg_store_root sg) manifest))))"

definition drop_staged :: "('s, 'z) cache_host_scheme \<Rightarrow> staged_generation \<Rightarrow> ('s, 'e, unit) dact" where
  "drop_staged h sg =
     d_bind (case sg_repair sg of
         Some (staging_directory, _) \<Rightarrow> d_bind (d_try (cd_remove_dir_all h staging_directory)) (\<lambda>_. d_ok ())
       | None \<Rightarrow> d_ok ()) (\<lambda>_.
       if \<not> sg_promoted sg \<and> sg_remove_on_drop sg
       then d_bind (d_try (cd_remove_dir_all h (path_join (generations_root (sg_store_root sg)) (sg_generation_id sg)))) (\<lambda>_. d_ok ())
       else d_ok ())"

definition promote :: "('s, 'z) cache_host_scheme \<Rightarrow> staged_generation \<Rightarrow> ('s, io_error, rstr) dact" where
  "promote h sg = d_bind (d_try (promote_with_hook h sg)) (\<lambda>r. case r of
       Inr _ \<Rightarrow> d_bind (drop_staged h (sg\<lparr>sg_promoted := True, sg_remove_on_drop := False\<rparr>)) (\<lambda>_. d_ok (sg_generation_id sg))
     | Inl e \<Rightarrow> d_bind (drop_staged h sg) (\<lambda>_. d_err e))"

section \<open>Staging\<close>

definition staging_path :: "('s, 'z) cache_host_scheme \<Rightarrow> rstr \<Rightarrow> nat \<Rightarrow> rstr" where
  "staging_path h root counter = path_join root
     (lit ''.staging-'' @ show_nat (fh_process_id h) @ [45] @ show_nat counter)"

fun staging_attempts :: "('s, 'z) cache_host_scheme \<Rightarrow> nat \<Rightarrow> rstr \<Rightarrow> ('s, io_error, rstr) dact" where
  "staging_attempts h 0 root = d_err AlreadyExists"
| "staging_attempts h (Suc n) root = (\<lambda>s. case cd_next_staging h s of (counter, s) \<Rightarrow>
     let path = staging_path h root counter
     in d_bind (d_try (cd_create_dir h path)) (\<lambda>r. case r of
          Inr _ \<Rightarrow> d_ok path
        | Inl e \<Rightarrow> if e = AlreadyExists then staging_attempts h n root else d_err e) s)"

definition create_staging_directory :: "('s, 'z) cache_host_scheme \<Rightarrow> rstr \<Rightarrow> ('s, io_error, rstr) dact" where
  "create_staging_directory h root = staging_attempts h 32 root"

fun write_members :: "('s, 'z) cache_host_scheme \<Rightarrow> rstr \<Rightarrow> generation_file list \<Rightarrow> ('s, io_error, unit) dact" where
  "write_members h dir [] = d_ok ()"
| "write_members h dir (f # fs) =
     d_bind (fh_create_new h (path_join dir (gf_name f)) None) (\<lambda>_.
     d_bind (fh_write_all h (path_join dir (gf_name f)) (gf_contents f)) (\<lambda>_.
     d_bind (fh_sync_file h (path_join dir (gf_name f))) (\<lambda>_.
       write_members h dir fs)))"

definition limits_of :: "generation_file list \<Rightarrow> generation_file_limit list" where
  "limits_of fs = map (\<lambda>f. \<lparr>gl_name = gf_name f, gl_read_limit = byte_len (gf_contents f)\<rparr>) fs"

definition publish_generation ::
    "('s, 'z) cache_host_scheme \<Rightarrow> rstr \<Rightarrow> rstr \<Rightarrow> generation_file list \<Rightarrow> rstr
     \<Rightarrow> ('s, io_error, bool \<times> (rstr \<times> generation_file_limit list) option) dact" where
  "publish_generation h root staging_directory fs gid =
     (let generation_directory = path_join root gid
      in d_bind (cd_try_exists h generation_directory) (\<lambda>exists.
         if exists
         then d_bind (generation_contents_match h \<lparr>gc_id = gid, gc_directory = generation_directory\<rparr> (limits_of fs)) (\<lambda>same.
           if same then d_bind (cd_remove_dir_all h staging_directory) (\<lambda>_. d_ok (False, None))
           else d_ok (False, Some (staging_directory, limits_of fs)))
         else d_bind (cd_rename_dir h staging_directory generation_directory) (\<lambda>_.
           d_bind (fh_sync_directory h root) (\<lambda>_. d_ok (True, None)))))"

definition effective_previous :: "generation_candidate list \<Rightarrow> rstr option \<Rightarrow> rstr \<Rightarrow> rstr option" where
  "effective_previous selected previous gid =
     (let previous = (if previous = Some gid
                      then (case selected of _ # p # _ \<Rightarrow> Some (gc_id p) | _ \<Rightarrow> None) else previous)
      in case previous of Some p \<Rightarrow> if is_generation_id p \<and> p \<noteq> gid then Some p else None | None \<Rightarrow> None)"

definition stage_generation ::
    "('s, 'z) cache_host_scheme \<Rightarrow> rstr \<Rightarrow> generation_file list \<Rightarrow> rstr option \<Rightarrow> ('s, io_error, staged_generation) dact" where
  "stage_generation h store_root fs previous =
     (if fs = [] then d_err InvalidInput
      else let ordered_files = sort_key gf_name fs
      in if \<not> distinct_adj (map gf_name ordered_files) \<or> \<not> list_all (\<lambda>f. is_safe_file_name (gf_name f)) ordered_files
         then d_err InvalidInput
      else let id = generation_id h ordered_files; root = generations_root store_root
      in d_bind (fh_create_dir_all h root) (\<lambda>_.
         d_bind (create_staging_directory h root) (\<lambda>staging_directory.
         d_bind (d_try (
             d_bind (write_members h staging_directory ordered_files) (\<lambda>_.
             d_bind (fh_sync_directory h staging_directory) (\<lambda>_.
             d_bind (publish_generation h root staging_directory ordered_files id) (\<lambda>(remove_on_drop, repair).
             d_bind (generation_candidates h store_root) (\<lambda>selected.
               d_ok \<lparr>sg_store_root = store_root, sg_generation_id = id,
                 sg_previous = effective_previous selected previous id, sg_remove_on_drop = remove_on_drop,
                 sg_promoted = False, sg_repair = repair\<rparr>)))))) (\<lambda>result. case result of
             Inl e \<Rightarrow> d_bind (d_try (cd_remove_dir_all h staging_directory)) (\<lambda>_. d_err e)
           | Inr sg \<Rightarrow> d_ok sg))))"

section \<open>Paths of a store\<close>

text \<open>A directory path that \<open>Path\<close> does not normalise; what lies under a directory.\<close>

definition plain_dir :: "rstr \<Rightarrow> bool" where
  "plain_dir d \<longleftrightarrow> d \<noteq> [] \<and> last d \<noteq> 47 \<and> trim_back (rev d) = rev d"

definition plain_name :: "rstr \<Rightarrow> bool" where
  "plain_name n \<longleftrightarrow> n \<noteq> [] \<and> n \<noteq> [46] \<and> 47 \<notin> set n"

definition under :: "rstr \<Rightarrow> rstr \<Rightarrow> bool" where
  "under d q \<longleftrightarrow> (\<exists>r. q = d @ 47 # r)"

lemma join_plain: "plain_dir d \<Longrightarrow> path_join d n = d @ 47 # n"
  by (simp add: plain_dir_def path_join_def)

lemma plain_join: "plain_dir d \<Longrightarrow> plain_name n \<Longrightarrow> plain_dir (path_join d n)"
proof -
  assume d: "plain_dir d" and n: "plain_name n"
  obtain c r where r: "rev n = c # r" using n by (cases "rev n") (auto simp: plain_name_def)
  then have n': "n = rev r @ [c]" by (metis rev.simps(2) rev_rev_ident)
  have "trim_back (c # r @ 47 # rev d) = c # r @ 47 # rev d"
    using n unfolding n' plain_name_def by (cases r) auto
  then have "trim_back (rev n @ 47 # rev d) = rev n @ 47 # rev d" using r by simp
  moreover have "last n \<noteq> 47" using n last_in_set [of n] unfolding plain_name_def by metis
  ultimately show ?thesis using n by (simp add: join_plain [OF d] plain_dir_def plain_name_def)
qed

lemma directory_join:
  assumes "plain_dir d" "plain_name n"
  shows "path_directory (path_join d n) = d"
proof -
  have t: "trim_back (rev (path_join d n)) = rev n @ 47 # rev d"
    using plain_join [OF assms] join_plain [OF assms(1)] by (simp add: plain_dir_def)
  have stop: "dropWhile (\<lambda>c. \<not> is_sep c) (rev n @ 47 # rev d) = 47 # rev d"
    using assms(2) by (subst dropWhile_append2) (auto simp: plain_name_def is_sep_def)
  obtain c r where "rev d = c # r" using assms(1) by (cases "rev d") (auto simp: plain_dir_def)
  then have "trim_back (47 # rev d) = rev d" using assms(1) by (simp add: plain_dir_def)
  moreover have "rev n @ 47 # rev d \<noteq> [47]" using assms(1) by (cases "rev n") (auto simp: plain_dir_def)
  ultimately show ?thesis
    using assms(1) by (simp add: path_directory_def path_parent_def t Let_def stop plain_dir_def)
qed

lemma temp_under: "plain_dir d \<Longrightarrow> plain_name n \<Longrightarrow> t \<in> temp_paths h (path_join d n) \<Longrightarrow>
    \<exists>f. t = path_join d (46 # f) \<and> 47 \<notin> set f"
proof -
  assume "plain_dir d" "plain_name n" "t \<in> temp_paths h (path_join d n)"
  then obtain k where k: "t = path_join d
     ([46] @ (case path_file_name (path_join d n) of Some n \<Rightarrow> n | None \<Rightarrow> lit ''kidobo'')
        @ lit ''.kidobo-tmp-'' @ show_nat (fh_process_id h) @ [45] @ show_nat k)"
    by (auto simp: temp_paths_def directory_join)
  then show ?thesis
    using slash_notin_show_nat file_name_no_slash
    by (intro exI [of _ "(case path_file_name (path_join d n) of Some n \<Rightarrow> n | None \<Rightarrow> lit ''kidobo'')
        @ lit ''.kidobo-tmp-'' @ show_nat (fh_process_id h) @ [45] @ show_nat k"])
      (auto simp: lit_def split: option.splits)
qed

lemma first_component: "a @ 47 # r = b @ 47 # r' \<Longrightarrow> 47 \<notin> set a \<Longrightarrow> 47 \<notin> set b \<Longrightarrow> a = b"
proof -
  assume *: "a @ 47 # r = b @ 47 # r'" "47 \<notin> set a" "47 \<notin> set b"
  from *(2,3) have "takeWhile (\<lambda>c. c \<noteq> 47) (a @ 47 # r) = a" "takeWhile (\<lambda>c. c \<noteq> 47) (b @ 47 # r') = b"
    by (auto intro!: takeWhile_stop)
  with *(1) show "a = b" by simp
qed

lemma under_siblings:
  "plain_dir d \<Longrightarrow> under (path_join d a) q \<Longrightarrow> under (path_join d b) q \<Longrightarrow> 47 \<notin> set a \<Longrightarrow> 47 \<notin> set b \<Longrightarrow> a = b"
  using first_component [of a _ b] by (auto simp: under_def join_plain)

lemma under_join: "plain_dir d \<Longrightarrow> under d (path_join d n)"
  by (auto simp: under_def join_plain)

lemma under_trans: "under d e \<Longrightarrow> under e q \<Longrightarrow> under d q"
  by (auto simp: under_def)

abbreviation "generation_dir root i \<equiv> path_join (generations_root root) i"
abbreviation "manifest_path root \<equiv> path_join root MANIFEST_FILE_NAME"

lemma plain_generations: "plain_dir root \<Longrightarrow> plain_dir (generations_root root)"
  unfolding generations_root_def by (rule plain_join) (auto simp: plain_name_def GENERATIONS_DIRECTORY_def lit_def)

lemma plain_manifest: "plain_name MANIFEST_FILE_NAME"
  by (simp add: plain_name_def MANIFEST_FILE_NAME_def lit_def)

lemma hex_plain: "is_generation_id v \<Longrightarrow> plain_name v"
  by (auto simp: is_generation_id_def plain_name_def list_all_iff is_lower_hex_def is_ascii_digit_def utf8_len_def)

lemma hex_no_dot: "is_generation_id v \<Longrightarrow> v \<noteq> 46 # f"
  by (auto simp: is_generation_id_def is_lower_hex_def is_ascii_digit_def)

lemma safe_plain: "is_safe_file_name v \<Longrightarrow> plain_name v"
  by (auto simp: is_safe_file_name_def plain_name_def list_all_iff is_ascii_alphanumeric_def is_ascii_digit_def)

lemma staging_name: "\<exists>f. staging_path h root k = path_join root (46 # f) \<and> 47 \<notin> set f \<and> f \<noteq> []"
  by (rule exI [of _ "tl (lit ''.staging-'' @ show_nat (fh_process_id h) @ [45] @ show_nat k)"])
    (use slash_notin_show_nat in \<open>auto simp: staging_path_def lit_def\<close>)

lemma manifest_not_under: "plain_dir root \<Longrightarrow> \<not> under (generations_root root) (manifest_path root)"
  by (auto simp: under_def generations_root_def join_plain MANIFEST_FILE_NAME_def GENERATIONS_DIRECTORY_def lit_def)

lemma manifest_temp_not_under:
  "plain_dir root \<Longrightarrow> t \<in> temp_paths h (manifest_path root) \<Longrightarrow> \<not> under (generations_root root) t"
  using temp_under [OF _ plain_manifest, of root t h]
  by (auto simp: under_def generations_root_def join_plain GENERATIONS_DIRECTORY_def lit_def)

text \<open>A generated id is the hexadecimal text of a 32 byte hash.\<close>

lemma nibble_hex: "is_lower_hex (lower_hex_nibble v)"
proof -
  have "and v 15 \<le> 15" by (rule word_and_le1)
  then have "unat (and v 15) \<le> 15" by (simp add: word_le_nat_alt)
  then show ?thesis by (auto simp: lower_hex_nibble_def Let_def is_lower_hex_def is_ascii_digit_def)
qed

lemma hex_lower_id: "length bs = 32 \<Longrightarrow> is_generation_id (hex_lower bs)"
proof -
  have "list_all is_lower_hex (hex_lower bs)" by (auto simp: hex_lower_def list_all_iff nibble_hex)
  moreover have "length (hex_lower bs) = 2 * length bs" by (induction bs) (simp_all add: hex_lower_def)
  moreover have "utf8_len v = length v" if "list_all is_lower_hex v" for v
    using that by (induction v) (auto simp: utf8_len_def utf8_width_def is_lower_hex_def is_ascii_digit_def)
  moreover assume "length bs = 32"
  ultimately show ?thesis by (simp add: is_generation_id_def)
qed

section \<open>What the host promises\<close>

definition moved_dir :: "rstr \<Rightarrow> rstr \<Rightarrow> file_map \<Rightarrow> file_map" where
  "moved_dir a b F = (\<lambda>q. if under b q then F (a @ drop (length b) q) else if under a q then None else F q)"

text \<open>Removing a directory tree may stop half way.\<close>

definition directory_law :: "('s, 'z) cache_host_scheme \<Rightarrow> ('s \<Rightarrow> file_map) \<Rightarrow> bool" where
  "directory_law h files \<longleftrightarrow> (\<forall>F d e.
     returns (\<lambda>s. files s = F) (cd_create_dir h d) (\<lambda>_ s. files s = F \<and> (\<forall>q. under d q \<longrightarrow> F q = None)) (\<lambda>_ s. files s = F)
   \<and> returns (\<lambda>s. files s = F) (cd_try_exists h d) (\<lambda>b s. files s = F \<and> (\<not> b \<longrightarrow> (\<forall>q. under d q \<longrightarrow> F q = None)))
       (\<lambda>_ s. files s = F)
   \<and> returns (\<lambda>s. files s = F) (cd_rename_dir h d e) (\<lambda>_ s. files s = moved_dir d e F) (\<lambda>_ s. files s = F)
   \<and> returns (\<lambda>s. files s = F) (cd_remove_dir_all h d) (\<lambda>_ s. files s = (\<lambda>q. if under d q then None else F q))
       (\<lambda>_ s. \<exists>K. files s = (\<lambda>q. if under d q \<and> q \<in> K then None else F q))
   \<and> returns (\<lambda>s. files s = F) (cd_read_dir h d) (\<lambda>ns s. files s = F \<and> (\<forall>n \<in> set ns. 47 \<notin> set n)) (\<lambda>_ s. files s = F)
   \<and> quiet_call files (cd_is_dir h d)
   \<and> returns (\<lambda>s. files s = F) (cd_symlink_metadata h d) (\<lambda>_ s. files s = F) (\<lambda>e s. files s = F \<and> (e = NotFound \<longrightarrow> F d = None))
   \<and> (\<forall>s. files (snd (cd_next_staging h s)) = files s))"

text \<open>Manifests are rendered, to a short text, and the decoder reads them back; a SHA-256 hash has 32 bytes.\<close>

definition manifest_law :: "('s, 'z) cache_host_scheme \<Rightarrow> bool" where
  "manifest_law h \<longleftrightarrow> (\<forall>m. gm_version m = CACHE_SCHEMA_VERSION \<longrightarrow> is_generation_id (gm_current m) \<longrightarrow> (\<forall>p. gm_previous m = Some p \<longrightarrow> is_generation_id p)
        \<longrightarrow> (\<exists>t. cd_render_manifest h m = Some t \<and> cd_decode_manifest h (Utf8 t) = Some m
               \<and> utf8_len t \<le> MANIFEST_READ_LIMIT))
   \<and> (\<forall>bs. length (cd_sha256 h bs) = 32)"

definition only :: "('s \<Rightarrow> file_map) \<Rightarrow> rstr set \<Rightarrow> 's \<Rightarrow> file_map" where
  "only files A s = files s |` A"

lemma only_eq: "only files A s = G |` A \<longleftrightarrow> (\<forall>q \<in> A. files s q = G q)"
  unfolding only_def restrict_map_def fun_eq_iff by auto

lemma only_same: "only files A s' = only files A s \<longleftrightarrow> (\<forall>q \<in> A. files s' q = files s q)"
  using only_eq [of files A s' "files s"] by (simp add: only_def)

text \<open>A value settles: it stays, or becomes one given value.\<close>

definition settles :: "('s \<Rightarrow> 'v) \<Rightarrow> 'v \<Rightarrow> 's \<Rightarrow> 's \<Rightarrow> bool" where
  "settles v x s s' \<longleftrightarrow> v s' = v s \<or> v s' = x"

interpretation settling: step_preorder "settles v x"
  by unfold_locales (auto simp: settles_def)

lemma steps_keep_settle: "steps (keeps v) m \<Longrightarrow> steps (settles v x) m"
  by (erule steps_mono) (simp add: keeps_def settles_def)

lemma steps_returns:
  assumes "\<And>F. returns (\<lambda>s. v s = F) m (\<lambda>_ s. R F (v s)) (\<lambda>_ s. R F (v s))"
  shows "steps (\<lambda>s s'. R (v s) (v s')) m"
  unfolding steps_def
proof
  fix s
  from returns_imp [OF assms refl] obtain r s' where "m s = Some (r, s')"
    "case r of Inl e \<Rightarrow> R (v s) (v s') | Inr x \<Rightarrow> R (v s) (v s')" by blast
  then show "\<exists>r s'. m s = Some (r, s') \<and> R (v s) (v s')" by (cases r) auto
qed

locale cache_store = file_system h files
  for h :: "('s, 'z) cache_host_scheme" and files :: "'s \<Rightarrow> file_map" +
  assumes directories: "directory_law h files" and manifests: "manifest_law h"
begin

lemma create_dir_returns: "returns (\<lambda>s. files s = F) (cd_create_dir h d)
      (\<lambda>_ s. files s = F \<and> (\<forall>q. under d q \<longrightarrow> F q = None)) (\<lambda>_ s. files s = F)"
  and try_exists_returns: "returns (\<lambda>s. files s = F) (cd_try_exists h d)
      (\<lambda>b s. files s = F \<and> (\<not> b \<longrightarrow> (\<forall>q. under d q \<longrightarrow> F q = None))) (\<lambda>_ s. files s = F)"
  and rename_dir_returns: "returns (\<lambda>s. files s = F) (cd_rename_dir h d e) (\<lambda>_ s. files s = moved_dir d e F) (\<lambda>_ s. files s = F)"
  and remove_dir_returns: "returns (\<lambda>s. files s = F) (cd_remove_dir_all h d) (\<lambda>_ s. files s = (\<lambda>q. if under d q then None else F q))
       (\<lambda>_ s. \<exists>K. files s = (\<lambda>q. if under d q \<and> q \<in> K then None else F q))"
  and read_dir_returns: "returns (\<lambda>s. files s = F) (cd_read_dir h d) (\<lambda>ns s. files s = F \<and> (\<forall>n \<in> set ns. 47 \<notin> set n)) (\<lambda>_ s. files s = F)"
  and is_dir_returns: "returns (\<lambda>s. files s = F) (cd_is_dir h d) (\<lambda>_ s. files s = F) (\<lambda>_ s. files s = F)"
  and symlink_returns: "returns (\<lambda>s. files s = F) (cd_symlink_metadata h d) (\<lambda>_ s. files s = F)
    (\<lambda>e s. files s = F \<and> (e = NotFound \<longrightarrow> F d = None))"
  and staging_files: "files (snd (cd_next_staging h s)) = files s"
  using directories unfolding directory_law_def quiet_call_def by blast+

lemma keepsI:
  assumes "\<And>F. returns (\<lambda>s. files s = F) m (\<lambda>_ s. \<forall>q \<in> A. files s q = F q) (\<lambda>_ s. \<forall>q \<in> A. files s q = F q)"
  shows "steps (keeps (only files A)) m"
  using steps_returns [where v = files and R = "\<lambda>F G. \<forall>q \<in> A. G q = F q", OF assms]
  unfolding keeps_def only_same .

lemma keeps_quiet:
  assumes "\<And>F. returns (\<lambda>s. files s = F) m (\<lambda>x s. files s = F \<and> Q F x) (\<lambda>e s. files s = F \<and> E F e)"
  shows "steps (keeps (only files A)) m"
  by (rule keepsI, rule returns_weaken [OF assms]) auto

lemma keeps_calls:
  "steps (keeps (only files A)) (fh_open_regular h p)" "steps (keeps (only files A)) (fh_read h p n)"
  "steps (keeps (only files A)) (fh_sync_file h p)" "steps (keeps (only files A)) (fh_sync_directory h p)"
  "steps (keeps (only files A)) (fh_create_dir_all h p)" "steps (keeps (only files A)) (cd_create_dir h p)"
  "steps (keeps (only files A)) (cd_try_exists h p)" "steps (keeps (only files A)) (cd_read_dir h p)"
  "steps (keeps (only files A)) (cd_is_dir h p)" "steps (keeps (only files A)) (cd_symlink_metadata h p)"
  by (rule keepsI, rule returns_weaken [OF open_returns], auto)
    (rule keepsI, rule returns_weaken [OF read_returns], auto,
     rule keepsI, rule returns_weaken [OF quiet_calls(3)], auto,
     rule keepsI, rule returns_weaken [OF quiet_calls(4)], auto,
     rule keepsI, rule returns_weaken [OF quiet_calls(5)], auto,
     rule keepsI, rule returns_weaken [OF create_dir_returns], auto,
     rule keepsI, rule returns_weaken [OF try_exists_returns], auto,
     rule keepsI, rule returns_weaken [OF read_dir_returns], auto,
     rule keepsI, rule returns_weaken [OF is_dir_returns], auto,
     rule keepsI, rule returns_weaken [OF symlink_returns], auto)

lemma keeps_create: "p \<notin> A \<Longrightarrow> steps (keeps (only files A)) (fh_create_new h p m)"
  by (rule keepsI, rule returns_weaken [OF create_new_returns]) auto

lemma keeps_write: "p \<notin> A \<Longrightarrow> steps (keeps (only files A)) (fh_write_all h p c)"
  by (rule keepsI, rule returns_weaken [OF write_all_returns]) auto

lemma keeps_rename_dir:
  "\<forall>q \<in> A. \<not> under d q \<and> \<not> under e q \<Longrightarrow> steps (keeps (only files A)) (cd_rename_dir h d e)"
  by (rule keepsI, rule returns_weaken [OF rename_dir_returns]) (auto simp: moved_dir_def)

lemma keeps_remove_dir: "\<forall>q \<in> A. \<not> under d q \<Longrightarrow> steps (keeps (only files A)) (cd_remove_dir_all h d)"
  by (rule keepsI, rule returns_weaken [OF remove_dir_returns]) auto

lemma keeps_atomic: "p \<notin> A \<Longrightarrow> A \<inter> temp_paths h p = {} \<Longrightarrow> steps (keeps (only files A)) (write_bytes_atomic h p c)"
  unfolding write_bytes_atomic_def
  by (rule keepsI, rule returns_weaken [OF atomic_write_returns]) (auto dest!: written_or_kept_other)

end

section \<open>What is left alone\<close>

context cache_store
begin

lemma yieldsI:
  assumes "\<And>F. returns (\<lambda>s. files s = F) m (\<lambda>x s. files s = F \<and> Q x) (\<lambda>_ s. files s = F)"
  shows "yields (only files A) m Q"
  unfolding yields_def
proof
  fix s
  from returns_imp [OF assms refl] obtain r s' where "m s = Some (r, s')"
    "case r of Inl e \<Rightarrow> files s' = files s | Inr x \<Rightarrow> files s' = files s \<and> Q x" by blast
  then show "\<exists>r s'. m s = Some (r, s') \<and> only files A s' = only files A s \<and> (\<forall>x. r = Inr x \<longrightarrow> Q x)"
    by (cases r) (auto simp: only_def)
qed

lemmas keep_intros = keeping.steps_intros keeps_calls

lemma keeps_read: "steps (keeps (only files A)) (read_bytes_with_limit h p n)"
  unfolding read_bytes_with_limit_def read_to_end_with_limit_def Let_def by (intro keep_intros)

lemma keeps_candidates: "steps (keeps (only files A)) (generation_candidates h root)"
  unfolding generation_candidates_def by (intro keep_intros keeps_read)

lemma keeps_members: "steps (keeps (only files A)) (read_members h dir fs)"
proof (induction fs)
  case (Cons f fs)
  show ?case unfolding read_members.simps by (auto intro!: keep_intros keeps_read Cons split: sum.split)
qed (simp add: keep_intros)

lemma keeps_match: "steps (keeps (only files A)) (generation_contents_match h c fs)"
  unfolding generation_contents_match_def by (intro keep_intros keeps_members)

text \<open>Pruning leaves alone what is under a kept name, or not under the directory.\<close>

definition kept_names :: "rstr \<Rightarrow> (rstr \<Rightarrow> bool) \<Rightarrow> rstr set \<Rightarrow> bool" where
  "kept_names dir keep A \<longleftrightarrow> (\<forall>q \<in> A. \<forall>n. 47 \<notin> set n \<longrightarrow> under (path_join dir n) q \<longrightarrow> keep n)"

lemma keeps_remove_unkept:
  assumes "kept_names dir keep A" "\<forall>n \<in> set ns. 47 \<notin> set n"
  shows "steps (keeps (only files A)) (remove_unkept h dir keep ns)"
  using assms(2)
proof (induction ns)
  case (Cons n ns)
  have "steps (keeps (only files A)) (cd_remove_dir_all h (path_join dir n))" if "\<not> keep n"
    using assms(1) Cons.prems that by (intro keeps_remove_dir) (auto simp: kept_names_def)
  then show ?case using Cons by (auto intro!: keep_intros)
qed (simp add: keep_intros)

lemma keeps_remove_generations:
  assumes "kept_names dir keep A"
  shows "steps (keeps (only files A)) (remove_generations h dir keep)"
  unfolding remove_generations_def
proof (rule yields_steps [where Q = "\<lambda>_. True"], rule yields_bind)
  show "yields (only files A) (d_try (cd_read_dir h dir)) (\<lambda>r. \<forall>ns. r = Inr ns \<longrightarrow> (\<forall>n \<in> set ns. 47 \<notin> set n))"
    by (rule yields_try, rule yieldsI, rule returns_weaken [OF read_dir_returns]) auto
  fix r :: "io_error + rstr list"
  assume "\<forall>ns. r = Inr ns \<longrightarrow> (\<forall>n \<in> set ns. 47 \<notin> set n)"
  then have "steps (keeps (only files A)) (case r of Inl _ \<Rightarrow> d_ok ()
      | Inr names \<Rightarrow> d_bind (remove_unkept h dir keep names) (\<lambda>_. d_bind (d_try (fh_sync_directory h dir)) (\<lambda>_. d_ok ())))"
    using keeps_remove_unkept [OF assms] by (cases r) (auto intro!: keep_intros)
  then show "yields (only files A) (case r of Inl _ \<Rightarrow> d_ok ()
      | Inr names \<Rightarrow> d_bind (remove_unkept h dir keep names) (\<lambda>_. d_bind (d_try (fh_sync_directory h dir)) (\<lambda>_. d_ok ())))
      (\<lambda>_. True)"
    by (rule yields_keeps)
qed

text \<open>The places a commit of generation \<open>i\<close> may touch, besides the manifest and what it prunes.\<close>

definition workplace :: "rstr \<Rightarrow> rstr \<Rightarrow> rstr \<Rightarrow> bool" where
  "workplace root i q \<longleftrightarrow> under (generation_dir root i) q \<or> (\<exists>k. under (staging_path h (generations_root root) k) q)"

lemma plain_staging:
  "plain_dir root \<Longrightarrow> plain_dir (staging_path h (generations_root root) k)"
  using staging_name [of h "generations_root root" k] plain_join [OF plain_generations]
  by (auto simp: plain_name_def)

lemma keeps_write_members:
  assumes "plain_dir root" "\<forall>q \<in> A. \<not> workplace root i q" "S = staging_path h (generations_root root) k"
  shows "steps (keeps (only files A)) (write_members h S fs)"
proof (induction fs)
  case (Cons f fs)
  have "path_join S (gf_name f) \<notin> A"
    using assms under_join [OF plain_staging [OF assms(1)]] unfolding workplace_def by blast
  then show ?case using Cons by (auto intro!: keep_intros keeps_create keeps_write)
qed (simp add: keep_intros)

lemma keeps_repair_members:
  assumes "plain_dir root" "is_generation_id i" "\<forall>q \<in> A. \<not> workplace root i q"
    and "list_all (\<lambda>f. is_safe_file_name (gl_name f)) fs"
  shows "steps (keeps (only files A)) (repair_members h S (generation_dir root i) fs)"
  using assms(4)
proof (induction fs)
  case (Cons f fs)
  let ?p = "path_join (generation_dir root i) (gl_name f)"
  have d: "plain_dir (generation_dir root i)"
    by (rule plain_join [OF plain_generations [OF assms(1)] hex_plain [OF assms(2)]])
  have n: "plain_name (gl_name f)" using Cons.prems by (simp add: safe_plain)
  have "A \<inter> temp_paths h ?p = {}"
    using temp_under [OF d n] under_join [OF d] assms(3) unfolding workplace_def by blast
  moreover have "?p \<notin> A" using under_join [OF d] assms(3) unfolding workplace_def by blast
  ultimately show ?case using Cons by (auto intro!: keep_intros keeps_read keeps_atomic)
qed (simp add: keep_intros)

end

context cache_store
begin

lemma keeps_publish:
  assumes "plain_dir root" "\<forall>q \<in> A. \<not> workplace root i q" "S = staging_path h (generations_root root) k"
  shows "steps (keeps (only files A)) (publish_generation h (generations_root root) S fs i)"
proof -
  have "steps (keeps (only files A)) (cd_remove_dir_all h S)"
    "steps (keeps (only files A)) (cd_rename_dir h S (generation_dir root i))"
    using assms(2,3) by (auto intro!: keeps_remove_dir keeps_rename_dir simp: workplace_def)
  then show ?thesis unfolding publish_generation_def Let_def by (auto intro!: keep_intros keeps_match)
qed

text \<open>What staging hands over: an unpromoted generation of the new contents.\<close>

definition staged_from :: "rstr \<Rightarrow> generation_file list \<Rightarrow> rstr \<Rightarrow> rstr option \<Rightarrow> staged_generation \<Rightarrow> bool" where
  "staged_from root fs i prev sg \<longleftrightarrow> sg_store_root sg = root \<and> sg_generation_id sg = i \<and> \<not> sg_promoted sg
     \<and> (\<exists>selected. sg_previous sg = effective_previous selected prev i) \<and> list_all (\<lambda>f. is_safe_file_name (gf_name f)) fs
     \<and> (sg_repair sg = None \<or> \<not> sg_remove_on_drop sg
          \<and> (\<exists>k. sg_repair sg = Some (staging_path h (generations_root root) k, limits_of fs)))"

definition staged_for :: "rstr \<Rightarrow> generation_file list \<Rightarrow> rstr \<Rightarrow> rstr \<Rightarrow> staged_generation \<Rightarrow> bool" where
  "staged_for root fs i id0 sg \<longleftrightarrow> sg_store_root sg = root \<and> sg_generation_id sg = i \<and> \<not> sg_promoted sg
     \<and> sg_previous sg = Some id0 \<and> list_all (\<lambda>f. is_safe_file_name (gf_name f)) fs
     \<and> (sg_repair sg = None \<or> \<not> sg_remove_on_drop sg
          \<and> (\<exists>k. sg_repair sg = Some (staging_path h (generations_root root) k, limits_of fs)))"

lemma yields_publish:
  assumes "plain_dir root" "\<forall>q \<in> A. \<not> workplace root i q" "S = staging_path h (generations_root root) k"
  shows "yields (only files A) (publish_generation h (generations_root root) S fs i)
    (\<lambda>(rm, repair). repair = None \<or> \<not> rm \<and> repair = Some (S, limits_of fs))"
proof -
  have "yields (only files A) (cd_remove_dir_all h S) (\<lambda>_. True)"
    "yields (only files A) (cd_rename_dir h S (generation_dir root i)) (\<lambda>_. True)"
    using assms(2,3) by (auto intro!: yields_keeps keeps_remove_dir keeps_rename_dir simp: workplace_def)
  then show ?thesis unfolding publish_generation_def Let_def
    by (auto intro!: yields_bind [OF yields_keeps [OF keeps_calls(7)]] yields_if yields_bind [OF yields_keeps [OF keeps_match]]
        yields_bind [OF yields_keeps [OF keeps_calls(4)]] yields_ok intro: yields_bind)
qed

lemma yields_staging:
  "yields (only files A) (create_staging_directory h root) (\<lambda>S. \<exists>k. S = staging_path h root k)"
proof -
  have "yields (only files A) (staging_attempts h n root) (\<lambda>S. \<exists>k. S = staging_path h root k)" for n
  proof (induction n)
    case (Suc n)
    show ?case unfolding yields_def
    proof
      fix s
      obtain k s1 where k: "cd_next_staging h s = (k, s1)" by (cases "cd_next_staging h s")
      have s1: "files s1 = files s" using staging_files [of s] k by simp
      have y: "yields (only files A) (d_bind (d_try (cd_create_dir h (staging_path h root k))) (\<lambda>r. case r of
          Inr _ \<Rightarrow> d_ok (staging_path h root k)
        | Inl e \<Rightarrow> if e = AlreadyExists then staging_attempts h n root else d_err e)) (\<lambda>S. \<exists>k. S = staging_path h root k)"
        by (rule yields_bind [OF yields_keeps [OF keeping.steps_try [OF keeps_calls(6)]]])
          (auto intro!: yields_ok yields_err yields_if Suc split: sum.split)
      from y [unfolded yields_def, THEN spec, of s1] s1
      show "\<exists>r s'. staging_attempts h (Suc n) root s = Some (r, s') \<and> only files A s' = only files A s
          \<and> (\<forall>x. r = Inr x \<longrightarrow> (\<exists>k. x = staging_path h root k))"
        unfolding staging_attempts.simps k prod.case Let_def by (simp add: only_def)
    qed
  qed (simp add: yields_err)
  then show ?thesis unfolding create_staging_directory_def .
qed

lemma yields_stage_any:
  assumes root: "plain_dir root" and i: "i = generation_id h (sort_key gf_name fs)"
    and A: "\<forall>q \<in> A. \<not> workplace root i q"
  shows "yields (only files A) (stage_generation h root fs prev) (staged_from root (sort_key gf_name fs) i prev)"
proof -
  let ?fs = "sort_key gf_name fs" and ?root = "generations_root root"
  have body: "yields (only files A) (d_bind (d_try (
       d_bind (write_members h S ?fs) (\<lambda>_. d_bind (fh_sync_directory h S) (\<lambda>_.
       d_bind (publish_generation h ?root S ?fs i) (\<lambda>(remove_on_drop, repair).
       d_bind (generation_candidates h root) (\<lambda>selected.
         d_ok \<lparr>sg_store_root = root, sg_generation_id = i,
           sg_previous = effective_previous selected prev i, sg_remove_on_drop = remove_on_drop,
           sg_promoted = False, sg_repair = repair\<rparr>)))))) (\<lambda>result. case result of
       Inl e \<Rightarrow> d_bind (d_try (cd_remove_dir_all h S)) (\<lambda>_. d_err e) | Inr sg \<Rightarrow> d_ok sg)) (staged_from root ?fs i prev)"
    if safe: "list_all (\<lambda>f. is_safe_file_name (gf_name f)) ?fs" and S: "S = staging_path h ?root k" for S k
  proof (rule yields_bind [OF yields_try])
    show "yields (only files A) (d_bind (write_members h S ?fs) (\<lambda>_. d_bind (fh_sync_directory h S) (\<lambda>_.
       d_bind (publish_generation h ?root S ?fs i) (\<lambda>(remove_on_drop, repair).
       d_bind (generation_candidates h root) (\<lambda>selected.
         d_ok \<lparr>sg_store_root = root, sg_generation_id = i,
           sg_previous = effective_previous selected prev i, sg_remove_on_drop = remove_on_drop,
           sg_promoted = False, sg_repair = repair\<rparr>))))) (staged_from root ?fs i prev)"
    proof (rule yields_bind [OF yields_keeps [OF keeps_write_members [OF root A S]]],
        rule yields_bind [OF yields_keeps [OF keeps_calls(4)]], rule yields_bind [OF yields_publish [OF root A S]])
      fix x assume "case x of (rm, repair) \<Rightarrow> repair = None \<or> \<not> rm \<and> repair = Some (S, limits_of ?fs)"
      then show "yields (only files A) (case x of (remove_on_drop, repair) \<Rightarrow> d_bind (generation_candidates h root) (\<lambda>selected.
         d_ok \<lparr>sg_store_root = root, sg_generation_id = i,
           sg_previous = effective_previous selected prev i, sg_remove_on_drop = remove_on_drop,
           sg_promoted = False, sg_repair = repair\<rparr>)) (staged_from root ?fs i prev)"
        using safe S
        by (cases x) (auto intro!: yields_bind [OF yields_keeps [OF keeps_candidates]] yields_ok
            simp: staged_from_def)
    qed
    fix r :: "io_error + staged_generation"
    have "steps (keeps (only files A)) (cd_remove_dir_all h S)"
      using A S by (intro keeps_remove_dir) (auto simp: workplace_def)
    then show "\<forall>sg. r = Inr sg \<longrightarrow> staged_from root ?fs i prev sg \<Longrightarrow> yields (only files A) (case r of
       Inl e \<Rightarrow> d_bind (d_try (cd_remove_dir_all h S)) (\<lambda>_. d_err e) | Inr sg \<Rightarrow> d_ok sg) (staged_from root ?fs i prev)"
      by (cases r) (auto intro!: yields_bind [OF yields_keeps [OF keeping.steps_try]] yields_err yields_ok)
  qed
  show ?thesis unfolding stage_generation_def Let_def i [symmetric]
  proof (rule yields_if, rule yields_err, rule yields_if, rule yields_err,
      rule yields_bind [OF yields_keeps [OF keeps_calls(5)]], rule yields_bind [OF yields_staging])
    fix S
    assume "\<not> (\<not> distinct_adj (map gf_name ?fs) \<or> \<not> list_all (\<lambda>f. is_safe_file_name (gf_name f)) ?fs)"
      and "\<exists>k. S = staging_path h ?root k"
    then show "yields (only files A) (d_bind (d_try (
       d_bind (write_members h S ?fs) (\<lambda>_. d_bind (fh_sync_directory h S) (\<lambda>_.
       d_bind (publish_generation h ?root S ?fs i) (\<lambda>(remove_on_drop, repair).
       d_bind (generation_candidates h root) (\<lambda>selected.
         d_ok \<lparr>sg_store_root = root, sg_generation_id = i,
           sg_previous = effective_previous selected prev i, sg_remove_on_drop = remove_on_drop,
           sg_promoted = False, sg_repair = repair\<rparr>)))))) (\<lambda>result. case result of
       Inl e \<Rightarrow> d_bind (d_try (cd_remove_dir_all h S)) (\<lambda>_. d_err e) | Inr sg \<Rightarrow> d_ok sg)) (staged_from root ?fs i prev)"
      using body by blast
  qed
qed

lemma yields_stage:
  assumes "plain_dir root" "i = generation_id h (sort_key gf_name fs)" "\<forall>q \<in> A. \<not> workplace root i q"
    and "is_generation_id id0" "id0 \<noteq> i"
  shows "yields (only files A) (stage_generation h root fs (Some id0)) (staged_for root (sort_key gf_name fs) i id0)"
  using assms(4,5)
  by (intro yields_mono [OF yields_stage_any [OF assms(1-3)]]) (auto simp: staged_from_def staged_for_def effective_previous_def)

end

section \<open>A selected generation survives\<close>

definition selection :: "('s, 'z) cache_host_scheme \<Rightarrow> file_map \<Rightarrow> rstr \<Rightarrow> rstr list" where
  "selection h F root = (case F (manifest_path root) of
       Some c \<Rightarrow> if byte_len c \<le> MANIFEST_READ_LIMIT then map gc_id (manifest_candidates h root c) else []
     | None \<Rightarrow> [])"

lemma candidates_valid:
  assumes "c \<in> set (manifest_candidates h root b)"
  shows "is_generation_id (gc_id c)" "gc_directory c = generation_dir root (gc_id c)"
  using assms by (auto simp: manifest_candidates_def split: option.splits if_splits)

lemma selection_valid: "i \<in> set (selection h F root) \<Longrightarrow> is_generation_id i"
  by (auto simp: selection_def candidates_valid split: option.splits if_splits)

definition new_manifest :: "rstr \<Rightarrow> rstr \<Rightarrow> generation_manifest" where
  "new_manifest i id0 = \<lparr>gm_version = CACHE_SCHEMA_VERSION, gm_current = i, gm_previous = Some id0\<rparr>"

definition tree :: "rstr \<Rightarrow> rstr set" where
  "tree d = {q. under d q}"

context cache_store
begin

lemma generated_id: "is_generation_id (generation_id h fs)"
  using manifests hex_lower_id by (simp add: generation_id_def generation_id_from_parts_def manifest_law_def)

lemma rendered:
  assumes "is_generation_id i" "is_generation_id id0"
  obtains t where "cd_render_manifest h (new_manifest i id0) = Some t"
    "cd_decode_manifest h (Utf8 t) = Some (new_manifest i id0)" "utf8_len t \<le> MANIFEST_READ_LIMIT"
proof -
  have "gm_version (new_manifest i id0) = CACHE_SCHEMA_VERSION" "is_generation_id (gm_current (new_manifest i id0))"
    "\<forall>p. gm_previous (new_manifest i id0) = Some p \<longrightarrow> is_generation_id p"
    using assms by (simp_all add: new_manifest_def)
  with manifests show thesis using that unfolding manifest_law_def by blast
qed

lemma selection_new:
  assumes "cd_decode_manifest h (Utf8 t) = Some (new_manifest i id0)" "utf8_len t \<le> MANIFEST_READ_LIMIT"
    "is_generation_id i" "is_generation_id id0" "id0 \<noteq> i" "F (manifest_path root) = Some (Utf8 t)"
  shows "selection h F root = [i, id0]"
  using assms by (simp add: selection_def manifest_candidates_def new_manifest_def)

lemma sibling_work:
  assumes "plain_dir root" "is_generation_id i" "is_generation_id id0" "id0 \<noteq> i"
  shows "\<forall>q \<in> tree (generation_dir root id0). \<not> workplace root i q"
proof
  fix q assume q: "q \<in> tree (generation_dir root id0)"
  note d = plain_generations [OF assms(1)]
  have no_slash: "47 \<notin> set id0" "47 \<notin> set i" using hex_plain assms(2,3) by (auto simp: plain_name_def)
  have "\<not> under (staging_path h (generations_root root) k) q" for k
  proof
    assume "under (staging_path h (generations_root root) k) q"
    then obtain f where "under (path_join (generations_root root) (46 # f)) q" "47 \<notin> set f"
      using staging_name [of h "generations_root root" k] by auto
    then have "id0 = 46 # f" using q no_slash under_siblings [OF d] by (auto simp: tree_def)
    then show False using hex_no_dot [OF assms(3)] by blast
  qed
  moreover have "\<not> under (generation_dir root i) q"
    using q no_slash under_siblings [OF d, of id0 q i] assms(4) by (auto simp: tree_def)
  ultimately show "\<not> workplace root i q" by (simp add: workplace_def)
qed

lemma manifest_work: "plain_dir root \<Longrightarrow> \<forall>q \<in> {manifest_path root}. \<not> workplace root i q"
proof
  fix q assume root: "plain_dir root" and q: "q \<in> {manifest_path root}"
  have "under (generations_root root) (path_join (generations_root root) n)" for n
    by (rule under_join [OF plain_generations [OF root]])
  then show "\<not> workplace root i q"
    using manifest_not_under [OF root] under_trans q staging_name [of h "generations_root root"]
    unfolding workplace_def by (metis singletonD)
qed

lemma keeps_repair:
  assumes "plain_dir root" "is_generation_id i" "\<forall>q \<in> A. \<not> workplace root i q" "staged_for root fs i id0 sg"
  shows "steps (keeps (only files A)) (repair_generation h sg)"
proof (cases "sg_repair sg")
  case (Some r)
  then obtain k where k: "r = (staging_path h (generations_root root) k, limits_of fs)"
    using assms(4) by (auto simp: staged_for_def)
  have "list_all (\<lambda>f. is_safe_file_name (gl_name f)) (limits_of fs)"
    using assms(4) by (simp add: staged_for_def limits_of_def list_all_iff)
  from keeps_repair_members [OF assms(1,2,3) this] show ?thesis
    using assms(4) Some k
    by (auto simp: repair_generation_def Let_def staged_for_def intro!: keep_intros keeps_match)
qed (simp add: repair_generation_def keep_intros)

lemma keeps_drop:
  assumes "\<forall>q \<in> A. \<not> workplace root i q" "sg_store_root sg = root" "sg_generation_id sg = i"
    "sg_repair sg = None \<or> (\<exists>k ls. sg_repair sg = Some (staging_path h (generations_root root) k, ls))"
  shows "steps (keeps (only files A)) (drop_staged h sg)"
proof -
  have "steps (keeps (only files A)) (cd_remove_dir_all h (generation_dir root i))"
    "steps (keeps (only files A)) (cd_remove_dir_all h (staging_path h (generations_root root) k))" for k
    using assms(1) by (auto intro!: keeps_remove_dir simp: workplace_def)
  then show ?thesis
    using assms(2-4) by (auto simp: drop_staged_def intro!: keep_intros)
qed

lemma keeps_staged_drop:
  assumes "\<forall>q \<in> A. \<not> workplace root i q" "staged_for root fs i id0 sg"
  shows "steps (keeps (only files A)) (drop_staged h sg)"
    and "steps (keeps (only files A)) (drop_staged h (sg\<lparr>sg_promoted := True, sg_remove_on_drop := False\<rparr>))"
proof -
  have sg: "sg_store_root sg = root" "sg_generation_id sg = i"
    "sg_repair sg = None \<or> (\<exists>k ls. sg_repair sg = Some (staging_path h (generations_root root) k, ls))"
    using assms(2) by (auto simp: staged_for_def)
  show "steps (keeps (only files A)) (drop_staged h sg)" by (rule keeps_drop [OF assms(1) sg])
  show "steps (keeps (only files A)) (drop_staged h (sg\<lparr>sg_promoted := True, sg_remove_on_drop := False\<rparr>))"
    by (rule keeps_drop [OF assms(1)]) (use sg in simp_all)
qed

lemma keeps_promotion:
  assumes "plain_dir root" "is_generation_id i" "is_generation_id id0" "id0 \<noteq> i" "staged_for root fs i id0 sg"
  shows "steps (keeps (only files (tree (generation_dir root id0)))) (promote_with_hook h sg)"
proof -
  let ?A = "tree (generation_dir root id0)"
  note d = plain_generations [OF assms(1)]
  have groot: "q \<in> ?A \<Longrightarrow> under (generations_root root) q" for q
    using under_trans [OF under_join [OF d]] by (auto simp: tree_def)
  have "steps (keeps (only files ?A)) (write_bytes_atomic h (manifest_path root) c)" for c
    using groot manifest_not_under [OF assms(1)] manifest_temp_not_under [OF assms(1)]
    by (intro keeps_atomic) blast+
  moreover have "kept_names (generations_root root) (\<lambda>name. name = i \<or> Some id0 = Some name) ?A"
    using under_siblings [OF d] hex_plain [OF assms(3)] by (auto simp: kept_names_def tree_def plain_name_def)
  then have "steps (keeps (only files ?A)) (prune_generations h root \<lparr>gm_version = CACHE_SCHEMA_VERSION, gm_current = i, gm_previous = Some id0\<rparr>)"
    unfolding prune_generations_def by (intro keeps_remove_generations) simp
  ultimately show ?thesis
    using assms(5) keeps_repair [OF assms(1,2) sibling_work [OF assms(1-4)] assms(5)]
    unfolding promote_with_hook_def Let_def staged_for_def
    by (auto intro!: keep_intros keeps_candidates)
qed

lemma keeps_at: "steps (keeps (only files {p})) m \<Longrightarrow> steps (keeps (\<lambda>s. files s p)) m"
  by (erule steps_mono) (simp add: keeps_def only_same)

lemma settles_promotion:
  assumes "plain_dir root" "is_generation_id i" "is_generation_id id0" "id0 \<noteq> i" "staged_for root fs i id0 sg"
    and t: "cd_render_manifest h (new_manifest i id0) = Some t"
  shows "steps (settles (\<lambda>s. files s (manifest_path root)) (Some (Utf8 t))) (promote_with_hook h sg)"
proof -
  let ?R = "settles (\<lambda>s. files s (manifest_path root)) (Some (Utf8 t))"
  note keep = steps_keep_settle [OF keeps_at]
  have "steps ?R (write_bytes_atomic h (manifest_path root) (Utf8 t))"
    unfolding settles_def write_bytes_atomic_def
    by (rule steps_returns [where v = files and R = "\<lambda>F G. G (manifest_path root) = F (manifest_path root) \<or> G (manifest_path root) = Some (Utf8 t)"])
      (rule returns_weaken [OF atomic_write_returns], auto dest!: written_or_kept_path)
  moreover have "steps ?R (prune_generations h root m)" for m
    unfolding prune_generations_def
    by (intro keep keeps_remove_generations)
      (use manifest_not_under [OF assms(1)] under_trans [OF under_join [OF plain_generations [OF assms(1)]]]
        in \<open>auto simp: kept_names_def\<close>)
  moreover have "steps ?R (repair_generation h sg)"
    by (rule keep [OF keeps_repair [OF assms(1,2) manifest_work [OF assms(1)] assms(5)]])
  moreover have "steps ?R (generation_candidates h root)" by (rule keep [OF keeps_candidates])
  moreover have run: "d_bind (d_res (Inr t)) f = f t" for f :: "rstr \<Rightarrow> ('s, io_error, unit) dact"
    by (simp add: d_bind_def d_res_def fun_eq_iff)
  have sg: "sg_store_root sg = root" "sg_generation_id sg = i" "sg_previous sg = Some id0"
    using assms(5) by (simp_all add: staged_for_def)
  ultimately show ?thesis
    unfolding promote_with_hook_def Let_def sg t [unfolded new_manifest_def] ok_or.simps run
    by (intro settling.steps_intros)
qed

end

text \<open>A promotion that succeeds has selected its generation.\<close>

lemma selection_short: "length (selection h F root) \<le> 2"
  by (auto simp: selection_def manifest_candidates_def split: option.split)

context cache_store
begin

lemma manifest_limit: "MANIFEST_READ_LIMIT \<le> U64_LIMIT - 1"
  by (simp add: MANIFEST_READ_LIMIT_def U64_LIMIT_def)

lemma candidates_returns:
  "returns (\<lambda>s. files s = F) (generation_candidates h root)
     (\<lambda>cs s. files s = F \<and> (cs = [] \<or> map gc_id cs = selection h F root)) (\<lambda>_ s. files s = F)"
  unfolding generation_candidates_def
proof (rule returns_bind)
  show "returns (\<lambda>s. files s = F) (d_try (read_bytes_with_limit h (manifest_path root) MANIFEST_READ_LIMIT))
      (\<lambda>r s. files s = F \<and> (\<forall>c. r = Inr c \<longrightarrow> F (manifest_path root) = Some c \<and> byte_len c \<le> MANIFEST_READ_LIMIT))
      (\<lambda>_ s. files s = F)"
    by (rule returns_weaken [OF returns_try [OF read_bytes_returns [OF manifest_limit]]]) (auto split: sum.splits)
  fix r :: "io_error + file_bytes"
  show "returns (\<lambda>s. files s = F \<and> (\<forall>c. r = Inr c \<longrightarrow> F (manifest_path root) = Some c \<and> byte_len c \<le> MANIFEST_READ_LIMIT))
      (d_ok (case r of Inl _ \<Rightarrow> [] | Inr bytes \<Rightarrow> manifest_candidates h root bytes))
      (\<lambda>cs s. files s = F \<and> (cs = [] \<or> map gc_id cs = selection h F root)) (\<lambda>_ s. files s = F)"
    by (cases r) (auto intro!: returns_ok simp: selection_def)
qed

lemma steps_any: "steps R m \<Longrightarrow> returns (\<lambda>_. True) m (\<lambda>_ _. True) (\<lambda>_ _. True)"
  by (force simp: steps_def returns_def split: sum.split)

lemma keeps_selection:
  "steps (keeps (only files {manifest_path root})) m \<Longrightarrow>
     returns (\<lambda>s. selection h (files s) root = is) m (\<lambda>_ s. selection h (files s) root = is) (\<lambda>_ s. selection h (files s) root = is)"
  unfolding steps_def keeps_def only_same returns_def
  by (force simp: selection_def split: sum.split)

lemma keeps_manifest_prune:
  "plain_dir root \<Longrightarrow> steps (keeps (only files {manifest_path root})) (prune_generations h root m)"
  unfolding prune_generations_def
  by (rule keeps_remove_generations)
    (use manifest_not_under under_trans [OF under_join [OF plain_generations]] in \<open>auto simp: kept_names_def\<close>)

lemma promotion_selects:
  assumes "plain_dir root" "is_generation_id i" "is_generation_id id0" "id0 \<noteq> i" "staged_for root fs i id0 sg"
  shows "returns (\<lambda>_. True) (promote_with_hook h sg) (\<lambda>_ s. selection h (files s) root = [i, id0]) (\<lambda>_ _. True)"
proof -
  have sg: "sg_store_root sg = root" "sg_generation_id sg = i" "sg_previous sg = Some id0"
    using assms(5) by (simp_all add: staged_for_def)
  obtain t where t: "cd_render_manifest h (new_manifest i id0) = Some t"
    "cd_decode_manifest h (Utf8 t) = Some (new_manifest i id0)" "utf8_len t \<le> MANIFEST_READ_LIMIT"
    by (rule rendered [OF assms(2,3)])
  note new = selection_new [OF t(2,3) assms(2-4)]
  have run: "d_bind (d_res (Inr t)) f = f t" for f :: "rstr \<Rightarrow> ('s, io_error, unit) dact"
    by (simp add: d_bind_def d_res_def fun_eq_iff)
  have commit: "returns (\<lambda>_. True) (d_bind (write_bytes_atomic h (manifest_path root) (Utf8 t)) (\<lambda>_. prune_generations h root m))
      (\<lambda>_ s. selection h (files s) root = [i, id0]) (\<lambda>_ _. True)" for m
  proof (rule returns_bind)
    show "returns (\<lambda>_. True) (write_bytes_atomic h (manifest_path root) (Utf8 t)) (\<lambda>_ s. selection h (files s) root = [i, id0]) (\<lambda>_ _. True)"
      unfolding write_bytes_atomic_def
      by (rule returns_view [where v = files and Q = "\<lambda>_. True"], rule returns_weaken [OF atomic_write_returns]) (auto simp: new)
    show "returns (\<lambda>s. selection h (files s) root = [i, id0]) (prune_generations h root m)
        (\<lambda>_ s. selection h (files s) root = [i, id0]) (\<lambda>_ _. True)"
      by (rule returns_weaken [OF keeps_selection [OF keeps_manifest_prune [OF assms(1)]]]) auto
  qed
  show ?thesis
    unfolding promote_with_hook_def Let_def sg t(1) [unfolded new_manifest_def] ok_or.simps run generation_manifest.simps
  proof (rule returns_bind [OF steps_any [OF keeps_repair [OF assms(1,2) _ assms(5), of "{}"]]], simp, rule returns_bind)
    show "returns (\<lambda>_. True) (generation_candidates h root)
        (\<lambda>cs s. cs = [] \<or> map gc_id cs = selection h (files s) root) (\<lambda>_ _. True)"
      by (rule returns_view [where v = files and Q = "\<lambda>_. True"], rule returns_weaken [OF candidates_returns]) auto
    fix cs
    show "returns (\<lambda>s. cs = [] \<or> map gc_id cs = selection h (files s) root)
       (if (case cs of [] \<Rightarrow> False | c # _ \<Rightarrow> gc_id c = i)
          \<and> (case cs of _ # p # _ \<Rightarrow> Some (gc_id p) | _ \<Rightarrow> None) = Some id0 then d_ok ()
        else d_bind (write_bytes_atomic h (manifest_path root) (Utf8 t)) (\<lambda>_. prune_generations h root
          \<lparr>gm_version = CACHE_SCHEMA_VERSION, gm_current = i, gm_previous = Some id0\<rparr>))
       (\<lambda>_ s. selection h (files s) root = [i, id0]) (\<lambda>_ _. True)"
    proof (rule returns_if)
      assume c: "(case cs of [] \<Rightarrow> False | c # _ \<Rightarrow> gc_id c = i) \<and> (case cs of _ # p # _ \<Rightarrow> Some (gc_id p) | _ \<Rightarrow> None) = Some id0"
      show "returns (\<lambda>s. cs = [] \<or> map gc_id cs = selection h (files s) root) (d_ok ())
          (\<lambda>_ s. selection h (files s) root = [i, id0]) (\<lambda>_ _. True)"
      proof (rule returns_ok)
        fix s
        assume m: "cs = [] \<or> map gc_id cs = selection h (files s) root"
        have "cs \<noteq> []" using c by auto
        with m have e: "map gc_id cs = selection h (files s) root" by simp
        have "length (map gc_id cs) \<le> 2" unfolding e by (rule selection_short)
        with c have "map gc_id cs = [i, id0]" by (auto split: list.splits)
        then show "selection h (files s) root = [i, id0]" unfolding e .
      qed
    qed (rule returns_weaken [OF commit], simp_all)
  qed
qed

lemma commit_selects:
  assumes "plain_dir root" "i = generation_id h (sort_key gf_name fs)" "is_generation_id id0" "id0 \<noteq> i"
  shows "returns (\<lambda>_. True) (d_bind (stage_generation h root fs (Some id0)) (promote h))
    (\<lambda>_ s. selection h (files s) root = [i, id0]) (\<lambda>_ _. True)"
proof (rule returns_bind)
  let ?fs = "sort_key gf_name fs" and ?A = "{manifest_path root}"
  have i: "is_generation_id i" unfolding assms(2) by (rule generated_id)
  note work = manifest_work [OF assms(1), of i]
  note drop = keeps_staged_drop [OF work]
  show "returns (\<lambda>_. True) (stage_generation h root fs (Some id0)) (\<lambda>sg _. staged_for root ?fs i id0 sg) (\<lambda>_ _. True)"
    using yields_stage [OF assms(1,2) work assms(3,4)] unfolding yields_def returns_def
    by (metis (mono_tags, lifting) sum.case_eq_if sum.collapse(2))
  fix sg
  show "returns (\<lambda>_. staged_for root ?fs i id0 sg) (promote h sg) (\<lambda>_ s. selection h (files s) root = [i, id0]) (\<lambda>_ _. True)"
  proof (cases "staged_for root ?fs i id0 sg")
    case sg: True
    note kept = returns_weaken [OF keeps_selection [OF drop(2) [OF sg]]]
    show ?thesis
      unfolding promote_def
    proof (rule returns_pre [where P = "\<lambda>_. True", OF TrueI], rule returns_bind [OF returns_try [OF promotion_selects [OF assms(1) i assms(3,4) sg]]])
      fix r :: "io_error + unit"
      show "returns (\<lambda>s. case r of Inl e \<Rightarrow> True | Inr x \<Rightarrow> selection h (files s) root = [i, id0])
          (case r of Inl e \<Rightarrow> d_bind (drop_staged h sg) (\<lambda>_. d_err e)
           | Inr _ \<Rightarrow> d_bind (drop_staged h (sg\<lparr>sg_promoted := True, sg_remove_on_drop := False\<rparr>)) (\<lambda>_. d_ok (sg_generation_id sg)))
          (\<lambda>_ s. selection h (files s) root = [i, id0]) (\<lambda>_ _. True)"
      proof (cases r)
        case (Inl e)
        show ?thesis unfolding Inl sum.case
          by (rule returns_bind [OF steps_any [OF drop(1) [OF sg]]]) (rule returns_err, simp)
      next
        case (Inr x)
        show ?thesis unfolding Inr sum.case
          by (rule returns_bind [where R = "\<lambda>_ s. selection h (files s) root = [i, id0]"]) (auto intro!: returns_ok kept)
      qed
    qed
  qed (simp add: returns_def)
qed

end

section \<open>A store in memory\<close>

text \<open>Directories are where files are; the manifest codec and the hash are small stand-ins.\<close>

lemma under_code [code]: "under d q \<longleftrightarrow> prefix (d @ [47]) q"
  by (auto simp: under_def prefix_def)

definition has_tree :: "memory_files \<Rightarrow> rstr \<Rightarrow> bool" where
  "has_tree s d \<longleftrightarrow> list_ex (\<lambda>(q, _). under d q) (mf_files s)"

definition move_tree :: "rstr \<Rightarrow> rstr \<Rightarrow> rstr \<Rightarrow> rstr" where
  "move_tree d e q = (if under d q then e @ drop (length d) q else q)"

definition render_manifest :: "generation_manifest \<Rightarrow> rstr option" where
  "render_manifest m = (if gm_version m = CACHE_SCHEMA_VERSION
     then Some (gm_current m @ (case gm_previous m of Some p \<Rightarrow> 33 # p | None \<Rightarrow> [])) else None)"

fun decode_manifest :: "file_bytes \<Rightarrow> generation_manifest option" where
  "decode_manifest (Utf8 t) = Some \<lparr>gm_version = CACHE_SCHEMA_VERSION, gm_current = takeWhile (\<lambda>c. c \<noteq> 33) t,
     gm_previous = (case dropWhile (\<lambda>c. c \<noteq> 33) t of [] \<Rightarrow> None | _ # p \<Rightarrow> Some p)\<rparr>"
| "decode_manifest (Raw _) = None"

definition checksum :: "8 word list \<Rightarrow> 8 word list" where
  "checksum bs = replicate 31 0 @ [fold (\<lambda>b a. 31 * a + b) bs 7]"

definition memory_cache :: "memory_files cache_host" where
  "memory_cache = file_host.extend memory_host (cache_host.fields
     (\<lambda>d. mf_call (\<lambda>s. (if has_tree s d then Inl AlreadyExists else Inr (), s)))
     (\<lambda>d. mf_call (\<lambda>s. (Inr (has_tree s d), s)))
     (\<lambda>d e. mf_call (\<lambda>s. if has_tree s e \<or> d = e \<or> under d e \<or> under e d then (Inl AlreadyExists, s)
        else (Inr (), s\<lparr>mf_files := map (\<lambda>(q, b). (move_tree d e q, b)) (mf_files s)\<rparr>)))
     (\<lambda>d. mf_call (\<lambda>s. (Inr (), s\<lparr>mf_files := filter (\<lambda>(q, _). \<not> under d q) (mf_files s)\<rparr>)))
     (\<lambda>d. mf_call (\<lambda>s. (Inr (remdups (map (\<lambda>(q, _). takeWhile (\<lambda>c. c \<noteq> 47) (drop (length d + 1) q))
        (filter (\<lambda>(q, _). under d q) (mf_files s)))), s)))
     (\<lambda>d. mf_call (\<lambda>s. (Inr (has_tree s d), s)))
     (\<lambda>p. mf_call (\<lambda>s. (if mf_view s p = None \<and> \<not> has_tree s p then Inl NotFound else Inr (), s)))
     (\<lambda>s. (mf_counter s, s\<lparr>mf_counter := mf_counter s + 1\<rparr>))
     decode_manifest render_manifest checksum)"

lemma memory_cache_files: "file_law memory_cache mf_view"
  using memory_host_law unfolding file_law_def quiet_call_def memory_cache_def temp_paths_def
  by (simp add: file_host.defs cache_host.defs memory_host_def)

lemma no_tree: "\<not> has_tree s d \<Longrightarrow> under d q \<Longrightarrow> mf_view s q = None"
  by (force simp: has_tree_def mf_view_def map_of_eq_None_iff list_ex_iff)

lemma map_of_moved:
  assumes "list_all (\<lambda>(q, _). \<not> under e q) xs" "d \<noteq> e" "\<not> under d e" "\<not> under e d"
  shows "map_of (map (\<lambda>(q, b). (move_tree d e q, b)) xs) = moved_dir d e (map_of xs)"
  using assms(1)
proof (induction xs)
  case Nil
  then show ?case by (auto simp: moved_dir_def)
next
  case (Cons x xs)
  obtain q b where x: "x = (q, b)" by (cases x)
  have "\<not> under e q" using Cons.prems x by simp
  then have "(map_of (map (\<lambda>(q, b). (move_tree d e q, b)) xs)) (move_tree d e q \<mapsto> b) = moved_dir d e ((map_of xs)(q \<mapsto> b))"
    using Cons assms(2-4) by (auto simp: moved_dir_def fun_eq_iff move_tree_def under_def)
  moreover have "map_of (x # xs) = (map_of xs)(q \<mapsto> b)" by (simp add: x)
  ultimately show ?case by (simp only: x list.map prod.case map_of.simps fst_conv snd_conv)
qed

lemma view_moved:
  assumes "\<not> has_tree s e" "d \<noteq> e" "\<not> under d e" "\<not> under e d"
  shows "mf_view (s\<lparr>mf_files := map (\<lambda>(q, b). (move_tree d e q, b)) (mf_files s)\<rparr>) = moved_dir d e (mf_view s)"
  using map_of_moved [OF _ assms(2-4), of "mf_files s"] assms(1)
  by (simp add: mf_view_def has_tree_def list_all_iff list_ex_iff case_prod_beta)

lemma view_removed:
  "mf_view (s\<lparr>mf_files := filter (\<lambda>(q, _). \<not> under d q) (mf_files s)\<rparr>) = (\<lambda>q. if under d q then None else mf_view s q)"
proof -
  have "map_of (filter (\<lambda>(q, _). \<not> under d q) xs) = (\<lambda>q. if under d q then None else map_of xs q)" for xs :: "(rstr \<times> file_bytes) list"
    by (induction xs) (auto simp: fun_eq_iff)
  from this [of "mf_files s"] show ?thesis by (simp add: mf_view_def fun_eq_iff)
qed

lemma no_slash_before: "47 \<notin> set (takeWhile (\<lambda>c. c \<noteq> 47) xs)"
  by (induction xs) auto

lemma memory_cache_directories: "directory_law memory_cache mf_view"
  unfolding directory_law_def quiet_call_def memory_cache_def
  by (simp add: file_host.defs cache_host.defs)
    (intro allI conjI returns_mf_call, auto simp: no_tree view_moved view_removed no_slash_before intro: exI [of _ "{}"])

lemma memory_cache_manifests: "manifest_law memory_cache"
proof -
  have valid: "33 \<notin> set v \<and> (\<forall>c \<in> set v. c < 128) \<and> length v = 64" if "is_generation_id v" for v
  proof -
    have "list_all is_lower_hex v" using that by (simp add: is_generation_id_def)
    moreover from this have "utf8_len v = length v"
      by (induction v) (auto simp: utf8_len_def utf8_width_def is_lower_hex_def is_ascii_digit_def)
    ultimately show ?thesis
      using that by (auto simp: is_generation_id_def list_all_iff is_lower_hex_def is_ascii_digit_def)
  qed
  have ascii: "utf8_len v = length v" if "\<forall>c \<in> set v. c < 128" for v
    using that by (induction v) (simp_all add: utf8_len_def utf8_width_def)
  have stop: "takeWhile (\<lambda>c. c \<noteq> 33) (a @ 33 # r) = a" "dropWhile (\<lambda>c. c \<noteq> 33) (a @ 33 # r) = 33 # r"
    "takeWhile (\<lambda>c. c \<noteq> 33) a = a" "dropWhile (\<lambda>c. c \<noteq> 33) a = []" if "33 \<notin> set a" for a r :: rstr
    using that by (induction a) auto
  have "\<exists>t. render_manifest m = Some t \<and> decode_manifest (Utf8 t) = Some m \<and> utf8_len t \<le> MANIFEST_READ_LIMIT"
    if m: "gm_version m = CACHE_SCHEMA_VERSION" "is_generation_id (gm_current m)"
      "\<forall>p. gm_previous m = Some p \<longrightarrow> is_generation_id p" for m
  proof (cases "gm_previous m")
    case None
    then show ?thesis using m(1) valid [OF m(2)] stop(3) [of "gm_current m"] ascii
      by (cases m) (auto simp: render_manifest_def MANIFEST_READ_LIMIT_def dropWhile_eq_Nil_conv [THEN iffD2])
  next
    case (Some p)
    then have p: "is_generation_id p" using m(3) by simp
    have "utf8_len (gm_current m @ 33 # p) = 129"
      using valid [OF m(2)] valid [OF p] by (subst ascii) auto
    then show ?thesis using m(1) valid [OF m(2)] stop Some
      by (cases m) (auto simp: render_manifest_def MANIFEST_READ_LIMIT_def)
  qed
  then show ?thesis
    by (auto simp: manifest_law_def memory_cache_def file_host.defs cache_host.defs checksum_def)
qed

interpretation memory_store: cache_store memory_cache mf_view
  by unfold_locales (rule memory_cache_files memory_cache_directories memory_cache_manifests)+

context cache_store
begin

text \<open>A commit, at any outcome: the tree of the selected generation, and what the manifest settles on.\<close>

lemma commit_keeps:
  assumes "plain_dir root" "i = generation_id h (sort_key gf_name fs)" "is_generation_id id0" "id0 \<noteq> i"
  shows "steps (keeps (only files (tree (generation_dir root id0)))) (d_bind (stage_generation h root fs (Some id0)) (promote h))"
    and "steps (keeps (only files (tree (generation_dir root id0)))) (d_bind (stage_generation h root fs (Some id0)) (drop_staged h))"
proof -
  let ?A = "tree (generation_dir root id0)"
  have i: "is_generation_id i" unfolding assms(2) by (rule generated_id)
  note work = sibling_work [OF assms(1) i assms(3,4)]
  note stage = yields_stage [OF assms(1,2) work assms(3,4)]
  note drop = keeps_staged_drop [OF work]
  have "steps (keeps (only files ?A)) (promote h sg)" if sg: "staged_for root (sort_key gf_name fs) i id0 sg" for sg
    unfolding promote_def using drop [OF sg] keeps_promotion [OF assms(1) i assms(3,4) sg]
    by (auto intro!: keep_intros split: sum.split)
  then show "steps (keeps (only files ?A)) (d_bind (stage_generation h root fs (Some id0)) (promote h))"
    by (intro yields_steps [OF yields_bind [OF stage yields_keeps]])
  show "steps (keeps (only files ?A)) (d_bind (stage_generation h root fs (Some id0)) (drop_staged h))"
    using drop by (intro yields_steps [OF yields_bind [OF stage yields_keeps]])
qed

lemma commit_settles:
  assumes "plain_dir root" "i = generation_id h (sort_key gf_name fs)" "is_generation_id id0" "id0 \<noteq> i"
    and t: "cd_render_manifest h (new_manifest i id0) = Some t"
  shows "steps (settles (\<lambda>s. files s (manifest_path root)) (Some (Utf8 t))) (d_bind (stage_generation h root fs (Some id0)) (promote h))"
    and "steps (keeps (\<lambda>s. files s (manifest_path root))) (d_bind (stage_generation h root fs (Some id0)) (drop_staged h))"
proof -
  let ?R = "settles (\<lambda>s. files s (manifest_path root)) (Some (Utf8 t))" and ?fs = "sort_key gf_name fs"
  have i: "is_generation_id i" unfolding assms(2) by (rule generated_id)
  note work = manifest_work [OF assms(1), of i]
  note stage = yields_stage [OF assms(1,2) work assms(3,4)]
  note drop = keeps_staged_drop [OF work]
  have "steps ?R (promote h sg)" if sg: "staged_for root ?fs i id0 sg" for sg
    unfolding promote_def
    using drop [OF sg, THEN keeps_at, THEN steps_keep_settle] settles_promotion [OF assms(1) i assms(3,4) sg t]
    by (auto intro!: settling.steps_intros split: sum.split)
  then have promoted: "\<exists>r s'. promote h sg s = Some (r, s') \<and> ?R s s'" if "staged_for root ?fs i id0 sg" for sg s
    using stepsD that by metis
  show "steps ?R (d_bind (stage_generation h root fs (Some id0)) (promote h))"
    unfolding steps_def
  proof
    fix s
    from stage [unfolded yields_def, THEN spec, of s]
    obtain r s1 where st: "stage_generation h root fs (Some id0) s = Some (r, s1)"
      "files s1 (manifest_path root) = files s (manifest_path root)" "\<forall>sg. r = Inr sg \<longrightarrow> staged_for root ?fs i id0 sg"
      unfolding only_same by blast
    show "\<exists>r s'. d_bind (stage_generation h root fs (Some id0)) (promote h) s = Some (r, s') \<and> ?R s s'"
    proof (cases r)
      case (Inr sg)
      then obtain r' s2 where "promote h sg s1 = Some (r', s2)" "?R s1 s2" using st(3) promoted by blast
      then show ?thesis using st Inr by (auto simp: d_bind_def settles_def)
    qed (use st in \<open>auto simp: d_bind_def settles_def\<close>)
  qed
  show "steps (keeps (\<lambda>s. files s (manifest_path root))) (d_bind (stage_generation h root fs (Some id0)) (drop_staged h))"
    using drop by (intro keeps_at yields_steps [OF yields_bind [OF stage yields_keeps]])
qed

end

section \<open>Properties\<close>

lemma cache_storeI:
  "file_law h files \<Longrightarrow> directory_law h files \<Longrightarrow> manifest_law h \<Longrightarrow> cache_store h files"
  by unfold_locales

text \<open>
  C10: A validated cache generation survives the next one. While a new generation with other
  contents is staged and then promoted, or abandoned, the generation that was selected before
  stays selected, with every file as it was, whatever call fails and whenever; a promotion that
  succeeds has put the new generation before it, and an abandoned one changes nothing.
\<close>

theorem selected_generation_survives:
  assumes "file_law h files" "directory_law h files" "manifest_law h" "plain_dir root"
    and "id0 \<in> set (selection h (files s) root)" "id0 \<noteq> generation_id h (sort_key gf_name fs)"
  shows "(\<exists>r s'. d_bind (stage_generation h root fs (Some id0)) (promote h) s = Some (r, s')
      \<and> selection h (files s') root \<in> {selection h (files s) root, [generation_id h (sort_key gf_name fs), id0]}
      \<and> (isl r \<or> selection h (files s') root = [generation_id h (sort_key gf_name fs), id0])
      \<and> (\<forall>q. under (generation_dir root id0) q \<longrightarrow> files s' q = files s q))
    \<and> (\<exists>r s'. d_bind (stage_generation h root fs (Some id0)) (drop_staged h) s = Some (r, s')
      \<and> selection h (files s') root = selection h (files s) root
      \<and> (\<forall>q. under (generation_dir root id0) q \<longrightarrow> files s' q = files s q))" (is "?promoted \<and> ?dropped")
proof -
  note store = cache_storeI [OF assms(1-3)]
  let ?i = "generation_id h (sort_key gf_name fs)" and ?A = "tree (generation_dir root id0)"
  have id0: "is_generation_id id0" by (rule selection_valid [OF assms(5)])
  have i: "is_generation_id ?i" by (rule cache_store.generated_id [OF store])
  obtain t where t: "cd_render_manifest h (new_manifest ?i id0) = Some t"
    "cd_decode_manifest h (Utf8 t) = Some (new_manifest ?i id0)" "utf8_len t \<le> MANIFEST_READ_LIMIT"
    by (rule cache_store.rendered [OF store i id0])
  note keep = cache_store.commit_keeps [OF store assms(4) refl id0 assms(6)]
    and settle = cache_store.commit_settles [OF store assms(4) refl id0 assms(6) t(1)]
  have same: "F (manifest_path root) = G (manifest_path root) \<Longrightarrow> selection h F root = selection h G root" for F G
    by (simp add: selection_def)
  have tree: "only files ?A s' = only files ?A s \<Longrightarrow> \<forall>q. under (generation_dir root id0) q \<longrightarrow> files s' q = files s q" for s'
    by (simp add: only_same tree_def)
  obtain r s' where r: "d_bind (stage_generation h root fs (Some id0)) (promote h) s = Some (r, s')"
      "only files ?A s' = only files ?A s"
      "files s' (manifest_path root) = files s (manifest_path root) \<or> files s' (manifest_path root) = Some (Utf8 t)"
    using stepsD [OF steps_conj [OF keep(1) settle(1)], of s] unfolding keeps_def settles_def by blast
  have "selection h (files s') root \<in> {selection h (files s) root, [?i, id0]}"
    using r(3) same [of "files s'" "files s"] cache_store.selection_new [OF store t(2,3) i id0 assms(6), of "files s'"] by blast
  moreover have "isl r \<or> selection h (files s') root = [?i, id0]"
    using returns_imp [OF cache_store.commit_selects [OF store assms(4) refl id0 assms(6)] TrueI, of s] r(1) by (cases r) auto
  ultimately have ?promoted using r(1) tree [OF r(2)] by (intro exI conjI)
  obtain r s' where r: "d_bind (stage_generation h root fs (Some id0)) (drop_staged h) s = Some (r, s')"
      "only files ?A s' = only files ?A s" "files s' (manifest_path root) = files s (manifest_path root)"
    using stepsD [OF steps_conj [OF keep(2) settle(2)], of s] unfolding keeps_def by blast
  then have ?dropped using tree [OF r(2)] same [of "files s'" "files s", OF r(3)] by (intro exI conjI)
  with \<open>?promoted\<close> show ?thesis by (rule conjI)
qed

text \<open>A store with one generation, and a machine that stops in the middle of committing the next.\<close>

definition demo_root :: rstr where
  "demo_root = lit ''/var/cache/x''"

definition old_generation :: rstr where
  "old_generation = replicate 64 97"

definition demo_store :: memory_files where
  "demo_store = \<lparr>mf_files = [(manifest_path demo_root, Utf8 old_generation),
      (path_join (generation_dir demo_root old_generation) (lit ''raw''), Utf8 (lit ''old''))],
     mf_counter = 0, mf_budget = 9\<rparr>"

definition demo_members :: "generation_file list" where
  "demo_members = [\<lparr>gf_name = lit ''raw'', gf_contents = Utf8 (lit ''new'')\<rparr>]"

theorem selected_generation_survives_witness:
  "\<exists>e s'. d_bind (stage_generation memory_cache demo_root demo_members (Some old_generation)) (promote memory_cache) demo_store
       = Some (Inl e, s')
    \<and> old_generation \<in> set (selection memory_cache (mf_view s') demo_root)
    \<and> mf_view s' (path_join (generation_dir demo_root old_generation) (lit ''raw'')) = Some (Utf8 (lit ''old''))"
proof -
  let ?run = "d_bind (stage_generation memory_cache demo_root demo_members (Some old_generation)) (promote memory_cache) demo_store"
  have "prefix (generation_dir demo_root old_generation @ [47]) (path_join (generation_dir demo_root old_generation) (lit ''raw''))"
    by code_simp
  then have u: "under (generation_dir demo_root old_generation) (path_join (generation_dir demo_root old_generation) (lit ''raw''))"
    by (simp only: under_code)
  have pre: "plain_dir demo_root" "old_generation \<in> set (selection memory_cache (mf_view demo_store) demo_root)"
    "old_generation \<noteq> generation_id memory_cache (sort_key gf_name demo_members)" by code_simp+
  have run: "map_option (isl \<circ> fst) ?run = Some True" by code_simp
  obtain r s' where r: "?run = Some (r, s')"
      "selection memory_cache (mf_view s') demo_root \<in> {selection memory_cache (mf_view demo_store) demo_root,
         [generation_id memory_cache (sort_key gf_name demo_members), old_generation]}"
      "\<forall>q. under (generation_dir demo_root old_generation) q \<longrightarrow> mf_view s' q = mf_view demo_store q"
    using selected_generation_survives [OF memory_cache_files memory_cache_directories memory_cache_manifests pre] by blast
  moreover have "mf_view demo_store (path_join (generation_dir demo_root old_generation) (lit ''raw'')) = Some (Utf8 (lit ''old''))"
    by code_simp
  moreover obtain e where "r = Inl e" using run r(1) by (cases r) auto
  ultimately show ?thesis using u pre(2) by (intro exI [of _ e] exI [of _ s']) auto
qed

end
