(* ===== verification/Remote_Cache.thy ===== *)
theory Remote_Cache
  imports Generations App_Types
begin

text \<open>
  Remote feeds behind their caches: \<^verbatim>\<open>http_cache.rs\<close>, \<^verbatim>\<open>http_fetch.rs\<close> and \<^verbatim>\<open>cached_fetch.rs\<close> of
  \<^verbatim>\<open>crates/kidobo-adapters/src\<close>, with the types and the size limit of \<^verbatim>\<open>http_client.rs\<close>. A feed is
  fetched conditionally, validated, and staged as a new generation; what cannot be fetched,
  validated or staged is answered from a validated cache. The HTTP client is an argument, the JSON
  library and the listing of directories are fields of the host. Log messages are not modelled;
  environment values are Unicode.
\<close>

section \<open>HTTP\<close>

definition DEFAULT_MAX_HTTP_BODY_BYTES :: nat where
  "DEFAULT_MAX_HTTP_BODY_BYTES = 8 * 1024 * 1024"

definition MAX_HTTP_BODY_BYTES :: nat where
  "MAX_HTTP_BODY_BYTES = 32 * 1024 * 1024"

record http_request =
  rq_url :: rstr
  rq_if_none_match :: "rstr option"
  rq_if_modified_since :: "rstr option"
  rq_max_body_bytes :: nat

record http_response =
  rs_status :: nat
  rs_body :: file_bytes
  rs_etag :: "rstr option"
  rs_last_modified :: "rstr option"

datatype http_client_error = HttpInitialization rstr | HttpRequestFailed rstr

type_synonym 's http_client = "http_request \<Rightarrow> ('s, http_client_error, http_response) dact"

definition is_success :: "nat \<Rightarrow> bool" where
  "is_success status \<longleftrightarrow> 200 \<le> status \<and> status < 300"

definition max_http_body_bytes :: "(rstr \<times> rstr) list \<Rightarrow> nat" where
  "max_http_body_bytes env =
     (case Option.bind (map_of env (lit ''KIDOBO_MAX_HTTP_BODY_BYTES'')) (\<lambda>v. parse_uint U64_LIMIT (trim v)) of
        Some v \<Rightarrow> if v > 0 then min v MAX_HTTP_BODY_BYTES else DEFAULT_MAX_HTTP_BODY_BYTES
      | None \<Rightarrow> DEFAULT_MAX_HTTP_BODY_BYTES)"

datatype conditional_fetch_result = FetchedNetwork http_response | FetchNotModified | FetchFallback

definition fetch_with_conditional_cache ::
    "'s http_client \<Rightarrow> rstr \<Rightarrow> nat \<Rightarrow> rstr option \<Rightarrow> rstr option \<Rightarrow> bool \<Rightarrow> ('s, 'e, conditional_fetch_result) dact" where
  "fetch_with_conditional_cache client url max_body_bytes etag last_modified has_usable_cache =
     d_bind (d_try (client \<lparr>rq_url = url, rq_if_none_match = etag, rq_if_modified_since = last_modified,
         rq_max_body_bytes = max_body_bytes\<rparr>)) (\<lambda>fetched. case fetched of
       Inl _ \<Rightarrow> d_ok FetchFallback
     | Inr response \<Rightarrow>
         if rs_status response \<noteq> 304 then d_ok (FetchedNetwork response)
         else if has_usable_cache then d_ok FetchNotModified
         else d_bind (d_try (client \<lparr>rq_url = url, rq_if_none_match = None, rq_if_modified_since = None,
             rq_max_body_bytes = max_body_bytes\<rparr>)) (\<lambda>refetched.
           d_ok (case refetched of Inr response \<Rightarrow> FetchedNetwork response | Inl _ \<Rightarrow> FetchFallback)))"

section \<open>Cache files\<close>

record remote_cache_metadata =
  rm_url :: rstr
  rm_etag :: "rstr option"
  rm_last_modified :: "rstr option"
  rm_sha256_raw :: rstr
  rm_sha256_iplist :: rstr

record 's remote_host = "'s cache_host" +
  rh_decode_metadata :: "file_bytes \<Rightarrow> remote_cache_metadata option"
  rh_render_metadata :: "remote_cache_metadata \<Rightarrow> rstr option"
  rh_read_entries :: "rstr \<Rightarrow> ('s, io_error, (io_error + rstr) list) dact"

definition sha256_hex :: "('s, 'z) cache_host_scheme \<Rightarrow> file_bytes \<Rightarrow> rstr" where
  "sha256_hex h bytes = hex_lower (cd_sha256 h (bytes_of bytes))"

definition read_optional_bytes_lossy :: "('s, 'z) file_host_scheme \<Rightarrow> rstr \<Rightarrow> nat \<Rightarrow> ('s, 'e, file_bytes option) dact" where
  "read_optional_bytes_lossy h path read_limit =
     d_bind (d_try (read_bytes_with_limit h path read_limit)) (\<lambda>r.
       d_ok (case r of Inr contents \<Rightarrow> Some contents | Inl _ \<Rightarrow> None))"

definition read_optional_json_lossy ::
    "('s, 'z) file_host_scheme \<Rightarrow> (file_bytes \<Rightarrow> 'a option) \<Rightarrow> rstr \<Rightarrow> nat \<Rightarrow> ('s, 'e, 'a option) dact" where
  "read_optional_json_lossy h from_slice path read_limit =
     d_bind (read_optional_bytes_lossy h path read_limit) (\<lambda>bytes. d_ok (Option.bind bytes from_slice))"

definition read_validated_bytes_lossy ::
    "('s, 'z) cache_host_scheme \<Rightarrow> rstr \<Rightarrow> nat \<Rightarrow> rstr option \<Rightarrow> ('s, 'e, file_bytes option) dact" where
  "read_validated_bytes_lossy h path read_limit expected_sha256 =
     d_bind (read_optional_bytes_lossy h path read_limit) (\<lambda>bytes. d_ok (case bytes of None \<Rightarrow> None
       | Some bytes \<Rightarrow> (case expected_sha256 of
           Some expected \<Rightarrow> if sha256_hex h bytes \<noteq> expected then None else Some bytes
         | None \<Rightarrow> Some bytes)))"

definition MAX_IPLIST_READ_BYTES :: nat where
  "MAX_IPLIST_READ_BYTES = 16 * 1024 * 1024"

definition MAX_METADATA_READ_BYTES :: nat where
  "MAX_METADATA_READ_BYTES = 512 * 1024"

record cache_paths =
  cp_iplist_path :: rstr
  cp_meta_path :: rstr
  cp_raw_path :: rstr

definition url_hash_prefix :: "('s, 'z) cache_host_scheme \<Rightarrow> rstr \<Rightarrow> rstr" where
  "url_hash_prefix h url = take 16 (sha256_hex h (Utf8 url))"

definition cache_paths_for_url :: "('s, 'z) cache_host_scheme \<Rightarrow> rstr \<Rightarrow> rstr \<Rightarrow> cache_paths" where
  "cache_paths_for_url h dir url = (let hash = url_hash_prefix h url in
     \<lparr>cp_iplist_path = path_join dir (hash @ lit ''.iplist''), cp_meta_path = path_join dir (hash @ lit ''.meta.json''),
      cp_raw_path = path_join dir (hash @ lit ''.raw'')\<rparr>)"

definition remote_stores_root :: "rstr \<Rightarrow> rstr" where
  "remote_stores_root dir = path_join dir (lit ''v2/remote'')"

definition remote_generation_store :: "('s, 'z) cache_host_scheme \<Rightarrow> rstr \<Rightarrow> rstr \<Rightarrow> rstr" where
  "remote_generation_store h dir url = path_join (remote_stores_root dir) (url_hash_prefix h url)"

definition generation_paths :: "rstr \<Rightarrow> cache_paths" where
  "generation_paths directory = \<lparr>cp_iplist_path = path_join directory (lit ''iplist''),
     cp_meta_path = path_join directory (lit ''meta.json''), cp_raw_path = path_join directory (lit ''raw'')\<rparr>"

section \<open>Reading the cache\<close>

datatype http_cache_error = WriteMetadata rstr cache_write_error | ReadIplist rstr io_error
  and cache_write_error = WriteIo io_error | SerializeFailed

record loaded_remote_cache =
  lc_networks :: "canonical_cidr list option"
  lc_metadata :: "remote_cache_metadata option"
  lc_generation_id :: "rstr option"

record validated_remote_generation =
  vg_iplist_path :: rstr
  vg_iplist :: rstr
  vg_metadata :: remote_cache_metadata

definition read_optional_metadata_lossy ::
    "('s, 'z) remote_host_scheme \<Rightarrow> cache_paths \<Rightarrow> ('s, 'e, remote_cache_metadata option) dact" where
  "read_optional_metadata_lossy h paths =
     read_optional_json_lossy h (rh_decode_metadata h) (cp_meta_path paths) MAX_METADATA_READ_BYTES"

definition remote_generation_contents_match ::
    "('s, 'z) remote_host_scheme \<Rightarrow> generation_candidate \<Rightarrow> nat \<Rightarrow> ('s, 'e, bool) dact" where
  "remote_generation_contents_match h candidate raw_read_limit = generation_contents_match h candidate
     [\<lparr>gl_name = lit ''raw'', gl_read_limit = raw_read_limit\<rparr>,
      \<lparr>gl_name = lit ''iplist'', gl_read_limit = MAX_IPLIST_READ_BYTES\<rparr>,
      \<lparr>gl_name = lit ''meta.json'', gl_read_limit = MAX_METADATA_READ_BYTES\<rparr>]"

definition read_validated_remote_generation ::
    "('s, 'z) remote_host_scheme \<Rightarrow> rstr \<Rightarrow> rstr option \<Rightarrow> nat \<Rightarrow> ('s, 'e, validated_remote_generation option) dact" where
  "read_validated_remote_generation h directory expected_url raw_read_limit =
     (let paths = generation_paths directory in
      d_bind (read_optional_metadata_lossy h paths) (\<lambda>metadata. case metadata of
        None \<Rightarrow> d_ok None
      | Some metadata \<Rightarrow>
          (let normalized_url = trim (rm_url metadata) in
           if normalized_url = [] \<or> (case expected_url of Some expected \<Rightarrow> normalized_url \<noteq> trim expected | None \<Rightarrow> False)
           then d_ok None
           else d_bind (read_validated_bytes_lossy h (cp_raw_path paths) raw_read_limit (Some (rm_sha256_raw metadata))) (\<lambda>raw.
             case raw of None \<Rightarrow> d_ok None
             | Some _ \<Rightarrow> d_bind (d_try (read_to_string_with_limit h (cp_iplist_path paths) MAX_IPLIST_READ_BYTES)) (\<lambda>r.
                 d_ok (case r of Inl _ \<Rightarrow> None
                   | Inr iplist \<Rightarrow>
                       if sha256_hex h (Utf8 iplist) \<noteq> rm_sha256_iplist metadata then None
                       else Some \<lparr>vg_iplist_path = cp_iplist_path paths, vg_iplist = iplist, vg_metadata = metadata\<rparr>))))))"

fun read_generations ::
    "('s, 'z) remote_host_scheme \<Rightarrow> rstr \<Rightarrow> nat \<Rightarrow> RemoteFeedLimits \<Rightarrow> generation_candidate list
     \<Rightarrow> ('s, 'e, loaded_remote_cache option) dact" where
  "read_generations h url raw_read_limit feed_limits [] = d_ok None"
| "read_generations h url raw_read_limit feed_limits (candidate # candidates) =
     d_bind (remote_generation_contents_match h candidate raw_read_limit) (\<lambda>same.
     if \<not> same then read_generations h url raw_read_limit feed_limits candidates
     else d_bind (read_validated_remote_generation h (gc_directory candidate) (Some url) raw_read_limit) (\<lambda>generation.
       case generation of None \<Rightarrow> read_generations h url raw_read_limit feed_limits candidates
       | Some generation \<Rightarrow> (case parse_cached_iplist_bounded (vg_iplist generation) feed_limits of
           Inl _ \<Rightarrow> read_generations h url raw_read_limit feed_limits candidates
         | Inr networks \<Rightarrow> d_ok (Some \<lparr>lc_networks = Some networks, lc_metadata = Some (vg_metadata generation),
             lc_generation_id = Some (gc_id candidate)\<rparr>))))"

definition read_optional_iplist_networks ::
    "('s, 'z) remote_host_scheme \<Rightarrow> cache_paths \<Rightarrow> remote_cache_metadata option \<Rightarrow> RemoteFeedLimits
     \<Rightarrow> ('s, http_cache_error, canonical_cidr list option) dact" where
  "read_optional_iplist_networks h paths metadata feed_limits =
     d_bind (d_try (read_to_string_with_limit h (cp_iplist_path paths) MAX_IPLIST_READ_BYTES)) (\<lambda>r. case r of
       Inl e \<Rightarrow> if e = NotFound then d_ok None else d_err (ReadIplist (cp_iplist_path paths) e)
     | Inr iplist \<Rightarrow>
         if (case metadata of Some m \<Rightarrow> sha256_hex h (Utf8 iplist) \<noteq> rm_sha256_iplist m | None \<Rightarrow> False) then d_ok None
         else d_ok (case parse_cached_iplist_bounded iplist feed_limits of Inr networks \<Rightarrow> Some networks | Inl _ \<Rightarrow> None))"

definition read_remote_cache ::
    "('s, 'z) remote_host_scheme \<Rightarrow> rstr \<Rightarrow> rstr \<Rightarrow> cache_paths \<Rightarrow> nat \<Rightarrow> RemoteFeedLimits
     \<Rightarrow> ('s, http_cache_error, loaded_remote_cache) dact" where
  "read_remote_cache h dir url legacy_paths raw_read_limit feed_limits =
     d_bind (generation_candidates h (remote_generation_store h dir url)) (\<lambda>candidates.
     d_bind (read_generations h url raw_read_limit feed_limits candidates) (\<lambda>found. case found of
       Some loaded \<Rightarrow> d_ok loaded
     | None \<Rightarrow> d_bind (read_optional_metadata_lossy h legacy_paths) (\<lambda>metadata.
         d_bind (read_optional_iplist_networks h legacy_paths metadata feed_limits) (\<lambda>networks.
           d_ok \<lparr>lc_networks = networks, lc_metadata = metadata, lc_generation_id = None\<rparr>))))"

definition inspect_cached_source ::
    "('s, 'z) remote_host_scheme \<Rightarrow> rstr \<Rightarrow> rstr \<Rightarrow> nat \<Rightarrow> ('s, http_cache_error, rstr option) dact" where
  "inspect_cached_source h dir url max_elem =
     d_bind (read_remote_cache h dir url (cache_paths_for_url h dir url) MAX_HTTP_BODY_BYTES (RemoteFeedLimits_from_maxelem max_elem))
       (\<lambda>cached. d_ok (map_option (\<lambda>_. if lc_generation_id cached \<noteq> None then lit ''validated cache generation''
          else lit ''compatible legacy cache'') (lc_networks cached)))"

section \<open>Offline listing\<close>

record offline_remote_generation =
  og_url_hash :: rstr
  og_iplist_path :: rstr
  og_label :: rstr
  og_iplist :: rstr

definition is_url_hash :: "rstr \<Rightarrow> bool" where
  "is_url_hash v \<longleftrightarrow> utf8_len v = 16 \<and> list_all is_lower_hex v"

fun collect_stores ::
    "('s, 'z) remote_host_scheme \<Rightarrow> rstr \<Rightarrow> (io_error + rstr) list \<Rightarrow> ('s, io_error, (rstr \<times> rstr) list) dact" where
  "collect_stores h root [] = d_ok []"
| "collect_stores h root (entry # entries) =
     d_bind (d_res entry) (\<lambda>url_hash.
       if \<not> is_url_hash url_hash then collect_stores h root entries
       else d_bind (d_try (cd_is_dir h (path_join root url_hash))) (\<lambda>metadata. case metadata of
           Inl e \<Rightarrow> if e = NotFound then collect_stores h root entries else d_err e
         | Inr directory \<Rightarrow>
             if \<not> directory then collect_stores h root entries
             else d_bind (collect_stores h root entries) (\<lambda>stores. d_ok ((url_hash, path_join root url_hash) # stores))))"

fun first_validated ::
    "('s, 'z) remote_host_scheme \<Rightarrow> rstr \<Rightarrow> generation_candidate list \<Rightarrow> ('s, 'e, offline_remote_generation option) dact" where
  "first_validated h url_hash [] = d_ok None"
| "first_validated h url_hash (candidate # candidates) =
     d_bind (remote_generation_contents_match h candidate MAX_HTTP_BODY_BYTES) (\<lambda>same.
     if \<not> same then first_validated h url_hash candidates
     else d_bind (read_validated_remote_generation h (gc_directory candidate) None MAX_HTTP_BODY_BYTES) (\<lambda>generation.
       case generation of None \<Rightarrow> first_validated h url_hash candidates
       | Some g \<Rightarrow> d_ok (Some \<lparr>og_url_hash = url_hash, og_iplist_path = vg_iplist_path g,
           og_label = trim (rm_url (vg_metadata g)), og_iplist = vg_iplist g\<rparr>)))"

fun offline_generations ::
    "('s, 'z) remote_host_scheme \<Rightarrow> (rstr \<times> rstr) list \<Rightarrow> ('s, 'e, offline_remote_generation list) dact" where
  "offline_generations h [] = d_ok []"
| "offline_generations h ((url_hash, store) # stores) =
     d_bind (generation_candidates h store) (\<lambda>candidates.
     d_bind (first_validated h url_hash candidates) (\<lambda>generation.
     d_bind (offline_generations h stores) (\<lambda>generations.
       d_ok (case generation of Some g \<Rightarrow> g # generations | None \<Rightarrow> generations))))"

definition collect_offline_remote_generations ::
    "('s, 'z) remote_host_scheme \<Rightarrow> rstr \<Rightarrow> ('s, io_error, offline_remote_generation list) dact" where
  "collect_offline_remote_generations h dir =
     d_bind (d_try (rh_read_entries h (remote_stores_root dir))) (\<lambda>r. case r of
       Inl e \<Rightarrow> if e = NotFound then d_ok [] else d_err e
     | Inr entries \<Rightarrow> d_bind (collect_stores h (remote_stores_root dir) entries) (\<lambda>stores.
         offline_generations h (sort_key fst stores)))"

section \<open>Refreshing\<close>

datatype cached_origin = OriginNetwork | OriginNotModified | OriginFallback | OriginEmpty

record cached_iplist =
  ci_networks :: "canonical_cidr list"
  ci_source :: cached_origin
  ci_metadata :: "remote_cache_metadata option"

record prepared_cached_iplist =
  pc_loaded :: cached_iplist
  pc_pending_promotion :: "staged_generation option"

record validated_remote_response =
  vr_networks :: "canonical_cidr list"
  vr_normalized :: rstr

record remote_refresh_context =
  rr_url :: rstr
  rr_cache_dir :: rstr
  rr_max_bytes :: nat
  rr_previous_generation :: "rstr option"
  rr_feed_limits :: RemoteFeedLimits
  rr_max_iplist_bytes :: nat

datatype read_only_iplist_error = CacheRead http_cache_error | NormalizedLimit nat nat

record read_only_iplist =
  ro_networks :: "canonical_cidr list"
  ro_provenance :: source_provenance
  ro_notices :: "notice list"

definition validate_remote_response :: "http_response \<Rightarrow> nat \<Rightarrow> RemoteFeedLimits \<Rightarrow> validated_remote_response option" where
  "validate_remote_response response max_bytes feed_limits =
     (if \<not> is_success (rs_status response) then None
      else if byte_len (rs_body response) > max_bytes then None
      else case parse_remote_cidrs_bounded (rs_body response) feed_limits of
          Inl _ \<Rightarrow> None
        | Inr parsed \<Rightarrow>
            if pr_data_lines parsed > 0 \<and> pr_networks parsed = [] then None
            else Some \<lparr>vr_networks = pr_networks parsed, vr_normalized = format_normalized_cidrs (pr_networks parsed)\<rparr>)"

definition ensure_normalized_size :: "nat \<Rightarrow> nat \<Rightarrow> read_only_iplist_error + unit" where
  "ensure_normalized_size bytes limit = (if bytes > limit then Inl (NormalizedLimit bytes limit) else Inr ())"

definition cache_fallback :: "canonical_cidr list option \<Rightarrow> remote_cache_metadata option \<Rightarrow> cached_iplist" where
  "cache_fallback cached_networks cached_meta = (case cached_networks of
       Some networks \<Rightarrow> \<lparr>ci_networks = networks, ci_source = OriginFallback, ci_metadata = cached_meta\<rparr>
     | None \<Rightarrow> \<lparr>ci_networks = [], ci_source = OriginEmpty, ci_metadata = cached_meta\<rparr>)"

definition prepared_fallback :: "canonical_cidr list option \<Rightarrow> remote_cache_metadata option \<Rightarrow> prepared_cached_iplist" where
  "prepared_fallback cached_networks cached_meta =
     \<lparr>pc_loaded = cache_fallback cached_networks cached_meta, pc_pending_promotion = None\<rparr>"

definition stage_cache ::
    "('s, 'z) remote_host_scheme \<Rightarrow> rstr \<Rightarrow> rstr \<Rightarrow> rstr \<Rightarrow> file_bytes \<Rightarrow> remote_cache_metadata \<Rightarrow> rstr option \<Rightarrow> nat
     \<Rightarrow> ('s, http_cache_error, staged_generation) dact" where
  "stage_cache h dir url iplist raw meta previous_generation max_iplist_bytes =
     (let store = remote_generation_store h dir url; path = path_join store MANIFEST_FILE_NAME in
      d_bind (d_res (map_err (\<lambda>_. WriteMetadata path (WriteIo InvalidData)) (ensure_normalized_size (utf8_len iplist) max_iplist_bytes))) (\<lambda>_.
      d_bind (d_res (ok_or (rh_render_metadata h meta) (WriteMetadata path SerializeFailed))) (\<lambda>metadata.
        d_map_err (\<lambda>e. WriteMetadata path (WriteIo e)) (stage_generation h store
          [\<lparr>gf_name = lit ''raw'', gf_contents = raw\<rparr>, \<lparr>gf_name = lit ''iplist'', gf_contents = Utf8 iplist\<rparr>,
           \<lparr>gf_name = lit ''meta.json'', gf_contents = Utf8 metadata\<rparr>] previous_generation))))"

definition handle_network_response ::
    "('s, 'z) remote_host_scheme \<Rightarrow> http_response \<Rightarrow> canonical_cidr list option \<Rightarrow> remote_cache_metadata option
     \<Rightarrow> remote_refresh_context \<Rightarrow> ('s, http_cache_error, prepared_cached_iplist) dact" where
  "handle_network_response h response cached_networks cached_meta ctx =
     (case validate_remote_response response (rr_max_bytes ctx) (rr_feed_limits ctx) of
        None \<Rightarrow> d_ok (prepared_fallback cached_networks cached_meta)
      | Some validated \<Rightarrow>
          (let metadata = \<lparr>rm_url = rr_url ctx, rm_etag = rs_etag response, rm_last_modified = rs_last_modified response,
             rm_sha256_raw = sha256_hex h (rs_body response), rm_sha256_iplist = sha256_hex h (Utf8 (vr_normalized validated))\<rparr> in
           d_bind (d_try (stage_cache h (rr_cache_dir ctx) (rr_url ctx) (vr_normalized validated) (rs_body response) metadata
               (rr_previous_generation ctx) (rr_max_iplist_bytes ctx))) (\<lambda>staged. case staged of
             Inr promotion \<Rightarrow> d_ok \<lparr>pc_loaded = \<lparr>ci_networks = vr_networks validated, ci_source = OriginNetwork,
                 ci_metadata = Some metadata\<rparr>, pc_pending_promotion = Some promotion\<rparr>
           | Inl e \<Rightarrow> if cached_networks \<noteq> None then d_ok (prepared_fallback cached_networks cached_meta) else d_err e)))"

text \<open>What a refresh makes of the fetched response: the \<^verbatim>\<open>match\<close> at the end of the function.\<close>

definition settle_refresh ::
    "('s, 'z) remote_host_scheme \<Rightarrow> remote_refresh_context \<Rightarrow> loaded_remote_cache \<Rightarrow> conditional_fetch_result
     \<Rightarrow> ('s, http_cache_error, prepared_cached_iplist) dact" where
  "settle_refresh h ctx cached fetched = (case fetched of
       FetchNotModified \<Rightarrow> (case lc_networks cached of
           Some networks \<Rightarrow> d_ok \<lparr>pc_loaded = \<lparr>ci_networks = networks, ci_source = OriginNotModified,
             ci_metadata = lc_metadata cached\<rparr>, pc_pending_promotion = None\<rparr>
         | None \<Rightarrow> d_ok \<lparr>pc_loaded = \<lparr>ci_networks = [], ci_source = OriginEmpty, ci_metadata = None\<rparr>, pc_pending_promotion = None\<rparr>)
     | FetchFallback \<Rightarrow> d_ok (prepared_fallback (lc_networks cached) (lc_metadata cached))
     | FetchedNetwork response \<Rightarrow> handle_network_response h response (lc_networks cached) (lc_metadata cached)
         (ctx\<lparr>rr_previous_generation := lc_generation_id cached\<rparr>))"

definition conditional_refresh ::
    "'s http_client \<Rightarrow> rstr \<Rightarrow> nat \<Rightarrow> loaded_remote_cache \<Rightarrow> ('s, 'e, conditional_fetch_result) dact" where
  "conditional_refresh client url max_bytes cached = fetch_with_conditional_cache client url max_bytes
     (Option.bind (lc_metadata cached) rm_etag) (Option.bind (lc_metadata cached) rm_last_modified) (lc_networks cached \<noteq> None)"

definition prepare_iplist_with_cache_limit ::
    "('s, 'z) remote_host_scheme \<Rightarrow> 's http_client \<Rightarrow> rstr \<Rightarrow> rstr \<Rightarrow> (rstr \<times> rstr) list \<Rightarrow> nat \<Rightarrow> nat
     \<Rightarrow> ('s, http_cache_error, prepared_cached_iplist) dact" where
  "prepare_iplist_with_cache_limit h client url dir env max_elem max_iplist_bytes =
     (let max_bytes = max_http_body_bytes env; feed_limits = RemoteFeedLimits_from_maxelem max_elem in
      d_bind (cleanup_unselected_generations h (remote_generation_store h dir url)) (\<lambda>_.
      d_bind (read_remote_cache h dir url (cache_paths_for_url h dir url) MAX_HTTP_BODY_BYTES feed_limits) (\<lambda>cached.
      d_bind (conditional_refresh client url max_bytes cached)
        (settle_refresh h \<lparr>rr_url = url, rr_cache_dir = dir, rr_max_bytes = max_bytes, rr_previous_generation = None,
           rr_feed_limits = feed_limits, rr_max_iplist_bytes = max_iplist_bytes\<rparr> cached))))"

definition prepare_iplist_with_cache ::
    "('s, 'z) remote_host_scheme \<Rightarrow> 's http_client \<Rightarrow> rstr \<Rightarrow> rstr \<Rightarrow> (rstr \<times> rstr) list \<Rightarrow> nat
     \<Rightarrow> ('s, http_cache_error, prepared_cached_iplist) dact" where
  "prepare_iplist_with_cache h client url dir env max_elem =
     prepare_iplist_with_cache_limit h client url dir env max_elem MAX_IPLIST_READ_BYTES"

section \<open>Preview\<close>

definition read_only_cached :: "loaded_remote_cache \<Rightarrow> source_provenance \<Rightarrow> bool \<Rightarrow> read_only_iplist" where
  "read_only_cached cached provenance offline = (case lc_networks cached of
       None \<Rightarrow> \<lparr>ro_networks = [], ro_provenance = Unavailable,
         ro_notices = [notice_warning (ProviderNotice (lit ''no usable remote feed data is available for this preview''))]\<rparr>
     | Some networks \<Rightarrow> \<lparr>ro_networks = networks, ro_provenance = provenance,
         ro_notices =
           (if offline then [notice_info (ProviderNotice (lit ''preview uses validated cached feed data without refreshing it; freshness is unknown''))]
            else if provenance = FallbackCache
            then [notice_warning (ProviderNotice (lit ''remote refresh was unavailable or rejected; preview uses validated cached data''))]
            else [])\<rparr>)"

definition settle_preview ::
    "nat \<Rightarrow> RemoteFeedLimits \<Rightarrow> nat \<Rightarrow> loaded_remote_cache \<Rightarrow> conditional_fetch_result \<Rightarrow> read_only_iplist_error + read_only_iplist" where
  "settle_preview max_bytes limits max_iplist_bytes cached fetched = (case fetched of
       FetchNotModified \<Rightarrow> Inr (read_only_cached cached CacheSource False)
     | FetchFallback \<Rightarrow> Inr (read_only_cached cached FallbackCache False)
     | FetchedNetwork response \<Rightarrow> (case validate_remote_response response max_bytes limits of
         None \<Rightarrow> Inr (read_only_cached cached FallbackCache False)
       | Some validated \<Rightarrow> (case ensure_normalized_size (utf8_len (vr_normalized validated)) max_iplist_bytes of
           Inl e \<Rightarrow> if lc_networks cached = None then Inl e
             else let fallback = read_only_cached cached FallbackCache False
                  in Inr (fallback\<lparr>ro_notices := ro_notices fallback @ [notice_warning (ProviderNotice
                      (lit ''remote preview refresh rejected: normalized iplist size '' @ show_nat (utf8_len (vr_normalized validated))
                       @ lit '' exceeds '' @ show_nat max_iplist_bytes @ lit '' byte limit; using validated cache''))]\<rparr>)
         | Inr _ \<Rightarrow> Inr \<lparr>ro_networks = vr_networks validated, ro_provenance = NetworkSource, ro_notices = []\<rparr>)))"

definition read_iplist_for_preview_with_limit ::
    "('s, 'z) remote_host_scheme \<Rightarrow> 's http_client option \<Rightarrow> rstr \<Rightarrow> rstr \<Rightarrow> (rstr \<times> rstr) list \<Rightarrow> nat \<Rightarrow> nat
     \<Rightarrow> ('s, read_only_iplist_error, read_only_iplist) dact" where
  "read_iplist_for_preview_with_limit h client_opt url dir env max_elem max_iplist_bytes =
     (let limits = RemoteFeedLimits_from_maxelem max_elem in
      d_bind (d_map_err CacheRead (read_remote_cache h dir url (cache_paths_for_url h dir url) MAX_HTTP_BODY_BYTES limits)) (\<lambda>cached.
        case client_opt of
          None \<Rightarrow> d_ok (read_only_cached cached CacheSource True)
        | Some client \<Rightarrow> (let max_bytes = max_http_body_bytes env in
            d_bind (conditional_refresh client url max_bytes cached) (\<lambda>fetched.
              d_res (settle_preview max_bytes limits max_iplist_bytes cached fetched)))))"

definition read_iplist_for_preview ::
    "('s, 'z) remote_host_scheme \<Rightarrow> 's http_client option \<Rightarrow> rstr \<Rightarrow> rstr \<Rightarrow> (rstr \<times> rstr) list \<Rightarrow> nat
     \<Rightarrow> ('s, read_only_iplist_error, read_only_iplist) dact" where
  "read_iplist_for_preview h client_opt url dir env max_elem =
     read_iplist_for_preview_with_limit h client_opt url dir env max_elem MAX_IPLIST_READ_BYTES"

section \<open>What a read sees\<close>

text \<open>The action returns and leaves the part \<open>v\<close> of the state at \<open>k\<close>; its value satisfies \<open>Q\<close>.\<close>

definition reads :: "('s \<Rightarrow> 'v) \<Rightarrow> 'v \<Rightarrow> ('s, 'e, 'a) dact \<Rightarrow> ('a \<Rightarrow> bool) \<Rightarrow> bool" where
  "reads v k m Q \<longleftrightarrow> returns (\<lambda>s. v s = k) m (\<lambda>x s. v s = k \<and> Q x) (\<lambda>_ s. v s = k)"

lemma reads_bind: "reads v k m Q \<Longrightarrow> (\<And>x. Q x \<Longrightarrow> reads v k (f x) R) \<Longrightarrow> reads v k (d_bind m f) R"
  unfolding reads_def by (erule returns_bind) (auto simp: returns_def)

lemma reads_ok: "Q x \<Longrightarrow> reads v k (d_ok x) Q"
  unfolding reads_def by (rule returns_ok) simp

lemma reads_err: "reads v k (d_err e) Q"
  unfolding reads_def by (rule returns_err)

lemma reads_mono: "reads v k m Q \<Longrightarrow> (\<And>x. Q x \<Longrightarrow> Q' x) \<Longrightarrow> reads v k m Q'"
  unfolding reads_def by (erule returns_weaken) auto

lemma reads_try: "reads v k m Q \<Longrightarrow> reads v k (d_try m) (\<lambda>r. \<forall>x. r = Inr x \<longrightarrow> Q x)"
  unfolding reads_def by (rule returns_weaken, erule returns_try) (auto split: sum.splits)

lemma reads_if: "(b \<Longrightarrow> reads v k m Q) \<Longrightarrow> (\<not> b \<Longrightarrow> reads v k m' Q) \<Longrightarrow> reads v k (if b then m else m') Q"
  by simp

definition generation_on_disk ::
    "('s, 'z) remote_host_scheme \<Rightarrow> file_map \<Rightarrow> rstr \<Rightarrow> rstr \<Rightarrow> rstr \<Rightarrow> RemoteFeedLimits \<Rightarrow> canonical_cidr list \<Rightarrow> bool" where
  "generation_on_disk h F d i url limits networks \<longleftrightarrow> (\<exists>raw iplist bytes meta.
     F (path_join d (lit ''raw'')) = Some raw \<and> F (path_join d (lit ''iplist'')) = Some (Utf8 iplist)
   \<and> F (path_join d (lit ''meta.json'')) = Some bytes \<and> rh_decode_metadata h bytes = Some meta
   \<and> trim (rm_url meta) = trim url \<and> rm_sha256_raw meta = sha256_hex h raw
   \<and> rm_sha256_iplist meta = sha256_hex h (Utf8 iplist)
   \<and> generation_id_from_parts h (sort_key fst [(lit ''raw'', raw), (lit ''iplist'', Utf8 iplist), (lit ''meta.json'', bytes)]) = i
   \<and> parse_cached_iplist_bounded iplist limits = Inr networks)"

text \<open>
  The networks are those of a selected generation that is whole, bound to the URL and hashes to
  its name, or of the legacy list of the URL.
\<close>

definition cached_on_disk ::
    "('s, 'z) remote_host_scheme \<Rightarrow> file_map \<Rightarrow> rstr \<Rightarrow> rstr \<Rightarrow> RemoteFeedLimits \<Rightarrow> canonical_cidr list \<Rightarrow> bool" where
  "cached_on_disk h F dir url limits networks \<longleftrightarrow>
     (\<exists>i \<in> set (selection h F (remote_generation_store h dir url)).
        generation_on_disk h F (generation_dir (remote_generation_store h dir url) i) i url limits networks)
   \<or> (\<exists>t. F (cp_iplist_path (cache_paths_for_url h dir url)) = Some (Utf8 t) \<and> parse_cached_iplist_bounded t limits = Inr networks)"

lemma read_limits: "MAX_IPLIST_READ_BYTES \<le> U64_LIMIT - 1" "MAX_METADATA_READ_BYTES \<le> U64_LIMIT - 1"
    "MAX_HTTP_BODY_BYTES \<le> U64_LIMIT - 1"
  by (simp_all add: MAX_IPLIST_READ_BYTES_def MAX_METADATA_READ_BYTES_def MAX_HTTP_BODY_BYTES_def U64_LIMIT_def)

locale remote_store = cache_store h files
  for h :: "('s, 'z) remote_host_scheme" and files :: "'s \<Rightarrow> file_map"
begin

lemma reads_bytes:
  "n \<le> U64_LIMIT - 1 \<Longrightarrow> reads files F (read_bytes_with_limit h p n) (\<lambda>c. F p = Some c)"
  unfolding reads_def by (rule returns_weaken [OF read_bytes_returns]) auto

lemma reads_string:
  "n \<le> U64_LIMIT - 1 \<Longrightarrow> reads files F (read_to_string_with_limit h p n) (\<lambda>t. F p = Some (Utf8 t))"
  unfolding read_to_string_with_limit_def
  by (rule reads_bind [OF reads_bytes]) (auto intro: reads_ok reads_err split: file_bytes.split)

lemma reads_optional: "n \<le> U64_LIMIT - 1 \<Longrightarrow>
    reads files F (read_optional_bytes_lossy h p n) (\<lambda>v. \<forall>c. v = Some c \<longrightarrow> F p = Some c)"
  unfolding read_optional_bytes_lossy_def
  by (rule reads_bind [OF reads_try [OF reads_bytes]]) (auto intro!: reads_ok split: sum.split)

lemma reads_metadata:
  "reads files F (read_optional_metadata_lossy h paths)
     (\<lambda>v. \<forall>m. v = Some m \<longrightarrow> (\<exists>b. F (cp_meta_path paths) = Some b \<and> rh_decode_metadata h b = Some m))"
  unfolding read_optional_metadata_lossy_def read_optional_json_lossy_def
  by (rule reads_bind [OF reads_optional [OF read_limits(2)]]) (auto intro!: reads_ok simp: bind_eq_Some_conv)

lemma reads_validated: "n \<le> U64_LIMIT - 1 \<Longrightarrow> reads files F (read_validated_bytes_lossy h p n (Some e))
    (\<lambda>v. \<forall>c. v = Some c \<longrightarrow> F p = Some c \<and> sha256_hex h c = e)"
  unfolding read_validated_bytes_lossy_def
  by (rule reads_bind [OF reads_optional]) (auto intro!: reads_ok split: option.split)

lemma reads_members: "\<forall>f \<in> set fs. gl_read_limit f \<le> U64_LIMIT - 1 \<Longrightarrow>
    reads files F (read_members h d fs) (\<lambda>v. \<forall>ps. v = Some ps \<longrightarrow>
      map fst ps = map gl_name fs \<and> (\<forall>(n, b) \<in> set ps. F (path_join d n) = Some b))"
proof (induction fs)
  case Nil
  then show ?case by (auto intro: reads_ok)
next
  case (Cons f fs)
  then have n: "gl_read_limit f \<le> U64_LIMIT - 1" and later: "\<forall>f \<in> set fs. gl_read_limit f \<le> U64_LIMIT - 1" by simp_all
  show ?case unfolding read_members.simps
  proof (rule reads_bind [OF reads_try [OF reads_bytes [OF n]]], goal_cases)
    case (1 r)
    then show ?case
    proof (cases r)
      case (Inr b)
      then show ?thesis unfolding Inr sum.case
        by (intro reads_bind [OF Cons.IH [OF later]] reads_ok) (use 1 Inr in auto)
    qed (auto intro!: reads_ok)
  qed
qed

end

context remote_store
begin

lemma reads_candidates: "reads files F (generation_candidates h root)
    (\<lambda>cs. \<forall>c \<in> set cs. gc_id c \<in> set (selection h F root) \<and> gc_directory c = generation_dir root (gc_id c))"
  unfolding generation_candidates_def
proof (rule reads_bind [OF reads_try])
  show "reads files F (read_bytes_with_limit h (manifest_path root) MANIFEST_READ_LIMIT)
      (\<lambda>c. F (manifest_path root) = Some c \<and> byte_len c \<le> MANIFEST_READ_LIMIT)"
    unfolding reads_def by (rule returns_weaken [OF read_bytes_returns]) (auto simp: MANIFEST_READ_LIMIT_def U64_LIMIT_def)
  fix r :: "io_error + file_bytes"
  assume r: "\<forall>c. r = Inr c \<longrightarrow> F (manifest_path root) = Some c \<and> byte_len c \<le> MANIFEST_READ_LIMIT"
  show "reads files F (d_ok (case r of Inl _ \<Rightarrow> [] | Inr bytes \<Rightarrow> manifest_candidates h root bytes))
      (\<lambda>cs. \<forall>c \<in> set cs. gc_id c \<in> set (selection h F root) \<and> gc_directory c = generation_dir root (gc_id c))"
    using r by (cases r) (auto intro!: reads_ok simp: selection_def candidates_valid)
qed

definition whole :: "file_map \<Rightarrow> generation_candidate \<Rightarrow> bool" where
  "whole F c \<longleftrightarrow> (\<exists>raw iplist bytes. F (path_join (gc_directory c) (lit ''raw'')) = Some raw
     \<and> F (path_join (gc_directory c) (lit ''iplist'')) = Some iplist \<and> F (path_join (gc_directory c) (lit ''meta.json'')) = Some bytes
     \<and> generation_id_from_parts h (sort_key fst [(lit ''raw'', raw), (lit ''iplist'', iplist), (lit ''meta.json'', bytes)]) = gc_id c)"

lemma reads_match: "n \<le> U64_LIMIT - 1 \<Longrightarrow>
    reads files F (remote_generation_contents_match h c n) (\<lambda>same. same \<longrightarrow> whole F c)"
  unfolding remote_generation_contents_match_def generation_contents_match_def
  by (rule reads_bind [OF reads_members]) (auto intro!: reads_ok simp: read_limits [simplified] whole_def map_eq_Cons_conv simp del: sort_key_simps split: option.splits)

lemma reads_generation: "n \<le> U64_LIMIT - 1 \<Longrightarrow>
    reads files F (read_validated_remote_generation h d (Some url) n) (\<lambda>r. \<forall>g. r = Some g \<longrightarrow>
      (\<exists>raw bytes. F (path_join d (lit ''raw'')) = Some raw \<and> F (path_join d (lit ''iplist'')) = Some (Utf8 (vg_iplist g))
        \<and> F (path_join d (lit ''meta.json'')) = Some bytes \<and> rh_decode_metadata h bytes = Some (vg_metadata g)
        \<and> trim (rm_url (vg_metadata g)) = trim url \<and> rm_sha256_raw (vg_metadata g) = sha256_hex h raw
        \<and> rm_sha256_iplist (vg_metadata g) = sha256_hex h (Utf8 (vg_iplist g))))"
  unfolding read_validated_remote_generation_def Let_def
proof (rule reads_bind [OF reads_metadata], goal_cases)
  case (1 w)
  show ?case
  proof (cases w)
    case (Some m)
    obtain b where b: "F (path_join d (lit ''meta.json'')) = Some b" "rh_decode_metadata h b = Some m"
      using 1 Some by (auto simp: generation_paths_def)
    show ?thesis unfolding Some option.case
    proof (rule reads_if, goal_cases)
      case 2
      have url: "trim (rm_url m) = trim url" using 2 by simp
      show ?case
      proof (rule reads_bind [OF reads_validated [OF \<open>n \<le> U64_LIMIT - 1\<close>]], goal_cases)
        case (1 r)
        then show ?case
          by (cases r) (auto intro!: reads_ok reads_bind [OF reads_try [OF reads_string [OF read_limits(1)]]]
              simp: generation_paths_def b url split: sum.splits if_splits)
      qed
    qed (auto intro: reads_ok)
  qed (auto intro: reads_ok)
qed

lemma reads_generations:
  assumes "n \<le> U64_LIMIT - 1"
  shows "\<forall>c \<in> set cs. gc_id c \<in> set (selection h F root) \<and> gc_directory c = generation_dir root (gc_id c) \<Longrightarrow>
    reads files F (read_generations h url n limits cs) (\<lambda>r. \<forall>l. r = Some l \<longrightarrow> (\<exists>networks. lc_networks l = Some networks \<and>
      (\<exists>i \<in> set (selection h F root). generation_on_disk h F (generation_dir root i) i url limits networks)))"
proof (induction cs)
  case (Cons c cs)
  then have c: "gc_id c \<in> set (selection h F root)" "gc_directory c = generation_dir root (gc_id c)"
    and later: "\<forall>c \<in> set cs. gc_id c \<in> set (selection h F root) \<and> gc_directory c = generation_dir root (gc_id c)" by simp_all
  note IH = Cons.IH [OF later]
  show ?case unfolding read_generations.simps
  proof (rule reads_bind [OF reads_match [OF assms]], rule reads_if [OF IH], rule reads_bind [OF reads_generation [OF assms]], goal_cases)
    case (1 same g)
    then have w: "whole F c" by simp
    show ?case
    proof (cases g)
      case (Some g)
      show ?thesis
      proof (cases "parse_cached_iplist_bounded (vg_iplist g) limits")
        case (Inr networks)
        have "generation_on_disk h F (gc_directory c) (gc_id c) url limits networks"
          using w 1(3) Inr \<open>_ = Some g\<close> unfolding whole_def generation_on_disk_def by fastforce
        then show ?thesis using c Inr Some by (auto intro!: reads_ok)
      qed (use IH Some in auto)
    qed (use IH in simp)
  qed
qed (auto intro: reads_ok)

lemma reads_legacy: "reads files F (read_optional_iplist_networks h paths metadata limits)
    (\<lambda>r. \<forall>networks. r = Some networks \<longrightarrow>
      (\<exists>t. F (cp_iplist_path paths) = Some (Utf8 t) \<and> parse_cached_iplist_bounded t limits = Inr networks))"
  unfolding read_optional_iplist_networks_def
  by (rule reads_bind [OF reads_try [OF reads_string [OF read_limits(1)]]])
    (auto intro!: reads_ok reads_err split: sum.split)

lemma reads_cache:
  "reads files F (read_remote_cache h dir url (cache_paths_for_url h dir url) MAX_HTTP_BODY_BYTES limits)
     (\<lambda>l. \<forall>networks. lc_networks l = Some networks \<longrightarrow> cached_on_disk h F dir url limits networks)"
  unfolding read_remote_cache_def
proof (rule reads_bind [OF reads_candidates], rule reads_bind [OF reads_generations [OF read_limits(3)]], assumption, goal_cases)
  case (1 cs r)
  show ?case
  proof (cases r)
    case None
    show ?thesis unfolding None option.case
      by (rule reads_bind [OF reads_metadata], rule reads_bind [OF reads_legacy], rule reads_ok)
        (auto simp: cached_on_disk_def)
  qed (use 1(2) in \<open>auto intro!: reads_ok simp: cached_on_disk_def\<close>)
qed

end

section \<open>Cleaning up keeps what is selected\<close>

text \<open>What a clean-up of a store must not touch: all outside its generations, and the selected ones.\<close>

definition kept_store :: "('s, 'z) cache_host_scheme \<Rightarrow> file_map \<Rightarrow> rstr \<Rightarrow> rstr set" where
  "kept_store h F root = {q. \<not> under (generations_root root) q \<or> (\<exists>i \<in> set (selection h F root). under (generation_dir root i) q)}"

context cache_store
begin

lemma cleanup_keeps:
  assumes "plain_dir root"
  shows "returns (\<lambda>s. files s = F) (cleanup_unselected_generations h root)
    (\<lambda>_ s. \<forall>q \<in> kept_store h F root. files s q = F q) (\<lambda>_ s. \<forall>q \<in> kept_store h F root. files s q = F q)"
proof -
  note gen = plain_generations [OF assms]
  let ?A = "kept_store h F root" and ?kept = "\<lambda>_ s. \<forall>q \<in> kept_store h F root. files s q = F q"
  have kept: "returns (\<lambda>s. files s = F) (remove_generations h (generations_root root) keep) ?kept ?kept"
    if "\<forall>i \<in> set (selection h F root). keep i" for keep
  proof -
    have "keep n" if q: "q \<in> ?A" "47 \<notin> set n" "under (generation_dir root n) q" for q n
    proof -
      obtain i where i: "i \<in> set (selection h F root)" "under (generation_dir root i) q"
        using q(1) under_trans [OF under_join [OF gen] q(3)] by (auto simp: kept_store_def)
      have "47 \<notin> set i" using hex_plain [OF selection_valid [OF i(1)]] by (simp add: plain_name_def)
      then have "i = n" using under_siblings [OF gen i(2) q(3) _ q(2)] by blast
      then show "keep n" using that i(1) \<open>\<forall>i \<in> set (selection h F root). keep i\<close> by blast
    qed
    then have "kept_names (generations_root root) keep ?A" unfolding kept_names_def by blast
    then have "steps (keeps (only files ?A)) (remove_generations h (generations_root root) keep)"
      by (rule keeps_remove_generations)
    then show ?thesis
      unfolding steps_def keeps_def only_same returns_def by (force split: sum.split)
  qed
  show ?thesis unfolding cleanup_unselected_generations_def
  proof (rule returns_bind [OF returns_weaken [OF candidates_returns]], simp, assumption, simp, goal_cases)
    case (1 cs)
    show ?case
    proof (cases cs)
      case Nil
      show ?thesis unfolding Nil list.case
      proof (rule returns_pre [where P = "\<lambda>s. files s = F"], simp, rule returns_bind [OF returns_try [OF symlink_returns]], goal_cases)
        case (1 r)
        then show ?case
        proof (cases "r = Inl NotFound \<and> F (manifest_path root) = None")
          case True
          then have "\<forall>i \<in> set (selection h F root). False" by (simp add: selection_def)
          with True show ?thesis by (auto intro!: returns_pre [OF _ kept] split: sum.split)
        qed (auto simp: returns_def d_ok_def split: sum.splits)
      qed
    next
      case (Cons c others)
      have "returns (\<lambda>s. files s = F \<and> map gc_id cs = selection h F root) (prune_generations h root
           \<lparr>gm_version = CACHE_SCHEMA_VERSION, gm_current = gc_id c, gm_previous = (case others of p # _ \<Rightarrow> Some (gc_id p) | [] \<Rightarrow> None)\<rparr>)
           ?kept ?kept"
      proof (cases "map gc_id cs = selection h F root")
        case True
        then have "length (map gc_id cs) \<le> 2" using selection_short by metis
        then show ?thesis unfolding prune_generations_def using True [symmetric]
          by (intro returns_pre [OF _ kept]) (auto simp: Cons split: list.splits)
      qed (simp add: returns_def)
      then show ?thesis unfolding Cons list.case by (rule returns_pre [rotated]) simp
    qed
  qed
qed

end

section \<open>What a refresh returns\<close>

text \<open>The HTTP client touches no file.\<close>

definition client_law :: "'s http_client \<Rightarrow> ('s \<Rightarrow> file_map) \<Rightarrow> bool" where
  "client_law client files \<longleftrightarrow> (\<forall>F rq. returns (\<lambda>s. files s = F) (client rq) (\<lambda>_ s. files s = F) (\<lambda>_ s. files s = F))"

text \<open>The client answered a request for the URL, with this limit on the body, by the response.\<close>

definition answered_by :: "'s http_client \<Rightarrow> rstr \<Rightarrow> nat \<Rightarrow> http_response \<Rightarrow> bool" where
  "answered_by client url n response \<longleftrightarrow>
     (\<exists>rq t t'. client rq t = Some (Inr response, t') \<and> rq_url rq = url \<and> rq_max_body_bytes rq = n)"

text \<open>An answer of the client passes every check, and these are its networks: success, a body within
  the limit that parses, and networks unless there is not one line of data.\<close>

definition valid_answer :: "'s http_client \<Rightarrow> rstr \<Rightarrow> nat \<Rightarrow> RemoteFeedLimits \<Rightarrow> canonical_cidr list \<Rightarrow> bool" where
  "valid_answer client url n limits networks \<longleftrightarrow> (\<exists>response parsed. answered_by client url n response
     \<and> 200 \<le> rs_status response \<and> rs_status response < 300 \<and> byte_len (rs_body response) \<le> n
     \<and> parse_remote_cidrs_bounded (rs_body response) limits = Inr parsed
     \<and> (pr_data_lines parsed = 0 \<or> pr_networks parsed \<noteq> []) \<and> networks = pr_networks parsed)"

lemma valid_answerI:
  "answered_by client url n response \<Longrightarrow> validate_remote_response response n limits = Some v
     \<Longrightarrow> valid_answer client url n limits (vr_networks v)"
  unfolding valid_answer_def
  by (intro exI [of _ response]) (auto simp: validate_remote_response_def is_success_def split: if_splits sum.splits)

definition fetched_from :: "'s http_client \<Rightarrow> rstr \<Rightarrow> nat \<Rightarrow> loaded_remote_cache \<Rightarrow> conditional_fetch_result \<Rightarrow> bool" where
  "fetched_from client url n cached fetched \<longleftrightarrow> (case fetched of
       FetchedNetwork response \<Rightarrow> answered_by client url n response
     | FetchNotModified \<Rightarrow> lc_networks cached \<noteq> None \<and> (\<exists>response. answered_by client url n response \<and> rs_status response = 304)
     | FetchFallback \<Rightarrow> True)"

definition settled ::
    "'s http_client \<Rightarrow> rstr \<Rightarrow> nat \<Rightarrow> RemoteFeedLimits \<Rightarrow> loaded_remote_cache \<Rightarrow> prepared_cached_iplist \<Rightarrow> bool" where
  "settled client url n limits cached p \<longleftrightarrow> (let l = pc_loaded p in case ci_source l of
       OriginNetwork \<Rightarrow> pc_pending_promotion p \<noteq> None \<and> valid_answer client url n limits (ci_networks l)
     | OriginNotModified \<Rightarrow> lc_networks cached = Some (ci_networks l)
         \<and> (\<exists>response. answered_by client url n response \<and> rs_status response = 304)
     | OriginFallback \<Rightarrow> lc_networks cached = Some (ci_networks l)
     | OriginEmpty \<Rightarrow> ci_networks l = [] \<and> lc_networks cached = None)"

lemma path_hash:
  assumes "length (cd_sha256 h bs) = 32" "c \<in> set (take n (hex_lower (cd_sha256 h bs)))"
  shows "is_lower_hex c"
  using hex_lower_id [OF assms(1)] in_set_takeD [OF assms(2)] by (auto simp: is_generation_id_def list_all_iff)

context remote_store
begin

lemma url_hash_hex: "list_all is_lower_hex (url_hash_prefix h url)" "length (url_hash_prefix h url) = 16"
proof -
  have "is_generation_id (sha256_hex h (Utf8 url))"
    using manifests hex_lower_id by (simp add: sha256_hex_def manifest_law_def)
  moreover from this have "length (sha256_hex h (Utf8 url)) = 64"
  proof -
    assume i: "is_generation_id (sha256_hex h (Utf8 url))"
    then have "utf8_len (sha256_hex h (Utf8 url)) = length (sha256_hex h (Utf8 url))"
      by (intro utf8_len_ascii) (auto simp: is_generation_id_def list_all_iff is_lower_hex_def is_ascii_digit_def)
    then show ?thesis using i by (simp add: is_generation_id_def)
  qed
  ultimately show "list_all is_lower_hex (url_hash_prefix h url)" "length (url_hash_prefix h url) = 16"
    by (auto simp: url_hash_prefix_def is_generation_id_def list_all_iff dest: in_set_takeD)
qed

lemma hash_no_slash: "47 \<notin> set (url_hash_prefix h url)" "46 \<notin> set (url_hash_prefix h url)" "118 \<notin> set (url_hash_prefix h url)"
  using url_hash_hex(1) [of url] by (auto simp: list_all_iff is_lower_hex_def is_ascii_digit_def)

lemma plain_store: "plain_dir dir \<Longrightarrow> plain_dir (remote_generation_store h dir url)"
proof -
  assume d: "plain_dir dir"
  have "plain_dir (remote_stores_root dir)"
    using d by (simp add: remote_stores_root_def join_plain plain_dir_def lit_def)
  moreover have "plain_name (url_hash_prefix h url)"
    using hash_no_slash [of url] url_hash_hex(2) [of url] by (auto simp: plain_name_def)
  ultimately show ?thesis unfolding remote_generation_store_def by (rule plain_join)
qed

end

context remote_store
begin

text \<open>The legacy files of a URL are not in its store.\<close>

lemma legacy_outside:
  assumes "plain_dir dir"
  shows "\<not> under (generations_root (remote_generation_store h dir url)) (cp_iplist_path (cache_paths_for_url h dir url))"
    "\<not> under (generations_root (remote_generation_store h dir url)) (cp_meta_path (cache_paths_for_url h dir url))"
proof -
  have "\<not> under (generations_root (remote_generation_store h dir url)) (path_join dir (url_hash_prefix h url @ x))"
    if "47 \<notin> set x" for x
  proof
    assume "under (generations_root (remote_generation_store h dir url)) (path_join dir (url_hash_prefix h url @ x))"
    then obtain r where "url_hash_prefix h url @ x = lit ''v2/remote'' @ 47 # r"
      using assms plain_store [OF assms, of url]
      by (auto simp: under_def generations_root_def join_plain remote_generation_store_def remote_stores_root_def
          plain_dir_def path_join_def lit_def split: if_splits)
    then have "47 \<in> set (url_hash_prefix h url @ x)" by simp
    then show False using hash_no_slash(1) [of url] that by simp
  qed
  then show "\<not> under (generations_root (remote_generation_store h dir url)) (cp_iplist_path (cache_paths_for_url h dir url))"
    "\<not> under (generations_root (remote_generation_store h dir url)) (cp_meta_path (cache_paths_for_url h dir url))"
    by (simp_all add: cache_paths_for_url_def Let_def lit_def)
qed

lemma on_disk_kept:
  assumes "plain_dir dir" and G: "\<forall>q \<in> kept_store h F (remote_generation_store h dir url). G q = F q"
    and "cached_on_disk h G dir url limits networks"
  shows "cached_on_disk h F dir url limits networks"
proof -
  let ?root = "remote_generation_store h dir url"
  note store = plain_store [OF assms(1), of url]
  have "G (manifest_path ?root) = F (manifest_path ?root)"
    using G manifest_not_under [OF store] by (simp add: kept_store_def)
  then have sel: "selection h G ?root = selection h F ?root" by (simp add: selection_def)
  have same: "G (path_join (generation_dir ?root i) n) = F (path_join (generation_dir ?root i) n)"
    if "i \<in> set (selection h F ?root)" for i n
  proof -
    have "plain_dir (generation_dir ?root i)"
      using plain_join [OF plain_generations [OF store]] hex_plain [OF selection_valid [OF that]] by blast
    then show ?thesis using that under_join G unfolding kept_store_def by blast
  qed
  have "G (cp_iplist_path (cache_paths_for_url h dir url)) = F (cp_iplist_path (cache_paths_for_url h dir url))"
    using G legacy_outside(1) [OF assms(1)] by (simp add: kept_store_def)
  then show ?thesis using assms(3) same unfolding cached_on_disk_def sel generation_on_disk_def by metis
qed

lemma stage_cache_returns:
  assumes "plain_dir dir"
  shows "returns (\<lambda>_. True) (stage_cache h dir url iplist raw meta prev limit) (\<lambda>_ _. True) (\<lambda>_ _. True)"
proof -
  have "steps (keeps (only files {})) (stage_generation h (remote_generation_store h dir url) fs prev)" for fs
    by (rule yields_steps [OF yields_stage_any [OF plain_store [OF assms] refl]]) simp
  then show ?thesis unfolding stage_cache_def Let_def
    by (intro steps_any [where R = "keeps (only files {})"] keep_intros)
qed

lemma settle_returns:
  assumes "plain_dir (rr_cache_dir ctx)" "rr_max_bytes ctx = n" "rr_feed_limits ctx = limits"
    and "fetched_from client url n cached fetched"
  shows "returns (\<lambda>_. True) (settle_refresh h ctx cached fetched) (\<lambda>p _. settled client url n limits cached p)
    (\<lambda>_ _. lc_networks cached = None)"
proof (cases fetched)
  case (FetchedNetwork response)
  show ?thesis
  proof (cases "validate_remote_response response n limits")
    case (Some v)
    have "answered_by client url n response" using assms(4) FetchedNetwork by (simp add: fetched_from_def)
    note valid = valid_answerI [OF this Some]
    show ?thesis
      unfolding settle_refresh_def FetchedNetwork handle_network_response_def Let_def
      by (simp add: Some assms(2,3), rule returns_bind [OF returns_try [OF stage_cache_returns [OF assms(1)]]])
        (use valid in \<open>auto intro!: returns_ok returns_err simp: settled_def prepared_fallback_def cache_fallback_def Let_def
          split: sum.split\<close>)
  qed (auto intro!: returns_ok simp: settle_refresh_def handle_network_response_def FetchedNetwork assms(2,3)
      settled_def prepared_fallback_def cache_fallback_def split: option.split)
qed (use assms(4) in \<open>auto intro!: returns_ok simp: fetched_from_def settle_refresh_def settled_def prepared_fallback_def cache_fallback_def
    split: option.split\<close>)

lemma client_returns:
  assumes "client_law client files" "rq_url rq = url" "rq_max_body_bytes rq = n"
  shows "returns (\<lambda>_. True) (d_try (client rq)) (\<lambda>r _. \<forall>response. r = Inr response \<longrightarrow> answered_by client url n response)
    (\<lambda>_ _. False)"
proof (rule returnsI)
  fix s
  obtain r s' where "client rq s = Some (r, s')"
    using returns_imp [OF assms(1) [unfolded client_law_def, rule_format, of "files s" rq] refl] by blast
  then show "\<exists>r s'. d_try (client rq) s = Some (r, s') \<and> (case r of Inl e \<Rightarrow> False
      | Inr r \<Rightarrow> \<forall>response. r = Inr response \<longrightarrow> answered_by client url n response)"
    using assms(2,3) unfolding answered_by_def d_try_def by fastforce
qed

lemma fetch_returns:
  assumes "client_law client files"
  shows "returns (\<lambda>_. True) (conditional_refresh client url n cached) (\<lambda>f _. fetched_from client url n cached f) (\<lambda>_ _. False)"
proof -
  let ?ask = "\<lambda>etag modified. \<lparr>rq_url = url, rq_if_none_match = etag, rq_if_modified_since = modified, rq_max_body_bytes = n\<rparr>"
  have ask: "returns (\<lambda>_. True) (d_try (client (?ask etag modified)))
      (\<lambda>r _. \<forall>response. r = Inr response \<longrightarrow> answered_by client url n response) (\<lambda>_ _. False)" for etag modified
    by (rule client_returns [OF assms]) simp_all
  show ?thesis
    unfolding conditional_refresh_def fetch_with_conditional_cache_def
  proof (rule returns_bind [OF ask], goal_cases)
    case (1 r)
    show ?case
    proof (cases r)
      case (Inr response)
      show ?thesis unfolding Inr sum.case
      proof (rule returns_if)
        show "returns (\<lambda>_. \<forall>answer. Inr response = Inr answer \<longrightarrow> answered_by client url n answer) (d_ok (FetchedNetwork response))
            (\<lambda>f _. fetched_from client url n cached f) (\<lambda>_ _. False)"
          by (auto intro!: returns_ok simp: fetched_from_def)
      next
        assume "\<not> rs_status response \<noteq> 304"
        moreover have "returns (\<lambda>_. True) (d_bind (d_try (client (?ask None None))) (\<lambda>r.
            d_ok (case r of Inr response \<Rightarrow> FetchedNetwork response | Inl _ \<Rightarrow> FetchFallback)))
            (\<lambda>f _. fetched_from client url n cached f) (\<lambda>_ _. False)"
          by (rule returns_bind [OF ask]) (auto intro!: returns_ok simp: fetched_from_def split: sum.split)
        ultimately show "returns (\<lambda>_. \<forall>answer. Inr response = Inr answer \<longrightarrow> answered_by client url n answer)
            (if lc_networks cached \<noteq> None then d_ok FetchNotModified
             else d_bind (d_try (client (?ask None None))) (\<lambda>r.
               d_ok (case r of Inr response \<Rightarrow> FetchedNetwork response | Inl _ \<Rightarrow> FetchFallback)))
            (\<lambda>f _. fetched_from client url n cached f) (\<lambda>_ _. False)"
          by (intro returns_if) (auto intro!: returns_ok simp: fetched_from_def elim: returns_pre [rotated])
      qed
    qed (auto intro!: returns_ok simp: fetched_from_def)
  qed
qed

end

lemma returns_fact: "(Q \<Longrightarrow> returns (\<lambda>_. True) m R E) \<Longrightarrow> returns (\<lambda>_. Q) m R E"
  by (simp add: returns_def)

lemma returns_never_fails:
  assumes "returns (\<lambda>_. True) m (\<lambda>x _. Q x) (\<lambda>_ _. False)"
  shows "\<exists>x s'. m s = Some (Inr x, s') \<and> Q x"
proof -
  obtain r s' where "m s = Some (r, s')" "case r of Inl e \<Rightarrow> False | Inr x \<Rightarrow> Q x"
    using returns_imp [OF assms TrueI, of s] by blast
  then show ?thesis by (cases r) auto
qed

context remote_store
begin

lemma prepare_returns:
  assumes "plain_dir dir" "client_law client files"
  shows "returns (\<lambda>s. files s = F) (prepare_iplist_with_cache_limit h client url dir env max_elem limit)
    (\<lambda>p _. \<exists>cached. settled client url (max_http_body_bytes env) (RemoteFeedLimits_from_maxelem max_elem) cached p
      \<and> (\<forall>networks. lc_networks cached = Some networks \<longrightarrow>
          cached_on_disk h F dir url (RemoteFeedLimits_from_maxelem max_elem) networks)) (\<lambda>_ _. True)"
  unfolding prepare_iplist_with_cache_limit_def Let_def
proof (rule returns_bind [OF returns_weaken [OF cleanup_keeps [OF plain_store [OF assms(1)]]]], assumption, assumption, simp)
  let ?limits = "RemoteFeedLimits_from_maxelem max_elem"
  let ?ok = "\<lambda>cached. \<forall>networks. lc_networks cached = Some networks \<longrightarrow> cached_on_disk h F dir url ?limits networks"
  let ?ctx = "\<lparr>rr_url = url, rr_cache_dir = dir, rr_max_bytes = max_http_body_bytes env, rr_previous_generation = None,
           rr_feed_limits = ?limits, rr_max_iplist_bytes = limit\<rparr>"
  have settle: "returns (\<lambda>_. ?ok cached) (d_bind (conditional_refresh client url (max_http_body_bytes env) cached) (settle_refresh h ?ctx cached))
     (\<lambda>p _. \<exists>cached. settled client url (max_http_body_bytes env) ?limits cached p \<and> ?ok cached) (\<lambda>_ _. True)" for cached
  proof (cases "?ok cached")
    case True
    show ?thesis
      by (rule returns_pre [where P = "\<lambda>_. True", OF TrueI], rule returns_bind [OF returns_weaken [OF fetch_returns [OF assms(2)]]], simp, assumption, simp,
          rule returns_fact, rule returns_weaken [OF settle_returns [where n = "max_http_body_bytes env" and limits = ?limits
            and client = client and url = url]])
        (use assms(1) True in auto)
  qed (unfold returns_def, blast)
  show "returns (\<lambda>s. \<forall>q \<in> kept_store h F (remote_generation_store h dir url). files s q = F q)
    (d_bind (read_remote_cache h dir url (cache_paths_for_url h dir url) MAX_HTTP_BODY_BYTES ?limits) (\<lambda>cached.
       d_bind (conditional_refresh client url (max_http_body_bytes env) cached) (settle_refresh h ?ctx cached)))
     (\<lambda>p _. \<exists>cached. settled client url (max_http_body_bytes env) ?limits cached p \<and> ?ok cached) (\<lambda>_ _. True)"
  proof (rule returns_bind [OF _ settle],
      rule returns_view [where v = files and Q = "\<lambda>G. \<forall>q \<in> kept_store h F (remote_generation_store h dir url). G q = F q"])
    fix G assume G: "\<forall>q \<in> kept_store h F (remote_generation_store h dir url). G q = F q"
    show "returns (\<lambda>s. files s = G) (read_remote_cache h dir url (cache_paths_for_url h dir url) MAX_HTTP_BODY_BYTES ?limits)
        (\<lambda>cached _. ?ok cached) (\<lambda>_ _. True)"
      by (rule returns_weaken [OF reads_cache [unfolded reads_def]]) (use on_disk_kept [OF assms(1) G] in auto)
  qed
qed

lemma prepare_after_read:
  assumes "plain_dir dir" "client_law client files"
    and "cleanup_unselected_generations h (remote_generation_store h dir url) s = Some (Inr () :: http_cache_error + unit, s1)"
    and "read_remote_cache h dir url (cache_paths_for_url h dir url) MAX_HTTP_BODY_BYTES (RemoteFeedLimits_from_maxelem max_elem) s1
      = Some (Inr cached, s2)"
    and "lc_networks cached = Some networks"
  shows "\<exists>p s'. prepare_iplist_with_cache_limit h client url dir env max_elem limit s = Some (Inr p, s')
    \<and> (ci_source (pc_loaded p) = OriginNetwork \<or> ci_networks (pc_loaded p) = networks)"
proof -
  let ?limits = "RemoteFeedLimits_from_maxelem max_elem"
  let ?ctx = "\<lparr>rr_url = url, rr_cache_dir = dir, rr_max_bytes = max_http_body_bytes env, rr_previous_generation = None,
           rr_feed_limits = ?limits, rr_max_iplist_bytes = limit\<rparr>"
  let ?rest = "d_bind (conditional_refresh client url (max_http_body_bytes env) cached) (settle_refresh h ?ctx cached)"
  have run: "prepare_iplist_with_cache_limit h client url dir env max_elem limit s = ?rest s2"
    using assms(3,4) by (simp add: prepare_iplist_with_cache_limit_def Let_def d_bind_def)
  have "returns (\<lambda>_. True) ?rest (\<lambda>p _. settled client url (max_http_body_bytes env) ?limits cached p) (\<lambda>_ _. False)"
    by (rule returns_bind [OF fetch_returns [OF assms(2)]], rule returns_fact,
        rule returns_weaken [OF settle_returns [where n = "max_http_body_bytes env" and limits = ?limits and cached = cached
          and client = client and url = url]])
      (use assms(1,5) in auto)
  from returns_never_fails [OF this, of s2] obtain p s' where "?rest s2 = Some (Inr p, s')"
    "settled client url (max_http_body_bytes env) ?limits cached p" by blast
  then show ?thesis using run assms(5) by (auto simp: settled_def Let_def split: cached_origin.splits)
qed

end

section \<open>What a refresh leaves on disk\<close>

text \<open>The files at \<open>A\<close> that exist stay.\<close>

definition retains :: "('s \<Rightarrow> file_map) \<Rightarrow> rstr set \<Rightarrow> 's \<Rightarrow> 's \<Rightarrow> bool" where
  "retains files A s s' \<longleftrightarrow> (\<forall>q \<in> A. \<forall>c. files s q = Some c \<longrightarrow> files s' q = Some c)"

interpretation retaining: step_preorder "retains files A"
  by unfold_locales (auto simp: retains_def)

lemma retains_keeps: "steps (keeps (only files A)) m \<Longrightarrow> steps (retains files A) m"
  by (erule steps_mono) (simp add: keeps_def only_same retains_def)

lemma retains_bind:
  assumes "yields (only files A) m Q" "\<And>x. Q x \<Longrightarrow> steps (retains files A) (f x)"
  shows "steps (retains files A) (d_bind m f)"
  unfolding steps_def
proof
  fix s
  obtain r s' where m: "m s = Some (r, s')" "only files A s' = only files A s" "\<forall>x. r = Inr x \<longrightarrow> Q x"
    using assms(1) unfolding yields_def by blast
  have kept: "retains files A s s'" using m(2) unfolding only_same retains_def by simp
  show "\<exists>r s'. d_bind m f s = Some (r, s') \<and> retains files A s s'"
  proof (cases r)
    case (Inr x)
    obtain r' t where "f x s' = Some (r', t)" "retains files A s' t"
      using assms(2) m(3) Inr unfolding steps_def by blast
    then show ?thesis using m(1) Inr kept retaining.trans by (auto simp: d_bind_def)
  qed (use m kept in \<open>simp add: d_bind_def\<close>)
qed

text \<open>All but the staging directories of a store.\<close>

definition not_staging :: "('s, 'z) cache_host_scheme \<Rightarrow> rstr \<Rightarrow> rstr set" where
  "not_staging h root = {q. \<forall>k. \<not> under (staging_path h (generations_root root) k) q}"

context cache_store
begin

lemmas retain_intros = retaining.steps_intros keeps_calls [THEN retains_keeps]

lemma retains_write_members:
  assumes "plain_dir root" "S = staging_path h (generations_root root) k"
  shows "steps (retains files (not_staging h root)) (write_members h S fs)"
proof (induction fs)
  case (Cons f fs)
  have p: "path_join S (gf_name f) \<notin> not_staging h root"
    using assms under_join [OF plain_staging [OF assms(1)]] by (auto simp: not_staging_def)
  show ?case unfolding write_members.simps
    by (intro retaining.steps_intros Cons keeps_create [OF p, THEN retains_keeps] keeps_write [OF p, THEN retains_keeps]
        keeps_calls(3) [THEN retains_keeps])
qed (simp add: retaining.steps_intros)

lemma retains_remove_staging:
  "S = staging_path h (generations_root root) k \<Longrightarrow> steps (retains files (not_staging h root)) (cd_remove_dir_all h S)"
  by (intro retains_keeps keeps_remove_dir) (auto simp: not_staging_def)

text \<open>A generation is moved to its place only if there is nothing.\<close>

lemma retains_publish:
  assumes S: "S = staging_path h (generations_root root) k"
  shows "steps (retains files (not_staging h root)) (publish_generation h (generations_root root) S fs i)"
proof -
  let ?dst = "path_join (generations_root root) i"
  let ?R = "\<lambda>F G. \<forall>q \<in> not_staging h root. \<forall>c. F q = Some c \<longrightarrow> G q = Some c"
  have moved: "returns (\<lambda>s. files s = F \<and> (\<forall>q. under ?dst q \<longrightarrow> F q = None))
      (d_bind (cd_rename_dir h S ?dst) (\<lambda>_. d_bind (fh_sync_directory h (generations_root root)) (\<lambda>_. d_ok (True, None))))
      (\<lambda>_ s. ?R F (files s)) (\<lambda>_ s. ?R F (files s))" for F
  proof (rule returns_bind [where Q = "\<lambda>_ s. ?R F (files s)"])
    show "returns (\<lambda>s. files s = F \<and> (\<forall>q. under ?dst q \<longrightarrow> F q = None)) (cd_rename_dir h S ?dst)
        (\<lambda>_ s. ?R F (files s)) (\<lambda>_ s. ?R F (files s))"
    proof (cases "\<forall>q. under ?dst q \<longrightarrow> F q = None")
      case True
      then have "?R F (moved_dir S ?dst F)" using S by (auto simp: moved_dir_def not_staging_def)
      then show ?thesis by (intro returns_weaken [OF rename_dir_returns]) auto
    qed (auto simp: returns_def)
    have "returns (\<lambda>s. ?R F (files s)) (fh_sync_directory h d) (\<lambda>_ s. ?R F (files s)) (\<lambda>_ s. ?R F (files s))" for d
      by (rule returns_view [where v = files and Q = "?R F"]) (rule returns_weaken [OF quiet_calls(4)], auto)
    then show "returns (\<lambda>s. ?R F (files s)) (d_bind (fh_sync_directory h (generations_root root)) (\<lambda>_. d_ok (True, None)))
        (\<lambda>_ s. ?R F (files s)) (\<lambda>_ s. ?R F (files s))"
      by (rule returns_bind) (rule returns_ok)
  qed
  have there: "returns (\<lambda>s. files s = F) (d_bind (generation_contents_match h c ls) (\<lambda>same.
        if same then d_bind (cd_remove_dir_all h S) (\<lambda>_. d_ok (False, None)) else d_ok (False, Some (S, ls))))
      (\<lambda>_ s. ?R F (files s)) (\<lambda>_ s. ?R F (files s))" for F c ls
  proof -
    have "steps (retains files (not_staging h root)) (d_bind (generation_contents_match h c ls) (\<lambda>same.
        if same then d_bind (cd_remove_dir_all h S) (\<lambda>_. d_ok (False, None)) else d_ok (False, Some (S, ls))))"
      by (intro retaining.steps_intros retains_keeps [OF keeps_match] retains_remove_staging [OF S])
    then show ?thesis unfolding steps_def retains_def returns_def by (force split: sum.split)
  qed
  show ?thesis unfolding retains_def publish_generation_def Let_def
    by (rule steps_returns [where v = files and R = ?R], rule returns_bind [OF returns_weaken [OF try_exists_returns]],
        assumption, assumption, simp, rule returns_if [OF returns_pre [OF _ there] returns_pre [OF _ moved]]) auto
qed

lemma retains_stage:
  assumes "plain_dir root"
  shows "steps (retains files (not_staging h root)) (stage_generation h root fs prev)"
proof -
  let ?fs = "sort_key gf_name fs" and ?root = "generations_root root" and ?R = "retains files (not_staging h root)"
  have body: "steps ?R (d_bind (d_try (
       d_bind (write_members h S ?fs) (\<lambda>_. d_bind (fh_sync_directory h S) (\<lambda>_.
       d_bind (publish_generation h ?root S ?fs i) (\<lambda>(remove_on_drop, repair).
       d_bind (generation_candidates h root) (\<lambda>selected.
         d_ok \<lparr>sg_store_root = root, sg_generation_id = i,
           sg_previous = effective_previous selected prev i, sg_remove_on_drop = remove_on_drop,
           sg_promoted = False, sg_repair = repair\<rparr>)))))) (\<lambda>result. case result of
       Inl e \<Rightarrow> d_bind (d_try (cd_remove_dir_all h S)) (\<lambda>_. d_err e) | Inr sg \<Rightarrow> d_ok sg))"
    if S: "S = staging_path h ?root k" for S k i
  proof (rule retaining.steps_bind)
    show "steps ?R (case result of Inl e \<Rightarrow> d_bind (d_try (cd_remove_dir_all h S)) (\<lambda>_. d_err e) | Inr sg \<Rightarrow> d_ok sg)"
      for result :: "io_error + staged_generation"
      by (cases result) (auto intro!: retaining.steps_intros retains_remove_staging [OF S])
    have "steps ?R (case x of (remove_on_drop, repair) \<Rightarrow> d_bind (generation_candidates h root) (\<lambda>selected.
        d_ok \<lparr>sg_store_root = root, sg_generation_id = i,
           sg_previous = effective_previous selected prev i, sg_remove_on_drop = remove_on_drop,
           sg_promoted = False, sg_repair = repair\<rparr>))" for x
      by (cases x) (auto intro!: retaining.steps_intros retains_keeps [OF keeps_candidates])
    then show "steps ?R (d_try (d_bind (write_members h S ?fs) (\<lambda>_. d_bind (fh_sync_directory h S) (\<lambda>_.
       d_bind (publish_generation h ?root S ?fs i) (\<lambda>(remove_on_drop, repair).
       d_bind (generation_candidates h root) (\<lambda>selected.
         d_ok \<lparr>sg_store_root = root, sg_generation_id = i,
           sg_previous = effective_previous selected prev i, sg_remove_on_drop = remove_on_drop,
           sg_promoted = False, sg_repair = repair\<rparr>))))))"
      by (intro retaining.steps_try retaining.steps_bind retains_write_members [OF assms S] retains_publish [OF S]
          keeps_calls(4) [THEN retains_keeps])
  qed
  show ?thesis unfolding stage_generation_def Let_def
    by (intro retaining.steps_if retaining.steps_err retaining.steps_bind [OF keeps_calls(5) [THEN retains_keeps]]
        retains_bind [OF yields_staging]) (use body in blast)
qed

end

context remote_store
begin

lemma staging_under:
  assumes "plain_dir root" "\<not> under (generations_root root) q"
  shows "q \<in> not_staging h root"
  unfolding not_staging_def
proof (intro CollectI allI notI)
  fix k assume "under (staging_path h (generations_root root) k) q"
  moreover have "under (generations_root root) (staging_path h (generations_root root) k)"
    unfolding staging_path_def by (rule under_join [OF plain_generations [OF assms(1)]])
  ultimately show False using under_trans assms(2) by blast
qed

lemma generation_not_staging:
  assumes "plain_dir root" "is_generation_id i"
  shows "path_join (generation_dir root i) n \<in> not_staging h root"
  unfolding not_staging_def
proof (intro CollectI allI notI)
  fix k assume "under (staging_path h (generations_root root) k) (path_join (generation_dir root i) n)"
  then obtain f where "under (path_join (generations_root root) (46 # f)) (path_join (generation_dir root i) n)" "47 \<notin> set f"
    using staging_name [of h "generations_root root" k] by auto
  moreover have "under (generation_dir root i) (path_join (generation_dir root i) n)"
    by (rule under_join [OF plain_join [OF plain_generations [OF assms(1)] hex_plain [OF assms(2)]]])
  moreover have "47 \<notin> set i" using hex_plain [OF assms(2)] by (simp add: plain_name_def)
  ultimately have "i = 46 # f" using under_siblings [OF plain_generations [OF assms(1)]] by simp
  then show False using hex_no_dot [OF assms(2)] by blast
qed

text \<open>Usable data stays usable when the files it is in stay.\<close>

lemma on_disk_retained:
  assumes "plain_dir dir"
    and G: "\<forall>q \<in> kept_store h F (remote_generation_store h dir url) \<inter> not_staging h (remote_generation_store h dir url).
      \<forall>c. F q = Some c \<longrightarrow> G q = Some c"
    and disk: "cached_on_disk h F dir url limits networks"
  shows "cached_on_disk h G dir url limits networks"
  using disk unfolding cached_on_disk_def
proof (elim disjE bexE exE conjE)
  let ?root = "remote_generation_store h dir url"
  note store = plain_store [OF assms(1), of url]
  fix i
  assume i: "i \<in> set (selection h F ?root)" and g: "generation_on_disk h F (generation_dir ?root i) i url limits networks"
  have id: "is_generation_id i" by (rule selection_valid [OF i])
  have d: "plain_dir (generation_dir ?root i)" by (rule plain_join [OF plain_generations [OF store] hex_plain [OF id]])
  have member: "F (path_join (generation_dir ?root i) n) = Some c \<Longrightarrow> G (path_join (generation_dir ?root i) n) = Some c" for n c
    using G generation_not_staging [OF store id, of n] under_join [OF d, of n] i unfolding kept_store_def by blast
  have manifest: "F (manifest_path ?root) = Some c \<Longrightarrow> G (manifest_path ?root) = Some c" for c
    using G manifest_not_under [OF store] staging_under [OF store] unfolding kept_store_def by blast
  then have "i \<in> set (selection h G ?root)" 
    using i by (cases "F (manifest_path ?root)") (simp_all add: selection_def)
  moreover have "generation_on_disk h G (generation_dir ?root i) i url limits networks"
    using g member unfolding generation_on_disk_def by blast
  ultimately show "(\<exists>i\<in>set (selection h G ?root). generation_on_disk h G (generation_dir ?root i) i url limits networks)
      \<or> (\<exists>t. G (cp_iplist_path (cache_paths_for_url h dir url)) = Some (Utf8 t) \<and> parse_cached_iplist_bounded t limits = Inr networks)"
    by blast
next
  fix t
  assume t: "F (cp_iplist_path (cache_paths_for_url h dir url)) = Some (Utf8 t)" "parse_cached_iplist_bounded t limits = Inr networks"
  then have "G (cp_iplist_path (cache_paths_for_url h dir url)) = Some (Utf8 t)"
    using G legacy_outside(1) [OF assms(1)] staging_under [OF plain_store [OF assms(1)]] unfolding kept_store_def by blast
  with t(2) show "(\<exists>i\<in>set (selection h G (remote_generation_store h dir url)).
        generation_on_disk h G (generation_dir (remote_generation_store h dir url) i) i url limits networks)
      \<or> (\<exists>t. G (cp_iplist_path (cache_paths_for_url h dir url)) = Some (Utf8 t) \<and> parse_cached_iplist_bounded t limits = Inr networks)"
    by blast
qed

lemma retains_quiet:
  assumes "\<And>F. returns (\<lambda>s. files s = F) m (\<lambda>_ s. files s = F) (\<lambda>_ s. files s = F)"
  shows "steps (retains files A) m"
  by (rule retains_keeps, rule keepsI, rule returns_weaken [OF assms]) auto

lemma retains_settle:
  assumes "plain_dir (rr_cache_dir ctx)"
  shows "steps (retains files (not_staging h (remote_generation_store h (rr_cache_dir ctx) (rr_url ctx))))
    (settle_refresh h ctx cached fetched)"
proof -
  have stage: "steps (retains files (not_staging h (remote_generation_store h (rr_cache_dir ctx) (rr_url ctx))))
      (stage_cache h (rr_cache_dir ctx) (rr_url ctx) iplist raw meta prev limit)" for iplist raw meta prev limit
    unfolding stage_cache_def Let_def by (intro retaining.steps_intros retains_stage plain_store assms)
  show ?thesis
    unfolding settle_refresh_def handle_network_response_def Let_def
    by (cases fetched) (auto intro!: retaining.steps_intros stage split: option.split sum.split)
qed

lemma retains_fetch:
  assumes "client_law client files"
  shows "steps (retains files A) (conditional_refresh client url n cached)"
proof -
  have "steps (retains files A) (client rq)" for rq
    using assms unfolding client_law_def by (intro retains_quiet) blast
  then show ?thesis unfolding conditional_refresh_def fetch_with_conditional_cache_def
    by (auto intro!: retaining.steps_intros split: sum.split)
qed

text \<open>No refresh loses usable data from the disk.\<close>

lemma prepare_retains:
  assumes "plain_dir dir" "client_law client files"
    and run: "prepare_iplist_with_cache_limit h client url dir env max_elem limit s = Some (r, s')"
    and disk: "cached_on_disk h (files s) dir url limits networks"
  shows "cached_on_disk h (files s') dir url limits networks"
proof -
  let ?root = "remote_generation_store h dir url"
  let ?R = "retains files (kept_store h (files s) ?root \<inter> not_staging h ?root)"
  let ?limits = "RemoteFeedLimits_from_maxelem max_elem"
  let ?ctx = "\<lparr>rr_url = url, rr_cache_dir = dir, rr_max_bytes = max_http_body_bytes env, rr_previous_generation = None,
           rr_feed_limits = ?limits, rr_max_iplist_bytes = limit\<rparr>"
  have less: "steps (retains files (not_staging h ?root)) m \<Longrightarrow> steps ?R m" for m :: "('s, http_cache_error, 'x) dact"
    by (erule steps_mono) (auto simp: retains_def)
  have read: "steps ?R (read_remote_cache h dir url (cache_paths_for_url h dir url) MAX_HTTP_BODY_BYTES ?limits)"
    by (rule retains_quiet, rule returns_weaken [OF reads_cache [unfolded reads_def]]) auto
  have rest: "steps ?R (d_bind (read_remote_cache h dir url (cache_paths_for_url h dir url) MAX_HTTP_BODY_BYTES ?limits) (\<lambda>cached.
      d_bind (conditional_refresh client url (max_http_body_bytes env) cached) (settle_refresh h ?ctx cached)))"
    by (intro retaining.steps_bind read retains_fetch [OF assms(2)] less retains_settle [of ?ctx, simplified] assms(1))
  obtain r1 s1 where c: "cleanup_unselected_generations h ?root s = Some (r1 :: http_cache_error + unit, s1)"
      "\<forall>q \<in> kept_store h (files s) ?root. files s1 q = files s q"
    using returns_imp [where s = s, OF cleanup_keeps [OF plain_store [OF assms(1), of url]] refl] by (auto split: sum.splits)
  have "?R s s'"
  proof (cases r1)
    case (Inl e)
    then show ?thesis using run c
      by (simp add: prepare_iplist_with_cache_limit_def Let_def d_bind_def retains_def)
  next
    case (Inr u)
    then have "?R s1 s'"
      using run c(1) rest [unfolded steps_def, rule_format, of s1]
      by (auto simp: prepare_iplist_with_cache_limit_def Let_def d_bind_def)
    then show ?thesis using c(2) by (simp add: retains_def)
  qed
  then show ?thesis using on_disk_retained [OF assms(1) _ disk] unfolding retains_def by blast
qed

end

section \<open>Reads that depend on what they read\<close>

text \<open>
  A quiet disk and a steady client: opening and reading a file answers what is at its path and
  changes nothing, and a request is answered alike whenever it is made.
\<close>

definition steady_reads :: "('s, 'z) file_host_scheme \<Rightarrow> ('s \<Rightarrow> file_map) \<Rightarrow> bool" where
  "steady_reads h files \<longleftrightarrow> (\<forall>p n.
     (\<exists>answer. \<forall>s. \<exists>s'. fh_open_regular h p s = Some (answer (files s p), s') \<and> files s' = files s)
   \<and> (\<exists>answer. \<forall>s. \<exists>s'. fh_read h p n s = Some (answer (files s p), s') \<and> files s' = files s))"

definition steady_client :: "'s http_client \<Rightarrow> ('s \<Rightarrow> file_map) \<Rightarrow> bool" where
  "steady_client client files \<longleftrightarrow> (\<forall>rq. \<exists>answer. \<forall>s. \<exists>s'. client rq s = Some (answer, s') \<and> files s' = files s)"

text \<open>In every state with the files of \<open>F\<close> at \<open>A\<close> the action has one and the same outcome, changes no
  file, and its value satisfies \<open>Q\<close>.\<close>

definition sees :: "('s \<Rightarrow> file_map) \<Rightarrow> file_map \<Rightarrow> rstr set \<Rightarrow> ('s, 'e, 'a) dact \<Rightarrow> ('a \<Rightarrow> bool) \<Rightarrow> bool" where
  "sees files F A m Q \<longleftrightarrow> (\<exists>out. (\<forall>s. (\<forall>q \<in> A. files s q = F q) \<longrightarrow> (\<exists>s'. m s = Some (out, s') \<and> files s' = files s))
     \<and> (\<forall>x. out = Inr x \<longrightarrow> Q x))"

lemma sees_bind:
  assumes "sees files F A m Q" "\<And>x. Q x \<Longrightarrow> sees files F A (f x) R"
  shows "sees files F A (d_bind m f) R"
proof -
  obtain out where out: "\<And>s. \<forall>q \<in> A. files s q = F q \<Longrightarrow> \<exists>s'. m s = Some (out, s') \<and> files s' = files s"
    "\<forall>x. out = Inr x \<longrightarrow> Q x" using assms(1) unfolding sees_def by blast
  show ?thesis
  proof (cases out)
    case (Inl e)
    have "\<exists>s'. d_bind m f s = Some (Inl e, s') \<and> files s' = files s" if "\<forall>q \<in> A. files s q = F q" for s
      using out(1) [OF that] Inl by (auto simp: d_bind_def)
    then show ?thesis unfolding sees_def by (intro exI [of _ "Inl e"]) simp
  next
    case (Inr x)
    then obtain out' where out': "\<And>s. \<forall>q \<in> A. files s q = F q \<Longrightarrow> \<exists>s'. f x s = Some (out', s') \<and> files s' = files s"
      "\<forall>y. out' = Inr y \<longrightarrow> R y" using assms(2) out(2) unfolding sees_def by blast
    have "\<exists>s'. d_bind m f s = Some (out', s') \<and> files s' = files s" if A: "\<forall>q \<in> A. files s q = F q" for s
    proof -
      obtain s1 where s1: "m s = Some (Inr x, s1)" "files s1 = files s" using out(1) [OF A] Inr by blast
      then obtain s2 where "f x s1 = Some (out', s2)" "files s2 = files s1" using out'(1) [of s1] A by auto
      with s1 show ?thesis by (simp add: d_bind_def)
    qed
    then show ?thesis unfolding sees_def using out'(2) by blast
  qed
qed

lemma sees_res: "(\<And>x. r = Inr x \<Longrightarrow> Q x) \<Longrightarrow> sees files F A (d_res r) Q"
  unfolding sees_def d_res_def by blast

lemma sees_ok: "Q x \<Longrightarrow> sees files F A (d_ok x) Q"
  unfolding sees_def d_ok_def by blast

lemma sees_err: "sees files F A (d_err e) Q"
  unfolding sees_def d_err_def by blast

lemma sees_try: "sees files F A m Q \<Longrightarrow> sees files F A (d_try m) (\<lambda>r. \<forall>x. r = Inr x \<longrightarrow> Q x)"
  unfolding sees_def d_try_def by fastforce

lemma sees_if: "(b \<Longrightarrow> sees files F A m Q) \<Longrightarrow> (\<not> b \<Longrightarrow> sees files F A m' Q) \<Longrightarrow> sees files F A (if b then m else m') Q"
  by simp

lemma sees_any: "sees files F A m Q \<Longrightarrow> sees files F A m (\<lambda>_. True)"
  unfolding sees_def by blast

text \<open>What is known of a read holds of the outcome.\<close>

lemma sees_reads:
  assumes "sees files (files s) A m Q" "reads files (files s) m R"
  shows "sees files (files s) A m R"
proof -
  obtain out where out: "\<And>t. \<forall>q \<in> A. files t q = files s q \<Longrightarrow> \<exists>t'. m t = Some (out, t') \<and> files t' = files t"
    using assms(1) unfolding sees_def by blast
  obtain r t where "m s = Some (r, t)" "\<forall>x. r = Inr x \<longrightarrow> R x"
    using returns_imp [OF assms(2) [unfolded reads_def] refl] by (metis sum.case(2))
  then have "\<forall>x. out = Inr x \<longrightarrow> R x" using out [of s] by auto
  then show ?thesis unfolding sees_def using out by blast
qed

lemma sees_bytes:
  assumes "steady_reads h files" "p \<in> A"
  shows "sees files F A (read_bytes_with_limit h p n) (\<lambda>_. True)"
proof -
  obtain opened where opened: "\<And>s. \<exists>s'. fh_open_regular h p s = Some (opened (files s p), s') \<and> files s' = files s"
    using assms(1) unfolding steady_reads_def by blast
  have calls: "sees files F A (fh_open_regular h p) (\<lambda>_. True)"
    unfolding sees_def using opened assms(2) by (intro exI [of _ "opened (F p)"]) (metis (no_types, lifting))
  have "sees files F A (fh_read h p k) (\<lambda>_. True)" for k
  proof -
    obtain answer where "\<And>s. \<exists>s'. fh_read h p k s = Some (answer (files s p), s') \<and> files s' = files s"
      using assms(1) unfolding steady_reads_def by blast
    then show ?thesis unfolding sees_def using assms(2) by (intro exI [of _ "answer (F p)"]) (metis (no_types, lifting))
  qed
  then show ?thesis unfolding read_bytes_with_limit_def read_to_end_with_limit_def Let_def
    by (intro sees_bind [OF calls] sees_if sees_err sees_bind [where Q = "\<lambda>_. True" and R = "\<lambda>_. True"] sees_ok) simp_all
qed

lemma sees_string:
  "steady_reads h files \<Longrightarrow> p \<in> A \<Longrightarrow> sees files F A (read_to_string_with_limit h p n) (\<lambda>_. True)"
  unfolding read_to_string_with_limit_def
  by (rule sees_bind [OF sees_bytes]) (auto intro!: sees_ok sees_err split: file_bytes.split)

lemma sees_optional:
  "steady_reads h files \<Longrightarrow> p \<in> A \<Longrightarrow> sees files F A (read_optional_bytes_lossy h p n) (\<lambda>_. True)"
  unfolding read_optional_bytes_lossy_def by (rule sees_bind [OF sees_try [OF sees_bytes]]) (auto intro!: sees_ok)

lemma sees_metadata:
  "steady_reads h files \<Longrightarrow> cp_meta_path paths \<in> A \<Longrightarrow> sees files F A (read_optional_metadata_lossy h paths) (\<lambda>_. True)"
  unfolding read_optional_metadata_lossy_def read_optional_json_lossy_def
  by (rule sees_bind [OF sees_optional]) (auto intro!: sees_ok)

lemma sees_validated:
  "steady_reads h files \<Longrightarrow> p \<in> A \<Longrightarrow> sees files F A (read_validated_bytes_lossy h p n e) (\<lambda>_. True)"
  unfolding read_validated_bytes_lossy_def by (rule sees_bind [OF sees_optional]) (auto intro!: sees_ok)

lemma sees_members:
  "steady_reads h files \<Longrightarrow> \<forall>f \<in> set fs. path_join d (gl_name f) \<in> A \<Longrightarrow> sees files F A (read_members h d fs) (\<lambda>_. True)"
proof (induction fs)
  case (Cons f fs)
  then show ?case unfolding read_members.simps
    by (intro sees_bind [OF sees_try [OF sees_bytes]]) (auto intro!: sees_ok sees_bind split: sum.split)
qed (simp add: sees_ok)

text \<open>The files of a generation.\<close>

definition members_in :: "rstr \<Rightarrow> rstr set \<Rightarrow> bool" where
  "members_in d A \<longleftrightarrow> path_join d (lit ''raw'') \<in> A \<and> path_join d (lit ''iplist'') \<in> A \<and> path_join d (lit ''meta.json'') \<in> A"

lemma sees_match:
  "steady_reads h files \<Longrightarrow> members_in (gc_directory c) A \<Longrightarrow>
     sees files F A (remote_generation_contents_match h c n) (\<lambda>_. True)"
  unfolding remote_generation_contents_match_def generation_contents_match_def members_in_def
  by (rule sees_bind [OF sees_members]) (auto intro!: sees_ok)

lemma sees_generation:
  assumes "steady_reads h files" "members_in d A"
  shows "sees files F A (read_validated_remote_generation h d url n) (\<lambda>_. True)"
proof -
  have paths: "cp_meta_path (generation_paths d) \<in> A" "cp_raw_path (generation_paths d) \<in> A" "cp_iplist_path (generation_paths d) \<in> A"
    using assms(2) by (simp_all add: members_in_def generation_paths_def)
  show ?thesis unfolding read_validated_remote_generation_def Let_def
    by (rule sees_bind [OF sees_metadata [OF assms(1) paths(1)]])
      (auto intro!: sees_ok sees_if sees_bind [OF sees_validated [OF assms(1) paths(2)]]
        sees_bind [OF sees_try [OF sees_string [OF assms(1) paths(3)]]] split: option.split)
qed

lemma sees_generations:
  assumes "steady_reads h files"
  shows "\<forall>c \<in> set cs. members_in (gc_directory c) A \<Longrightarrow> sees files F A (read_generations h url n limits cs) (\<lambda>_. True)"
proof (induction cs)
  case (Cons c cs)
  then show ?case unfolding read_generations.simps
    by (intro sees_bind [OF sees_match [OF assms]] sees_if sees_bind [OF sees_generation [OF assms]])
      (auto intro!: sees_ok split: option.split sum.split)
qed (simp add: sees_ok)

lemma sees_legacy:
  "steady_reads h files \<Longrightarrow> cp_iplist_path paths \<in> A \<Longrightarrow>
     sees files F A (read_optional_iplist_networks h paths metadata limits) (\<lambda>_. True)"
  unfolding read_optional_iplist_networks_def
  by (rule sees_bind [OF sees_try [OF sees_string]]) (auto intro!: sees_ok sees_err split: sum.split)

context remote_store
begin

text \<open>Reading the cache depends on what a clean-up keeps.\<close>

lemma sees_cache:
  assumes steady: "steady_reads h files" and dir: "plain_dir dir"
  shows "sees files (files s) (kept_store h (files s) (remote_generation_store h dir url))
    (read_remote_cache h dir url (cache_paths_for_url h dir url) n limits) (\<lambda>_. True)"
proof -
  let ?root = "remote_generation_store h dir url"
  let ?A = "kept_store h (files s) ?root"
  note store = plain_store [OF dir, of url]
  have "manifest_path ?root \<in> ?A" using manifest_not_under [OF store] by (simp add: kept_store_def)
  then have "sees files (files s) ?A (generation_candidates h ?root) (\<lambda>_. True)"
    unfolding generation_candidates_def by (intro sees_bind [OF sees_try [OF sees_bytes [OF steady]]] sees_ok) simp_all
  note candidates = sees_reads [OF this reads_candidates]
  have members: "members_in (gc_directory c) ?A"
    if "gc_id c \<in> set (selection h (files s) ?root)" "gc_directory c = generation_dir ?root (gc_id c)" for c
  proof -
    have "plain_dir (generation_dir ?root (gc_id c))"
      using plain_join [OF plain_generations [OF store]] hex_plain [OF selection_valid [OF that(1)]] by blast
    then show ?thesis using under_join that by (auto simp: members_in_def kept_store_def)
  qed
  have legacy: "cp_iplist_path (cache_paths_for_url h dir url) \<in> ?A" "cp_meta_path (cache_paths_for_url h dir url) \<in> ?A"
    using legacy_outside [OF dir] by (simp_all add: kept_store_def)
  show ?thesis unfolding read_remote_cache_def
  proof (rule sees_bind [OF candidates], rule sees_bind [OF sees_generations [OF steady]], use members in blast)
    show "sees files (files s) ?A (case found of Some loaded \<Rightarrow> d_ok loaded
       | None \<Rightarrow> d_bind (read_optional_metadata_lossy h (cache_paths_for_url h dir url)) (\<lambda>metadata.
           d_bind (read_optional_iplist_networks h (cache_paths_for_url h dir url) metadata limits) (\<lambda>networks.
             d_ok \<lparr>lc_networks = networks, lc_metadata = metadata, lc_generation_id = None\<rparr>))) (\<lambda>_. True)" for found
      by (auto intro!: sees_ok sees_bind [OF sees_metadata [OF steady legacy(2)]] sees_bind [OF sees_legacy [OF steady legacy(1)]]
          split: option.split)
  qed
qed

end

text \<open>A clean-up reports no error.\<close>

definition unfailing :: "('s, 'e, 'a) dact \<Rightarrow> bool" where
  "unfailing m \<longleftrightarrow> (\<forall>s e s'. m s \<noteq> Some (Inl e, s'))"

lemma unfailing_intros:
  "unfailing (d_ok x)" "unfailing (d_try m')" "unfailing m \<Longrightarrow> (\<And>x. unfailing (f x)) \<Longrightarrow> unfailing (d_bind m f)"
  by (auto simp: unfailing_def d_ok_def d_try_def d_bind_def split: option.splits sum.splits)

lemma cleanup_unfailing: "unfailing (cleanup_unselected_generations h root)"
proof -
  have "unfailing (remove_unkept h dir keep names)" for dir keep names
    by (induction names) (auto intro!: unfailing_intros)
  then have "unfailing (remove_generations h dir keep)" for dir keep
    unfolding remove_generations_def by (auto intro!: unfailing_intros split: sum.split)
  then show ?thesis unfolding cleanup_unselected_generations_def prune_generations_def generation_candidates_def
    by (auto intro!: unfailing_intros split: list.split)
qed

text \<open>A steady fetch.\<close>

lemma steady_fetch:
  assumes "steady_client client files"
  shows "sees files F A (conditional_refresh client url n cached :: ('s, 'e, conditional_fetch_result) dact) (\<lambda>_. True)"
proof -
  have "sees files F A (client rq) (\<lambda>_. True)" for rq
    using assms unfolding steady_client_def sees_def by blast
  note ask = sees_bind [OF sees_try [OF this]]
  show ?thesis unfolding conditional_refresh_def fetch_with_conditional_cache_def
    by (rule ask) (auto intro!: sees_ok sees_if ask split: sum.split)
qed

lemma steady_client_law: "steady_client client files \<Longrightarrow> client_law client files"
  unfolding steady_client_def client_law_def returns_def by (fastforce split: sum.split)

section \<open>Properties\<close>

text \<open>\<open>remote_provenance\<close> of \<^verbatim>\<open>sync_sources.rs\<close>.\<close>

definition remote_provenance :: "cached_origin \<Rightarrow> source_provenance" where
  "remote_provenance source = (case source of OriginNetwork \<Rightarrow> NetworkSource | OriginNotModified \<Rightarrow> CacheSource
     | OriginFallback \<Rightarrow> FallbackCache | OriginEmpty \<Rightarrow> Unavailable)"

text \<open>
  C11: A remote feed is only ever answered with validated data. Refreshing a feed returns whatever
  the HTTP client and the disk do. Fresh networks are those of an answer of the client to a
  request for this URL, with a success status, a body within the limit that parses, and they are
  staged; cached ones, which are reported unmodified only when the client answered so, are of a
  selected generation that is whole, bound to the URL and hashes to its name, or of the legacy
  list; nothing else gives networks. A refresh never loses usable data: whatever it answers, what
  the disk held of the feed it still holds; and when reading the cache gives data the refresh
  does not fail, and without a valid and staged answer it gives exactly that data.
\<close>

theorem refresh_answers_with_validated_data:
  assumes "file_law h files" "directory_law h files" "manifest_law h" "client_law client files" "plain_dir dir"
  shows "\<exists>r s'. prepare_iplist_with_cache h client url dir env max_elem s = Some (r, s')
    \<and> (\<forall>p. r = Inr p \<longrightarrow> (case ci_source (pc_loaded p) of
          OriginNetwork \<Rightarrow> pc_pending_promotion p \<noteq> None
            \<and> (\<exists>rq t t' response parsed. client rq t = Some (Inr response, t')
                 \<and> rq_url rq = url \<and> rq_max_body_bytes rq = max_http_body_bytes env
                 \<and> 200 \<le> rs_status response \<and> rs_status response < 300
                 \<and> byte_len (rs_body response) \<le> max_http_body_bytes env
                 \<and> parse_remote_cidrs_bounded (rs_body response) (RemoteFeedLimits_from_maxelem max_elem) = Inr parsed
                 \<and> (pr_data_lines parsed = 0 \<or> pr_networks parsed \<noteq> [])
                 \<and> ci_networks (pc_loaded p) = pr_networks parsed)
        | OriginNotModified \<Rightarrow> cached_on_disk h (files s) dir url (RemoteFeedLimits_from_maxelem max_elem) (ci_networks (pc_loaded p))
            \<and> (\<exists>rq t t' response. client rq t = Some (Inr response, t') \<and> rq_url rq = url \<and> rs_status response = 304)
        | OriginFallback \<Rightarrow> cached_on_disk h (files s) dir url (RemoteFeedLimits_from_maxelem max_elem) (ci_networks (pc_loaded p))
        | OriginEmpty \<Rightarrow> ci_networks (pc_loaded p) = []))
    \<and> (\<forall>limits networks. cached_on_disk h (files s) dir url limits networks
        \<longrightarrow> cached_on_disk h (files s') dir url limits networks)
    \<and> (\<forall>s1 s2 cached networks.
          cleanup_unselected_generations h (remote_generation_store h dir url) s = Some (Inr () :: http_cache_error + unit, s1)
        \<longrightarrow> read_remote_cache h dir url (cache_paths_for_url h dir url) MAX_HTTP_BODY_BYTES (RemoteFeedLimits_from_maxelem max_elem) s1
             = Some (Inr cached, s2)
        \<longrightarrow> lc_networks cached = Some networks
        \<longrightarrow> (\<exists>p. r = Inr p \<and> (ci_source (pc_loaded p) = OriginNetwork \<or> ci_networks (pc_loaded p) = networks)))"
proof -
  let ?limits = "RemoteFeedLimits_from_maxelem max_elem" and ?max = "max_http_body_bytes env"
  have store: "remote_store h files"
    by (intro remote_store.intro cache_storeI assms(1-3))
  obtain r s' where run: "prepare_iplist_with_cache h client url dir env max_elem s = Some (r, s')"
    and post: "case r of Inl e \<Rightarrow> True | Inr p \<Rightarrow> (\<exists>cached. settled client url ?max ?limits cached p
      \<and> (\<forall>networks. lc_networks cached = Some networks \<longrightarrow> cached_on_disk h (files s) dir url ?limits networks))"
    using returns_imp [OF remote_store.prepare_returns [OF store assms(5,4)] refl, of url env max_elem MAX_IPLIST_READ_BYTES s]
    unfolding prepare_iplist_with_cache_def by blast
  note run' = run [unfolded prepare_iplist_with_cache_def]
  show ?thesis
  proof (intro exI [of _ r] exI [of _ s'] conjI run, intro allI impI, goal_cases)
    case (1 p)
    then obtain cached where c: "settled client url ?max ?limits cached p"
      "\<forall>networks. lc_networks cached = Some networks \<longrightarrow> cached_on_disk h (files s) dir url ?limits networks" using post by auto
    show ?case
      using c unfolding settled_def Let_def valid_answer_def answered_by_def
      by (cases "ci_source (pc_loaded p)") (simp_all, blast+)
  next
    case 2
    show ?case using remote_store.prepare_retains [OF store assms(5,4) run'] by blast
  next
    case 3
    show ?case
      using remote_store.prepare_after_read [OF store assms(5,4), where env = env and limit = MAX_IPLIST_READ_BYTES] run'
      by (intro allI impI) fastforce
  qed
qed

text \<open>A conditional fetch has no error of its own.\<close>

lemma refresh_infallible:
  "(conditional_refresh client url n cached s :: (('a + conditional_fetch_result) \<times> 's) option)
     = map_option (map_prod (Inr \<circ> projr) (\<lambda>t. t)) (conditional_refresh client url n cached s :: ((unit + conditional_fetch_result) \<times> 's) option)"
  unfolding conditional_refresh_def fetch_with_conditional_cache_def d_bind_def d_try_def d_ok_def
  by (auto split: option.split sum.split)

text \<open>Both workflows settle what they have read and fetched alike, but for a response that is valid
  and cannot be staged.\<close>

definition not_staged ::
    "('s, 'z) remote_host_scheme \<Rightarrow> 's http_client \<Rightarrow> rstr \<Rightarrow> rstr \<Rightarrow> nat \<Rightarrow> RemoteFeedLimits \<Rightarrow> canonical_cidr list
     \<Rightarrow> http_cache_error \<Rightarrow> bool" where
  "not_staged h client url dir n limits networks e \<longleftrightarrow> (\<exists>response parsed meta previous t t'.
     answered_by client url n response
   \<and> 200 \<le> rs_status response \<and> rs_status response < 300 \<and> byte_len (rs_body response) \<le> n
   \<and> parse_remote_cidrs_bounded (rs_body response) limits = Inr parsed \<and> networks = pr_networks parsed
   \<and> utf8_len (format_normalized_cidrs networks) \<le> MAX_IPLIST_READ_BYTES
   \<and> stage_cache h dir url (format_normalized_cidrs networks) (rs_body response) meta previous MAX_IPLIST_READ_BYTES t
       = Some (Inl e, t'))"

lemma not_stagedI:
  assumes "answered_by client url n response" "validate_remote_response response n limits = Some v"
    and "utf8_len (vr_normalized v) \<le> MAX_IPLIST_READ_BYTES"
    and "stage_cache h dir url (vr_normalized v) (rs_body response) meta previous MAX_IPLIST_READ_BYTES t = Some (Inl e, t')"
  shows "not_staged h client url dir n limits (vr_networks v) e"
proof -
  obtain parsed where p: "200 \<le> rs_status response" "rs_status response < 300" "byte_len (rs_body response) \<le> n"
    "parse_remote_cidrs_bounded (rs_body response) limits = Inr parsed" "vr_networks v = pr_networks parsed"
    "vr_normalized v = format_normalized_cidrs (pr_networks parsed)"
    using assms(2) by (auto simp: validate_remote_response_def is_success_def split: if_splits sum.splits)
  show ?thesis unfolding not_staged_def p(5)
    by (rule exI [of _ response], rule exI [of _ parsed], rule exI [of _ meta], rule exI [of _ previous], rule exI [of _ t],
        rule exI [of _ t'], intro conjI assms(1) p(1-4) refl assms(3,4) [unfolded p(6)])
qed

definition previewed ::
    "(http_cache_error + prepared_cached_iplist) \<Rightarrow> (canonical_cidr list \<Rightarrow> http_cache_error \<Rightarrow> bool)
     \<Rightarrow> (read_only_iplist_error + read_only_iplist) \<Rightarrow> bool" where
  "previewed r unstaged q \<longleftrightarrow> (case r of
       Inl e \<Rightarrow> q = Inl (CacheRead e)
         \<or> (\<exists>n path. q = Inl (NormalizedLimit n MAX_IPLIST_READ_BYTES) \<and> MAX_IPLIST_READ_BYTES < n \<and> e = WriteMetadata path (WriteIo InvalidData))
         \<or> (\<exists>v. q = Inr v \<and> ro_provenance v = NetworkSource \<and> unstaged (ro_networks v) e)
     | Inr p \<Rightarrow> \<exists>v. q = Inr v \<and> (ro_networks v = ci_networks (pc_loaded p)
           \<and> ro_provenance v = remote_provenance (ci_source (pc_loaded p))
         \<or> ci_source (pc_loaded p) = OriginFallback \<and> ro_provenance v = NetworkSource \<and> (\<exists>e. unstaged (ro_networks v) e)))"

lemma settle_refresh_valid:
  assumes "validate_remote_response response (rr_max_bytes ctx) (rr_feed_limits ctx) = Some v"
    and "settle_refresh h ctx cached (FetchedNetwork response) t = Some (r, t')"
  obtains st meta previous where
    "stage_cache h (rr_cache_dir ctx) (rr_url ctx) (vr_normalized v) (rs_body response) meta previous (rr_max_iplist_bytes ctx) t = Some (st, t')"
    "\<And>e. st = Inl e \<Longrightarrow> r = (if lc_networks cached = None then Inl e else Inr (prepared_fallback (lc_networks cached) (lc_metadata cached)))"
    "\<And>sg. st = Inr sg \<Longrightarrow> \<exists>p. r = Inr p \<and> ci_networks (pc_loaded p) = vr_networks v \<and> ci_source (pc_loaded p) = OriginNetwork"
proof -
  let ?meta = "\<lparr>rm_url = rr_url ctx, rm_etag = rs_etag response, rm_last_modified = rs_last_modified response,
       rm_sha256_raw = sha256_hex h (rs_body response), rm_sha256_iplist = sha256_hex h (Utf8 (vr_normalized v))\<rparr>"
  let ?stage = "stage_cache h (rr_cache_dir ctx) (rr_url ctx) (vr_normalized v) (rs_body response) ?meta (lc_generation_id cached)
    (rr_max_iplist_bytes ctx)"
  have eq: "settle_refresh h ctx cached (FetchedNetwork response) t = d_bind (d_try ?stage) (\<lambda>staged. case staged of
             Inr promotion \<Rightarrow> d_ok \<lparr>pc_loaded = \<lparr>ci_networks = vr_networks v, ci_source = OriginNetwork,
                 ci_metadata = Some ?meta\<rparr>, pc_pending_promotion = Some promotion\<rparr>
           | Inl e \<Rightarrow> if lc_networks cached \<noteq> None then d_ok (prepared_fallback (lc_networks cached) (lc_metadata cached)) else d_err e) t"
    by (simp add: settle_refresh_def handle_network_response_def Let_def assms(1) del: not_None_eq)
  obtain st u where st: "?stage t = Some (st, u)"
    using assms(2) unfolding eq by (cases "?stage t") (auto simp: d_bind_def d_try_def)
  show thesis
    by (rule that [of ?meta "lc_generation_id cached" st])
      (use assms(2) st in \<open>auto simp: eq d_bind_def d_try_def d_ok_def d_err_def split: sum.splits if_splits\<close>)
qed

lemma fallback_agrees:
  "previewed (Inr (prepared_fallback (lc_networks cached) m)) unstaged (Inr (read_only_cached cached FallbackCache False))"
  "previewed (Inr (prepared_fallback (lc_networks cached) m)) unstaged
     (Inr (read_only_cached cached FallbackCache False\<lparr>ro_notices := ns\<rparr>))"
  by (simp_all add: previewed_def read_only_cached_def prepared_fallback_def cache_fallback_def remote_provenance_def split: option.split)

lemma settle_agrees:
  assumes settled: "settle_refresh h ctx cached fetched t = Some (r, t')" and asked: "fetched_from client url n cached fetched"
    and ctx: "rr_url ctx = url" "rr_cache_dir ctx = dir" "rr_max_bytes ctx = n" "rr_feed_limits ctx = limits"
      "rr_max_iplist_bytes ctx = MAX_IPLIST_READ_BYTES"
  shows "previewed r (not_staged h client url dir n limits) (settle_preview n limits MAX_IPLIST_READ_BYTES cached fetched)"
proof (cases fetched)
  case (FetchedNetwork response)
  have answered: "answered_by client url n response" using asked FetchedNetwork by (simp add: fetched_from_def)
  show ?thesis
  proof (cases "validate_remote_response response n limits")
    case None
    then have "r = Inr (prepared_fallback (lc_networks cached) (lc_metadata cached))"
      using settled FetchedNetwork ctx by (simp add: settle_refresh_def handle_network_response_def d_ok_def)
    then show ?thesis using fallback_agrees(1) None FetchedNetwork by (simp add: settle_preview_def)
  next
    case (Some v)
    then have valid: "validate_remote_response response (rr_max_bytes ctx) (rr_feed_limits ctx) = Some v" by (simp add: ctx)
    obtain st meta previous where
      st: "stage_cache h dir url (vr_normalized v) (rs_body response) meta previous MAX_IPLIST_READ_BYTES t = Some (st, t')"
      and failed: "\<And>e. st = Inl e \<Longrightarrow> r = (if lc_networks cached = None then Inl e
          else Inr (prepared_fallback (lc_networks cached) (lc_metadata cached)))"
      and staged: "\<And>sg. st = Inr sg \<Longrightarrow> \<exists>p. r = Inr p \<and> ci_networks (pc_loaded p) = vr_networks v
          \<and> ci_source (pc_loaded p) = OriginNetwork"
    proof (rule settle_refresh_valid [OF valid settled [unfolded FetchedNetwork]], unfold ctx, goal_cases)
      case (1 st meta previous)
      show ?case by (rule that [OF 1(2-4)])
    qed
    show ?thesis
    proof (cases "utf8_len (vr_normalized v) \<le> MAX_IPLIST_READ_BYTES")
      case True
      then have preview: "settle_preview n limits MAX_IPLIST_READ_BYTES cached fetched
          = Inr \<lparr>ro_networks = vr_networks v, ro_provenance = NetworkSource, ro_notices = []\<rparr>"
        using Some FetchedNetwork by (simp add: settle_preview_def ensure_normalized_size_def)
      show ?thesis
      proof (cases st)
        case (Inl e)
        then have "not_staged h client url dir n limits (vr_networks v) e"
          using not_stagedI [OF answered Some True] st by blast
        then show ?thesis using failed [OF Inl] unfolding preview
          by (cases "lc_networks cached") (auto simp: previewed_def prepared_fallback_def cache_fallback_def)
      next
        case (Inr sg)
        then show ?thesis using staged unfolding preview by (fastforce simp: previewed_def remote_provenance_def)
      qed
    next
      case False
      then have e: "st = Inl (WriteMetadata (path_join (remote_generation_store h dir url) MANIFEST_FILE_NAME) (WriteIo InvalidData))"
        using st by (simp add: stage_cache_def ensure_normalized_size_def Let_def d_bind_def d_res_def)
      show ?thesis
      proof (cases "lc_networks cached")
        case None
        then show ?thesis using failed [OF e] Some False FetchedNetwork
          by (simp add: previewed_def settle_preview_def ensure_normalized_size_def)
      next
        case (Some networks)
        then show ?thesis using failed [OF e] \<open>validate_remote_response response n limits = Some v\<close> False FetchedNetwork
          fallback_agrees(2) [of cached] by (simp add: settle_preview_def ensure_normalized_size_def Let_def)
      qed
    qed
  qed
next
  case FetchNotModified
  then obtain networks where "lc_networks cached = Some networks" using asked by (auto simp: fetched_from_def)
  then show ?thesis using settled FetchNotModified
    by (auto simp: previewed_def settle_refresh_def settle_preview_def read_only_cached_def remote_provenance_def d_ok_def)
next
  case FetchFallback
  then show ?thesis using settled fallback_agrees(1) by (auto simp: settle_refresh_def settle_preview_def d_ok_def)
qed

text \<open>
  C12: The preview of a remote feed shows what a synchronization would load. On a quiet disk and
  with a client that answers steadily, the preview of a state and the refresh of the same state
  both return; the preview changes no file and answers the networks and the provenance of the
  refresh, or its error. It differs only when the client's answer is valid but staging it failed
  in the refresh: then the preview shows the networks of that answer.
\<close>

theorem preview_agrees_with_refresh:
  assumes "file_law h files" "directory_law h files" "manifest_law h" "plain_dir dir"
    and "steady_reads h files" "steady_client client files"
  shows "\<exists>r s' q s2. prepare_iplist_with_cache h client url dir env max_elem s = Some (r, s')
    \<and> read_iplist_for_preview h (Some client) url dir env max_elem s = Some (q, s2) \<and> files s2 = files s
    \<and> (let unstaged = not_staged h client url dir (max_http_body_bytes env) (RemoteFeedLimits_from_maxelem max_elem)
       in case r of
         Inl e \<Rightarrow> q = Inl (CacheRead e)
           \<or> (\<exists>n path. q = Inl (NormalizedLimit n MAX_IPLIST_READ_BYTES) \<and> MAX_IPLIST_READ_BYTES < n \<and> e = WriteMetadata path (WriteIo InvalidData))
           \<or> (\<exists>v. q = Inr v \<and> ro_provenance v = NetworkSource \<and> unstaged (ro_networks v) e)
       | Inr p \<Rightarrow> \<exists>v. q = Inr v \<and> (ro_networks v = ci_networks (pc_loaded p)
             \<and> ro_provenance v = remote_provenance (ci_source (pc_loaded p))
           \<or> ci_source (pc_loaded p) = OriginFallback \<and> ro_provenance v = NetworkSource \<and> (\<exists>e. unstaged (ro_networks v) e)))"
proof -
  let ?limits = "RemoteFeedLimits_from_maxelem max_elem" and ?max = "max_http_body_bytes env"
  let ?root = "remote_generation_store h dir url"
  let ?ctx = "\<lparr>rr_url = url, rr_cache_dir = dir, rr_max_bytes = ?max, rr_previous_generation = None,
           rr_feed_limits = ?limits, rr_max_iplist_bytes = MAX_IPLIST_READ_BYTES\<rparr>"
  let ?read = "read_remote_cache h dir url (cache_paths_for_url h dir url) MAX_HTTP_BODY_BYTES ?limits"
  have store: "remote_store h files" by (intro remote_store.intro cache_storeI assms(1-3))
  then have cache: "cache_store h files" by (rule remote_store.axioms)
  note law = steady_client_law [OF assms(6)]
  obtain r s' where run: "prepare_iplist_with_cache h client url dir env max_elem s = Some (r, s')"
    using returns_imp [OF remote_store.prepare_returns [OF store assms(4) law] refl, of url env max_elem MAX_IPLIST_READ_BYTES s]
    unfolding prepare_iplist_with_cache_def by blast
  obtain c s1 where clean: "cleanup_unselected_generations h ?root s = Some (c :: http_cache_error + unit, s1)"
    and kept: "\<forall>q \<in> kept_store h (files s) ?root. files s1 q = files s q"
    using returns_imp [where s = s, OF cache_store.cleanup_keeps [OF cache remote_store.plain_store [OF store assms(4), of url]] refl]
    by (auto split: sum.splits)
  have "unfailing (cleanup_unselected_generations h ?root :: (_, http_cache_error, unit) dact)" by (rule cleanup_unfailing)
  then have "c = Inr ()" using clean unfolding unfailing_def by (cases c) auto
  then have go: "d_bind ?read (\<lambda>cached. d_bind (conditional_refresh client url ?max cached) (settle_refresh h ?ctx cached)) s1 = Some (r, s')"
    using run clean by (simp add: prepare_iplist_with_cache_def prepare_iplist_with_cache_limit_def Let_def d_bind_def)
  obtain rc where rc: "\<And>t. \<forall>q \<in> kept_store h (files s) ?root. files t q = files s q \<Longrightarrow> \<exists>t'. ?read t = Some (rc, t') \<and> files t' = files t"
    using remote_store.sees_cache [OF store assms(5,4), of s url MAX_HTTP_BODY_BYTES ?limits] unfolding sees_def by blast
  obtain t0 where t0: "?read s = Some (rc, t0)" "files t0 = files s" using rc [of s] by blast
  obtain t1 where t1: "?read s1 = Some (rc, t1)" using rc [OF kept] by blast
  have "\<exists>q s2. read_iplist_for_preview h (Some client) url dir env max_elem s = Some (q, s2) \<and> files s2 = files s
    \<and> previewed r (not_staged h client url dir ?max ?limits) q"
  proof (cases rc)
    case (Inl e)
    then show ?thesis using go t0 t1
      by (auto simp: d_bind_def d_map_err_def read_iplist_for_preview_def read_iplist_for_preview_with_limit_def Let_def previewed_def)
  next
    case (Inr cached)
    let ?fetch = "conditional_refresh client url ?max cached"
    obtain f where f: "\<And>t. \<exists>t'. (?fetch t :: ((unit + conditional_fetch_result) \<times> _) option) = Some (f, t') \<and> files t' = files t"
      using steady_fetch [OF assms(6), where A = "{}"] unfolding sees_def by blast
    obtain u0 where u0: "(?fetch t0 :: ((unit + conditional_fetch_result) \<times> _) option) = Some (f, u0)" "files u0 = files t0" using f by blast
    obtain u1 where u1: "(?fetch t1 :: ((unit + conditional_fetch_result) \<times> _) option) = Some (f, u1)" using f by blast
    have "returns (\<lambda>_. True) (?fetch :: (_, unit, conditional_fetch_result) dact)
        (\<lambda>f _. fetched_from client url ?max cached f) (\<lambda>_ _. False)" by (rule remote_store.fetch_returns [OF store law])
    from returns_imp [OF this TrueI, of t0] have asked: "fetched_from client url ?max cached (projr f)"
      using u0(1) by (auto split: sum.splits)
    have "settle_refresh h ?ctx cached (projr f) u1 = Some (r, s')"
      using go t1 Inr u1 by (simp add: d_bind_def refresh_infallible [where 'a = http_cache_error])
    note agree = settle_agrees [OF this asked, of dir ?limits, simplified]
    have "read_iplist_for_preview h (Some client) url dir env max_elem s
        = Some (settle_preview ?max ?limits MAX_IPLIST_READ_BYTES cached (projr f), u0)"
      using t0 Inr u0 by (simp add: read_iplist_for_preview_def read_iplist_for_preview_with_limit_def Let_def d_bind_def
        d_map_err_def d_res_def refresh_infallible [where 'a = read_only_iplist_error])
    then show ?thesis using agree t0(2) u0(2) by auto
  qed
  with run show ?thesis unfolding previewed_def Let_def by blast
qed

section \<open>A store in memory\<close>

text \<open>The memory host with a codec of metadata that has no validators, and a client that answers once.\<close>

definition render_metadata :: "remote_cache_metadata \<Rightarrow> rstr option" where
  "render_metadata m = Some (str_join [10] [rm_url m, rm_sha256_raw m, rm_sha256_iplist m])"

definition decode_metadata :: "file_bytes \<Rightarrow> remote_cache_metadata option" where
  "decode_metadata b = (case map (\<lambda>l. l) (str_lines (from_utf8_lossy b)) of
     [url, raw, iplist] \<Rightarrow> Some \<lparr>rm_url = url, rm_etag = None, rm_last_modified = None, rm_sha256_raw = raw, rm_sha256_iplist = iplist\<rparr>
   | _ \<Rightarrow> None)"

definition memory_remote :: "memory_files remote_host" where
  "memory_remote = cache_host.extend memory_cache (remote_host.fields decode_metadata render_metadata
     (\<lambda>d. mf_call (\<lambda>s. (Inl NotFound, s))))"

lemma memory_remote_laws:
  "file_law memory_remote mf_view" "directory_law memory_remote mf_view" "manifest_law memory_remote"
proof -
  show "file_law memory_remote mf_view" using memory_cache_files
    by (simp add: file_law_def memory_remote_def cache_host.defs remote_host.defs)
  show "directory_law memory_remote mf_view" using memory_cache_directories
    by (simp add: directory_law_def memory_remote_def cache_host.defs remote_host.defs)
  show "manifest_law memory_remote" using memory_cache_manifests
    by (simp add: manifest_law_def memory_remote_def cache_host.defs remote_host.defs)
qed

interpretation memory_feed: remote_store memory_remote mf_view
  by unfold_locales (rule memory_remote_laws)+

definition client_of :: "(http_client_error + http_response) \<Rightarrow> memory_files http_client" where
  "client_of r = (\<lambda>_ s. Some (r, s))"

lemma client_of_law: "client_law (client_of r) mf_view"
  by (auto simp: client_law_def client_of_def returns_def split: sum.split)

definition demo_url :: rstr where
  "demo_url = lit ''https://feed.example/list''"

definition feed_files :: "generation_file list" where
  "feed_files = [\<lparr>gf_name = lit ''iplist'', gf_contents = Utf8 (lit ''192.0.2.0/24'')\<rparr>,
     \<lparr>gf_name = lit ''meta.json'', gf_contents = Utf8 (the (render_metadata \<lparr>rm_url = demo_url, rm_etag = None, rm_last_modified = None,
       rm_sha256_raw = sha256_hex memory_remote (Utf8 (lit ''192.0.2.7/24'')),
       rm_sha256_iplist = sha256_hex memory_remote (Utf8 (lit ''192.0.2.0/24''))\<rparr>))\<rparr>,
     \<lparr>gf_name = lit ''raw'', gf_contents = Utf8 (lit ''192.0.2.7/24'')\<rparr>]"

text \<open>A cache with one generation of the feed, and room for so many calls.\<close>

definition fed_store :: memory_files where
  "fed_store = (let root = remote_generation_store memory_remote demo_root demo_url; i = generation_id memory_remote feed_files in
     \<lparr>mf_files = (manifest_path root, Utf8 i) # map (\<lambda>f. (path_join (generation_dir root i) (gf_name f), gf_contents f)) feed_files,
      mf_counter = 0, mf_budget = 100\<rparr>)"

definition cleaned_store :: memory_files where
  "cleaned_store = snd (the (cleanup_unselected_generations memory_remote (remote_generation_store memory_remote demo_root demo_url) fed_store
     :: ((http_cache_error + unit) \<times> memory_files) option))"

definition feed_cache :: loaded_remote_cache where
  "feed_cache = \<lparr>lc_networks = Some [V4 (Cidr 0xC0000200 24)],
     lc_metadata = Some \<lparr>rm_url = demo_url, rm_etag = None, rm_last_modified = None,
       rm_sha256_raw = sha256_hex memory_remote (Utf8 (lit ''192.0.2.7/24'')),
       rm_sha256_iplist = sha256_hex memory_remote (Utf8 (lit ''192.0.2.0/24''))\<rparr>,
     lc_generation_id = Some (generation_id memory_remote feed_files)\<rparr>"

lemma feed_cleaned: "cleanup_unselected_generations memory_remote (remote_generation_store memory_remote demo_root demo_url) fed_store
    = Some (Inr () :: http_cache_error + unit, cleaned_store)"
proof -
  have "map_option fst (cleanup_unselected_generations memory_remote (remote_generation_store memory_remote demo_root demo_url) fed_store)
      = Some (Inr () :: http_cache_error + unit)" by code_simp
  then show ?thesis unfolding cleaned_store_def by auto
qed

lemma feed_read: "\<exists>s2. read_remote_cache memory_remote demo_root demo_url (cache_paths_for_url memory_remote demo_root demo_url)
      MAX_HTTP_BODY_BYTES (RemoteFeedLimits_from_maxelem 65536) cleaned_store = Some (Inr feed_cache, s2)"
proof -
  have "map_option fst (read_remote_cache memory_remote demo_root demo_url (cache_paths_for_url memory_remote demo_root demo_url)
      MAX_HTTP_BODY_BYTES (RemoteFeedLimits_from_maxelem 65536) cleaned_store) = Some (Inr feed_cache)" by code_simp
  then show ?thesis by auto
qed

lemma feed_refresh:
  "\<exists>s2. prepare_iplist_with_cache memory_remote (client_of r) demo_url demo_root [] 65536 fed_store
     = d_bind (conditional_refresh (client_of r) demo_url (max_http_body_bytes []) feed_cache)
         (settle_refresh memory_remote \<lparr>rr_url = demo_url, rr_cache_dir = demo_root, rr_max_bytes = max_http_body_bytes [],
           rr_previous_generation = None, rr_feed_limits = RemoteFeedLimits_from_maxelem 65536,
           rr_max_iplist_bytes = MAX_IPLIST_READ_BYTES\<rparr> feed_cache) s2"
  using feed_cleaned feed_read
  by (auto simp: prepare_iplist_with_cache_def prepare_iplist_with_cache_limit_def Let_def d_bind_def)

lemmas feed_settles = conditional_refresh_def fetch_with_conditional_cache_def d_bind_def d_try_def d_ok_def client_of_def
  settle_refresh_def prepared_fallback_def cache_fallback_def feed_cache_def

theorem refresh_answers_with_validated_data_witness:
  "\<exists>p s'. prepare_iplist_with_cache memory_remote (client_of (Inl (HttpRequestFailed (lit ''timeout'')))) demo_url demo_root [] 65536 fed_store
       = Some (Inr p, s')
     \<and> ci_source (pc_loaded p) = OriginFallback \<and> ci_networks (pc_loaded p) = [V4 (Cidr 0xC0000200 24)]
     \<and> cached_on_disk memory_remote (mf_view fed_store) demo_root demo_url (RemoteFeedLimits_from_maxelem 65536) [V4 (Cidr 0xC0000200 24)]"
proof -
  let ?client = "client_of (Inl (HttpRequestFailed (lit ''timeout'')))"
  have "plain_dir demo_root" by code_simp
  note refresh = refresh_answers_with_validated_data [OF memory_remote_laws client_of_law this,
      of "Inl (HttpRequestFailed (lit ''timeout''))" demo_url "[]" 65536 fed_store]
  obtain s2 where s2: "read_remote_cache memory_remote demo_root demo_url (cache_paths_for_url memory_remote demo_root demo_url)
      MAX_HTTP_BODY_BYTES (RemoteFeedLimits_from_maxelem 65536) cleaned_store = Some (Inr feed_cache, s2)" using feed_read by blast
  have nets: "lc_networks feed_cache = Some [V4 (Cidr 0xC0000200 24)]" by (simp add: feed_cache_def)
  from refresh show ?thesis
  proof (elim exE conjE, goal_cases)
    case (1 r s')
    obtain p where p: "r = Inr p" "ci_source (pc_loaded p) = OriginNetwork \<or> ci_networks (pc_loaded p) = [V4 (Cidr 0xC0000200 24)]"
      using 1(4) [rule_format, OF feed_cleaned s2 nets] by blast
    have "ci_source (pc_loaded p) = OriginFallback"
      using feed_refresh [of "Inl (HttpRequestFailed (lit ''timeout''))"] 1(1) p(1) by (auto simp: feed_settles)
    then show ?case using 1(1) 1(2) [rule_format, OF p(1)] p by (intro exI [of _ p] exI [of _ s']) simp
  qed
qed

text \<open>The same host where opening and reading always work, for the agreement of the two workflows.\<close>

definition steady_remote :: "memory_files remote_host" where
  "steady_remote = memory_remote\<lparr>
     fh_open_regular := (\<lambda>p s. Some (if mf_view s p = None then Inl NotFound else Inr True, s)),
     fh_read := (\<lambda>p n s. Some (case mf_view s p of None \<Rightarrow> Inl (OtherIo [])
        | Some d \<Rightarrow> Inr (if byte_len d \<le> n then d else Raw (replicate n 0)), s))\<rparr>"

lemma steady_remote_laws:
  "file_law steady_remote mf_view" "directory_law steady_remote mf_view" "manifest_law steady_remote"
  "steady_reads steady_remote mf_view"
proof -
  show "file_law steady_remote mf_view"
    using memory_remote_laws(1) unfolding file_law_def by (auto simp: steady_remote_def returns_def split: option.split)
  show "directory_law steady_remote mf_view" "manifest_law steady_remote"
    using memory_remote_laws(2,3) by (simp_all add: directory_law_def manifest_law_def steady_remote_def)
  show "steady_reads steady_remote mf_view"
    unfolding steady_reads_def
  proof (intro allI conjI)
    fix p n
    show "\<exists>answer. \<forall>s. \<exists>s'. fh_open_regular steady_remote p s = Some (answer (mf_view s p), s') \<and> mf_view s' = mf_view s"
      by (rule exI [of _ "\<lambda>c. if c = None then Inl NotFound else Inr True"]) (simp add: steady_remote_def)
    show "\<exists>answer. \<forall>s. \<exists>s'. fh_read steady_remote p n s = Some (answer (mf_view s p), s') \<and> mf_view s' = mf_view s"
      by (rule exI [of _ "\<lambda>c. case c of None \<Rightarrow> Inl (OtherIo []) | Some d \<Rightarrow> Inr (if byte_len d \<le> n then d else Raw (replicate n 0))"])
        (simp add: steady_remote_def)
  qed
qed

lemma client_of_steady: "steady_client (client_of r) mf_view"
  by (auto simp: steady_client_def client_of_def)

theorem preview_agrees_with_refresh_witness:
  "\<exists>p s' v s2. prepare_iplist_with_cache steady_remote (client_of (Inr \<lparr>rs_status = 304, rs_body = Utf8 [], rs_etag = None, rs_last_modified = None\<rparr>))
       demo_url demo_root [] 65536 fed_store = Some (Inr p, s')
     \<and> read_iplist_for_preview steady_remote (Some (client_of (Inr \<lparr>rs_status = 304, rs_body = Utf8 [], rs_etag = None, rs_last_modified = None\<rparr>)))
       demo_url demo_root [] 65536 fed_store = Some (Inr v, s2)
     \<and> ci_networks (pc_loaded p) = [V4 (Cidr 0xC0000200 24)] \<and> ro_networks v = [V4 (Cidr 0xC0000200 24)] \<and> ro_provenance v = CacheSource"
proof -
  let ?r = "Inr \<lparr>rs_status = 304, rs_body = Utf8 [], rs_etag = None, rs_last_modified = None\<rparr>"
  let ?limits = "RemoteFeedLimits_from_maxelem 65536"
  let ?read = "read_remote_cache steady_remote demo_root demo_url (cache_paths_for_url steady_remote demo_root demo_url) MAX_HTTP_BODY_BYTES ?limits"
  have dir: "plain_dir demo_root" by code_simp
  have "map_option fst (?read fed_store) = Some (Inr feed_cache)" by code_simp
  then obtain s2 where read: "?read fed_store = Some (Inr feed_cache, s2)" by auto
  then have preview: "\<exists>t. read_iplist_for_preview steady_remote (Some (client_of ?r)) demo_url demo_root [] 65536 fed_store
      = Some (Inr (read_only_cached feed_cache CacheSource False), t)"
    by (simp add: read_iplist_for_preview_def read_iplist_for_preview_with_limit_def Let_def d_map_err_def d_res_def settle_preview_def
        conditional_refresh_def fetch_with_conditional_cache_def d_bind_def d_try_def d_ok_def client_of_def feed_cache_def)
  from preview_agrees_with_refresh [OF steady_remote_laws(1-3) dir steady_remote_laws(4) client_of_steady,
      of ?r demo_url "[]" 65536 fed_store] preview
  obtain r s' where run: "prepare_iplist_with_cache steady_remote (client_of ?r) demo_url demo_root [] 65536 fed_store = Some (r, s')"
    and agree: "case r of Inl e \<Rightarrow> False
      | Inr p \<Rightarrow> ci_networks (pc_loaded p) = ro_networks (read_only_cached feed_cache CacheSource False)"
    by (elim exE conjE) (auto simp: Let_def read_only_cached_def feed_cache_def split: sum.splits)
  obtain p where "r = Inr p" "ci_networks (pc_loaded p) = [V4 (Cidr 0xC0000200 24)]"
    using agree by (cases r) (auto simp: read_only_cached_def feed_cache_def)
  then show ?thesis using run preview by (auto simp: read_only_cached_def feed_cache_def)
qed

end
