(* ===== verification/Command_Executor.thy ===== *)
theory Command_Executor
  imports Remote_Parse
begin

text \<open>
  The production executor of \<^verbatim>\<open>crates/kidobo-adapters/src/command_runner.rs\<close>: a child in a process
  group of its own is polled, its two pipes are drained a chunk at a time, and it is killed when
  anything fails or its time is up. The operating system is a parameter. The lemmas show that the
  loop ends, and that no child is left behind.
\<close>

section \<open>Processes\<close>

datatype pipe = StdoutPipe | StderrPipe

datatype pipe_error = PipeWouldBlock | PipeInterrupted | PipeFailed rstr

datatype poll_error = EINTR | PollErrno rstr

record exit_status =
  es_code :: "int option"
  es_signal :: "int option"

text \<open>
  Durations are counted in nanoseconds. \<open>ph_take\<close> says whether the pipe of the child was there;
  what a kill answers is ignored by the code.
\<close>

record 's process_host =
  ph_spawn :: "command_request \<Rightarrow> ('s, rstr, unit) dact"
  ph_take :: "pipe \<Rightarrow> 's \<Rightarrow> bool \<times> 's"
  ph_get_flags :: "pipe \<Rightarrow> ('s, rstr, nat) dact"
  ph_set_flags :: "pipe \<Rightarrow> nat \<Rightarrow> ('s, rstr, unit) dact"
  ph_now :: "'s \<Rightarrow> nat \<times> 's"
  ph_try_wait :: "('s, rstr, exit_status option) dact"
  ph_read :: "pipe \<Rightarrow> nat \<Rightarrow> ('s, pipe_error, 8 word list) dact"
  ph_poll :: "pipe list \<Rightarrow> nat \<Rightarrow> ('s, poll_error, unit) dact"
  ph_child_id :: "'s \<Rightarrow> nat \<times> 's"
  ph_killpg :: "nat \<Rightarrow> ('s, unit, unit) dact"
  ph_kill :: "('s, unit, unit) dact"
  ph_wait :: "('s, unit, unit) dact"

definition COMMAND_OUTPUT_LIMIT :: nat where
  "COMMAND_OUTPUT_LIMIT = 16 * 1024 * 1024"

definition ProcessStatus_from_exit_status :: "exit_status \<Rightarrow> process_status" where
  "ProcessStatus_from_exit_status status = (case es_code status of Some code \<Rightarrow> Exited code
     | None \<Rightarrow> (case es_signal status of Some signal \<Rightarrow> Signaled signal | None \<Rightarrow> OtherStatus))"

definition duration_millis_u64 :: "nat \<Rightarrow> nat" where
  "duration_millis_u64 ms = (if ms \<le> U64_LIMIT then ms else U64_LIMIT)"

text \<open>\<open>O_NONBLOCK\<close> is bit 2048 of the flags on Linux.\<close>

definition set_nonblocking :: "'s process_host \<Rightarrow> pipe \<Rightarrow> ('s, rstr, unit) dact" where
  "set_nonblocking h pipe =
     d_bind (ph_get_flags h pipe) (\<lambda>flags. ph_set_flags h pipe (or flags 2048))"

definition drain_output :: "'s process_host \<Rightarrow> pipe \<Rightarrow> 8 word list \<Rightarrow> ('s, rstr, bool \<times> 8 word list) dact" where
  "drain_output h pipe contents =
     d_bind (d_try (ph_read h pipe 8192)) (\<lambda>r. case r of
       Inr chunk \<Rightarrow>
         if chunk = [] then d_ok (True, contents)
         else if length chunk > COMMAND_OUTPUT_LIMIT - length contents then d_err (lit ''command output exceeds 16777216 byte limit'')
         else if length chunk > 8192 then d_err (lit ''pipe read exceeded buffer length'')
         else d_ok (False, contents @ chunk)
     | Inl e \<Rightarrow> (case e of PipeFailed why \<Rightarrow> d_err why | _ \<Rightarrow> d_ok (False, contents)))"

section \<open>Supervision\<close>

record supervision =
  sv_status :: "exit_status option"
  sv_stdout :: "8 word list"
  sv_stderr :: "8 word list"
  sv_stdout_eof :: bool
  sv_stderr_eof :: bool

text \<open>One turn of the loop: it ends with a result, or goes on.\<close>

definition supervise_once ::
    "'s process_host \<Rightarrow> command_request \<Rightarrow> rstr \<Rightarrow> nat \<Rightarrow> supervision
     \<Rightarrow> ('s, command_runner_error, command_result + supervision) dact" where
  "supervise_once h request command started sv = (\<lambda>s. case ph_now h s of (now, s) \<Rightarrow>
     let remaining = req_timeout_ms request * 1000000 - (now - started); output_error = Output command in
     (if remaining = 0 then d_err (Timeout command (duration_millis_u64 (req_timeout_ms request)))
      else d_bind (if sv_status sv = None then d_map_err (Poll command) (ph_try_wait h) else d_ok (sv_status sv)) (\<lambda>status.
        d_bind (if sv_stdout_eof sv then d_ok (True, sv_stdout sv)
          else d_map_err output_error (drain_output h StdoutPipe (sv_stdout sv))) (\<lambda>(stdout_eof, stdout).
        d_bind (if sv_stderr_eof sv then d_ok (True, sv_stderr sv)
          else d_map_err output_error (drain_output h StderrPipe (sv_stderr sv))) (\<lambda>(stderr_eof, stderr).
        let next = \<lparr>sv_status = status, sv_stdout = stdout, sv_stderr = stderr,
          sv_stdout_eof = stdout_eof, sv_stderr_eof = stderr_eof\<rparr> in
        (if status \<noteq> None \<and> stdout_eof \<and> stderr_eof
         then d_ok (Inl \<lparr>cr_status = ProcessStatus_from_exit_status (the status),
           cr_stdout = from_utf8_lossy (Raw stdout), cr_stderr = from_utf8_lossy (Raw stderr)\<rparr>)
         else d_bind (d_try (ph_poll h ((if stdout_eof then [] else [StdoutPipe]) @ (if stderr_eof then [] else [StderrPipe]))
             (min (remaining div 1000000) 10))) (\<lambda>polled. case polled of
           Inl (PollErrno why) \<Rightarrow> d_err (output_error why)
         | _ \<Rightarrow> d_ok (Inr next))))))) s)"

partial_function (option) supervise ::
    "'s process_host \<Rightarrow> command_request \<Rightarrow> rstr \<Rightarrow> nat \<Rightarrow> supervision \<Rightarrow> 's
     \<Rightarrow> ((command_runner_error + command_result) \<times> 's) option" where
  "supervise h request command started sv s = (case supervise_once h request command started sv s of
     None \<Rightarrow> None
   | Some (r, s) \<Rightarrow> (case r of Inl e \<Rightarrow> Some (Inl e, s)
       | Inr turn \<Rightarrow> (case turn of Inl result \<Rightarrow> Some (Inr result, s)
           | Inr sv \<Rightarrow> supervise h request command started sv s)))"

definition take_pipe :: "'s process_host \<Rightarrow> rstr \<Rightarrow> pipe \<Rightarrow> rstr \<Rightarrow> ('s, command_runner_error, unit) dact" where
  "take_pipe h command pipe why = (\<lambda>s. case ph_take h pipe s of
     (present, s) \<Rightarrow> Some (if present then Inr () else Inl (Output command why), s))"

definition collect_output :: "'s process_host \<Rightarrow> command_request \<Rightarrow> rstr \<Rightarrow> ('s, command_runner_error, command_result) dact" where
  "collect_output h request command =
     d_bind (take_pipe h command StdoutPipe (lit ''stdout pipe was not available'')) (\<lambda>_.
     d_bind (take_pipe h command StderrPipe (lit ''stderr pipe was not available'')) (\<lambda>_.
     d_bind (d_map_err (Output command) (set_nonblocking h StdoutPipe)) (\<lambda>_.
     d_bind (d_map_err (Output command) (set_nonblocking h StderrPipe)) (\<lambda>_ s.
       case ph_now h s of (started, s) \<Rightarrow> supervise h request command started
         \<lparr>sv_status = None, sv_stdout = [], sv_stderr = [], sv_stdout_eof = False, sv_stderr_eof = False\<rparr> s))))"

text \<open>The group is killed if the id of the child fits a signed 32-bit number.\<close>

definition terminate_child_process_tree :: "'s process_host \<Rightarrow> ('s, 'e, unit) dact" where
  "terminate_child_process_tree h = (\<lambda>s. case ph_child_id h s of (i, s) \<Rightarrow>
     d_bind (if i < 2 ^ 31 then d_bind (d_try (ph_killpg h i)) (\<lambda>_. d_ok ()) else d_ok ()) (\<lambda>_.
     d_bind (d_try (ph_kill h)) (\<lambda>_.
     d_bind (d_try (ph_wait h)) (\<lambda>_. d_ok ()))) s)"

definition system_execute :: "'s process_host \<Rightarrow> command_request \<Rightarrow> ('s, command_runner_error, command_result) dact" where
  "system_execute h request =
     (let command = display_command (req_program request) (req_args request) in
      d_bind (d_map_err (Spawn command) (ph_spawn h request)) (\<lambda>_.
      d_bind (d_try (collect_output h request command)) (\<lambda>result. case result of
        Inl e \<Rightarrow> d_bind (terminate_child_process_tree h) (\<lambda>_. d_err e)
      | Inr r \<Rightarrow> d_ok r)))"

section \<open>What the operating system promises\<close>

text \<open>
  What is known of the last child that was started: its status was reported, it was waited for, it has
  exited or was sent a kill signal it cannot refuse, the same holds of every process of its group, or
  the end of one of its pipes was read. \<open>pv_output\<close> is what was read from the pipes so far.
\<close>

datatype mark = ExitedWith exit_status | Reaped | Gone | Cleared | Drained pipe

record process_view =
  pv_time :: nat
  pv_group :: nat
  pv_marks :: "mark set"
  pv_output :: "pipe \<Rightarrow> 8 word list"

definition calm :: "('s \<Rightarrow> process_view) \<Rightarrow> nat \<Rightarrow> nat \<Rightarrow> mark set \<Rightarrow> 's \<Rightarrow> bool" where
  "calm v T g M s \<longleftrightarrow> T \<le> pv_time (v s) \<and> pv_group (v s) = g \<and> M \<subseteq> pv_marks (v s)"

definition calm_with :: "('s \<Rightarrow> process_view) \<Rightarrow> nat \<Rightarrow> nat \<Rightarrow> mark set \<Rightarrow> (pipe \<Rightarrow> 8 word list) \<Rightarrow> 's \<Rightarrow> bool" where
  "calm_with v T g M B s \<longleftrightarrow> calm v T g M s \<and> pv_output (v s) = B"

definition calm_call :: "('s \<Rightarrow> process_view) \<Rightarrow> ('s, 'e, 'a) dact \<Rightarrow> bool" where
  "calm_call v m \<longleftrightarrow> (\<forall>T g M B. returns (calm_with v T g M B) m (\<lambda>_. calm_with v T g M B) (\<lambda>_. calm_with v T g M B))"

text \<open>A status is reported of a child that has exited, and reaps it.\<close>

definition status_marks :: "exit_status option \<Rightarrow> mark set" where
  "status_marks status = (case status of Some st \<Rightarrow> {ExitedWith st, Gone, Reaped} | None \<Rightarrow> {})"

text \<open>
  The monotonic clock never goes back, and passes at least one nanosecond in a poll. A read gives the next
  bytes of the pipe, none only at its end.
  Waiting blocks until the child has exited: it is only known to return when the child is gone.
\<close>

definition process_law :: "'s process_host \<Rightarrow> ('s \<Rightarrow> process_view) \<Rightarrow> bool" where
  "process_law h v \<longleftrightarrow>
     (\<forall>rq T. returns (\<lambda>s. T \<le> pv_time (v s)) (ph_spawn h rq)
        (\<lambda>_ s. T \<le> pv_time (v s) \<and> pv_marks (v s) \<subseteq> {Gone, Cleared} \<and> pv_output (v s) = (\<lambda>_. [])) (\<lambda>_ s. T \<le> pv_time (v s)))
   \<and> (\<forall>p. calm_call v (ph_get_flags h p)) \<and> (\<forall>p n. calm_call v (ph_set_flags h p n))
   \<and> (\<forall>T g M B p n. returns (calm_with v T g M B) (ph_read h p n)
        (\<lambda>chunk. calm_with v T g (if chunk = [] then insert (Drained p) M else M) (B(p := B p @ chunk))) (\<lambda>_. calm_with v T g M B))
   \<and> (\<forall>T g M B. returns (calm_with v T g M B) (ph_try_wait h)
        (\<lambda>r. calm_with v T g (status_marks r \<union> M) B) (\<lambda>_. calm_with v T g M B))
   \<and> (\<forall>T g M B ps n. returns (calm_with v T g M B) (ph_poll h ps n) (\<lambda>_. calm_with v (T + 1) g M B) (\<lambda>_. calm_with v (T + 1) g M B))
   \<and> (\<forall>T g M B. Gone \<in> M \<longrightarrow> returns (calm_with v T g M B) (ph_wait h)
        (\<lambda>_. calm_with v T g (insert Reaped M) B) (\<lambda>_. calm_with v T g (insert Reaped M) B))
   \<and> (\<forall>T g M B s p. calm_with v T g M B s \<longrightarrow> calm_with v T g M B (snd (ph_take h p s))
        \<and> calm_with v T g M B (snd (ph_child_id h s)) \<and> calm_with v T g M B (snd (ph_now h s)))
   \<and> (\<forall>s. fst (ph_child_id h s) = pv_group (v s))
   \<and> (\<forall>s. pv_time (v s) \<le> fst (ph_now h s) \<and> fst (ph_now h s) \<le> pv_time (v (snd (ph_now h s))))"

text \<open>
  The process may signal its child: after a kill signal to the group every process in it is gone, after
  one to the child the child is. A call may still fail, when there is nothing left to signal. (Without
  the permission a child that never exits is waited for without end.)
\<close>

definition signal_law :: "'s process_host \<Rightarrow> ('s \<Rightarrow> process_view) \<Rightarrow> bool" where
  "signal_law h v \<longleftrightarrow>
     (\<forall>T g M B. returns (calm_with v T g M B) (ph_killpg h g)
        (\<lambda>_. calm_with v T g ({Gone, Cleared} \<union> M) B) (\<lambda>_. calm_with v T g ({Gone, Cleared} \<union> M) B))
   \<and> (\<forall>T g M B. returns (calm_with v T g M B) (ph_kill h)
        (\<lambda>_. calm_with v T g (insert Gone M) B) (\<lambda>_. calm_with v T g (insert Gone M) B))"

text \<open>
  A whole result: the status that was reported, the text of all that the pipes gave up to their ends,
  within the limit, and a child that was reaped.
\<close>

definition whole_result :: "process_view \<Rightarrow> command_result \<Rightarrow> bool" where
  "whole_result w res \<longleftrightarrow> {Reaped, Drained StdoutPipe, Drained StderrPipe} \<subseteq> pv_marks w
     \<and> (\<exists>status. ExitedWith status \<in> pv_marks w \<and> cr_status res = ProcessStatus_from_exit_status status)
     \<and> cr_stdout res = from_utf8_lossy (Raw (pv_output w StdoutPipe)) \<and> cr_stderr res = from_utf8_lossy (Raw (pv_output w StderrPipe))
     \<and> (\<forall>p. length (pv_output w p) \<le> COMMAND_OUTPUT_LIMIT)"

text \<open>What the state of a supervision knows of the child.\<close>

definition eof_marks :: "pipe \<Rightarrow> bool \<Rightarrow> mark set" where
  "eof_marks p eof = (if eof then {Drained p} else {})"

definition read_so_far :: "8 word list \<Rightarrow> 8 word list \<Rightarrow> pipe \<Rightarrow> 8 word list" where
  "read_so_far out err p = (case p of StdoutPipe \<Rightarrow> out | StderrPipe \<Rightarrow> err)"

definition watched :: "('s \<Rightarrow> process_view) \<Rightarrow> nat \<Rightarrow> nat \<Rightarrow> supervision \<Rightarrow> 's \<Rightarrow> bool" where
  "watched v T g sv = calm_with v T g
     (status_marks (sv_status sv) \<union> eof_marks StdoutPipe (sv_stdout_eof sv) \<union> eof_marks StderrPipe (sv_stderr_eof sv))
     (read_so_far (sv_stdout sv) (sv_stderr sv))"

definition in_bounds :: "supervision \<Rightarrow> bool" where
  "in_bounds sv \<longleftrightarrow> length (sv_stdout sv) \<le> COMMAND_OUTPUT_LIMIT \<and> length (sv_stderr sv) \<le> COMMAND_OUTPUT_LIMIT"

lemma read_so_far_upd [simp]:
  "(read_so_far out err)(StdoutPipe := out') = read_so_far out' err" "(read_so_far out err)(StderrPipe := err') = read_so_far out err'"
  "read_so_far out err StdoutPipe = out" "read_so_far out err StderrPipe = err" "read_so_far [] [] = (\<lambda>_. [])"
  by (auto simp: read_so_far_def fun_eq_iff split: pipe.split)

lemma calm_less: "calm v T g M s \<Longrightarrow> T' \<le> T \<Longrightarrow> M' \<subseteq> M \<Longrightarrow> calm v T' g M' s"
  by (auto simp: calm_def)

lemma calm_with_calm: "calm_with v T g M B s \<Longrightarrow> calm v T g M s"
  by (simp add: calm_with_def)

lemma calm_from_with:
  assumes "\<And>B. returns (calm_with v T g M B) m (\<lambda>_. calm_with v T' g M' B) (\<lambda>_. calm_with v T' g M' B)"
  shows "returns (calm v T g M) m (\<lambda>_. calm v T' g M') (\<lambda>_. calm v T' g M')"
proof (rule returnsI)
  fix s assume "calm v T g M s"
  then have "calm_with v T g M (pv_output (v s)) s" by (simp add: calm_with_def)
  from returns_imp [OF assms this] show "\<exists>r s'. m s = Some (r, s') \<and> (case r of Inl e \<Rightarrow> calm v T' g M' s' | Inr x \<Rightarrow> calm v T' g M' s')"
    by (auto simp: calm_with_def split: sum.splits)
qed

text \<open>After the tree was terminated nothing of it runs, and the child is reaped.\<close>

definition tree_marks :: "nat \<Rightarrow> mark set" where
  "tree_marks g = {Gone, Reaped} \<union> (if g < 2 ^ 31 then {Cleared} else {})"

lemma returns_lift: "(A \<Longrightarrow> returns P m Q E) \<Longrightarrow> returns (\<lambda>s. P s \<and> A) m Q E"
  by (auto simp: returns_def)

locale process_system =
  fixes h :: "'s process_host" and v :: "'s \<Rightarrow> process_view"
  assumes law: "process_law h v" and signals: "signal_law h v"
begin

lemma calls:
  "returns (\<lambda>s. T \<le> pv_time (v s)) (ph_spawn h rq)
     (\<lambda>_ s. T \<le> pv_time (v s) \<and> pv_marks (v s) \<subseteq> {Gone, Cleared} \<and> pv_output (v s) = (\<lambda>_. [])) (\<lambda>_ s. T \<le> pv_time (v s))"
  "returns (calm_with v T g M B) (ph_get_flags h p) (\<lambda>_. calm_with v T g M B) (\<lambda>_. calm_with v T g M B)"
  "returns (calm_with v T g M B) (ph_set_flags h p n) (\<lambda>_. calm_with v T g M B) (\<lambda>_. calm_with v T g M B)"
  "returns (calm_with v T g M B) (ph_read h p n)
     (\<lambda>chunk. calm_with v T g (if chunk = [] then insert (Drained p) M else M) (B(p := B p @ chunk))) (\<lambda>_. calm_with v T g M B)"
  "returns (calm_with v T g M B) (ph_try_wait h) (\<lambda>r. calm_with v T g (status_marks r \<union> M) B) (\<lambda>_. calm_with v T g M B)"
  "returns (calm_with v T g M B) (ph_poll h ps n) (\<lambda>_. calm_with v (T + 1) g M B) (\<lambda>_. calm_with v (T + 1) g M B)"
  "Gone \<in> M \<Longrightarrow> returns (calm_with v T g M B) (ph_wait h) (\<lambda>_. calm_with v T g (insert Reaped M) B) (\<lambda>_. calm_with v T g (insert Reaped M) B)"
  using law unfolding process_law_def calm_call_def
  by simp_all

lemma kills:
  "returns (calm_with v T g M B) (ph_killpg h g) (\<lambda>_. calm_with v T g ({Gone, Cleared} \<union> M) B) (\<lambda>_. calm_with v T g ({Gone, Cleared} \<union> M) B)"
  "returns (calm_with v T g M B) (ph_kill h) (\<lambda>_. calm_with v T g (insert Gone M) B) (\<lambda>_. calm_with v T g (insert Gone M) B)"
  using signals unfolding signal_law_def by simp_all

lemma clock:
  "calm_with v T g M B s \<Longrightarrow> calm_with v T g M B (snd (ph_take h p s))"
  "calm_with v T g M B s \<Longrightarrow> calm_with v T g M B (snd (ph_child_id h s))"
  "calm_with v T g M B s \<Longrightarrow> calm_with v T g M B (snd (ph_now h s))"
  "fst (ph_child_id h s) = pv_group (v s)"
  "pv_time (v s) \<le> fst (ph_now h s)" "fst (ph_now h s) \<le> pv_time (v (snd (ph_now h s)))"
  using law unfolding process_law_def by simp_all

lemma drain_returns:
  assumes "length contents \<le> COMMAND_OUTPUT_LIMIT" "B p = contents"
  shows "returns (calm_with v T g M B) (drain_output h p contents)
    (\<lambda>(eof, bytes) s. calm_with v T g (eof_marks p eof \<union> M) (B(p := bytes)) s \<and> length bytes \<le> COMMAND_OUTPUT_LIMIT)
    (\<lambda>_ s. calm v T g {} s)"
  unfolding drain_output_def
  by (rule returns_bind [OF returns_try [OF calls(4)]])
    (use assms in \<open>auto intro!: returns_ok returns_err simp: eof_marks_def calm_with_def fun_upd_idem intro: calm_less
      split: sum.splits pipe_error.split\<close>)

lemma drain_stage:
  assumes "length bytes \<le> COMMAND_OUTPUT_LIMIT" "B p = bytes" "eof \<Longrightarrow> Drained p \<in> M" "\<And>e s. calm v T g {} s \<Longrightarrow> E (Output command e) s"
  shows "returns (calm_with v T g M B) (if eof then d_ok (True, bytes) else d_map_err (Output command) (drain_output h p bytes))
    (\<lambda>(eof, bytes) s. calm_with v T g (eof_marks p eof \<union> M) (B(p := bytes)) s \<and> length bytes \<le> COMMAND_OUTPUT_LIMIT) E"
proof (rule returns_if)
  show "returns (calm_with v T g M B) (d_ok (True, bytes))
    (\<lambda>(eof, bytes) s. calm_with v T g (eof_marks p eof \<union> M) (B(p := bytes)) s \<and> length bytes \<le> COMMAND_OUTPUT_LIMIT) E" if eof
    using assms(1-3) that by (intro returns_ok) (simp add: eof_marks_def insert_absorb fun_upd_idem)
  show "returns (calm_with v T g M B) (d_map_err (Output command) (drain_output h p bytes))
    (\<lambda>(eof, bytes) s. calm_with v T g (eof_marks p eof \<union> M) (B(p := bytes)) s \<and> length bytes \<le> COMMAND_OUTPUT_LIMIT) E"
    by (rule returns_map_err, rule returns_weaken [OF drain_returns [of bytes B p]]) (use assms(1,2,4) in auto)
qed

text \<open>The end of a turn: the whole result, or a poll.\<close>

lemma turn_returns:
  assumes "length out \<le> COMMAND_OUTPUT_LIMIT" "length err \<le> COMMAND_OUTPUT_LIMIT" "\<And>e s. calm v T g {} s \<Longrightarrow> E (Output command e) s"
    and "\<And>s. watched v (T + 1) g \<lparr>sv_status = status, sv_stdout = out, sv_stderr = err, sv_stdout_eof = out_eof, sv_stderr_eof = err_eof\<rparr> s
      \<Longrightarrow> Q (Inr \<lparr>sv_status = status, sv_stdout = out, sv_stderr = err, sv_stdout_eof = out_eof, sv_stderr_eof = err_eof\<rparr>) s"
    and "\<And>res s. whole_result (v s) res \<Longrightarrow> Q (Inl res) s"
  shows "returns (calm_with v T g (eof_marks StderrPipe err_eof \<union> (eof_marks StdoutPipe out_eof \<union> (status_marks status \<union> M))) (read_so_far out err))
    (if status \<noteq> None \<and> out_eof \<and> err_eof
     then d_ok (Inl \<lparr>cr_status = ProcessStatus_from_exit_status (the status),
        cr_stdout = from_utf8_lossy (Raw out), cr_stderr = from_utf8_lossy (Raw err)\<rparr>)
     else d_bind (d_try (ph_poll h ((if out_eof then [] else [StdoutPipe]) @ (if err_eof then [] else [StderrPipe])) ms)) (\<lambda>polled. case polled of
        Inl (PollErrno why) \<Rightarrow> d_err (Output command why)
      | _ \<Rightarrow> d_ok (Inr \<lparr>sv_status = status, sv_stdout = out, sv_stderr = err, sv_stdout_eof = out_eof, sv_stderr_eof = err_eof\<rparr>))) Q E"
    (is "returns ?P _ _ _")
proof (rule returns_if)
  assume ended: "status \<noteq> None \<and> out_eof \<and> err_eof"
  show "returns ?P (d_ok (Inl \<lparr>cr_status = ProcessStatus_from_exit_status (the status),
        cr_stdout = from_utf8_lossy (Raw out), cr_stderr = from_utf8_lossy (Raw err)\<rparr>)) Q E"
  proof (rule returns_ok, rule assms(5))
    fix s assume s: "?P s"
    then have b: "pv_output (v s) = read_so_far out err" by (simp add: calm_with_def)
    have "length (pv_output (v s) p) \<le> COMMAND_OUTPUT_LIMIT" for p using assms(1,2) by (cases p) (simp_all add: b)
    then show "whole_result (v s) \<lparr>cr_status = ProcessStatus_from_exit_status (the status),
        cr_stdout = from_utf8_lossy (Raw out), cr_stderr = from_utf8_lossy (Raw err)\<rparr>"
      using s ended by (auto simp: whole_result_def calm_with_def calm_def status_marks_def eof_marks_def)
  qed
next
  have less: "calm_with v (T + 1) g (eof_marks StderrPipe err_eof \<union> (eof_marks StdoutPipe out_eof \<union> (status_marks status \<union> M))) (read_so_far out err) s
      \<Longrightarrow> watched v (T + 1) g \<lparr>sv_status = status, sv_stdout = out, sv_stderr = err, sv_stdout_eof = out_eof, sv_stderr_eof = err_eof\<rparr> s \<and> calm v T g {} s" for s
    by (auto simp: watched_def calm_with_def calm_def)
  show "returns ?P (d_bind (d_try (ph_poll h ((if out_eof then [] else [StdoutPipe]) @ (if err_eof then [] else [StderrPipe])) ms)) (\<lambda>polled. case polled of
        Inl (PollErrno why) \<Rightarrow> d_err (Output command why)
      | _ \<Rightarrow> d_ok (Inr \<lparr>sv_status = status, sv_stdout = out, sv_stderr = err, sv_stdout_eof = out_eof, sv_stderr_eof = err_eof\<rparr>))) Q E"
    by (rule returns_bind [OF returns_try [OF calls(6)]])
      (use less assms(3,4) in \<open>auto intro!: returns_ok returns_err split: sum.split poll_error.split\<close>)
qed

text \<open>A run of the loop that fails reports a timeout only when the time has passed.\<close>

definition stopped :: "nat \<Rightarrow> nat \<Rightarrow> nat \<Rightarrow> command_runner_error \<Rightarrow> 's \<Rightarrow> bool" where
  "stopped T g deadline e s \<longleftrightarrow> calm v T g {} s \<and> (\<forall>c n. e = Timeout c n \<longrightarrow> deadline \<le> pv_time (v s))"

lemma once_returns:
  assumes sv: "in_bounds sv" and started: "started \<le> T"
  shows "returns (watched v T g sv) (supervise_once h request command started sv)
    (\<lambda>turn s. case turn of Inl res \<Rightarrow> whole_result (v s) res
      | Inr sv' \<Rightarrow> watched v (T + 1) g sv' s \<and> in_bounds sv' \<and> T < started + req_timeout_ms request * 1000000)
    (stopped T g (started + req_timeout_ms request * 1000000))"
proof (rule returnsI)
  fix s assume s: "watched v T g sv s"
  let ?E = "stopped T g (started + req_timeout_ms request * 1000000)"
  let ?Q = "\<lambda>turn s. case turn of Inl res \<Rightarrow> whole_result (v s) res
      | Inr sv' \<Rightarrow> watched v (T + 1) g sv' s \<and> in_bounds sv' \<and> T < started + req_timeout_ms request * 1000000"
  let ?D = "eof_marks StdoutPipe (sv_stdout_eof sv) \<union> eof_marks StderrPipe (sv_stderr_eof sv)"
  obtain now t where now: "ph_now h s = (now, t)" by fastforce
  have t: "watched v T g sv t" "T \<le> now" "now \<le> pv_time (v t)"
    using clock(3) [OF s [unfolded watched_def]] clock(5,6) [of s] s now by (auto simp: watched_def calm_with_def calm_def)
  define rem where "rem = req_timeout_ms request * 1000000 - (now - started)"
  have E: "?E (Output command e) s" "?E (Poll command e) s" if "calm v T g {} s" for e s using that by (simp_all add: stopped_def)
  have status: "returns (watched v T g sv) (if sv_status sv = None then d_map_err (Poll command) (ph_try_wait h) else d_ok (sv_status sv))
      (\<lambda>status. calm_with v T g (status_marks status \<union> ?D) (read_so_far (sv_stdout sv) (sv_stderr sv))) ?E"
    unfolding watched_def
    by (intro returns_if returns_ok returns_map_err returns_weaken [OF calls(5) [of T g ?D]])
      (use E(2) in \<open>auto simp: status_marks_def Un_assoc calm_with_def intro: calm_less\<close>)
  have body: "returns (watched v T g sv)
     (d_bind (if sv_status sv = None then d_map_err (Poll command) (ph_try_wait h) else d_ok (sv_status sv)) (\<lambda>status.
        d_bind (if sv_stdout_eof sv then d_ok (True, sv_stdout sv)
          else d_map_err (Output command) (drain_output h StdoutPipe (sv_stdout sv))) (\<lambda>(stdout_eof, stdout).
        d_bind (if sv_stderr_eof sv then d_ok (True, sv_stderr sv)
          else d_map_err (Output command) (drain_output h StderrPipe (sv_stderr sv))) (\<lambda>(stderr_eof, stderr).
        if status \<noteq> None \<and> stdout_eof \<and> stderr_eof
        then d_ok (Inl \<lparr>cr_status = ProcessStatus_from_exit_status (the status),
           cr_stdout = from_utf8_lossy (Raw stdout), cr_stderr = from_utf8_lossy (Raw stderr)\<rparr>)
        else d_bind (d_try (ph_poll h ((if stdout_eof then [] else [StdoutPipe]) @ (if stderr_eof then [] else [StderrPipe]))
             (min (rem div 1000000) 10))) (\<lambda>polled. case polled of
           Inl (PollErrno why) \<Rightarrow> d_err (Output command why)
         | _ \<Rightarrow> d_ok (Inr \<lparr>sv_status = status, sv_stdout = stdout, sv_stderr = stderr,
          sv_stdout_eof = stdout_eof, sv_stderr_eof = stderr_eof\<rparr>)))))) ?Q ?E" if "rem \<noteq> 0"
  proof (rule returns_bind [OF status], rule returns_bind [OF drain_stage], goal_cases)
    case (5 status x)
    obtain out_eof out where x: "x = (out_eof, out)" by fastforce
    have "T < started + req_timeout_ms request * 1000000" using that t(2) by (simp add: rem_def)
    note early = this
    show ?case unfolding x prod.case read_so_far_upd
    proof (rule returns_lift, rule returns_bind [OF drain_stage], goal_cases)
      case inner: (5 y)
      obtain err_eof err where y: "y = (err_eof, err)" by fastforce
      show ?case unfolding y prod.case read_so_far_upd
        by (rule returns_lift, rule turn_returns) (use inner early E in \<open>auto simp: in_bounds_def\<close>)
    qed (use sv E in \<open>auto simp: in_bounds_def eof_marks_def\<close>)
  qed (use sv E in \<open>auto simp: in_bounds_def eof_marks_def\<close>)
  show "\<exists>r s'. supervise_once h request command started sv s = Some (r, s') \<and> (case r of Inl e \<Rightarrow> ?E e s' | Inr x \<Rightarrow> ?Q x s')"
  proof (cases "rem = 0")
    case True
    have "supervise_once h request command started sv s = Some (Inl (Timeout command (duration_millis_u64 (req_timeout_ms request))), t)"
      unfolding supervise_once_def now prod.case Let_def True [unfolded rem_def] by (simp add: d_err_def)
    moreover have "started + req_timeout_ms request * 1000000 \<le> pv_time (v t)" using True t(2,3) started by (simp add: rem_def)
    moreover have "calm v T g {} t" using t(1) by (auto simp: watched_def calm_with_def intro: calm_less)
    ultimately show ?thesis by (simp add: stopped_def)
  next
    case False
    show ?thesis
      unfolding supervise_once_def now prod.case Let_def rem_def [symmetric] if_not_P [OF False]
      by (rule returns_imp [OF body [OF False] t(1)])
  qed
qed

end

lemma returns_never_fails_at:
  assumes "returns P m Q (\<lambda>_ _. False)" "P s"
  shows "\<exists>x s'. m s = Some (Inr x, s')"
proof -
  obtain r s' where "m s = Some (r, s')" "case r of Inl e \<Rightarrow> False | Inr x \<Rightarrow> Q x s'" using returns_imp [OF assms] by blast
  then show ?thesis by (cases r) auto
qed

section \<open>The loop ends\<close>

lemma supervise_fails: "supervise_once h request command started sv s = Some (Inl e, t) \<Longrightarrow>
    supervise h request command started sv s = Some (Inl e, t)"
  and supervise_ends: "supervise_once h request command started sv s = Some (Inr (Inl res), t) \<Longrightarrow>
    supervise h request command started sv s = Some (Inr res, t)"
  and supervise_again: "supervise_once h request command started sv s = Some (Inr (Inr sv'), t) \<Longrightarrow>
    supervise h request command started sv s = supervise h request command started sv' t"
  by (subst supervise.simps, simp)+

context process_system
begin

lemma stopped_earlier: "stopped T' g d' e s \<Longrightarrow> T \<le> T' \<Longrightarrow> d \<le> d' \<Longrightarrow> stopped T g d e s"
  by (auto simp: stopped_def intro: calm_less)

lemma supervise_returns:
  "in_bounds sv \<Longrightarrow> started \<le> T \<Longrightarrow> returns (watched v T g sv) (supervise h request command started sv)
     (\<lambda>res s. whole_result (v s) res) (stopped T g (started + req_timeout_ms request * 1000000))"
proof (induction "started + req_timeout_ms request * 1000000 - T" arbitrary: T sv rule: less_induct)
  case less
  let ?E = "stopped T g (started + req_timeout_ms request * 1000000)"
  show ?case
  proof (rule returnsI)
    fix s assume "watched v T g sv s"
    from returns_imp [OF once_returns [OF less.prems] this, of request command]
    obtain r t where once: "supervise_once h request command started sv s = Some (r, t)"
      and r: "case r of Inl e \<Rightarrow> ?E e t | Inr turn \<Rightarrow> (case turn of Inl res \<Rightarrow> whole_result (v t) res
      | Inr sv' \<Rightarrow> watched v (T + 1) g sv' t \<and> in_bounds sv' \<and> T < started + req_timeout_ms request * 1000000)"
      by blast
    show "\<exists>r s'. supervise h request command started sv s = Some (r, s') \<and>
        (case r of Inl e \<Rightarrow> ?E e s' | Inr res \<Rightarrow> whole_result (v s') res)"
    proof (cases r)
      case (Inl e)
      then show ?thesis using r supervise_fails [OF once [unfolded Inl]] by auto
    next
      case (Inr turn)
      show ?thesis
      proof (cases turn)
        case (Inl res)
        then show ?thesis using r Inr supervise_ends [OF once [unfolded Inr Inl]] by auto
      next
        case again: (Inr sv')
        then have sv': "watched v (T + 1) g sv' t" "in_bounds sv'" "T < started + req_timeout_ms request * 1000000"
          using r Inr by simp_all
        have "supervise h request command started sv s = supervise h request command started sv' t"
          using once Inr again supervise_again by simp
        moreover have "started + req_timeout_ms request * 1000000 - (T + 1) < started + req_timeout_ms request * 1000000 - T"
          using sv'(3) by simp
        ultimately show ?thesis
          using returns_imp [OF less.hyps [OF _ sv'(2)] sv'(1)] less.prems(2)
          by (fastforce split: sum.splits intro: stopped_earlier)
      qed
    qed
  qed
qed

lemma collect_returns:
  "returns (calm_with v T g {} (\<lambda>_. [])) (collect_output h request command) (\<lambda>res s. whole_result (v s) res)
     (stopped T g (T + req_timeout_ms request * 1000000))"
proof -
  let ?E = "stopped T g (T + req_timeout_ms request * 1000000)" and ?P = "calm_with v T g {} (\<lambda>_. [])"
  let ?sv = "\<lparr>sv_status = None, sv_stdout = [], sv_stderr = [], sv_stdout_eof = False, sv_stderr_eof = False\<rparr>"
  have E: "?E (Output c e) s" if "?P s" for c e s using that by (simp add: stopped_def calm_with_def)
  have take: "returns ?P (take_pipe h command p why) (\<lambda>_. ?P) ?E" for p why
  proof (rule returnsI)
    fix s assume s: "?P s"
    obtain b t where b: "ph_take h p s = (b, t)" by fastforce
    have "?P t" using clock(1) [OF s, of p] b by simp
    then show "\<exists>r s'. take_pipe h command p why s = Some (r, s') \<and> (case r of Inl e \<Rightarrow> ?E e s' | Inr x \<Rightarrow> ?P s')"
      using E by (simp add: take_pipe_def b)
  qed
  have flags: "returns ?P (d_map_err (Output command) (set_nonblocking h p)) (\<lambda>_. ?P) ?E" for p
    unfolding set_nonblocking_def
    by (rule returns_map_err, rule returns_bind [OF returns_weaken [OF calls(2)] returns_weaken [OF calls(3)]]) (auto intro: E)
  show ?thesis unfolding collect_output_def
  proof (rule returns_bind [OF take returns_bind [OF take returns_bind [OF flags returns_bind [OF flags]]]], rule returnsI)
    fix s assume s: "?P s"
    obtain now t where now: "ph_now h s = (now, t)" by fastforce
    have "T \<le> now" "now \<le> pv_time (v t)" using clock(5,6) [of s] now s by (auto simp: calm_with_def calm_def)
    moreover from this clock(3) [OF s] have "watched v now g ?sv t"
      using now by (auto simp: watched_def status_marks_def eof_marks_def calm_with_def calm_def)
    moreover have "in_bounds ?sv" by (simp add: in_bounds_def)
    ultimately show "\<exists>r s'. (case ph_now h s of (started, s) \<Rightarrow> supervise h request command started ?sv s) = Some (r, s')
       \<and> (case r of Inl e \<Rightarrow> ?E e s' | Inr res \<Rightarrow> whole_result (v s') res)"
      using returns_imp [OF supervise_returns [OF _ order_refl], of ?sv now g t request command]
      by (fastforce simp: now split: sum.splits intro: stopped_earlier)
  qed
qed

lemma terminate_returns:
  "returns (calm v T g {}) (terminate_child_process_tree h) (\<lambda>_. calm v T g (tree_marks g)) (\<lambda>_ _. False)"
proof (rule returnsI)
  fix s assume s: "calm v T g {} s"
  obtain i t where i: "ph_child_id h s = (i, t)" by fastforce
  have t: "calm v T g {} t" "i = g"
    using clock(2) [of T g "{}" "pv_output (v s)" s] clock(4) [of s] s i by (simp_all add: calm_with_def calm_def)
  have attempt: "returns (calm v T g M) (d_try m) (\<lambda>_. calm v T g M') (\<lambda>_ _. False)"
    if "\<And>B. returns (calm_with v T g M B) m (\<lambda>_. calm_with v T g M' B) (\<lambda>_. calm_with v T g M' B)" for m :: "('s, unit, unit) dact" and M M'
    by (rule returns_weaken [OF returns_try [OF calm_from_with [OF that]]]) (auto split: sum.splits)
  let ?C = "if g < 2 ^ 31 then {Gone, Cleared} else {}"
  have "returns (calm v T g {}) (d_bind (if i < 2 ^ 31 then d_bind (d_try (ph_killpg h i)) (\<lambda>_. d_ok ()) else d_ok ()) (\<lambda>_.
     d_bind (d_try (ph_kill h)) (\<lambda>_. d_bind (d_try (ph_wait h)) (\<lambda>_. d_ok ())))) (\<lambda>_. calm v T g (tree_marks g)) (\<lambda>_ _. False)"
  proof (rule returns_bind)
    show "returns (calm v T g {}) (if i < 2 ^ 31 then d_bind (d_try (ph_killpg h i)) (\<lambda>_. d_ok ()) else d_ok ()) (\<lambda>_. calm v T g ?C) (\<lambda>_ _. False)"
    proof (cases "g < 2 ^ 31")
      case True
      then show ?thesis using attempt [OF kills(1), of "{}"] by (simp add: t(2)) (rule returns_bind, auto intro: returns_ok)
    qed (simp add: t(2) returns_ok)
    show "returns (calm v T g ?C) (d_bind (d_try (ph_kill h)) (\<lambda>_. d_bind (d_try (ph_wait h)) (\<lambda>_. d_ok ()))) (\<lambda>_. calm v T g (tree_marks g)) (\<lambda>_ _. False)"
      by (rule returns_bind [OF attempt [OF kills(2)]], rule returns_bind [OF attempt [OF calls(7)]], simp, rule returns_ok)
        (auto simp: calm_def tree_marks_def)
  qed
  from returns_imp [OF this t(1)]
  show "\<exists>r s'. terminate_child_process_tree h s = Some (r, s') \<and> (case r of Inl e \<Rightarrow> False | Inr x \<Rightarrow> calm v T g (tree_marks g) s')"
    unfolding terminate_child_process_tree_def i prod.case .
qed

lemma execute_returns:
  "returns (\<lambda>s. T \<le> pv_time (v s)) (system_execute h request) (\<lambda>res s. whole_result (v s) res)
     (\<lambda>e s. (\<exists>c why. e = Spawn c why) \<or> tree_marks (pv_group (v s)) \<subseteq> pv_marks (v s)
        \<and> (\<forall>c n. e = Timeout c n \<longrightarrow> T + req_timeout_ms request * 1000000 \<le> pv_time (v s)))"
  unfolding system_execute_def Let_def
proof (rule returns_bind)
  let ?c = "display_command (req_program request) (req_args request)"
  let ?E = "\<lambda>e s. (\<exists>c why. e = Spawn c why) \<or> tree_marks (pv_group (v s)) \<subseteq> pv_marks (v s)
        \<and> (\<forall>c n. e = Timeout c n \<longrightarrow> T + req_timeout_ms request * 1000000 \<le> pv_time (v s))"
  show "returns (\<lambda>s. T \<le> pv_time (v s)) (d_map_err (Spawn ?c) (ph_spawn h request))
     (\<lambda>_ s. T \<le> pv_time (v s) \<and> pv_marks (v s) \<subseteq> {Gone, Cleared} \<and> pv_output (v s) = (\<lambda>_. [])) ?E"
    by (rule returns_map_err, rule returns_weaken [OF calls(1)]) auto
  let ?rest = "d_bind (d_try (collect_output h request ?c)) (\<lambda>result. case result of
        Inl e \<Rightarrow> d_bind (terminate_child_process_tree h) (\<lambda>_. d_err e) | Inr r \<Rightarrow> d_ok r)"
  have rest: "returns (calm_with v T g {} (\<lambda>_. [])) ?rest (\<lambda>res s. whole_result (v s) res) ?E" for g
  proof (rule returns_bind [OF returns_try [OF collect_returns]])
    fix r :: "command_runner_error + command_result"
    let ?d = "T + req_timeout_ms request * 1000000"
    show "returns (\<lambda>s. case r of Inl e \<Rightarrow> stopped T g ?d e s | Inr res \<Rightarrow> whole_result (v s) res)
        (case r of Inl e \<Rightarrow> d_bind (terminate_child_process_tree h) (\<lambda>_. d_err e) | Inr r \<Rightarrow> d_ok r)
        (\<lambda>res s. whole_result (v s) res) ?E"
    proof (cases r)
      case (Inl e)
      show ?thesis unfolding Inl sum.case
      proof (rule returns_pre)
        let ?T = "if \<exists>c n. e = Timeout c n then ?d else T"
        show "calm v ?T g {} s" if "stopped T g ?d e s" for s using that by (auto simp: stopped_def calm_def)
        show "returns (calm v ?T g {}) (d_bind (terminate_child_process_tree h) (\<lambda>_. d_err e)) (\<lambda>res s. whole_result (v s) res) ?E"
          by (rule returns_bind [OF returns_weaken [OF terminate_returns]], assumption, assumption, simp, rule returns_err)
            (auto simp: calm_def split: if_splits)
      qed
    qed (auto intro: returns_ok)
  qed
  show "returns (\<lambda>s. T \<le> pv_time (v s) \<and> pv_marks (v s) \<subseteq> {Gone, Cleared} \<and> pv_output (v s) = (\<lambda>_. [])) ?rest
      (\<lambda>res s. whole_result (v s) res) ?E"
  proof (rule returnsI)
    fix s assume "T \<le> pv_time (v s) \<and> pv_marks (v s) \<subseteq> {Gone, Cleared} \<and> pv_output (v s) = (\<lambda>_. [])"
    then have "calm_with v T (pv_group (v s)) {} (\<lambda>_. []) s" by (simp add: calm_with_def calm_def)
    from returns_imp [OF rest this] show "\<exists>r s'. ?rest s = Some (r, s') \<and> (case r of Inl e \<Rightarrow> ?E e s' | Inr res \<Rightarrow> whole_result (v s') res)" .
  qed
qed

end

section \<open>A machine with one child\<close>

text \<open>
  The child writes its chunks and exits with code 0 after its lifetime, if it has one. It holds its pipes
  until then. Waiting for a child that does not exit and was not killed does not return.
\<close>

record demo_process =
  dp_time :: nat
  dp_chunks :: "8 word list list"
  dp_lifetime :: "nat option"
  dp_marks :: "mark set"
  dp_out :: "8 word list"
  dp_err :: "8 word list"

definition demo_exited :: "demo_process \<Rightarrow> bool" where
  "demo_exited s \<longleftrightarrow> Gone \<in> dp_marks s \<or> (case dp_lifetime s of Some l \<Rightarrow> l \<le> dp_time s | None \<Rightarrow> False)"

definition demo_mark :: "mark set \<Rightarrow> demo_process \<Rightarrow> demo_process" where
  "demo_mark M s = s\<lparr>dp_marks := M \<union> dp_marks s\<rparr>"

fun demo_read :: "pipe \<Rightarrow> nat \<Rightarrow> demo_process \<Rightarrow> (pipe_error + 8 word list) \<times> demo_process" where
  "demo_read StdoutPipe n s = (case dp_chunks s of
       chunk # chunks \<Rightarrow> (let bytes = take n chunk; s = s\<lparr>dp_chunks := chunks, dp_out := dp_out s @ bytes\<rparr>
         in (Inr bytes, if bytes = [] then demo_mark {Drained StdoutPipe} s else s))
     | [] \<Rightarrow> if demo_exited s then (Inr [], demo_mark {Drained StdoutPipe} s) else (Inl PipeWouldBlock, s))"
| "demo_read StderrPipe n s = (if demo_exited s then (Inr [], demo_mark {Drained StderrPipe} s) else (Inl PipeWouldBlock, s))"

definition demo_processes :: "demo_process process_host" where
  "demo_processes = \<lparr>
     ph_spawn = (\<lambda>_ s. Some (Inr (), s\<lparr>dp_marks := {}, dp_out := [], dp_err := []\<rparr>)),
     ph_take = (\<lambda>_ s. (True, s)), ph_get_flags = (\<lambda>_. d_ok 0), ph_set_flags = (\<lambda>_ _. d_ok ()),
     ph_now = (\<lambda>s. (dp_time s, s)),
     ph_try_wait = (\<lambda>s. Some (let status = \<lparr>es_code = Some 0, es_signal = None\<rparr> in
        if demo_exited s then (Inr (Some status), demo_mark {ExitedWith status, Gone, Reaped} s) else (Inr None, s))),
     ph_read = (\<lambda>p n s. Some (demo_read p n s)),
     ph_poll = (\<lambda>_ n s. Some (Inr (), s\<lparr>dp_time := dp_time s + (n + 1) * 1000000\<rparr>)),
     ph_child_id = (\<lambda>s. (7, s)),
     ph_killpg = (\<lambda>g s. Some (if g = 7 then (Inr (), demo_mark {Gone, Cleared} s) else (Inl (), s))),
     ph_kill = (\<lambda>s. Some (Inr (), demo_mark {Gone} s)),
     ph_wait = (\<lambda>s. if demo_exited s then Some (Inr (), demo_mark {Gone, Reaped} s)
        else map_option (\<lambda>l. (Inr (), demo_mark {Gone, Reaped} (s\<lparr>dp_time := l\<rparr>))) (dp_lifetime s))\<rparr>"

definition demo_child :: "demo_process \<Rightarrow> process_view" where
  "demo_child s = \<lparr>pv_time = dp_time s, pv_group = 7, pv_marks = dp_marks s, pv_output = read_so_far (dp_out s) (dp_err s)\<rparr>"

lemma demo_reads:
  "returns (calm_with demo_child T g M B) (\<lambda>s. Some (demo_read p n s))
     (\<lambda>chunk. calm_with demo_child T g (if chunk = [] then insert (Drained p) M else M) (B(p := B p @ chunk)))
     (\<lambda>_. calm_with demo_child T g M B)"
  by (cases p) (auto simp: returns_def calm_with_def calm_def demo_child_def demo_mark_def Let_def split: list.splits)

lemma demo_processes_law: "process_law demo_processes demo_child" "signal_law demo_processes demo_child"
proof -
  have "ph_read demo_processes p n = (\<lambda>s. Some (demo_read p n s))" for p n by (simp add: demo_processes_def)
  note reads = demo_reads [of _ _ _ _ p n for p n, folded this]
  show "process_law demo_processes demo_child"
    unfolding process_law_def
  proof (intro conjI allI, goal_cases)
    case (4 T g M B p n)
    show ?case by (rule reads)
  qed (auto simp: demo_processes_def calm_call_def returns_def calm_with_def calm_def d_ok_def demo_child_def demo_mark_def
        demo_exited_def status_marks_def Let_def)
  show "signal_law demo_processes demo_child"
    by (auto simp: signal_law_def demo_processes_def returns_def calm_with_def calm_def demo_child_def demo_mark_def)
qed

interpretation child_system: process_system demo_processes demo_child
  by unfold_locales (rule demo_processes_law)+

definition listing_request :: command_request where
  "listing_request = \<lparr>req_program = lit ''ipset'', req_args = [lit ''list''], req_timeout_ms = 25\<rparr>"

text \<open>A child that writes two bytes and then hangs.\<close>

definition sleeping :: demo_process where
  "sleeping = \<lparr>dp_time = 5, dp_chunks = [[104, 105]], dp_lifetime = None, dp_marks = {}, dp_out = [], dp_err = []\<rparr>"

text \<open>
  C13: An external command always comes back, and leaves nothing running. Whatever the child does,
  its supervision ends: with a result only after the child's status was reported, which reaped it, and
  both its pipes were read to the end; the result is that status and the text of all that was read, each
  pipe within the output limit. With an error, unless the child was never started, its process group was
  killed (if its id fits a signed 32-bit number), the child itself was, and it was reaped. A timeout is
  reported only when the time has passed.
\<close>

theorem command_always_returns:
  assumes "process_law h v" "signal_law h v"
  shows "\<exists>r s'. system_execute h request s = Some (r, s')
    \<and> (case r of
         Inr res \<Rightarrow> {Reaped, Drained StdoutPipe, Drained StderrPipe} \<subseteq> pv_marks (v s')
           \<and> (\<exists>status. ExitedWith status \<in> pv_marks (v s') \<and> cr_status res = ProcessStatus_from_exit_status status)
           \<and> cr_stdout res = from_utf8_lossy (Raw (pv_output (v s') StdoutPipe))
           \<and> cr_stderr res = from_utf8_lossy (Raw (pv_output (v s') StderrPipe))
           \<and> (\<forall>p. length (pv_output (v s') p) \<le> COMMAND_OUTPUT_LIMIT)
       | Inl e \<Rightarrow> (\<exists>c why. e = Spawn c why)
           \<or> {Gone, Reaped} \<subseteq> pv_marks (v s') \<and> (pv_group (v s') < 2 ^ 31 \<longrightarrow> Cleared \<in> pv_marks (v s'))
             \<and> (\<forall>c n. e = Timeout c n \<longrightarrow> pv_time (v s) + req_timeout_ms request * 1000000 \<le> pv_time (v s')))"
proof -
  obtain r s' where "system_execute h request s = Some (r, s')"
    "case r of Inl e \<Rightarrow> (\<exists>c why. e = Spawn c why) \<or> tree_marks (pv_group (v s')) \<subseteq> pv_marks (v s')
        \<and> (\<forall>c n. e = Timeout c n \<longrightarrow> pv_time (v s) + req_timeout_ms request * 1000000 \<le> pv_time (v s'))
     | Inr res \<Rightarrow> whole_result (v s') res"
    using returns_imp [OF process_system.execute_returns [OF process_system.intro [OF assms]] order_refl] by blast
  then show ?thesis by (auto simp: whole_result_def tree_marks_def split: sum.splits if_splits)
qed

theorem command_always_returns_witness:
  "\<exists>s'. system_execute demo_processes listing_request sleeping = Some (Inl (Timeout (lit ''ipset list'') 25), s')
     \<and> {Gone, Reaped, Cleared} \<subseteq> dp_marks s' \<and> dp_time sleeping + 25000000 \<le> dp_time s'"
proof -
  let ?c = "lit ''ipset list''" and ?out = "[104, 105] :: 8 word list"
  let ?sv = "\<lambda>out. \<lparr>sv_status = None, sv_stdout = out, sv_stderr = [], sv_stdout_eof = False, sv_stderr_eof = False\<rparr>"
  let ?at = "\<lambda>t. sleeping\<lparr>dp_time := t, dp_chunks := [], dp_out := ?out\<rparr>"
  have turns: "supervise_once demo_processes listing_request ?c 5 (?sv []) sleeping = Some (Inr (Inr (?sv ?out)), ?at 11000005)"
    "supervise_once demo_processes listing_request ?c 5 (?sv ?out) (?at 11000005) = Some (Inr (Inr (?sv ?out)), ?at 22000005)"
    "supervise_once demo_processes listing_request ?c 5 (?sv ?out) (?at 22000005) = Some (Inr (Inr (?sv ?out)), ?at 26000005)"
    "supervise_once demo_processes listing_request ?c 5 (?sv ?out) (?at 26000005) = Some (Inl (Timeout ?c 25), ?at 26000005)"
    by code_simp+
  have "collect_output demo_processes listing_request ?c sleeping = supervise demo_processes listing_request ?c 5 (?sv []) sleeping"
    by (simp add: collect_output_def take_pipe_def set_nonblocking_def d_bind_def d_map_err_def d_ok_def demo_processes_def sleeping_def)
  also have "\<dots> = Some (Inl (Timeout ?c 25), ?at 26000005)"
    unfolding supervise_again [OF turns(1)] supervise_again [OF turns(2)] supervise_again [OF turns(3)] by (rule supervise_fails [OF turns(4)])
  finally have collected: "collect_output demo_processes listing_request ?c sleeping = Some (Inl (Timeout ?c 25), ?at 26000005)" .
  have spawned: "ph_spawn demo_processes listing_request sleeping = Some (Inr (), sleeping)"
    by (simp add: demo_processes_def sleeping_def)
  obtain t where "terminate_child_process_tree demo_processes (?at 26000005) = Some (Inr () :: command_runner_error + unit, t)"
    using returns_never_fails_at [OF child_system.terminate_returns, of 0 7 "?at 26000005"] by (auto simp: calm_def demo_child_def)
  then have "\<exists>s'. system_execute demo_processes listing_request sleeping = Some (Inl (Timeout ?c 25), s')"
    using collected spawned
    by (simp add: system_execute_def listing_request_def display_command_def lit_def d_bind_def d_map_err_def d_try_def d_err_def Let_def)
  then show ?thesis
    using command_always_returns [OF demo_processes_law, of listing_request sleeping] by (auto simp: listing_request_def demo_child_def)
qed

end
