(* ===== verification/Preview_App.thy ===== *)
theory Preview_App
  imports Sync_Order
begin

text \<open>
  The preview workflow, \<^verbatim>\<open>crates/kidobo-app/src/preview.rs\<close>: the selection of a synchronization
  from sources that can only be read, under a shared lock, without artifacts, promotion or
  enforcement. The lemmas show that it predicts what a synchronization does from the same answers.
\<close>

section \<open>Sources and ports\<close>

record preview_source_load =
  pl_primary :: source_batch
  pl_fallback :: "source_batch option"
  pl_observations :: "source_observation list"

definition preview_load_ready :: "source_batch \<Rightarrow> preview_source_load" where
  "preview_load_ready primary = \<lparr>pl_primary = primary, pl_fallback = None, pl_observations = []\<rparr>"

record preview_source_context =
  pcx_sync :: source_context
  pcx_allow_network :: bool

record 's preview_provider =
  pv_descriptor :: source_descriptor
  pv_load :: "preview_source_context \<Rightarrow> ('s, app_error, preview_source_load) dact"

record 's preview_registry =
  pg_providers :: "'s preview_provider list"
  pg_ids :: "rstr set"

definition preview_registry_new :: "'s preview_registry" where
  "preview_registry_new = \<lparr>pg_providers = [], pg_ids = {}\<rparr>"

definition preview_registry_register :: "'s preview_registry \<Rightarrow> 's preview_provider \<Rightarrow> app_error + 's preview_registry" where
  "preview_registry_register r p =
     (let i = desc_id (pv_descriptor p)
      in if i \<in> pg_ids r then Inl (DuplicateSourceProvider i)
         else Inr \<lparr>pg_providers = pg_providers r @ [p], pg_ids = insert i (pg_ids r)\<rparr>)"

definition preview_registry_descriptors :: "'s preview_registry \<Rightarrow> source_descriptor list" where
  "preview_registry_descriptors r = map pv_descriptor (pg_providers r)"

text \<open>The capabilities of a preview: nothing that saves, prunes or enforces.\<close>

record 's preview_dependencies =
  pd_is_cancelled :: "'s \<Rightarrow> bool \<times> 's"
  pd_resolve :: "path_resolution_input \<Rightarrow> config_requirement \<Rightarrow> ('s, app_error, resolved_paths) dact"
  pd_load_config :: "rstr \<Rightarrow> ('s, app_error, config) dact"
  pd_acquire_existing :: "rstr \<Rightarrow> ('s, app_error, unit) dact"
  pd_release :: "'s \<Rightarrow> 's"
  pd_now :: "('s, app_error, nat) dact"
  pd_load_bans :: "rstr \<Rightarrow> ('s, app_error, temporary_bans) dact"
  pd_sources :: "'s preview_registry"

definition preview_check :: "'s preview_dependencies \<Rightarrow> ('s, app_error, unit) dact" where
  "preview_check p s = (case pd_is_cancelled p s of (c, s) \<Rightarrow> Some (if c then Inl Interrupted else Inr (), s))"

record preview_request =
  pq_paths :: path_resolution_input
  pq_allow_network :: bool

record preview_outcome =
  po_entries :: prepared_sync_entries
  po_enable_ipv6 :: bool
  po_sources :: "source_summary list"
  po_notices :: "notice list"
  po_allow_network :: bool

section \<open>Loading and admission\<close>

record preview_external =
  px_provider :: rstr
  px_primary :: source_batch
  px_fallback :: "source_batch option"
  px_summary_index :: nat

record preview_loaded =
  pld_candidates :: "canonical_cidr list"
  pld_safelist :: "canonical_cidr list"
  pld_external :: "preview_external list"
  pld_summaries :: "source_summary list"
  pld_notices :: "notice list"

definition preview_record_loaded :: "source_descriptor \<Rightarrow> preview_source_load \<Rightarrow> preview_loaded \<Rightarrow> preview_loaded" where
  "preview_record_loaded desc batch acc =
     (let observations = (if pl_observations batch = []
            then [\<lparr>obs_label = desc_id desc, obs_provenance = LocalSource\<rparr>] else pl_observations batch);
          primary = pl_primary batch;
          noticed = acc\<lparr>pld_notices := pld_notices acc @ batch_notices primary\<rparr>;
          acc' = (case desc_role desc of
              Candidate \<Rightarrow> noticed\<lparr>pld_candidates := pld_candidates acc @ batch_networks primary\<rparr>
            | Safelist \<Rightarrow> noticed\<lparr>pld_safelist := pld_safelist acc @ batch_networks primary\<rparr>
            | ExternalSafelist \<Rightarrow> noticed\<lparr>pld_external := pld_external acc @ [
                \<lparr>px_provider = desc_id desc, px_primary = primary, px_fallback = pl_fallback batch,
                 px_summary_index = length (pld_summaries acc)\<rparr>]\<rparr>)
      in acc'\<lparr>pld_summaries := pld_summaries acc @ [\<lparr>sum_id = desc_id desc, sum_role = desc_role desc,
            sum_entries = length (batch_networks primary), sum_loaded = True, sum_observations = observations\<rparr>]\<rparr>)"

definition preview_record_degraded :: "source_descriptor \<Rightarrow> app_error \<Rightarrow> preview_loaded \<Rightarrow> preview_loaded" where
  "preview_record_degraded desc e acc = acc\<lparr>
     pld_notices := pld_notices acc @ [notice_warning (SourceFailedSoftly (desc_id desc) e)],
     pld_summaries := pld_summaries acc @ [\<lparr>sum_id = desc_id desc, sum_role = desc_role desc, sum_entries = 0,
       sum_loaded = False, sum_observations = [\<lparr>obs_label = desc_id desc, obs_provenance = Unavailable\<rparr>]\<rparr>]\<rparr>"

fun preview_load_each ::
    "'s preview_dependencies \<Rightarrow> preview_source_context \<Rightarrow> 's preview_provider list \<Rightarrow> preview_loaded
     \<Rightarrow> ('s, app_error, preview_loaded) dact" where
  "preview_load_each p ctx [] acc = d_ok acc"
| "preview_load_each p ctx (q # qs) acc =
     d_bind (preview_check p) (\<lambda>_.
       let desc = pv_descriptor q
       in d_bind (d_try (pv_load q ctx)) (\<lambda>loaded. case loaded of
            Inr batch \<Rightarrow> preview_load_each p ctx qs (preview_record_loaded desc batch acc)
          | Inl e \<Rightarrow>
              if classify_source_failure (desc_failure_policy desc) e = Degraded
              then preview_load_each p ctx qs (preview_record_degraded desc e acc)
              else d_err e))"

definition preview_load_sources ::
    "'s preview_dependencies \<Rightarrow> preview_source_context \<Rightarrow> ('s, app_error, preview_loaded) dact" where
  "preview_load_sources p ctx = preview_load_each p ctx (pg_providers (pd_sources p))
     \<lparr>pld_candidates = [], pld_safelist = [], pld_external = [], pld_summaries = [], pld_notices = []\<rparr>"

type_synonym preview_admission = "canonical_cidr list \<times> source_summary list \<times> notice list"

fun preview_admit_each ::
    "'s preview_dependencies \<Rightarrow> canonical_cidr list \<Rightarrow> bool \<Rightarrow> effective_blocklists \<Rightarrow> preview_external list
     \<Rightarrow> preview_admission \<Rightarrow> ('s, app_error, preview_admission) dact" where
  "preview_admit_each p candidates v6 baseline [] acc = d_ok acc"
| "preview_admit_each p candidates v6 baseline (x # xs) (safelist, summaries, notices) =
     d_bind (preview_check p) (\<lambda>_.
     let selection = select_external_safelist candidates safelist (batch_networks (px_primary x))
            (map_option batch_networks (px_fallback x)) v6 baseline
     in if selection = SelectPrimary
        then preview_admit_each p candidates v6 baseline xs (safelist @ batch_networks (px_primary x), summaries, notices)
        else let rejected = notices @ [notice_warning (SafelistRejected (px_provider x))]
        in case (if selection = SelectFallback then px_fallback x else None) of
            Some fallback \<Rightarrow> preview_admit_each p candidates v6 baseline xs
              (safelist @ batch_networks fallback,
               update_summary (px_summary_index x)
                 (\<lambda>sm. set_provenance FallbackCache (sm\<lparr>sum_entries := length (batch_networks fallback)\<rparr>)) summaries,
               rejected @ batch_notices fallback)
          | None \<Rightarrow> preview_admit_each p candidates v6 baseline xs
              (safelist,
               update_summary (px_summary_index x)
                 (\<lambda>sm. set_provenance Unavailable (sm\<lparr>sum_entries := 0, sum_loaded := False\<rparr>)) summaries,
               rejected @ [notice_warning (NoAdmissibleFallback (px_provider x))]))"

definition preview_admit_external_safelists ::
    "'s preview_dependencies \<Rightarrow> canonical_cidr list \<Rightarrow> canonical_cidr list \<Rightarrow> preview_external list \<Rightarrow> bool
     \<Rightarrow> source_summary list \<Rightarrow> notice list \<Rightarrow> ('s, app_error, preview_admission) dact" where
  "preview_admit_external_safelists p candidates safelist externals v6 summaries notices =
     (let baseline = compute_effective_blocklists candidates safelist v6
      in d_bind (preview_admit_each p candidates v6 baseline externals (safelist, summaries, notices))
           (\<lambda>(safelist, summaries, notices). d_ok (sort_dedup safelist, summaries, notices)))"

section \<open>The workflow\<close>

definition preview_locked :: "'s preview_dependencies \<Rightarrow> preview_request \<Rightarrow> resolved_paths \<Rightarrow> ('s, app_error, preview_outcome) dact" where
  "preview_locked p request paths =
     d_bind (preview_check p) (\<lambda>_.
     d_bind (pd_now p) (\<lambda>cutoff.
     d_bind (pd_load_config p (config_file paths)) (\<lambda>cfg.
     d_bind (preview_check p) (\<lambda>_.
     d_bind (pd_load_bans p (temporary_bans_file paths)) (\<lambda>bans.
     d_bind (preview_load_sources p \<lparr>pcx_sync = \<lparr>ctx_paths = paths, ctx_config = cfg, ctx_env = env_vars (pq_paths request),
         ctx_temporary_bans = bans, ctx_cutoff = cutoff\<rparr>, pcx_allow_network = pq_allow_network request\<rparr>) (\<lambda>loaded.
     let notices = pld_notices loaded @ (if timeout (cfg_ipset cfg) \<noteq> 0 \<and> (active_ips bans cutoff \<noteq> [] \<or> active_asns bans cutoff \<noteq> [])
           then [kernel_timeout_notice] else [])
     in d_bind (preview_check p) (\<lambda>_.
     let candidates = sort_dedup (pld_candidates loaded); safelist = sort_dedup (pld_safelist loaded);
         v6 = enable_ipv6 (cfg_ipset cfg)
     in d_bind (preview_admit_external_safelists p candidates safelist (pld_external loaded) v6 (pld_summaries loaded) notices)
         (\<lambda>(safelist, summaries, notices).
     let effective = compute_effective_blocklists candidates safelist v6; plan = EnforcementPlan_from_config cfg
     in d_bind (d_res (prepare_sync_entries effective plan)) (\<lambda>entries.
     d_bind (preview_check p) (\<lambda>_.
       d_ok \<lparr>po_entries = entries, po_enable_ipv6 = v6, po_sources = summaries, po_notices = notices,
         po_allow_network = pq_allow_network request\<rparr>))))))))))"

definition preview_execute :: "'s preview_dependencies \<Rightarrow> preview_request \<Rightarrow> ('s, app_error, preview_outcome) dact" where
  "preview_execute p request =
     d_bind (preview_check p) (\<lambda>_.
     d_bind (pd_resolve p (pq_paths request) ConfigRequired) (\<lambda>paths.
     d_bind (pd_acquire_existing p (lock_file paths)) (\<lambda>_.
       d_finally (pd_release p) (preview_locked p request paths))))"

section \<open>Actions with a fixed answer\<close>

definition always :: "('s, 'e, 'a) dact \<Rightarrow> 'e + 'a \<Rightarrow> bool" where
  "always m x \<longleftrightarrow> (\<forall>s. \<exists>s'. m s = Some (x, s'))"

lemma always_ok: "always (d_ok x) (Inr x)"
  by (simp add: always_def d_ok_def)

lemma always_res: "always (d_res r) r"
  by (simp add: always_def d_res_def)

lemma always_bind: "always m (Inr x) \<Longrightarrow> always (f x) y \<Longrightarrow> always (d_bind m f) y"
  unfolding always_def d_bind_def by (metis (no_types, lifting) option.case(2) prod.case sum.case(2))

lemma always_try: "always m x \<Longrightarrow> always (d_try m) (Inr x)"
  unfolding always_def d_try_def by (metis (no_types, lifting) option.case(2) prod.case)

lemma always_finally: "always m x \<Longrightarrow> always (d_finally f m) x"
  unfolding always_def d_finally_def by (metis (no_types, lifting) option.case(2) prod.case)

lemma alwaysD: "always m x \<Longrightarrow> m s = Some (y, s') \<Longrightarrow> y = x"
  unfolding always_def by (metis option.inject prod.inject)

section \<open>Sources that answer alike\<close>

definition preview_of :: "'s source_load \<Rightarrow> preview_source_load" where
  "preview_of l = \<lparr>pl_primary = load_primary l, pl_fallback = load_fallback l, pl_observations = load_observations l\<rparr>"

text \<open>
  A source of a synchronization and one of a preview with one descriptor, that answer the same
  data in any state: the batches and the observations, or the error.
\<close>

definition answers_alike ::
    "source_context \<Rightarrow> preview_source_context \<Rightarrow> 's source_provider \<Rightarrow> 't preview_provider \<Rightarrow> bool" where
  "answers_alike ctx pctx sp q \<longleftrightarrow> prov_descriptor sp = pv_descriptor q
     \<and> (\<exists>x. always (pv_load q pctx) x \<and> (\<forall>s. \<exists>r s'. prov_load sp ctx s = Some (r, s') \<and> map_sum (\<lambda>e. e) preview_of r = x))"

definition loaded_alike :: "'s loaded_sources \<Rightarrow> preview_loaded \<Rightarrow> bool" where
  "loaded_alike l pl \<longleftrightarrow> ls_candidates l = pld_candidates pl \<and> ls_safelist l = pld_safelist pl \<and> ls_summaries l = pld_summaries pl
     \<and> list_all2 (\<lambda>x y. ext_provider x = px_provider y \<and> ext_primary x = px_primary y \<and> ext_fallback x = px_fallback y
          \<and> ext_summary_index x = px_summary_index y) (ls_external l) (pld_external pl)"

lemma alike_loaded:
  "loaded_alike acc pacc \<Longrightarrow> loaded_alike (record_loaded desc l acc) (preview_record_loaded desc (preview_of l) pacc)"
  by (cases "desc_role desc")
    (auto simp: loaded_alike_def record_loaded_def preview_record_loaded_def preview_of_def Let_def list_all2_appendI)

lemma alike_degraded: "loaded_alike acc pacc \<Longrightarrow> loaded_alike (record_degraded desc acc) (preview_record_degraded desc e pacc)"
  by (simp add: loaded_alike_def record_degraded_def preview_record_degraded_def)

lemma load_alike:
  assumes check: "always (preview_check p) (Inr ())"
  shows "list_all2 (answers_alike ctx pctx) ps qs \<Longrightarrow> loaded_alike acc pacc \<Longrightarrow> load_each d ctx ps acc s = Some (Inr l, s') \<Longrightarrow>
    \<exists>pl. always (preview_load_each p pctx qs pacc) (Inr pl) \<and> loaded_alike l pl"
proof (induction ps qs arbitrary: acc pacc s rule: list_all2_induct)
  case Nil
  then show ?case by (auto simp: d_ok_def always_def)
next
  case (Cons sp ps q qs)
  let ?desc = "prov_descriptor sp"
  obtain x where x: "?desc = pv_descriptor q" "always (pv_load q pctx) x"
    "\<forall>s. \<exists>r s'. prov_load sp ctx s = Some (r, s') \<and> map_sum (\<lambda>e. e) preview_of r = x"
    using Cons.hyps(1) by (auto simp: answers_alike_def)
  obtain t r u where r: "prov_load sp ctx t = Some (r, u)" and go: "(case r of
            Inr loaded \<Rightarrow> d_bind (d_upd (iter_upd (dep_notice d) (batch_notices (load_primary loaded)))) (\<lambda>_.
              load_each d ctx ps (record_loaded ?desc loaded acc))
          | Inl e \<Rightarrow> if classify_source_failure (desc_failure_policy ?desc) e = Degraded
              then d_bind (send_notice d (notice_warning (SourceFailedSoftly (desc_id ?desc) e))) (\<lambda>_. load_each d ctx ps (record_degraded ?desc acc))
              else d_err e) u = Some (Inr l, s')"
    using Cons.prems(2) unfolding load_each.simps Let_def by (elim bind_succeeds) (auto dest!: try_succeeds)
  have xr: "x = map_sum (\<lambda>e. e) preview_of r" using x(3) r by (metis option.inject prod.inject)
  note load = always_try [OF x(2)]
  show ?case
  proof (cases r)
    case (Inr loaded)
    then obtain v where "load_each d ctx ps (record_loaded ?desc loaded acc) v = Some (Inr l, s')"
      using go by (auto elim: bind_succeeds)
    from Cons.IH [OF alike_loaded [OF Cons.prems(1)] this]
    obtain pl where "always (preview_load_each p pctx qs (preview_record_loaded ?desc (preview_of loaded) pacc)) (Inr pl)" "loaded_alike l pl"
      by blast
    then show ?thesis unfolding preview_load_each.simps Let_def
      using Inr xr x(1) by (intro exI [of _ pl] conjI always_bind [OF check] always_bind [OF load]) simp_all
  next
    case (Inl e)
    then have soft: "classify_source_failure (desc_failure_policy ?desc) e = Degraded"
      using go by (auto simp: d_err_def split: if_splits)
    then obtain v where "load_each d ctx ps (record_degraded ?desc acc) v = Some (Inr l, s')"
      using go Inl by (auto elim: bind_succeeds)
    from Cons.IH [OF alike_degraded [OF Cons.prems(1)] this]
    obtain pl where "always (preview_load_each p pctx qs (preview_record_degraded ?desc e pacc)) (Inr pl)" "loaded_alike l pl"
      by blast
    then show ?thesis unfolding preview_load_each.simps Let_def
      using Inl xr x(1) soft by (intro exI [of _ pl] conjI always_bind [OF check] always_bind [OF load]) simp_all
  qed
qed

section \<open>Admission agrees\<close>

lemma admit_alike:
  assumes check: "always (preview_check p) (Inr ())"
  shows "list_all2 (\<lambda>x y. ext_provider x = px_provider y \<and> ext_primary x = px_primary y \<and> ext_fallback x = px_fallback y
          \<and> ext_summary_index x = px_summary_index y) xs ys \<Longrightarrow>
    admit_each d candidates v6 baseline xs (safelist, promotions, summaries) s = Some (Inr (safelist', promotions', summaries'), s') \<Longrightarrow>
    \<exists>ns'. always (preview_admit_each p candidates v6 baseline ys (safelist, summaries, ns)) (Inr (safelist', summaries', ns'))"
proof (induction xs ys arbitrary: safelist promotions summaries ns s rule: list_all2_induct)
  case Nil
  then show ?case by (auto simp: d_ok_def always_def)
next
  case (Cons x xs y ys)
  let ?sel = "select_external_safelist candidates safelist (batch_networks (px_primary y))
            (map_option batch_networks (px_fallback y)) v6 baseline"
  have y: "ext_provider x = px_provider y" "ext_primary x = px_primary y" "ext_fallback x = px_fallback y"
    "ext_summary_index x = px_summary_index y" using Cons.hyps(1) by simp_all
  show ?case
  proof (cases "?sel = SelectPrimary")
    case True
    then have "admit_each d candidates v6 baseline xs (safelist @ batch_networks (px_primary y),
        promotions @ pending_of (ext_provider x) (ext_promotions x), summaries) s = Some (Inr (safelist', promotions', summaries'), s')"
      using Cons.prems by (simp add: y Let_def)
    from Cons.IH [OF this, of ns] True show ?thesis
      by (auto simp: Let_def intro!: always_bind [OF check])
  next
    case False
    show ?thesis
    proof (cases "if ?sel = SelectFallback then px_fallback y else None")
      case (Some fallback)
      then obtain t where "admit_each d candidates v6 baseline xs (safelist @ batch_networks fallback, promotions,
                    update_summary (px_summary_index y)
                      (\<lambda>sm. set_provenance FallbackCache (sm\<lparr>sum_entries := length (batch_networks fallback)\<rparr>)) summaries) t
          = Some (Inr (safelist', promotions', summaries'), s')"
        using Cons.prems False unfolding admit_each.simps Let_def y by (auto elim!: bind_succeeds)
      from Cons.IH [OF this] Some False show ?thesis
        by (auto simp: Let_def intro!: always_bind [OF check])
    next
      case None
      then obtain t where "admit_each d candidates v6 baseline xs (safelist, promotions,
                    update_summary (px_summary_index y)
                      (\<lambda>sm. set_provenance Unavailable (sm\<lparr>sum_entries := 0, sum_loaded := False\<rparr>)) summaries) t
          = Some (Inr (safelist', promotions', summaries'), s')"
        using Cons.prems False unfolding admit_each.simps Let_def y by (auto simp: d_err_def elim!: bind_succeeds split: option.splits)
      from Cons.IH [OF this] None False show ?thesis
        by (auto simp: Let_def intro!: always_bind [OF check])
    qed
  qed
qed

section \<open>The preview predicts the synchronization\<close>

text \<open>The ports that both workflows read answer the same: paths, configuration, time, temporary bans.\<close>

definition steady_sync ::
    "('s, 'z) sync_dependencies_scheme \<Rightarrow> path_resolution_input \<Rightarrow> resolved_paths \<Rightarrow> config \<Rightarrow> nat \<Rightarrow> temporary_bans \<Rightarrow> bool" where
  "steady_sync d request paths cfg cutoff bans \<longleftrightarrow> always (port_resolve d request ConfigRequired) (Inr paths)
     \<and> always (port_load_config d (config_file paths)) (Inr cfg) \<and> always (port_now d) (Inr cutoff)
     \<and> always (port_load_bans d (temporary_bans_file paths)) (Inr bans)"

definition steady_preview ::
    "'s preview_dependencies \<Rightarrow> path_resolution_input \<Rightarrow> resolved_paths \<Rightarrow> config \<Rightarrow> nat \<Rightarrow> temporary_bans \<Rightarrow> bool" where
  "steady_preview p request paths cfg cutoff bans \<longleftrightarrow> always (pd_resolve p request ConfigRequired) (Inr paths)
     \<and> always (pd_load_config p (config_file paths)) (Inr cfg) \<and> always (pd_now p) (Inr cutoff)
     \<and> always (pd_load_bans p (temporary_bans_file paths)) (Inr bans)
     \<and> always (pd_acquire_existing p (lock_file paths)) (Inr ()) \<and> always (preview_check p) (Inr ())"

lemma select_alike:
  assumes check: "always (preview_check p) (Inr ())"
    and sources: "list_all2 (answers_alike ctx pctx) (reg_providers (dep_sources d)) (pg_providers (pd_sources p))"
    and run: "sync_select d ctx plan s = Some (Inr (effective, entries, summaries), s')"
  shows "\<exists>pl safelist ns. always (preview_load_sources p pctx) (Inr pl)
    \<and> (\<forall>notices. always (preview_admit_external_safelists p (sort_dedup (pld_candidates pl)) (sort_dedup (pld_safelist pl)) (pld_external pl)
        (plan_enable_ipv6 plan) (pld_summaries pl) notices) (Inr (safelist, summaries, ns notices)))
    \<and> effective = compute_effective_blocklists (sort_dedup (pld_candidates pl)) safelist (plan_enable_ipv6 plan)
    \<and> prepare_sync_entries effective plan = Inr entries"
proof -
  obtain l t u v v' safelist promotions where
    load: "load_sources d ctx t = Some (Inr l, u)"
    and admit: "admit_external_safelists d (sort_dedup (ls_candidates l)) (sort_dedup (ls_safelist l)) (ls_external l)
        (plan_enable_ipv6 plan) (ls_promotions l) (ls_summaries l) v = Some (Inr (safelist, promotions, summaries), v')"
    and result: "effective = compute_effective_blocklists (sort_dedup (ls_candidates l)) safelist (plan_enable_ipv6 plan)"
      "prepare_sync_entries effective plan = Inr entries"
    using run unfolding sync_select_def Let_def
    by (elim bind_succeeds) (auto elim!: bind_succeeds dest!: res_succeeds ok_succeeds)
  have "loaded_alike \<lparr>ls_candidates = [], ls_safelist = [], ls_external = [], ls_promotions = [], ls_summaries = []\<rparr>
      \<lparr>pld_candidates = [], pld_safelist = [], pld_external = [], pld_summaries = [], pld_notices = []\<rparr>"
    by (simp add: loaded_alike_def)
  from load_alike [OF check sources this load [unfolded load_sources_def]]
  obtain pl where pl: "always (preview_load_sources p pctx) (Inr pl)" "loaded_alike l pl"
    by (auto simp: preview_load_sources_def)
  note alike = pl(2) [unfolded loaded_alike_def]
  obtain w w' final where each: "admit_each d (sort_dedup (pld_candidates pl)) (plan_enable_ipv6 plan)
      (compute_effective_blocklists (sort_dedup (pld_candidates pl)) (sort_dedup (pld_safelist pl)) (plan_enable_ipv6 plan))
      (ls_external l) (sort_dedup (pld_safelist pl), ls_promotions l, pld_summaries pl) w = Some (Inr (final, promotions, summaries), w')"
    and final: "safelist = sort_dedup final"
    using admit alike unfolding admit_external_safelists_def Let_def
    by (elim bind_succeeds) (auto dest!: ok_succeeds)
  have "\<exists>ns. always (preview_admit_external_safelists p (sort_dedup (pld_candidates pl)) (sort_dedup (pld_safelist pl)) (pld_external pl)
        (plan_enable_ipv6 plan) (pld_summaries pl) notices) (Inr (safelist, summaries, ns))" for notices
    using admit_alike [OF check conjunct2 [OF conjunct2 [OF conjunct2 [OF alike]]] each, of notices] final
    unfolding preview_admit_external_safelists_def Let_def by (auto intro!: always_bind always_ok)
  then obtain ns where "\<forall>notices. always (preview_admit_external_safelists p (sort_dedup (pld_candidates pl)) (sort_dedup (pld_safelist pl))
      (pld_external pl) (plan_enable_ipv6 plan) (pld_summaries pl) notices) (Inr (safelist, summaries, ns notices))"
    by metis
  then show ?thesis using pl(1) result alike by auto
qed

section \<open>Only what was previewed is enforced\<close>

text \<open>The ports of a synchronization, with a kernel that accepts the given entries and no others.\<close>

definition accepting :: "enforcement_plan \<Rightarrow> prepared_sync_entries \<Rightarrow> 's sync_dependencies \<Rightarrow> 's sync_dependencies" where
  "accepting plan entries d = d\<lparr>dep_replace_set := \<lambda>spec es.
     if es = (if spec = plan_ipv6 plan then pe_ipv6 entries else pe_ipv4 entries) then dep_replace_set d spec es else (\<lambda>_. None)\<rparr>"

named_theorems accepting_simps \<open>operations that replace no set\<close>

lemma accepting_fields [accepting_simps]:
  "port_is_cancelled (accepting plan entries d) = port_is_cancelled d"
  "port_resolve (accepting plan entries d) = port_resolve d" "port_load_config (accepting plan entries d) = port_load_config d"
  "port_acquire (accepting plan entries d) = port_acquire d" "port_release (accepting plan entries d) = port_release d"
  "port_now (accepting plan entries d) = port_now d" "port_load_bans (accepting plan entries d) = port_load_bans d"
  "port_save_bans (accepting plan entries d) = port_save_bans d"
  "dep_prepare_remote_cache (accepting plan entries d) = dep_prepare_remote_cache d"
  "dep_sources (accepting plan entries d) = dep_sources d" "dep_ensure_artifacts (accepting plan entries d) = dep_ensure_artifacts d"
  "dep_activate (accepting plan entries d) = dep_activate d"
  "dep_cleanup_disabled_ipv6 (accepting plan entries d) = dep_cleanup_disabled_ipv6 d"
  "dep_event (accepting plan entries d) = dep_event d" "dep_stage_completed (accepting plan entries d) = dep_stage_completed d"
  "dep_notice (accepting plan entries d) = dep_notice d"
  by (simp_all add: accepting_def)

lemma accepting_calls [accepting_simps]:
  "send_event (accepting plan entries d) = send_event d" "send_notice (accepting plan entries d) = send_notice d"
  "start_stage (accepting plan entries d) = start_stage d" "complete_stage (accepting plan entries d) = complete_stage d"
  "cancellation_check (accepting plan entries d) = cancellation_check d" "with_lock (accepting plan entries d) = with_lock d"
  by (simp_all add: fun_eq_iff accepting_simps send_event_def send_notice_def start_stage_def complete_stage_def
      cancellation_check_def with_lock_def)

lemma accepting_load: "load_each (accepting plan entries d) ctx ps acc = load_each d ctx ps acc"
proof (induction ps arbitrary: acc)
  case (Cons x ps)
  then show ?case by (simp only: load_each.simps accepting_simps)
qed simp

lemma accepting_admit: "admit_each (accepting plan entries d) candidates v6 baseline xs acc = admit_each d candidates v6 baseline xs acc"
proof (induction xs arbitrary: acc)
  case (Cons x xs)
  then show ?case by (cases acc) (simp only: admit_each.simps accepting_simps)
qed simp

lemma accepting_promote: "promote_each (accepting plan entries d) ps = promote_each d ps"
  by (induction ps) (simp_all add: accepting_simps)

lemma accepting_select: "sync_select (accepting plan entries d) = sync_select d"
  by (simp add: fun_eq_iff sync_select_def load_sources_def admit_external_safelists_def promote_pending_caches_def
      accepting_simps accepting_load accepting_admit accepting_promote)


lemma enforcement_accepted:
  assumes run: "apply_enforcement d plan (pe_ipv4 entries) (pe_ipv6 entries) s = Some r"
    and distinct: "plan_ipv4 plan \<noteq> plan_ipv6 plan"
  shows "apply_enforcement (accepting plan entries d) plan (pe_ipv4 entries) (pe_ipv6 entries) s = Some r"
proof -
  have "dep_replace_set (accepting plan entries d) (plan_ipv6 plan) (pe_ipv6 entries) = dep_replace_set d (plan_ipv6 plan) (pe_ipv6 entries)"
    "dep_replace_set (accepting plan entries d) (plan_ipv4 plan) (pe_ipv4 entries) = dep_replace_set d (plan_ipv4 plan) (pe_ipv4 entries)"
    using distinct by (simp_all add: accepting_def)
  then show ?thesis using run by (simp add: apply_enforcement_def accepting_simps cong: if_cong)
qed

lemma plan_families_differ: "plan_ipv4 (EnforcementPlan_from_config cfg) \<noteq> plan_ipv6 (EnforcementPlan_from_config cfg)"
  by (simp add: EnforcementPlan_from_config_def Let_def)

lemma always_execute:
  assumes steady: "steady_preview p (pq_paths q) paths cfg cutoff bans"
    and load: "always (preview_load_sources p \<lparr>pcx_sync = \<lparr>ctx_paths = paths, ctx_config = cfg, ctx_env = env_vars (pq_paths q),
         ctx_temporary_bans = bans, ctx_cutoff = cutoff\<rparr>, pcx_allow_network = pq_allow_network q\<rparr>) (Inr pl)"
    and admit: "\<And>notices. always (preview_admit_external_safelists p (sort_dedup (pld_candidates pl)) (sort_dedup (pld_safelist pl))
        (pld_external pl) (enable_ipv6 (cfg_ipset cfg)) (pld_summaries pl) notices) (Inr (safelist, summaries, ns notices))"
    and entries: "prepare_sync_entries (compute_effective_blocklists (sort_dedup (pld_candidates pl)) safelist (enable_ipv6 (cfg_ipset cfg)))
        (EnforcementPlan_from_config cfg) = Inr entries"
  shows "\<exists>notices. always (preview_execute p q) (Inr \<lparr>po_entries = entries, po_enable_ipv6 = enable_ipv6 (cfg_ipset cfg),
      po_sources = summaries, po_notices = notices, po_allow_network = pq_allow_network q\<rparr>)"
proof -
  note ports = steady [unfolded steady_preview_def]
  have check: "always (preview_check p) (Inr ())" and resolve: "always (pd_resolve p (pq_paths q) ConfigRequired) (Inr paths)"
    and lock: "always (pd_acquire_existing p (lock_file paths)) (Inr ())" and now: "always (pd_now p) (Inr cutoff)"
    and config: "always (pd_load_config p (config_file paths)) (Inr cfg)"
    and bans: "always (pd_load_bans p (temporary_bans_file paths)) (Inr bans)"
    using ports by simp_all
  have enough: "always (d_res (prepare_sync_entries (compute_effective_blocklists (sort_dedup (pld_candidates pl)) safelist
      (enable_ipv6 (cfg_ipset cfg))) (EnforcementPlan_from_config cfg))) (Inr entries)"
    using entries by (simp add: always_res [of "Inr entries", simplified])
  have "\<exists>notices. always (preview_locked p q paths) (Inr \<lparr>po_entries = entries, po_enable_ipv6 = enable_ipv6 (cfg_ipset cfg),
      po_sources = summaries, po_notices = notices, po_allow_network = pq_allow_network q\<rparr>)"
    unfolding preview_locked_def Let_def
    by (rule exI, rule always_bind [OF check], rule always_bind [OF now], rule always_bind [OF config], rule always_bind [OF check],
        rule always_bind [OF bans], rule always_bind [OF load], rule always_bind [OF check], rule always_bind [OF admit],
        unfold prod.case, rule always_bind [OF enough], rule always_bind [OF check], rule always_ok)
  then obtain notices where body: "always (preview_locked p q paths) (Inr \<lparr>po_entries = entries, po_enable_ipv6 = enable_ipv6 (cfg_ipset cfg),
      po_sources = summaries, po_notices = notices, po_allow_network = pq_allow_network q\<rparr>)" ..
  show ?thesis unfolding preview_execute_def
    by (rule exI, rule always_bind [OF check], rule always_bind [OF resolve], rule always_bind [OF lock], rule always_finally, rule body)
qed

lemma always_unique: "always m x \<Longrightarrow> always m y \<Longrightarrow> x = y"
  unfolding always_def by (metis option.inject prod.inject)

lemma select_previewed:
  assumes preview: "steady_preview p (pq_paths q) paths cfg cutoff bans"
    and sources: "list_all2 (answers_alike ctx \<lparr>pcx_sync = ctx, pcx_allow_network = pq_allow_network q\<rparr>)
        (reg_providers (dep_sources d)) (pg_providers (pd_sources p))"
    and ctx: "ctx = \<lparr>ctx_paths = paths, ctx_config = cfg, ctx_env = env_vars (pq_paths q),
          ctx_temporary_bans = bans, ctx_cutoff = cutoff\<rparr>"
    and run: "sync_select d ctx (EnforcementPlan_from_config cfg) s = Some (Inr (effective, entries, summaries), s')"
  shows "\<exists>notices. always (preview_execute p q) (Inr \<lparr>po_entries = entries, po_enable_ipv6 = enable_ipv6 (cfg_ipset cfg),
      po_sources = summaries, po_notices = notices, po_allow_network = pq_allow_network q\<rparr>)"
proof -
  have v6: "plan_enable_ipv6 (EnforcementPlan_from_config cfg) = enable_ipv6 (cfg_ipset cfg)"
    by (simp add: EnforcementPlan_from_config_def Let_def)
  have check: "always (preview_check p) (Inr ())" using preview by (simp add: steady_preview_def)
  from select_alike [OF check sources run, unfolded v6]
  obtain pl safelist ns where
    "always (preview_load_sources p \<lparr>pcx_sync = ctx, pcx_allow_network = pq_allow_network q\<rparr>) (Inr pl)"
    "\<And>notices. always (preview_admit_external_safelists p (sort_dedup (pld_candidates pl)) (sort_dedup (pld_safelist pl))
        (pld_external pl) (enable_ipv6 (cfg_ipset cfg)) (pld_summaries pl) notices) (Inr (safelist, summaries, ns notices))"
    "prepare_sync_entries (compute_effective_blocklists (sort_dedup (pld_candidates pl)) safelist (enable_ipv6 (cfg_ipset cfg)))
        (EnforcementPlan_from_config cfg) = Inr entries" by blast
  then show ?thesis unfolding ctx by (intro always_execute [OF preview]) 
qed

text \<open>Two programs that run alike from a state: the second ends as the first does.\<close>

definition runs_alike :: "('s, 'e, 'a) dact \<Rightarrow> ('s, 'e, 'a) dact \<Rightarrow> 's \<Rightarrow> bool" where
  "runs_alike m n s \<longleftrightarrow> (\<forall>r. m s = Some r \<longrightarrow> n s = Some r)"

lemma alike_same: "runs_alike m m s"
  by (simp add: runs_alike_def)

lemma alike_bind: "(\<And>x t. m s = Some (Inr x, t) \<Longrightarrow> runs_alike (f x) (g x) t) \<Longrightarrow> runs_alike (d_bind m f) (d_bind m g) s"
  unfolding runs_alike_def d_bind_def by (auto split: option.splits prod.splits sum.splits)

lemma alike_first: "runs_alike m n s \<Longrightarrow> runs_alike (d_bind m f) (d_bind n f) s"
  unfolding runs_alike_def d_bind_def by (auto split: option.splits prod.splits sum.splits)

lemma alike_finally: "runs_alike m n s \<Longrightarrow> runs_alike (d_finally f m) (d_finally f n) s"
  unfolding runs_alike_def d_finally_def by (auto split: option.splits prod.splits)

lemma alike_prod: "(\<And>a b. x = (a, b) \<Longrightarrow> runs_alike (f a b) (g a b) s) \<Longrightarrow> runs_alike (case_prod f x) (case_prod g x) s"
  by (cases x) simp

lemma accepting_locked:
  assumes sync: "steady_sync d request paths cfg cutoff bans"
    and select: "\<And>t effective entries' summaries t'. sync_select d \<lparr>ctx_paths = paths, ctx_config = cfg, ctx_env = env_vars request,
          ctx_temporary_bans = bans, ctx_cutoff = cutoff\<rparr> (EnforcementPlan_from_config cfg) t = Some (Inr (effective, entries', summaries), t')
        \<Longrightarrow> entries' = entries"
  shows "runs_alike (sync_locked d request paths) (sync_locked (accepting (EnforcementPlan_from_config cfg) entries d) request paths) s"
proof -
  note steady = sync [unfolded steady_sync_def]
  have found: "x = cfg" if "port_load_config d (config_file paths) t = Some (Inr x, t')" for x t t'
    using steady that by (blast dest: alwaysD)
  have bans: "x = bans" if "port_load_bans d (temporary_bans_file paths) t = Some (Inr x, t')" for x t t'
    using steady that by (blast dest: alwaysD)
  have cutoff: "x = cutoff" if "port_now d t = Some (Inr x, t')" for x t t'
    using steady that by (blast dest: alwaysD)
  have enforced: "runs_alike (apply_enforcement d (EnforcementPlan_from_config cfg) (pe_ipv4 entries) (pe_ipv6 entries))
      (apply_enforcement (accepting (EnforcementPlan_from_config cfg) entries d) (EnforcementPlan_from_config cfg)
        (pe_ipv4 entries) (pe_ipv6 entries)) t" for t
    unfolding runs_alike_def by (intro allI impI) (rule enforcement_accepted [OF _ plan_families_differ])
  show ?thesis unfolding sync_locked_def Let_def accepting_simps accepting_select
    by (rule alike_bind, rule alike_bind, drule cutoff, rule alike_bind, rule alike_bind, drule found, rule alike_bind,
        rule alike_bind, rule alike_bind, rule alike_bind, drule bans, hypsubst, rule alike_bind, rule alike_bind, rule alike_bind,
        rule alike_bind, rule alike_bind, rule alike_prod, rule alike_prod, hypsubst, drule select, hypsubst,
        rule alike_first, rule enforced)
qed

lemma accepting_execute:
  assumes sync: "steady_sync d request paths cfg cutoff bans"
    and locked: "\<And>t. runs_alike (sync_locked d request paths) (sync_locked e request paths) t"
    and e: "e = accepting (EnforcementPlan_from_config cfg) entries d"
  shows "runs_alike (sync_execute d request) (sync_execute e request) s"
proof -
  have paths: "x = paths" if "port_resolve d request ConfigRequired t = Some (Inr x, t')" for x t t'
    using sync that unfolding steady_sync_def by (blast dest: alwaysD)
  show ?thesis using locked unfolding sync_execute_def with_lock_def e accepting_simps
    by (intro alike_bind) (drule paths, hypsubst, intro alike_finally, assumption)
qed



lemma sync_selects:
  assumes sync: "steady_sync d request paths cfg cutoff bans"
    and run: "sync_execute d request s = Some (Inr out, s')"
  obtains t effective entries summaries t' where
    "sync_select d \<lparr>ctx_paths = paths, ctx_config = cfg, ctx_env = env_vars request,
        ctx_temporary_bans = bans, ctx_cutoff = cutoff\<rparr> (EnforcementPlan_from_config cfg) t = Some (Inr (effective, entries, summaries), t')"
    "out_sources out = summaries" "out_ipv4_kernel_entries out = length (pe_ipv4 entries)"
    "out_ipv6_kernel_entries out = length (pe_ipv6 entries)"
proof -
  note steady = sync [unfolded steady_sync_def]
  have paths: "x = paths" if "port_resolve d request ConfigRequired t = Some (Inr x, t')" for x t t'
    using steady that by (blast dest: alwaysD)
  have found: "x = cfg" if "port_load_config d (config_file paths) t = Some (Inr x, t')" for x t t'
    using steady that by (blast dest: alwaysD)
  have bans: "x = bans" if "port_load_bans d (temporary_bans_file paths) t = Some (Inr x, t')" for x t t'
    using steady that by (blast dest: alwaysD)
  have cutoff: "x = cutoff" if "port_now d t = Some (Inr x, t')" for x t t'
    using steady that by (blast dest: alwaysD)
  obtain x u u' where locked: "sync_locked d request paths u = Some (Inr out, u')"
    using run unfolding sync_execute_def with_lock_def
    by (elim bind_succeeds) (drule paths, auto simp: d_finally_def split: option.splits prod.splits)
  show thesis
    using locked unfolding sync_locked_def Let_def
    by (elim bind_succeeds) (drule found, drule cutoff, drule bans, hypsubst,
      auto elim!: bind_succeeds dest!: ok_succeeds intro!: that split: prod.splits)
qed

lemma preview_always:
  "always (preview_execute p q) (Inr v) \<Longrightarrow> \<exists>t'. preview_execute p q t = Some (Inr v, t')"
  by (simp add: always_def)

text \<open>
  C16: A preview predicts a synchronization. When the two workflows read the same paths,
  configuration, time and bans, and their sources answer the same data, then after any
  synchronization that succeeded the preview succeeds in any state, reports the same sources and the same
  numbers of kernel entries, and its entries are what was enforced: the synchronization runs
  unchanged on a kernel that accepts no other entries.
\<close>
theorem preview_predicts_sync:
  assumes sync: "steady_sync d (pq_paths q) paths cfg cutoff bans"
    and preview: "steady_preview p (pq_paths q) paths cfg cutoff bans"
    and sources: "list_all2 (answers_alike ctx \<lparr>pcx_sync = ctx, pcx_allow_network = pq_allow_network q\<rparr>)
        (reg_providers (dep_sources d)) (pg_providers (pd_sources p))"
    and ctx: "ctx = \<lparr>ctx_paths = paths, ctx_config = cfg, ctx_env = env_vars (pq_paths q),
          ctx_temporary_bans = bans, ctx_cutoff = cutoff\<rparr>"
    and run: "sync_execute d (pq_paths q) s = Some (Inr out, s')"
  shows "\<exists>v t'. preview_execute p q t = Some (Inr v, t') \<and> po_sources v = out_sources out
    \<and> length (pe_ipv4 (po_entries v)) = out_ipv4_kernel_entries out \<and> length (pe_ipv6 (po_entries v)) = out_ipv6_kernel_entries out
    \<and> sync_execute (accepting (EnforcementPlan_from_config cfg) (po_entries v) d) (pq_paths q) s = Some (Inr out, s')"
proof -
  let ?plan = "EnforcementPlan_from_config cfg"
  note previewed = select_previewed [OF preview sources ctx]
  from sync_selects [OF sync run, folded ctx] obtain u effective entries summaries u' where
    select: "sync_select d ctx ?plan u = Some (Inr (effective, entries, summaries), u')"
    and out: "out_sources out = summaries" "out_ipv4_kernel_entries out = length (pe_ipv4 entries)"
      "out_ipv6_kernel_entries out = length (pe_ipv6 entries)" .
  from previewed [OF select] obtain v where v: "always (preview_execute p q) (Inr v)"
    "po_entries v = entries" "po_sources v = summaries" by fastforce
  have "entries' = entries" if "sync_select d ctx ?plan w = Some (Inr (effective', entries', summaries'), w')"
    for w effective' entries' summaries' w'
    using previewed [OF that] always_unique [OF v(1)] v(2) by fastforce
  from accepting_execute [OF sync accepting_locked [OF sync this [unfolded ctx]] refl]
  have "sync_execute (accepting ?plan entries d) (pq_paths q) s = Some (Inr out, s')"
    using run by (simp add: runs_alike_def)
  moreover obtain t' where "preview_execute p q t = Some (Inr v, t')" using preview_always [OF v(1)] ..
  ultimately show ?thesis using v(2,3) out by (intro exI [of _ v] exI [of _ t']) simp
qed

text \<open>An example: a synchronization in memory and a preview of its sources.\<close>

definition demo_bans :: temporary_bans where
  "demo_bans = \<lparr>tb_ips = [], tb_asns = []\<rparr>"

definition demo_feeds :: "(source_descriptor \<times> canonical_cidr list) list" where
  "demo_feeds = [
     (\<lparr>desc_id = lit ''local'', desc_role = Candidate, desc_failure_policy = RequiredSource\<rparr>, [V4 (Cidr 0x0A000000 30)]),
     (\<lparr>desc_id = lit ''safe'', desc_role = Safelist, desc_failure_policy = RequiredSource\<rparr>, [V4 (Cidr 0x0A000001 32)])]"

definition steady_memory :: "sync_memory sync_dependencies" where
  "steady_memory = (memory_sync demo_config demo_feeds)
     \<lparr>port_is_cancelled := \<lambda>s. (False, s), port_load_bans := \<lambda>_. d_ok demo_bans\<rparr>"

definition demo_preview :: "unit preview_dependencies" where
  "demo_preview = \<lparr>
     pd_is_cancelled = (\<lambda>s. (False, s)), pd_resolve = (\<lambda>_ _. d_ok memory_paths), pd_load_config = (\<lambda>_. d_ok demo_config),
     pd_acquire_existing = (\<lambda>_. d_ok ()), pd_release = (\<lambda>s. s), pd_now = d_ok 1700000000, pd_load_bans = (\<lambda>_. d_ok demo_bans),
     pd_sources = \<lparr>pg_providers = map (\<lambda>(desc, ns). \<lparr>pv_descriptor = desc,
         pv_load = (\<lambda>_. d_ok (preview_load_ready \<lparr>batch_networks = ns, batch_notices = []\<rparr>))\<rparr>) demo_feeds,
       pg_ids = set (map (desc_id \<circ> fst) demo_feeds)\<rparr>\<rparr>"

lemma steady_memory_steady: "steady_sync steady_memory demo_request memory_paths demo_config 1700000000 demo_bans"
  by (simp add: steady_sync_def steady_memory_def memory_sync_def always_ok)

lemma demo_preview_steady: "steady_preview demo_preview demo_request memory_paths demo_config 1700000000 demo_bans"
  by (auto simp: steady_preview_def demo_preview_def always_ok preview_check_def always_def) (simp_all add: d_ok_def)

lemma demo_feeds_alike:
  "list_all2 (answers_alike ctx pctx) (reg_providers (dep_sources steady_memory)) (pg_providers (pd_sources demo_preview))"
proof -
  have "answers_alike ctx pctx (memory_provider x) (case x of (desc, ns) \<Rightarrow> \<lparr>pv_descriptor = desc,
         pv_load = (\<lambda>_. d_ok (preview_load_ready \<lparr>batch_networks = ns, batch_notices = []\<rparr>))\<rparr>)" for x
    by (cases x) (auto simp: answers_alike_def memory_provider_def d_ok_def always_def preview_of_def source_load_ready_def
      preview_load_ready_def)
  then show ?thesis
    unfolding steady_memory_def memory_sync_def demo_preview_def by (auto simp: list_all2_map1 list_all2_map2 intro!: list.rel_refl)
qed

lemma demo_selection:
  "sort_dedup [V4 (Cidr 0x0A000000 30)] = [V4 (Cidr 0x0A000000 30)]" "sort_dedup [V4 (Cidr 0x0A000001 32)] = [V4 (Cidr 0x0A000001 32)]"
  "compute_effective_blocklists [V4 (Cidr 0x0A000000 30)] [V4 (Cidr 0x0A000001 32)] True
     = \<lparr>eb_ipv4 = [Cidr 0x0A000000 32, Cidr 0x0A000002 31], eb_ipv6 = []\<rparr>"
  "prepare_sync_entries \<lparr>eb_ipv4 = [Cidr 0x0A000000 32, Cidr 0x0A000002 31], eb_ipv6 = []\<rparr> (EnforcementPlan_from_config demo_config)
     = Inr \<lparr>pe_ipv4 = [V4 (Cidr 0x0A000000 32), V4 (Cidr 0x0A000002 31)], pe_ipv6 = [], pe_ipv4_networks = 2, pe_ipv6_networks = 0\<rparr>"
  "plan_enable_ipv6 (EnforcementPlan_from_config demo_config)" "timeout (cfg_ipset demo_config) = 0"
  by code_simp+

lemma demo_runs: "\<exists>out s'. sync_execute steady_memory demo_request demo_state = Some (Inr out, s')"
  apply (simp add: sync_execute_def sync_locked_def sync_select_def apply_enforcement_def with_lock_def d_finally_def Let_def
    load_sources_def admit_external_safelists_def promote_pending_caches_def
    d_bind_def d_ok_def d_upd_def d_res_def d_try_def d_total_def steady_memory_def memory_sync_def demo_feeds_def memory_provider_def
    start_stage_def complete_stage_def cancellation_check_def send_event_def send_notice_def demo_state_def
    record_loaded_def source_load_ready_def demo_selection demo_bans_def prune_expired_def pending_of_def)
  done

theorem preview_predicts_sync_witness:
  "\<exists>out s' v t'. sync_execute steady_memory demo_request demo_state = Some (Inr out, s')
    \<and> preview_execute demo_preview \<lparr>pq_paths = demo_request, pq_allow_network = True\<rparr> () = Some (Inr v, t')
    \<and> po_sources v = out_sources out \<and> length (pe_ipv4 (po_entries v)) = out_ipv4_kernel_entries out
    \<and> sync_execute (accepting (EnforcementPlan_from_config demo_config) (po_entries v) steady_memory) demo_request demo_state
      = Some (Inr out, s')"
proof -
  let ?q = "\<lparr>pq_paths = demo_request, pq_allow_network = True\<rparr>"
  obtain out s' where run: "sync_execute steady_memory (pq_paths ?q) demo_state = Some (Inr out, s')"
    using demo_runs by auto
  show ?thesis
    using preview_predicts_sync [of steady_memory ?q memory_paths demo_config 1700000000 demo_bans demo_preview, OF _ _ demo_feeds_alike refl run, of "()"]
      run steady_memory_steady demo_preview_steady by auto
qed

end
