(* ===== verification/Flush_App.thy ===== *)
theory Flush_App
  imports Sync_System Generations
begin

text \<open>
  Flushing, \<^verbatim>\<open>crates/kidobo-app/src/flush.rs\<close> with the backend of \<^verbatim>\<open>crates/kidobo-adapters/src/flush.rs\<close>
  and the private directories of \<^verbatim>\<open>private_fs.rs\<close>: the removal of the wiring, the sets and the cache,
  where every step is attempted and the outcome is a ledger of what succeeded. The lemmas show that
  the ledger tells the truth about the kernel and the cache.
\<close>

section \<open>The workflow\<close>

datatype flush_reason =
    FirewallCleanupFailed firewall_family firewall_error
  | DestroyFailed rstr process_status rstr
  | DestroyExecution rstr command_runner_error
  | CacheClearFailed rstr io_error

record cleanup_failure =
  cf_operation :: rstr
  cf_reason :: flush_reason

record flush_outcome =
  fo_completed :: "rstr list"
  fo_failed :: "cleanup_failure list"

record flush_request =
  fq_paths :: path_resolution_input
  fq_cache_only :: bool

record 's flush_dependencies = "'s app_ports" +
  fb_cleanup_firewall :: "firewall_family \<Rightarrow> ('s, flush_reason, unit) dact"
  fb_destroy_ipset :: "rstr \<Rightarrow> ('s, flush_reason, unit) dact"
  fb_clear_remote_cache :: "rstr \<Rightarrow> ('s, io_error, unit) dact"

fun attempt :: "flush_outcome \<Rightarrow> rstr \<Rightarrow> flush_reason + unit \<Rightarrow> flush_outcome" where
  "attempt out operation (Inr _) = out\<lparr>fo_completed := fo_completed out @ [operation]\<rparr>"
| "attempt out operation (Inl reason) =
     out\<lparr>fo_failed := fo_failed out @ [\<lparr>cf_operation = operation, cf_reason = reason\<rparr>]\<rparr>"

definition attempted :: "flush_outcome \<Rightarrow> rstr \<Rightarrow> ('s, flush_reason, unit) dact \<Rightarrow> ('s, app_error, flush_outcome) dact" where
  "attempted out operation m = d_bind (d_try m) (\<lambda>r. d_ok (attempt out operation r))"

definition set_operation :: "rstr \<Rightarrow> rstr" where
  "set_operation name = lit ''ipset `'' @ name @ lit ''`''"

definition second_set :: "ipset_config \<Rightarrow> bool" where
  "second_set i \<longleftrightarrow> set_name_v6 i \<noteq> set_name i \<and> (enable_ipv6 i \<or> utf8_len (set_name_v6 i) \<le> IPSET_NAME_MAX_LEN)"

definition flush_artifacts ::
    "('s, 'z) flush_dependencies_scheme \<Rightarrow> config \<Rightarrow> resolved_paths \<Rightarrow> ('s, app_error, flush_outcome) dact" where
  "flush_artifacts d cfg paths =
     d_bind (attempted \<lparr>fo_completed = [], fo_failed = []\<rparr> (lit ''IPv4 firewall'') (fb_cleanup_firewall d FwIpv4)) (\<lambda>out.
     d_bind (attempted out (lit ''IPv6 firewall'') (fb_cleanup_firewall d FwIpv6)) (\<lambda>out.
     d_bind (attempted out (set_operation (set_name (cfg_ipset cfg))) (fb_destroy_ipset d (set_name (cfg_ipset cfg)))) (\<lambda>out.
     d_bind (if second_set (cfg_ipset cfg)
         then attempted out (set_operation (set_name_v6 (cfg_ipset cfg))) (fb_destroy_ipset d (set_name_v6 (cfg_ipset cfg)))
         else d_ok out) (\<lambda>out.
       attempted out (lit ''remote cache'')
         (d_map_err (CacheClearFailed (remote_cache_dir paths)) (fb_clear_remote_cache d (remote_cache_dir paths)))))))"

definition flush_locked ::
    "('s, 'z) flush_dependencies_scheme \<Rightarrow> flush_request \<Rightarrow> resolved_paths \<Rightarrow> ('s, app_error, flush_outcome) dact" where
  "flush_locked d request paths =
     (if fq_cache_only request
      then d_bind (cancellation_check d) (\<lambda>_.
           d_bind (d_map_err (FlushCacheIo (remote_cache_dir paths)) (fb_clear_remote_cache d (remote_cache_dir paths))) (\<lambda>_.
             d_ok \<lparr>fo_completed = [lit ''remote cache''], fo_failed = []\<rparr>))
      else d_bind (port_load_config d (config_file paths)) (\<lambda>cfg.
           d_bind (cancellation_check d) (\<lambda>_.
             flush_artifacts d cfg paths)))"

definition flush_execute :: "('s, 'z) flush_dependencies_scheme \<Rightarrow> flush_request \<Rightarrow> ('s, app_error, flush_outcome) dact" where
  "flush_execute d request =
     d_bind (cancellation_check d) (\<lambda>_.
     d_bind (port_resolve d (fq_paths request) (if fq_cache_only request then ConfigOptional else ConfigRequired)) (\<lambda>paths.
       with_lock d (lock_file paths) (flush_locked d request paths)))"

section \<open>The backend\<close>

definition backend_cleanup_firewall :: "'s runner \<Rightarrow> firewall_family \<Rightarrow> ('s, flush_reason, unit) dact" where
  "backend_cleanup_firewall run fam = d_map_err (FirewallCleanupFailed fam) (cleanup_firewall_wiring run fam)"

definition backend_destroy_ipset :: "'s runner \<Rightarrow> rstr \<Rightarrow> ('s, flush_reason, unit) dact" where
  "backend_destroy_ipset run name =
     (let args = [lit ''destroy'', name]; rendered = display_command (lit ''ipset'') args
      in (\<lambda>s. case run (lit ''ipset'') args s of
          (Inr res, s') \<Rightarrow> Some (if status_success (cr_status res) \<or> is_missing_set_result res then Inr ()
             else Inl (DestroyFailed rendered (cr_status res) (cr_stderr res)), s')
        | (Inl e, s') \<Rightarrow> Some (Inl (DestroyExecution rendered e), s')))"

text \<open>
  The system calls on directories that \<^verbatim>\<open>private_fs.rs\<close> makes: create the parent and pin it open without
  following a link, make a directory of a mode in it, open one without following a link, its
  metadata, mode and permissions. A pinned directory is named by its path: nobody else renames it in the model.
\<close>

record 's private_host =
  ph_open_parent :: "rstr \<Rightarrow> ('s, io_error, unit) dact"
  ph_remove_dir_all :: "rstr \<Rightarrow> ('s, io_error, unit) dact"
  ph_make_dir :: "rstr \<Rightarrow> nat \<Rightarrow> ('s, io_error, unit) dact"
  ph_open_dir :: "rstr \<Rightarrow> ('s, io_error, unit) dact"
  ph_is_dir :: "rstr \<Rightarrow> ('s, io_error, bool) dact"
  ph_mode :: "rstr \<Rightarrow> ('s, io_error, nat) dact"
  ph_set_mode :: "rstr \<Rightarrow> nat \<Rightarrow> ('s, io_error, unit) dact"
  ph_open_file :: "rstr \<Rightarrow> ('s, io_error, unit) dact"
  ph_is_file :: "rstr \<Rightarrow> ('s, io_error, bool) dact"

definition open_parent_directory :: "('s, 'z) private_host_scheme \<Rightarrow> rstr \<Rightarrow> ('s, io_error, unit) dact" where
  "open_parent_directory h path = ph_open_parent h
     (case path_parent path of Some p \<Rightarrow> if p = [] then [46] else p | None \<Rightarrow> [46])"

definition set_mode :: "('s, 'z) private_host_scheme \<Rightarrow> rstr \<Rightarrow> nat \<Rightarrow> ('s, io_error, bool) dact" where
  "set_mode h path mode =
     d_bind (ph_mode h path) (\<lambda>m.
       if m mod 4096 \<noteq> mode then d_bind (ph_set_mode h path mode) (\<lambda>_. d_ok True) else d_ok False)"

definition secure_file :: "('s, 'z) private_host_scheme \<Rightarrow> rstr \<Rightarrow> ('s, io_error, bool) dact" where
  "secure_file h path =
     d_bind (ph_open_file h path) (\<lambda>_.
     d_bind (ph_is_file h path) (\<lambda>regular.
       if regular then set_mode h path 384 else d_err InvalidInput))"

definition ensure_private_dir_at :: "('s, 'z) private_host_scheme \<Rightarrow> rstr \<Rightarrow> ('s, io_error, bool) dact" where
  "ensure_private_dir_at h path =
     d_bind (d_try (ph_make_dir h path 448)) (\<lambda>made.
     d_bind (case made of Inr _ \<Rightarrow> d_ok () | Inl e \<Rightarrow> if e = AlreadyExists then d_ok () else d_err e) (\<lambda>_.
     d_bind (ph_open_dir h path) (\<lambda>_.
     d_bind (ph_is_dir h path) (\<lambda>dir.
       if dir then set_mode h path 448 else d_err InvalidInput))))"

definition ensure_private_dir :: "('s, 'z) private_host_scheme \<Rightarrow> rstr \<Rightarrow> ('s, io_error, bool) dact" where
  "ensure_private_dir h path = (case path_file_name path of
       None \<Rightarrow> d_err InvalidInput
     | Some _ \<Rightarrow> d_bind (open_parent_directory h path) (\<lambda>_. ensure_private_dir_at h path))"

definition remove_cache_path :: "('s, 'z) private_host_scheme \<Rightarrow> rstr \<Rightarrow> ('s, io_error, unit) dact" where
  "remove_cache_path h path =
     d_bind (d_try (ph_remove_dir_all h path)) (\<lambda>removed.
       case removed of Inr _ \<Rightarrow> d_ok () | Inl e \<Rightarrow> if e = NotFound then d_ok () else d_err e)"

definition clear_pinned_cache_dir :: "('s, 'z) private_host_scheme \<Rightarrow> rstr \<Rightarrow> ('s, io_error, unit) dact" where
  "clear_pinned_cache_dir h path =
     d_bind (remove_cache_path h path) (\<lambda>_. d_bind (ensure_private_dir_at h path) (\<lambda>_. d_ok ()))"

definition clear_remote_cache_dir :: "('s, 'z) private_host_scheme \<Rightarrow> rstr \<Rightarrow> ('s, io_error, unit) dact" where
  "clear_remote_cache_dir h path =
     d_bind (open_parent_directory h path) (\<lambda>_.
       case path_file_name path of None \<Rightarrow> d_err InvalidInput | Some _ \<Rightarrow> clear_pinned_cache_dir h path)"

definition flush_backend :: "('s, 'z) flush_dependencies_scheme \<Rightarrow> 's runner \<Rightarrow> 's private_host \<Rightarrow> bool" where
  "flush_backend d run h \<longleftrightarrow> fb_cleanup_firewall d = backend_cleanup_firewall run
     \<and> fb_destroy_ipset d = backend_destroy_ipset run \<and> fb_clear_remote_cache d = clear_remote_cache_dir h"

section \<open>The outside\<close>

text \<open>
  What the runner does: the firewall tools change their own family of rules, as \<open>iptables_law\<close> says, and
  nothing else; destroying a set removes that set or changes nothing, and leaves no set of this name when it
  succeeds or reports that there was none. No tool touches the cache.
\<close>

definition tools_law :: "'s runner \<Rightarrow> ('s \<Rightarrow> kernel_view) \<Rightarrow> ('s \<Rightarrow> file_map) \<Rightarrow> bool" where
  "tools_law run view cached \<longleftrightarrow>
     iptables_law run (k_rules4 \<circ> view) (binary FwIpv4) \<and> iptables_law run (k_rules6 \<circ> view) (binary FwIpv6)
   \<and> (\<forall>args s. let s' = snd (run (binary FwIpv4) args s)
        in k_sets (view s') = k_sets (view s) \<and> k_rules6 (view s') = k_rules6 (view s) \<and> cached s' = cached s)
   \<and> (\<forall>args s. let s' = snd (run (binary FwIpv6) args s)
        in k_sets (view s') = k_sets (view s) \<and> k_rules4 (view s') = k_rules4 (view s) \<and> cached s' = cached s)
   \<and> (\<forall>n s r s'. run (lit ''ipset'') [lit ''destroy'', n] s = (r, s') \<longrightarrow>
        k_rules4 (view s') = k_rules4 (view s) \<and> k_rules6 (view s') = k_rules6 (view s) \<and> cached s' = cached s
      \<and> k_sets (view s') \<in> {k_sets (view s), (k_sets (view s))(n := None)}
      \<and> (\<forall>res. r = Inr res \<longrightarrow> status_success (cr_status res) \<or> is_missing_set_result res \<longrightarrow> k_sets (view s') n = None))"

definition private_law :: "'s private_host \<Rightarrow> ('s \<Rightarrow> kernel_view) \<Rightarrow> ('s \<Rightarrow> file_map) \<Rightarrow> bool" where
  "private_law h view cached \<longleftrightarrow> (\<forall>p m.
     steps (keeps (\<lambda>s. (view s, cached s))) (ph_open_parent h p) \<and> steps (keeps (\<lambda>s. (view s, cached s))) (ph_make_dir h p m)
   \<and> steps (keeps (\<lambda>s. (view s, cached s))) (ph_open_dir h p) \<and> steps (keeps (\<lambda>s. (view s, cached s))) (ph_is_dir h p)
   \<and> steps (keeps (\<lambda>s. (view s, cached s))) (ph_mode h p) \<and> steps (keeps (\<lambda>s. (view s, cached s))) (ph_set_mode h p m)
   \<and> (\<forall>K F. returns (\<lambda>s. view s = K \<and> cached s = F) (ph_remove_dir_all h p)
       (\<lambda>_ s. view s = K \<and> cached s = (\<lambda>q. if under p q then None else F q))
       (\<lambda>e s. view s = K \<and> (\<exists>D. cached s = (\<lambda>q. if under p q \<and> q \<in> D then None else F q)
          \<and> (e = NotFound \<longrightarrow> (\<forall>q. under p q \<longrightarrow> F q = None))))))"

definition flush_ports_law :: "('s, 'z) flush_dependencies_scheme \<Rightarrow> ('s \<Rightarrow> 'v) \<Rightarrow> bool" where
  "flush_ports_law d v \<longleftrightarrow> (\<forall>q c f s. v (snd (port_is_cancelled d s)) = v s \<and> steps (keeps v) (port_resolve d q c)
     \<and> steps (keeps v) (port_load_config d f) \<and> steps (keeps v) (port_acquire d f) \<and> v (port_release d s) = v s)"

section \<open>What one step does\<close>

text \<open>The rules without the wiring, and what no step changes: rules and chains of others.\<close>

definition uninstalled :: "ruleset \<Rightarrow> ruleset" where
  "uninstalled R = R(INPUT := map_option (filter unmanaged_rule) (R INPUT),
     KIDOBO_CHAIN_NAME := None, KIDOBO_STAGING_CHAIN_NAME := None)"

definition foreign_kept :: "ruleset \<Rightarrow> ruleset \<Rightarrow> bool" where
  "foreign_kept R R' \<longleftrightarrow> map_option (filter unmanaged_rule) (R' INPUT) = map_option (filter unmanaged_rule) (R INPUT)
     \<and> (\<forall>c. \<not> managed c \<longrightarrow> c \<noteq> INPUT \<longrightarrow> R' c = R c)"

lemma foreign_kept_refl [simp]: "foreign_kept R R"
  by (simp add: foreign_kept_def)

lemma firewall_outcome:
  assumes law: "iptables_law run view (binary fam)" and ok: "rules_ok (view s)" and "view s INPUT \<noteq> None"
  shows "\<exists>r s'. backend_cleanup_firewall run fam s = Some (r, s') \<and> foreign_kept (view s) (view s')
    \<and> (r = Inr () \<longrightarrow> view s' = uninstalled (view s))"
proof -
  obtain i0 where i0: "view s INPUT = Some i0" using assms(3) by blast
  have "list_all rule_ok i0" using ok i0 by (auto simp: rules_ok_def)
  moreover have "holds view (view s) (\<lambda>i st sg. i = i0) s"
    using mk_self [of "view s" i0] i0 unfolding holds_def by metis
  ultimately obtain r s' where r: "cleanup_firewall_wiring run fam s = Some (r, s')"
    "case r of Inl e \<Rightarrow> fw_fails view (view s) (\<lambda>i st sg. filter unmanaged_rule i = filter unmanaged_rule i0) e s'
     | Inr u \<Rightarrow> holds view (view s) (\<lambda>i st sg. i = filter unmanaged_rule i0 \<and> st = None \<and> sg = None) s'"
    using returns_imp [OF wiring_cleanup_returns [OF law], of i0 "view s" s] by blast
  have "foreign_kept (view s) (view s')"
    using r(2) i0 by (auto simp: holds_def foreign_kept_def mk_unmanaged split: sum.splits)
  moreover have "r = Inr u \<Longrightarrow> view s' = uninstalled (view s)" for u
    using r(2) i0 by (simp add: holds_def mk_def [of "view s" "filter unmanaged_rule i0"] uninstalled_def)
  ultimately show ?thesis
    using r(1) by (cases r) (auto simp: backend_cleanup_firewall_def d_map_err_def)
qed

lemma cleanup_frame:
  assumes "\<And>args s. v (snd (run (binary fam) args s)) = v s"
  shows "backend_cleanup_firewall run fam s = Some (r, s') \<Longrightarrow> v s' = v s"
proof -
  have "unchanged v (cleanup_firewall_wiring run fam)"
    by (rule other_tool.cleanup_unchanged) (unfold_locales, rule assms)
  then show "backend_cleanup_firewall run fam s = Some (r, s') \<Longrightarrow> v s' = v s"
    by (auto simp: backend_cleanup_firewall_def d_map_err_def unchanged_def split: option.splits prod.splits)
qed


lemma destroy_outcome:
  assumes "tools_law run view cached"
  shows "\<exists>r s'. backend_destroy_ipset run n s = Some (r, s') \<and> k_rules4 (view s') = k_rules4 (view s)
    \<and> k_rules6 (view s') = k_rules6 (view s) \<and> cached s' = cached s
    \<and> (k_sets (view s') = k_sets (view s) \<or> k_sets (view s') = (k_sets (view s))(n := None))
    \<and> (r = Inr () \<longrightarrow> k_sets (view s') n = None)"
proof -
  obtain r s' where run: "run (lit ''ipset'') [lit ''destroy'', n] s = (r, s')" by fastforce
  from assms run show ?thesis
    unfolding tools_law_def by (cases r) (auto simp: backend_destroy_ipset_def Let_def)
qed

text \<open>The files that are left when a directory is emptied as far as it goes.\<close>

definition cleared_part :: "rstr \<Rightarrow> rstr set \<Rightarrow> file_map \<Rightarrow> file_map" where
  "cleared_part p D F = (\<lambda>q. if under p q \<and> q \<in> D then None else F q)"

lemma cleared_part_none: "cleared_part p {} F = F"
  by (simp add: cleared_part_def)

lemma private_dirs_keep:
  assumes law: "private_law h view cached"
  shows "steps (keeps (\<lambda>s. (view s, cached s))) (open_parent_directory h p)"
    "steps (keeps (\<lambda>s. (view s, cached s))) (ensure_private_dir_at h p)"
proof -
  note law' = law [unfolded private_law_def, rule_format]
  show "steps (keeps (\<lambda>s. (view s, cached s))) (open_parent_directory h p)"
    using law' by (simp add: open_parent_directory_def)
  show "steps (keeps (\<lambda>s. (view s, cached s))) (ensure_private_dir_at h p)"
    unfolding ensure_private_dir_at_def set_mode_def using law'
    by (intro keeping.steps_intros | simp add: keeping.steps_ok keeping.steps_err split: sum.split)+
qed

lemma removed_outcome:
  assumes law: "private_law h view cached"
  shows "\<exists>r s'. remove_cache_path h p s = Some (r, s') \<and> view s' = view s \<and> (\<exists>D. cached s' = cleared_part p D (cached s))
    \<and> (r = Inr () \<longrightarrow> cached s' = cleared_part p UNIV (cached s))"
proof -
  have "returns (\<lambda>t. view t = view s \<and> cached t = cached s) (ph_remove_dir_all h p)
      (\<lambda>_ t. view t = view s \<and> cached t = (\<lambda>q. if under p q then None else cached s q))
      (\<lambda>e t. view t = view s \<and> (\<exists>D. cached t = (\<lambda>q. if under p q \<and> q \<in> D then None else cached s q)
          \<and> (e = NotFound \<longrightarrow> (\<forall>q. under p q \<longrightarrow> cached s q = None))))"
    using law unfolding private_law_def by blast
  then obtain r t where r: "ph_remove_dir_all h p s = Some (r, t)" "case r of
        Inl e \<Rightarrow> view t = view s \<and> (\<exists>D. cached t = (\<lambda>q. if under p q \<and> q \<in> D then None else cached s q)
          \<and> (e = NotFound \<longrightarrow> (\<forall>q. under p q \<longrightarrow> cached s q = None)))
      | Inr _ \<Rightarrow> view t = view s \<and> cached t = (\<lambda>q. if under p q then None else cached s q)"
    unfolding returns_def by blast
  have all: "cached t = cleared_part p UNIV (cached s)" if "\<not> isl r \<or> r = Inl NotFound"
    using r(2) that by (cases r) (auto simp: cleared_part_def fun_eq_iff)
  moreover have "view t = view s \<and> (\<exists>D. cached t = cleared_part p D (cached s))"
    using r(2) all by (cases r) (auto simp: cleared_part_def intro: exI [of _ UNIV])
  ultimately show ?thesis
    using r(1) by (cases r) (auto simp: remove_cache_path_def d_bind_def d_try_def d_ok_def d_err_def)
qed

lemma clear_outcome:
  assumes law: "private_law h view cached"
  shows "\<exists>r s'. clear_remote_cache_dir h p s = Some (r, s') \<and> view s' = view s \<and> (\<exists>D. cached s' = cleared_part p D (cached s))
    \<and> (r = Inr () \<longrightarrow> cached s' = cleared_part p UNIV (cached s))"
proof -
  obtain r1 s1 where 1: "open_parent_directory h p s = Some (r1, s1)" "view s1 = view s" "cached s1 = cached s"
    using stepsD [OF private_dirs_keep(1) [OF law]] by (fastforce simp: keeps_def)
  obtain r2 s2 where 2: "remove_cache_path h p s1 = Some (r2, s2)" "view s2 = view s1" "\<exists>D. cached s2 = cleared_part p D (cached s1)"
    "r2 = Inr () \<Longrightarrow> cached s2 = cleared_part p UNIV (cached s1)" using removed_outcome [OF law] by blast
  obtain r3 s3 where 3: "ensure_private_dir_at h p s2 = Some (r3, s3)" "view s3 = view s2" "cached s3 = cached s2"
    using stepsD [OF private_dirs_keep(2) [OF law]] by (fastforce simp: keeps_def)
  show ?thesis
    using 1 2 3 by (cases r1; cases r2; cases r3; cases "path_file_name p")
      (auto simp: clear_remote_cache_dir_def clear_pinned_cache_dir_def d_bind_def d_ok_def d_err_def
        intro: exI [of _ "{}"] simp: cleared_part_none)
qed


section \<open>The ledger\<close>

definition flush_operations :: "ipset_config \<Rightarrow> rstr list" where
  "flush_operations i = [lit ''IPv4 firewall'', lit ''IPv6 firewall'', set_operation (set_name i)]
     @ (if second_set i then [set_operation (set_name_v6 i)] else []) @ [lit ''remote cache'']"

definition managed_sets :: "ipset_config \<Rightarrow> rstr set" where
  "managed_sets i = insert (set_name i) (if second_set i then {set_name_v6 i} else {})"

text \<open>
  A ledger is complete when every operation is completed or failed, in the order of the operations; it
  is truthful when what it reports as completed has happened, and nothing but what the operations are
  for has changed.
\<close>

definition ledger_complete :: "rstr list \<Rightarrow> flush_outcome \<Rightarrow> bool" where
  "ledger_complete operations out \<longleftrightarrow> (\<exists>results :: (flush_reason + unit) list. length results = length operations
     \<and> fo_completed out = map fst (filter (\<lambda>x. \<not> isl (snd x)) (zip operations results))
     \<and> map cf_operation (fo_failed out) = map fst (filter (\<lambda>x. isl (snd x)) (zip operations results))
     \<and> map cf_reason (fo_failed out) = map projl (filter isl results))"

definition ledger_truthful ::
    "ipset_config \<Rightarrow> rstr \<Rightarrow> flush_outcome \<Rightarrow> kernel_view \<Rightarrow> file_map \<Rightarrow> kernel_view \<Rightarrow> file_map \<Rightarrow> bool" where
  "ledger_truthful i cache out K F K' F' \<longleftrightarrow>
     foreign_kept (k_rules4 K) (k_rules4 K') \<and> foreign_kept (k_rules6 K) (k_rules6 K')
   \<and> (lit ''IPv4 firewall'' \<in> set (fo_completed out) \<longrightarrow> k_rules4 K' = uninstalled (k_rules4 K))
   \<and> (lit ''IPv6 firewall'' \<in> set (fo_completed out) \<longrightarrow> k_rules6 K' = uninstalled (k_rules6 K))
   \<and> (\<forall>n. if n \<in> managed_sets i
        then k_sets K' n \<in> {k_sets K n, None} \<and> (set_operation n \<in> set (fo_completed out) \<longrightarrow> k_sets K' n = None)
        else k_sets K' n = k_sets K n)
   \<and> (\<exists>D. F' = cleared_part cache D F)
   \<and> (lit ''remote cache'' \<in> set (fo_completed out) \<longrightarrow> F' = cleared_part cache UNIV F)"

lemma operations_differ:
  "lit ''IPv4 firewall'' \<noteq> lit ''IPv6 firewall''" "lit ''IPv4 firewall'' \<noteq> lit ''remote cache''"
  "lit ''IPv6 firewall'' \<noteq> lit ''remote cache''"
  "lit ''IPv4 firewall'' \<noteq> set_operation n" "lit ''IPv6 firewall'' \<noteq> set_operation n" "lit ''remote cache'' \<noteq> set_operation n"
  "set_operation n = set_operation m \<longleftrightarrow> n = m"
  by (simp_all add: set_operation_def lit_def)

lemmas operations_differ' = operations_differ operations_differ(1-6) [symmetric]

lemma attempted_run:
  "m s = Some (r, s') \<Longrightarrow> attempted out operation m s = Some (Inr (attempt out operation r), s')"
  by (simp add: attempted_def d_bind_def d_try_def d_ok_def)

lemma complete_Nil: "ledger_complete [] \<lparr>fo_completed = [], fo_failed = []\<rparr>"
  by (simp add: ledger_complete_def)

lemma complete_attempt:
  assumes "ledger_complete operations out"
  shows "ledger_complete (operations @ [operation]) (attempt out operation r)"
proof -
  obtain results :: "(flush_reason + unit) list" where "length results = length operations"
    "fo_completed out = map fst (filter (\<lambda>x. \<not> isl (snd x)) (zip operations results))"
    "map cf_operation (fo_failed out) = map fst (filter (\<lambda>x. isl (snd x)) (zip operations results))"
    "map cf_reason (fo_failed out) = map projl (filter isl results)"
    using assms by (auto simp: ledger_complete_def)
  then show ?thesis
    unfolding ledger_complete_def by (intro exI [of _ "results @ [r]"]) (cases r; simp)
qed

lemma completed_attempt: "set (fo_completed (attempt out operation r)) =
    set (fo_completed out) \<union> (if isl r then {} else {operation})"
  by (cases r) auto


text \<open>A set that is destroyed twice, or not at all.\<close>

lemma destroyed_sets:
  assumes "L = K \<or> L = K(n := None)" "ok \<longrightarrow> L n = None"
    "if second then (M = L \<or> M = L(m := None)) \<and> (ok' \<longrightarrow> M m = None) else M = L"
  shows "if x \<in> insert n (if second then {m} else {})
    then M x \<in> {K x, None} \<and> (ok \<and> x = n \<or> second \<and> ok' \<and> x = m \<longrightarrow> M x = None) else M x = K x"
  using assms by (auto split: if_splits)

lemma succeeded: "\<not> isl r \<longleftrightarrow> r = Inr ()"
  by (cases r) simp_all

lemma isl_map_err: "isl (map_err g r) \<longleftrightarrow> isl r"
  by (cases r) simp_all

lemma artifacts_outcome:
  assumes tools: "tools_law run view cached" and private_calls: "private_law h view cached"
    and backend: "flush_backend d run h" and ready: "ready (view s)"
  shows "\<exists>out s'. flush_artifacts d cfg paths s = Some (Inr out, s') \<and> ledger_complete (flush_operations (cfg_ipset cfg)) out
    \<and> ledger_truthful (cfg_ipset cfg) (remote_cache_dir paths) out (view s) (cached s) (view s') (cached s')"
proof -
  let ?i = "cfg_ipset cfg"
  let ?empty = "\<lparr>fo_completed = [], fo_failed = []\<rparr>"
  note tools' = tools [unfolded tools_law_def Let_def]
  have fb: "fb_cleanup_firewall d = backend_cleanup_firewall run" "fb_destroy_ipset d = backend_destroy_ipset run"
    "fb_clear_remote_cache d = clear_remote_cache_dir h" using backend by (simp_all add: flush_backend_def)
  obtain r1 s1 where 1: "backend_cleanup_firewall run FwIpv4 s = Some (r1, s1)" "foreign_kept (k_rules4 (view s)) (k_rules4 (view s1))"
    "r1 = Inr () \<longrightarrow> k_rules4 (view s1) = uninstalled (k_rules4 (view s))"
    using firewall_outcome [of run "k_rules4 \<circ> view" FwIpv4 s] tools' ready by (auto simp: ready_def)
  have f1: "k_sets (view s1) = k_sets (view s)" "k_rules6 (view s1) = k_rules6 (view s)" "cached s1 = cached s"
    using cleanup_frame [of "\<lambda>s. (k_sets (view s), k_rules6 (view s), cached s)" run FwIpv4, OF _ 1(1)] tools' by simp_all
  obtain r2 s2 where 2: "backend_cleanup_firewall run FwIpv6 s1 = Some (r2, s2)" "foreign_kept (k_rules6 (view s1)) (k_rules6 (view s2))"
    "r2 = Inr () \<longrightarrow> k_rules6 (view s2) = uninstalled (k_rules6 (view s1))"
    using firewall_outcome [of run "k_rules6 \<circ> view" FwIpv6 s1] tools' ready f1(2) by (auto simp: ready_def)
  have f2: "k_sets (view s2) = k_sets (view s1)" "k_rules4 (view s2) = k_rules4 (view s1)" "cached s2 = cached s1"
    using cleanup_frame [of "\<lambda>s. (k_sets (view s), k_rules4 (view s), cached s)" run FwIpv6, OF _ 2(1)] tools' by simp_all
  obtain r3 s3 where 3: "backend_destroy_ipset run (set_name ?i) s2 = Some (r3, s3)" "k_rules4 (view s3) = k_rules4 (view s2)"
    "k_rules6 (view s3) = k_rules6 (view s2)" "cached s3 = cached s2"
    "k_sets (view s3) = k_sets (view s2) \<or> k_sets (view s3) = (k_sets (view s2))(set_name ?i := None)"
    "r3 = Inr () \<longrightarrow> k_sets (view s3) (set_name ?i) = None" using destroy_outcome [OF tools] by blast
  obtain r4 s4 where 4: "backend_destroy_ipset run (set_name_v6 ?i) s3 = Some (r4, s4)" "k_rules4 (view s4) = k_rules4 (view s3)"
    "k_rules6 (view s4) = k_rules6 (view s3)" "cached s4 = cached s3"
    "k_sets (view s4) = k_sets (view s3) \<or> k_sets (view s4) = (k_sets (view s3))(set_name_v6 ?i := None)"
    "r4 = Inr () \<longrightarrow> k_sets (view s4) (set_name_v6 ?i) = None" using destroy_outcome [OF tools] by blast
  define t where "t = (if second_set ?i then s4 else s3)"
  obtain r5 s5 where 5: "clear_remote_cache_dir h (remote_cache_dir paths) t = Some (r5, s5)" "view s5 = view t"
    "\<exists>D. cached s5 = cleared_part (remote_cache_dir paths) D (cached t)"
    "r5 = Inr () \<longrightarrow> cached s5 = cleared_part (remote_cache_dir paths) UNIV (cached t)" using clear_outcome [OF private_calls] by blast
  let ?o3 = "attempt (attempt (attempt ?empty (lit ''IPv4 firewall'') r1) (lit ''IPv6 firewall'') r2) (set_operation (set_name ?i)) r3"
  let ?o4 = "if second_set ?i then attempt ?o3 (set_operation (set_name_v6 ?i)) r4 else ?o3"
  let ?out = "attempt ?o4 (lit ''remote cache'') (map_err (CacheClearFailed (remote_cache_dir paths)) r5)"
  have run: "flush_artifacts d cfg paths s = Some (Inr ?out, s5)"
    unfolding flush_artifacts_def fb using 1(1) 2(1) 3(1) 4(1) map_err_run [of "clear_remote_cache_dir h (remote_cache_dir paths)" t r5 s5 "CacheClearFailed (remote_cache_dir paths)", OF 5(1)]
    by (cases "second_set ?i") (simp_all add: attempted_run d_bind_def t_def d_ok_def)
  have complete: "ledger_complete (flush_operations ?i) ?out"
    using complete_attempt [OF complete_attempt [OF complete_attempt [OF complete_attempt [OF complete_Nil]]], simplified]
      complete_attempt [OF complete_attempt [OF complete_attempt [OF complete_attempt [OF complete_attempt [OF complete_Nil]]]], simplified]
    unfolding flush_operations_def by (cases "second_set ?i") simp_all
  have completed: "lit ''IPv4 firewall'' \<in> set (fo_completed ?out) \<longleftrightarrow> \<not> isl r1" "lit ''IPv6 firewall'' \<in> set (fo_completed ?out) \<longleftrightarrow> \<not> isl r2"
    "lit ''remote cache'' \<in> set (fo_completed ?out) \<longleftrightarrow> \<not> isl r5"
    "set_operation n \<in> set (fo_completed ?out) \<longleftrightarrow> \<not> isl r3 \<and> n = set_name ?i \<or> second_set ?i \<and> \<not> isl r4 \<and> n = set_name_v6 ?i" for n
    using operations_differ' by (auto simp: completed_attempt isl_map_err)
  have final: "k_rules4 (view s5) = k_rules4 (view s1)" "k_rules6 (view s5) = k_rules6 (view s2)" "cached t = cached s"
    "k_sets (view s5) = k_sets (view t)" "k_sets (view s2) = k_sets (view s)" "k_rules6 (view s1) = k_rules6 (view s)"
    using 3(2-4) 4(2-4) 5(2) f1 f2 by (simp_all add: t_def)
  have sets: "if n \<in> insert (set_name ?i) (if second_set ?i then {set_name_v6 ?i} else {})
      then k_sets (view t) n \<in> {k_sets (view s2) n, None}
        \<and> (\<not> isl r3 \<and> n = set_name ?i \<or> second_set ?i \<and> \<not> isl r4 \<and> n = set_name_v6 ?i \<longrightarrow> k_sets (view t) n = None)
      else k_sets (view t) n = k_sets (view s2) n" for n
    by (rule destroyed_sets [where L="k_sets (view s3)"]) (use 3(5,6) 4(5,6) in \<open>simp_all add: t_def succeeded\<close>)
  have "ledger_truthful ?i (remote_cache_dir paths) ?out (view s) (cached s) (view s5) (cached s5)"
    unfolding ledger_truthful_def completed managed_sets_def final succeeded
    using 1(2,3) 2(2,3) 5(3,4) sets unfolding final succeeded by blast
  then show ?thesis using run complete by blast
qed


section \<open>The whole workflow\<close>

lemma check_keeps: "(\<And>s. v (snd (port_is_cancelled d s)) = v s) \<Longrightarrow> steps (keeps v) (cancellation_check d)"
  by (simp add: steps_def keeps_def cancellation_check_def split: prod.split) (metis snd_conv)

text \<open>What a flush may end with, from the state it started in.\<close>

definition flush_result ::
    "('s, 'z) flush_dependencies_scheme \<Rightarrow> flush_request \<Rightarrow> kernel_view \<times> file_map \<Rightarrow> app_error + flush_outcome
      \<Rightarrow> kernel_view \<times> file_map \<Rightarrow> bool" where
  "flush_result d q v r v' \<longleftrightarrow> (case r of
       Inl _ \<Rightarrow> fst v' = fst v \<and> (snd v' = snd v \<or> fq_cache_only q \<and> (\<exists>p D. snd v' = cleared_part p D (snd v)))
     | Inr out \<Rightarrow> (\<exists>u u' c paths. port_resolve d (fq_paths q) c u = Some (Inr paths, u')
         \<and> (if fq_cache_only q
            then fst v' = fst v \<and> snd v' = cleared_part (remote_cache_dir paths) UNIV (snd v)
              \<and> out = \<lparr>fo_completed = [lit ''remote cache''], fo_failed = []\<rparr>
            else (\<exists>t cfg t'. port_load_config d (config_file paths) t = Some (Inr cfg, t')
              \<and> ledger_complete (flush_operations (cfg_ipset cfg)) out
              \<and> ledger_truthful (cfg_ipset cfg) (remote_cache_dir paths) out (fst v) (snd v) (fst v') (snd v')))))"

lemma locked_outcome:
  assumes tools: "tools_law run view cached" and private_calls: "private_law h view cached"
    and backend: "flush_backend d run h" and ports: "flush_ports_law d (\<lambda>s. (view s, cached s))" and ready: "ready (view s)"
    and resolved: "port_resolve d (fq_paths q) c u = Some (Inr paths, u')"
  shows "\<exists>r s'. flush_locked d q paths s = Some (r, s') \<and> flush_result d q (view s, cached s) r (view s', cached s')"
proof -
  let ?v = "\<lambda>s. (view s, cached s)"
  have check: "steps (keeps ?v) (cancellation_check d)"
    by (rule check_keeps) (use ports in \<open>simp add: flush_ports_law_def\<close>)
  have load: "steps (keeps ?v) (port_load_config d f)" for f
    using ports by (simp add: flush_ports_law_def)
  have failed: "?v t = ?v s \<Longrightarrow> flush_result d q (view s, cached s) (Inl e) (view t, cached t)" for t e
    by (simp add: flush_result_def)
  show ?thesis
  proof (cases "fq_cache_only q")
    case True
    have cleared: "\<exists>r s'. d_bind (d_map_err (FlushCacheIo (remote_cache_dir paths)) (fb_clear_remote_cache d (remote_cache_dir paths))) (\<lambda>_.
          d_ok \<lparr>fo_completed = [lit ''remote cache''], fo_failed = []\<rparr>) t = Some (r, s')
        \<and> flush_result d q (view s, cached s) r (view s', cached s')" if t: "?v t = ?v s" for t
    proof -
      obtain r s' where r: "clear_remote_cache_dir h (remote_cache_dir paths) t = Some (r, s')" "view s' = view t"
        "\<exists>D. cached s' = cleared_part (remote_cache_dir paths) D (cached t)"
        "r = Inr () \<longrightarrow> cached s' = cleared_part (remote_cache_dir paths) UNIV (cached t)" using clear_outcome [OF private_calls] by blast
      then show ?thesis
        using t True resolved backend
        by (cases r) (auto simp: d_bind_def d_map_err_def d_ok_def flush_backend_def flush_result_def)
    qed
    show ?thesis unfolding flush_locked_def if_P [OF True]
      by (rule quiet_then [where v="?v", OF check], erule cleared, erule failed)
  next
    case False
    have artifacts: "\<exists>r s'. flush_artifacts d cfg paths t = Some (r, s') \<and> flush_result d q (view s, cached s) r (view s', cached s')"
      if "port_load_config d (config_file paths) w = Some (Inr cfg, w')" "?v t = ?v s" for w cfg w' t
      using artifacts_outcome [OF tools private_calls backend, of t cfg paths] that ready False resolved
      unfolding flush_result_def by fastforce
    show ?thesis unfolding flush_locked_def if_not_P [OF False]
      by (rule quiet_then [where v="?v", OF load], rule quiet_then [where v="?v", OF check], rule artifacts, assumption)
        (use failed in simp_all)
  qed
qed

text \<open>
  C17: The ledger of a flush tells the truth. A flush returns whatever the tools, the files and the
  ports do. When it returns a ledger, every operation is in it once, in order, completed or failed with a reason; each
  family of rules, each set and the cache are gone where it says so, rules, chains and sets of others are
  untouched, and files go from the cache directory only. When it fails, or clears the cache only, the kernel is as before.
\<close>

theorem flush_ledger_truthful:
  assumes "tools_law run view cached" "private_law h view cached" "flush_backend d run h"
    "flush_ports_law d (\<lambda>s. (view s, cached s))" "ready (view s)"
  shows "\<exists>r s'. flush_execute d q s = Some (r, s') \<and> flush_result d q (view s, cached s) r (view s', cached s')"
proof -
  let ?v = "\<lambda>s. (view s, cached s)"
  note ports = assms(4) [unfolded flush_ports_law_def]
  have check: "steps (keeps ?v) (cancellation_check d)"
    by (rule check_keeps) (use ports in simp)
  have resolve: "steps (keeps ?v) (port_resolve d (fq_paths q) c)" and acquire: "steps (keeps ?v) (port_acquire d f)"
    and release: "?v (port_release d t) = ?v t" for c f t
    using ports by simp_all
  have failed: "?v t = ?v s \<Longrightarrow> flush_result d q (view s, cached s) (Inl e) (view t, cached t)" for t e
    by (simp add: flush_result_def)
  have locked: "\<exists>r s'. flush_locked d q paths t = Some (r, s') \<and> flush_result d q (view s, cached s) r (view (port_release d s'), cached (port_release d s'))"
    if "port_resolve d (fq_paths q) c u = Some (Inr paths, u')" "?v t = ?v s" for c u u' paths t
    using locked_outcome [OF assms(1-4) _ that(1), of t] assms(5) that(2) release by simp
  show ?thesis unfolding flush_execute_def with_lock_def
    by (rule quiet_then [where v="?v", OF check], rule quiet_then [where v="?v", OF resolve], rule quiet_then [where v="?v", OF acquire],
        rule finally_then, rule locked, assumption) (use failed in simp_all)
qed


text \<open>An example: the machine of the two tools with a cache directory, flushed through its ports.\<close>

definition on_first :: "'s runner \<Rightarrow> ('s \<times> 'c) runner" where
  "on_first run program args s = (case run program args (fst s) of (r, x) \<Rightarrow> (r, (x, snd s)))"

definition memory_private :: "(system \<times> file_map) private_host" where
  "memory_private = \<lparr>ph_open_parent = (\<lambda>_. d_ok ()),
     ph_remove_dir_all = (\<lambda>p s. Some (Inr (), (fst s, (\<lambda>q. if under p q then None else snd s q)))),
     ph_make_dir = (\<lambda>_ _. d_ok ()), ph_open_dir = (\<lambda>_. d_ok ()), ph_is_dir = (\<lambda>_. d_ok True), ph_mode = (\<lambda>_. d_ok 448),
     ph_set_mode = (\<lambda>_ _. d_ok ()), ph_open_file = (\<lambda>_. d_ok ()), ph_is_file = (\<lambda>_. d_ok True)\<rparr>"

definition memory_flush :: "(system \<times> file_map) flush_dependencies" where
  "memory_flush = \<lparr>port_is_cancelled = (\<lambda>s. (False, s)), port_resolve = (\<lambda>_ _. d_ok memory_paths),
     port_load_config = (\<lambda>_. d_ok demo_config), port_acquire = (\<lambda>_. d_ok ()), port_release = (\<lambda>s. s), port_now = d_ok 1700000000,
     port_load_bans = (\<lambda>_. d_ok \<lparr>tb_ips = [], tb_asns = []\<rparr>), port_save_bans = (\<lambda>_ _. d_ok ()),
     fb_cleanup_firewall = backend_cleanup_firewall (on_first system_run),
     fb_destroy_ipset = backend_destroy_ipset (on_first system_run), fb_clear_remote_cache = clear_remote_cache_dir memory_private\<rparr>"

lemma on_first_sel: "on_first run p args s = (r, s') \<Longrightarrow> run p args (fst s) = (r, fst s') \<and> snd s' = snd s"
  by (auto simp: on_first_def split: prod.splits)

lemma iptables_law_first: "iptables_law run view bin \<Longrightarrow> iptables_law (on_first run) (\<lambda>s. view (fst s)) bin"
  unfolding iptables_law_def by (intro allI impI) (drule on_first_sel, blast)

lemma memory_destroy:
  assumes "system_run (lit ''ipset'') [lit ''destroy'', n] s = (r, s')"
  shows "k_sets (system_view s') = (k_sets (system_view s))(n := None) \<and> k_rules4 (system_view s') = k_rules4 (system_view s)
    \<and> k_rules6 (system_view s') = k_rules6 (system_view s) \<or> r = mh_result False [] \<and> s' = s"
  using assms by (auto simp: system_run_def system_view_def mh_run_def split: if_splits prod.splits)

lemma memory_tools_law: "tools_law (on_first system_run) (\<lambda>s. system_view (fst s)) snd"
proof -
  have run: "ih_run system_host = system_run" by (simp add: system_host_def)
  have host: "host_law system_host system_view (mh_files \<circ> sys_host)" by (rule system_host_law)
  have frames: "k_sets (system_view (snd (system_run (binary FwIpv4) args s))) = k_sets (system_view s)"
    "k_rules6 (system_view (snd (system_run (binary FwIpv4) args s))) = k_rules6 (system_view s)"
    "k_sets (system_view (snd (system_run (binary FwIpv6) args s))) = k_sets (system_view s)"
    "k_rules4 (system_view (snd (system_run (binary FwIpv6) args s))) = k_rules4 (system_view s)" for args s
    using host by (simp_all add: host_law_def Let_def run)
  have first: "snd (snd (on_first system_run p args s)) = snd s" "fst (snd (on_first system_run p args s)) = snd (system_run p args (fst s))"
    for p args and s :: "system \<times> file_map"
    by (simp_all add: on_first_def split: prod.splits)
  have fw: "iptables_law (on_first system_run) (k_rules4 \<circ> (\<lambda>s. system_view (fst s))) (binary FwIpv4)"
    "iptables_law (on_first system_run) (k_rules6 \<circ> (\<lambda>s. system_view (fst s))) (binary FwIpv6)"
    using iptables_law_first [OF system_fw_law(1)] iptables_law_first [OF system_fw_law(2)] by (simp_all add: run comp_def)
  have destroy: "k_rules4 (system_view (fst s')) = k_rules4 (system_view (fst s)) \<and> k_rules6 (system_view (fst s')) = k_rules6 (system_view (fst s))
      \<and> snd s' = snd s \<and> k_sets (system_view (fst s')) \<in> {k_sets (system_view (fst s)), (k_sets (system_view (fst s)))(n := None)}
      \<and> (\<forall>res. r = Inr res \<longrightarrow> status_success (cr_status res) \<or> is_missing_set_result res \<longrightarrow> k_sets (system_view (fst s')) n = None)"
    if "on_first system_run (lit ''ipset'') [lit ''destroy'', n] s = (r, s')" for n r and s s' :: "system \<times> file_map"
    using memory_destroy [of n "fst s" r "fst s'"] on_first_sel [OF that] by auto
  show ?thesis unfolding tools_law_def Let_def first
    by (intro conjI allI impI fw frames refl) (use destroy in blast)+
qed

lemma memory_private_law: "private_law memory_private (\<lambda>s. system_view (fst s)) snd"
  by (auto simp: private_law_def memory_private_def keeping.steps_ok returns_def)

lemma memory_flush_law: "flush_ports_law memory_flush v" "flush_backend memory_flush (on_first system_run) memory_private"
  by (simp_all add: flush_ports_law_def flush_backend_def memory_flush_def keeping.steps_ok)

theorem flush_ledger_truthful_witness:
  "\<exists>r s'. flush_execute memory_flush \<lparr>fq_paths = demo_request, fq_cache_only = False\<rparr> (demo_system, (\<lambda>_. None)) = Some (r, s')
    \<and> flush_result memory_flush \<lparr>fq_paths = demo_request, fq_cache_only = False\<rparr> (system_view demo_system, (\<lambda>_. None))
      r (system_view (fst s'), snd s')"
  using flush_ledger_truthful [OF memory_tools_law memory_private_law memory_flush_law(2) memory_flush_law(1),
      of "(demo_system, (\<lambda>_. None))"] demo_ready by simp

end
