(* ===== verification/Configuration_App.thy ===== *)
theory Configuration_App
  imports Files App_Types
begin

text \<open>
  Reading and editing the saved configuration: the workflows of \<^verbatim>\<open>crates/kidobo-app/src/configuration.rs\<close>
  and the files behind them, \<^verbatim>\<open>config.rs\<close> and the reader and the writer of \<^verbatim>\<open>config_management.rs\<close> of the
  adapters. A change is prepared without writing, reviewed, and applied under the lock to the revision it
  was prepared from. The TOML decoder, the TOML document parser and the editor of TOML text are parameters.
\<close>

section \<open>Documents, edits and settings\<close>

record configuration_document =
  doc_contents :: rstr
  doc_explicit :: "rstr set"
  doc_legacy_stale :: "nat option"

datatype configuration_write_mode = ReplaceExisting | WriteNew

datatype configuration_edit =
    AddSource rstr
  | RemoveSource rstr
  | AddAllow rstr
  | RemoveAllow rstr
  | SetBasic bool bool "rstr list" "rstr list"

record configuration_request =
  cq_paths :: path_resolution_input
  cq_edit :: configuration_edit
  cq_allow_missing :: bool

record configuration_preview =
  cv_paths :: resolved_paths
  cv_original :: "rstr option"
  cv_candidate :: rstr
  cv_before :: config
  cv_after :: config
  cv_changed_fields :: "rstr list"
  cv_expands_exemption :: bool

definition preview_changed :: "configuration_preview \<Rightarrow> bool" where
  "preview_changed v \<longleftrightarrow> cv_original v \<noteq> Some (cv_candidate v)"

definition creates_file :: "configuration_preview \<Rightarrow> bool" where
  "creates_file v \<longleftrightarrow> cv_original v = None"

record configuration_outcome =
  co_changed :: bool
  co_created :: bool
  co_changed_fields :: "rstr list"

datatype setting_origin = ExplicitSetting | DefaultSetting | DerivedSetting

datatype setting_value =
    TextValue rstr
  | BooleanValue bool
  | NumberValue nat
  | StringsValue "rstr list"
  | NumbersValue "nat list"
  | NotSet

datatype setting_note = CompatibilityOnly | EmptySelectsAll

record config_setting =
  set_key :: rstr
  set_value :: setting_value
  set_origin :: setting_origin
  set_note :: "setting_note option"

record configuration_view =
  vw_paths :: resolved_paths
  vw_exists :: bool
  vw_config :: config
  vw_settings :: "config_setting list"

datatype cache_availability = Available | NotAvailable | NotKnown

record source_cache_status =
  sc_availability :: cache_availability
  sc_provenance :: "rstr option"
  sc_detail :: rstr

record configured_source =
  cs_url :: rstr
  cs_cache :: source_cache_status
  cs_freshness :: "rstr option"

text \<open>
  The ports of all configuration workflows. The code passes each workflow a structure with only the
  ports it may use; here each definition uses only those.
\<close>

record 's configuration_dependencies = "'s app_ports" +
  cg_parse :: "rstr \<Rightarrow> config_error + config"
  cg_read :: "rstr \<Rightarrow> ('s, app_error, configuration_document option) dact"
  cg_render :: "rstr \<Rightarrow> configuration_edit \<Rightarrow> app_error + rstr"
  cg_write :: "rstr \<Rightarrow> rstr \<Rightarrow> configuration_write_mode \<Rightarrow> ('s, app_error, unit) dact"
  cg_inspect :: "rstr \<Rightarrow> rstr \<Rightarrow> nat \<Rightarrow> ('s \<Rightarrow> (source_cache_status \<times> 's) option)"

section \<open>Views\<close>

definition quoted :: "string \<Rightarrow> rstr" where
  "quoted s = [34] @ lit s @ [34]"

definition DEFAULT_CONFIG_TEMPLATE :: rstr where
  "DEFAULT_CONFIG_TEMPLATE = str_join [10] [
     lit ''[ipset]'', lit ''set_name = '' @ quoted ''kidobo'', lit ''chain_action = '' @ quoted ''DROP'', [],
     lit ''[safe]'', lit ''ips = []'', lit ''include_github_meta = true'',
     lit ''github_meta_url = '' @ quoted ''https://api.github.com/meta'',
     lit ''# github_meta_categories = ['' @ quoted ''api'' @ lit '', '' @ quoted ''git'' @ lit '', '' @ quoted ''hooks''
       @ lit '', '' @ quoted ''packages'' @ lit '']'', [],
     lit ''[remote]'', lit ''timeout_secs = 30'', lit ''urls = []'', [],
     lit ''[asn]'', lit ''banned = []'', lit ''cache_stale_after_secs = 86400'', []]"

definition document_or_starter ::
    "configuration_document option \<Rightarrow> bool \<Rightarrow> rstr \<Rightarrow> app_error + configuration_document" where
  "document_or_starter document allow_missing path = (case document of
       Some d \<Rightarrow> Inr d
     | None \<Rightarrow> if allow_missing
         then Inr \<lparr>doc_contents = DEFAULT_CONFIG_TEMPLATE, doc_explicit = {}, doc_legacy_stale = None\<rparr>
         else Inl (MissingConfigFile path))"

definition changed_fields :: "config \<Rightarrow> config \<Rightarrow> rstr list" where
  "changed_fields old new =
       (if enable_ipv6 (cfg_ipset old) \<noteq> enable_ipv6 (cfg_ipset new) then [lit ''ipset.enable_ipv6''] else [])
     @ (if include_github_meta (cfg_safe old) \<noteq> include_github_meta (cfg_safe new) then [lit ''safe.include_github_meta''] else [])
     @ (if urls (cfg_remote old) \<noteq> urls (cfg_remote new) then [lit ''remote.urls''] else [])
     @ (if safe_ips (cfg_safe old) \<noteq> safe_ips (cfg_safe new) then [lit ''safe.ips''] else [])"

definition DEFAULT_GITHUB_META_CATEGORIES :: "rstr list" where
  "DEFAULT_GITHUB_META_CATEGORIES = [lit ''api'', lit ''git'', lit ''hooks'', lit ''packages'']"

definition setting_entries :: "config \<Rightarrow> configuration_document \<Rightarrow> (rstr \<times> setting_value) list" where
  "setting_entries c document = (let i = cfg_ipset c; s = cfg_safe c in [
     (lit ''ipset.set_name'', TextValue (set_name i)),
     (lit ''ipset.set_name_v6'', TextValue (set_name_v6 i)),
     (lit ''ipset.enable_ipv6'', BooleanValue (enable_ipv6 i)),
     (lit ''ipset.chain_action'', TextValue (case chain_action i of Drop \<Rightarrow> lit ''DROP'' | Reject \<Rightarrow> lit ''REJECT'')),
     (lit ''ipset.set_type'', TextValue (set_type i)),
     (lit ''ipset.hashsize'', NumberValue (hashsize_get (hashsize i))),
     (lit ''ipset.maxelem'', NumberValue (maxelem_get (maxelem i))),
     (lit ''ipset.timeout'', NumberValue (timeout i)),
     (lit ''safe.ips'', StringsValue (map show_cidr (safe_ips s))),
     (lit ''safe.include_github_meta'', BooleanValue (include_github_meta s)),
     (lit ''safe.github_meta_url'', TextValue (github_meta_url s)),
     (lit ''safe.github_meta_categories'', StringsValue (case github_meta_categories s of
        Some cs \<Rightarrow> cs | None \<Rightarrow> DEFAULT_GITHUB_META_CATEGORIES)),
     (lit ''remote.urls'', StringsValue (urls (cfg_remote c))),
     (lit ''remote.timeout_secs'', NumberValue (remote_timeout_get (timeout_secs (cfg_remote c)))),
     (lit ''remote.cache_stale_after_secs'', (case doc_legacy_stale document of None \<Rightarrow> NotSet | Some n \<Rightarrow> NumberValue n)),
     (lit ''asn.banned'', NumbersValue (banned (cfg_asn c))),
     (lit ''asn.cache_stale_after_secs'', NumberValue (asn_stale_get (cache_stale_after_secs (cfg_asn c))))])"

definition effective_settings :: "config \<Rightarrow> configuration_document \<Rightarrow> config_setting list" where
  "effective_settings c document = map (\<lambda>(key, value). \<lparr>set_key = key, set_value = value,
     set_origin = (if key \<in> doc_explicit document then ExplicitSetting
       else if key = lit ''ipset.set_name_v6'' then DerivedSetting else DefaultSetting),
     set_note = (if key = lit ''remote.cache_stale_after_secs'' then Some CompatibilityOnly
       else if key = lit ''safe.github_meta_categories'' \<and> github_meta_categories (cfg_safe c) = Some [] then Some EmptySelectsAll
       else None)\<rparr>) (setting_entries c document)"

definition config_path :: "('s, 'z) configuration_dependencies_scheme \<Rightarrow> path_resolution_input \<Rightarrow> ('s, app_error, rstr) dact" where
  "config_path d request = d_bind (port_resolve d request ConfigOptional) (\<lambda>paths. d_ok (config_file paths))"

definition parsed :: "('s, 'z) configuration_dependencies_scheme \<Rightarrow> rstr \<Rightarrow> app_error + config" where
  "parsed d contents = map_err ConfigParse (cg_parse d contents)"

definition read_configuration ::
    "('s, 'z) configuration_dependencies_scheme \<Rightarrow> path_resolution_input \<Rightarrow> bool \<Rightarrow> ('s, app_error, configuration_view) dact" where
  "read_configuration d request allow_missing =
     d_bind (cancellation_check d) (\<lambda>_.
     d_bind (port_resolve d request ConfigOptional) (\<lambda>paths.
     d_bind (cg_read d (config_file paths)) (\<lambda>original.
     d_bind (d_res (document_or_starter original allow_missing (config_file paths))) (\<lambda>document.
     d_bind (d_res (parsed d (doc_contents document))) (\<lambda>c.
     d_bind (cancellation_check d) (\<lambda>_.
       d_ok \<lparr>vw_paths = paths, vw_exists = (original \<noteq> None), vw_config = c, vw_settings = effective_settings c document\<rparr>))))))"

section \<open>Prepare, review, apply\<close>

definition prepare_configuration ::
    "('s, 'z) configuration_dependencies_scheme \<Rightarrow> configuration_request \<Rightarrow> ('s, app_error, configuration_preview) dact" where
  "prepare_configuration d request =
     d_bind (cancellation_check d) (\<lambda>_.
     d_bind (port_resolve d (cq_paths request) ConfigOptional) (\<lambda>paths.
     d_bind (cg_read d (config_file paths)) (\<lambda>original.
     let revision = map_option doc_contents original
     in d_bind (d_res (document_or_starter original (cq_allow_missing request) (config_file paths))) (\<lambda>document.
     d_bind (d_res (parsed d (doc_contents document))) (\<lambda>old.
     d_bind (d_res (cg_render d (doc_contents document) (cq_edit request))) (\<lambda>candidate.
     d_bind (d_res (parsed d candidate)) (\<lambda>new.
     let additional = compute_effective_blocklists (safe_ips (cfg_safe new)) (safe_ips (cfg_safe old)) True
     in d_bind (cancellation_check d) (\<lambda>_.
       d_ok \<lparr>cv_paths = paths, cv_original = revision, cv_candidate = candidate, cv_before = old, cv_after = new,
         cv_changed_fields = changed_fields old new,
         cv_expands_exemption = (eb_ipv4 additional \<noteq> [] \<or> eb_ipv6 additional \<noteq> [])\<rparr>))))))))"

definition apply_locked :: "('s, 'z) configuration_dependencies_scheme \<Rightarrow> configuration_preview \<Rightarrow> ('s, app_error, configuration_outcome) dact" where
  "apply_locked d v =
     d_bind (cancellation_check d) (\<lambda>_.
     d_bind (cg_read d (config_file (cv_paths v))) (\<lambda>current.
       if map_option doc_contents current \<noteq> cv_original v then d_err ConfigurationChanged
       else d_bind (d_res (parsed d (cv_candidate v))) (\<lambda>_.
       d_bind (cancellation_check d) (\<lambda>_.
       d_bind (cg_write d (config_file (cv_paths v)) (cv_candidate v) (if creates_file v then WriteNew else ReplaceExisting)) (\<lambda>_.
         d_ok \<lparr>co_changed = True, co_created = creates_file v, co_changed_fields = cv_changed_fields v\<rparr>)))))"

definition apply_configuration ::
    "('s, 'z) configuration_dependencies_scheme \<Rightarrow> configuration_preview \<Rightarrow> bool \<Rightarrow> ('s, app_error, configuration_outcome) dact" where
  "apply_configuration d v approve_exemption =
     d_bind (cancellation_check d) (\<lambda>_.
       if cv_expands_exemption v \<and> \<not> approve_exemption then d_err ConfirmationRequired
       else if \<not> preview_changed v then d_ok \<lparr>co_changed = False, co_created = False, co_changed_fields = []\<rparr>
       else with_lock d (lock_file (cv_paths v)) (apply_locked d v))"

section \<open>Lists\<close>

fun inspect_each ::
    "('s, 'z) configuration_dependencies_scheme \<Rightarrow> configuration_view \<Rightarrow> rstr list \<Rightarrow> configured_source list
     \<Rightarrow> ('s, app_error, configured_source list) dact" where
  "inspect_each d view [] acc = d_ok acc"
| "inspect_each d view (url # rest) acc =
     d_bind (cancellation_check d) (\<lambda>_.
     d_bind (d_total (cg_inspect d (remote_cache_dir (vw_paths view)) url (maxelem_get (maxelem (cfg_ipset (vw_config view)))))) (\<lambda>cache.
       inspect_each d view rest (acc @ [\<lparr>cs_url = url, cs_cache = cache, cs_freshness = None\<rparr>])))"

definition configured_sources ::
    "('s, 'z) configuration_dependencies_scheme \<Rightarrow> path_resolution_input \<Rightarrow> ('s, app_error, configured_source list) dact" where
  "configured_sources d request =
     d_bind (read_configuration d request False) (\<lambda>view.
     d_bind (inspect_each d view (urls (cfg_remote (vw_config view))) []) (\<lambda>sources.
     d_bind (cancellation_check d) (\<lambda>_. d_ok sources)))"

definition allow_list ::
    "('s, 'z) configuration_dependencies_scheme \<Rightarrow> path_resolution_input \<Rightarrow> ('s, app_error, rstr list) dact" where
  "allow_list d request =
     d_bind (read_configuration d request False) (\<lambda>view.
       d_ok (sort_dedup (map show_cidr (safe_ips (cfg_safe (vw_config view))))))"

section \<open>The files behind the ports\<close>

definition CONFIG_READ_LIMIT :: nat where
  "CONFIG_READ_LIMIT = 64 * 1024"

definition load_config_from_file ::
    "('s, 'z) file_host_scheme \<Rightarrow> (rstr \<Rightarrow> config_error + config) \<Rightarrow> rstr \<Rightarrow> ('s, app_error, config) dact" where
  "load_config_from_file h parse path =
     d_bind (d_try (read_to_string_with_limit h path CONFIG_READ_LIMIT)) (\<lambda>r. case r of
       Inl e \<Rightarrow> d_err (if e = NotFound then MissingConfigFile path else ConfigRead path e)
     | Inr contents \<Rightarrow> d_res (map_err ConfigParse (parse contents)))"

text \<open>
  The document parser answers the field paths that are present and the legacy value, or why the text is
  no TOML document.
\<close>

definition file_read_configuration ::
    "('s, 'z) file_host_scheme \<Rightarrow> (rstr \<Rightarrow> rstr + rstr set \<times> int option) \<Rightarrow> rstr
     \<Rightarrow> ('s, app_error, configuration_document option) dact" where
  "file_read_configuration h parse_document path =
     d_bind (d_try (read_to_string_with_limit h path CONFIG_READ_LIMIT)) (\<lambda>r. case r of
       Inl e \<Rightarrow> if e = NotFound then d_ok None else d_err (ConfigRead path e)
     | Inr contents \<Rightarrow> (case parse_document contents of
         Inl reason \<Rightarrow> d_err (ConfigParse (ParseError reason))
       | Inr (present, stale) \<Rightarrow> d_ok (Some \<lparr>doc_contents = contents, doc_explicit = present,
           doc_legacy_stale = (case stale of None \<Rightarrow> None | Some n \<Rightarrow> if 0 \<le> n then Some (nat n) else None)\<rparr>)))"

definition ensure_size :: "rstr \<Rightarrow> app_error + unit" where
  "ensure_size contents = (if utf8_len contents > CONFIG_READ_LIMIT
     then Inl (ConfigurationEdit (lit ''proposed configuration exceeds the 65536-byte limit'')) else Inr ())"

definition publish_new :: "('s, 'z) file_host_scheme \<Rightarrow> rstr \<Rightarrow> rstr \<Rightarrow> ('s, app_error, unit) dact" where
  "publish_new h path contents =
     d_bind (d_map_err (ConfigWrite path) (fh_create_dir_all h (path_directory path))) (\<lambda>_.
       d_map_err (\<lambda>e. if e = AlreadyExists then ConfigurationChanged else ConfigWrite path e)
         (create_private_string_atomic h path contents))"

definition file_write_configuration ::
    "('s, 'z) file_host_scheme \<Rightarrow> (rstr \<Rightarrow> config_error + config) \<Rightarrow> rstr \<Rightarrow> rstr \<Rightarrow> configuration_write_mode
     \<Rightarrow> ('s, app_error, unit) dact" where
  "file_write_configuration h parse path contents mode =
     d_bind (d_res (ensure_size contents)) (\<lambda>_.
     d_bind (d_res (map_err ConfigParse (parse contents))) (\<lambda>_.
       case mode of
         ReplaceExisting \<Rightarrow> d_map_err (ConfigWrite path) (write_private_string_atomic_with_limit h path contents CONFIG_READ_LIMIT)
       | WriteNew \<Rightarrow> publish_new h path contents))"

text \<open>Ports over files: the reader and the writer above, with one decoder for both.\<close>

definition over_files ::
    "('s, 'z) configuration_dependencies_scheme \<Rightarrow> ('s, 'y) file_host_scheme \<Rightarrow> (rstr \<Rightarrow> rstr + rstr set \<times> int option) \<Rightarrow> bool" where
  "over_files d h parse_document \<longleftrightarrow> cg_read d = file_read_configuration h parse_document
     \<and> cg_write d = file_write_configuration h (cg_parse d)"


section \<open>What reading and writing do\<close>

fun mode_of :: "configuration_write_mode \<Rightarrow> publication_mode" where
  "mode_of ReplaceExisting = Replace"
| "mode_of WriteNew = CreateNew"

lemma config_limit: "CONFIG_READ_LIMIT \<le> U64_LIMIT - 1"
  by (simp add: CONFIG_READ_LIMIT_def U64_LIMIT_def)

context file_system
begin

lemma config_read_returns:
  "returns (\<lambda>s. files s = F) (file_read_configuration h parse_document path)
     (\<lambda>d s. files s = F \<and> F path = map_option (Utf8 \<circ> doc_contents) d) (\<lambda>_ s. files s = F)"
  unfolding file_read_configuration_def
proof (rule returns_bind [OF returns_try [OF read_string_returns [OF config_limit]]])
  fix r :: "io_error + rstr"
  show "returns (\<lambda>s. case r of
        Inl e \<Rightarrow> files s = F \<and> (e = NotFound \<longrightarrow> F path = None)
      | Inr t \<Rightarrow> files s = F \<and> F path = Some (Utf8 t) \<and> utf8_len t \<le> CONFIG_READ_LIMIT)
     (case r of
       Inl e \<Rightarrow> if e = NotFound then d_ok None else d_err (ConfigRead path e)
     | Inr contents \<Rightarrow> (case parse_document contents of
         Inl reason \<Rightarrow> d_err (ConfigParse (ParseError reason))
       | Inr (present, stale) \<Rightarrow> d_ok (Some \<lparr>doc_contents = contents, doc_explicit = present,
           doc_legacy_stale = (case stale of None \<Rightarrow> None | Some n \<Rightarrow> if 0 \<le> n then Some (nat n) else None)\<rparr>)))
     (\<lambda>d s. files s = F \<and> F path = map_option (Utf8 \<circ> doc_contents) d) (\<lambda>_ s. files s = F)"
    by (cases r) (auto intro!: returns_ok returns_err split: sum.splits)
qed

lemma config_write_returns:
  "returns (\<lambda>s. files s = F) (file_write_configuration h parse path c mode)
     (\<lambda>_ s. files s = F(path \<mapsto> Utf8 c)) (\<lambda>_ s. written_or_kept h (mode_of mode) path (Utf8 c) F (files s))"
proof -
  let ?E = "\<lambda>_ s. written_or_kept h (mode_of mode) path (Utf8 c) F (files s)"
  have res: "returns (\<lambda>s. files s = F) (d_res r) (\<lambda>_ s. files s = F) ?E" for r :: "app_error + 'x"
    by (rule returns_res) (auto split: sum.split intro: written_or_kept_refl)
  have publish: "returns (\<lambda>s. files s = F) (d_map_err g (write_bytes_atomic_mode h path (Utf8 c) (mode_of mode) True))
      (\<lambda>_ s. files s = F(path \<mapsto> Utf8 c)) ?E" for g :: "io_error \<Rightarrow> app_error"
    by (rule returns_map_err, rule returns_weaken [OF atomic_write_returns]) auto
  have dirs: "returns (\<lambda>s. files s = F) (d_map_err g (fh_create_dir_all h p)) (\<lambda>_ s. files s = F) ?E" for g :: "io_error \<Rightarrow> app_error" and p
    by (rule returns_map_err, rule returns_weaken [OF quiet_calls(5)]) (auto intro: written_or_kept_refl)
  have new: "returns (\<lambda>s. files s = F) (publish_new h path c) (\<lambda>_ s. files s = F(path \<mapsto> Utf8 c)) ?E" if "mode = WriteNew"
    unfolding publish_new_def create_private_string_atomic_def
    by (rule returns_bind [OF dirs]) (use publish that in simp)
  have old: "returns (\<lambda>s. files s = F) (d_map_err (ConfigWrite path) (write_private_string_atomic_with_limit h path c CONFIG_READ_LIMIT))
      (\<lambda>_ s. files s = F(path \<mapsto> Utf8 c)) ?E" if "mode = ReplaceExisting"
    unfolding write_private_string_atomic_with_limit_def
    using publish that by (cases "CONFIG_READ_LIMIT < utf8_len c")
      (auto simp: d_map_err_def d_err_def returns_def intro: written_or_kept_refl)
  show ?thesis
    unfolding file_write_configuration_def
    by (rule returns_bind [OF res], rule returns_bind [OF res], cases mode) (use new old in simp_all)
qed

end


section \<open>Reviewed changes\<close>

text \<open>The addresses that the saved configuration exempts; the starter's while there is no file.\<close>

definition exempt :: "(rstr \<Rightarrow> config_error + config) \<Rightarrow> rstr \<Rightarrow> address set" where
  "exempt parse contents = (case parse contents of Inr c \<Rightarrow> addrs_of (safe_ips (cfg_safe c)) | Inl _ \<Rightarrow> {})"

definition saved_exemptions :: "(rstr \<Rightarrow> config_error + config) \<Rightarrow> file_bytes option \<Rightarrow> address set" where
  "saved_exemptions parse f = (case f of
     None \<Rightarrow> exempt parse DEFAULT_CONFIG_TEMPLATE | Some (Utf8 t) \<Rightarrow> exempt parse t | Some (Raw _) \<Rightarrow> {})"

text \<open>A parser whose configurations list canonical networks.\<close>

definition canonical_parser :: "(rstr \<Rightarrow> config_error + config) \<Rightarrow> bool" where
  "canonical_parser parse \<longleftrightarrow> (\<forall>t c. parse t = Inr c \<longrightarrow> canonicals_ok (safe_ips (cfg_safe c)))"

lemma toml_canonical: "canonical_parser (Config_from_toml_str toml_decode url_parse)"
  using Config_from_raw_ok unfolding canonical_parser_def Config_from_toml_str_def
  by (auto simp: and_then_Inr_iff config_ok_def safe_ok_def)

text \<open>What a prepared change knows of the revision it was made from.\<close>

definition reviewed :: "(rstr \<Rightarrow> config_error + config) \<Rightarrow> configuration_preview \<Rightarrow> bool" where
  "reviewed parse v \<longleftrightarrow> parse (cv_candidate v) = Inr (cv_after v)
     \<and> parse (case cv_original v of None \<Rightarrow> DEFAULT_CONFIG_TEMPLATE | Some t \<Rightarrow> t) = Inr (cv_before v)
     \<and> (cv_expands_exemption v \<longleftrightarrow>
          \<not> addrs_of (safe_ips (cfg_safe (cv_after v))) \<subseteq> addrs_of (safe_ips (cfg_safe (cv_before v))))"

lemma first_address: "network c \<in> cidr_addrs c"
  by (simp add: cidr_addrs_iff)

lemma collapsed_empty: "collapsed cs \<Longrightarrow> cidrs_addrs cs = {} \<longleftrightarrow> cs = []"
  by (cases cs) (auto simp: cidrs_addrs_def intro: first_address)

lemma nothing_effective:
  assumes "canonicals_ok cs" "canonicals_ok ss"
  shows "eb_ipv4 (compute_effective_blocklists cs ss True) = [] \<and> eb_ipv6 (compute_effective_blocklists cs ss True) = []
    \<longleftrightarrow> addrs_of cs \<subseteq> addrs_of ss"
proof -
  let ?e = "compute_effective_blocklists cs ss True"
  note e = effective_collapsed [OF assms, of True]
  have "family_enabled True a" for a by (cases a) simp_all
  then have "effective_addrs ?e = addrs_of cs - addrs_of ss" using e(3) by auto
  moreover have "eb_ipv4 ?e = [] \<and> eb_ipv6 ?e = [] \<longleftrightarrow> effective_addrs ?e = {}"
    by (auto simp: effective_addrs_def collapsed_empty [OF e(1)] collapsed_empty [OF e(2)])
  ultimately show ?thesis by auto
qed

lemma prepared_reviewed:
  assumes parser: "canonical_parser (cg_parse d)" and run: "prepare_configuration d request s = Some (Inr v, t)"
  shows "reviewed (cg_parse d) v"
proof -
  obtain original document old new where "document_or_starter original (cq_allow_missing request) (config_file (cv_paths v)) = Inr document"
    "parsed d (doc_contents document) = Inr old" "parsed d (cv_candidate v) = Inr new"
    "cv_original v = map_option doc_contents original" "cv_before v = old" "cv_after v = new"
    "cv_expands_exemption v \<longleftrightarrow> \<not> (eb_ipv4 (compute_effective_blocklists (safe_ips (cfg_safe new)) (safe_ips (cfg_safe old)) True) = []
       \<and> eb_ipv6 (compute_effective_blocklists (safe_ips (cfg_safe new)) (safe_ips (cfg_safe old)) True) = [])"
    using run unfolding prepare_configuration_def Let_def
    by (elim bind_succeeds) (auto dest!: ok_succeeds res_succeeds)
  then show ?thesis
    using parser nothing_effective unfolding reviewed_def canonical_parser_def
    by (auto simp: parsed_def document_or_starter_def map_err_Inr_iff split: option.splits if_splits)
qed


text \<open>What applying a reviewed change may leave of the files.\<close>

definition edit_outcome ::
    "('s, 'z) file_host_scheme \<Rightarrow> (rstr \<Rightarrow> config_error + config) \<Rightarrow> configuration_preview \<Rightarrow> bool
     \<Rightarrow> app_error + configuration_outcome \<Rightarrow> file_map \<Rightarrow> file_map \<Rightarrow> bool" where
  "edit_outcome h parse v approve r F F' \<longleftrightarrow> (let path = config_file (cv_paths v) in
     (\<forall>p. p \<noteq> path \<and> p \<notin> temp_paths h path \<longrightarrow> F' p = F p)
   \<and> (F' path = F path \<or> F path = map_option Utf8 (cv_original v) \<and> F' path = Some (Utf8 (cv_candidate v)))
   \<and> (case r of
        Inr out \<Rightarrow> if co_changed out then F path = map_option Utf8 (cv_original v) \<and> F' = F(path \<mapsto> Utf8 (cv_candidate v))
          else F' = F \<and> cv_original v = Some (cv_candidate v)
      | Inl _ \<Rightarrow> True)
   \<and> (cv_expands_exemption v \<and> \<not> approve \<longrightarrow> F' = F)
   \<and> (\<not> approve \<longrightarrow> saved_exemptions parse (F' path) \<subseteq> saved_exemptions parse (F path)))"

definition configuration_ports_law :: "('s, 'z) configuration_dependencies_scheme \<Rightarrow> ('s \<Rightarrow> 'v) \<Rightarrow> bool" where
  "configuration_ports_law d v \<longleftrightarrow> (\<forall>f s. v (snd (port_is_cancelled d s)) = v s \<and> steps (keeps v) (port_acquire d f)
     \<and> v (port_release d s) = v s)"

lemma kept_outcome: "(case r of Inr out \<Rightarrow> \<not> co_changed out \<and> cv_original v = Some (cv_candidate v) | Inl _ \<Rightarrow> True) \<Longrightarrow> edit_outcome h parse v approve r F F"
  by (auto simp: edit_outcome_def Let_def split: sum.splits)

lemma keeping_returns:
  assumes "steps (keeps v) m" "\<And>e s. v s = F \<Longrightarrow> E e s"
  shows "returns (\<lambda>s. v s = F) m (\<lambda>_ s. v s = F) E"
proof (rule returnsI)
  fix s assume "v s = F"
  then obtain r s' where "m s = Some (r, s')" "v s' = F" using stepsD [OF assms(1)] unfolding keeps_def by metis
  then show "\<exists>r s'. m s = Some (r, s') \<and> (case r of Inl e \<Rightarrow> E e s' | Inr _ \<Rightarrow> v s' = F)"
    using assms(2) by (cases r) auto
qed

lemma finally_returns:
  "returns P m (\<lambda>x s. Q x (f s)) (\<lambda>e s. E e (f s)) \<Longrightarrow> returns P (d_finally f m) Q E"
  by (fastforce simp: returns_def d_finally_def)

text \<open>A change that was reviewed and, where it exempts more, approved.\<close>

lemma changed_exempts:
  assumes "reviewed parse v" "cv_expands_exemption v \<longrightarrow> approve" "\<not> approve" "f = map_option Utf8 (cv_original v)"
  shows "saved_exemptions parse (Some (Utf8 (cv_candidate v))) \<subseteq> saved_exemptions parse f"
  using assms by (cases "cv_original v") (auto simp: reviewed_def saved_exemptions_def exempt_def)

lemma written_outcome:
  assumes "reviewed parse v" "cv_expands_exemption v \<longrightarrow> approve" "F (config_file (cv_paths v)) = map_option Utf8 (cv_original v)"
    and "written_or_kept h mode (config_file (cv_paths v)) (Utf8 (cv_candidate v)) F F'"
  shows "edit_outcome h parse v approve (Inl e) F F'"
proof -
  let ?path = "config_file (cv_paths v)"
  have "F' ?path = F ?path \<or> F' ?path = Some (Utf8 (cv_candidate v))" using written_or_kept_path [OF assms(4)] .
  then show ?thesis
    using assms(2,3) written_or_kept_other [OF assms(4)] changed_exempts [OF assms(1,2) _ assms(3)]
    unfolding edit_outcome_def Let_def by (intro conjI allI impI) auto
qed

lemma published_outcome:
  assumes "reviewed parse v" "cv_expands_exemption v \<longrightarrow> approve" "F (config_file (cv_paths v)) = map_option Utf8 (cv_original v)" "co_changed out"
  shows "edit_outcome h parse v approve (Inr out) F (F(config_file (cv_paths v) \<mapsto> Utf8 (cv_candidate v)))"
  using assms changed_exempts [OF assms(1,2) _ assms(3)] by (auto simp: edit_outcome_def Let_def)

context file_system
begin

lemma apply_returns:
  fixes d :: "('s, 'x) configuration_dependencies_scheme"
  assumes over: "over_files d h parse_document" and ports: "configuration_ports_law d files"
    and review: "reviewed (cg_parse d) v"
  shows "returns (\<lambda>s. files s = F) (apply_configuration d v approve)
    (\<lambda>out s. edit_outcome h (cg_parse d) v approve (Inr out) F (files s))
    (\<lambda>e s. edit_outcome h (cg_parse d) v approve (Inl e) F (files s))"
proof -
  let ?path = "config_file (cv_paths v)" and ?out = "edit_outcome h (cg_parse d) v approve"
  let ?E = "\<lambda>e s. ?out (Inl e) F (files s)"
  have quiet: "returns (\<lambda>s. files s = F) m (\<lambda>_ s. files s = F) ?E" if "steps (keeps files) m" for m :: "('s, app_error, 'y) dact"
    by (rule keeping_returns [OF that]) (auto intro: kept_outcome)
  have check: "returns (\<lambda>s. files s = F) (cancellation_check d) (\<lambda>_ s. files s = F) ?E"
    by (rule quiet) (use ports in \<open>simp add: configuration_ports_law_def steps_def keeps_def cancellation_check_def split: prod.split, metis snd_conv\<close>)
  have acquire: "returns (\<lambda>s. files s = F) (port_acquire d f) (\<lambda>_ s. files s = F) ?E" for f
    by (rule quiet) (use ports in \<open>simp add: configuration_ports_law_def\<close>)
  have release: "files (port_release d s) = files s" for s using ports by (simp add: configuration_ports_law_def)
  have same: "returns (\<lambda>s. files s = F) (d_res r) (\<lambda>_ s. files s = F) ?E" for r :: "app_error + 'y"
    by (rule returns_res) (auto intro: kept_outcome split: sum.split)
  have read: "returns (\<lambda>s. files s = F) (cg_read d ?path) (\<lambda>current s. files s = F \<and> F ?path = map_option (Utf8 \<circ> doc_contents) current) ?E"
    unfolding conjunct1 [OF over [unfolded over_files_def]]
    by (rule returns_weaken [OF config_read_returns]) (auto intro: kept_outcome)
  have locked: "returns (\<lambda>s. files s = F) (apply_locked d v) (\<lambda>out s. ?out (Inr out) F (files s)) ?E"
    if approved: "cv_expands_exemption v \<longrightarrow> approve"
    unfolding apply_locked_def
  proof (rule returns_bind [OF check], rule returns_bind [OF read], rule returns_if, goal_cases)
    case (1 x current)
    show ?case by (rule returns_err) (auto intro: kept_outcome)
  next
    case (2 x current)
    let ?store = "cg_write d ?path (cv_candidate v) (if creates_file v then WriteNew else ReplaceExisting)"
    show ?case
    proof (cases "F ?path = map_option Utf8 (cv_original v)")
      case True
      have publish: "returns (\<lambda>s. files s = F) ?store (\<lambda>_ s. files s = F(?path \<mapsto> Utf8 (cv_candidate v))) ?E"
        unfolding conjunct2 [OF over [unfolded over_files_def]]
        by (rule returns_weaken [OF config_write_returns]) (auto intro: written_outcome [where F=F, OF review approved True])
      show ?thesis
        by (rule returns_pre [of _ "\<lambda>s. files s = F"], simp, rule returns_bind [OF same], rule returns_bind [OF check],
            rule returns_bind [OF publish], rule returns_ok) (simp add: published_outcome [where F=F, OF review approved True])
    next
      case False
      have "returns (\<lambda>s. files s = F \<and> F ?path = map_option (Utf8 \<circ> doc_contents) current) m Q ?E" for m :: "('s, app_error, configuration_outcome) dact" and Q
        by (rule returns_false, cases current; cases "cv_original v") (use False 2 in auto)
      then show ?thesis .
    qed
  qed
  show ?thesis
    unfolding apply_configuration_def with_lock_def
    by (rule returns_bind [OF check], intro returns_if returns_ok returns_err returns_bind [OF acquire] finally_returns)
      (use locked in \<open>auto simp: release preview_changed_def intro: kept_outcome\<close>)
qed

end

section \<open>Properties\<close>

text \<open>
  C18: A change of the configuration is applied as it was reviewed. Applying returns. The file is left as
  it was, or holds the reviewed text where the reviewed revision was; on success exactly this file has
  changed. A change that exempts an address which the saved configuration does not exempt writes nothing
  until it is approved, so without approval no address becomes exempt, whatever call fails.
\<close>

theorem configuration_applied_as_reviewed:
  assumes "file_law h files" "over_files d h parse_document" "configuration_ports_law d files"
    and parse: "cg_parse d = Config_from_toml_str toml_decode url_parse"
    and prepared: "prepare_configuration d request s0 = Some (Inr v, s1)"
  shows "\<exists>r s'. apply_configuration d v approve s = Some (r, s')
    \<and> edit_outcome h (cg_parse d) v approve r (files s) (files s')"
proof -
  have "reviewed (cg_parse d) v" using prepared_reviewed [OF _ prepared] toml_canonical parse by simp
  from returns_imp [OF file_system.apply_returns [OF file_systemI [OF assms(1)] assms(2,3) this, where F="files s" and approve=approve], of s]
  obtain r s' where "apply_configuration d v approve s = Some (r, s')"
    "case r of Inl e \<Rightarrow> edit_outcome h (cg_parse d) v approve (Inl e) (files s) (files s')
      | Inr out \<Rightarrow> edit_outcome h (cg_parse d) v approve (Inr out) (files s) (files s')" by blast
  then show ?thesis by (cases r) auto
qed


text \<open>An example: a decoder of two texts, the second of which exempts a network, and a file with the first.\<close>

definition demo_decoder :: "rstr \<Rightarrow> rstr + raw_config" where
  "demo_decoder t = Inr \<lparr>raw_ipset = Some \<lparr>raw_set_name = Some (lit ''kidobo''), raw_set_name_v6 = None,
        raw_enable_ipv6 = None, raw_chain_action = None, raw_set_type = None, raw_hashsize = None, raw_maxelem = None, raw_timeout = None\<rparr>,
      raw_safe = Some \<lparr>raw_ips = Some (if t = lit ''new'' then [lit ''10.0.0.0/8''] else []), raw_include_github_meta = None,
        raw_github_meta_url = None, raw_github_meta_categories = None\<rparr>, raw_remote = None, raw_asn = None\<rparr>"

definition demo_http :: url_parser where
  "demo_http u = Some (lit ''https'', Some (lit ''host''))"

definition demo_places :: resolved_paths where
  "demo_places = \<lparr>root_override = None, config_dir = lit ''/etc'', config_file = lit ''/etc/config.toml'', data_dir = lit ''/var'',
     blocklist_file = lit ''/var/blocklist.txt'', cache_dir = lit ''/tmp'', remote_cache_dir = lit ''/tmp/remote'', lock_file = lit ''/tmp/lock''\<rparr>"

definition demo_document :: "rstr \<Rightarrow> rstr + rstr set \<times> int option" where
  "demo_document t = Inr ({}, None)"

definition file_configurations :: "memory_files configuration_dependencies" where
  "file_configurations = \<lparr>port_is_cancelled = (\<lambda>s. (False, s)), port_resolve = (\<lambda>_ _. d_ok demo_places),
     port_load_config = load_config_from_file memory_host (Config_from_toml_str demo_decoder demo_http), port_acquire = (\<lambda>_. d_ok ()),
     port_release = (\<lambda>s. s), port_now = d_ok 0, port_load_bans = (\<lambda>_. d_ok \<lparr>tb_ips = [], tb_asns = []\<rparr>), port_save_bans = (\<lambda>_ _. d_ok ()),
     cg_parse = Config_from_toml_str demo_decoder demo_http, cg_read = file_read_configuration memory_host demo_document,
     cg_render = (\<lambda>_ _. Inr (lit ''new'')),
     cg_write = file_write_configuration memory_host (Config_from_toml_str demo_decoder demo_http),
     cg_inspect = (\<lambda>_ _ _ s. Some (\<lparr>sc_availability = NotAvailable, sc_provenance = None, sc_detail = []\<rparr>, s))\<rparr>"

definition saved_disk :: "nat \<Rightarrow> memory_files" where
  "saved_disk budget = \<lparr>mf_files = [(lit ''/etc/config.toml'', Utf8 (lit ''old''))], mf_counter = 0, mf_budget = budget\<rparr>"

definition demo_change :: configuration_request where
  "demo_change = \<lparr>cq_paths = \<lparr>explicit_config_path = None, temp_dir = lit ''/tmp'', env_vars = []\<rparr>,
     cq_edit = AddAllow (lit ''10.0.0.0/8''), cq_allow_missing = False\<rparr>"

lemma file_configurations_law: "over_files file_configurations memory_host demo_document" "configuration_ports_law file_configurations v"
  by (simp_all add: over_files_def configuration_ports_law_def file_configurations_def keeping.steps_ok)

lemma success_answer:
  assumes "map_sum f g r = Inr y"
  obtains x where "r = Inr x" "g x = y"
  using assms by (cases r) auto

theorem configuration_applied_as_reviewed_witness:
  "\<exists>v s1 r s'. prepare_configuration file_configurations demo_change (saved_disk 100) = Some (Inr v, s1) \<and> cv_expands_exemption v
    \<and> apply_configuration file_configurations v False s1 = Some (r, s')
    \<and> edit_outcome memory_host (cg_parse file_configurations) v False r (mf_view s1) (mf_view s')"
proof -
  have "map_option (map_sum (\<lambda>_. ()) cv_expands_exemption \<circ> fst) (prepare_configuration file_configurations demo_change (saved_disk 100))
      = Some (Inr True)" by code_simp
  then obtain v s1 where v: "prepare_configuration file_configurations demo_change (saved_disk 100) = Some (Inr v, s1)" "cv_expands_exemption v"
    by (auto elim!: success_answer)
  have "cg_parse file_configurations = Config_from_toml_str demo_decoder demo_http" by (simp add: file_configurations_def)
  from configuration_applied_as_reviewed [OF memory_host_law file_configurations_law this v(1), of False s1] v
  show ?thesis by blast
qed

end
