(* ===== verification/Spec2Isabelle.thy ===== *)
theory Spec2Isabelle
  imports Lookup Sync_System Ban_Disk Remote_Cache Command_Executor Preview_App Flush_App
    Configuration_App
begin

text \<open>
  Verification library of kidobo, a Linux blocklist enforcer written in Rust. It keeps two
  kernel ipsets (one per address family) equal to what the configured sources ask to block,
  minus what the safelists protect, and wires them into \<^verbatim>\<open>iptables\<close>.

  \<^bold>\<open>The program.\<close> The crates under \<^verbatim>\<open>src/crates\<close> are layered. \<^verbatim>\<open>kidobo-core\<close> is pure: network
  types and set arithmetic, parsers, the local blocklist document, lookup, temporary bans,
  configuration. \<^verbatim>\<open>kidobo-app\<close> holds the workflows over ports (traits): synchronization, preview,
  bans and so on. \<^verbatim>\<open>kidobo-adapters\<close> implements the ports with commands and files. The binary
  under \<^verbatim>\<open>src/src\<close> parses arguments and prints.

  \<^bold>\<open>Theories and code.\<close>

  \<^item> \<^verbatim>\<open>Prelude\<close>: text as lists of code points with the \<open>str\<close> functions the code uses, results as
    sums, state-passing actions, sorted deduplication, \<open>partition_point\<close>.
  \<^item> \<^verbatim>\<open>Network_Types\<close>, \<^verbatim>\<open>Intervals\<close>, \<^verbatim>\<open>Radix_Sort\<close>, \<^verbatim>\<open>Cidr_Blocks\<close>, \<^verbatim>\<open>Network\<close>: \<^verbatim>\<open>network_types.rs\<close> and
    \<^verbatim>\<open>network.rs\<close>. Addresses are words of 32 and 128 bits; the generic code is one definition for both
    widths. The lemmas give the set semantics of merging, carving and block emission, and the
    sort independence of the radix path.
  \<^item> \<^verbatim>\<open>Ip_Text\<close>: the address parser and printer of the standard library and the CIDR parsers.
  \<^item> \<^verbatim>\<open>Sync_Core\<close>, \<^verbatim>\<open>Blocklist\<close>, \<^verbatim>\<open>Lookup\<close>, \<^verbatim>\<open>Temporary_Bans\<close>, \<^verbatim>\<open>Config\<close>: the core files \<^verbatim>\<open>sync.rs\<close> and
    \<^verbatim>\<open>asn.rs\<close>, \<^verbatim>\<open>blocklist.rs\<close>, \<^verbatim>\<open>lookup.rs\<close>, \<^verbatim>\<open>temporary_bans.rs\<close>, \<^verbatim>\<open>config.rs\<close> and
    \<^verbatim>\<open>config_validation.rs\<close>.
  \<^item> \<^verbatim>\<open>Commands\<close>, \<^verbatim>\<open>Actions\<close>: commands (\<^verbatim>\<open>command_runner.rs\<close>, \<^verbatim>\<open>command_common.rs\<close>) and the actions
    they are run in. An action maps a state to a result and a state, or to nothing when it does
    not return; the combinators and the predicates \<open>returns\<close>, \<open>steps\<close>, \<open>emits\<close>, \<open>yields\<close> with their rules
    carry the proofs about all workflows.
  \<^item> \<^verbatim>\<open>Iptables\<close>, \<^verbatim>\<open>Ipset\<close>, \<^verbatim>\<open>Enforcement\<close>: the adapters \<^verbatim>\<open>iptables.rs\<close>, \<^verbatim>\<open>ipset.rs\<close> and
    \<^verbatim>\<open>enforcement.rs\<close>. The runner is a parameter; \<open>iptables_law\<close>, \<open>ipset_law\<close> and \<open>host_law\<close> state what is
    documented of the two tools, and executable models of the tools satisfy them.
  \<^item> \<^verbatim>\<open>App_Types\<close>, \<^verbatim>\<open>Sync_App\<close>: \<^verbatim>\<open>error.rs\<close>, \<^verbatim>\<open>paths.rs\<close>, \<^verbatim>\<open>ports.rs\<close>, \<^verbatim>\<open>source.rs\<close> and \<^verbatim>\<open>sync.rs\<close> of the
    application. A port is a field of a record of actions.
  \<^item> \<^verbatim>\<open>Sync_Select\<close>, \<^verbatim>\<open>Sync_Order\<close>, \<^verbatim>\<open>Sync_System\<close>: what a synchronization selects, in which order it
    works, and what it does to a whole host.
  \<^item> \<^verbatim>\<open>Files\<close>, \<^verbatim>\<open>Blocklist_File\<close>, \<^verbatim>\<open>Temporary_File\<close>: \<^verbatim>\<open>limited_io.rs\<close>, \<^verbatim>\<open>blocklist_file.rs\<close> and \<^verbatim>\<open>temporary_bans.rs\<close> of
    the adapters. Bounded reads and atomic publication, and the two operator lists on top of them.
  \<^item> \<^verbatim>\<open>Ban_App\<close>, \<^verbatim>\<open>Ban_Store\<close>, \<^verbatim>\<open>Ban_Disk\<close>: \<^verbatim>\<open>blocklist.rs\<close> with \<^verbatim>\<open>blocklist/ban.rs\<close>, \<^verbatim>\<open>unban.rs\<close> and \<^verbatim>\<open>asn.rs\<close> of the
    application. \<^verbatim>\<open>Ban_Store\<close> proves the workflows against an abstract pair of lists, \<^verbatim>\<open>Ban_Disk\<close> connects
    the pair to the two files.
  \<^item> \<^verbatim>\<open>Remote_Parse\<close>, \<^verbatim>\<open>Generations\<close>, \<^verbatim>\<open>Remote_Cache\<close>: \<^verbatim>\<open>remote_parse.rs\<close>, \<^verbatim>\<open>cache_generation.rs\<close>, and
    \<^verbatim>\<open>http_cache.rs\<close> with \<^verbatim>\<open>http_fetch.rs\<close>, \<^verbatim>\<open>cached_fetch.rs\<close> and the limits of \<^verbatim>\<open>http_client.rs\<close>.
  \<^item> \<^verbatim>\<open>Command_Executor\<close>: the executor of \<^verbatim>\<open>command_runner.rs\<close> that supervises a child process.
  \<^item> \<^verbatim>\<open>Preview_App\<close>: \<^verbatim>\<open>preview.rs\<close> of the application, and its agreement with the synchronization.
  \<^item> \<^verbatim>\<open>Flush_App\<close>: \<^verbatim>\<open>flush.rs\<close> of the application and of the adapters, with the protected directories of
    \<^verbatim>\<open>private_fs.rs\<close>.
  \<^item> \<^verbatim>\<open>Configuration_App\<close>: \<^verbatim>\<open>configuration.rs\<close> of the application, \<^verbatim>\<open>config.rs\<close> of the adapters, and the reader
    and the writer of \<^verbatim>\<open>config_management.rs\<close>.

  \<^bold>\<open>Interfaces.\<close> What one part needs of another is a locale over the operations it calls, and every
  locale is interpreted on definitions of the model: \<^verbatim>\<open>start_sorter\<close> and \<^verbatim>\<open>interval_merger\<close> (a sort and
  a merge that set operations may use) on both address widths, \<^verbatim>\<open>source_index\<close> on the lookup index; \<^verbatim>\<open>step_preorder\<close> (relations between states that
  actions keep) on the relations of each component; \<^verbatim>\<open>quiet_sources\<close>, \<^verbatim>\<open>quiet_ports\<close>, \<^verbatim>\<open>observed\<close> and
  \<^verbatim>\<open>guarded\<close> (what a synchronization relies on) on a machine in memory; \<^verbatim>\<open>command_host\<close>, \<^verbatim>\<open>other_tool\<close> and
  \<^verbatim>\<open>other_state\<close> (tools that leave each other alone) and \<^verbatim>\<open>enforcing_sync\<close> (workflow, adapters and tools
  together) on a machine with both tools; \<^verbatim>\<open>file_system\<close>, \<^verbatim>\<open>ban_store\<close>, \<^verbatim>\<open>disk_ban\<close>, \<^verbatim>\<open>cache_store\<close> and
  \<^verbatim>\<open>remote_store\<close> on files in memory, where every call may fail after a budget; \<^verbatim>\<open>process_system\<close> on a
  machine with one child.

  \<^bold>\<open>Laws.\<close> Code outside the repository is an argument. What is relied on is a definition with the
  suffix \<^verbatim>\<open>_law\<close>, and names documented behaviour only: \<open>iptables_law\<close>, \<open>ipset_law\<close>, \<open>host_law\<close> (the two tools;
  a failing command changes nothing, a failed restore any prefix of its script; a listing may print the
  default \<^verbatim>\<open>--reject-with\<close> of a REJECT rule, and has a family only for the set types that have one), \<open>file_law\<close> and
  \<open>directory_law\<close> (system calls on files; any of them may fail at any time), \<open>manifest_law\<close> and \<open>toml_law\<close>
  (the JSON and TOML libraries read back what they write), \<open>client_law\<close> (an HTTP client touches no
  file), \<open>process_law\<close> (a monotonic clock, and a wait that returns for a child that is gone) and
  \<open>signal_law\<close> (a kill signal makes the child, or its whole group, go), \<open>ban_ports_law\<close>,
  \<open>sources_law\<close>, \<open>ports_law\<close>, \<open>observer_law\<close>, \<open>kernel_law\<close>, \<open>lock_law\<close>, \<open>configs_law\<close>, \<open>flush_ports_law\<close> and
  \<open>configuration_ports_law\<close> (the ports of the workflows), \<open>tools_law\<close> and \<open>private_law\<close> (both tools and the
  protected directories beside the cached files).
  Three further hypotheses serve single theorems: \<open>command_log\<close> (the commands given to a runner are
  recorded; it holds of every runner with a recorder around it), and \<open>steady_reads\<close> with \<open>steady_client\<close>
  (reads that depend on the file only, a client that answers a request always alike), without
  which two runs from one state cannot be compared.
  Each law is proved of an executable model, on which the witnesses run the workflows.

  \<^bold>\<open>What the lemmas show.\<close> Pure code: exact set semantics with minimality (networks, effective lists,
  lookup, unban plans), round trips (addresses, durations, documents, feeds, configurations), bounds.
  Workflows: they return whatever the outside does; a synchronization enforces exactly the selection
  or keeps what was enforced, in a fixed order, with the lock released; external safelists never
  disarm it; enforcement that is in force stays in force while it is rewired; bans and unbans change
  the two lists as requested or not at all; files are replaced whole; a selected cache generation
  survives, and feeds are answered with validated data only, without losing what was cached (\<open>retains\<close>:
  what a store holds of a feed is kept by every step), and previewed as they will be loaded (\<open>sees\<close>: an
  action whose outcome is determined by the files it reads); a clean-up issues every one of its commands
  (\<open>issues\<close>); a supervised child is killed and reaped; a flush accounts for every step and touches
  nothing of others; a configuration is saved as it was reviewed, and exempts more only when approved.

  \<^bold>\<open>Bounds and fuel.\<close> Recursion is structural, over a measure, or \<open>partial_function\<close> where the
  loop depends on a tool (deleting jumps, supervising a child); for the latter it is proved that they return.
  The counts in the code are kept: 32 staging directories, the attempts for temporary names, the
  read limits, 31 bytes of a set name, 64-bit times, 32-bit autonomous system numbers. Nothing
  depends on fuel. Addresses are words; lengths and times are natural numbers with the limits of
  their Rust types written out where the code can reach them.

  \<^bold>\<open>Not modelled.\<close> Log messages and the texts of foreign diagnostics (an error keeps its constructor
  and its data). Threads: \<^verbatim>\<open>sync_sources.rs\<close> fetches feeds in parallel and sorts the results; the
  library models one feed. \<^verbatim>\<open>github_meta.rs\<close> and \<^verbatim>\<open>asn.rs\<close> of the adapters (two further caches over the
  same generations and files, with a JSON document and a resolver command), the editor of
  TOML text in \<^verbatim>\<open>config_management.rs\<close> and \<^verbatim>\<open>config_edit.rs\<close> (a syntax tree that lives in a library; a parameter),
  and the workflows \<^verbatim>\<open>bans.rs\<close>, \<^verbatim>\<open>doctor.rs\<close>, \<^verbatim>\<open>init.rs\<close>, \<^verbatim>\<open>inspection.rs\<close>, \<^verbatim>\<open>lookup.rs\<close> of the application
  with their adapters. \<^verbatim>\<open>lock.rs\<close>, \<^verbatim>\<open>path.rs\<close> and \<^verbatim>\<open>prompt.rs\<close> are system calls behind ports that are
  parameters here. The command line under \<^verbatim>\<open>src/src\<close> and the end-to-end tool under \<^verbatim>\<open>src/tools\<close> parse
  arguments, print, and call the workflows. Symbolic links and non-Unicode paths are outside the file model.
\<close>

end
